(* ===== verification/Ip_Addr.thy ===== *)
theory Ip_Addr
  imports Prelude
begin

text \<open>
  The part of Rust's \<open>std::net\<close> that \<open>recipe.rs\<close> calls: reading and writing IP literals.
  A parser takes the remaining text and returns the value with the rest, or \<open>None\<close>; the standard
  library restores the text on failure (\<open>read_atomically\<close>), so a failed parser consumes nothing.
\<close>

section \<open>Addresses\<close>

text \<open>\<open>Ipv4Addr\<close> is four octets, \<open>Ipv6Addr\<close> its eight 16-bit segments.\<close>

datatype ipv4_addr = Ipv4Addr u8 u8 u8 u8

type_synonym ipv6_addr = "u16 list"

datatype ip_addr = V4 ipv4_addr | V6 ipv6_addr

section \<open>Reading\<close>

definition hex_value :: "char \<Rightarrow> nat" where
  "hex_value c =
     (if byte_of c \<le> 57 then byte_of c - 48
      else if byte_of c \<le> 70 then byte_of c - 55 else byte_of c - 87)"

text \<open>\<open>char::to_digit\<close> for the two radices the parser uses.\<close>

definition to_digit :: "nat \<Rightarrow> char \<Rightarrow> nat option" where
  "to_digit radix c =
     (if radix = 10 then (if is_ascii_digit c then Some (hex_value c) else None)
      else (if is_ascii_hexdigit c then Some (hex_value c) else None))"

fun read_digits :: "nat \<Rightarrow> string \<Rightarrow> nat list \<times> string" where
  "read_digits radix [] = ([], [])"
| "read_digits radix (c # cs) =
     (case to_digit radix c of
        None \<Rightarrow> ([], c # cs)
      | Some d \<Rightarrow> (let (ds, rest) = read_digits radix cs in (d # ds, rest)))"

definition digits_value :: "nat \<Rightarrow> nat list \<Rightarrow> nat" where
  "digits_value radix ds = foldl (\<lambda>v d. v * radix + d) 0 ds"

text \<open>
  \<open>read_number\<close>: all the digits there are, at least one, at most \<open>max_digits\<close>, with no leading
  zero unless \<open>allow_zero_prefix\<close>, and a value the target type holds.
\<close>

definition read_number :: "nat \<Rightarrow> nat \<Rightarrow> bool \<Rightarrow> string \<Rightarrow> ('a::len word \<times> string) option" where
  "read_number radix max_digits allow_zero_prefix cs =
     (let (ds, rest) = read_digits radix cs in
      if length ds > max_digits then None
      else if ds = [] then None
      else if \<not> allow_zero_prefix \<and> hd ds = 0 \<and> length ds > 1 then None
      else if digits_value radix ds < 2 ^ LENGTH('a) then Some (of_nat (digits_value radix ds), rest)
      else None)"

definition read_given_char :: "char \<Rightarrow> string \<Rightarrow> string option" where
  "read_given_char c cs = (case cs of [] \<Rightarrow> None | x # xs \<Rightarrow> if x = c then Some xs else None)"

definition read_separator ::
  "char \<Rightarrow> nat \<Rightarrow> (string \<Rightarrow> ('a \<times> string) option) \<Rightarrow> string \<Rightarrow> ('a \<times> string) option" where
  "read_separator sep i p cs =
     (if i > 0 then (case read_given_char sep cs of None \<Rightarrow> None | Some rest \<Rightarrow> p rest) else p cs)"

definition read_octet :: "string \<Rightarrow> (u8 \<times> string) option" where
  "read_octet = read_number 10 3 False"

definition read_ipv4_addr :: "string \<Rightarrow> (ipv4_addr \<times> string) option" where
  "read_ipv4_addr s0 =
     (case read_separator (CHR ''.'') 0 read_octet s0 of None \<Rightarrow> None
      | Some (a, s1) \<Rightarrow> (case read_separator (CHR ''.'') 1 read_octet s1 of None \<Rightarrow> None
      | Some (b, s2) \<Rightarrow> (case read_separator (CHR ''.'') 2 read_octet s2 of None \<Rightarrow> None
      | Some (c, s3) \<Rightarrow> (case read_separator (CHR ''.'') 3 read_octet s3 of None \<Rightarrow> None
      | Some (d, s4) \<Rightarrow> Some (Ipv4Addr a b c d, s4)))))"

definition u16_from_be_bytes :: "u8 \<Rightarrow> u8 \<Rightarrow> u16" where
  "u16_from_be_bytes a b = of_nat (256 * unat a + unat b)"

text \<open>
  \<open>read_groups\<close> fills up to \<open>limit\<close> groups from index \<open>i\<close>: the groups read, whether a trailing
  dotted IPv4 address was among them, and the rest of the text.
\<close>

function read_groups :: "nat \<Rightarrow> nat \<Rightarrow> string \<Rightarrow> u16 list \<times> bool \<times> string" where
  "read_groups limit i cs =
     (if limit \<le> i then ([], False, cs)
      else case (if i < limit - 1 then read_separator (CHR '':'') i read_ipv4_addr cs else None) of
        Some (Ipv4Addr a b c d, rest) \<Rightarrow>
          ([u16_from_be_bytes a b, u16_from_be_bytes c d], True, rest)
      | None \<Rightarrow>
          (case read_separator (CHR '':'') i (read_number 16 4 True) cs of
             None \<Rightarrow> ([], False, cs)
           | Some (g, rest) \<Rightarrow>
               (let (gs, v4, rest') = read_groups limit (Suc i) rest in (g # gs, v4, rest'))))"
  by pat_completeness auto
termination
  by (relation "measure (\<lambda>(limit, i, cs). limit - i)") auto

declare read_groups.simps [simp del]

definition read_ipv6_addr :: "string \<Rightarrow> (ipv6_addr \<times> string) option" where
  "read_ipv6_addr cs =
     (let (head, head_ipv4, rest) = read_groups 8 0 cs in
      if length head = 8 then Some (head, rest)
      else if head_ipv4 then None
      else case read_given_char (CHR '':'') rest of None \<Rightarrow> None
      | Some rest1 \<Rightarrow> (case read_given_char (CHR '':'') rest1 of None \<Rightarrow> None
      | Some rest2 \<Rightarrow>
          (let (tail, _, rest3) = read_groups (8 - (length head + 1)) 0 rest2 in
           Some (head @ replicate (8 - length head - length tail) 0 @ tail, rest3))))"

definition read_ip_addr :: "string \<Rightarrow> (ip_addr \<times> string) option" where
  "read_ip_addr cs =
     (case read_ipv4_addr cs of
        Some (a, rest) \<Rightarrow> Some (V4 a, rest)
      | None \<Rightarrow> (case read_ipv6_addr cs of Some (a, rest) \<Rightarrow> Some (V6 a, rest) | None \<Rightarrow> None))"

text \<open>\<open>str::parse::<IpAddr>()\<close>: the whole text must be consumed.\<close>

definition parse_ip_addr :: "string \<Rightarrow> ip_addr option" where
  "parse_ip_addr cs =
     (case read_ip_addr cs of Some (a, []) \<Rightarrow> Some a | _ \<Rightarrow> None)"

section \<open>Writing\<close>

definition show_ipv4 :: "ipv4_addr \<Rightarrow> string" where
  "show_ipv4 a = (case a of Ipv4Addr p q r s \<Rightarrow>
     show_nat (unat p) @ ''.'' @ show_nat (unat q) @ ''.'' @ show_nat (unat r) @ ''.'' @ show_nat (unat s))"

definition hex_char :: "nat \<Rightarrow> char" where
  "hex_char d = char_of (if d < 10 then 48 + d else 87 + d)"

fun show_hex :: "nat \<Rightarrow> string" where
  "show_hex n = (if n < 16 then [hex_char n] else show_hex (n div 16) @ [hex_char (n mod 16)])"

declare show_hex.simps [simp del]

text \<open>The longest run of zero segments, the first of the longest: \<open>(start, len)\<close>.\<close>

fun zero_span :: "nat \<Rightarrow> u16 list \<Rightarrow> nat \<times> nat \<Rightarrow> nat \<times> nat \<Rightarrow> nat \<times> nat" where
  "zero_span i [] current longest = longest"
| "zero_span i (seg # segs) current longest =
     (if seg = 0 then
        (let current' = (if snd current = 0 then (i, 1) else (fst current, snd current + 1)) in
         zero_span (Suc i) segs current' (if snd current' > snd longest then current' else longest))
      else zero_span (Suc i) segs (0, 0) longest)"

definition fmt_subslice :: "u16 list \<Rightarrow> string" where
  "fmt_subslice chunk = join_with (CHR '':'') (map (\<lambda>seg. show_hex (unat seg)) chunk)"

definition high_byte :: "u16 \<Rightarrow> u8" where "high_byte w = of_nat (unat w div 256)"

definition low_byte :: "u16 \<Rightarrow> u8" where "low_byte w = of_nat (unat w)"

definition to_ipv4_mapped :: "ipv6_addr \<Rightarrow> ipv4_addr option" where
  "to_ipv4_mapped segs = (case segs of
     [a, b, c, d, e, f, ab, cd] \<Rightarrow>
       if a = 0 \<and> b = 0 \<and> c = 0 \<and> d = 0 \<and> e = 0 \<and> f = 0xffff
       then Some (Ipv4Addr (high_byte ab) (low_byte ab) (high_byte cd) (low_byte cd)) else None
   | _ \<Rightarrow> None)"

text \<open>\<open>Ipv6Addr::to_ipv4\<close>: IPv4-mapped or IPv4-compatible.\<close>

definition to_ipv4 :: "ipv6_addr \<Rightarrow> ipv4_addr option" where
  "to_ipv4 segs = (case segs of
     [a, b, c, d, e, f, ab, cd] \<Rightarrow>
       if a = 0 \<and> b = 0 \<and> c = 0 \<and> d = 0 \<and> e = 0 \<and> (f = 0 \<or> f = 0xffff)
       then Some (Ipv4Addr (high_byte ab) (low_byte ab) (high_byte cd) (low_byte cd)) else None
   | _ \<Rightarrow> None)"

definition is_unspecified :: "ipv6_addr \<Rightarrow> bool" where
  "is_unspecified segs = (segs = replicate 8 0)"

definition is_loopback :: "ipv6_addr \<Rightarrow> bool" where
  "is_loopback segs = (segs = replicate 7 0 @ [1])"

definition show_ipv6 :: "ipv6_addr \<Rightarrow> string" where
  "show_ipv6 segs =
     (case to_ipv4_mapped segs of
        Some v4 \<Rightarrow> ''::ffff:'' @ show_ipv4 v4
      | None \<Rightarrow>
          (let (start, len) = zero_span 0 segs (0, 0) (0, 0) in
           if len > 1
           then fmt_subslice (take start segs) @ ''::'' @ fmt_subslice (drop (start + len) segs)
           else fmt_subslice segs))"

definition show_ip :: "ip_addr \<Rightarrow> string" where
  "show_ip a = (case a of V4 v4 \<Rightarrow> show_ipv4 v4 | V6 v6 \<Rightarrow> show_ipv6 v6)"

section \<open>Round trip of dotted addresses\<close>

lemma digit_char_digit:
  "d < 10 \<Longrightarrow> is_ascii_digit (digit_char d) \<and> hex_value (digit_char d) = d"
  by (simp add: digit_char_def is_ascii_digit_def hex_value_def byte_of_def)

lemma to_digit_digit_char [simp]: "d < 10 \<Longrightarrow> to_digit 10 (digit_char d) = Some d"
  by (simp add: to_digit_def digit_char_digit)

fun dec_digits :: "nat \<Rightarrow> nat list" where
  "dec_digits n = (if n < 10 then [n] else dec_digits (n div 10) @ [n mod 10])"

declare dec_digits.simps [simp del]

lemma dec_digits_small: "d \<in> set (dec_digits n) \<Longrightarrow> d < 10"
  by (induction n rule: dec_digits.induct) (subst (asm) (2) dec_digits.simps, auto split: if_splits)

lemma show_nat_digits: "show_nat n = map digit_char (dec_digits n)"
proof (induction n rule: dec_digits.induct)
  case (1 n)
  then show ?case
    by (cases "n < 10") (simp_all add: dec_digits.simps [of n] show_nat.simps [of n])
qed

lemma digits_value_append: "digits_value r (xs @ [d]) = digits_value r xs * r + d"
  by (simp add: digits_value_def)

lemma digits_value_dec: "digits_value 10 (dec_digits n) = n"
proof (induction n rule: dec_digits.induct)
  case (1 n)
  then show ?case
    by (cases "n < 10")
      (simp_all add: dec_digits.simps [of n] digits_value_append, simp add: digits_value_def)
qed

lemma read_digits_map:
  assumes "\<forall>d \<in> set ds. d < 10" and "cs = [] \<or> to_digit 10 (hd cs) = None"
  shows "read_digits 10 (map digit_char ds @ cs) = (ds, cs)"
  using assms
proof (induction ds)
  case Nil
  then show ?case by (cases cs) auto
qed simp

lemma dec_digits_nonempty [simp]: "dec_digits n \<noteq> []"
  by (subst dec_digits.simps) simp

lemma hd_dec_digits: "hd (dec_digits n) = 0 \<Longrightarrow> n = 0"
proof (induction n rule: dec_digits.induct)
  case (1 n)
  then show ?case
    by (cases "n < 10") (simp_all add: dec_digits.simps [of n])
qed

lemma length_dec_digits: "n < 1000 \<Longrightarrow> length (dec_digits n) \<le> 3"
  by (simp add: dec_digits.simps [of n] dec_digits.simps [of "n div 10"]
      dec_digits.simps [of "n div 10 div 10"])

lemma dec_digits_0 [simp]: "dec_digits 0 = [0]"
  by (simp add: dec_digits.simps)

lemma read_octet_show:
  fixes w :: u8
  assumes "cs = [] \<or> to_digit 10 (hd cs) = None"
  shows "read_octet (show_nat (unat w) @ cs) = Some (w, cs)"
proof -
  let ?ds = "dec_digits (unat w)"
  have b: "unat w < 256" using unsigned_less [of w] by simp
  have rd: "read_digits 10 (show_nat (unat w) @ cs) = (?ds, cs)"
    using assms by (simp add: show_nat_digits read_digits_map dec_digits_small)
  have len: "length ?ds \<le> 3" by (rule length_dec_digits) (use b in simp)
  have zero: "\<not> (hd ?ds = 0 \<and> length ?ds > 1)" using hd_dec_digits [of "unat w"] by fastforce
  show ?thesis
    using b len zero by (auto simp: read_octet_def read_number_def rd digits_value_dec)
qed

lemma not_digit_dot [simp]: "to_digit 10 (CHR ''.'') = None"
  by (simp add: to_digit_def is_ascii_digit_def byte_of_def)

lemma read_show_ipv4: "read_ipv4_addr (show_ipv4 a) = Some (a, [])"
proof (cases a)
  case (Ipv4Addr p q r s)
  have last: "read_octet (show_nat (unat s)) = Some (s, [])"
    using read_octet_show [of "[]" s] by simp
  show ?thesis
    by (simp add: Ipv4Addr show_ipv4_def read_ipv4_addr_def read_separator_def read_octet_show
        read_given_char_def last)
qed

lemma parse_show_ipv4: "parse_ip_addr (show_ip (V4 a)) = Some (V4 a)"
  by (simp add: parse_ip_addr_def read_ip_addr_def show_ip_def read_show_ipv4)

section \<open>Shape of parsed addresses\<close>

lemma length_read_groups:
  "read_groups limit i cs = (gs, v4, rest) \<Longrightarrow> i \<le> limit \<Longrightarrow> length gs \<le> limit - i"
proof (induction limit i cs arbitrary: gs v4 rest rule: read_groups.induct)
  case (1 limit i cs)
  show ?case
  proof (cases "limit \<le> i")
    case True
    with "1.prems" show ?thesis by (simp add: read_groups.simps [of limit i])
  next
    case False
    note unfolded = "1.prems"(1) [unfolded read_groups.simps [of limit i cs]]
    show ?thesis
    proof (cases "if i < limit - 1 then read_separator (CHR '':'') i read_ipv4_addr cs else None")
      case None
      show ?thesis
      proof (cases "read_separator (CHR '':'') i (read_number 16 4 True) cs :: (u16 \<times> string) option")
        case None': None
        with None False unfolded show ?thesis by simp
      next
        case (Some gr)
        obtain g r where gr: "gr = (g, r)" by (cases gr)
        obtain gs' v4' rest' where rec: "read_groups limit (Suc i) r = (gs', v4', rest')"
          by (cases "read_groups limit (Suc i) r") auto
        with None Some gr False unfolded have "gs = g # gs'" by simp
        moreover have "length gs' \<le> limit - Suc i"
          using "1.IH" [OF False None Some gr [symmetric] rec] False by simp
        ultimately show ?thesis using False by simp
      qed
    next
      case (Some ar)
      obtain a r where ar: "ar = (a, r)" by (cases ar)
      then have "i < limit - 1" using Some by (simp split: if_splits)
      with Some ar False unfolded show ?thesis by (cases a) auto
    qed
  qed
qed

lemma length_read_ipv6:
  assumes "read_ipv6_addr cs = Some (segs, rest)"
  shows "length segs = 8"
proof -
  obtain head v4 r where head: "read_groups 8 0 cs = (head, v4, r)"
    by (cases "read_groups 8 0 cs") auto
  have h8: "length head \<le> 8" using length_read_groups [OF head] by simp
  show ?thesis
  proof (cases "length head = 8")
    case True
    with assms head show ?thesis by (simp add: read_ipv6_addr_def)
  next
    case False
    with assms head obtain r2 tail v4' r3 where
      tail: "read_groups (8 - (length head + 1)) 0 r2 = (tail, v4', r3)"
      and segs: "segs = head @ replicate (8 - length head - length tail) 0 @ tail"
      by (auto simp: read_ipv6_addr_def split: if_splits option.splits prod.splits)
    have "length tail \<le> 7 - length head" using length_read_groups [OF tail] by simp
    with h8 False segs show ?thesis by simp
  qed
qed

end
