(* ===== verification/Recipe.thy ===== *)
theory Recipe
  imports Ip_Addr
begin

text \<open>
  \<open>crates/plasmosome-backend/src/recipe.rs\<close>: the complete recipes a capability carries, and the
  structural rules each must pass before it is acted on, encoded or decoded.
\<close>

section \<open>Data\<close>

datatype file_access = ReadOnly | ReadWrite

datatype proxy_transport = Tcp | Udp

definition MAX_SESSION_FILE_BYTES :: nat where "MAX_SESSION_FILE_BYTES = 65536"

definition MAX_DNS_NAME_BYTES :: nat where "MAX_DNS_NAME_BYTES = 253"

definition MAX_DNS_LABEL_BYTES :: nat where "MAX_DNS_LABEL_BYTES = 63"

record session_file_recipe =
  sf_contents :: "u8 list"
  sf_mode :: file_access
  sf_guest_path :: string

record uds_recipe =
  uds_upstream :: string
  uds_guest_path :: string

record proxy_recipe =
  px_transport :: proxy_transport
  px_destination :: string
  px_port :: u16
  px_allow_private :: bool

record mount_recipe =
  mt_access :: file_access

record broker_launch =
  bl_command :: "string list"
  bl_control_socket :: string
  bl_data_socket :: string

datatype recipe_error =
    ContainsNul string
  | NotAbsolute string string
  | NotCanonical string string
  | ContentsTooLarge nat
  | ZeroPort
  | InvalidDestination string
  | NotCanonicalAddress string ip_addr
  | EmbeddedIpv4 string ipv4_addr
  | EmptyCommand
  | SharedEndpoint string

section \<open>Paths and names\<close>

definition nul_free :: "string \<Rightarrow> string \<Rightarrow> recipe_error + unit" where
  "nul_free field val = (if NUL \<in> set val then Err (ContainsNul field) else Ok ())"

text \<open>
  A canonical absolute path: NUL-free, starting with \<open>/\<close>, and with no empty, \<open>.\<close> or \<open>..\<close>
  component.
\<close>

definition canonical_path :: "string \<Rightarrow> string \<Rightarrow> recipe_error + unit" where
  "canonical_path field val =
     and_then (nul_free field val) (\<lambda>_.
       case strip_prefix ''/'' val of
         None \<Rightarrow> Err (NotAbsolute field val)
       | Some rest \<Rightarrow>
           if \<exists>c \<in> set (split_on (CHR ''/'') rest). c = '''' \<or> c = ''.'' \<or> c = ''..''
           then Err (NotCanonical field val) else Ok ())"

definition is_number :: "string \<Rightarrow> bool" where
  "is_number label =
     (case (case strip_prefix ''0x'' label of Some hex \<Rightarrow> Some hex | None \<Rightarrow> strip_prefix ''0X'' label) of
        Some hex \<Rightarrow> list_all is_ascii_hexdigit hex
      | None \<Rightarrow> list_all is_ascii_digit label)"

definition is_dns_label :: "string \<Rightarrow> bool" where
  "is_dns_label label \<longleftrightarrow>
     1 \<le> length label \<and> length label \<le> MAX_DNS_LABEL_BYTES \<and>
     list_all (\<lambda>b. is_ascii_alphanumeric b \<or> b = CHR ''-'') label \<and>
     \<not> (label \<noteq> [] \<and> hd label = CHR ''-'') \<and> \<not> (label \<noteq> [] \<and> last label = CHR ''-'')"

text \<open>\<open>rsplit('.').next()\<close> is the last piece between dots.\<close>

definition is_dns_name :: "string \<Rightarrow> bool" where
  "is_dns_name val \<longleftrightarrow>
     length val \<le> MAX_DNS_NAME_BYTES \<and> list_all is_dns_label (split_on (CHR ''.'') val) \<and>
     \<not> is_number (last (split_on (CHR ''.'') val))"

definition is_proxy_host :: "string \<Rightarrow> bool" where
  "is_proxy_host host \<longleftrightarrow> is_dns_name host \<and> \<not> list_ex is_ascii_uppercase host"

section \<open>Proxy destinations\<close>

definition embedded_ipv4 :: "ipv6_addr \<Rightarrow> ipv4_addr option" where
  "embedded_ipv4 a = (if is_unspecified a \<or> is_loopback a then None else to_ipv4 a)"

definition ip_literal :: "string \<Rightarrow> ip_addr \<Rightarrow> recipe_error + unit" where
  "ip_literal val address =
     (case (case address of V6 v6 \<Rightarrow> embedded_ipv4 v6 | V4 _ \<Rightarrow> None) of
        Some ipv4 \<Rightarrow> Err (EmbeddedIpv4 val ipv4)
      | None \<Rightarrow>
          if show_ip address \<noteq> val then Err (NotCanonicalAddress val address) else Ok ())"

definition canonical_ip_literal :: "string \<Rightarrow> ip_addr option" where
  "canonical_ip_literal txt =
     (case parse_ip_addr txt of
        None \<Rightarrow> None
      | Some address \<Rightarrow> if is_ok (ip_literal txt address) then Some address else None)"

definition destination :: "string \<Rightarrow> recipe_error + unit" where
  "destination val =
     and_then (nul_free ''destination'' val) (\<lambda>_.
       case parse_ip_addr val of
         Some address \<Rightarrow> ip_literal val address
       | None \<Rightarrow> if is_dns_name val then Ok () else Err (InvalidDestination val))"

section \<open>Recipe validation\<close>

definition session_file_recipe_validate :: "session_file_recipe \<Rightarrow> recipe_error + unit" where
  "session_file_recipe_validate r =
     (if length (sf_contents r) > MAX_SESSION_FILE_BYTES
      then Err (ContentsTooLarge (length (sf_contents r)))
      else canonical_path ''guest_path'' (sf_guest_path r))"

definition uds_recipe_validate :: "uds_recipe \<Rightarrow> recipe_error + unit" where
  "uds_recipe_validate r =
     and_then (canonical_path ''upstream'' (uds_upstream r))
       (\<lambda>_. canonical_path ''guest_path'' (uds_guest_path r))"

definition proxy_recipe_validate :: "proxy_recipe \<Rightarrow> recipe_error + unit" where
  "proxy_recipe_validate r =
     and_then (destination (px_destination r))
       (\<lambda>_. if px_port r = 0 then Err ZeroPort else Ok ())"

definition mount_recipe_validate :: "mount_recipe \<Rightarrow> recipe_error + unit" where
  "mount_recipe_validate r = Ok ()"

definition broker_launch_validate :: "broker_launch \<Rightarrow> recipe_error + unit" where
  "broker_launch_validate l =
     (case bl_command l of
        [] \<Rightarrow> Err EmptyCommand
      | program # _ \<Rightarrow>
          and_then (for_each (nul_free ''command'') (bl_command l)) (\<lambda>_.
          and_then (canonical_path ''command'' program) (\<lambda>_.
          and_then (canonical_path ''control_socket'' (bl_control_socket l)) (\<lambda>_.
          and_then (canonical_path ''data_socket'' (bl_data_socket l)) (\<lambda>_.
          if bl_control_socket l = bl_data_socket l
          then Err (SharedEndpoint (bl_control_socket l)) else Ok ())))))"

section \<open>What acceptance means\<close>

text \<open>The declarative reading of a canonical absolute path.\<close>

definition absolute_components :: "string list \<Rightarrow> bool" where
  "absolute_components cs \<longleftrightarrow>
     cs \<noteq> [] \<and> (\<forall>c \<in> set cs. c \<notin> {'''', ''.'', ''..''} \<and> CHR ''/'' \<notin> set c \<and> NUL \<notin> set c)"

lemma nul_free_ok [simp]: "is_ok (nul_free field val) \<longleftrightarrow> NUL \<notin> set val"
  by (simp add: nul_free_def)

lemma set_join_with:
  "set (join_with c ps) \<subseteq> insert c (\<Union> (set ` set ps))"
  by (induction c ps rule: join_with.induct) auto

lemma in_split_on_subset: "p \<in> set (split_on c xs) \<Longrightarrow> set p \<subseteq> set xs"
  by (induction xs arbitrary: p) (auto split: list.splits if_splits, blast)

lemma canonical_path_ok:
  "is_ok (canonical_path field val) \<longleftrightarrow>
   (\<exists>cs. absolute_components cs \<and> val = CHR ''/'' # join_with (CHR ''/'') cs)"
proof
  assume ok: "is_ok (canonical_path field val)"
  then have nul: "NUL \<notin> set val"
    by (auto simp: canonical_path_def nul_free_def is_ok_and_then)
  with ok obtain rest where v: "val = CHR ''/'' # rest"
    and c: "\<forall>c \<in> set (split_on (CHR ''/'') rest). \<not> (c = '''' \<or> c = ''.'' \<or> c = ''..'')"
    by (auto simp: canonical_path_def nul_free_def is_ok_and_then strip_prefix_Some
        split: option.splits if_splits)
  have "absolute_components (split_on (CHR ''/'') rest)"
    using c nul v in_split_on_subset split_on_no_sep by (fastforce simp: absolute_components_def)
  with v show "\<exists>cs. absolute_components cs \<and> val = CHR ''/'' # join_with (CHR ''/'') cs"
    by (intro exI [of _ "split_on (CHR ''/'') rest"]) simp
next
  assume "\<exists>cs. absolute_components cs \<and> val = CHR ''/'' # join_with (CHR ''/'') cs"
  then obtain cs where cs: "absolute_components cs" and v: "val = CHR ''/'' # join_with (CHR ''/'') cs"
    by blast
  have sp: "split_on (CHR ''/'') (join_with (CHR ''/'') cs) = cs"
    using cs by (intro split_join) (auto simp: absolute_components_def)
  have "NUL \<notin> set (join_with (CHR ''/'') cs)"
    using cs set_join_with [of "CHR ''/''" cs] by (auto simp: absolute_components_def)
  with cs v sp show "is_ok (canonical_path field val)"
    by (auto simp: canonical_path_def nul_free_def absolute_components_def is_ok_def)
qed

lemma canonical_path_not_root: "\<not> is_ok (canonical_path field ''/'')"
  by (simp add: canonical_path_def nul_free_def)

lemma canonical_path_field_irrelevant:
  "is_ok (canonical_path field val) = is_ok (canonical_path field' val)"
  by (simp add: canonical_path_ok)

text \<open>An accepted IP literal is spelled the one way \<open>Display\<close> spells its address.\<close>

lemma canonical_ip_literal_show: "canonical_ip_literal txt = Some a \<Longrightarrow> show_ip a = txt"
  by (auto simp: canonical_ip_literal_def ip_literal_def split: option.splits if_splits)

lemma canonical_ip_literal_ipv4: "canonical_ip_literal (show_ip (V4 a)) = Some (V4 a)"
  by (simp add: canonical_ip_literal_def parse_show_ipv4 ip_literal_def)

text \<open>A DNS name that the resolver would read as an address is never accepted.\<close>

lemma dns_label_not_empty: "is_dns_label l \<Longrightarrow> l \<noteq> []"
  by (auto simp: is_dns_label_def)

lemma is_dns_name_nonempty: "is_dns_name val \<Longrightarrow> val \<noteq> []"
  using dns_label_not_empty [of "[]"] by (auto simp: is_dns_name_def)

lemma broker_launch_ok:
  "is_ok (broker_launch_validate l) \<longleftrightarrow>
   bl_command l \<noteq> [] \<and> (\<forall>w \<in> set (bl_command l). NUL \<notin> set w) \<and>
   is_ok (canonical_path ''command'' (hd (bl_command l))) \<and>
   is_ok (canonical_path ''control_socket'' (bl_control_socket l)) \<and>
   is_ok (canonical_path ''data_socket'' (bl_data_socket l)) \<and>
   bl_control_socket l \<noteq> bl_data_socket l"
  by (cases "bl_command l")
    (auto simp: broker_launch_validate_def is_ok_and_then_unit is_ok_for_each)

end
