(* ===== verification/BTree_Map.thy ===== *)
theory BTree_Map
  imports Prelude
begin

text \<open>
  Rust's \<open>BTreeMap\<close> and \<open>BTreeSet\<close>, which nearly every component of the program keeps its state
  in. A map is the strictly increasing list of its entries, as an abstract type, so that
  iteration order is part of the model, two maps are equal exactly when they answer every lookup
  alike, and every operation runs. A set is a map to \<open>unit\<close>, as in Rust's library.
\<close>

section \<open>Entry lists\<close>

fun put_entry :: "'k::linorder \<Rightarrow> 'v \<Rightarrow> ('k \<times> 'v) list \<Rightarrow> ('k \<times> 'v) list" where
  "put_entry k v [] = [(k, v)]"
| "put_entry k v ((k', v') # es) =
     (if k < k' then (k, v) # (k', v') # es
      else if k = k' then (k, v) # es
      else (k', v') # put_entry k v es)"

definition drop_entry :: "'k \<Rightarrow> ('k \<times> 'v) list \<Rightarrow> ('k \<times> 'v) list" where
  "drop_entry k es = filter (\<lambda>e. fst e \<noteq> k) es"

abbreviation increasing :: "('k::linorder \<times> 'v) list \<Rightarrow> bool" where
  "increasing es \<equiv> sorted_wrt (<) (map fst es)"

lemma set_put_entry: "fst ` set (put_entry k v es) = insert k (fst ` set es)"
  by (induction k v es rule: put_entry.induct) auto

lemma increasing_put_entry: "increasing es \<Longrightarrow> increasing (put_entry k v es)"
proof (induction k v es rule: put_entry.induct)
  case (2 k v k' v' es)
  then show ?case
    using set_put_entry [of k v es] by (auto intro: less_trans simp: image_iff)
qed simp

lemma increasing_filter: "increasing es \<Longrightarrow> increasing (filter P es)"
  by (induction es) auto

lemma increasing_distinct: "increasing es \<Longrightarrow> distinct (map fst es)"
  using strict_sorted_iff by blast

lemma map_of_put_entry: "increasing es \<Longrightarrow> map_of (put_entry k v es) = (map_of es)(k \<mapsto> v)"
  by (induction k v es rule: put_entry.induct) (auto simp: fun_eq_iff)

lemma map_of_filter_entries:
  "increasing es \<Longrightarrow>
   map_of (filter P es) k = (case map_of es k of Some v \<Rightarrow> if P (k, v) then Some v else None | None \<Rightarrow> None)"
proof (induction es)
  case (Cons e es)
  obtain k' v' where e: "e = (k', v')" by (cases e)
  from Cons.prems e have "map_of es k' = None"
    by (auto simp: map_of_eq_None_iff)
  with Cons e show ?case by (auto split: option.splits)
qed simp

lemma map_of_retain_entries:
  "increasing es \<Longrightarrow> map_of (filter (\<lambda>e. P (fst e) (snd e)) es) k =
   (case map_of es k of Some v \<Rightarrow> if P k v then Some v else None | None \<Rightarrow> None)"
  using map_of_filter_entries [of es "\<lambda>e. P (fst e) (snd e)" k] by (simp only: fst_conv snd_conv)

lemma increasing_map_of_inj:
  assumes "increasing es" "increasing fs" "map_of es = map_of fs"
  shows "es = fs"
proof (rule map_sorted_distinct_set_unique)
  have d: "distinct (map fst es)" "distinct (map fst fs)"
    using assms(1,2) by (simp_all add: increasing_distinct)
  then show s: "set es = set fs"
    using assms(3) by (simp add: map_of_inject_set)
  show "inj_on fst (set es \<union> set fs)"
    using d s by (simp add: distinct_map)
  show "sorted (map fst es)" "sorted (map fst fs)"
    using assms(1,2) by (simp_all add: strict_sorted_imp_sorted)
  show "distinct (map fst es)" "distinct (map fst fs)" by (fact d)+
qed

section \<open>The map type\<close>

typedef (overloaded) ('k::linorder, 'v) btree_map = "{es :: ('k \<times> 'v) list. increasing es}"
  morphisms entries BTree
  by (rule exI [of _ "[]"]) simp

setup_lifting type_definition_btree_map

type_synonym 'a btree_set = "('a, unit) btree_map"

lift_definition bt_empty :: "('k::linorder, 'v) btree_map" is "[]"
  by simp

lift_definition bt_get :: "('k::linorder, 'v) btree_map \<Rightarrow> 'k \<Rightarrow> 'v option" is map_of .

lift_definition bt_insert :: "'k::linorder \<Rightarrow> 'v \<Rightarrow> ('k, 'v) btree_map \<Rightarrow> ('k, 'v) btree_map"
  is put_entry by (rule increasing_put_entry)

lift_definition bt_remove :: "'k::linorder \<Rightarrow> ('k, 'v) btree_map \<Rightarrow> ('k, 'v) btree_map"
  is drop_entry by (simp add: drop_entry_def increasing_filter)

lift_definition bt_retain ::
  "('k::linorder \<Rightarrow> 'v \<Rightarrow> bool) \<Rightarrow> ('k, 'v) btree_map \<Rightarrow> ('k, 'v) btree_map"
  is "\<lambda>P. filter (\<lambda>e. P (fst e) (snd e))" by (rule increasing_filter)

definition bt_keys :: "('k::linorder, 'v) btree_map \<Rightarrow> 'k list" where
  "bt_keys m = map fst (entries m)"

definition bt_values :: "('k::linorder, 'v) btree_map \<Rightarrow> 'v list" where
  "bt_values m = map snd (entries m)"

definition bt_len :: "('k::linorder, 'v) btree_map \<Rightarrow> nat" where
  "bt_len m = length (entries m)"

definition bt_contains_key :: "('k::linorder, 'v) btree_map \<Rightarrow> 'k \<Rightarrow> bool" where
  "bt_contains_key m k = (bt_get m k \<noteq> None)"

definition bt_is_empty :: "('k::linorder, 'v) btree_map \<Rightarrow> bool" where
  "bt_is_empty m = (entries m = [])"

text \<open>\<open>collect()\<close> into a map: later entries of the sequence win.\<close>

definition bt_collect :: "('k::linorder \<times> 'v) list \<Rightarrow> ('k, 'v) btree_map" where
  "bt_collect es = fold (\<lambda>(k, v) m. bt_insert k v m) es bt_empty"

instantiation btree_map :: (linorder, equal) equal
begin

definition equal_btree_map :: "('a, 'b) btree_map \<Rightarrow> ('a, 'b) btree_map \<Rightarrow> bool" where
  "equal_btree_map m n = (entries m = entries n)"

instance
  by standard (simp add: equal_btree_map_def entries_inject)

end

section \<open>Lookup laws\<close>

lemma bt_get_empty [simp]: "bt_get bt_empty k = None"
  by transfer simp

lemma bt_get_insert: "bt_get (bt_insert k v m) = (bt_get m)(k \<mapsto> v)"
  by transfer (rule map_of_put_entry)

lemma bt_get_insert_iff [simp]: "bt_get (bt_insert k v m) j = (if j = k then Some v else bt_get m j)"
  by (simp add: bt_get_insert)

lemma bt_get_retain [simp]:
  "bt_get (bt_retain P m) k =
   (case bt_get m k of Some v \<Rightarrow> if P k v then Some v else None | None \<Rightarrow> None)"
  by transfer (rule map_of_retain_entries)

lemma bt_remove_eq_retain: "bt_remove k m = bt_retain (\<lambda>j _. j \<noteq> k) m"
  by transfer (simp add: drop_entry_def)

lemma bt_get_remove [simp]: "bt_get (bt_remove k m) j = (if j = k then None else bt_get m j)"
  by (auto simp: bt_remove_eq_retain split: option.splits)

lemma bt_ext: "(\<And>k. bt_get m k = bt_get n k) \<Longrightarrow> m = n"
  by transfer (rule increasing_map_of_inj, auto)

lemma bt_eq_iff: "m = n \<longleftrightarrow> (\<forall>k. bt_get m k = bt_get n k)"
  by (auto intro: bt_ext)

lemma entries_get: "(k, v) \<in> set (entries m) \<longleftrightarrow> bt_get m k = Some v"
  by transfer (simp add: increasing_distinct)

lemma bt_keys_get: "k \<in> set (bt_keys m) \<longleftrightarrow> bt_get m k \<noteq> None"
  by (force simp: bt_keys_def entries_get [symmetric])

lemma bt_values_get: "v \<in> set (bt_values m) \<longleftrightarrow> (\<exists>k. bt_get m k = Some v)"
  by (force simp: bt_values_def entries_get [symmetric])

lemma bt_keys_sorted: "sorted_wrt (<) (bt_keys m)"
  unfolding bt_keys_def by transfer simp

lemma bt_keys_distinct: "distinct (bt_keys m)"
  using bt_keys_sorted strict_sorted_iff by blast

lemma entries_distinct: "distinct (entries m)"
  using bt_keys_distinct [of m] by (auto simp: bt_keys_def distinct_map)

lemma bt_is_empty_iff: "bt_is_empty m \<longleftrightarrow> m = bt_empty"
  unfolding bt_is_empty_def by transfer simp

lemma bt_empty_iff_get: "m = bt_empty \<longleftrightarrow> (\<forall>k. bt_get m k = None)"
  by (simp add: bt_eq_iff)

lemma finite_bt_dom: "finite {k. bt_get m k \<noteq> None}"
proof -
  have "{k. bt_get m k \<noteq> None} = set (bt_keys m)" by (auto simp: bt_keys_get)
  then show ?thesis by simp
qed

lemma bt_len_card: "bt_len m = card {k. bt_get m k \<noteq> None}"
proof -
  have "{k. bt_get m k \<noteq> None} = set (bt_keys m)" by (auto simp: bt_keys_get)
  then show ?thesis
    using distinct_card [OF bt_keys_distinct, of m] by (simp add: bt_len_def bt_keys_def)
qed

lemma bt_insert_same [simp]: "bt_insert k v (bt_insert k w m) = bt_insert k v m"
  by (simp add: bt_eq_iff)

lemma bt_remove_insert_fresh: "bt_get m k = None \<Longrightarrow> bt_remove k (bt_insert k v m) = m"
  by (auto simp: bt_eq_iff)

lemma bt_remove_absent: "bt_get m k = None \<Longrightarrow> bt_remove k m = m"
  by (auto simp: bt_eq_iff)

lemma bt_get_collect: "bt_get (bt_collect es) k = map_of (rev es) k"
proof -
  have "bt_get (fold (\<lambda>(k, v) m. bt_insert k v m) es m) k =
        (case map_of (rev es) k of Some v \<Rightarrow> Some v | None \<Rightarrow> bt_get m k)" for m
    by (induction es arbitrary: m)
      (auto simp: map_add_def split: option.splits prod.splits)
  from this [of bt_empty] show ?thesis
    by (simp add: bt_collect_def split: option.splits)
qed

section \<open>Sets\<close>

definition bs_contains :: "'a::linorder btree_set \<Rightarrow> 'a \<Rightarrow> bool" where
  "bs_contains s x = (bt_get s x \<noteq> None)"

definition bs_insert :: "'a::linorder \<Rightarrow> 'a btree_set \<Rightarrow> 'a btree_set" where
  "bs_insert x s = bt_insert x () s"

definition bs_remove :: "'a::linorder \<Rightarrow> 'a btree_set \<Rightarrow> 'a btree_set" where
  "bs_remove x s = bt_remove x s"

definition bs_of_list :: "'a::linorder list \<Rightarrow> 'a btree_set" where
  "bs_of_list xs = fold bs_insert xs bt_empty"

text \<open>\<open>BTreeSet::difference\<close>, as the ascending list its iterator yields.\<close>

definition bs_difference :: "'a::linorder btree_set \<Rightarrow> 'a btree_set \<Rightarrow> 'a list" where
  "bs_difference s t = filter (\<lambda>x. \<not> bs_contains t x) (bt_keys s)"

lemma bs_contains_empty [simp]: "\<not> bs_contains bt_empty x"
  by (simp add: bs_contains_def)

lemma bs_contains_insert [simp]: "bs_contains (bs_insert x s) y \<longleftrightarrow> y = x \<or> bs_contains s y"
  by (simp add: bs_contains_def bs_insert_def)

lemma bs_contains_remove [simp]: "bs_contains (bs_remove x s) y \<longleftrightarrow> y \<noteq> x \<and> bs_contains s y"
  by (simp add: bs_contains_def bs_remove_def)

lemma bs_contains_of_list [simp]: "bs_contains (bs_of_list xs) y \<longleftrightarrow> y \<in> set xs"
proof -
  have "bs_contains (fold bs_insert xs s) y \<longleftrightarrow> y \<in> set xs \<or> bs_contains s y" for s
    by (induction xs arbitrary: s) auto
  then show ?thesis by (simp add: bs_of_list_def)
qed

lemma set_bt_keys_bs: "set (bt_keys s) = {x. bs_contains s x}"
  by (auto simp: bt_keys_get bs_contains_def)

lemma finite_bs: "finite {x. bs_contains s x}"
  using set_bt_keys_bs [of s] by (metis List.finite_set)

lemma bs_ext: "(\<And>x. bs_contains s x = bs_contains t x) \<Longrightarrow> s = t"
proof (rule bt_ext)
  fix k
  assume "\<And>x. bs_contains s x = bs_contains t x"
  from this [of k] have "(bt_get s k = None) = (bt_get t k = None)"
    unfolding bs_contains_def by blast
  then show "bt_get s k = bt_get t k"
    by (cases "bt_get s k"; cases "bt_get t k") auto
qed

lemma set_bs_difference: "set (bs_difference s t) = {x. bs_contains s x \<and> \<not> bs_contains t x}"
  by (auto simp: bs_difference_def set_bt_keys_bs)

lemma sorted_bs_difference: "sorted_wrt (<) (bs_difference s t)"
  by (simp add: bs_difference_def sorted_wrt_filter bt_keys_sorted)

end
