(* ===== verification/Universe.thy ===== *)
theory Universe
  imports Recipe BTree_Map
begin

text \<open>
  \<open>crates/plasmosome-backend/src/universe.rs\<close> and the data of \<open>backend.rs\<close>: capabilities,
  addresses, the objects of the verification universe, the operations that create them and the
  removals that take them, and the state of standing objects with its diff and residue report.
\<close>

section \<open>Names, classes and addresses\<close>

type_synonym plugin_id = string
type_synonym cell_id = string
type_synonym grant_id = u128

datatype universe_class = ClsSessionFile | ClsUdsPath | ClsProxyMap | ClsBrokerPid | ClsMount

fun class_as_str :: "universe_class \<Rightarrow> string" where
  "class_as_str ClsSessionFile = ''session-file''"
| "class_as_str ClsUdsPath = ''uds-path''"
| "class_as_str ClsProxyMap = ''proxy-map''"
| "class_as_str ClsBrokerPid = ''broker-pid''"
| "class_as_str ClsMount = ''mount''"

text \<open>\<open>UniverseClass\<close> derives its order from the order of its variants.\<close>

fun class_rank :: "universe_class \<Rightarrow> nat" where
  "class_rank ClsSessionFile = 0"
| "class_rank ClsUdsPath = 1"
| "class_rank ClsProxyMap = 2"
| "class_rank ClsBrokerPid = 3"
| "class_rank ClsMount = 4"

lemma class_rank_inj: "class_rank a = class_rank b \<longleftrightarrow> a = b"
  by (cases a; cases b) auto

instantiation universe_class :: linorder
begin

definition less_eq_universe_class :: "universe_class \<Rightarrow> universe_class \<Rightarrow> bool" where
  "less_eq_universe_class a b = (class_rank a \<le> class_rank b)"

definition less_universe_class :: "universe_class \<Rightarrow> universe_class \<Rightarrow> bool" where
  "less_universe_class a b = (class_rank a < class_rank b)"

instance
  by standard (auto simp: less_eq_universe_class_def less_universe_class_def class_rank_inj)

end

text \<open>\<open>Handle\<close>: the exact address of a holding, ordered by class and then identity.\<close>

datatype handle = Handle (handle_class: universe_class) (handle_id: grant_id)

instantiation handle :: linorder
begin

definition less_eq_handle :: "handle \<Rightarrow> handle \<Rightarrow> bool" where
  "less_eq_handle a b = ((handle_class a, handle_id a) \<le> (handle_class b, handle_id b))"

definition less_handle :: "handle \<Rightarrow> handle \<Rightarrow> bool" where
  "less_handle a b = ((handle_class a, handle_id a) < (handle_class b, handle_id b))"

instance
  by standard (auto simp: less_eq_handle_def less_handle_def intro: handle.expand)

end

text \<open>\<open>CellOwner\<close>: a plugin as attached to one cell; both names count in every comparison.\<close>

datatype cell_owner = CellOwner (own_cell: cell_id) (own_plugin: plugin_id)

instantiation cell_owner :: linorder
begin

definition less_eq_cell_owner :: "cell_owner \<Rightarrow> cell_owner \<Rightarrow> bool" where
  "less_eq_cell_owner a b = ((own_cell a, own_plugin a) \<le> (own_cell b, own_plugin b))"

definition less_cell_owner :: "cell_owner \<Rightarrow> cell_owner \<Rightarrow> bool" where
  "less_cell_owner a b = ((own_cell a, own_plugin a) < (own_cell b, own_plugin b))"

instance
  by standard (auto simp: less_eq_cell_owner_def less_cell_owner_def intro: cell_owner.expand)

end

datatype mock_mode = Simulate | Capture | Passthrough

fun mock_as_str :: "mock_mode \<Rightarrow> string" where
  "mock_as_str Simulate = ''simulate''"
| "mock_as_str Capture = ''capture''"
| "mock_as_str Passthrough = ''passthrough''"

definition mock_parse :: "string \<Rightarrow> mock_mode option" where
  "mock_parse txt =
     (if txt = ''simulate'' then Some Simulate
      else if txt = ''capture'' then Some Capture
      else if txt = ''passthrough'' then Some Passthrough else None)"

fun mock_list_tag :: "mock_mode \<Rightarrow> string" where
  "mock_list_tag Passthrough = ''[real]''"
| "mock_list_tag m = ''[mock:'' @ mock_as_str m @ '']''"

section \<open>Capabilities\<close>

datatype capability =
    SessionFile string session_file_recipe
  | UdsSocket string uds_recipe
  | ProxyMap string string proxy_recipe
  | Broker string broker_launch
  | Mount string string mount_recipe

fun cap_class :: "capability \<Rightarrow> universe_class" where
  "cap_class (SessionFile _ _) = ClsSessionFile"
| "cap_class (UdsSocket _ _) = ClsUdsPath"
| "cap_class (ProxyMap _ _ _) = ClsProxyMap"
| "cap_class (Broker _ _) = ClsBrokerPid"
| "cap_class (Mount _ _ _) = ClsMount"

fun cap_key :: "capability \<Rightarrow> string" where
  "cap_key (SessionFile path _) = ''session/'' @ path"
| "cap_key (UdsSocket path _) = path"
| "cap_key (ProxyMap host _ _) = host"
| "cap_key (Broker name _) = ''broker/'' @ name"
| "cap_key (Mount _ target _) = target"

definition session_file_rules :: "string \<Rightarrow> session_file_recipe \<Rightarrow> recipe_error + unit" where
  "session_file_rules path recipe =
     and_then (canonical_path ''path'' path) (\<lambda>_. session_file_recipe_validate recipe)"

definition uds_socket_rules :: "string \<Rightarrow> uds_recipe \<Rightarrow> recipe_error + unit" where
  "uds_socket_rules path recipe =
     and_then (canonical_path ''path'' path) (\<lambda>_. uds_recipe_validate recipe)"

definition proxy_map_rules :: "string \<Rightarrow> string \<Rightarrow> proxy_recipe \<Rightarrow> recipe_error + unit" where
  "proxy_map_rules host route recipe =
     and_then (nul_free ''host'' host) (\<lambda>_.
     and_then (nul_free ''route'' route) (\<lambda>_. proxy_recipe_validate recipe))"

definition broker_rules :: "string \<Rightarrow> broker_launch \<Rightarrow> recipe_error + unit" where
  "broker_rules name launch =
     and_then (nul_free ''name'' name) (\<lambda>_. broker_launch_validate launch)"

definition mount_rules :: "string \<Rightarrow> string \<Rightarrow> mount_recipe \<Rightarrow> recipe_error + unit" where
  "mount_rules source target recipe =
     and_then (canonical_path ''source'' source) (\<lambda>_.
     and_then (canonical_path ''target'' target) (\<lambda>_. mount_recipe_validate recipe))"

fun cap_validate :: "capability \<Rightarrow> recipe_error + unit" where
  "cap_validate (SessionFile path recipe) = session_file_rules path recipe"
| "cap_validate (UdsSocket path recipe) = uds_socket_rules path recipe"
| "cap_validate (ProxyMap host route recipe) = proxy_map_rules host route recipe"
| "cap_validate (Broker name launch) = broker_rules name launch"
| "cap_validate (Mount source target recipe) = mount_rules source target recipe"

section \<open>Objects, operations and removals\<close>

record os_object =
  obj_id :: grant_id
  obj_owner :: cell_owner
  obj_capability :: capability

record universe_removal =
  rem_id :: grant_id
  rem_capability :: capability

datatype universe_op =
    WriteSessionFile grant_id string session_file_recipe cell_owner
  | BindUds grant_id string uds_recipe cell_owner
  | SetProxyMap grant_id string string proxy_recipe cell_owner
  | SpawnBroker grant_id string broker_launch cell_owner
  | AddMount grant_id string string mount_recipe cell_owner

definition obj_class :: "os_object \<Rightarrow> universe_class" where
  "obj_class ob = cap_class (obj_capability ob)"

definition obj_key :: "os_object \<Rightarrow> string" where
  "obj_key ob = cap_key (obj_capability ob)"

definition obj_operation :: "os_object \<Rightarrow> universe_op" where
  "obj_operation ob =
     (case obj_capability ob of
        SessionFile path recipe \<Rightarrow> WriteSessionFile (obj_id ob) path recipe (obj_owner ob)
      | UdsSocket path recipe \<Rightarrow> BindUds (obj_id ob) path recipe (obj_owner ob)
      | ProxyMap host route recipe \<Rightarrow> SetProxyMap (obj_id ob) host route recipe (obj_owner ob)
      | Broker name launch \<Rightarrow> SpawnBroker (obj_id ob) name launch (obj_owner ob)
      | Mount source target recipe \<Rightarrow> AddMount (obj_id ob) source target recipe (obj_owner ob))"

fun op_id :: "universe_op \<Rightarrow> grant_id" where
  "op_id (WriteSessionFile i _ _ _) = i"
| "op_id (BindUds i _ _ _) = i"
| "op_id (SetProxyMap i _ _ _ _) = i"
| "op_id (SpawnBroker i _ _ _) = i"
| "op_id (AddMount i _ _ _ _) = i"

fun op_class :: "universe_op \<Rightarrow> universe_class" where
  "op_class (WriteSessionFile _ _ _ _) = ClsSessionFile"
| "op_class (BindUds _ _ _ _) = ClsUdsPath"
| "op_class (SetProxyMap _ _ _ _ _) = ClsProxyMap"
| "op_class (SpawnBroker _ _ _ _) = ClsBrokerPid"
| "op_class (AddMount _ _ _ _ _) = ClsMount"

fun op_owner :: "universe_op \<Rightarrow> cell_owner" where
  "op_owner (WriteSessionFile _ _ _ w) = w"
| "op_owner (BindUds _ _ _ w) = w"
| "op_owner (SetProxyMap _ _ _ _ w) = w"
| "op_owner (SpawnBroker _ _ _ w) = w"
| "op_owner (AddMount _ _ _ _ w) = w"

fun op_capability :: "universe_op \<Rightarrow> capability" where
  "op_capability (WriteSessionFile _ path recipe _) = SessionFile path recipe"
| "op_capability (BindUds _ path recipe _) = UdsSocket path recipe"
| "op_capability (SetProxyMap _ host route recipe _) = ProxyMap host route recipe"
| "op_capability (SpawnBroker _ name launch _) = Broker name launch"
| "op_capability (AddMount _ source target recipe _) = Mount source target recipe"

fun op_validate :: "universe_op \<Rightarrow> recipe_error + unit" where
  "op_validate (WriteSessionFile _ path recipe _) = session_file_rules path recipe"
| "op_validate (BindUds _ path recipe _) = uds_socket_rules path recipe"
| "op_validate (SetProxyMap _ host route recipe _) = proxy_map_rules host route recipe"
| "op_validate (SpawnBroker _ name launch _) = broker_rules name launch"
| "op_validate (AddMount _ source target recipe _) = mount_rules source target recipe"

definition op_handle :: "universe_op \<Rightarrow> handle" where
  "op_handle p = Handle (op_class p) (op_id p)"

definition op_object :: "universe_op \<Rightarrow> os_object" where
  "op_object p = \<lparr>obj_id = op_id p, obj_owner = op_owner p, obj_capability = op_capability p\<rparr>"

definition op_removal :: "universe_op \<Rightarrow> universe_removal" where
  "op_removal p = \<lparr>rem_id = op_id p, rem_capability = op_capability p\<rparr>"

definition rem_class :: "universe_removal \<Rightarrow> universe_class" where
  "rem_class r = cap_class (rem_capability r)"

definition rem_key :: "universe_removal \<Rightarrow> string" where
  "rem_key r = cap_key (rem_capability r)"

text \<open>The address of an object and of a removal, and the removal that takes an object.\<close>

definition obj_handle :: "os_object \<Rightarrow> handle" where
  "obj_handle ob = Handle (obj_class ob) (obj_id ob)"

definition rem_handle :: "universe_removal \<Rightarrow> handle" where
  "rem_handle r = Handle (rem_class r) (rem_id r)"

definition removed_object :: "universe_removal \<Rightarrow> cell_owner \<Rightarrow> os_object" where
  "removed_object r owner = \<lparr>obj_id = rem_id r, obj_owner = owner, obj_capability = rem_capability r\<rparr>"

named_theorems universe_simps \<open>address and object projections\<close>

lemma op_class_capability [universe_simps]: "op_class p = cap_class (op_capability p)"
  by (cases p) auto

lemma op_validate_capability: "op_validate p = cap_validate (op_capability p)"
  by (cases p) auto

lemma op_object_operation [simp]: "op_object (obj_operation ob) = ob"
  by (cases ob; cases "obj_capability ob") (auto simp: op_object_def obj_operation_def)

lemma obj_operation_object [simp]: "obj_operation (op_object p) = p"
  by (cases p) (auto simp: op_object_def obj_operation_def)

lemma op_object_inject: "op_object p = op_object q \<longleftrightarrow> p = q"
  by (metis obj_operation_object)

lemma obj_operation_inject [simp]: "obj_operation a = obj_operation b \<longleftrightarrow> a = b"
  by (metis op_object_operation)

lemma obj_handle_op_object [simp]: "obj_handle (op_object p) = op_handle p"
  by (simp add: obj_handle_def op_handle_def obj_class_def op_object_def op_class_capability)

lemma op_handle_operation [simp]: "op_handle (obj_operation ob) = obj_handle ob"
  using obj_handle_op_object [of "obj_operation ob"] by simp

lemma op_object_sel [simp]:
  "obj_id (op_object p) = op_id p"
  "obj_owner (op_object p) = op_owner p"
  "obj_capability (op_object p) = op_capability p"
  by (simp_all add: op_object_def)

lemma op_operation_sel [simp]:
  "op_id (obj_operation ob) = obj_id ob"
  "op_owner (obj_operation ob) = obj_owner ob"
  "op_capability (obj_operation ob) = obj_capability ob"
  by (cases "obj_capability ob"; simp add: obj_operation_def)+

lemma obj_handle_removed [simp]: "obj_handle (removed_object r owner) = rem_handle r"
  by (simp add: obj_handle_def rem_handle_def obj_class_def rem_class_def removed_object_def)

lemma removed_object_sel [simp]:
  "obj_id (removed_object r owner) = rem_id r"
  "obj_owner (removed_object r owner) = owner"
  "obj_capability (removed_object r owner) = rem_capability r"
  by (simp_all add: removed_object_def)

lemma removed_object_op_removal [simp]: "removed_object (op_removal p) (op_owner p) = op_object p"
  by (simp add: removed_object_def op_removal_def op_object_def)

lemma rem_handle_op_removal [simp]: "rem_handle (op_removal p) = op_handle p"
  by (simp add: rem_handle_def rem_class_def op_removal_def op_handle_def op_class_capability)

section \<open>Backend errors and issued records\<close>

datatype grant_kind = Hot | GenerationBound

record ledger_entry =
  le_handle :: handle
  le_owner :: cell_owner
  le_capability :: capability
  le_kind :: grant_kind

definition le_object :: "ledger_entry \<Rightarrow> os_object" where
  "le_object e =
     \<lparr>obj_id = handle_id (le_handle e), obj_owner = le_owner e, obj_capability = le_capability e\<rparr>"

definition le_removal :: "ledger_entry \<Rightarrow> universe_removal" where
  "le_removal e = \<lparr>rem_id = handle_id (le_handle e), rem_capability = le_capability e\<rparr>"

text \<open>
  \<open>composite.rs\<close> routes each class to one of three leaves. The text of a \<open>Fault\<close> that the code
  formats from a handle, an owner or an object keeps those values, so that the model says what
  the message names without fixing how an identity is printed.
\<close>

datatype leaf = LeafNetwork | LeafFilesystem | LeafBroker

datatype foreign_row = RowIssued handle cell_owner | RowObject os_object | RowIncomplete handle cell_owner

datatype fault_cause =
    Cause string
  | ClassMismatch handle
  | NoHolding handle
  | OutOfClass leaf foreign_row

lemma le_removal_sel [simp]:
  "rem_id (le_removal e) = handle_id (le_handle e)" "rem_capability (le_removal e) = le_capability e"
  by (simp_all add: le_removal_def)

datatype backend_error =
    UnknownHandle handle
  | DrainTimedOut handle u64
  | UnknownObject string string cell_owner grant_id
  | IdentityConflict string grant_id
  | InvalidOperation string grant_id recipe_error
  | IncompleteEffectErr string grant_id string
  | Fault fault_cause
  | Unimplemented string

datatype revoke_policy = Graceful | Force

text \<open>A \<open>Duration\<close> is its length in nanoseconds, below \<open>2^64\<close> seconds.\<close>

type_synonym duration = nat

record drain_spec =
  ds_deadline :: duration
  ds_policy :: revoke_policy

definition drain_graceful :: "duration \<Rightarrow> drain_spec" where
  "drain_graceful deadline = \<lparr>ds_deadline = deadline, ds_policy = Graceful\<rparr>"

definition drain_forcing :: drain_spec where
  "drain_forcing = \<lparr>ds_deadline = 0, ds_policy = Force\<rparr>"

text \<open>\<open>DrainSpec::deadline_ms\<close>: whole milliseconds, rounded up, clamped to a \<open>u64\<close>.\<close>

definition deadline_ms :: "drain_spec \<Rightarrow> u64" where
  "deadline_ms d = clamp_word ((ds_deadline d + 999999) div 1000000)"

text \<open>\<open>Duration::new(secs, subsec_millis * 1_000_000)\<close>: truncated to whole milliseconds.\<close>

definition whole_ms :: "duration \<Rightarrow> duration" where
  "whole_ms d = d div 1000000 * 1000000"

definition MS :: duration where "MS = 1000000"

definition shutdown_deadline :: "drain_spec \<Rightarrow> duration option" where
  "shutdown_deadline d =
     (case ds_policy d of
        Force \<Rightarrow> None
      | Graceful \<Rightarrow>
          (let left = ds_deadline d - max MS (ds_deadline d div 10);
               whole = whole_ms left
           in if whole \<ge> MS then Some whole else None))"

section \<open>The state of standing objects\<close>

record os_state =
  os_objects :: "(universe_class \<times> grant_id, os_object) btree_map"

definition os_new :: os_state where
  "os_new = \<lparr>os_objects = bt_empty\<rparr>"

definition os_insert :: "os_object \<Rightarrow> os_state \<Rightarrow> (backend_error + bool) \<times> os_state" where
  "os_insert ob s =
     (let address = (obj_class ob, obj_id ob) in
      case bt_get (os_objects s) address of
        None \<Rightarrow> (Ok True, s\<lparr>os_objects := bt_insert address ob (os_objects s)\<rparr>)
      | Some held \<Rightarrow>
          if held = ob then (Ok False, s)
          else (Err (IdentityConflict (class_as_str (fst address)) (snd address)), s))"

definition os_selects :: "os_state \<Rightarrow> universe_removal \<Rightarrow> cell_owner \<Rightarrow> bool" where
  "os_selects s removal owner =
     (case bt_get (os_objects s) (rem_class removal, rem_id removal) of
        None \<Rightarrow> False
      | Some ob \<Rightarrow> obj_owner ob = owner \<and> obj_capability ob = rem_capability removal)"

definition os_remove :: "universe_removal \<Rightarrow> cell_owner \<Rightarrow> os_state \<Rightarrow> os_object option \<times> os_state" where
  "os_remove removal owner s =
     (let address = (rem_class removal, rem_id removal) in
      if os_selects s removal owner
      then (bt_get (os_objects s) address, s\<lparr>os_objects := bt_remove address (os_objects s)\<rparr>)
      else (None, s))"

definition os_object_list :: "os_state \<Rightarrow> os_object list" where
  "os_object_list s = bt_values (os_objects s)"

definition os_contains :: "os_state \<Rightarrow> universe_class \<Rightarrow> string \<Rightarrow> bool" where
  "os_contains s cls key = list_ex (\<lambda>ob. obj_class ob = cls \<and> obj_key ob = key) (os_object_list s)"

definition os_len :: "os_state \<Rightarrow> nat" where
  "os_len s = bt_len (os_objects s)"

definition os_is_empty :: "os_state \<Rightarrow> bool" where
  "os_is_empty s = bt_is_empty (os_objects s)"

text \<open>\<open>canonical_multiset\<close>: how many standing objects have each owner and capability.\<close>

definition canonical_multiset :: "os_state \<Rightarrow> (cell_owner \<times> capability) \<rightharpoonup> nat" where
  "canonical_multiset s =
     fold (count_step (\<lambda>ob. (obj_owner ob, obj_capability ob))) (os_object_list s) Map.empty"

definition canonically_equivalent :: "os_state \<Rightarrow> os_state \<Rightarrow> bool" where
  "canonically_equivalent s t \<longleftrightarrow> canonical_multiset s = canonical_multiset t"

section \<open>Diffs and residue\<close>

record os_diff =
  diff_added :: "os_object list"
  diff_removed :: "os_object list"

definition diff_between :: "os_state \<Rightarrow> os_state \<Rightarrow> os_diff" where
  "diff_between before after =
     \<lparr>diff_added = map snd (filter (\<lambda>e. bt_get (os_objects before) (fst e) \<noteq> Some (snd e))
                       (entries (os_objects after))),
      diff_removed = map snd (filter (\<lambda>e. bt_get (os_objects after) (fst e) \<noteq> Some (snd e))
                       (entries (os_objects before)))\<rparr>"

definition diff_is_empty :: "os_diff \<Rightarrow> bool" where
  "diff_is_empty d = (diff_added d = [] \<and> diff_removed d = [])"

datatype residue_report = ResidueEmpty | Residue "os_object list" "os_object list" "string list"

definition residue_from_diff :: "os_diff \<Rightarrow> string list \<Rightarrow> residue_report" where
  "residue_from_diff d assertions =
     (if diff_is_empty d \<and> assertions = [] then ResidueEmpty
      else Residue (diff_added d) (diff_removed d) assertions)"

definition residue_is_empty :: "residue_report \<Rightarrow> bool" where
  "residue_is_empty r = (case r of ResidueEmpty \<Rightarrow> True | Residue _ _ _ \<Rightarrow> False)"

section \<open>Lemmas on the state of standing objects\<close>

text \<open>Every object stands at its own address.\<close>

definition os_wf :: "os_state \<Rightarrow> bool" where
  "os_wf s \<longleftrightarrow>
     list_all (\<lambda>e. fst e = (obj_class (snd e), obj_id (snd e))) (entries (os_objects s))"

definition standing :: "os_state \<Rightarrow> handle \<Rightarrow> os_object option" where
  "standing s h = bt_get (os_objects s) (handle_class h, handle_id h)"

lemma os_wf_iff: "os_wf s \<longleftrightarrow> (\<forall>h ob. standing s h = Some ob \<longrightarrow> obj_handle ob = h)"
proof
  assume "os_wf s"
  then have "fst e = (obj_class (snd e), obj_id (snd e))" if "e \<in> set (entries (os_objects s))" for e
    using that by (simp add: os_wf_def list_all_iff)
  then have "(handle_class h, handle_id h) = (obj_class ob, obj_id ob)" if "standing s h = Some ob" for h ob
    using that by (fastforce simp: standing_def entries_get [symmetric])
  then show "\<forall>h ob. standing s h = Some ob \<longrightarrow> obj_handle ob = h"
    by (metis handle.collapse obj_handle_def prod.inject)
next
  assume *: "\<forall>h ob. standing s h = Some ob \<longrightarrow> obj_handle ob = h"
  have "k = (obj_class ob, obj_id ob)" if "bt_get (os_objects s) k = Some ob" for k ob
    using * [rule_format, of "Handle (fst k) (snd k)" ob] that
    by (cases k) (simp add: standing_def obj_handle_def)
  then show "os_wf s" by (auto simp: os_wf_def list_all_iff entries_get)
qed

lemma os_state_ext: "(\<And>h. standing s h = standing t h) \<Longrightarrow> s = t" for s t :: os_state
proof -
  assume *: "\<And>h. standing s h = standing t h"
  have "os_objects s = os_objects t"
  proof (rule bt_ext)
    fix k :: "universe_class \<times> grant_id"
    show "bt_get (os_objects s) k = bt_get (os_objects t) k"
      using * [of "Handle (fst k) (snd k)"] by (simp add: standing_def)
  qed
  then show "s = t" by simp
qed

lemma standing_new [simp]: "standing os_new h = None"
  by (simp add: standing_def os_new_def)

lemma os_wf_new [simp]: "os_wf os_new"
  by (simp add: os_wf_iff)

lemma obj_handle_eq_iff:
  "(handle_class h, handle_id h) = (obj_class ob, obj_id ob) \<longleftrightarrow> h = obj_handle ob"
  by (cases h) (auto simp: obj_handle_def)

lemma os_insert_fresh:
  assumes "standing s (obj_handle ob) = None"
  shows "fst (os_insert ob s) = Ok True"
    and "standing (snd (os_insert ob s)) = (standing s)(obj_handle ob \<mapsto> ob)"
proof -
  have n: "bt_get (os_objects s) (obj_class ob, obj_id ob) = None"
    using assms by (simp add: standing_def obj_handle_def)
  then show "fst (os_insert ob s) = Ok True" by (simp add: os_insert_def Let_def)
  show "standing (snd (os_insert ob s)) = (standing s)(obj_handle ob \<mapsto> ob)"
  proof
    fix h
    show "standing (snd (os_insert ob s)) h = ((standing s)(obj_handle ob \<mapsto> ob)) h"
      using n obj_handle_eq_iff [of h ob] by (auto simp: os_insert_def Let_def standing_def)
  qed
qed

lemma os_insert_held:
  assumes "standing s (obj_handle ob) = Some held"
  shows "os_insert ob s =
    ((if held = ob then Ok False
      else Err (IdentityConflict (class_as_str (obj_class ob)) (obj_id ob))), s)"
  using assms by (simp add: os_insert_def standing_def obj_handle_def)

lemma os_wf_insert: "os_wf s \<Longrightarrow> os_wf (snd (os_insert ob s))"
proof -
  assume wf: "os_wf s"
  show ?thesis
  proof (cases "standing s (obj_handle ob)")
    case None
    from os_insert_fresh(2) [OF None] wf show ?thesis by (auto simp: os_wf_iff)
  next
    case (Some held)
    with wf show ?thesis by (simp add: os_insert_held)
  qed
qed

lemma os_selects_standing:
  assumes "os_wf s"
  shows "os_selects s removal owner \<longleftrightarrow>
    standing s (rem_handle removal) = Some (removed_object removal owner)"
proof -
  have *: "obj_handle ob = rem_handle removal"
    if "standing s (rem_handle removal) = Some ob" for ob
    using assms that by (simp add: os_wf_iff)
  show ?thesis
  proof (cases "standing s (rem_handle removal)")
    case None
    then show ?thesis by (simp add: os_selects_def standing_def rem_handle_def)
  next
    case (Some ob)
    from * [OF Some] have "obj_id ob = rem_id removal"
      by (simp add: obj_handle_def rem_handle_def)
    then have "ob = removed_object removal owner \<longleftrightarrow>
        obj_owner ob = owner \<and> obj_capability ob = rem_capability removal"
      by (cases ob) (auto simp: removed_object_def)
    with Some show ?thesis by (simp add: os_selects_def standing_def rem_handle_def)
  qed
qed

lemma standing_os_remove:
  "standing (snd (os_remove removal owner s)) =
   (if os_selects s removal owner then (standing s)(rem_handle removal := None) else standing s)"
proof
  fix h
  have "(handle_class h, handle_id h) = (rem_class removal, rem_id removal) \<longleftrightarrow> h = rem_handle removal"
    by (cases h) (auto simp: rem_handle_def)
  then show "standing (snd (os_remove removal owner s)) h =
   (if os_selects s removal owner then (standing s)(rem_handle removal := None) else standing s) h"
    by (auto simp: os_remove_def standing_def Let_def)
qed

lemma os_wf_remove: "os_wf s \<Longrightarrow> os_wf (snd (os_remove removal owner s))"
  by (auto simp: os_wf_iff standing_os_remove split: if_splits)

lemma os_remove_result:
  "os_wf s \<Longrightarrow> fst (os_remove removal owner s) =
   (if os_selects s removal owner then Some (removed_object removal owner) else None)"
  using os_selects_standing [of s removal owner]
  by (auto simp: os_remove_def standing_def rem_handle_def Let_def)

text \<open>A removal of the object just inserted restores the state exactly.\<close>

lemma os_insert_remove:
  assumes "os_wf s" "standing s (op_handle p) = None"
  shows "os_remove (op_removal p) (op_owner p) (snd (os_insert (op_object p) s)) = (Some (op_object p), s)"
proof -
  let ?t = "snd (os_insert (op_object p) s)"
  have st: "standing ?t = (standing s)(op_handle p \<mapsto> op_object p)"
    using os_insert_fresh(2) [of s "op_object p"] assms(2) by simp
  have wf: "os_wf ?t" by (rule os_wf_insert [OF assms(1)])
  have sel: "os_selects ?t (op_removal p) (op_owner p)"
    using os_selects_standing [OF wf] st by simp
  have "snd (os_remove (op_removal p) (op_owner p) ?t) = s"
    by (rule os_state_ext) (use sel st assms(2) in \<open>auto simp: standing_os_remove\<close>)
  moreover have "fst (os_remove (op_removal p) (op_owner p) ?t) = Some (op_object p)"
    using os_remove_result [OF wf] sel by simp
  ultimately show ?thesis by (metis prod.collapse)
qed

lemma set_os_object_list: "set (os_object_list s) = {ob. \<exists>h. standing s h = Some ob}"
proof -
  have "(\<exists>k. bt_get (os_objects s) k = Some ob) \<longleftrightarrow> (\<exists>h. standing s h = Some ob)" for ob
    by (metis handle.sel standing_def surj_pair)
  then show ?thesis by (auto simp: os_object_list_def bt_values_get)
qed

lemma os_object_list_handles:
  assumes "os_wf s"
  shows "map obj_handle (os_object_list s) = map (\<lambda>k. Handle (fst k) (snd k)) (bt_keys (os_objects s))"
  using assms by (auto simp: os_wf_def os_object_list_def bt_values_def bt_keys_def list_all_iff obj_handle_def)

lemma os_object_list_standing:
  assumes "os_wf s"
  shows "ob \<in> set (os_object_list s) \<longleftrightarrow> standing s (obj_handle ob) = Some ob"
  using assms by (auto simp: set_os_object_list os_wf_iff)

section \<open>Lemmas on diffs and equivalence\<close>

lemma set_diff_added:
  "ob \<in> set (diff_added (diff_between s t)) \<longleftrightarrow>
   (\<exists>h. standing t h = Some ob \<and> standing s h \<noteq> Some ob)"
proof
  assume "ob \<in> set (diff_added (diff_between s t))"
  then obtain k where "bt_get (os_objects t) k = Some ob" "bt_get (os_objects s) k \<noteq> Some ob"
    by (auto simp: diff_between_def entries_get)
  then show "\<exists>h. standing t h = Some ob \<and> standing s h \<noteq> Some ob"
    by (intro exI [of _ "Handle (fst k) (snd k)"]) (simp add: standing_def)
next
  assume "\<exists>h. standing t h = Some ob \<and> standing s h \<noteq> Some ob"
  then obtain k where k: "bt_get (os_objects t) k = Some ob" "bt_get (os_objects s) k \<noteq> Some ob"
    by (auto simp: standing_def)
  then have "(k, ob) \<in> set (filter (\<lambda>e. bt_get (os_objects s) (fst e) \<noteq> Some (snd e))
      (entries (os_objects t)))"
    by (simp add: entries_get)
  then show "ob \<in> set (diff_added (diff_between s t))"
    by (force simp: diff_between_def)
qed

lemma diff_removed_swap: "diff_removed (diff_between s t) = diff_added (diff_between t s)"
  by (simp add: diff_between_def)

lemma diff_empty_iff: "diff_is_empty (diff_between s t) \<longleftrightarrow> s = t"
proof
  assume e: "diff_is_empty (diff_between s t)"
  then have a: "diff_added (diff_between s t) = []" and r: "diff_added (diff_between t s) = []"
    by (simp_all add: diff_is_empty_def diff_removed_swap)
  have "standing t h = Some ob \<longleftrightarrow> standing s h = Some ob" for h ob
    using set_diff_added [of ob s t] set_diff_added [of ob t s] unfolding a r by auto
  then show "s = t" by (metis os_state_ext not_None_eq)
next
  assume "s = t"
  then show "diff_is_empty (diff_between s t)"
    by (auto simp: diff_is_empty_def diff_between_def filter_empty_conv entries_get)
qed

lemma canonical_multiset_count:
  "canonical_multiset s k =
   (let n = count (mset (map (\<lambda>ob. (obj_owner ob, obj_capability ob)) (os_object_list s))) k
    in if n = 0 then None else Some n)"
  by (simp only: canonical_multiset_def fold_count_step Let_def option.case add_0)

lemma canonically_equivalent_mset [code]:
  "canonically_equivalent s t \<longleftrightarrow>
   mset (map (\<lambda>ob. (obj_owner ob, obj_capability ob)) (os_object_list s)) =
   mset (map (\<lambda>ob. (obj_owner ob, obj_capability ob)) (os_object_list t))"
  (is "_ \<longleftrightarrow> ?m s = ?m t")
proof
  assume "canonically_equivalent s t"
  then have "canonical_multiset s k = canonical_multiset t k" for k
    by (simp add: canonically_equivalent_def)
  then have "count (?m s) k = count (?m t) k" for k
    unfolding canonical_multiset_count Let_def by (rule count_option_inject)
  then show "?m s = ?m t" by (rule multiset_eqI)
next
  assume "?m s = ?m t"
  then show "canonically_equivalent s t"
    by (simp only: canonically_equivalent_def canonical_multiset_count fun_eq_iff simp_thms)
qed

section \<open>Lemmas on drain deadlines\<close>

lemma whole_ms_le: "whole_ms d \<le> d"
  by (simp add: whole_ms_def)

lemma whole_ms_dvd: "MS dvd whole_ms d"
  by (simp add: whole_ms_def MS_def)

lemma whole_ms_ge: "MS \<le> d \<Longrightarrow> MS \<le> whole_ms d"
  by (simp add: whole_ms_def MS_def)

lemma whole_ms_mono: "d \<le> e \<Longrightarrow> whole_ms d \<le> whole_ms e"
  by (simp add: whole_ms_def div_le_mono)

lemma whole_ms_id: "MS dvd d \<Longrightarrow> whole_ms d = d"
  by (simp add: whole_ms_def MS_def)

lemma whole_ms_close: "d < whole_ms d + MS"
  using div_mult_mod_eq [of d 1000000] mod_less_divisor [of 1000000 d]
  by (simp add: whole_ms_def MS_def)

end
