(* ===== verification/Snapshot.thy ===== *)
theory Snapshot
  imports Universe
begin

text \<open>
  \<open>crates/plasmosome-backend/src/snapshot.rs\<close>: a backend's complete account, and the checks its
  constructor runs before it exists.
\<close>

section \<open>The account\<close>

record incomplete_effect =
  ie_operation :: universe_op

definition ie_handle :: "incomplete_effect \<Rightarrow> handle" where
  "ie_handle f = op_handle (ie_operation f)"

record enforcement_snapshot =
  sn_state :: os_state
  sn_grants :: "ledger_entry list"
  sn_incomplete :: "incomplete_effect list"

definition valid_row :: "handle \<Rightarrow> recipe_error + unit \<Rightarrow> backend_error + unit" where
  "valid_row address checked =
     map_err (InvalidOperation (class_as_str (handle_class address)) (handle_id address)) checked"

definition conflict :: "handle \<Rightarrow> backend_error" where
  "conflict address = IdentityConflict (class_as_str (handle_class address)) (handle_id address)"

text \<open>The loop that inserts each address into a set and refuses the first repeat.\<close>

fun refuse_repeat :: "handle btree_set \<Rightarrow> handle list \<Rightarrow> backend_error + unit" where
  "refuse_repeat seen [] = Ok ()"
| "refuse_repeat seen (h # hs) =
     (if bs_contains seen h then Err (conflict h) else refuse_repeat (bs_insert h seen) hs)"

definition standing_rows :: "os_state \<Rightarrow> (handle, cell_owner \<times> capability) btree_map" where
  "standing_rows state =
     bt_collect (map (\<lambda>ob. (Handle (obj_class ob) (obj_id ob), (obj_owner ob, obj_capability ob)))
       (os_object_list state))"

definition unfinished_rows :: "incomplete_effect list \<Rightarrow> (handle, incomplete_effect) btree_map" where
  "unfinished_rows incomplete = bt_collect (map (\<lambda>f. (ie_handle f, f)) incomplete)"

definition account_row ::
  "os_state \<Rightarrow> incomplete_effect list \<Rightarrow> handle \<Rightarrow> (cell_owner \<times> capability) option" where
  "account_row state incomplete h =
     (case bt_get (standing_rows state) h of
        Some row \<Rightarrow> Some row
      | None \<Rightarrow> map_option (\<lambda>f. (op_owner (ie_operation f), op_capability (ie_operation f)))
                  (bt_get (unfinished_rows incomplete) h))"

definition check_object :: "os_object \<Rightarrow> backend_error + unit" where
  "check_object ob = valid_row (op_handle (obj_operation ob)) (cap_validate (obj_capability ob))"

definition check_entry :: "ledger_entry \<Rightarrow> backend_error + unit" where
  "check_entry e =
     and_then (valid_row (le_handle e) (cap_validate (le_capability e))) (\<lambda>_.
       if handle_class (le_handle e) \<noteq> cap_class (le_capability e)
       then Err (Fault (ClassMismatch (le_handle e))) else Ok ())"

definition check_effect :: "incomplete_effect \<Rightarrow> backend_error + unit" where
  "check_effect f = valid_row (ie_handle f) (op_validate (ie_operation f))"

definition row_differs :: "os_state \<Rightarrow> incomplete_effect list \<Rightarrow> ledger_entry \<Rightarrow> bool" where
  "row_differs state incomplete e =
     (case account_row state incomplete (le_handle e) of
        None \<Rightarrow> False
      | Some (owner, cap) \<Rightarrow> owner \<noteq> le_owner e \<or> cap \<noteq> le_capability e)"

definition row_missing :: "os_state \<Rightarrow> incomplete_effect list \<Rightarrow> ledger_entry \<Rightarrow> bool" where
  "row_missing state incomplete e = (account_row state incomplete (le_handle e) = None)"

definition snapshot_new ::
  "os_state \<Rightarrow> ledger_entry list \<Rightarrow> incomplete_effect list \<Rightarrow> backend_error + enforcement_snapshot" where
  "snapshot_new state grants incomplete =
     and_then (for_each check_object (os_object_list state)) (\<lambda>_.
     and_then (for_each check_entry grants) (\<lambda>_.
     and_then (for_each check_effect incomplete) (\<lambda>_.
     and_then (refuse_repeat bt_empty (map ie_handle incomplete)) (\<lambda>_.
     (case List.find (\<lambda>f. bt_contains_key (standing_rows state) (ie_handle f)) incomplete of
        Some f \<Rightarrow> Err (conflict (ie_handle f))
      | None \<Rightarrow>
     and_then (refuse_repeat bt_empty (map le_handle grants)) (\<lambda>_.
     (case List.find (row_differs state incomplete) grants of
        Some e \<Rightarrow> Err (conflict (le_handle e))
      | None \<Rightarrow>
     (case List.find (row_missing state incomplete) grants of
        Some e \<Rightarrow> Err (Fault (NoHolding (le_handle e)))
      | None \<Rightarrow>
     Ok \<lparr>sn_state = state, sn_grants = sort_key le_handle grants,
         sn_incomplete = sort_key ie_handle incomplete\<rparr>))))))))"

definition snapshot_empty :: enforcement_snapshot where
  "snapshot_empty = \<lparr>sn_state = os_new, sn_grants = [], sn_incomplete = []\<rparr>"

definition snapshot_is_empty :: "enforcement_snapshot \<Rightarrow> bool" where
  "snapshot_is_empty sn =
     (os_is_empty (sn_state sn) \<and> sn_grants sn = [] \<and> sn_incomplete sn = [])"

section \<open>The declarative account\<close>

text \<open>
  What \<open>new\<close> promises of every account it builds: each row is valid, an address is standing or
  unfinished but never both or twice, and every issued record agrees with exactly one row.
\<close>

definition row_of :: "os_state \<Rightarrow> incomplete_effect list \<Rightarrow> handle \<Rightarrow> (cell_owner \<times> capability) set" where
  "row_of state incomplete h =
     (\<lambda>ob. (obj_owner ob, obj_capability ob)) ` set_option (standing state h) \<union>
     (\<lambda>f. (op_owner (ie_operation f), op_capability (ie_operation f))) `
        {f \<in> set incomplete. ie_handle f = h}"

definition account_ok :: "os_state \<Rightarrow> ledger_entry list \<Rightarrow> incomplete_effect list \<Rightarrow> bool" where
  "account_ok state grants incomplete \<longleftrightarrow>
     (\<forall>h ob. standing state h = Some ob \<longrightarrow> is_ok (cap_validate (obj_capability ob))) \<and>
     (\<forall>e \<in> set grants. is_ok (cap_validate (le_capability e)) \<and>
        handle_class (le_handle e) = cap_class (le_capability e)) \<and>
     (\<forall>f \<in> set incomplete. is_ok (op_validate (ie_operation f))) \<and>
     distinct (map ie_handle incomplete) \<and>
     (\<forall>f \<in> set incomplete. standing state (ie_handle f) = None) \<and>
     distinct (map le_handle grants) \<and>
     (\<forall>e \<in> set grants. row_of state incomplete (le_handle e) = {(le_owner e, le_capability e)})"

lemma is_ok_valid_row [simp]: "is_ok (valid_row h r) = is_ok r"
  by (simp add: valid_row_def)

lemma refuse_repeat_ok:
  "is_ok (refuse_repeat seen hs) \<longleftrightarrow> distinct hs \<and> (\<forall>h \<in> set hs. \<not> bs_contains seen h)"
  by (induction seen hs rule: refuse_repeat.induct) auto

lemma refuse_repeat_Ok: "refuse_repeat bt_empty hs = Inr u \<longleftrightarrow> distinct hs"
  using refuse_repeat_ok [of bt_empty hs] by (simp add: is_ok_unit)

lemma map_of_rev_map_handles:
  assumes "distinct (map g xs)"
  shows "map_of (rev (map (\<lambda>x. (g x, v x)) xs)) h = (if \<exists>x \<in> set xs. g x = h
     then Some (v (THE x. x \<in> set xs \<and> g x = h)) else None)"
proof (cases "\<exists>x \<in> set xs. g x = h")
  case True
  then obtain x where x: "x \<in> set xs" "g x = h" by blast
  then have the: "(THE x. x \<in> set xs \<and> g x = h) = x"
    using assms by (intro the_equality) (auto simp: distinct_map inj_on_def)
  have "distinct (map fst (rev (map (\<lambda>x. (g x, v x)) xs)))"
    using assms by (simp add: rev_map [symmetric] comp_def)
  moreover have "(h, v x) \<in> set (rev (map (\<lambda>x. (g x, v x)) xs))" using x by auto
  ultimately show ?thesis using True the by (simp add: map_of_is_SomeI del: set_rev)
next
  case False
  then show ?thesis by (auto simp: map_of_eq_None_iff)
qed

lemma bt_get_collect_unique:
  assumes "distinct (map g xs)" "x \<in> set xs"
  shows "bt_get (bt_collect (map (\<lambda>x. (g x, v x)) xs)) (g x) = Some (v x)"
proof -
  have "(THE y. y \<in> set xs \<and> g y = g x) = x"
    using assms by (intro the_equality) (auto simp: distinct_map inj_on_def)
  with assms show ?thesis by (auto simp: bt_get_collect map_of_rev_map_handles)
qed

lemma bt_get_collect_none:
  "h \<notin> g ` set xs \<Longrightarrow> bt_get (bt_collect (map (\<lambda>x. (g x, v x)) xs)) h = None"
  by (force simp: bt_get_collect map_of_eq_None_iff)

lemma distinct_os_handles:
  assumes "os_wf s"
  shows "distinct (map obj_handle (os_object_list s))"
  unfolding os_object_list_handles [OF assms]
  by (intro distinct_map [THEN iffD2]) (auto simp: bt_keys_distinct inj_on_def prod_eq_iff)

lemma standing_rows_get:
  assumes "os_wf s"
  shows "bt_get (standing_rows s) h = map_option (\<lambda>ob. (obj_owner ob, obj_capability ob)) (standing s h)"
proof (cases "standing s h")
  case None
  then have "h \<notin> obj_handle ` set (os_object_list s)"
    using assms by (auto simp: os_object_list_standing)
  then show ?thesis
    using None by (simp add: standing_rows_def obj_handle_def [symmetric] bt_get_collect_none)
next
  case (Some ob)
  then have "h = obj_handle ob" using assms by (simp add: os_wf_iff)
  moreover have "ob \<in> set (os_object_list s)"
    using Some calculation assms by (simp add: os_object_list_standing)
  ultimately show ?thesis
    using Some bt_get_collect_unique [OF distinct_os_handles [OF assms],
        of ob "\<lambda>ob. (obj_owner ob, obj_capability ob)"]
    by (simp add: standing_rows_def obj_handle_def [symmetric])
qed

lemma account_row_of:
  assumes wf: "os_wf state" and d: "distinct (map ie_handle incomplete)"
    and disj: "\<forall>f \<in> set incomplete. standing state (ie_handle f) = None"
  shows "row_of state incomplete h = set_option (account_row state incomplete h)"
proof (cases "standing state h")
  case (Some ob)
  then have "{f \<in> set incomplete. ie_handle f = h} = {}" using disj by auto
  with Some show ?thesis by (simp only: row_of_def account_row_def standing_rows_get [OF wf]) simp
next
  case None
  show ?thesis
  proof (cases "\<exists>f \<in> set incomplete. ie_handle f = h")
    case True
    then obtain f where f: "f \<in> set incomplete" "ie_handle f = h" by blast
    then have "bt_get (unfinished_rows incomplete) h = Some f"
      using bt_get_collect_unique [OF d f(1), of "\<lambda>f. f"] by (simp add: unfinished_rows_def)
    moreover have "{g \<in> set incomplete. ie_handle g = h} = {f}"
      using d f by (auto simp: distinct_map inj_on_def)
    ultimately show ?thesis
      using None by (simp add: row_of_def account_row_def standing_rows_get [OF wf])
  next
    case False
    then have "bt_get (unfinished_rows incomplete) h = None"
      by (auto simp: unfinished_rows_def intro!: bt_get_collect_none)
    moreover have "{f \<in> set incomplete. ie_handle f = h} = {}" using False by auto
    ultimately show ?thesis
      using None by (simp add: row_of_def account_row_def standing_rows_get [OF wf])
  qed
qed

lemma snapshot_new_Ok_iff:
  assumes wf: "os_wf state"
  shows "snapshot_new state grants incomplete = Ok sn \<longleftrightarrow>
    account_ok state grants incomplete \<and>
    sn = \<lparr>sn_state = state, sn_grants = sort_key le_handle grants,
          sn_incomplete = sort_key ie_handle incomplete\<rparr>"
    (is "?L \<longleftrightarrow> ?R")
proof -
  have objs: "for_each check_object (os_object_list state) = Ok () \<longleftrightarrow>
      (\<forall>h ob. standing state h = Some ob \<longrightarrow> is_ok (cap_validate (obj_capability ob)))"
    using is_ok_for_each [of check_object "os_object_list state"]
    by (auto simp: is_ok_unit [symmetric] check_object_def set_os_object_list)
  have ents: "for_each check_entry grants = Ok () \<longleftrightarrow>
      (\<forall>e \<in> set grants. is_ok (cap_validate (le_capability e)) \<and>
        handle_class (le_handle e) = cap_class (le_capability e))"
    by (auto simp: is_ok_unit [symmetric] is_ok_for_each check_entry_def is_ok_and_then_unit)
  have effs: "for_each check_effect incomplete = Ok () \<longleftrightarrow>
      (\<forall>f \<in> set incomplete. is_ok (op_validate (ie_operation f)))"
    by (simp add: is_ok_unit [symmetric] is_ok_for_each check_effect_def)
  have disj: "List.find (\<lambda>f. bt_contains_key (standing_rows state) (ie_handle f)) incomplete = None \<longleftrightarrow>
      (\<forall>f \<in> set incomplete. standing state (ie_handle f) = None)"
    by (simp add: find_NoneD bt_contains_key_def standing_rows_get [OF wf])
  have rows: "List.find (row_differs state incomplete) grants = None \<and>
       List.find (row_missing state incomplete) grants = None \<longleftrightarrow>
      (\<forall>e \<in> set grants. row_of state incomplete (le_handle e) = {(le_owner e, le_capability e)})"
    if "distinct (map ie_handle incomplete)"
      "\<forall>f \<in> set incomplete. standing state (ie_handle f) = None"
  proof -
    have "\<not> row_differs state incomplete e \<and> \<not> row_missing state incomplete e \<longleftrightarrow>
        row_of state incomplete (le_handle e) = {(le_owner e, le_capability e)}" for e
      unfolding account_row_of [OF wf that] row_differs_def row_missing_def
      by (cases "account_row state incomplete (le_handle e)") auto
    then show ?thesis by (auto simp: find_NoneD)
  qed
  have "?L \<longleftrightarrow> for_each check_object (os_object_list state) = Ok () \<and>
      for_each check_entry grants = Ok () \<and> for_each check_effect incomplete = Ok () \<and>
      distinct (map ie_handle incomplete) \<and>
      List.find (\<lambda>f. bt_contains_key (standing_rows state) (ie_handle f)) incomplete = None \<and>
      distinct (map le_handle grants) \<and>
      (List.find (row_differs state incomplete) grants = None \<and>
       List.find (row_missing state incomplete) grants = None) \<and>
      sn = \<lparr>sn_state = state, sn_grants = sort_key le_handle grants,
          sn_incomplete = sort_key ie_handle incomplete\<rparr>"
    unfolding snapshot_new_def
    by (auto simp: and_then_eq_Inr refuse_repeat_Ok split: option.splits)
  then show ?thesis
    unfolding account_ok_def objs ents effs disj using rows by blast
qed

end
