(* ===== verification/Account.thy ===== *)
theory Account
  imports Snapshot
begin

text \<open>
  An abstract account of a backend: what stands, what is unfinished and which records are issued, by
  address. It is the vocabulary of the contract in \<open>Backend_Contract\<close>; its invariant is what
  \<open>EnforcementSnapshot::new\<close> checks of the rows a backend reports.
\<close>

section \<open>Abstract accounts\<close>

record account =
  acc_standing :: "handle \<Rightarrow> os_object option"
  acc_unfinished :: "handle \<Rightarrow> universe_op option"
  acc_issued :: "handle \<Rightarrow> ledger_entry option"

definition acc_vacant :: "account \<Rightarrow> handle \<Rightarrow> bool" where
  "acc_vacant a h \<longleftrightarrow> acc_standing a h = None \<and> acc_unfinished a h = None \<and> acc_issued a h = None"

definition acc_holds :: "account \<Rightarrow> os_object \<Rightarrow> bool" where
  "acc_holds a ob \<longleftrightarrow>
     acc_standing a (obj_handle ob) = Some ob \<or>
     acc_unfinished a (obj_handle ob) = Some (obj_operation ob)"

definition acc_grant :: "universe_op \<Rightarrow> ledger_entry \<Rightarrow> account \<Rightarrow> account" where
  "acc_grant p e a =
     a\<lparr>acc_standing := (acc_standing a)(op_handle p \<mapsto> op_object p),
       acc_issued := (acc_issued a)(op_handle p \<mapsto> e)\<rparr>"

definition acc_apply :: "universe_op \<Rightarrow> account \<Rightarrow> account" where
  "acc_apply p a = a\<lparr>acc_standing := (acc_standing a)(op_handle p \<mapsto> op_object p)\<rparr>"

definition acc_begin :: "universe_op \<Rightarrow> account \<Rightarrow> account" where
  "acc_begin p a = a\<lparr>acc_unfinished := (acc_unfinished a)(op_handle p \<mapsto> p)\<rparr>"

definition acc_clear :: "handle \<Rightarrow> account \<Rightarrow> account" where
  "acc_clear h a =
     a\<lparr>acc_standing := (acc_standing a)(h := None),
       acc_unfinished := (acc_unfinished a)(h := None),
       acc_issued := (acc_issued a)(h := None)\<rparr>"

definition acc_strand :: "os_object \<Rightarrow> account \<Rightarrow> account" where
  "acc_strand ob a =
     a\<lparr>acc_standing := (acc_standing a)(obj_handle ob := None),
       acc_unfinished := (acc_unfinished a)(obj_handle ob \<mapsto> obj_operation ob)\<rparr>"

text \<open>All that an account says of one address.\<close>

definition acc_at ::
  "account \<Rightarrow> handle \<Rightarrow> os_object option \<times> universe_op option \<times> ledger_entry option" where
  "acc_at a h = (acc_standing a h, acc_unfinished a h, acc_issued a h)"

definition entry_of :: "universe_op \<Rightarrow> grant_kind \<Rightarrow> ledger_entry" where
  "entry_of p kind =
     \<lparr>le_handle = op_handle p, le_owner = op_owner p, le_capability = op_capability p, le_kind = kind\<rparr>"

lemma acc_clear_grant: "acc_vacant a (op_handle p) \<Longrightarrow> acc_clear (op_handle p) (acc_grant p e a) = a"
  by (cases a) (auto simp: acc_vacant_def acc_clear_def acc_grant_def)

lemma acc_clear_apply: "acc_vacant a (op_handle p) \<Longrightarrow> acc_clear (op_handle p) (acc_apply p a) = a"
  by (cases a) (auto simp: acc_vacant_def acc_clear_def acc_apply_def)

lemma acc_at_others:
  "h \<noteq> op_handle p \<Longrightarrow> acc_at (acc_grant p e a) h = acc_at a h"
  "h \<noteq> op_handle p \<Longrightarrow> acc_at (acc_apply p a) h = acc_at a h"
  "h \<noteq> op_handle p \<Longrightarrow> acc_at (acc_begin p a) h = acc_at a h"
  "h \<noteq> k \<Longrightarrow> acc_at (acc_clear k a) h = acc_at a h"
  "h \<noteq> obj_handle ob \<Longrightarrow> acc_at (acc_strand ob a) h = acc_at a h"
  by (simp_all add: acc_at_def acc_grant_def acc_apply_def acc_begin_def acc_clear_def acc_strand_def)

lemma acc_vacant_at: "acc_vacant a h \<longleftrightarrow> acc_at a h = (None, None, None)"
  by (simp add: acc_vacant_def acc_at_def)

lemma account_eqI: "(\<And>h. acc_at a h = acc_at b h) \<Longrightarrow> a = b" for a b :: account
  by (cases a; cases b) (simp add: acc_at_def fun_eq_iff)

lemma acc_vacant_clear [simp]: "acc_vacant (acc_clear h a) h"
  by (simp add: acc_vacant_def acc_clear_def)

text \<open>
  What every account must satisfy: rows stand at their own address and are valid, no address is
  both standing and unfinished, and every issued record agrees with the row at its address.
\<close>

definition account_inv :: "account \<Rightarrow> bool" where
  "account_inv a \<longleftrightarrow>
     (\<forall>h ob. acc_standing a h = Some ob \<longrightarrow> obj_handle ob = h \<and> is_ok (cap_validate (obj_capability ob))) \<and>
     (\<forall>h p. acc_unfinished a h = Some p \<longrightarrow>
        op_handle p = h \<and> is_ok (op_validate p) \<and> acc_standing a h = None) \<and>
     (\<forall>h e. acc_issued a h = Some e \<longrightarrow>
        le_handle e = h \<and> rem_handle (le_removal e) = h \<and>
        (acc_standing a h = Some (removed_object (le_removal e) (le_owner e)) \<or>
         acc_unfinished a h = Some (obj_operation (removed_object (le_removal e) (le_owner e)))))"

section \<open>Account transitions keep the account invariant\<close>

lemma account_inv_standing:
  "account_inv a \<Longrightarrow> acc_standing a h = Some ob \<Longrightarrow>
   obj_handle ob = h \<and> is_ok (cap_validate (obj_capability ob))"
  unfolding account_inv_def by blast

lemma account_inv_unfinished:
  "account_inv a \<Longrightarrow> acc_unfinished a h = Some p \<Longrightarrow>
   op_handle p = h \<and> is_ok (cap_validate (op_capability p)) \<and> acc_standing a h = None"
  unfolding account_inv_def op_validate_capability by blast

lemma account_inv_issued:
  assumes "account_inv a" "acc_issued a h = Some e"
  shows "le_handle e = h \<and> rem_handle (le_removal e) = h \<and>
    acc_holds a (removed_object (le_removal e) (le_owner e))"
proof -
  have "le_handle e = h \<and> rem_handle (le_removal e) = h \<and>
      (acc_standing a h = Some (removed_object (le_removal e) (le_owner e)) \<or>
       acc_unfinished a h = Some (obj_operation (removed_object (le_removal e) (le_owner e))))"
    using assms unfolding account_inv_def by blast
  then show ?thesis by (simp add: acc_holds_def)
qed

lemma account_inv_vacantI:
  assumes "account_inv a" "acc_standing a h = None" "acc_unfinished a h = None"
  shows "acc_vacant a h"
proof -
  have "acc_issued a h = None"
  proof (cases "acc_issued a h")
    case (Some e)
    from account_inv_issued [OF assms(1) Some] assms(2,3) show ?thesis by (auto simp: acc_holds_def)
  qed
  with assms show ?thesis by (simp add: acc_vacant_def)
qed

lemma account_inv_grant:
  assumes "account_inv a" "acc_vacant a (op_handle p)" "is_ok (cap_validate (op_capability p))"
  shows "account_inv (acc_grant p (entry_of p kind) a)"
proof -
  have "removed_object (le_removal (entry_of p kind)) (op_owner p) = op_object p"
    "rem_handle (le_removal (entry_of p kind)) = op_handle p" "le_owner (entry_of p kind) = op_owner p"
    by (auto simp: le_removal_def entry_of_def removed_object_def op_object_def op_handle_def
        rem_handle_def rem_class_def op_class_capability)
  with assms show ?thesis
    by (auto simp: account_inv_def acc_grant_def acc_vacant_def acc_holds_def entry_of_def)
qed

lemma account_inv_apply:
  assumes "account_inv a" "acc_vacant a (op_handle p)" "is_ok (cap_validate (op_capability p))"
  shows "account_inv (acc_apply p a)"
  using assms by (auto simp: account_inv_def acc_apply_def acc_vacant_def acc_holds_def)

lemma account_inv_begin:
  assumes "account_inv a" "acc_vacant a (op_handle p)" "is_ok (cap_validate (op_capability p))"
  shows "account_inv (acc_begin p a)"
  using assms
  by (auto simp: account_inv_def acc_begin_def acc_vacant_def acc_holds_def op_validate_capability)

lemma account_inv_clear: "account_inv a \<Longrightarrow> account_inv (acc_clear h a)"
  by (auto simp: account_inv_def acc_clear_def acc_holds_def)

lemma account_inv_holds_valid:
  "account_inv a \<Longrightarrow> acc_holds a ob \<Longrightarrow> is_ok (cap_validate (obj_capability ob))"
  unfolding acc_holds_def using account_inv_standing account_inv_unfinished op_operation_sel(3) by metis

text \<open>
  The invariant speaks of one address at a time, so an account that agrees at every address with one
  of two good accounts, or is vacant there, is good.
\<close>

definition row_inv ::
  "handle \<Rightarrow> os_object option \<times> universe_op option \<times> ledger_entry option \<Rightarrow> bool" where
  "row_inv h row \<longleftrightarrow>
     (case row of (st, un, iss) \<Rightarrow>
       (\<forall>ob. st = Some ob \<longrightarrow> obj_handle ob = h \<and> is_ok (cap_validate (obj_capability ob))) \<and>
       (\<forall>p. un = Some p \<longrightarrow> op_handle p = h \<and> is_ok (op_validate p) \<and> st = None) \<and>
       (\<forall>e. iss = Some e \<longrightarrow> le_handle e = h \<and> rem_handle (le_removal e) = h \<and>
          (st = Some (removed_object (le_removal e) (le_owner e)) \<or>
           un = Some (obj_operation (removed_object (le_removal e) (le_owner e))))))"

lemma account_inv_at: "account_inv a \<longleftrightarrow> (\<forall>h. row_inv h (acc_at a h))"
  unfolding account_inv_def row_inv_def acc_at_def by auto

lemma account_inv_pick:
  assumes "account_inv a" "account_inv b"
    and "\<And>h. acc_at c h = acc_at a h \<or> acc_at c h = acc_at b h \<or> acc_at c h = (None, None, None)"
  shows "account_inv c"
  unfolding account_inv_at
proof
  fix h
  have "row_inv h (None, None, None)" by (simp add: row_inv_def)
  with assms show "row_inv h (acc_at c h)" by (metis account_inv_at)
qed

lemma account_inv_strand:
  assumes inv: "account_inv a" and holds: "acc_holds a ob"
  shows "account_inv (acc_strand ob a)"
proof -
  have valid: "is_ok (op_validate (obj_operation ob))"
    using account_inv_holds_valid [OF assms] by (simp add: op_validate_capability)
  have same: "ob' = ob" if "acc_standing a (obj_handle ob) = Some ob' \<or>
      acc_unfinished a (obj_handle ob) = Some (obj_operation ob')" for ob'
    using holds that account_inv_unfinished [OF inv] by (fastforce simp: acc_holds_def)
  have issued: "removed_object (le_removal e) (le_owner e) = ob"
    if "acc_issued a (obj_handle ob) = Some e" for e
    using account_inv_issued [OF inv that] by (intro same) (auto simp: acc_holds_def)
  show ?thesis
    using inv valid issued unfolding account_inv_def acc_strand_def by auto
qed

section \<open>Accounts of reported rows\<close>

definition rows_account :: "os_state \<Rightarrow> ledger_entry list \<Rightarrow> incomplete_effect list \<Rightarrow> account" where
  "rows_account state grants incomplete =
     \<lparr>acc_standing = standing state,
      acc_unfinished = (\<lambda>h. map_option ie_operation (List.find (\<lambda>f. ie_handle f = h) incomplete)),
      acc_issued = (\<lambda>h. List.find (\<lambda>e. le_handle e = h) grants)\<rparr>"

definition snapshot_account :: "enforcement_snapshot \<Rightarrow> account" where
  "snapshot_account sn = rows_account (sn_state sn) (sn_grants sn) (sn_incomplete sn)"

lemma find_key_Some:
  "distinct (map k xs) \<Longrightarrow> List.find (\<lambda>x. k x = h) xs = Some x \<longleftrightarrow> x \<in> set xs \<and> k x = h"
  by (induction xs) (auto simp: image_iff)

lemma find_key_cong:
  assumes "distinct (map k xs)" "mset xs = mset ys"
  shows "List.find (\<lambda>x. k x = h) xs = List.find (\<lambda>x. k x = h) ys"
proof -
  have "distinct (map k ys)" "set xs = set ys"
    using assms by (metis mset_eq_imp_distinct_iff mset_map, metis mset_eq_setD)
  then have "List.find (\<lambda>x. k x = h) xs = Some x \<longleftrightarrow> List.find (\<lambda>x. k x = h) ys = Some x" for x
    using assms(1) by (simp add: find_key_Some)
  then show ?thesis by (metis not_Some_eq)
qed

lemma row_of_account:
  assumes "distinct (map ie_handle incomplete)"
  shows "row_of state incomplete h =
    (\<lambda>ob. (obj_owner ob, obj_capability ob)) ` set_option (standing state h) \<union>
    (\<lambda>p. (op_owner p, op_capability p)) `
      set_option (acc_unfinished (rows_account state grants incomplete) h)"
proof -
  have "{f \<in> set incomplete. ie_handle f = h} = set_option (List.find (\<lambda>f. ie_handle f = h) incomplete)"
    using find_key_Some [OF assms] by (auto simp: set_eq_iff)
  then show ?thesis by (simp add: row_of_def rows_account_def option.set_map image_image)
qed

lemma account_ok_rows:
  assumes wf: "os_wf state"
    and "distinct (map le_handle grants)" "distinct (map ie_handle incomplete)"
    and "account_inv (rows_account state grants incomplete)"
  shows "account_ok state grants incomplete"
  unfolding account_ok_def
proof (intro conjI)
  let ?a = "rows_account state grants incomplete"
  note ai = assms(4)
  have issued: "acc_issued ?a (le_handle e) = Some e" if "e \<in> set grants" for e
    using that find_key_Some [OF assms(2)] by (simp add: rows_account_def)
  have unfinished: "acc_unfinished ?a (ie_handle f) = Some (ie_operation f)" if "f \<in> set incomplete" for f
    using that find_key_Some [OF assms(3), of "ie_handle f" f] by (simp add: rows_account_def)
  show "\<forall>h ob. standing state h = Some ob \<longrightarrow> is_ok (cap_validate (obj_capability ob))"
    using account_inv_standing [OF ai] by (auto simp: rows_account_def)
  show "\<forall>f \<in> set incomplete. is_ok (op_validate (ie_operation f))"
    using account_inv_unfinished [OF ai unfinished] by (simp add: op_validate_capability)
  show "\<forall>f \<in> set incomplete. standing state (ie_handle f) = None"
    using account_inv_unfinished [OF ai unfinished] by (simp add: rows_account_def)
  show "\<forall>e \<in> set grants. is_ok (cap_validate (le_capability e)) \<and>
      handle_class (le_handle e) = cap_class (le_capability e)"
    using account_inv_issued [OF ai issued] account_inv_holds_valid [OF ai]
    by (metis handle.sel(1) le_removal_sel(2) rem_class_def rem_handle_def removed_object_sel(3))
  show "\<forall>e \<in> set grants. row_of state incomplete (le_handle e) = {(le_owner e, le_capability e)}"
  proof
    fix e
    assume "e \<in> set grants"
    let ?ob = "removed_object (le_removal e) (le_owner e)"
    from account_inv_issued [OF ai issued] \<open>e \<in> set grants\<close> have
      "acc_standing ?a (le_handle e) = Some ?ob \<or> acc_unfinished ?a (le_handle e) = Some (obj_operation ?ob)"
      by (metis acc_holds_def obj_handle_removed)
    moreover have "acc_standing ?a = standing state" by (simp add: rows_account_def)
    ultimately show "row_of state incomplete (le_handle e) = {(le_owner e, le_capability e)}"
      using account_inv_unfinished [OF ai, of "le_handle e"]
      by (cases "acc_unfinished ?a (le_handle e)")
        (auto simp: row_of_account [OF assms(3), of _ _ grants])
  qed
qed (use assms in auto)

lemma account_inv_rows:
  assumes wf: "os_wf state" and ok: "account_ok state grants incomplete"
  shows "account_inv (rows_account state grants incomplete)"
  unfolding account_inv_def
proof (intro conjI allI impI)
  let ?a = "rows_account state grants incomplete"
  have dist: "distinct (map le_handle grants)" "distinct (map ie_handle incomplete)"
    using ok by (simp_all add: account_ok_def)
  have un: "\<exists>f \<in> set incomplete. ie_handle f = h \<and> p = ie_operation f" if "acc_unfinished ?a h = Some p" for h p
    using that find_key_Some [OF dist(2)] by (auto simp: rows_account_def)
  fix h
  show "obj_handle ob = h" "is_ok (cap_validate (obj_capability ob))" if "acc_standing ?a h = Some ob" for ob
    using that wf ok by (auto simp: rows_account_def os_wf_iff account_ok_def)
  show "op_handle p = h" "is_ok (op_validate p)" "acc_standing ?a h = None" if "acc_unfinished ?a h = Some p" for p
    using un [OF that] ok by (auto simp: rows_account_def account_ok_def ie_handle_def)
  fix e
  assume "acc_issued ?a h = Some e"
  then have e: "e \<in> set grants" "le_handle e = h"
    using find_key_Some [OF dist(1)] by (auto simp: rows_account_def)
  let ?ob = "removed_object (le_removal e) (le_owner e)"
  show "le_handle e = h" by fact
  show h: "rem_handle (le_removal e) = h"
    using e ok by (cases h) (auto simp: account_ok_def rem_handle_def rem_class_def)
  have row: "row_of state incomplete h = {(le_owner e, le_capability e)}"
    using e ok by (auto simp: account_ok_def)
  then have "(le_owner e, le_capability e) \<in> row_of state incomplete h" by simp
  then consider ob where "standing state h = Some ob" "obj_owner ob = le_owner e" "obj_capability ob = le_capability e"
    | p where "acc_unfinished ?a h = Some p" "op_owner p = le_owner e" "op_capability p = le_capability e"
    unfolding row_of_account [OF dist(2), of _ _ grants] by auto
  then show "acc_standing ?a h = Some ?ob \<or> acc_unfinished ?a h = Some (obj_operation ?ob)"
  proof cases
    case 1
    then have "obj_handle ob = h" using wf by (simp add: os_wf_iff)
    then have "obj_id ob = handle_id h" by (auto simp: obj_handle_def)
    with 1 e have "ob = ?ob" by (cases ob) (auto simp: removed_object_def)
    with 1 show ?thesis by (simp add: rows_account_def)
  next
    case 2
    then have "op_handle p = h" using un by (auto simp: ie_handle_def)
    then have "op_id p = handle_id h" by (auto simp: op_handle_def)
    with 2 e have "op_object p = ?ob" by (simp add: removed_object_def op_object_def)
    with 2 show ?thesis by (metis obj_operation_object)
  qed
qed

end
