(* ===== verification/Backend_Contract.thy ===== *)
theory Backend_Contract
  imports Account
begin

text \<open>
  The contract of the trait \<open>EnforcementBackend\<close> in \<open>crates/plasmosome-backend/src/backend.rs\<close>:
  the operations a caller uses, and the laws its documentation states, as a locale over an
  abstract account of a backend (what stands, what is unfinished, which records are issued).
  \<open>Fake_Backend\<close> and \<open>Composite_Backend\<close> interpret it; \<open>Ledger\<close> is its client.
\<close>

section \<open>The contract\<close>

locale enforcement_backend =
  fixes grant :: "universe_op \<Rightarrow> grant_kind \<Rightarrow> 's \<Rightarrow> (backend_error + ledger_entry) \<times> 's"
    and revoke :: "handle \<Rightarrow> drain_spec \<Rightarrow> 's \<Rightarrow> (backend_error + ledger_entry) \<times> 's"
    and apply_op :: "universe_op \<Rightarrow> 's \<Rightarrow> (backend_error + unit) \<times> 's"
    and apply_removal ::
      "universe_removal \<Rightarrow> cell_owner \<Rightarrow> drain_spec \<Rightarrow> 's \<Rightarrow> (backend_error + unit) \<times> 's"
    and plant :: "os_object \<Rightarrow> 's \<Rightarrow> (backend_error + unit) \<times> 's"
    and inv :: "'s \<Rightarrow> bool"
    and account :: "'s \<Rightarrow> account"
    and armed :: "'s \<Rightarrow> handle \<Rightarrow> bool"
  assumes inv_grant: "inv s \<Longrightarrow> inv (snd (grant p kind s))"
    and inv_revoke: "inv s \<Longrightarrow> inv (snd (revoke h d s))"
    and inv_apply: "inv s \<Longrightarrow> inv (snd (apply_op p s))"
    and inv_removal: "inv s \<Longrightarrow> inv (snd (apply_removal r owner d s))"
    and inv_plant: "inv s \<Longrightarrow> inv (snd (plant ob s))"
    and grant_vacant: "inv s \<Longrightarrow> acc_vacant (account s) (op_handle p) \<Longrightarrow>
      grant p kind s = (Ok e, t) \<Longrightarrow> e = entry_of p kind \<and> account t = acc_grant p e (account s)"
    and grant_occupied: "inv s \<Longrightarrow> \<not> acc_vacant (account s) (op_handle p) \<Longrightarrow>
      account (snd (grant p kind s)) = account s"
    and grant_Err: "inv s \<Longrightarrow> grant p kind s = (Err x, t) \<Longrightarrow>
      account t = account s \<or>
      (\<exists>detail. x = IncompleteEffectErr (class_as_str (op_class p)) (op_id p) detail \<and>
        account t = acc_begin p (account s))"
    and apply_vacant: "inv s \<Longrightarrow> acc_vacant (account s) (op_handle p) \<Longrightarrow>
      apply_op p s = (Ok u, t) \<Longrightarrow> account t = acc_apply p (account s)"
    and apply_frame: "inv s \<Longrightarrow> h \<noteq> op_handle p \<Longrightarrow>
      acc_at (account (snd (apply_op p s))) h = acc_at (account s) h"
    and plant_frame: "inv s \<Longrightarrow> h \<noteq> obj_handle ob \<Longrightarrow>
      acc_at (account (snd (plant ob s))) h = acc_at (account s) h"
    and removal_Ok: "inv s \<Longrightarrow> apply_removal r owner d s = (Ok u, t) \<Longrightarrow>
      acc_holds (account s) (removed_object r owner) \<and> account t = acc_clear (rem_handle r) (account s)"
    and removal_Err: "inv s \<Longrightarrow> apply_removal r owner d s = (Err x, t) \<Longrightarrow>
      account t = account s \<or>
      (\<exists>detail. x = IncompleteEffectErr (class_as_str (rem_class r)) (rem_id r) detail \<and>
        acc_holds (account s) (removed_object r owner) \<and>
        account t = acc_strand (removed_object r owner) (account s))"
    and removal_unheld: "inv s \<Longrightarrow> \<not> acc_holds (account s) (removed_object r owner) \<Longrightarrow>
      apply_removal r owner d s =
        (Err (UnknownObject (class_as_str (rem_class r)) (rem_key r) owner (rem_id r)), s)"
    and removal_forced: "inv s \<Longrightarrow> acc_holds (account s) (removed_object r owner) \<Longrightarrow>
      ds_policy d = Force \<Longrightarrow> \<not> armed s (rem_handle r) \<Longrightarrow> is_ok (fst (apply_removal r owner d s))"
    and armed_removal: "armed (snd (apply_removal r owner d s)) h \<Longrightarrow> armed s h"
    and revoke_unknown: "acc_issued (account s) h = None \<Longrightarrow> revoke h d s = (Err (UnknownHandle h), s)"
    and revoke_issued: "inv s \<Longrightarrow> acc_issued (account s) h = Some e \<Longrightarrow>
      fst (revoke h d s) = and_then (fst (apply_removal (le_removal e) (le_owner e) d s)) (\<lambda>_. Ok e) \<and>
      account (snd (revoke h d s)) = account (snd (apply_removal (le_removal e) (le_owner e) d s)) \<and>
      armed (snd (revoke h d s)) = armed (snd (apply_removal (le_removal e) (le_owner e) d s))"
    and issued_row: "inv s \<Longrightarrow> acc_issued (account s) h = Some e \<Longrightarrow>
      le_handle e = h \<and> rem_handle (le_removal e) = h \<and>
      acc_holds (account s) (removed_object (le_removal e) (le_owner e))"
begin

lemma revoke_Ok:
  assumes "inv s" "revoke h d s = (Ok e, t)"
  shows "acc_issued (account s) h = Some e \<and> account t = acc_clear h (account s)"
proof (cases "acc_issued (account s) h")
  case None
  with assms(2) show ?thesis by (simp add: revoke_unknown)
next
  case (Some e')
  obtain r u where rem: "apply_removal (le_removal e') (le_owner e') d s = (r, u)"
    by (cases "apply_removal (le_removal e') (le_owner e') d s")
  from revoke_issued [OF assms(1) Some, of d] assms(2) rem obtain v where
    "r = Ok v" "e = e'" "account t = account u"
    by (cases r) auto
  with removal_Ok [OF assms(1), of "le_removal e'" "le_owner e'" d v u] rem issued_row [OF assms(1) Some] Some
  show ?thesis by simp
qed

lemma revoke_Err:
  assumes "inv s" "revoke h d s = (Err x, t)"
  shows "account t = account s \<or>
    (\<exists>ob. acc_holds (account s) ob \<and> obj_handle ob = h \<and> account t = acc_strand ob (account s))"
proof (cases "acc_issued (account s) h")
  case None
  with assms(2) show ?thesis by (simp add: revoke_unknown)
next
  case (Some e)
  let ?ob = "removed_object (le_removal e) (le_owner e)"
  obtain r u where rem: "apply_removal (le_removal e) (le_owner e) d s = (r, u)"
    by (cases "apply_removal (le_removal e) (le_owner e) d s")
  from revoke_issued [OF assms(1) Some, of d] assms(2) rem have
    "r = Err x" and acc: "account t = account u"
    by (cases r, auto)
  with removal_Err [OF assms(1), of "le_removal e" "le_owner e" d x u] rem
  have "account u = account s \<or> acc_holds (account s) ?ob \<and> account u = acc_strand ?ob (account s)"
    by auto
  with acc issued_row [OF assms(1) Some] show ?thesis by auto
qed

lemma revoke_forced:
  assumes "inv s" "acc_issued (account s) h = Some e" "ds_policy d = Force" "\<not> armed s h"
  shows "fst (revoke h d s) = Ok e"
proof -
  have "is_ok (fst (apply_removal (le_removal e) (le_owner e) d s))"
    using removal_forced [OF assms(1) _ assms(3)] issued_row [OF assms(1,2)] assms(4) by simp
  with revoke_issued [OF assms(1,2), of d] show ?thesis by (auto simp: is_ok_unit)
qed

lemma armed_revoke: "inv s \<Longrightarrow> armed (snd (revoke h d s)) h' \<Longrightarrow> armed s h'"
  by (cases "acc_issued (account s) h")
    (auto simp: revoke_unknown revoke_issued dest: armed_removal)

text \<open>No operation changes what the account says of any address but its own.\<close>

lemma grant_frame:
  assumes "inv s" "h \<noteq> op_handle p"
  shows "acc_at (account (snd (grant p kind s))) h = acc_at (account s) h"
proof (cases "fst (grant p kind s)")
  case (Inl x)
  with grant_Err [OF assms(1), of p kind x "snd (grant p kind s)"] assms(2) show ?thesis
    by (cases "grant p kind s") (auto simp: acc_at_others)
next
  case (Inr e)
  then show ?thesis
    using grant_vacant [OF assms(1), of p kind e "snd (grant p kind s)"]
      grant_occupied [OF assms(1), of p kind] assms(2)
    by (cases "acc_vacant (account s) (op_handle p)"; cases "grant p kind s") (auto simp: acc_at_others)
qed

lemma removal_frame:
  assumes "inv s" "h \<noteq> rem_handle r"
  shows "acc_at (account (snd (apply_removal r owner d s))) h = acc_at (account s) h"
proof (cases "fst (apply_removal r owner d s)")
  case (Inl x)
  with removal_Err [OF assms(1), of r owner d x "snd (apply_removal r owner d s)"] assms(2) show ?thesis
    by (cases "apply_removal r owner d s") (auto simp: acc_at_others)
next
  case (Inr u)
  with removal_Ok [OF assms(1), of r owner d u "snd (apply_removal r owner d s)"] assms(2) show ?thesis
    by (cases "apply_removal r owner d s") (auto simp: acc_at_others)
qed

lemma revoke_frame:
  assumes "inv s" "h \<noteq> k"
  shows "acc_at (account (snd (revoke k d s))) h = acc_at (account s) h"
proof (cases "acc_issued (account s) k")
  case None
  then show ?thesis by (simp add: revoke_unknown)
next
  case (Some e)
  with revoke_issued [OF assms(1) Some, of d] issued_row [OF assms(1) Some] assms removal_frame
  show ?thesis by simp
qed

end

text \<open>
  A backend that can also be observed: its snapshot is a checked account of exactly what it holds,
  and it fails only when an observation fault was injected.
\<close>

locale observable_backend = enforcement_backend +
  fixes snapshot :: "'a \<Rightarrow> (backend_error + enforcement_snapshot) \<times> 'a"
    and blind :: "'a \<Rightarrow> bool"
  assumes inv_snapshot: "inv s \<Longrightarrow> inv (snd (snapshot s))"
    and account_snapshot: "inv s \<Longrightarrow> account (snd (snapshot s)) = account s"
    and snapshot_Ok: "inv s \<Longrightarrow> snapshot s = (Ok sn, t) \<Longrightarrow>
      snapshot_account sn = account s \<and> os_wf (sn_state sn) \<and>
      account_ok (sn_state sn) (sn_grants sn) (sn_incomplete sn)"
    and snapshot_total: "inv s \<Longrightarrow> \<not> blind s \<Longrightarrow> is_ok (fst (snapshot s))"

end
