(* ===== verification/Ledger.thy ===== *)
theory Ledger
  imports Backend_Contract
begin

text \<open>
  \<open>crates/plasmosome-ledger/src/lib.rs\<close>: a plugin's effects with their inverses, the closure that
  decides whether a detach needs an operator's \<open>Force\<close>, and the replay that detaches. The backend
  is a trait object in the code, so the replay takes the two operations it calls as arguments; the
  lemmas about it hold for every backend that meets the contract of \<open>Backend_Contract\<close>.
\<close>

section \<open>Effects\<close>

datatype inverse_via = ViaBackend handle | ViaUniverse universe_removal

record inverse_rec =
  inv_description :: string
  inv_via :: inverse_via

record compensation =
  cp_witness :: universe_removal

record outbox =
  bx_channel :: string
  bx_payload :: string
  bx_published :: bool

record policy =
  po_assertion :: string

datatype reversibility = Exact inverse_rec | Compensating compensation | Delayed outbox | External policy

record effect =
  eff_description :: string
  eff_reversibility :: reversibility

definition effect_exact :: "string \<Rightarrow> inverse_via \<Rightarrow> effect" where
  "effect_exact description via =
     \<lparr>eff_description = description,
      eff_reversibility = Exact \<lparr>inv_description = description, inv_via = via\<rparr>\<rparr>"

definition effect_compensating :: "string \<Rightarrow> universe_removal \<Rightarrow> effect" where
  "effect_compensating description witness =
     \<lparr>eff_description = description, eff_reversibility = Compensating \<lparr>cp_witness = witness\<rparr>\<rparr>"

definition effect_delayed_unpublished :: "string \<Rightarrow> string \<Rightarrow> effect" where
  "effect_delayed_unpublished channel payload =
     \<lparr>eff_description = ''delayed publication on '' @ channel,
      eff_reversibility = Delayed \<lparr>bx_channel = channel, bx_payload = payload, bx_published = False\<rparr>\<rparr>"

definition effect_delayed_published :: "string \<Rightarrow> string \<Rightarrow> effect" where
  "effect_delayed_published channel payload =
     \<lparr>eff_description = ''delayed publication on '' @ channel @ '' (already published)'',
      eff_reversibility = Delayed \<lparr>bx_channel = channel, bx_payload = payload, bx_published = True\<rparr>\<rparr>"

definition effect_external :: "string \<Rightarrow> effect" where
  "effect_external assertion =
     \<lparr>eff_description = ''external emission ('' @ assertion @ '')'',
      eff_reversibility = External \<lparr>po_assertion = assertion\<rparr>\<rparr>"

section \<open>Ledgers\<close>

record ledger =
  led_plugin :: plugin_id
  led_effects :: "effect list"

text \<open>\<open>SealedLedger\<close> and \<open>ForcedLedger\<close> have the same five fields; the closure tells them apart.\<close>

record closed_ledger =
  cl_plugin :: plugin_id
  cl_effects :: "effect list"
  cl_pending :: nat
  cl_asserted :: "string list"
  cl_began :: "cell_id option"

type_synonym sealed_ledger = closed_ledger
type_synonym forced_ledger = closed_ledger

datatype closure = ExternalFree sealed_ledger | OutstandingExternal forced_ledger

record force =
  fo_operator :: string
  fo_reason :: string

record detach_report =
  dr_plugin :: plugin_id
  dr_replayed :: "string list"
  dr_delayed_discarded :: nat
  dr_asserted :: "string list"
  dr_forced :: "string option"

datatype detach_error = DetachBackend backend_error | CellChanged cell_id cell_id

definition ledger_new :: "plugin_id \<Rightarrow> ledger" where
  "ledger_new plugin = \<lparr>led_plugin = plugin, led_effects = []\<rparr>"

definition ledger_push :: "effect \<Rightarrow> ledger \<Rightarrow> ledger" where
  "ledger_push e l = l\<lparr>led_effects := led_effects l @ [e]\<rparr>"

definition is_outstanding :: "effect \<Rightarrow> bool" where
  "is_outstanding e =
     (case eff_reversibility e of
        Exact _ \<Rightarrow> False | Compensating _ \<Rightarrow> False
      | Delayed box \<Rightarrow> bx_published box | External _ \<Rightarrow> True)"

definition ledger_close :: "ledger \<Rightarrow> closure" where
  "ledger_close l =
     (let closed = \<lparr>cl_plugin = led_plugin l, cl_effects = led_effects l,
                    cl_pending = length (led_effects l), cl_asserted = [], cl_began = None\<rparr>
      in if list_ex is_outstanding (led_effects l) then OutstandingExternal closed
         else ExternalFree closed)"

definition assertion_line :: "force \<Rightarrow> string" where
  "assertion_line f = ''operator `'' @ fo_operator f @ ''` asserted: '' @ fo_reason f"

definition report_new :: "plugin_id \<Rightarrow> detach_report" where
  "report_new plugin =
     \<lparr>dr_plugin = plugin, dr_replayed = [], dr_delayed_discarded = 0, dr_asserted = [], dr_forced = None\<rparr>"

definition report_is_quiet :: "detach_report \<Rightarrow> bool" where
  "report_is_quiet r =
     (dr_replayed r = [] \<and> dr_delayed_discarded r = 0 \<and> dr_asserted r = [] \<and> dr_forced r = None)"

definition external_assertions :: "forced_ledger \<Rightarrow> string list" where
  "external_assertions l =
     List.map_filter (\<lambda>e.
       case eff_reversibility e of
         External p \<Rightarrow> Some (po_assertion p)
       | Delayed box \<Rightarrow> if bx_published box then Some (eff_description e) else None
       | _ \<Rightarrow> None) (cl_effects l)"

definition unseal :: "closed_ledger \<Rightarrow> ledger" where
  "unseal l = \<lparr>led_plugin = cl_plugin l, led_effects = cl_effects l\<rparr>"

section \<open>Detach\<close>

type_synonym 's revoke_fn = "handle \<Rightarrow> drain_spec \<Rightarrow> 's \<Rightarrow> (backend_error + ledger_entry) \<times> 's"
type_synonym 's removal_fn =
  "universe_removal \<Rightarrow> cell_owner \<Rightarrow> drain_spec \<Rightarrow> 's \<Rightarrow> (backend_error + unit) \<times> 's"

text \<open>
  The first detach binds its cell; a later one naming another cell is refused. The result carries
  the binding that \<open>get_or_insert_with\<close> leaves behind.
\<close>

definition bind_cell ::
  "cell_id option \<Rightarrow> cell_id \<Rightarrow> plugin_id \<Rightarrow> (detach_error + cell_owner) \<times> cell_id option" where
  "bind_cell began cell plugin =
     (let bound = (case began of None \<Rightarrow> cell | Some c \<Rightarrow> c)
      in if bound \<noteq> cell then (Err (CellChanged bound cell), Some bound)
         else (Ok (CellOwner cell plugin), Some bound))"

definition undo_effect ::
  "'s revoke_fn \<Rightarrow> 's removal_fn \<Rightarrow> cell_owner \<Rightarrow> drain_spec \<Rightarrow> effect \<Rightarrow> 's \<Rightarrow>
   (backend_error + unit) option \<times> 's" where
  "undo_effect revoke removal owner drain e b =
     (case eff_reversibility e of
        Exact i \<Rightarrow>
          (case inv_via i of
             ViaBackend h \<Rightarrow> (let (r, b') = revoke h drain b in (Some (and_then r (\<lambda>_. Ok ())), b'))
           | ViaUniverse r \<Rightarrow> (let (x, b') = removal r owner drain b in (Some x, b')))
      | Compensating c \<Rightarrow> (let (x, b') = removal (cp_witness c) owner drain b in (Some x, b'))
      | Delayed _ \<Rightarrow> (None, b)
      | External _ \<Rightarrow> (None, b))"

text \<open>
  The loop \<open>for index in (0..*pending).rev()\<close>. It returns the result with the cursor, the asserted
  list and the backend as they are left, whether it finishes or stops.
\<close>

fun replay_loop ::
  "'s revoke_fn \<Rightarrow> 's removal_fn \<Rightarrow> cell_owner \<Rightarrow> effect list \<Rightarrow> drain_spec \<Rightarrow> nat \<Rightarrow>
   string list \<Rightarrow> detach_report \<Rightarrow> 's \<Rightarrow> (detach_error + detach_report) \<times> nat \<times> string list \<times> 's" where
  "replay_loop revoke removal owner effects drain 0 asserted report b = (Ok report, 0, asserted, b)"
| "replay_loop revoke removal owner effects drain (Suc index) asserted report b =
     (let e = effects ! index in
      case undo_effect revoke removal owner drain e b of
        (Some (Inl x), b') \<Rightarrow> (Err (DetachBackend x), Suc index, asserted, b')
      | (Some (Inr _), b') \<Rightarrow>
          replay_loop revoke removal owner effects drain index asserted
            (report\<lparr>dr_replayed := dr_replayed report @ [eff_description e]\<rparr>) b'
      | (None, b') \<Rightarrow>
          (case eff_reversibility e of
             Delayed box \<Rightarrow>
               (if bx_published box
                then replay_loop revoke removal owner effects drain index
                       (asserted @ [eff_description e]) report b'
                else replay_loop revoke removal owner effects drain index asserted
                       (report\<lparr>dr_delayed_discarded := dr_delayed_discarded report + 1\<rparr>) b')
           | External p \<Rightarrow>
               replay_loop revoke removal owner effects drain index
                 (asserted @ [po_assertion p]) report b'
           | _ \<Rightarrow> (Ok report, index, asserted, b')))"

definition replay ::
  "'s revoke_fn \<Rightarrow> 's removal_fn \<Rightarrow> cell_owner \<Rightarrow> effect list \<Rightarrow> nat \<Rightarrow> string list \<Rightarrow> 's \<Rightarrow>
   drain_spec \<Rightarrow> force option \<Rightarrow> (detach_error + detach_report) \<times> nat \<times> string list \<times> 's" where
  "replay revoke removal owner effects pending asserted b drain forced =
     (case replay_loop revoke removal owner effects drain pending asserted (report_new (own_plugin owner)) b of
        (Inl x, pending', asserted', b') \<Rightarrow> (Err x, pending', asserted', b')
      | (Inr report, pending', asserted', b') \<Rightarrow>
          (Ok (report\<lparr>dr_asserted := asserted', dr_forced := map_option assertion_line forced\<rparr>),
           pending', asserted', b'))"

definition detach_with ::
  "'s revoke_fn \<Rightarrow> 's removal_fn \<Rightarrow> force option \<Rightarrow> cell_id \<Rightarrow> drain_spec \<Rightarrow> closed_ledger \<Rightarrow> 's \<Rightarrow>
   (detach_error + detach_report) \<times> closed_ledger \<times> 's" where
  "detach_with revoke removal forced cell drain l b =
     (case bind_cell (cl_began l) cell (cl_plugin l) of
        (Inl x, began) \<Rightarrow> (Err x, l\<lparr>cl_began := began\<rparr>, b)
      | (Inr owner, began) \<Rightarrow>
          (case replay revoke removal owner (cl_effects l) (cl_pending l) (cl_asserted l) b drain forced of
             (r, pending, asserted, b') \<Rightarrow>
               (r, l\<lparr>cl_pending := pending, cl_asserted := asserted, cl_began := began\<rparr>, b')))"

definition detach ::
  "'s revoke_fn \<Rightarrow> 's removal_fn \<Rightarrow> cell_id \<Rightarrow> drain_spec \<Rightarrow> sealed_ledger \<Rightarrow> 's \<Rightarrow>
   (detach_error + detach_report) \<times> sealed_ledger \<times> 's" where
  "detach revoke removal cell drain l b = detach_with revoke removal None cell drain l b"

definition detach_forced ::
  "'s revoke_fn \<Rightarrow> 's removal_fn \<Rightarrow> cell_id \<Rightarrow> drain_spec \<Rightarrow> force \<Rightarrow> forced_ledger \<Rightarrow> 's \<Rightarrow>
   (detach_error + detach_report) \<times> forced_ledger \<times> 's" where
  "detach_forced revoke removal cell drain f l b = detach_with revoke removal (Some f) cell drain l b"

section \<open>Specification\<close>

text \<open>The object address an effect's inverse clears, and the account once it has.\<close>

definition effect_target :: "effect \<Rightarrow> handle option" where
  "effect_target e =
     (case eff_reversibility e of
        Exact i \<Rightarrow> (case inv_via i of ViaBackend h \<Rightarrow> Some h | ViaUniverse r \<Rightarrow> Some (rem_handle r))
      | Compensating c \<Rightarrow> Some (rem_handle (cp_witness c))
      | Delayed _ \<Rightarrow> None
      | External _ \<Rightarrow> None)"

definition acc_undo :: "effect \<Rightarrow> account \<Rightarrow> account" where
  "acc_undo e a = (case effect_target e of None \<Rightarrow> a | Some h \<Rightarrow> acc_clear h a)"

text \<open>Undoing a list of effects, last first.\<close>

definition acc_undo_all :: "effect list \<Rightarrow> account \<Rightarrow> account" where
  "acc_undo_all es a = foldr acc_undo es a"

text \<open>
  How a plugin's effects came about: each grant or apply at a vacant address was recorded with the
  inverse that names it, and delayed or external effects touch no holding.
\<close>

inductive acc_built :: "cell_owner \<Rightarrow> account \<Rightarrow> effect list \<Rightarrow> account \<Rightarrow> bool" for owner a0 where
  built_none: "acc_built owner a0 [] a0"
| built_grant: "acc_built owner a0 es a \<Longrightarrow> acc_vacant a (op_handle p) \<Longrightarrow>
    acc_built owner a0 (es @ [effect_exact d (ViaBackend (op_handle p))]) (acc_grant p (entry_of p kind) a)"
| built_apply: "acc_built owner a0 es a \<Longrightarrow> acc_vacant a (op_handle p) \<Longrightarrow> op_owner p = owner \<Longrightarrow>
    acc_built owner a0 (es @ [effect_exact d (ViaUniverse (op_removal p))]) (acc_apply p a)"
| built_compensated: "acc_built owner a0 es a \<Longrightarrow> acc_vacant a (op_handle p) \<Longrightarrow> op_owner p = owner \<Longrightarrow>
    acc_built owner a0 (es @ [effect_compensating d (op_removal p)]) (acc_apply p a)"
| built_outside: "acc_built owner a0 es a \<Longrightarrow> effect_target e = None \<Longrightarrow> acc_built owner a0 (es @ [e]) a"

lemma effect_target_exact [simp]:
  "effect_target (effect_exact d (ViaBackend h)) = Some h"
  "effect_target (effect_exact d (ViaUniverse r)) = Some (rem_handle r)"
  "effect_target (effect_compensating d r) = Some (rem_handle r)"
  by (simp_all add: effect_target_def effect_exact_def effect_compensating_def)

lemma acc_undo_all_snoc [simp]: "acc_undo_all (es @ [e]) a = acc_undo_all es (acc_undo e a)"
  by (simp add: acc_undo_all_def)

lemma acc_built_undo: "acc_built owner a0 es a \<Longrightarrow> acc_undo_all es a = a0"
  by (induction rule: acc_built.induct)
    (simp_all add: acc_undo_def acc_clear_grant acc_clear_apply, simp add: acc_undo_all_def)

text \<open>Every inverse still has its holding when its turn comes.\<close>

definition inverse_ready :: "cell_owner \<Rightarrow> effect \<Rightarrow> account \<Rightarrow> bool" where
  "inverse_ready owner e a =
     (case eff_reversibility e of
        Exact i \<Rightarrow>
          (case inv_via i of
             ViaBackend h \<Rightarrow> acc_issued a h \<noteq> None
           | ViaUniverse r \<Rightarrow> acc_holds a (removed_object r owner))
      | Compensating c \<Rightarrow> acc_holds a (removed_object (cp_witness c) owner)
      | Delayed _ \<Rightarrow> True
      | External _ \<Rightarrow> True)"

definition acc_ready :: "cell_owner \<Rightarrow> effect list \<Rightarrow> account \<Rightarrow> bool" where
  "acc_ready owner es a \<longleftrightarrow>
     (\<forall>n < length es. inverse_ready owner (es ! n) (acc_undo_all (drop (Suc n) es) a))"

lemma acc_ready_Nil [simp]: "acc_ready owner [] a"
  by (simp add: acc_ready_def)

lemma acc_ready_snoc:
  "acc_ready owner (es @ [e]) a \<longleftrightarrow> inverse_ready owner e a \<and> acc_ready owner es (acc_undo e a)"
proof
  assume *: "acc_ready owner (es @ [e]) a"
  then have "inverse_ready owner e a"
    by (auto simp: acc_ready_def acc_undo_all_def dest: spec [of _ "length es"])
  moreover have "inverse_ready owner (es ! n) (acc_undo_all (drop (Suc n) es) (acc_undo e a))"
    if "n < length es" for n
    using * that by (auto simp: acc_ready_def nth_append dest!: spec [of _ n])
  ultimately show "inverse_ready owner e a \<and> acc_ready owner es (acc_undo e a)"
    by (simp add: acc_ready_def)
next
  assume *: "inverse_ready owner e a \<and> acc_ready owner es (acc_undo e a)"
  show "acc_ready owner (es @ [e]) a"
    unfolding acc_ready_def
  proof (intro allI impI)
    fix n
    assume "n < length (es @ [e])"
    then consider "n < length es" | "n = length es" by fastforce
    then show "inverse_ready owner ((es @ [e]) ! n) (acc_undo_all (drop (Suc n) (es @ [e])) a)"
      by cases (use * in \<open>auto simp: acc_ready_def nth_append acc_undo_all_def\<close>)
  qed
qed

lemma acc_built_ready: "acc_built owner a0 es a \<Longrightarrow> acc_ready owner es a"
proof (induction rule: acc_built.induct)
  case (built_outside es a e)
  then have "inverse_ready owner e a"
    by (auto simp: inverse_ready_def effect_target_def split: reversibility.splits inverse_via.splits)
  with built_outside show ?case by (simp add: acc_ready_snoc acc_undo_def)
next
  case (built_grant es a p d kind)
  then show ?case
    by (simp add: acc_ready_snoc acc_undo_def acc_clear_grant)
      (simp add: inverse_ready_def effect_exact_def acc_grant_def)
next
  case (built_apply es a p d)
  then have "acc_holds (acc_apply p a) (removed_object (op_removal p) owner)"
    by (auto simp: acc_holds_def acc_apply_def)
  with built_apply show ?case
    by (simp add: acc_ready_snoc acc_undo_def acc_clear_apply)
      (simp add: inverse_ready_def effect_exact_def)
next
  case (built_compensated es a p d)
  then have "acc_holds (acc_apply p a) (removed_object (op_removal p) owner)"
    by (auto simp: acc_holds_def acc_apply_def)
  with built_compensated show ?case
    by (simp add: acc_ready_snoc acc_undo_def acc_clear_apply)
      (simp add: inverse_ready_def effect_compensating_def)
qed simp

section \<open>What a replay reports\<close>

definition is_unpublished :: "effect \<Rightarrow> bool" where
  "is_unpublished e =
     (case eff_reversibility e of Delayed box \<Rightarrow> \<not> bx_published box | _ \<Rightarrow> False)"

definition assertion_of :: "effect \<Rightarrow> string option" where
  "assertion_of e =
     (case eff_reversibility e of
        External p \<Rightarrow> Some (po_assertion p)
      | Delayed box \<Rightarrow> if bx_published box then Some (eff_description e) else None
      | _ \<Rightarrow> None)"

definition assertions_in :: "effect list \<Rightarrow> string list" where
  "assertions_in es = List.map_filter assertion_of es"

text \<open>The report of a replay that undoes exactly these effects, last first.\<close>

definition report_for :: "effect list \<Rightarrow> detach_report \<Rightarrow> detach_report" where
  "report_for es r =
     r\<lparr>dr_replayed := dr_replayed r @
         map eff_description (filter (\<lambda>e. effect_target e \<noteq> None) (rev es)),
       dr_delayed_discarded := dr_delayed_discarded r + length (filter is_unpublished es)\<rparr>"

lemma external_assertions_eq: "external_assertions l = assertions_in (cl_effects l)"
  unfolding external_assertions_def assertions_in_def assertion_of_def ..

lemma assertion_of_outstanding: "assertion_of e = None \<longleftrightarrow> \<not> is_outstanding e"
  by (auto simp: assertion_of_def is_outstanding_def split: reversibility.splits)

lemma assertions_in_Nil [simp]: "assertions_in [] = []"
  by (simp add: assertions_in_def map_filter_def)

lemma assertions_in_append [simp]: "assertions_in (xs @ ys) = assertions_in xs @ assertions_in ys"
  by (simp add: assertions_in_def map_filter_def)

lemma assertions_in_single:
  "assertions_in [e] = (case assertion_of e of None \<Rightarrow> [] | Some a \<Rightarrow> [a])"
  by (auto simp: assertions_in_def map_filter_def split: option.splits)

lemma assertions_in_empty_iff: "assertions_in es = [] \<longleftrightarrow> \<not> list_ex is_outstanding es"
  by (auto simp: assertions_in_def map_filter_def list_ex_iff filter_empty_conv
      assertion_of_outstanding [symmetric])

lemma report_for_Nil [simp]: "report_for [] r = r"
  by (simp add: report_for_def)

lemma take_Suc_snoc: "n < length es \<Longrightarrow> take (Suc n) es = take n es @ [es ! n]"
  by (rule take_Suc_conv_app_nth)

text \<open>One turn of the loop, with its result as the next turn's arguments.\<close>

lemma replay_loop_Suc:
  "replay_loop rv rm owner es d (Suc n) asserted rep b =
   (case undo_effect rv rm owner d (es ! n) b of
      (Some (Inl x), b') \<Rightarrow> (Err (DetachBackend x), Suc n, asserted, b')
    | (_, b') \<Rightarrow>
        replay_loop rv rm owner es d n (asserted @ assertions_in [es ! n])
          (report_for [es ! n] rep) b')"
  by (auto simp: undo_effect_def effect_target_def report_for_def is_unpublished_def assertions_in_single
      assertion_of_def Let_def split: prod.splits reversibility.splits inverse_via.splits sum.splits)

declare replay_loop.simps(2) [simp del]

lemma report_for_snoc: "report_for es (report_for [e] r) = report_for (es @ [e]) r"
  by (simp add: report_for_def)

lemma replay_loop_report:
  "n \<le> length es \<Longrightarrow> replay_loop rv rm owner es d n asserted rep b = (Ok r, n', asserted', b') \<Longrightarrow>
   n' = 0 \<and> r = report_for (take n es) rep \<and> asserted' = asserted @ rev (assertions_in (take n es))"
proof (induction n arbitrary: asserted rep b)
  case (Suc n)
  let ?as = "asserted @ assertions_in [es ! n]"
  let ?rep = "report_for [es ! n] rep"
  from Suc.prems obtain b1 where
    "replay_loop rv rm owner es d n ?as ?rep b1 = (Ok r, n', asserted', b')"
    by (auto simp: replay_loop_Suc split: prod.splits option.splits sum.splits)
  moreover have "rev (assertions_in [es ! n]) = assertions_in [es ! n]"
    by (simp add: assertions_in_single split: option.splits)
  ultimately show ?case
    using Suc.IH [of ?as ?rep b1] Suc.prems(1) by (simp add: take_Suc_snoc report_for_snoc)
qed simp

text \<open>
  The assertions gathered so far are those of the effects already passed, also after a failure, so
  a resumed detach reports them all.
\<close>

lemma replay_loop_asserted:
  "n \<le> length es \<Longrightarrow> replay_loop rv rm owner es d n asserted rep b = (r, n', asserted', b') \<Longrightarrow>
   asserted = rev (assertions_in (drop n es)) \<Longrightarrow> n' \<le> n \<and> asserted' = rev (assertions_in (drop n' es))"
proof (induction n arbitrary: asserted rep b)
  case (Suc n)
  have "rev (assertions_in [es ! n]) = assertions_in [es ! n]"
    by (simp add: assertions_in_single split: option.splits)
  moreover have "drop n es = [es ! n] @ drop (Suc n) es"
    using Suc.prems(1) by (simp add: Cons_nth_drop_Suc)
  ultimately have "asserted @ assertions_in [es ! n] = rev (assertions_in (drop n es))"
    using Suc.prems(3) by (simp only: assertions_in_append rev_append)
  with Suc show ?case
    by (fastforce simp: replay_loop_Suc split: prod.splits option.splits sum.splits)
qed simp

section \<open>Replay over a backend that meets the contract\<close>

lemma acc_clear_strand [simp]: "acc_clear (obj_handle ob) (acc_strand ob a) = acc_clear (obj_handle ob) a"
  by (simp add: acc_clear_def acc_strand_def)

context enforcement_backend
begin

lemma removal_undone:
  assumes "inv s" "apply_removal r owner d s = (x, t)"
  shows "acc_clear (rem_handle r) (account t) = acc_clear (rem_handle r) (account s) \<and>
    (is_ok x \<longrightarrow> account t = acc_clear (rem_handle r) (account s))"
proof (cases x)
  case (Inl y)
  with removal_Err [OF assms(1), of r owner d y t] assms(2)
    acc_clear_strand [of "removed_object r owner"] show ?thesis by auto
next
  case (Inr u)
  with removal_Ok [OF assms(1), of r owner d u t] assms(2) show ?thesis
    by (simp add: acc_clear_def)
qed

lemma revoke_undone:
  assumes "inv s" "revoke h d s = (x, t)"
  shows "acc_clear h (account t) = acc_clear h (account s) \<and>
    (is_ok x \<longrightarrow> account t = acc_clear h (account s))"
proof (cases x)
  case (Inl y)
  with revoke_Err [OF assms(1), of h d y t] assms(2) show ?thesis by auto
next
  case (Inr e)
  with revoke_Ok [OF assms(1), of h d e t] assms(2) show ?thesis
    by (simp add: acc_clear_def)
qed

lemma undo_effect_undone:
  assumes "inv s" "undo_effect revoke apply_removal owner d e s = (x, t)"
  shows "inv t \<and> acc_undo e (account t) = acc_undo e (account s) \<and>
    ((\<forall>y. x \<noteq> Some (Err y)) \<longrightarrow> account t = acc_undo e (account s)) \<and> (armed t h \<longrightarrow> armed s h)"
proof -
  have revoked: ?thesis if via: "inv_via i = ViaBackend k" "eff_reversibility e = Exact i" for i k
  proof -
    obtain r where rv: "revoke k d s = (r, t)" "x = Some (and_then r (\<lambda>_. Ok ()))"
      using assms(2) via by (cases "revoke k d s") (auto simp: undo_effect_def)
    with revoke_undone [OF assms(1) rv(1)] inv_revoke [OF assms(1), of k d]
      armed_revoke [OF assms(1), of k d h] via
    show ?thesis by (cases r) (auto simp: acc_undo_def effect_target_def)
  qed
  have removed: ?thesis
    if "effect_target e = Some (rem_handle r)" "apply_removal r owner d s = (y, t)" "x = Some y" for r y
    using removal_undone [OF assms(1) that(2)] inv_removal [OF assms(1), of r owner d]
      armed_removal [of r owner d s h] that
    by (cases y) (auto simp: acc_undo_def)
  show ?thesis
  proof (cases "eff_reversibility e")
    case (Exact i)
    then show ?thesis
      using revoked removed assms
      by (cases "inv_via i") (auto simp: undo_effect_def effect_target_def split: prod.splits)
  qed (use removed assms in
      \<open>auto simp: undo_effect_def effect_target_def acc_undo_def split: prod.splits\<close>)
qed

text \<open>
  A replay, finished or not, leaves the same account to be reached: undoing what its cursor still
  counts gives what undoing everything gave before.
\<close>

lemma replay_loop_undone:
  "inv s \<Longrightarrow> n \<le> length es \<Longrightarrow>
   replay_loop revoke apply_removal owner es d n asserted rep s = (r, n', asserted', t) \<Longrightarrow>
   inv t \<and> n' \<le> n \<and>
   acc_undo_all (take n' es) (account t) = acc_undo_all (take n es) (account s) \<and> (is_ok r \<longrightarrow> n' = 0)"
proof (induction n arbitrary: s asserted rep)
  case (Suc n)
  obtain x s1 where ue: "undo_effect revoke apply_removal owner d (es ! n) s = (x, s1)"
    by (cases "undo_effect revoke apply_removal owner d (es ! n) s")
  note one = undo_effect_undone [OF Suc.prems(1) ue]
  from Suc.prems(2) have snoc: "take (Suc n) es = take n es @ [es ! n]"
    by (simp add: take_Suc_snoc)
  show ?case
  proof (cases "\<exists>y. x = Some (Err y)")
    case True
    with Suc.prems(3) ue one snoc show ?thesis by (auto simp: replay_loop_Suc)
  next
    case False
    with Suc.prems(3) ue have
      "replay_loop revoke apply_removal owner es d n (asserted @ assertions_in [es ! n])
         (report_for [es ! n] rep) s1 = (r, n', asserted', t)"
      by (auto simp: replay_loop_Suc split: option.splits sum.splits)
    from Suc.IH [OF _ _ this] one False Suc.prems(2) snoc show ?thesis by auto
  qed
qed simp

lemma undo_effect_forced:
  assumes "inv s" "inverse_ready owner e (account s)" "ds_policy d = Force" "\<And>h. \<not> armed s h"
  shows "fst (undo_effect revoke apply_removal owner d e s) \<noteq> Some (Err x)"
proof -
  have rem: "\<nexists>y t. apply_removal r owner d s = (Err y, t)"
    if "acc_holds (account s) (removed_object r owner)" for r
    using removal_forced [OF assms(1) that assms(3,4)] by auto
  have rev: "\<nexists>y t. revoke h d s = (Err y, t)" if "acc_issued (account s) h = Some k" for h k
    using that revoke_forced [OF assms(1) _ assms(3,4)] by fastforce
  show ?thesis
  proof (cases "eff_reversibility e")
    case (Exact i)
    then show ?thesis
      using assms(2) rem rev
      by (cases "inv_via i") (auto simp: undo_effect_def inverse_ready_def and_then_eq_Inl split: prod.splits)
  qed (use assms(2) rem in \<open>auto simp: undo_effect_def inverse_ready_def split: prod.splits\<close>)
qed

lemma replay_loop_forced:
  "inv s \<Longrightarrow> n \<le> length es \<Longrightarrow> acc_ready owner (take n es) (account s) \<Longrightarrow> ds_policy d = Force \<Longrightarrow>
   (\<And>h. \<not> armed s h) \<Longrightarrow>
   is_ok (fst (replay_loop revoke apply_removal owner es d n asserted rep s))"
proof (induction n arbitrary: s asserted rep)
  case (Suc n)
  obtain x s1 where ue: "undo_effect revoke apply_removal owner d (es ! n) s = (x, s1)"
    by (cases "undo_effect revoke apply_removal owner d (es ! n) s")
  note one = undo_effect_undone [OF Suc.prems(1) ue]
  from Suc.prems(2,3) have ready: "inverse_ready owner (es ! n) (account s)"
    "acc_ready owner (take n es) (acc_undo (es ! n) (account s))"
    by (simp_all add: take_Suc_snoc acc_ready_snoc)
  from undo_effect_forced [OF Suc.prems(1) ready(1) Suc.prems(4,5)] ue
  have noerr: "x \<noteq> Some (Err y)" for y by auto
  with one Suc.prems(5) have s1: "inv s1" "account s1 = acc_undo (es ! n) (account s)" "\<And>h. \<not> armed s1 h"
    by auto
  have "is_ok (fst (replay_loop revoke apply_removal owner es d n as' rep' s1))" for as' rep'
    using Suc.IH [OF s1(1) _ _ Suc.prems(4) s1(3)] Suc.prems(2) ready(2) s1(2) by simp
  with ue noerr show ?case
    by (auto simp: replay_loop_Suc split: option.splits sum.splits)
qed simp

end

end
