(* ===== verification/Fake_Backend.thy ===== *)
theory Fake_Backend
  imports Backend_Contract
begin

text \<open>
  \<open>crates/plasmosome-backend/src/fake.rs\<close>: the in-memory backend with injected failures, its
  invariant, and the proof that it meets the contract of \<open>Backend_Contract\<close>.
\<close>

section \<open>State\<close>

record unfinished =
  uf_operation :: universe_op
  uf_detail :: string

definition unfinished_error :: "unfinished \<Rightarrow> backend_error" where
  "unfinished_error u =
     IncompleteEffectErr (class_as_str (op_class (uf_operation u))) (op_id (uf_operation u)) (uf_detail u)"

record fake_backend =
  fb_state :: os_state
  fb_grants :: "(handle, ledger_entry) btree_map"
  fb_incomplete :: "(handle, unfinished) btree_map"
  fb_stuck_handles :: "handle btree_set"
  fb_stalled_owners :: "cell_owner btree_set"
  fb_revocations :: "handle list"
  fb_refused_owners :: "(cell_owner, string) btree_map"
  fb_doomed_owners :: "(cell_owner, string) btree_map"
  fb_failing_withdrawals :: "(handle, string) btree_map"
  fb_observation_fault :: "string option"

definition fake_new :: fake_backend where
  "fake_new =
     \<lparr>fb_state = os_new, fb_grants = bt_empty, fb_incomplete = bt_empty, fb_stuck_handles = bt_empty,
      fb_stalled_owners = bt_empty, fb_revocations = [], fb_refused_owners = bt_empty,
      fb_doomed_owners = bt_empty, fb_failing_withdrawals = bt_empty, fb_observation_fault = None\<rparr>"

section \<open>Injected failures\<close>

definition peek_entry :: "handle \<Rightarrow> fake_backend \<Rightarrow> backend_error + ledger_entry" where
  "peek_entry h s = ok_or (bt_get (fb_grants s) h) (UnknownHandle h)"

definition fail_before_effect_for_owner :: "cell_owner \<Rightarrow> string \<Rightarrow> fake_backend \<Rightarrow> fake_backend" where
  "fail_before_effect_for_owner owner cause s =
     s\<lparr>fb_refused_owners := bt_insert owner cause (fb_refused_owners s)\<rparr>"

definition fail_after_effect_for_owner :: "cell_owner \<Rightarrow> string \<Rightarrow> fake_backend \<Rightarrow> fake_backend" where
  "fail_after_effect_for_owner owner detail s =
     s\<lparr>fb_doomed_owners := bt_insert owner detail (fb_doomed_owners s)\<rparr>"

definition fail_next_withdrawal :: "handle \<Rightarrow> string \<Rightarrow> fake_backend \<Rightarrow> fake_backend" where
  "fail_next_withdrawal h detail s =
     s\<lparr>fb_failing_withdrawals := bt_insert h detail (fb_failing_withdrawals s)\<rparr>"

definition mark_stuck :: "handle \<Rightarrow> fake_backend \<Rightarrow> fake_backend" where
  "mark_stuck h s = s\<lparr>fb_stuck_handles := bs_insert h (fb_stuck_handles s)\<rparr>"

definition stall_graceful_drains_for_owner :: "cell_owner \<Rightarrow> fake_backend \<Rightarrow> fake_backend" where
  "stall_graceful_drains_for_owner owner s =
     s\<lparr>fb_stalled_owners := bs_insert owner (fb_stalled_owners s)\<rparr>"

definition fail_next_observation :: "string \<Rightarrow> fake_backend \<Rightarrow> fake_backend" where
  "fail_next_observation cause s = s\<lparr>fb_observation_fault := Some cause\<rparr>"

section \<open>Operations\<close>

definition identity_conflict :: "handle \<Rightarrow> backend_error" where
  "identity_conflict h = IdentityConflict (class_as_str (handle_class h)) (handle_id h)"

definition checked_object :: "os_object \<Rightarrow> backend_error + unit" where
  "checked_object ob =
     map_err (InvalidOperation (class_as_str (obj_class ob)) (obj_id ob)) (cap_validate (obj_capability ob))"

definition admitted :: "universe_op \<Rightarrow> fake_backend \<Rightarrow> backend_error + unit" where
  "admitted p s =
     and_then (checked_object (op_object p)) (\<lambda>_.
       case bt_get (fb_incomplete s) (op_handle p) of
         Some u \<Rightarrow>
           if uf_operation u = p then Err (unfinished_error u) else Err (identity_conflict (op_handle p))
       | None \<Rightarrow>
           (case bt_get (fb_refused_owners s) (op_owner p) of
              Some cause \<Rightarrow> Err (Fault (Cause cause))
            | None \<Rightarrow> Ok ()))"

definition occupied :: "handle \<Rightarrow> fake_backend \<Rightarrow> bool" where
  "occupied h s =
     list_ex (\<lambda>held. obj_class held = handle_class h \<and> obj_id held = handle_id h)
       (os_object_list (fb_state s))"

definition fail_after_the_first_effect ::
  "universe_op \<Rightarrow> fake_backend \<Rightarrow> (backend_error + unit) \<times> fake_backend" where
  "fail_after_the_first_effect p s =
     (case bt_get (fb_doomed_owners s) (op_owner p) of
        None \<Rightarrow> (Ok (), s)
      | Some detail \<Rightarrow>
          (let u = \<lparr>uf_operation = p, uf_detail = detail\<rparr>
           in (Err (unfinished_error u), s\<lparr>fb_incomplete := bt_insert (op_handle p) u (fb_incomplete s)\<rparr>)))"

definition fake_insert :: "os_object \<Rightarrow> fake_backend \<Rightarrow> (backend_error + bool) \<times> fake_backend" where
  "fake_insert ob s = (let (r, st) = os_insert ob (fb_state s) in (r, s\<lparr>fb_state := st\<rparr>))"

definition fake_grant ::
  "universe_op \<Rightarrow> grant_kind \<Rightarrow> fake_backend \<Rightarrow> (backend_error + ledger_entry) \<times> fake_backend" where
  "fake_grant p kind s =
     (case admitted p s of
        Inl x \<Rightarrow> (Err x, s)
      | Inr _ \<Rightarrow>
          (let ob = op_object p;
               e = \<lparr>le_handle = op_handle p, le_owner = obj_owner ob,
                    le_capability = obj_capability ob, le_kind = kind\<rparr>
           in case bt_get (fb_grants s) (le_handle e) of
                Some issued \<Rightarrow>
                  (if issued = e then (Ok issued, s) else (Err (identity_conflict (le_handle e)), s))
              | None \<Rightarrow>
                  (if occupied (le_handle e) s then (Err (identity_conflict (le_handle e)), s)
                   else case fail_after_the_first_effect p s of
                          (Inl x, s1) \<Rightarrow> (Err x, s1)
                        | (Inr _, s1) \<Rightarrow>
                            (case fake_insert ob s1 of
                               (Inl x, s2) \<Rightarrow> (Err x, s2)
                             | (Inr _, s2) \<Rightarrow>
                                 (Ok e, s2\<lparr>fb_grants := bt_insert (le_handle e) e (fb_grants s2)\<rparr>)))))"

definition fake_apply :: "universe_op \<Rightarrow> fake_backend \<Rightarrow> (backend_error + unit) \<times> fake_backend" where
  "fake_apply p s =
     (case admitted p s of
        Inl x \<Rightarrow> (Err x, s)
      | Inr _ \<Rightarrow>
          (case (if occupied (op_handle p) s then (Ok (), s) else fail_after_the_first_effect p s) of
             (Inl x, s1) \<Rightarrow> (Err x, s1)
           | (Inr _, s1) \<Rightarrow>
               (case fake_insert (op_object p) s1 of
                  (Inl x, s2) \<Rightarrow> (Err x, s2)
                | (Inr _, s2) \<Rightarrow> (Ok (), s2))))"

definition fake_apply_removal ::
  "universe_removal \<Rightarrow> cell_owner \<Rightarrow> drain_spec \<Rightarrow> fake_backend \<Rightarrow> (backend_error + unit) \<times> fake_backend" where
  "fake_apply_removal removal owner drain s =
     (let h = Handle (rem_class removal) (rem_id removal);
          selected = \<lparr>obj_id = rem_id removal, obj_owner = owner, obj_capability = rem_capability removal\<rparr>;
          unfinished = (case bt_get (fb_incomplete s) h of
                          None \<Rightarrow> False | Some u \<Rightarrow> op_object (uf_operation u) = selected);
          stalled = (bs_contains (fb_stuck_handles s) h \<or> bs_contains (fb_stalled_owners s) owner)
      in if \<not> unfinished \<and> \<not> os_selects (fb_state s) removal owner
         then (Err (UnknownObject (class_as_str (handle_class h)) (rem_key removal) owner (handle_id h)), s)
         else if ds_policy drain = Graceful \<and> stalled
         then (Err (DrainTimedOut h (deadline_ms drain)), s)
         else
           (let s1 = s\<lparr>fb_state := snd (os_remove removal owner (fb_state s))\<rparr>
            in case bt_get (fb_failing_withdrawals s1) h of
                 Some detail \<Rightarrow>
                   (let failed = \<lparr>uf_operation = obj_operation selected, uf_detail = detail\<rparr>
                    in (Err (unfinished_error failed),
                        s1\<lparr>fb_failing_withdrawals := bt_remove h (fb_failing_withdrawals s1),
                           fb_incomplete := bt_insert h failed (fb_incomplete s1)\<rparr>))
               | None \<Rightarrow>
                   (Ok (), s1\<lparr>fb_incomplete := bt_remove h (fb_incomplete s1),
                              fb_grants := bt_remove h (fb_grants s1),
                              fb_stuck_handles := bs_remove h (fb_stuck_handles s1)\<rparr>)))"

definition fake_revoke ::
  "handle \<Rightarrow> drain_spec \<Rightarrow> fake_backend \<Rightarrow> (backend_error + ledger_entry) \<times> fake_backend" where
  "fake_revoke h drain s =
     (case bt_get (fb_grants s) h of
        None \<Rightarrow> (Err (UnknownHandle h), s)
      | Some e \<Rightarrow>
          (case fake_apply_removal (le_removal e) (le_owner e) drain s of
             (Inl x, s1) \<Rightarrow> (Err x, s1)
           | (Inr _, s1) \<Rightarrow> (Ok e, s1\<lparr>fb_revocations := fb_revocations s1 @ [h]\<rparr>)))"

definition fake_plant :: "os_object \<Rightarrow> fake_backend \<Rightarrow> (backend_error + unit) \<times> fake_backend" where
  "fake_plant ob s =
     (case checked_object ob of
        Inl x \<Rightarrow> (Err x, s)
      | Inr _ \<Rightarrow>
          (let h = op_handle (obj_operation ob)
           in if bt_contains_key (fb_incomplete s) h then (Err (identity_conflict h), s)
              else case fake_insert ob s of
                     (Inl x, s1) \<Rightarrow> (Err x, s1)
                   | (Inr _, s1) \<Rightarrow> (Ok (), s1)))"

definition fake_snapshot_os_state ::
  "fake_backend \<Rightarrow> (backend_error + enforcement_snapshot) \<times> fake_backend" where
  "fake_snapshot_os_state s =
     (case fb_observation_fault s of
        Some cause \<Rightarrow> (Err (Fault (Cause cause)), s\<lparr>fb_observation_fault := None\<rparr>)
      | None \<Rightarrow>
          (snapshot_new (fb_state s) (bt_values (fb_grants s))
             (map (\<lambda>u. \<lparr>ie_operation = uf_operation u\<rparr>) (bt_values (fb_incomplete s))), s))"

section \<open>Account and invariant\<close>

definition fake_account :: "fake_backend \<Rightarrow> account" where
  "fake_account s =
     \<lparr>acc_standing = standing (fb_state s),
      acc_unfinished = (\<lambda>h. map_option uf_operation (bt_get (fb_incomplete s) h)),
      acc_issued = bt_get (fb_grants s)\<rparr>"

definition fake_armed :: "fake_backend \<Rightarrow> handle \<Rightarrow> bool" where
  "fake_armed s h \<longleftrightarrow> bt_get (fb_failing_withdrawals s) h \<noteq> None"

definition fake_inv :: "fake_backend \<Rightarrow> bool" where
  "fake_inv s \<longleftrightarrow> account_inv (fake_account s)"

text \<open>The states a caller can reach with the operations and the injected failures.\<close>

datatype fake_event =
    EvGrant universe_op grant_kind
  | EvRevoke handle drain_spec
  | EvApply universe_op
  | EvRemoval universe_removal cell_owner drain_spec
  | EvPlant os_object
  | EvSnapshot
  | EvFailBefore cell_owner string
  | EvFailAfter cell_owner string
  | EvFailWithdrawal handle string
  | EvStuck handle
  | EvStall cell_owner
  | EvFailObservation string

fun fake_event_step :: "fake_event \<Rightarrow> fake_backend \<Rightarrow> fake_backend" where
  "fake_event_step (EvGrant p kind) s = snd (fake_grant p kind s)"
| "fake_event_step (EvRevoke h d) s = snd (fake_revoke h d s)"
| "fake_event_step (EvApply p) s = snd (fake_apply p s)"
| "fake_event_step (EvRemoval r owner d) s = snd (fake_apply_removal r owner d s)"
| "fake_event_step (EvPlant ob) s = snd (fake_plant ob s)"
| "fake_event_step EvSnapshot s = snd (fake_snapshot_os_state s)"
| "fake_event_step (EvFailBefore owner cause) s = fail_before_effect_for_owner owner cause s"
| "fake_event_step (EvFailAfter owner detail) s = fail_after_effect_for_owner owner detail s"
| "fake_event_step (EvFailWithdrawal h detail) s = fail_next_withdrawal h detail s"
| "fake_event_step (EvStuck h) s = mark_stuck h s"
| "fake_event_step (EvStall owner) s = stall_graceful_drains_for_owner owner s"
| "fake_event_step (EvFailObservation cause) s = fail_next_observation cause s"

inductive fake_reachable :: "fake_backend \<Rightarrow> bool" where
  fake_start: "fake_reachable fake_new"
| fake_next: "fake_reachable s \<Longrightarrow> fake_reachable (fake_event_step ev s)"

section \<open>What each operation does to the account\<close>

lemma fake_inv_os_wf: "fake_inv s \<Longrightarrow> os_wf (fb_state s)"
  by (auto simp: fake_inv_def account_inv_def fake_account_def os_wf_iff)

lemma occupied_standing: "fake_inv s \<Longrightarrow> occupied h s \<longleftrightarrow> standing (fb_state s) h \<noteq> None"
proof -
  assume "fake_inv s"
  then have wf: "os_wf (fb_state s)" by (rule fake_inv_os_wf)
  have "occupied h s \<longleftrightarrow> (\<exists>ob \<in> set (os_object_list (fb_state s)). obj_handle ob = h)"
    by (cases h) (auto simp: occupied_def list_ex_iff obj_handle_def)
  also have "\<dots> \<longleftrightarrow> standing (fb_state s) h \<noteq> None"
    using wf by (auto simp: set_os_object_list os_wf_iff)
  finally show ?thesis .
qed

lemma admitted_Ok:
  assumes "admitted p s = Ok u"
  shows "is_ok (cap_validate (op_capability p))" "bt_get (fb_incomplete s) (op_handle p) = None"
  using assms
  by (auto simp: admitted_def checked_object_def and_then_eq_Inr is_ok_unit split: option.splits if_splits)

lemma admitted_vacant:
  assumes "admitted p s = Ok u" "fake_inv s" "\<not> occupied (op_handle p) s"
  shows "acc_vacant (fake_account s) (op_handle p)"
  using assms admitted_Ok(2) [OF assms(1)] occupied_standing [OF assms(2)]
  by (intro account_inv_vacantI) (auto simp: fake_inv_def fake_account_def)

lemma fake_account_doomed:
  "fake_account (s\<lparr>fb_incomplete := bt_insert (op_handle p) \<lparr>uf_operation = p, uf_detail = d\<rparr> (fb_incomplete s)\<rparr>) =
   acc_begin p (fake_account s)"
  by (auto simp: fake_account_def acc_begin_def)

lemma fake_insert_fresh:
  assumes "standing (fb_state s) (obj_handle ob) = None"
  shows "fst (fake_insert ob s) = Ok True"
    and "fake_account (snd (fake_insert ob s)) = acc_apply (obj_operation ob) (fake_account s)"
    and "fb_grants (snd (fake_insert ob s)) = fb_grants s"
  using os_insert_fresh [OF assms]
  by (auto simp: fake_insert_def fake_account_def acc_apply_def Let_def split: prod.splits)

lemma fake_insert_held:
  assumes "standing (fb_state s) (obj_handle ob) = Some held"
  shows "fake_insert ob s =
    ((if held = ob then Ok False
      else Err (IdentityConflict (class_as_str (obj_class ob)) (obj_id ob))), s)"
  using os_insert_held [OF assms] by (simp add: fake_insert_def)

lemma fake_grant_cases:
  assumes inv: "fake_inv s" and run: "fake_grant p kind s = (r, t)"
  obtains
    (refused) "t = s" "\<not> is_ok r"
  | (retried) "t = s" "r = Ok (entry_of p kind)" "acc_issued (fake_account s) (op_handle p) = Some (entry_of p kind)"
  | (begun) d where "r = Err (IncompleteEffectErr (class_as_str (op_class p)) (op_id p) d)"
      "acc_vacant (fake_account s) (op_handle p)" "is_ok (cap_validate (op_capability p))"
      "fake_account t = acc_begin p (fake_account s)"
  | (granted) "r = Ok (entry_of p kind)" "acc_vacant (fake_account s) (op_handle p)"
      "is_ok (cap_validate (op_capability p))"
      "fake_account t = acc_grant p (entry_of p kind) (fake_account s)"
proof (cases "admitted p s")
  case (Inl x)
  with run refused show ?thesis by (auto simp: fake_grant_def)
next
  case (Inr u)
  have e: "\<lparr>le_handle = op_handle p, le_owner = obj_owner (op_object p),
      le_capability = obj_capability (op_object p), le_kind = kind\<rparr> = entry_of p kind"
    by (simp add: entry_of_def)
  note valid = admitted_Ok(1) [OF Inr]
  show ?thesis
  proof (cases "bt_get (fb_grants s) (op_handle p)")
    case (Some issued)
    with Inr run refused retried show ?thesis
      by (auto simp: fake_grant_def Let_def e fake_account_def entry_of_def split: if_splits)
  next
    case None
    show ?thesis
    proof (cases "occupied (op_handle p) s")
      case True
      with None Inr run refused show ?thesis by (auto simp: fake_grant_def Let_def)
    next
      case False
      note vacant = admitted_vacant [OF Inr inv False]
      show ?thesis
      proof (cases "bt_get (fb_doomed_owners s) (op_owner p)")
        case (Some d)
        with None False Inr run
        have "r = Err (IncompleteEffectErr (class_as_str (op_class p)) (op_id p) d)"
          "t = s\<lparr>fb_incomplete := bt_insert (op_handle p) \<lparr>uf_operation = p, uf_detail = d\<rparr> (fb_incomplete s)\<rparr>"
          by (auto simp: fake_grant_def Let_def fail_after_the_first_effect_def unfinished_error_def)
        with begun vacant valid show ?thesis by (simp add: fake_account_doomed)
      next
        case None': None
        have st: "standing (fb_state s) (obj_handle (op_object p)) = None"
          using vacant by (simp add: acc_vacant_def fake_account_def)
        obtain s2 where ins: "fake_insert (op_object p) s = (Ok True, s2)"
          using fake_insert_fresh(1) [OF st] by (cases "fake_insert (op_object p) s") auto
        with None False Inr None' run
        have r: "r = Ok (entry_of p kind)"
          and t: "t = s2\<lparr>fb_grants := bt_insert (op_handle p) (entry_of p kind) (fb_grants s2)\<rparr>"
          by (auto simp: fake_grant_def Let_def fail_after_the_first_effect_def entry_of_def)
        have "fake_account t = acc_grant p (entry_of p kind) (fake_account s)"
          using fake_insert_fresh(2,3) [OF st] ins t
          by (auto simp: fake_account_def acc_grant_def acc_apply_def bt_get_insert)
        with granted r vacant valid show ?thesis by blast
      qed
    qed
  qed
qed

lemma fake_apply_cases:
  assumes inv: "fake_inv s" and run: "fake_apply p s = (r, t)"
  obtains
    (same) "t = s" "\<not> acc_vacant (fake_account s) (op_handle p) \<or> \<not> is_ok r"
  | (begun) d where "r = Err (IncompleteEffectErr (class_as_str (op_class p)) (op_id p) d)"
      "acc_vacant (fake_account s) (op_handle p)" "is_ok (cap_validate (op_capability p))"
      "fake_account t = acc_begin p (fake_account s)"
  | (applied) "r = Ok ()" "acc_vacant (fake_account s) (op_handle p)"
      "is_ok (cap_validate (op_capability p))" "fake_account t = acc_apply p (fake_account s)"
proof (cases "admitted p s")
  case (Inl x)
  with run have "t = s" "r = Inl x" by (auto simp: fake_apply_def)
  with same show ?thesis by simp
next
  case (Inr u)
  note valid = admitted_Ok(1) [OF Inr]
  show ?thesis
  proof (cases "standing (fb_state s) (op_handle p)")
    case (Some held)
    then have "\<not> acc_vacant (fake_account s) (op_handle p)"
      by (simp add: acc_vacant_def fake_account_def)
    moreover have "t = s"
      using Some Inr run occupied_standing [OF inv, of "op_handle p"] fake_insert_held [of s "op_object p" held]
      by (auto simp: fake_apply_def split: if_splits)
    ultimately show ?thesis using same by blast
  next
    case None
    with occupied_standing [OF inv] have free: "\<not> occupied (op_handle p) s" by simp
    note vacant = admitted_vacant [OF Inr inv free]
    show ?thesis
    proof (cases "bt_get (fb_doomed_owners s) (op_owner p)")
      case (Some d)
      with free Inr run
      have "r = Err (IncompleteEffectErr (class_as_str (op_class p)) (op_id p) d)"
        "t = s\<lparr>fb_incomplete := bt_insert (op_handle p) \<lparr>uf_operation = p, uf_detail = d\<rparr> (fb_incomplete s)\<rparr>"
        by (auto simp: fake_apply_def Let_def fail_after_the_first_effect_def unfinished_error_def)
      with begun vacant valid show ?thesis by (simp add: fake_account_doomed)
    next
      case None': None
      obtain s2 where ins: "fake_insert (op_object p) s = (Ok True, s2)"
        using fake_insert_fresh(1) [of s "op_object p"] None
        by (cases "fake_insert (op_object p) s") auto
      with free Inr None' run have "r = Ok ()" "t = s2"
        by (auto simp: fake_apply_def fail_after_the_first_effect_def)
      with applied vacant valid ins fake_insert_fresh(2) [of s "op_object p"] None show ?thesis by simp
    qed
  qed
qed

lemma fake_plant_cases:
  assumes inv: "fake_inv s" and run: "fake_plant ob s = (r, t)"
  obtains
    (same) "t = s"
  | (planted) "r = Ok ()" "acc_vacant (fake_account s) (obj_handle ob)"
      "is_ok (cap_validate (obj_capability ob))" "fake_account t = acc_apply (obj_operation ob) (fake_account s)"
proof (cases "is_ok (checked_object ob) \<and> bt_get (fb_incomplete s) (obj_handle ob) = None")
  case False
  with run same show ?thesis
    by (cases "checked_object ob") (auto simp: fake_plant_def Let_def bt_contains_key_def split: if_splits)
next
  case True
  then have ch: "checked_object ob = Ok ()" by (simp add: is_ok_unit)
  have valid: "is_ok (cap_validate (obj_capability ob))" using True by (simp add: checked_object_def)
  show ?thesis
  proof (cases "standing (fb_state s) (obj_handle ob)")
    case (Some held)
    with True ch run same fake_insert_held [OF Some] show ?thesis
      by (auto simp: fake_plant_def Let_def bt_contains_key_def split: if_splits)
  next
    case None
    then have "acc_vacant (fake_account s) (obj_handle ob)"
      using inv True by (intro account_inv_vacantI) (auto simp: fake_inv_def fake_account_def)
    moreover obtain s2 where ins: "fake_insert ob s = (Ok True, s2)"
      using fake_insert_fresh(1) [OF None] by (cases "fake_insert ob s") auto
    ultimately show ?thesis
      using True ch run planted valid fake_insert_fresh(2) [OF None]
      by (auto simp: fake_plant_def Let_def bt_contains_key_def)
  qed
qed

lemma fake_removal_holds:
  assumes "fake_inv s"
  shows "acc_holds (fake_account s) (removed_object r owner) \<longleftrightarrow>
    (case bt_get (fb_incomplete s) (rem_handle r) of
       None \<Rightarrow> False | Some u \<Rightarrow> op_object (uf_operation u) = removed_object r owner) \<or>
    os_selects (fb_state s) r owner"
proof -
  have "op_object q = removed_object r owner \<longleftrightarrow> q = obj_operation (removed_object r owner)" for q
    by (metis obj_operation_object op_object_operation)
  then show ?thesis
    using os_selects_standing [OF fake_inv_os_wf [OF assms], of r owner]
    by (auto simp: acc_holds_def fake_account_def split: option.splits)
qed

lemma fake_removal_cases:
  assumes inv: "fake_inv s" and run: "fake_apply_removal r owner d s = (x, t)"
  obtains
    (unheld) "t = s" "x = Err (UnknownObject (class_as_str (rem_class r)) (rem_key r) owner (rem_id r))"
      "\<not> acc_holds (fake_account s) (removed_object r owner)"
  | (timeout) "t = s" "x = Err (DrainTimedOut (rem_handle r) (deadline_ms d))" "ds_policy d = Graceful"
      "acc_holds (fake_account s) (removed_object r owner)"
      "bs_contains (fb_stuck_handles s) (rem_handle r) \<or> bs_contains (fb_stalled_owners s) owner"
  | (stranded) detail where
      "x = Err (IncompleteEffectErr (class_as_str (rem_class r)) (rem_id r) detail)"
      "bt_get (fb_failing_withdrawals s) (rem_handle r) = Some detail"
      "acc_holds (fake_account s) (removed_object r owner)"
      "fake_account t = acc_strand (removed_object r owner) (fake_account s)"
      "fb_failing_withdrawals t = bt_remove (rem_handle r) (fb_failing_withdrawals s)"
  | (cleared) "x = Ok ()" "acc_holds (fake_account s) (removed_object r owner)"
      "fake_account t = acc_clear (rem_handle r) (fake_account s)"
      "fb_failing_withdrawals t = fb_failing_withdrawals s"
proof -
  let ?h = "rem_handle r" and ?ob = "removed_object r owner"
  have ob: "\<lparr>obj_id = rem_id r, obj_owner = owner, obj_capability = rem_capability r\<rparr> = ?ob"
    by (simp add: removed_object_def)
  have h: "Handle (rem_class r) (rem_id r) = ?h" by (simp add: rem_handle_def)
  define unf where "unf = (case bt_get (fb_incomplete s) ?h of
       None \<Rightarrow> False | Some u \<Rightarrow> op_object (uf_operation u) = ?ob)"
  note holds = fake_removal_holds [OF inv, of r owner, folded unf_def]
  define stalled where
    "stalled = (bs_contains (fb_stuck_handles s) ?h \<or> bs_contains (fb_stalled_owners s) owner)"
  define s1 where "s1 = s\<lparr>fb_state := snd (os_remove r owner (fb_state s))\<rparr>"
  note run' = run [unfolded fake_apply_removal_def Let_def ob h, folded unf_def stalled_def s1_def]
  have st1: "standing (fb_state s1) = (standing (fb_state s))(?h := None)"
    if "acc_holds (fake_account s) ?ob"
  proof (cases "os_selects (fb_state s) r owner")
    case False
    then have "acc_unfinished (fake_account s) ?h = Some (obj_operation ?ob)"
      using that os_selects_standing [OF fake_inv_os_wf [OF inv], of r owner]
      by (auto simp: acc_holds_def fake_account_def)
    then have "standing (fb_state s) ?h = None"
      using inv account_inv_unfinished by (fastforce simp: fake_inv_def fake_account_def)
    with False show ?thesis by (auto simp: s1_def standing_os_remove)
  qed (simp add: s1_def standing_os_remove)
  have s1: "fb_incomplete s1 = fb_incomplete s" "fb_grants s1 = fb_grants s"
    "fb_failing_withdrawals s1 = fb_failing_withdrawals s"
    by (simp_all add: s1_def)
  have sel: "handle_class ?h = rem_class r" "handle_id ?h = rem_id r"
    "op_class (obj_operation ?ob) = rem_class r" "obj_id ?ob = rem_id r"
    by (simp_all add: rem_handle_def op_class_capability rem_class_def removed_object_def)
  show ?thesis
  proof (cases "acc_holds (fake_account s) ?ob")
    case False
    with run' holds unheld show ?thesis by (auto simp: sel)
  next
    case True
    then have nh: "\<not> (\<not> unf \<and> \<not> os_selects (fb_state s) r owner)" using holds by blast
    show ?thesis
    proof (cases "ds_policy d = Graceful \<and> stalled")
      case st: True
      with run' nh timeout True show ?thesis by (auto simp: stalled_def)
    next
      case nst: False
      show ?thesis
      proof (cases "bt_get (fb_failing_withdrawals s) ?h")
        case (Some detail)
        with run' nh nst
        have "x = Err (IncompleteEffectErr (class_as_str (rem_class r)) (rem_id r) detail)"
          and t: "t = s1\<lparr>fb_failing_withdrawals := bt_remove ?h (fb_failing_withdrawals s1),
             fb_incomplete := bt_insert ?h \<lparr>uf_operation = obj_operation ?ob, uf_detail = detail\<rparr>
               (fb_incomplete s1)\<rparr>"
          by (auto simp: s1 unfinished_error_def sel)
        moreover have "fake_account t = acc_strand ?ob (fake_account s)"
          by (auto simp: t fake_account_def acc_strand_def st1 [OF True] s1)
        ultimately show ?thesis using stranded Some True s1 by simp
      next
        case None
        with run' nh nst
        have "x = Ok ()"
          and t: "t = s1\<lparr>fb_incomplete := bt_remove ?h (fb_incomplete s1),
             fb_grants := bt_remove ?h (fb_grants s1),
             fb_stuck_handles := bs_remove ?h (fb_stuck_handles s1)\<rparr>"
          by (auto simp: s1)
        moreover have "fake_account t = acc_clear ?h (fake_account s)"
          by (auto simp: t fake_account_def acc_clear_def st1 [OF True] s1 fun_eq_iff)
        ultimately show ?thesis using cleared True s1 by simp
      qed
    qed
  qed
qed

section \<open>The invariant\<close>

named_theorems fake_inv_intros \<open>every operation of the fake backend keeps its invariant\<close>

lemma fake_inv_new [fake_inv_intros]: "fake_inv fake_new"
  by (auto simp: fake_inv_def account_inv_def fake_account_def fake_new_def)

lemma fake_inv_grant [fake_inv_intros]:
  assumes "fake_inv s"
  shows "fake_inv (snd (fake_grant p kind s))"
proof -
  obtain r t where run: "fake_grant p kind s = (r, t)" by (cases "fake_grant p kind s")
  from assms have ai: "account_inv (fake_account s)" by (simp add: fake_inv_def)
  from assms run show ?thesis
  proof (cases rule: fake_grant_cases)
    case (begun d)
    with ai run show ?thesis by (simp add: fake_inv_def account_inv_begin)
  next
    case granted
    with ai run show ?thesis by (simp add: fake_inv_def account_inv_grant)
  qed (use assms run in auto)
qed

lemma fake_inv_apply [fake_inv_intros]:
  assumes "fake_inv s"
  shows "fake_inv (snd (fake_apply p s))"
proof -
  obtain r t where run: "fake_apply p s = (r, t)" by (cases "fake_apply p s")
  from assms have ai: "account_inv (fake_account s)" by (simp add: fake_inv_def)
  from assms run show ?thesis
  proof (cases rule: fake_apply_cases)
    case (begun d)
    with ai run show ?thesis by (simp add: fake_inv_def account_inv_begin)
  next
    case applied
    with ai run show ?thesis by (simp add: fake_inv_def account_inv_apply)
  qed (use assms run in auto)
qed

lemma fake_inv_plant [fake_inv_intros]:
  assumes "fake_inv s"
  shows "fake_inv (snd (fake_plant ob s))"
proof -
  obtain r t where run: "fake_plant ob s = (r, t)" by (cases "fake_plant ob s")
  from assms have ai: "account_inv (fake_account s)" by (simp add: fake_inv_def)
  from assms run show ?thesis
  proof (cases rule: fake_plant_cases)
    case planted
    with ai run account_inv_apply [of "fake_account s" "obj_operation ob"] show ?thesis
      by (simp add: fake_inv_def)
  qed (use assms run in auto)
qed

lemma fake_inv_removal [fake_inv_intros]:
  assumes "fake_inv s"
  shows "fake_inv (snd (fake_apply_removal r owner d s))"
proof -
  obtain x t where run: "fake_apply_removal r owner d s = (x, t)"
    by (cases "fake_apply_removal r owner d s")
  from assms have ai: "account_inv (fake_account s)" by (simp add: fake_inv_def)
  from assms run show ?thesis
  proof (cases rule: fake_removal_cases)
    case (stranded detail)
    with ai run show ?thesis by (simp add: fake_inv_def account_inv_strand)
  next
    case cleared
    with ai run show ?thesis by (simp add: fake_inv_def account_inv_clear)
  qed (use assms run in auto)
qed

lemma fake_account_revocations [simp]:
  "fake_account (s\<lparr>fb_revocations := v\<rparr>) = fake_account s"
  by (simp add: fake_account_def)

lemma fake_inv_revoke [fake_inv_intros]:
  assumes "fake_inv s"
  shows "fake_inv (snd (fake_revoke h d s))"
proof (cases "bt_get (fb_grants s) h")
  case (Some e)
  have "fake_inv (snd (fake_apply_removal (le_removal e) (le_owner e) d s))"
    using assms by (rule fake_inv_removal)
  with Some show ?thesis
    by (cases "fake_apply_removal (le_removal e) (le_owner e) d s")
      (auto simp: fake_revoke_def fake_inv_def split: sum.splits)
qed (use assms in \<open>simp add: fake_revoke_def\<close>)

lemma fake_account_injected [simp]:
  "fake_account (fail_before_effect_for_owner owner cause s) = fake_account s"
  "fake_account (fail_after_effect_for_owner owner cause s) = fake_account s"
  "fake_account (fail_next_withdrawal h cause s) = fake_account s"
  "fake_account (mark_stuck h s) = fake_account s"
  "fake_account (stall_graceful_drains_for_owner owner s) = fake_account s"
  "fake_account (fail_next_observation cause s) = fake_account s"
  "fake_account (snd (fake_snapshot_os_state s)) = fake_account s"
  by (simp_all add: fake_account_def fail_before_effect_for_owner_def fail_after_effect_for_owner_def
      fail_next_withdrawal_def mark_stuck_def stall_graceful_drains_for_owner_def
      fail_next_observation_def fake_snapshot_os_state_def split: option.splits)

lemma fake_inv_event: "fake_inv s \<Longrightarrow> fake_inv (fake_event_step ev s)"
  by (cases ev) (auto intro: fake_inv_intros, auto simp: fake_inv_def)

lemma fake_reachable_inv: "fake_reachable s \<Longrightarrow> fake_inv s"
  by (induction rule: fake_reachable.induct) (auto intro: fake_inv_new fake_inv_event)

section \<open>The fake backend meets the contract\<close>

lemma fake_revoke_armed:
  "bt_get (fb_grants s) h = Some e \<Longrightarrow>
   fst (fake_revoke h d s) = and_then (fst (fake_apply_removal (le_removal e) (le_owner e) d s)) (\<lambda>_. Ok e) \<and>
   fake_account (snd (fake_revoke h d s)) = fake_account (snd (fake_apply_removal (le_removal e) (le_owner e) d s)) \<and>
   fake_armed (snd (fake_revoke h d s)) = fake_armed (snd (fake_apply_removal (le_removal e) (le_owner e) d s))"
  by (cases "fake_apply_removal (le_removal e) (le_owner e) d s")
    (auto simp: fake_revoke_def fake_armed_def fun_eq_iff split: sum.splits)

lemma fake_armed_removal: "fake_armed (snd (fake_apply_removal r owner d s)) h \<Longrightarrow> fake_armed s h"
  by (auto simp: fake_apply_removal_def fake_armed_def Let_def split: if_splits option.splits)

interpretation fake: enforcement_backend
  fake_grant fake_revoke fake_apply fake_apply_removal fake_plant fake_inv fake_account fake_armed
proof unfold_locales
  fix s t :: fake_backend and p kind e
  assume inv: "fake_inv s" and vac: "acc_vacant (fake_account s) (op_handle p)"
    and run: "fake_grant p kind s = (Ok e, t)"
  from inv run show "e = entry_of p kind \<and> fake_account t = acc_grant p e (fake_account s)"
    by (cases rule: fake_grant_cases) (use vac in \<open>auto simp: acc_vacant_def\<close>)
next
  fix s :: fake_backend and p kind
  assume inv: "fake_inv s" and occ: "\<not> acc_vacant (fake_account s) (op_handle p)"
  obtain r t where run: "fake_grant p kind s = (r, t)" by (cases "fake_grant p kind s")
  from inv run show "fake_account (snd (fake_grant p kind s)) = fake_account s"
    by (cases rule: fake_grant_cases) (use occ run in auto)
next
  fix s t :: fake_backend and p kind x
  assume "fake_inv s" "fake_grant p kind s = (Err x, t)"
  then show "fake_account t = fake_account s \<or>
      (\<exists>detail. x = IncompleteEffectErr (class_as_str (op_class p)) (op_id p) detail \<and>
        fake_account t = acc_begin p (fake_account s))"
    by (cases rule: fake_grant_cases) auto
next
  fix s t :: fake_backend and p u
  assume inv: "fake_inv s" and vac: "acc_vacant (fake_account s) (op_handle p)"
    and run: "fake_apply p s = (Ok u, t)"
  from inv run show "fake_account t = acc_apply p (fake_account s)"
    by (cases rule: fake_apply_cases) (use vac in auto)
next
  fix s :: fake_backend and h p
  assume inv: "fake_inv s" and other: "h \<noteq> op_handle p"
  obtain r t where run: "fake_apply p s = (r, t)" by (cases "fake_apply p s")
  from inv run show "acc_at (fake_account (snd (fake_apply p s))) h = acc_at (fake_account s) h"
    by (cases rule: fake_apply_cases) (use other run in \<open>auto simp: acc_at_others\<close>)
next
  fix s :: fake_backend and h ob
  assume inv: "fake_inv s" and other: "h \<noteq> obj_handle ob"
  obtain r t where run: "fake_plant ob s = (r, t)" by (cases "fake_plant ob s")
  from inv run show "acc_at (fake_account (snd (fake_plant ob s))) h = acc_at (fake_account s) h"
    by (cases rule: fake_plant_cases) (use other run in \<open>auto simp: acc_at_others\<close>)
next
  fix s t :: fake_backend and r owner d u
  assume "fake_inv s" "fake_apply_removal r owner d s = (Ok u, t)"
  then show "acc_holds (fake_account s) (removed_object r owner) \<and>
      fake_account t = acc_clear (rem_handle r) (fake_account s)"
    by (cases rule: fake_removal_cases) auto
next
  fix s t :: fake_backend and r owner d x
  assume "fake_inv s" "fake_apply_removal r owner d s = (Err x, t)"
  then show "fake_account t = fake_account s \<or>
      (\<exists>detail. x = IncompleteEffectErr (class_as_str (rem_class r)) (rem_id r) detail \<and>
        acc_holds (fake_account s) (removed_object r owner) \<and>
        fake_account t = acc_strand (removed_object r owner) (fake_account s))"
    by (cases rule: fake_removal_cases) auto
next
  fix s :: fake_backend and r owner d
  assume inv: "fake_inv s" and un: "\<not> acc_holds (fake_account s) (removed_object r owner)"
  obtain x t where run: "fake_apply_removal r owner d s = (x, t)" by (cases "fake_apply_removal r owner d s")
  from inv run show "fake_apply_removal r owner d s =
      (Err (UnknownObject (class_as_str (rem_class r)) (rem_key r) owner (rem_id r)), s)"
    by (cases rule: fake_removal_cases) (use un run in auto)
next
  fix s :: fake_backend and r owner and d :: drain_spec
  assume inv: "fake_inv s" and holds: "acc_holds (fake_account s) (removed_object r owner)"
    and force: "ds_policy d = Force" and un: "\<not> fake_armed s (rem_handle r)"
  obtain x t where run: "fake_apply_removal r owner d s = (x, t)" by (cases "fake_apply_removal r owner d s")
  from inv run show "is_ok (fst (fake_apply_removal r owner d s))"
    by (cases rule: fake_removal_cases) (use holds force un run in \<open>auto simp: fake_armed_def\<close>)
next
  fix s :: fake_backend and h d
  assume "acc_issued (fake_account s) h = None"
  then show "fake_revoke h d s = (Err (UnknownHandle h), s)"
    by (simp add: fake_account_def fake_revoke_def)
next
  fix s :: fake_backend and h e d
  assume "acc_issued (fake_account s) h = Some e"
  then show "fst (fake_revoke h d s) = and_then (fst (fake_apply_removal (le_removal e) (le_owner e) d s)) (\<lambda>_. Ok e) \<and>
      fake_account (snd (fake_revoke h d s)) = fake_account (snd (fake_apply_removal (le_removal e) (le_owner e) d s)) \<and>
      fake_armed (snd (fake_revoke h d s)) = fake_armed (snd (fake_apply_removal (le_removal e) (le_owner e) d s))"
    by (intro fake_revoke_armed) (simp add: fake_account_def)
next
  fix s :: fake_backend and h e
  assume "fake_inv s" "acc_issued (fake_account s) h = Some e"
  then show "le_handle e = h \<and> rem_handle (le_removal e) = h \<and>
      acc_holds (fake_account s) (removed_object (le_removal e) (le_owner e))"
    by (intro account_inv_issued) (auto simp: fake_inv_def)
qed (auto intro: fake_inv_intros fake_armed_removal)

section \<open>Observation\<close>

lemma bt_values_distinct_keys:
  assumes "\<And>k v. bt_get m k = Some v \<Longrightarrow> g v = k"
  shows "map g (bt_values m) = bt_keys m"
  using assms by (auto simp: bt_values_def bt_keys_def entries_get)

definition incomplete_list :: "fake_backend \<Rightarrow> incomplete_effect list" where
  "incomplete_list s = map (\<lambda>u. \<lparr>ie_operation = uf_operation u\<rparr>) (bt_values (fb_incomplete s))"

lemma fake_unfinished_at:
  assumes "fake_inv s" "bt_get (fb_incomplete s) h = Some u"
  shows "op_handle (uf_operation u) = h" "is_ok (op_validate (uf_operation u))"
    "standing (fb_state s) h = None"
  using account_inv_unfinished [of "fake_account s" h "uf_operation u"] assms
  by (simp_all add: fake_account_def fake_inv_def op_validate_capability)

lemma fake_issued_at:
  assumes "fake_inv s" "bt_get (fb_grants s) h = Some e"
  shows "le_handle e = h" "rem_handle (le_removal e) = h"
    "acc_holds (fake_account s) (removed_object (le_removal e) (le_owner e))"
  using account_inv_issued [of "fake_account s" h e] assms
  by (simp_all add: fake_account_def fake_inv_def)

lemma incomplete_list_mem:
  "f \<in> set (incomplete_list s) \<longleftrightarrow> (\<exists>h u. bt_get (fb_incomplete s) h = Some u \<and> f = \<lparr>ie_operation = uf_operation u\<rparr>)"
  unfolding incomplete_list_def set_map image_iff using bt_values_get [of _ "fb_incomplete s"] by blast

lemma fake_rows_distinct:
  assumes "fake_inv s"
  shows "distinct (map le_handle (bt_values (fb_grants s)))" "distinct (map ie_handle (incomplete_list s))"
proof -
  have "map ie_handle (incomplete_list s) = bt_keys (fb_incomplete s)"
    using bt_values_distinct_keys [of "fb_incomplete s" "\<lambda>u. op_handle (uf_operation u)"]
      fake_unfinished_at(1) [OF assms]
    by (simp add: ie_handle_def comp_def incomplete_list_def)
  then show "distinct (map ie_handle (incomplete_list s))" by (simp add: bt_keys_distinct)
  have "map le_handle (bt_values (fb_grants s)) = bt_keys (fb_grants s)"
    using bt_values_distinct_keys [of "fb_grants s" le_handle] fake_issued_at(1) [OF assms] by blast
  then show "distinct (map le_handle (bt_values (fb_grants s)))" by (simp add: bt_keys_distinct)
qed

lemma fake_rows_account:
  assumes inv: "fake_inv s"
  shows "rows_account (fb_state s) (bt_values (fb_grants s)) (incomplete_list s) = fake_account s"
proof (rule account_eqI)
  fix h
  have "List.find (\<lambda>e. le_handle e = h) (bt_values (fb_grants s)) = Some e \<longleftrightarrow> bt_get (fb_grants s) h = Some e" for e
    using find_key_Some [OF fake_rows_distinct(1) [OF inv]] fake_issued_at(1) [OF inv]
    by (auto simp: bt_values_get)
  then have "List.find (\<lambda>e. le_handle e = h) (bt_values (fb_grants s)) = bt_get (fb_grants s) h"
    by (metis option.exhaust)
  moreover have "List.find (\<lambda>f. ie_handle f = h) (incomplete_list s) = Some f \<longleftrightarrow>
      map_option (\<lambda>u. \<lparr>ie_operation = uf_operation u\<rparr>) (bt_get (fb_incomplete s) h) = Some f" for f
    using find_key_Some [OF fake_rows_distinct(2) [OF inv]] fake_unfinished_at(1) [OF inv]
    by (auto simp: incomplete_list_mem ie_handle_def)
  then have "List.find (\<lambda>f. ie_handle f = h) (incomplete_list s) =
      map_option (\<lambda>u. \<lparr>ie_operation = uf_operation u\<rparr>) (bt_get (fb_incomplete s) h)"
    by (metis option.exhaust)
  ultimately show "acc_at (rows_account (fb_state s) (bt_values (fb_grants s)) (incomplete_list s)) h =
      acc_at (fake_account s) h"
    by (simp add: acc_at_def rows_account_def fake_account_def option.map_comp comp_def)
qed

text \<open>An account that satisfies the invariant passes every check of \<open>EnforcementSnapshot::new\<close>.\<close>

lemma fake_account_ok:
  assumes inv: "fake_inv s"
  shows "account_ok (fb_state s) (bt_values (fb_grants s)) (incomplete_list s)"
  using account_ok_rows [OF fake_inv_os_wf [OF inv] fake_rows_distinct [OF inv]]
    fake_rows_account [OF inv] inv
  by (simp add: fake_inv_def)

lemma fake_snapshot_Ok:
  assumes "fake_inv s" "fb_observation_fault s = None"
  shows "fake_snapshot_os_state s =
    (Ok \<lparr>sn_state = fb_state s, sn_grants = sort_key le_handle (bt_values (fb_grants s)),
         sn_incomplete = sort_key ie_handle (incomplete_list s)\<rparr>, s)"
proof -
  have "snapshot_new (fb_state s) (bt_values (fb_grants s)) (incomplete_list s) =
    Ok \<lparr>sn_state = fb_state s, sn_grants = sort_key le_handle (bt_values (fb_grants s)),
         sn_incomplete = sort_key ie_handle (incomplete_list s)\<rparr>"
    using snapshot_new_Ok_iff [OF fake_inv_os_wf] fake_account_ok assms(1) by blast
  with assms(2) show ?thesis by (simp add: fake_snapshot_os_state_def incomplete_list_def)
qed

definition fake_blind :: "fake_backend \<Rightarrow> bool" where
  "fake_blind s \<longleftrightarrow> fb_observation_fault s \<noteq> None"

interpretation fake: observable_backend
  fake_grant fake_revoke fake_apply fake_apply_removal fake_plant fake_inv fake_account fake_armed
  fake_snapshot_os_state fake_blind
proof unfold_locales
  fix s t :: fake_backend and sn
  assume inv: "fake_inv s" and run: "fake_snapshot_os_state s = (Ok sn, t)"
  then have "fb_observation_fault s = None" by (auto simp: fake_snapshot_os_state_def split: option.splits)
  with fake_snapshot_Ok [OF inv] run have sn: "sn = \<lparr>sn_state = fb_state s,
      sn_grants = sort_key le_handle (bt_values (fb_grants s)),
      sn_incomplete = sort_key ie_handle (incomplete_list s)\<rparr>"
    by simp
  have dist: "distinct (map le_handle (sn_grants sn))" "distinct (map ie_handle (sn_incomplete sn))"
    using fake_rows_distinct [OF inv] unfolding sn by (metis (no_types, lifting) enforcement_snapshot.select_convs mset_eq_imp_distinct_iff mset_map mset_sort)+
  have acc: "snapshot_account sn = rows_account (fb_state s) (bt_values (fb_grants s)) (incomplete_list s)"
    using find_key_cong [OF dist(1), of "bt_values (fb_grants s)"]
      find_key_cong [OF dist(2), of "incomplete_list s"]
    by (simp add: snapshot_account_def rows_account_def sn)
  have "account_ok (sn_state sn) (sn_grants sn) (sn_incomplete sn)"
    using account_ok_rows [OF _ dist] acc fake_rows_account [OF inv] inv fake_inv_os_wf [OF inv]
    by (simp add: snapshot_account_def fake_inv_def sn)
  with acc fake_rows_account [OF inv] fake_inv_os_wf [OF inv]
  show "snapshot_account sn = fake_account s \<and> os_wf (sn_state sn) \<and>
      account_ok (sn_state sn) (sn_grants sn) (sn_incomplete sn)"
    by (simp add: sn)
next
  fix s :: fake_backend
  assume "fake_inv s" "\<not> fake_blind s"
  then show "is_ok (fst (fake_snapshot_os_state s))"
    by (simp add: fake_blind_def fake_snapshot_Ok)
qed (auto simp: fake_snapshot_os_state_def fake_inv_def fake_account_def split: option.splits)

end
