(* ===== verification/Composite_Backend.thy ===== *)
theory Composite_Backend
  imports Fake_Backend
begin

text \<open>
  \<open>crates/plasmosome-backend/src/composite.rs\<close>: three leaf backends behind one, each call routed by
  the class of its address, and the joint observation that refuses a leaf reporting a class it does
  not own. A leaf is any backend that meets the contract; the composite is proved to meet it too.
\<close>

section \<open>Routing\<close>

record 's composite =
  co_network :: 's
  co_filesystem :: 's
  co_broker :: 's

fun leaf_for_class :: "universe_class \<Rightarrow> leaf" where
  "leaf_for_class ClsProxyMap = LeafNetwork"
| "leaf_for_class ClsUdsPath = LeafNetwork"
| "leaf_for_class ClsSessionFile = LeafFilesystem"
| "leaf_for_class ClsMount = LeafFilesystem"
| "leaf_for_class ClsBrokerPid = LeafBroker"

fun class_belongs_to :: "leaf \<Rightarrow> universe_class \<Rightarrow> bool" where
  "class_belongs_to LeafNetwork cls = (cls = ClsProxyMap \<or> cls = ClsUdsPath)"
| "class_belongs_to LeafFilesystem cls = (cls = ClsSessionFile \<or> cls = ClsMount)"
| "class_belongs_to LeafBroker cls = (cls = ClsBrokerPid)"

fun co_leaf :: "leaf \<Rightarrow> 's composite \<Rightarrow> 's" where
  "co_leaf LeafNetwork c = co_network c"
| "co_leaf LeafFilesystem c = co_filesystem c"
| "co_leaf LeafBroker c = co_broker c"

fun co_put :: "leaf \<Rightarrow> 's \<Rightarrow> 's composite \<Rightarrow> 's composite" where
  "co_put LeafNetwork s c = c\<lparr>co_network := s\<rparr>"
| "co_put LeafFilesystem s c = c\<lparr>co_filesystem := s\<rparr>"
| "co_put LeafBroker s c = c\<lparr>co_broker := s\<rparr>"

text \<open>A call through the mutable reference that \<open>leaf_for_class\<close> returns.\<close>

definition on_leaf :: "leaf \<Rightarrow> ('s \<Rightarrow> 'r \<times> 's) \<Rightarrow> 's composite \<Rightarrow> 'r \<times> 's composite" where
  "on_leaf leaf call c = (let (r, s) = call (co_leaf leaf c) in (r, co_put leaf s c))"

definition composite_grant ::
  "(universe_op \<Rightarrow> grant_kind \<Rightarrow> 's \<Rightarrow> (backend_error + ledger_entry) \<times> 's) \<Rightarrow>
   universe_op \<Rightarrow> grant_kind \<Rightarrow> 's composite \<Rightarrow> (backend_error + ledger_entry) \<times> 's composite" where
  "composite_grant grant p kind c = on_leaf (leaf_for_class (op_class p)) (grant p kind) c"

definition composite_revoke ::
  "(handle \<Rightarrow> drain_spec \<Rightarrow> 's \<Rightarrow> (backend_error + ledger_entry) \<times> 's) \<Rightarrow>
   handle \<Rightarrow> drain_spec \<Rightarrow> 's composite \<Rightarrow> (backend_error + ledger_entry) \<times> 's composite" where
  "composite_revoke revoke h drain c = on_leaf (leaf_for_class (handle_class h)) (revoke h drain) c"

definition composite_apply ::
  "(universe_op \<Rightarrow> 's \<Rightarrow> (backend_error + unit) \<times> 's) \<Rightarrow>
   universe_op \<Rightarrow> 's composite \<Rightarrow> (backend_error + unit) \<times> 's composite" where
  "composite_apply apply_op p c = on_leaf (leaf_for_class (op_class p)) (apply_op p) c"

definition composite_apply_removal ::
  "(universe_removal \<Rightarrow> cell_owner \<Rightarrow> drain_spec \<Rightarrow> 's \<Rightarrow> (backend_error + unit) \<times> 's) \<Rightarrow>
   universe_removal \<Rightarrow> cell_owner \<Rightarrow> drain_spec \<Rightarrow> 's composite \<Rightarrow> (backend_error + unit) \<times> 's composite" where
  "composite_apply_removal apply_removal r owner drain c =
     on_leaf (leaf_for_class (rem_class r)) (apply_removal r owner drain) c"

definition composite_plant ::
  "(os_object \<Rightarrow> 's \<Rightarrow> (backend_error + unit) \<times> 's) \<Rightarrow>
   os_object \<Rightarrow> 's composite \<Rightarrow> (backend_error + unit) \<times> 's composite" where
  "composite_plant plant ob c = on_leaf (leaf_for_class (obj_class ob)) (plant ob) c"

section \<open>Observation\<close>

definition leaf_snapshot ::
  "('s \<Rightarrow> (backend_error + enforcement_snapshot) \<times> 's) \<Rightarrow> leaf \<Rightarrow> 's composite \<Rightarrow>
   (backend_error + enforcement_snapshot) \<times> 's composite" where
  "leaf_snapshot snapshot leaf c = on_leaf leaf snapshot c"

definition only_its_own_classes :: "leaf \<Rightarrow> enforcement_snapshot \<Rightarrow> backend_error + unit" where
  "only_its_own_classes leaf observed =
     (case List.find (\<lambda>e. \<not> class_belongs_to leaf (handle_class (le_handle e))) (sn_grants observed) of
        Some e \<Rightarrow> Err (Fault (OutOfClass leaf (RowIssued (le_handle e) (le_owner e))))
      | None \<Rightarrow>
          (case List.find (\<lambda>ob. \<not> class_belongs_to leaf (obj_class ob)) (os_object_list (sn_state observed)) of
             Some ob \<Rightarrow> Err (Fault (OutOfClass leaf (RowObject ob)))
           | None \<Rightarrow>
               (case List.find (\<lambda>f. \<not> class_belongs_to leaf (handle_class (ie_handle f))) (sn_incomplete observed) of
                  Some f \<Rightarrow> Err (Fault (OutOfClass leaf (RowIncomplete (ie_handle f) (op_owner (ie_operation f)))))
                | None \<Rightarrow> Ok ())))"

text \<open>The inner loop: an object already present is refused like a conflicting one.\<close>

fun insert_rows :: "os_object list \<Rightarrow> os_state \<Rightarrow> backend_error + os_state" where
  "insert_rows [] st = Ok st"
| "insert_rows (ob # obs) st =
     (case os_insert ob st of
        (Inl x, st') \<Rightarrow> Err x
      | (Inr fresh, st') \<Rightarrow>
          if \<not> fresh then Err (IdentityConflict (class_as_str (obj_class ob)) (obj_id ob))
          else insert_rows obs st')"

fun observe_leaves ::
  "('s \<Rightarrow> (backend_error + enforcement_snapshot) \<times> 's) \<Rightarrow> leaf list \<Rightarrow>
   os_state \<Rightarrow> ledger_entry list \<Rightarrow> incomplete_effect list \<Rightarrow> 's composite \<Rightarrow>
   (backend_error + enforcement_snapshot) \<times> 's composite" where
  "observe_leaves snapshot [] st grants incomplete c = (snapshot_new st grants incomplete, c)"
| "observe_leaves snapshot (leaf # leaves) st grants incomplete c =
     (case leaf_snapshot snapshot leaf c of
        (Inl x, c') \<Rightarrow> (Err x, c')
      | (Inr observed, c') \<Rightarrow>
          (case and_then (only_its_own_classes leaf observed)
                  (\<lambda>_. insert_rows (os_object_list (sn_state observed)) st) of
             Inl x \<Rightarrow> (Err x, c')
           | Inr st' \<Rightarrow>
               observe_leaves snapshot leaves st' (grants @ sn_grants observed)
                 (incomplete @ sn_incomplete observed) c'))"

definition observe_every_leaf ::
  "('s \<Rightarrow> (backend_error + enforcement_snapshot) \<times> 's) \<Rightarrow> 's composite \<Rightarrow>
   (backend_error + enforcement_snapshot) \<times> 's composite" where
  "observe_every_leaf snapshot c =
     observe_leaves snapshot [LeafNetwork, LeafFilesystem, LeafBroker] os_new [] [] c"

definition composite_snapshot_os_state ::
  "('s \<Rightarrow> (backend_error + enforcement_snapshot) \<times> 's) \<Rightarrow> 's composite \<Rightarrow>
   (backend_error + enforcement_snapshot) \<times> 's composite" where
  "composite_snapshot_os_state snapshot c = observe_every_leaf snapshot c"

definition composite_new ::
  "('s \<Rightarrow> (backend_error + enforcement_snapshot) \<times> 's) \<Rightarrow> 's \<Rightarrow> 's \<Rightarrow> 's \<Rightarrow>
   backend_error + 's composite" where
  "composite_new snapshot network filesystem broker =
     (case observe_every_leaf snapshot
             \<lparr>co_network = network, co_filesystem = filesystem, co_broker = broker\<rparr> of
        (Inl x, _) \<Rightarrow> Err x
      | (Inr _, c) \<Rightarrow> Ok c)"

section \<open>The composite meets the contract\<close>

lemma class_belongs_to_iff: "class_belongs_to leaf cls \<longleftrightarrow> leaf_for_class cls = leaf"
  by (cases leaf; cases cls) auto

lemma co_leaf_put [simp]: "co_leaf l (co_put k s c) = (if l = k then s else co_leaf l c)"
  by (cases l; cases k) auto

lemma co_put_leaf [simp]: "co_put l (co_leaf l c) c = c"
  by (cases l) auto

lemma on_leaf_result [simp]: "fst (on_leaf l call c) = fst (call (co_leaf l c))"
  by (auto simp: on_leaf_def split: prod.splits)

lemma co_leaf_on_leaf:
  "co_leaf k (snd (on_leaf l call c)) = (if k = l then snd (call (co_leaf l c)) else co_leaf k c)"
  by (auto simp: on_leaf_def split: prod.splits)

text \<open>The account of the composite reads each address from the leaf its class is routed to.\<close>

definition composite_account :: "('s \<Rightarrow> account) \<Rightarrow> 's composite \<Rightarrow> account" where
  "composite_account account c =
     \<lparr>acc_standing = (\<lambda>h. acc_standing (account (co_leaf (leaf_for_class (handle_class h)) c)) h),
      acc_unfinished = (\<lambda>h. acc_unfinished (account (co_leaf (leaf_for_class (handle_class h)) c)) h),
      acc_issued = (\<lambda>h. acc_issued (account (co_leaf (leaf_for_class (handle_class h)) c)) h)\<rparr>"

definition composite_armed :: "('s \<Rightarrow> handle \<Rightarrow> bool) \<Rightarrow> 's composite \<Rightarrow> handle \<Rightarrow> bool" where
  "composite_armed armed c h = armed (co_leaf (leaf_for_class (handle_class h)) c) h"

text \<open>Every leaf keeps its own invariant and holds nothing of another leaf's classes.\<close>

definition confined :: "leaf \<Rightarrow> account \<Rightarrow> bool" where
  "confined leaf a \<longleftrightarrow> (\<forall>h. leaf_for_class (handle_class h) \<noteq> leaf \<longrightarrow> acc_vacant a h)"

definition composite_inv :: "('s \<Rightarrow> bool) \<Rightarrow> ('s \<Rightarrow> account) \<Rightarrow> 's composite \<Rightarrow> bool" where
  "composite_inv linv account c \<longleftrightarrow>
     (\<forall>leaf. linv (co_leaf leaf c) \<and> confined leaf (account (co_leaf leaf c)))"

lemma acc_at_composite:
  "acc_at (composite_account account c) h = acc_at (account (co_leaf (leaf_for_class (handle_class h)) c)) h"
  by (simp add: acc_at_def composite_account_def)

lemma handle_class_addresses [simp]:
  "handle_class (op_handle p) = op_class p"
  "handle_class (rem_handle r) = rem_class r"
  "handle_class (obj_handle ob) = obj_class ob"
  by (simp_all add: op_handle_def rem_handle_def obj_handle_def)

lemma acc_holds_at:
  "acc_holds a ob \<longleftrightarrow>
   fst (acc_at a (obj_handle ob)) = Some ob \<or> fst (snd (acc_at a (obj_handle ob))) = Some (obj_operation ob)"
  by (simp add: acc_holds_def acc_at_def)

lemma composite_vacant:
  "acc_vacant (composite_account account c) h \<longleftrightarrow>
   acc_vacant (account (co_leaf (leaf_for_class (handle_class h)) c)) h"
  by (simp add: acc_vacant_at acc_at_composite)

lemma composite_holds:
  "acc_holds (composite_account account c) ob \<longleftrightarrow>
   acc_holds (account (co_leaf (leaf_for_class (obj_class ob)) c)) ob"
  by (simp add: acc_holds_at acc_at_composite)

text \<open>
  A leaf transition that only touches one address of its own class is the same transition of the
  composite's account.
\<close>

lemma composite_account_leaf:
  assumes upd: "account t = f (account (co_leaf l c))"
    and own: "leaf_for_class (handle_class k) = l"
    and frame: "\<And>a h. h \<noteq> k \<Longrightarrow> acc_at (f a) h = acc_at a h"
    and local: "\<And>a b. acc_at a k = acc_at b k \<Longrightarrow> acc_at (f a) k = acc_at (f b) k"
  shows "composite_account account (co_put l t c) = f (composite_account account c)"
proof (rule account_eqI)
  fix h
  show "acc_at (composite_account account (co_put l t c)) h = acc_at (f (composite_account account c)) h"
  proof (cases "h = k")
    case True
    have "acc_at (account (co_leaf l c)) k = acc_at (composite_account account c) k"
      using own by (simp add: acc_at_composite)
    from local [OF this] True own upd show ?thesis by (simp add: acc_at_composite)
  next
    case False
    then show ?thesis by (simp add: acc_at_composite frame upd)
  qed
qed

lemma acc_at_own:
  "acc_at a (op_handle p) = acc_at b (op_handle p) \<Longrightarrow>
   acc_at (acc_grant p e a) (op_handle p) = acc_at (acc_grant p e b) (op_handle p)"
  "acc_at a (op_handle p) = acc_at b (op_handle p) \<Longrightarrow>
   acc_at (acc_apply p a) (op_handle p) = acc_at (acc_apply p b) (op_handle p)"
  "acc_at a (op_handle p) = acc_at b (op_handle p) \<Longrightarrow>
   acc_at (acc_begin p a) (op_handle p) = acc_at (acc_begin p b) (op_handle p)"
  "acc_at (acc_clear k a) k = acc_at (acc_clear k b) k"
  "acc_at a (obj_handle ob) = acc_at b (obj_handle ob) \<Longrightarrow>
   acc_at (acc_strand ob a) (obj_handle ob) = acc_at (acc_strand ob b) (obj_handle ob)"
  by (simp_all add: acc_at_def acc_grant_def acc_apply_def acc_begin_def acc_clear_def acc_strand_def)

lemma composite_transitions:
  "account t = acc_grant p e (account (co_leaf (leaf_for_class (op_class p)) c)) \<Longrightarrow>
   composite_account account (co_put (leaf_for_class (op_class p)) t c) =
   acc_grant p e (composite_account account c)"
  "account t = acc_apply p (account (co_leaf (leaf_for_class (op_class p)) c)) \<Longrightarrow>
   composite_account account (co_put (leaf_for_class (op_class p)) t c) =
   acc_apply p (composite_account account c)"
  "account t = acc_begin p (account (co_leaf (leaf_for_class (op_class p)) c)) \<Longrightarrow>
   composite_account account (co_put (leaf_for_class (op_class p)) t c) =
   acc_begin p (composite_account account c)"
  by (erule composite_account_leaf [where k = "op_handle p" and f = "acc_grant p e"]
        composite_account_leaf [where k = "op_handle p" and f = "acc_apply p"]
        composite_account_leaf [where k = "op_handle p" and f = "acc_begin p"],
      simp, erule acc_at_others, erule acc_at_own)+

lemma composite_removals:
  "account t = acc_clear (rem_handle r) (account (co_leaf (leaf_for_class (rem_class r)) c)) \<Longrightarrow>
   composite_account account (co_put (leaf_for_class (rem_class r)) t c) =
   acc_clear (rem_handle r) (composite_account account c)"
  by (erule composite_account_leaf [where k = "rem_handle r"])
    (simp, erule acc_at_others, rule acc_at_own)

lemma composite_strand:
  "account t = acc_strand (removed_object r owner) (account (co_leaf (leaf_for_class (rem_class r)) c)) \<Longrightarrow>
   composite_account account (co_put (leaf_for_class (rem_class r)) t c) =
   acc_strand (removed_object r owner) (composite_account account c)"
  by (erule composite_account_leaf [where k = "obj_handle (removed_object r owner)"])
    (simp, erule acc_at_others, erule acc_at_own)

lemma composite_account_same:
  "account t = account (co_leaf l c) \<Longrightarrow> composite_account account (co_put l t c) = composite_account account c"
  by (rule account_eqI) (simp add: acc_at_composite)

lemma composite_account_on_leaf:
  "account (snd (call (co_leaf l c))) = account (co_leaf l c) \<Longrightarrow>
   composite_account account (snd (on_leaf l call c)) = composite_account account c"
  by (rule account_eqI) (simp add: acc_at_composite co_leaf_on_leaf)

lemma confined_frame:
  assumes "confined l a" "leaf_for_class (handle_class k) = l" "\<And>h. h \<noteq> k \<Longrightarrow> acc_at b h = acc_at a h"
  shows "confined l b"
  unfolding confined_def
proof (intro allI impI)
  fix h
  assume "leaf_for_class (handle_class h) \<noteq> l"
  then show "acc_vacant b h"
    using assms by (cases "h = k") (auto simp: confined_def acc_vacant_at)
qed

lemma composite_inv_on_leaf:
  assumes "composite_inv linv account c" "linv (snd (call (co_leaf l c)))"
    and "confined l (account (snd (call (co_leaf l c))))"
  shows "composite_inv linv account (snd (on_leaf l call c))"
  using assms by (auto simp: composite_inv_def co_leaf_on_leaf)


lemma on_leaf_eq:
  "on_leaf l call c = (r, c') \<longleftrightarrow>
   (\<exists>t. call (co_leaf l c) = (r, t) \<and> c' = co_put l t c)"
  by (auto simp: on_leaf_def split: prod.splits)

lemmas composite_ops_def =
  composite_grant_def composite_revoke_def composite_apply_def composite_apply_removal_def composite_plant_def

context enforcement_backend
begin

lemma composite_inv_ops:
  assumes c: "composite_inv inv account c"
  shows "composite_inv inv account (snd (composite_grant grant p kind c))"
    and "composite_inv inv account (snd (composite_revoke revoke h d c))"
    and "composite_inv inv account (snd (composite_apply apply_op p c))"
    and "composite_inv inv account (snd (composite_apply_removal apply_removal r owner d c))"
    and "composite_inv inv account (snd (composite_plant plant ob c))"
proof -
  have leaf: "inv (co_leaf l c)" "confined l (account (co_leaf l c))" for l
    using c by (simp_all add: composite_inv_def)
  note step = composite_inv_on_leaf [OF c] and frame = confined_frame [OF leaf(2)]
  show "composite_inv inv account (snd (composite_grant grant p kind c))"
    unfolding composite_ops_def
    by (intro step inv_grant leaf frame [of "op_handle p"] grant_frame) auto
  show "composite_inv inv account (snd (composite_revoke revoke h d c))"
    unfolding composite_ops_def by (intro step inv_revoke leaf frame [of h] revoke_frame) auto
  show "composite_inv inv account (snd (composite_apply apply_op p c))"
    unfolding composite_ops_def by (intro step inv_apply leaf frame [of "op_handle p"] apply_frame) auto
  show "composite_inv inv account (snd (composite_apply_removal apply_removal r owner d c))"
    unfolding composite_ops_def by (intro step inv_removal leaf frame [of "rem_handle r"] removal_frame) auto
  show "composite_inv inv account (snd (composite_plant plant ob c))"
    unfolding composite_ops_def by (intro step inv_plant leaf frame [of "obj_handle ob"] plant_frame) auto
qed

lemma composite_leaf_inv: "composite_inv inv account c \<Longrightarrow> inv (co_leaf l c)"
  by (simp add: composite_inv_def)

lemma composite_revoke_issued:
  assumes c: "composite_inv inv account c" and e: "acc_issued (composite_account account c) h = Some e"
  shows "fst (composite_revoke revoke h d c) =
      and_then (fst (composite_apply_removal apply_removal (le_removal e) (le_owner e) d c)) (\<lambda>_. Ok e)"
    and "composite_account account (snd (composite_revoke revoke h d c)) =
      composite_account account (snd (composite_apply_removal apply_removal (le_removal e) (le_owner e) d c))"
    and "composite_armed armed (snd (composite_revoke revoke h d c)) =
      composite_armed armed (snd (composite_apply_removal apply_removal (le_removal e) (le_owner e) d c))"
proof -
  let ?l = "leaf_for_class (handle_class h)"
  have e': "acc_issued (account (co_leaf ?l c)) h = Some e"
    using e by (simp add: composite_account_def)
  note row = issued_row [OF composite_leaf_inv [OF c] e']
  note rev = revoke_issued [OF composite_leaf_inv [OF c] e', of d]
  have l: "leaf_for_class (rem_class (le_removal e)) = ?l" using row by (metis handle_class_addresses(2))
  have leaves: "account (co_leaf k (snd (on_leaf ?l (revoke h d) c))) =
      account (co_leaf k (snd (on_leaf ?l (apply_removal (le_removal e) (le_owner e) d) c)))"
    "armed (co_leaf k (snd (on_leaf ?l (revoke h d) c))) =
      armed (co_leaf k (snd (on_leaf ?l (apply_removal (le_removal e) (le_owner e) d) c)))" for k
    using rev by (simp_all add: co_leaf_on_leaf)
  show "fst (composite_revoke revoke h d c) =
      and_then (fst (composite_apply_removal apply_removal (le_removal e) (le_owner e) d c)) (\<lambda>_. Ok e)"
    using rev l by (simp add: composite_ops_def)
  show "composite_account account (snd (composite_revoke revoke h d c)) =
      composite_account account (snd (composite_apply_removal apply_removal (le_removal e) (le_owner e) d c))"
    using leaves(1) l by (intro account_eqI) (simp add: acc_at_composite composite_ops_def)
  show "composite_armed armed (snd (composite_revoke revoke h d c)) =
      composite_armed armed (snd (composite_apply_removal apply_removal (le_removal e) (le_owner e) d c))"
    using leaves(2) l by (simp add: fun_eq_iff composite_armed_def composite_ops_def)
qed

lemma composite_contract:
  "enforcement_backend (composite_grant grant) (composite_revoke revoke) (composite_apply apply_op)
     (composite_apply_removal apply_removal) (composite_plant plant) (composite_inv inv account)
     (composite_account account) (composite_armed armed)"
proof unfold_locales
  fix c c' :: "'s composite" and p kind e
  assume c: "composite_inv inv account c" and "acc_vacant (composite_account account c) (op_handle p)"
    "composite_grant grant p kind c = (Ok e, c')"
  then show "e = entry_of p kind \<and> composite_account account c' = acc_grant p e (composite_account account c)"
    using grant_vacant [OF composite_leaf_inv [OF c], of _ p]
    by (auto simp: composite_vacant composite_ops_def on_leaf_eq intro!: composite_transitions)
next
  fix c :: "'s composite" and p kind
  assume c: "composite_inv inv account c" and "\<not> acc_vacant (composite_account account c) (op_handle p)"
  then show "composite_account account (snd (composite_grant grant p kind c)) = composite_account account c"
    using grant_occupied [OF composite_leaf_inv [OF c], of _ p]
    by (simp add: composite_vacant composite_ops_def composite_account_on_leaf)
next
  fix c c' :: "'s composite" and p kind x
  assume c: "composite_inv inv account c" and run: "composite_grant grant p kind c = (Err x, c')"
  from run obtain t where t: "grant p kind (co_leaf (leaf_for_class (op_class p)) c) = (Err x, t)"
    "c' = co_put (leaf_for_class (op_class p)) t c"
    by (auto simp: composite_ops_def on_leaf_eq)
  from grant_Err [OF composite_leaf_inv [OF c] t(1)] t(2)
  show "composite_account account c' = composite_account account c \<or>
      (\<exists>detail. x = IncompleteEffectErr (class_as_str (op_class p)) (op_id p) detail \<and>
        composite_account account c' = acc_begin p (composite_account account c))"
    by (auto intro: composite_account_same composite_transitions)
next
  fix c c' :: "'s composite" and p u
  assume c: "composite_inv inv account c" and "acc_vacant (composite_account account c) (op_handle p)"
    "composite_apply apply_op p c = (Ok u, c')"
  then show "composite_account account c' = acc_apply p (composite_account account c)"
    using apply_vacant [OF composite_leaf_inv [OF c], of _ p]
    by (auto simp: composite_vacant composite_ops_def on_leaf_eq intro!: composite_transitions)
next
  fix c :: "'s composite" and p h
  assume c: "composite_inv inv account c" and "h \<noteq> op_handle p"
  then show "acc_at (composite_account account (snd (composite_apply apply_op p c))) h =
      acc_at (composite_account account c) h"
    using apply_frame [OF composite_leaf_inv [OF c]]
    by (auto simp: acc_at_composite composite_ops_def co_leaf_on_leaf)
next
  fix c :: "'s composite" and ob h
  assume c: "composite_inv inv account c" and "h \<noteq> obj_handle ob"
  then show "acc_at (composite_account account (snd (composite_plant plant ob c))) h =
      acc_at (composite_account account c) h"
    using plant_frame [OF composite_leaf_inv [OF c]]
    by (auto simp: acc_at_composite composite_ops_def co_leaf_on_leaf)
next
  fix c c' :: "'s composite" and r owner d u
  assume c: "composite_inv inv account c" and "composite_apply_removal apply_removal r owner d c = (Ok u, c')"
  then show "acc_holds (composite_account account c) (removed_object r owner) \<and>
      composite_account account c' = acc_clear (rem_handle r) (composite_account account c)"
    using removal_Ok [OF composite_leaf_inv [OF c], where r = r and owner = owner]
    by (auto simp: composite_holds composite_ops_def on_leaf_eq obj_class_def rem_class_def
        intro!: composite_removals [unfolded rem_class_def])
next
  fix c c' :: "'s composite" and r owner d x
  assume c: "composite_inv inv account c"
    and run: "composite_apply_removal apply_removal r owner d c = (Err x, c')"
  from run obtain t where t: "apply_removal r owner d (co_leaf (leaf_for_class (rem_class r)) c) = (Err x, t)"
    "c' = co_put (leaf_for_class (rem_class r)) t c"
    by (auto simp: composite_ops_def on_leaf_eq)
  from removal_Err [OF composite_leaf_inv [OF c] t(1)] t(2)
  show "composite_account account c' = composite_account account c \<or>
      (\<exists>detail. x = IncompleteEffectErr (class_as_str (rem_class r)) (rem_id r) detail \<and>
        acc_holds (composite_account account c) (removed_object r owner) \<and>
        composite_account account c' = acc_strand (removed_object r owner) (composite_account account c))"
    by (auto simp: composite_holds obj_class_def rem_class_def
        intro: composite_account_same composite_strand [unfolded rem_class_def])
next
  fix c :: "'s composite" and r owner and d :: drain_spec
  assume c: "composite_inv inv account c"
    and "\<not> acc_holds (composite_account account c) (removed_object r owner)"
  then show "composite_apply_removal apply_removal r owner d c =
      (Err (UnknownObject (class_as_str (rem_class r)) (rem_key r) owner (rem_id r)), c)"
    using removal_unheld [OF composite_leaf_inv [OF c], where r = r and owner = owner]
    by (auto simp: composite_holds composite_ops_def on_leaf_def obj_class_def rem_class_def)
next
  fix c :: "'s composite" and r owner and d :: drain_spec
  assume c: "composite_inv inv account c"
    and "acc_holds (composite_account account c) (removed_object r owner)" "ds_policy d = Force"
      "\<not> composite_armed armed c (rem_handle r)"
  then show "is_ok (fst (composite_apply_removal apply_removal r owner d c))"
    using removal_forced [OF composite_leaf_inv [OF c], where r = r and owner = owner]
    by (auto simp: composite_holds composite_ops_def composite_armed_def obj_class_def rem_class_def)
next
  fix c :: "'s composite" and r owner d h
  assume "composite_armed armed (snd (composite_apply_removal apply_removal r owner d c)) h"
  then show "composite_armed armed c h"
    by (auto simp: composite_armed_def composite_ops_def co_leaf_on_leaf split: if_splits dest: armed_removal)
next
  fix c :: "'s composite" and h d
  assume "acc_issued (composite_account account c) h = None"
  then show "composite_revoke revoke h d c = (Err (UnknownHandle h), c)"
    by (simp add: composite_ops_def on_leaf_def composite_account_def revoke_unknown)
next
  fix c :: "'s composite" and h e
  assume c: "composite_inv inv account c" and e: "acc_issued (composite_account account c) h = Some e"
  then have "acc_issued (account (co_leaf (leaf_for_class (handle_class h)) c)) h = Some e"
    by (simp add: composite_account_def)
  from issued_row [OF composite_leaf_inv [OF c] this]
  show "le_handle e = h \<and> rem_handle (le_removal e) = h \<and>
      acc_holds (composite_account account c) (removed_object (le_removal e) (le_owner e))"
    by (auto simp: composite_holds obj_class_def)
      (metis handle_class_addresses(2) le_removal_sel(2) rem_class_def)
qed (use composite_inv_ops composite_revoke_issued in auto)

end

section \<open>The joint observation\<close>

lemma only_its_own_classes_Ok:
  "only_its_own_classes leaf sn = Ok u \<longleftrightarrow>
   (\<forall>e \<in> set (sn_grants sn). leaf_for_class (handle_class (le_handle e)) = leaf) \<and>
   (\<forall>ob \<in> set (os_object_list (sn_state sn)). leaf_for_class (obj_class ob) = leaf) \<and>
   (\<forall>f \<in> set (sn_incomplete sn). leaf_for_class (handle_class (ie_handle f)) = leaf)"
  by (auto simp: only_its_own_classes_def class_belongs_to_iff find_NoneD split: option.splits
      dest: find_SomeD)

text \<open>Rows at distinct, free addresses are all inserted, and nothing else is.\<close>

lemma insert_rows_fresh:
  assumes "distinct (map obj_handle obs)" "\<forall>ob \<in> set obs. standing st (obj_handle ob) = None" "os_wf st"
  shows "\<exists>st'. insert_rows obs st = Ok st' \<and> os_wf st' \<and>
    (\<forall>h. standing st' h = (case List.find (\<lambda>ob. obj_handle ob = h) obs of Some ob \<Rightarrow> Some ob | None \<Rightarrow> standing st h))"
  using assms
proof (induction obs arbitrary: st)
  case (Cons ob obs)
  then have free: "standing st (obj_handle ob) = None" by simp
  obtain st1 where st1: "os_insert ob st = (Ok True, st1)"
    using os_insert_fresh(1) [OF free] by (cases "os_insert ob st") auto
  have upd: "standing st1 = (standing st)(obj_handle ob \<mapsto> ob)"
    using os_insert_fresh(2) [OF free] st1 by simp
  have "\<forall>ob' \<in> set obs. standing st1 (obj_handle ob') = None"
    using Cons.prems upd by (auto simp: image_iff)
  moreover have "os_wf st1" using os_wf_insert [OF Cons.prems(3), of ob] st1 by simp
  ultimately obtain st' where st': "insert_rows obs st1 = Ok st'" "os_wf st'"
    "\<forall>h. standing st' h = (case List.find (\<lambda>ob. obj_handle ob = h) obs of Some ob \<Rightarrow> Some ob | None \<Rightarrow> standing st1 h)"
    using Cons.IH [of st1] Cons.prems(1) by auto
  have "List.find (\<lambda>ob'. obj_handle ob' = obj_handle ob) obs = None"
    using Cons.prems(1) by (simp add: find_NoneD) (metis image_eqI)
  with st' st1 upd show ?case by (auto split: option.splits)
qed simp

lemma find_standing:
  assumes "os_wf st"
  shows "List.find (\<lambda>ob. obj_handle ob = h) (os_object_list st) = standing st h"
proof -
  have "List.find (\<lambda>ob. obj_handle ob = h) (os_object_list st) = Some ob \<longleftrightarrow> standing st h = Some ob" for ob
    using find_key_Some [OF distinct_os_handles [OF assms]] assms
    by (auto simp: os_object_list_standing os_wf_iff)
  then show ?thesis by (metis option.exhaust)
qed

text \<open>What has been gathered after some leaves: their rows and no others.\<close>

definition gathered ::
  "leaf set \<Rightarrow> account \<Rightarrow> os_state \<Rightarrow> ledger_entry list \<Rightarrow> incomplete_effect list \<Rightarrow> bool" where
  "gathered leaves a st grants incomplete \<longleftrightarrow>
     os_wf st \<and> distinct (map le_handle grants) \<and> distinct (map ie_handle incomplete) \<and>
     account_inv (rows_account st grants incomplete) \<and>
     (\<forall>h. acc_at (rows_account st grants incomplete) h =
        (if leaf_for_class (handle_class h) \<in> leaves then acc_at a h else (None, None, None)))"

lemma gathered_step:
  assumes g: "gathered ls a st grants incomplete" and new: "l \<notin> ls"
    and wf: "os_wf (sn_state sn)" and ok: "account_ok (sn_state sn) (sn_grants sn) (sn_incomplete sn)"
    and own: "only_its_own_classes l sn = Ok ()"
    and acc: "\<And>h. leaf_for_class (handle_class h) = l \<Longrightarrow> acc_at (snapshot_account sn) h = acc_at a h"
  shows "\<exists>st'. insert_rows (os_object_list (sn_state sn)) st = Ok st' \<and>
    gathered (insert l ls) a st' (grants @ sn_grants sn) (incomplete @ sn_incomplete sn)"
proof -
  have here: "standing st h = None" "h \<notin> le_handle ` set grants" "h \<notin> ie_handle ` set incomplete"
    if "leaf_for_class (handle_class h) = l" for h
  proof -
    have "acc_at (rows_account st grants incomplete) h = (None, None, None)"
      using g that new by (simp add: gathered_def)
    then show "standing st h = None" "h \<notin> le_handle ` set grants" "h \<notin> ie_handle ` set incomplete"
      by (auto simp: acc_at_def rows_account_def find_NoneD)
  qed
  have rows: "leaf_for_class (handle_class (le_handle e)) = l" if "e \<in> set (sn_grants sn)" for e
    using own that by (auto simp: only_its_own_classes_Ok)
  have effects: "leaf_for_class (handle_class (ie_handle f)) = l" if "f \<in> set (sn_incomplete sn)" for f
    using own that by (auto simp: only_its_own_classes_Ok)
  have objects: "leaf_for_class (handle_class h) = l" if "standing (sn_state sn) h = Some ob" for h ob
    using own that wf handle_class_addresses(3) [of ob]
    by (auto simp: only_its_own_classes_Ok set_os_object_list os_wf_iff)
  have "\<forall>ob \<in> set (os_object_list (sn_state sn)). standing st (obj_handle ob) = None"
    using own here(1) by (auto simp: only_its_own_classes_Ok)
  then obtain st' where ins: "insert_rows (os_object_list (sn_state sn)) st = Ok st'" "os_wf st'"
    and st': "\<And>h. standing st' h =
      (case standing (sn_state sn) h of Some ob \<Rightarrow> Some ob | None \<Rightarrow> standing st h)"
    using insert_rows_fresh [OF distinct_os_handles [OF wf], of st] g
    unfolding gathered_def find_standing [OF wf] by blast
  have "le_handle ` set grants \<inter> le_handle ` set (sn_grants sn) = {}"
    "ie_handle ` set incomplete \<inter> ie_handle ` set (sn_incomplete sn) = {}"
    using here(2) [OF rows] here(3) [OF effects] unfolding disjoint_iff by (metis imageE)+
  moreover have find_append: "List.find P (xs @ ys) = (case List.find P xs of Some x \<Rightarrow> Some x | None \<Rightarrow> List.find P ys)"
    for P xs and ys :: "'x list" by (induction xs) auto
  have at: "acc_at (rows_account st' (grants @ sn_grants sn) (incomplete @ sn_incomplete sn)) h =
      (if leaf_for_class (handle_class h) \<in> insert l ls then acc_at a h else (None, None, None))" for h
  proof (cases "leaf_for_class (handle_class h) = l")
    case True
    then have "List.find (\<lambda>e. le_handle e = h) grants = None" "List.find (\<lambda>f. ie_handle f = h) incomplete = None"
      using here(2,3) [OF True] by (auto simp: find_NoneD)
    with True here(1) st' acc [OF True] show ?thesis
      by (auto simp: acc_at_def rows_account_def snapshot_account_def find_append split: option.splits)
  next
    case False
    then have "List.find (\<lambda>e. le_handle e = h) (sn_grants sn) = None"
      "List.find (\<lambda>f. ie_handle f = h) (sn_incomplete sn) = None" "standing (sn_state sn) h = None"
      using rows effects objects [of h] by (auto simp: find_NoneD intro: option.exhaust)
    then have "acc_at (rows_account st' (grants @ sn_grants sn) (incomplete @ sn_incomplete sn)) h =
        acc_at (rows_account st grants incomplete) h"
      by (simp add: acc_at_def rows_account_def find_append st' split: option.splits)
    with g False show ?thesis by (simp add: gathered_def)
  qed
  moreover have "account_inv (snapshot_account sn)" "account_inv (rows_account st grants incomplete)"
    using account_inv_rows [OF wf ok] g by (simp_all add: snapshot_account_def gathered_def)
  then have "account_inv (rows_account st' (grants @ sn_grants sn) (incomplete @ sn_incomplete sn))"
    by (rule account_inv_pick) (use at acc g in \<open>auto simp: gathered_def\<close>)
  ultimately show ?thesis
    using ins g ok by (auto simp: gathered_def account_ok_def)
qed

definition composite_blind :: "('s \<Rightarrow> bool) \<Rightarrow> 's composite \<Rightarrow> bool" where
  "composite_blind blind c \<longleftrightarrow> (\<exists>leaf. blind (co_leaf leaf c))"

context observable_backend
begin

lemma leaf_snapshot_keeps:
  assumes c: "composite_inv inv account c" and run: "leaf_snapshot snapshot l c = (r, c')"
  shows "composite_inv inv account c'" "composite_account account c' = composite_account account c"
    and "k \<noteq> l \<Longrightarrow> co_leaf k c' = co_leaf k c"
proof -
  have c': "c' = snd (on_leaf l snapshot c)" using run by (simp add: leaf_snapshot_def)
  show "composite_inv inv account c'"
    unfolding c' by (rule composite_inv_on_leaf [OF c])
      (use c in \<open>auto simp: composite_inv_def account_snapshot inv_snapshot\<close>)
  show "composite_account account c' = composite_account account c"
    unfolding c' by (rule composite_account_on_leaf) (rule account_snapshot [OF composite_leaf_inv [OF c]])
  show "k \<noteq> l \<Longrightarrow> co_leaf k c' = co_leaf k c"
    unfolding c' by (simp add: co_leaf_on_leaf)
qed

lemma leaf_snapshot_sees:
  assumes c: "composite_inv inv account c" and run: "leaf_snapshot snapshot l c = (Ok sn, c')"
  shows "os_wf (sn_state sn)" "account_ok (sn_state sn) (sn_grants sn) (sn_incomplete sn)"
    and "only_its_own_classes l sn = Ok ()"
    and "leaf_for_class (handle_class h) = l \<Longrightarrow>
      acc_at (snapshot_account sn) h = acc_at (composite_account account c) h"
proof -
  obtain t where "snapshot (co_leaf l c) = (Ok sn, t)"
    using run by (auto simp: leaf_snapshot_def on_leaf_eq)
  with snapshot_Ok [OF composite_leaf_inv [OF c]]
  have sees: "snapshot_account sn = account (co_leaf l c)" "os_wf (sn_state sn)"
    "account_ok (sn_state sn) (sn_grants sn) (sn_incomplete sn)" by blast+
  then show "os_wf (sn_state sn)" "account_ok (sn_state sn) (sn_grants sn) (sn_incomplete sn)" by simp_all
  show "leaf_for_class (handle_class h) = l \<Longrightarrow>
      acc_at (snapshot_account sn) h = acc_at (composite_account account c) h"
    using sees(1) by (simp add: acc_at_composite)
  have "confined l (account (co_leaf l c))" using c by (simp add: composite_inv_def)
  then have vac: "acc_vacant (snapshot_account sn) k" if "leaf_for_class (handle_class k) \<noteq> l" for k
    using that sees(1) by (simp add: confined_def)
  show "only_its_own_classes l sn = Ok ()"
    unfolding only_its_own_classes_Ok
  proof (intro conjI ballI)
    show "leaf_for_class (handle_class (le_handle e)) = l" if "e \<in> set (sn_grants sn)" for e
      using vac [of "le_handle e"] that
      by (auto simp: acc_vacant_def snapshot_account_def rows_account_def find_NoneD)
    show "leaf_for_class (obj_class ob) = l" if "ob \<in> set (os_object_list (sn_state sn))" for ob
      using vac [of "obj_handle ob"] that sees(2)
      by (auto simp: acc_vacant_def snapshot_account_def rows_account_def os_object_list_standing)
    show "leaf_for_class (handle_class (ie_handle f)) = l" if "f \<in> set (sn_incomplete sn)" for f
      using vac [of "ie_handle f"] that
      by (auto simp: acc_vacant_def snapshot_account_def rows_account_def find_NoneD)
  qed
qed

text \<open>Everything gathered is the whole account, and \<open>EnforcementSnapshot::new\<close> accepts it.\<close>

lemma gathered_all:
  assumes g: "gathered UNIV a st grants incomplete"
  shows "\<exists>sn. snapshot_new st grants incomplete = Ok sn \<and> snapshot_account sn = a \<and> os_wf (sn_state sn) \<and>
    account_ok (sn_state sn) (sn_grants sn) (sn_incomplete sn)"
proof -
  let ?sn = "\<lparr>sn_state = st, sn_grants = sort_key le_handle grants,
    sn_incomplete = sort_key ie_handle incomplete\<rparr>"
  have wf: "os_wf st" and inv: "account_inv (rows_account st grants incomplete)"
    and dist: "distinct (map le_handle grants)" "distinct (map ie_handle incomplete)"
    and at: "acc_at (rows_account st grants incomplete) h = acc_at a h" for h
    using g by (simp_all add: gathered_def)
  have sorted_dist: "distinct (map le_handle (sn_grants ?sn))" "distinct (map ie_handle (sn_incomplete ?sn))"
    using dist by (simp_all, (metis mset_eq_imp_distinct_iff mset_map mset_sort)+)
  have same: "snapshot_account ?sn = rows_account st grants incomplete"
    using find_key_cong [OF dist(1), of "sort_key le_handle grants"]
      find_key_cong [OF dist(2), of "sort_key ie_handle incomplete"]
    by (simp add: snapshot_account_def rows_account_def)
  have "snapshot_new st grants incomplete = Ok ?sn"
    using snapshot_new_Ok_iff [OF wf] account_ok_rows [OF wf dist inv] by blast
  moreover have "account_ok (sn_state ?sn) (sn_grants ?sn) (sn_incomplete ?sn)"
    using account_ok_rows [OF _ sorted_dist] wf same inv by (simp add: snapshot_account_def)
  moreover have "rows_account st grants incomplete = a" using at by (rule account_eqI)
  ultimately show ?thesis using wf same by auto
qed

lemma observe_leaves_Ok:
  assumes "composite_inv inv account c" "gathered ls (composite_account account c) st grants incomplete"
    and "distinct leaves" "set leaves \<inter> ls = {}" "set leaves \<union> ls = UNIV"
    and "observe_leaves snapshot leaves st grants incomplete c = (r, c')"
  shows "composite_inv inv account c' \<and> composite_account account c' = composite_account account c \<and>
    ((\<forall>l \<in> set leaves. \<not> blind (co_leaf l c)) \<longrightarrow> is_ok r) \<and>
    (\<forall>sn. r = Ok sn \<longrightarrow> snapshot_account sn = composite_account account c \<and> os_wf (sn_state sn) \<and>
      account_ok (sn_state sn) (sn_grants sn) (sn_incomplete sn))"
  using assms
proof (induction leaves arbitrary: ls st grants incomplete c)
  case Nil
  then show ?case using gathered_all by fastforce
next
  case (Cons l leaves)
  note c = Cons.prems(1)
  obtain x c1 where snap: "leaf_snapshot snapshot l c = (x, c1)" by (cases "leaf_snapshot snapshot l c")
  note keeps = leaf_snapshot_keeps [OF c snap]
  show ?case
  proof (cases x)
    case (Inl e)
    moreover have "is_ok x" if "\<not> blind (co_leaf l c)"
      using snapshot_total [OF composite_leaf_inv [OF c] that] snap
      by (auto simp: leaf_snapshot_def dest: arg_cong [where f = fst])
    ultimately show ?thesis using Cons.prems(6) snap keeps(1,2) by auto
  next
    case (Inr sn)
    note sees = leaf_snapshot_sees [OF c snap [unfolded Inr]]
    obtain st' where st': "insert_rows (os_object_list (sn_state sn)) st = Ok st'"
      "gathered (insert l ls) (composite_account account c1) st' (grants @ sn_grants sn)
         (incomplete @ sn_incomplete sn)"
      using gathered_step [OF Cons.prems(2) _ sees(1,2,3,4)] Cons.prems(4) keeps(2) by auto
    have "observe_leaves snapshot leaves st' (grants @ sn_grants sn) (incomplete @ sn_incomplete sn) c1 = (r, c')"
      using Cons.prems(6) snap Inr st'(1) sees(3) by simp
    note ih = Cons.IH [OF keeps(1) st'(2) _ _ _ this]
    have "co_leaf k c1 = co_leaf k c" if "k \<in> set leaves" for k
      using keeps(3) [of k] Cons.prems(3) that by auto
    with ih Cons.prems(3-5) keeps(2) show ?thesis by auto
  qed
qed

lemma composite_observable:
  "observable_backend (composite_grant grant) (composite_revoke revoke) (composite_apply apply_op)
     (composite_apply_removal apply_removal) (composite_plant plant) (composite_inv inv account)
     (composite_account account) (composite_armed armed) (composite_snapshot_os_state snapshot)
     (composite_blind blind)"
proof -
  have start: "gathered {} a os_new [] []" for a
    by (simp add: gathered_def acc_at_def rows_account_def account_inv_def)
  have leaves: "set [LeafNetwork, LeafFilesystem, LeafBroker] \<union> {} = UNIV"
    using leaf.exhaust by auto
  have all_leaves: "(\<forall>l. \<not> blind (co_leaf l c)) \<longleftrightarrow>
      \<not> blind (co_network c) \<and> \<not> blind (co_filesystem c) \<and> \<not> blind (co_broker c)" for c
    by (metis co_leaf.simps leaf.exhaust)
  have run: "composite_inv inv account c' \<and> composite_account account c' = composite_account account c \<and>
      (\<not> composite_blind blind c \<longrightarrow> is_ok r) \<and>
      (\<forall>sn. r = Ok sn \<longrightarrow> snapshot_account sn = composite_account account c \<and> os_wf (sn_state sn) \<and>
        account_ok (sn_state sn) (sn_grants sn) (sn_incomplete sn))"
    if "composite_inv inv account c" "composite_snapshot_os_state snapshot c = (r, c')" for c r c'
    using observe_leaves_Ok [OF that(1) start _ _ leaves, of r c'] that(2)
      all_leaves
    unfolding composite_snapshot_os_state_def observe_every_leaf_def composite_blind_def
    by (simp del: observe_leaves.simps)
  have "observable_backend_axioms (composite_inv inv account) (composite_account account)
      (composite_snapshot_os_state snapshot) (composite_blind blind)"
    by unfold_locales (use run in \<open>metis prod.collapse\<close>)+
  with composite_contract show ?thesis by (rule observable_backend.intro)
qed

end

interpretation composite_fake: observable_backend
  "composite_grant fake_grant" "composite_revoke fake_revoke" "composite_apply fake_apply"
  "composite_apply_removal fake_apply_removal" "composite_plant fake_plant"
  "composite_inv fake_inv fake_account" "composite_account fake_account" "composite_armed fake_armed"
  "composite_snapshot_os_state fake_snapshot_os_state" "composite_blind fake_blind"
  by (rule fake.composite_observable)

end
