(* ===== verification/Detach.thy ===== *)
theory Detach
  imports Ledger Composite_Backend
begin

text \<open>
  Detaching a plugin over a real backend: the client lemmas of \<open>Ledger\<close> carried from one replay to a
  whole sequence of detach calls, and the properties they give for the composite of three in-memory
  leaves, the arrangement the daemon's tests run.
\<close>

section \<open>Sequences of detach calls\<close>

text \<open>
  A detach may stop at a backend error and be called again on the same closed ledger. The caller
  chooses cell and drain of each call; the result of all but the last call is not looked at here.
\<close>

fun detach_attempts ::
  "'s revoke_fn \<Rightarrow> 's removal_fn \<Rightarrow> force option \<Rightarrow> (cell_id \<times> drain_spec) list \<Rightarrow> closed_ledger \<Rightarrow> 's \<Rightarrow>
   closed_ledger \<times> 's" where
  "detach_attempts rv rm forced [] l b = (l, b)"
| "detach_attempts rv rm forced ((cell, drain) # calls) l b =
     (case detach_with rv rm forced cell drain l b of
        (_, l', b') \<Rightarrow> detach_attempts rv rm forced calls l' b')"

text \<open>A closed ledger as \<open>close\<close> or an earlier detach leaves it.\<close>

definition closed_ok :: "closed_ledger \<Rightarrow> bool" where
  "closed_ok l \<longleftrightarrow>
     cl_pending l \<le> length (cl_effects l) \<and>
     cl_asserted l = rev (assertions_in (drop (cl_pending l) (cl_effects l)))"

definition closure_ledger :: "closure \<Rightarrow> closed_ledger" where
  "closure_ledger c = (case c of ExternalFree l \<Rightarrow> l | OutstandingExternal l \<Rightarrow> l)"

lemma closure_ledger_close:
  "closure_ledger (ledger_close l) =
     \<lparr>cl_plugin = led_plugin l, cl_effects = led_effects l, cl_pending = length (led_effects l),
      cl_asserted = [], cl_began = None\<rparr>"
  by (simp add: closure_ledger_def ledger_close_def Let_def)

lemma closed_ok_close: "closed_ok (closure_ledger (ledger_close l))"
  by (simp add: closed_ok_def closure_ledger_close)

lemma detach_with_cases:
  assumes "detach_with rv rm forced cell d l b = (r, l', b')"
  obtains (moved) began where "cl_began l = Some began" "began \<noteq> cell" "r = Err (CellChanged began cell)"
      "l' = l" "b' = b"
  | (ran) x pending asserted where "cl_began l = None \<or> cl_began l = Some cell"
      "replay_loop rv rm (CellOwner cell (cl_plugin l)) (cl_effects l) d (cl_pending l) (cl_asserted l)
         (report_new (cl_plugin l)) b = (x, pending, asserted, b')"
      "r = and_then x (\<lambda>rep. Ok (rep\<lparr>dr_asserted := asserted, dr_forced := map_option assertion_line forced\<rparr>))"
      "l' = l\<lparr>cl_pending := pending, cl_asserted := asserted, cl_began := Some cell\<rparr>"
proof (cases "cl_began l = None \<or> cl_began l = Some cell")
  case False
  then obtain began where "cl_began l = Some began" "began \<noteq> cell" by auto
  with assms moved show ?thesis by (auto simp: detach_with_def bind_cell_def)
next
  case True
  obtain x pending asserted b1 where loop: "replay_loop rv rm (CellOwner cell (cl_plugin l)) (cl_effects l) d
      (cl_pending l) (cl_asserted l) (report_new (cl_plugin l)) b = (x, pending, asserted, b1)"
    by (metis prod_cases4)
  from True have bound:
    "bind_cell (cl_began l) cell (cl_plugin l) = (Ok (CellOwner cell (cl_plugin l)), Some cell)"
    by (auto simp: bind_cell_def)
  have "detach_with rv rm forced cell d l b =
    (and_then x (\<lambda>rep. Ok (rep\<lparr>dr_asserted := asserted, dr_forced := map_option assertion_line forced\<rparr>)),
     l\<lparr>cl_pending := pending, cl_asserted := asserted, cl_began := Some cell\<rparr>, b1)"
    unfolding detach_with_def bound replay_def by (cases x) (simp_all add: loop)
  with assms ran [OF True, of x pending asserted] loop show ?thesis by simp
qed

lemma detach_with_closed_ok:
  assumes "closed_ok l" "detach_with rv rm forced cell d l b = (r, l', b')"
  shows "closed_ok l' \<and> cl_effects l' = cl_effects l \<and> cl_plugin l' = cl_plugin l \<and> cl_pending l' \<le> cl_pending l"
  using assms(2)
proof (cases rule: detach_with_cases)
  case moved
  with assms(1) show ?thesis by simp
next
  case (ran x pending asserted)
  from replay_loop_asserted [OF _ ran(2)] assms(1) ran(4) show ?thesis
    by (simp add: closed_ok_def)
qed

lemma detach_attempts_closed_ok:
  "closed_ok l \<Longrightarrow> detach_attempts rv rm forced calls l b = (l', b') \<Longrightarrow>
   closed_ok l' \<and> cl_effects l' = cl_effects l \<and> cl_plugin l' = cl_plugin l"
proof (induction calls arbitrary: l b)
  case (Cons call calls)
  obtain cell d where call: "call = (cell, d)" by (cases call)
  obtain r l1 b1 where run: "detach_with rv rm forced cell d l b = (r, l1, b1)" by (metis prod_cases3)
  from detach_with_closed_ok [OF Cons.prems(1) run] Cons.IH [of l1 b1] Cons.prems(2) call run
  show ?case by simp
qed simp

lemma detach_Ok_report:
  assumes "closed_ok l" "detach_with rv rm forced cell d l b = (Ok rep, l', b')"
  shows "cl_pending l' = 0 \<and> dr_plugin rep = cl_plugin l \<and>
    dr_replayed rep =
      map eff_description (filter (\<lambda>e. effect_target e \<noteq> None) (rev (take (cl_pending l) (cl_effects l)))) \<and>
    dr_delayed_discarded rep = length (filter is_unpublished (take (cl_pending l) (cl_effects l))) \<and>
    dr_asserted rep = rev (assertions_in (cl_effects l)) \<and> dr_forced rep = map_option assertion_line forced"
  using assms(2)
proof (cases rule: detach_with_cases)
  case moved
  then show ?thesis by simp
next
  case (ran x pending asserted)
  from ran(3) obtain rep0 where x: "x = Ok rep0"
    "rep = rep0\<lparr>dr_asserted := asserted, dr_forced := map_option assertion_line forced\<rparr>"
    by (cases x) auto
  from replay_loop_report [OF _ ran(2) [unfolded x(1)]] assms(1)
  have loop: "pending = 0" "rep0 = report_for (take (cl_pending l) (cl_effects l)) (report_new (cl_plugin l))"
    by (simp_all add: closed_ok_def)
  have "asserted = rev (assertions_in (drop pending (cl_effects l)))"
    using replay_loop_asserted [OF _ ran(2)] assms(1) by (simp add: closed_ok_def)
  with loop x(2) ran(4) show ?thesis by (simp add: report_for_def report_new_def)
qed

context enforcement_backend
begin

lemma detach_with_undone:
  assumes "inv s" "closed_ok l" "detach_with revoke apply_removal forced cell d l s = (r, l', t)"
  shows "inv t \<and>
    acc_undo_all (take (cl_pending l') (cl_effects l)) (account t) =
    acc_undo_all (take (cl_pending l) (cl_effects l)) (account s) \<and> (is_ok r \<longrightarrow> cl_pending l' = 0)"
  using assms(3)
proof (cases rule: detach_with_cases)
  case moved
  with assms show ?thesis by simp
next
  case (ran x pending asserted)
  from replay_loop_undone [OF assms(1) _ ran(2)] assms(2) ran(3,4) show ?thesis
    by (cases x) (auto simp: closed_ok_def)
qed

lemma detach_attempts_undone:
  "inv s \<Longrightarrow> closed_ok l \<Longrightarrow> detach_attempts revoke apply_removal forced calls l s = (l', t) \<Longrightarrow>
   inv t \<and> acc_undo_all (take (cl_pending l') (cl_effects l)) (account t) =
     acc_undo_all (take (cl_pending l) (cl_effects l)) (account s)"
proof (induction calls arbitrary: l s)
  case (Cons call calls)
  obtain cell d where call: "call = (cell, d)" by (cases call)
  obtain r l1 s1 where run: "detach_with revoke apply_removal forced cell d l s = (r, l1, s1)"
    by (metis prod_cases3)
  from detach_with_undone [OF Cons.prems(1,2) run] detach_with_closed_ok [OF Cons.prems(2) run]
    Cons.IH [of s1 l1] Cons.prems(3) call run
  show ?case by simp
qed simp

lemma detach_restores:
  assumes "inv s" "acc_built owner a0 (led_effects led) (account s)"
    and "detach_attempts revoke apply_removal forced calls (closure_ledger (ledger_close led)) s = (l, t)"
    and "detach_with revoke apply_removal forced cell d l t = (Ok rep, l', u)"
  shows "account u = a0"
proof -
  note closed = closed_ok_close [of led]
  from detach_attempts_undone [OF assms(1) closed assms(3)] detach_attempts_closed_ok [OF closed assms(3)]
  have t: "inv t" "closed_ok l" "cl_effects l = led_effects led"
    "acc_undo_all (take (cl_pending l) (led_effects led)) (account t) = acc_undo_all (led_effects led) (account s)"
    by (simp_all add: closure_ledger_close)
  from detach_with_undone [OF t(1,2) assms(4)] t(3,4) acc_built_undo [OF assms(2)]
  show ?thesis by (auto simp: acc_undo_all_def)
qed

lemma detach_completes:
  assumes "inv s" "closed_ok l" "cl_began l = None \<or> cl_began l = Some cell"
    and "acc_ready (CellOwner cell (cl_plugin l)) (take (cl_pending l) (cl_effects l)) (account s)"
    and "ds_policy d = Force" "\<And>h. \<not> armed s h"
  shows "is_ok (fst (detach_with revoke apply_removal forced cell d l s))"
proof -
  obtain r l' t where run: "detach_with revoke apply_removal forced cell d l s = (r, l', t)"
    by (metis prod_cases3)
  then show ?thesis
  proof (cases rule: detach_with_cases)
    case moved
    with assms(3) show ?thesis by simp
  next
    case (ran x pending asserted)
    from replay_loop_forced [OF assms(1) _ assms(4-6), of "cl_asserted l" "report_new (cl_plugin l)"]
      assms(2) ran(2) have "is_ok x" by (simp add: closed_ok_def)
    with run ran(3) show ?thesis by (cases x) auto
  qed
qed

text \<open>Each successful grant or apply at a vacant address extends how the ledger's effects came about.\<close>

lemma built_by_grant:
  assumes "inv s" "acc_built owner a0 es (account s)" "acc_vacant (account s) (op_handle p)"
    and "grant p kind s = (Ok e, t)"
  shows "acc_built owner a0 (es @ [effect_exact d (ViaBackend (le_handle e))]) (account t)"
  using grant_vacant [OF assms(1,3,4)] built_grant [OF assms(2,3), of d kind]
  by (simp add: entry_of_def)

lemma built_by_apply:
  assumes "inv s" "acc_built owner a0 es (account s)" "acc_vacant (account s) (op_handle p)"
    and "apply_op p s = (Ok u, t)" "op_owner p = owner"
  shows "acc_built owner a0 (es @ [effect_exact d (ViaUniverse (op_removal p))]) (account t)"
    and "acc_built owner a0 (es @ [effect_compensating d (op_removal p)]) (account t)"
  using apply_vacant [OF assms(1,3,4)] built_apply [OF assms(2,3,5)] built_compensated [OF assms(2,3,5)]
  by simp_all

end

section \<open>Properties of detach over the composite backend\<close>

definition no_residue :: "enforcement_snapshot \<Rightarrow> enforcement_snapshot \<Rightarrow> bool" where
  "no_residue before after \<longleftrightarrow>
     residue_from_diff (diff_between (sn_state before) (sn_state after)) [] = ResidueEmpty"

lemma no_residue_account:
  assumes "snapshot_account before = snapshot_account after"
  shows "no_residue before after"
proof -
  have "sn_state before = sn_state after"
    using assms by (intro os_state_ext) (simp add: snapshot_account_def rows_account_def)
  then show ?thesis by (simp add: no_residue_def residue_from_diff_def diff_empty_iff)
qed

text \<open>
  C1. Detach leaves no residue. Take a composite over three in-memory leaves, observe it, let a plugin
  make grants and applies at vacant addresses, each recorded with its inverse, and close the ledger.
  However many detach calls then fail part-way, under whatever drains and injected failures, once one
  returns \<open>Ok\<close> the backend holds exactly what it held before the plugin acted, and the residue report
  between the two observations is empty.
\<close>

theorem detach_leaves_no_residue:
  assumes "composite_inv fake_inv fake_account s0" "composite_inv fake_inv fake_account s"
    and "composite_snapshot_os_state fake_snapshot_os_state s0 = (Ok before, s1)"
    and "acc_built owner (composite_account fake_account s0) (led_effects led) (composite_account fake_account s)"
    and "detach_attempts (composite_revoke fake_revoke) (composite_apply_removal fake_apply_removal) forced
           calls (closure_ledger (ledger_close led)) s = (l, t)"
    and "detach_with (composite_revoke fake_revoke) (composite_apply_removal fake_apply_removal) forced
           cell d l t = (Ok rep, l', u)"
  shows "composite_account fake_account u = composite_account fake_account s0 \<and>
    (\<forall>after v. composite_snapshot_os_state fake_snapshot_os_state u = (Ok after, v) \<longrightarrow> no_residue before after)"
proof -
  have restored: "composite_account fake_account u = composite_account fake_account s0"
    by (rule composite_fake.detach_restores [OF assms(2,4,5,6)])
  note closed = closed_ok_close [of led]
  from composite_fake.detach_attempts_undone [OF assms(2) closed assms(5)]
    detach_attempts_closed_ok [OF closed assms(5)] composite_fake.detach_with_undone [OF _ _ assms(6)]
  have "composite_inv fake_inv fake_account u" by blast
  with restored composite_fake.snapshot_Ok assms(1,3) show ?thesis
    by (metis no_residue_account)
qed

definition demo_owner :: cell_owner where
  "demo_owner = CellOwner ''cell'' ''plugin''"

definition demo_uds :: universe_op where
  "demo_uds = BindUds 1 ''/run/a'' \<lparr>uds_upstream = ''/up'', uds_guest_path = ''/g''\<rparr> demo_owner"

definition demo_mount :: universe_op where
  "demo_mount = AddMount 2 ''/src'' ''/dst'' \<lparr>mt_access = ReadOnly\<rparr> demo_owner"

definition demo_start :: "fake_backend composite" where
  "demo_start = \<lparr>co_network = fake_new, co_filesystem = fake_new, co_broker = fake_new\<rparr>"

definition demo_granted :: "fake_backend composite" where
  "demo_granted = snd (composite_grant fake_grant demo_uds Hot demo_start)"

definition demo_applied :: "fake_backend composite" where
  "demo_applied = snd (composite_apply fake_apply demo_mount demo_granted)"

text \<open>The network leaf will fail the next withdrawal of the socket half-way.\<close>

definition demo_armed :: "fake_backend composite" where
  "demo_armed = demo_applied\<lparr>co_network := fail_next_withdrawal (op_handle demo_uds) ''torn'' (co_network demo_applied)\<rparr>"

definition demo_ledger :: ledger where
  "demo_ledger = ledger_push (effect_compensating ''mount'' (op_removal demo_mount))
     (ledger_push (effect_exact ''socket'' (ViaBackend (op_handle demo_uds))) (ledger_new ''plugin''))"

lemma demo_start_inv: "composite_inv fake_inv fake_account demo_start"
  unfolding composite_inv_def
proof
  fix l
  have "co_leaf l demo_start = fake_new" by (cases l) (simp_all add: demo_start_def)
  moreover have "acc_vacant (fake_account fake_new) h" for h
    by (simp add: acc_vacant_def fake_account_def fake_new_def)
  ultimately show "fake_inv (co_leaf l demo_start) \<and> confined l (fake_account (co_leaf l demo_start))"
    by (simp add: fake_inv_new confined_def)
qed

lemma demo_applied_inv: "composite_inv fake_inv fake_account demo_applied"
  unfolding demo_applied_def demo_granted_def
  by (intro composite_fake.inv_apply composite_fake.inv_grant demo_start_inv)

lemma demo_built:
  "acc_built demo_owner (composite_account fake_account demo_start) (led_effects demo_ledger)
     (composite_account fake_account demo_applied)"
proof -
  have inv: "composite_inv fake_inv fake_account demo_granted"
    unfolding demo_granted_def by (intro composite_fake.inv_grant demo_start_inv)
  have vac: "acc_vacant (composite_account fake_account demo_start) (op_handle demo_uds)"
    "acc_vacant (composite_account fake_account demo_granted) (op_handle demo_mount)"
    by code_simp+
  have "composite_grant fake_grant demo_uds Hot demo_start = (Ok (entry_of demo_uds Hot), demo_granted)"
    unfolding demo_granted_def prod_eq_iff by code_simp
  from composite_fake.built_by_grant [OF demo_start_inv built_none vac(1) this, of demo_owner "''socket''"]
  have socket: "acc_built demo_owner (composite_account fake_account demo_start)
      [effect_exact ''socket'' (ViaBackend (op_handle demo_uds))] (composite_account fake_account demo_granted)"
    by (simp add: entry_of_def)
  have "composite_apply fake_apply demo_mount demo_granted = (Ok (), demo_applied)"
    unfolding demo_applied_def prod_eq_iff by code_simp
  from composite_fake.built_by_apply(2) [OF inv socket vac(2) this, of "''mount''"]
  show ?thesis
    by (simp add: demo_ledger_def ledger_push_def ledger_new_def demo_mount_def)
qed

lemma injected_keeps:
  assumes "composite_inv fake_inv fake_account c" "fake_account s = fake_account (co_network c)"
  shows "composite_inv fake_inv fake_account (c\<lparr>co_network := s\<rparr>)"
    and "composite_account fake_account (c\<lparr>co_network := s\<rparr>) = composite_account fake_account c"
proof -
  have leaf: "fake_account (co_leaf l (c\<lparr>co_network := s\<rparr>)) = fake_account (co_leaf l c)" for l
    using assms(2) by (cases l) simp_all
  then show "composite_inv fake_inv fake_account (c\<lparr>co_network := s\<rparr>)"
    using assms(1) by (simp add: composite_inv_def fake_inv_def)
  show "composite_account fake_account (c\<lparr>co_network := s\<rparr>) = composite_account fake_account c"
    using leaf by (intro account_eqI) (simp add: acc_at_composite)
qed

lemma demo_armed_keeps:
  "composite_inv fake_inv fake_account demo_armed"
  "composite_account fake_account demo_armed = composite_account fake_account demo_applied"
  unfolding demo_armed_def by (simp_all add: injected_keeps demo_applied_inv)

text \<open>The first detach is stopped by the torn withdrawal; the second finishes.\<close>

theorem detach_leaves_no_residue_witness:
  "\<exists>l t rep l' u.
     detach_attempts (composite_revoke fake_revoke) (composite_apply_removal fake_apply_removal) None
       [(''cell'', drain_graceful 0)] (closure_ledger (ledger_close demo_ledger)) demo_armed = (l, t) \<and>
     cl_pending l = 1 \<and>
     detach_with (composite_revoke fake_revoke) (composite_apply_removal fake_apply_removal) None
       ''cell'' drain_forcing l t = (Ok rep, l', u) \<and>
     composite_account fake_account u = composite_account fake_account demo_start"
proof -
  let ?run = "detach_attempts (composite_revoke fake_revoke) (composite_apply_removal fake_apply_removal) None
    [(''cell'', drain_graceful 0)] (closure_ledger (ledger_close demo_ledger)) demo_armed"
  let ?last = "detach_with (composite_revoke fake_revoke) (composite_apply_removal fake_apply_removal) None
    ''cell'' drain_forcing (fst ?run) (snd ?run)"
  obtain l t where run: "?run = (l, t)" by (cases ?run)
  have "cl_pending (fst ?run) = 1" by code_simp
  moreover have "is_ok (fst ?last)" by code_simp
  then obtain rep l' u where last: "?last = (Ok rep, l', u)"
    by (cases ?last; cases "fst ?last") auto
  moreover have "is_ok (fst (composite_snapshot_os_state fake_snapshot_os_state demo_start))" by code_simp
  then obtain before s1 where "composite_snapshot_os_state fake_snapshot_os_state demo_start = (Ok before, s1)"
    by (cases "composite_snapshot_os_state fake_snapshot_os_state demo_start";
        cases "fst (composite_snapshot_os_state fake_snapshot_os_state demo_start)") auto
  from detach_leaves_no_residue [OF demo_start_inv demo_armed_keeps(1) this _ run, of demo_owner "''cell''"]
    demo_built demo_armed_keeps(2) last run
  have "composite_account fake_account u = composite_account fake_account demo_start" by simp
  ultimately show ?thesis using run by auto
qed

text \<open>
  C2. A forced detach finishes. Let a ledger hold exactly the effects that this plugin has just applied on this
  backend for this cell, in their order (\<open>acc_built\<close>: the account is what applying them one after the other
  made of some account before), and let it then be closed for the first time. With \<open>Force\<close> and no withdrawal
  armed to fail, detaching that ledger returns \<open>Ok\<close> in one call, whichever handles are stuck or owners stalled.
  Nothing is said of other ledgers: one that was never closed, or that names effects that do not stand.
\<close>

theorem detach_forced_completes:
  assumes "composite_inv fake_inv fake_account s"
    and "acc_built (CellOwner cell (led_plugin led)) a0 (led_effects led) (composite_account fake_account s)"
    and "ds_policy d = Force" "\<And>h. \<not> composite_armed fake_armed s h"
  shows "\<exists>rep l' t. detach_with (composite_revoke fake_revoke) (composite_apply_removal fake_apply_removal) forced
    cell d (closure_ledger (ledger_close led)) s = (Ok rep, l', t)"
proof -
  let ?run = "detach_with (composite_revoke fake_revoke) (composite_apply_removal fake_apply_removal) forced
    cell d (closure_ledger (ledger_close led)) s"
  have "is_ok (fst ?run)"
    using acc_built_ready [OF assms(2)] assms(3,4)
    by (intro composite_fake.detach_completes [OF assms(1) closed_ok_close]) (simp_all add: closure_ledger_close)
  then show ?thesis by (cases ?run; cases "fst ?run") auto
qed

text \<open>Even with the socket stuck and its owner stalled.\<close>

definition demo_stuck :: "fake_backend composite" where
  "demo_stuck = demo_applied\<lparr>co_network :=
     stall_graceful_drains_for_owner demo_owner (mark_stuck (op_handle demo_uds) (co_network demo_applied))\<rparr>"

lemma demo_stuck_keeps:
  "composite_inv fake_inv fake_account demo_stuck"
  "composite_account fake_account demo_stuck = composite_account fake_account demo_applied"
  unfolding demo_stuck_def by (simp_all add: injected_keeps demo_applied_inv)

theorem detach_forced_completes_witness:
  "\<exists>rep l' t. detach_with (composite_revoke fake_revoke) (composite_apply_removal fake_apply_removal) None
    ''cell'' drain_forcing (closure_ledger (ledger_close demo_ledger)) demo_stuck = (Ok rep, l', t)"
proof (rule detach_forced_completes [OF demo_stuck_keeps(1)])
  show "acc_built (CellOwner ''cell'' (led_plugin demo_ledger)) (composite_account fake_account demo_start)
      (led_effects demo_ledger) (composite_account fake_account demo_stuck)"
    using demo_built demo_stuck_keeps(2) by (simp add: demo_owner_def demo_ledger_def ledger_push_def ledger_new_def)
  have "bt_is_empty (fb_failing_withdrawals (co_network demo_stuck))"
    "bt_is_empty (fb_failing_withdrawals (co_filesystem demo_stuck))"
    "bt_is_empty (fb_failing_withdrawals (co_broker demo_stuck))"
    by code_simp+
  then have "bt_is_empty (fb_failing_withdrawals (co_leaf l demo_stuck))" for l by (cases l) simp_all
  then show "\<not> composite_armed fake_armed demo_stuck h" for h
    by (simp add: composite_armed_def fake_armed_def bt_is_empty_iff)
qed (simp add: drain_forcing_def)

text \<open>
  What a detach reports. Over any backend and after any earlier calls, the report of a detach that
  returns \<open>Ok\<close> names the inverses this call ran, newest first, counts the unpublished effects it
  dropped, carries the operator's line exactly when a force was given, and lists the assertion of
  every external or already published effect of the ledger, those passed by earlier calls included.
\<close>

theorem detach_report_exact:
  assumes "detach_attempts rv rm forced calls (closure_ledger (ledger_close led)) b0 = (l, b)"
    and "detach_with rv rm forced cell d l b = (Ok rep, l', b')"
  shows "dr_plugin rep = led_plugin led \<and>
    dr_replayed rep =
      map eff_description (filter (\<lambda>e. effect_target e \<noteq> None) (rev (take (cl_pending l) (led_effects led)))) \<and>
    dr_delayed_discarded rep = length (filter is_unpublished (take (cl_pending l) (led_effects led))) \<and>
    dr_asserted rep = rev (external_assertions (closure_ledger (ledger_close led))) \<and>
    dr_forced rep = map_option assertion_line forced"
proof -
  from detach_attempts_closed_ok [OF closed_ok_close assms(1)] have
    l: "closed_ok l" "cl_effects l = led_effects led" "cl_plugin l = led_plugin led"
    by (simp_all add: closure_ledger_close)
  from detach_Ok_report [OF l(1) assms(2)] l(2,3) show ?thesis
    by (simp add: external_assertions_eq closure_ledger_close)
qed

definition demo_outside :: ledger where
  "demo_outside = ledger_push (effect_external ''sent'')
     (ledger_push (effect_delayed_unpublished ''outbox'' ''body'') demo_ledger)"

theorem detach_report_exact_witness:
  "\<exists>l t rep l' u.
     detach_attempts (composite_revoke fake_revoke) (composite_apply_removal fake_apply_removal) None
       [(''cell'', drain_forcing)] (closure_ledger (ledger_close demo_outside)) demo_armed = (l, t) \<and>
     detach_with (composite_revoke fake_revoke) (composite_apply_removal fake_apply_removal) None
       ''cell'' drain_forcing l t = (Ok rep, l', u) \<and>
     dr_asserted rep = rev (external_assertions (closure_ledger (ledger_close demo_outside)))"
proof -
  let ?run = "detach_attempts (composite_revoke fake_revoke) (composite_apply_removal fake_apply_removal) None
    [(''cell'', drain_forcing)] (closure_ledger (ledger_close demo_outside)) demo_armed"
  let ?last = "detach_with (composite_revoke fake_revoke) (composite_apply_removal fake_apply_removal) None
    ''cell'' drain_forcing (fst ?run) (snd ?run)"
  obtain l t where run: "?run = (l, t)" by (cases ?run)
  have "is_ok (fst ?last)" by code_simp
  then obtain rep l' u where last: "?last = (Ok rep, l', u)"
    by (cases ?last; cases "fst ?last") auto
  with run detach_report_exact [OF run, of "''cell''" drain_forcing rep l' u] show ?thesis by auto
qed

text \<open>
  A closed ledger is bound to one cell. The first detach that names a cell binds it; from then on
  a detach naming another is refused with both names, calls no backend and changes nothing.
\<close>

theorem detach_bound_to_cell:
  assumes "detach_with rv rm forced cell d l b = (r, l', b')" "cl_began l = None" "other \<noteq> cell"
  shows "detach_with rv' rm' forced' other d' l' c = (Err (CellChanged cell other), l', c)"
  using assms(1)
proof (cases rule: detach_with_cases)
  case moved
  with assms(2) show ?thesis by simp
next
  case (ran x pending asserted)
  with assms(3) show ?thesis by (simp add: detach_with_def bind_cell_def)
qed

theorem detach_bound_to_cell_witness:
  "\<exists>r l'. detach_with fake_revoke fake_apply_removal None ''cell'' drain_forcing
      (closure_ledger (ledger_close (ledger_new ''plugin''))) fake_new = (r, l', fake_new) \<and>
    detach_with fake_revoke fake_apply_removal None ''else'' drain_forcing l' fake_new =
      (Err (CellChanged ''cell'' ''else''), l', fake_new)"
proof -
  let ?l = "closure_ledger (ledger_close (ledger_new ''plugin''))"
  obtain r l' b where run: "detach_with fake_revoke fake_apply_removal None ''cell'' drain_forcing ?l fake_new = (r, l', b)"
    by (metis prod_cases3)
  then have "b = fake_new"
    by (auto simp: detach_with_def bind_cell_def replay_def closure_ledger_close ledger_new_def Let_def)
  with run detach_bound_to_cell [OF run, of "''else''" fake_revoke fake_apply_removal None drain_forcing fake_new]
  show ?thesis by (simp add: closure_ledger_close)
qed

text \<open>
  Only effects that left the host call for a force. \<open>close\<close> seals a ledger exactly when every
  effect still has an inverse or was never published, and then a detach asserts nothing and carries
  no operator's line.
\<close>

theorem sealed_detach_asserts_nothing:
  assumes "ledger_close led = ExternalFree l"
    and "detach rv rm cell d l b = (Ok rep, l', b')"
  shows "(\<forall>e \<in> set (led_effects led). \<not> is_outstanding e) \<and> dr_asserted rep = [] \<and> dr_forced rep = None"
proof -
  from assms(1) have l: "l = closure_ledger (ledger_close led)" and none: "\<not> list_ex is_outstanding (led_effects led)"
    by (auto simp: ledger_close_def closure_ledger_def Let_def split: if_splits)
  from detach_Ok_report [of l rv rm None cell d b rep l' b'] assms(2) closed_ok_close [of led]
  have "dr_asserted rep = rev (assertions_in (led_effects led)) \<and> dr_forced rep = None"
    by (simp add: l detach_def closure_ledger_close)
  with none show ?thesis by (simp add: assertions_in_empty_iff [THEN iffD2] list_ex_iff)
qed

theorem sealed_detach_asserts_nothing_witness:
  "\<exists>l rep l' t. ledger_close demo_ledger = ExternalFree l \<and>
     detach (composite_revoke fake_revoke) (composite_apply_removal fake_apply_removal) ''cell'' drain_forcing
       l demo_applied = (Ok rep, l', t) \<and> dr_asserted rep = [] \<and> dr_forced rep = None"
proof -
  let ?l = "closure_ledger (ledger_close demo_ledger)"
  let ?run = "detach (composite_revoke fake_revoke) (composite_apply_removal fake_apply_removal) ''cell''
    drain_forcing ?l demo_applied"
  have l: "ledger_close demo_ledger = ExternalFree ?l" by code_simp
  have "is_ok (fst ?run)" by code_simp
  then obtain rep l' t where run: "?run = (Ok rep, l', t)" by (cases ?run; cases "fst ?run") auto
  from l run sealed_detach_asserts_nothing [OF l run] show ?thesis by blast
qed

end
