(* ===== verification/Utf8.thy ===== *)
theory Utf8
  imports Prelude
begin

text \<open>
  Text as its Unicode scalar values, and the UTF-8 bytes that carry it: \<open>str::from_utf8\<close> with the
  offset of the first byte that is not part of valid text, and \<open>char::encode_utf8\<close>. A byte is a number
  below 256.
\<close>

type_synonym utext = "nat list"

abbreviation ascii :: "string \<Rightarrow> utext" where "ascii \<equiv> map of_char"

definition is_scalar :: "nat \<Rightarrow> bool" where
  "is_scalar c \<longleftrightarrow> c < 0xD800 \<or> (0xE000 \<le> c \<and> c < 0x110000)"

definition utf8_width :: "nat \<Rightarrow> nat" where
  "utf8_width c = (if c < 0x80 then 1 else if c < 0x800 then 2 else if c < 0x10000 then 3 else 4)"

definition encode_utf8 :: "nat \<Rightarrow> nat list" where
  "encode_utf8 c =
     (if c < 0x80 then [c]
      else if c < 0x800 then [0xC0 + c div 64, 0x80 + c mod 64]
      else if c < 0x10000 then [0xE0 + c div 4096, 0x80 + c div 64 mod 64, 0x80 + c mod 64]
      else [0xF0 + c div 262144, 0x80 + c div 4096 mod 64, 0x80 + c div 64 mod 64, 0x80 + c mod 64])"

definition utf8_bytes :: "utext \<Rightarrow> nat list" where
  "utf8_bytes cs = concat (map encode_utf8 cs)"

definition is_tail :: "nat \<Rightarrow> bool" where
  "is_tail b \<longleftrightarrow> 0x80 \<le> b \<and> b \<le> 0xBF"

text \<open>
  The lead byte fixes the width and what the second byte may be, which leaves out overlong forms, the
  surrogates and everything past \<open>U+10FFFF\<close>. An error is the offset of the lead byte at fault.
\<close>

definition second_of_3 :: "nat \<Rightarrow> nat \<Rightarrow> bool" where
  "second_of_3 a b \<longleftrightarrow>
     (a = 0xE0 \<and> 0xA0 \<le> b \<and> b \<le> 0xBF) \<or> (0xE1 \<le> a \<and> a \<le> 0xEC \<and> is_tail b) \<or>
     (a = 0xED \<and> 0x80 \<le> b \<and> b \<le> 0x9F) \<or> (0xEE \<le> a \<and> a \<le> 0xEF \<and> is_tail b)"

definition second_of_4 :: "nat \<Rightarrow> nat \<Rightarrow> bool" where
  "second_of_4 a b \<longleftrightarrow>
     (a = 0xF0 \<and> 0x90 \<le> b \<and> b \<le> 0xBF) \<or> (0xF1 \<le> a \<and> a \<le> 0xF3 \<and> is_tail b) \<or>
     (a = 0xF4 \<and> 0x80 \<le> b \<and> b \<le> 0x8F)"

text \<open>One scalar value and the bytes after it.\<close>

fun decode_char :: "nat list \<Rightarrow> (nat \<times> nat list) option" where
  "decode_char [] = None"
| "decode_char (a # bs) =
     (if a < 0x80 then Some (a, bs)
      else if 0xC2 \<le> a \<and> a \<le> 0xDF then
        (case bs of
           b # bs' \<Rightarrow> if is_tail b then Some ((a - 0xC0) * 64 + (b - 0x80), bs') else None
         | _ \<Rightarrow> None)
      else if 0xE0 \<le> a \<and> a \<le> 0xEF then
        (case bs of
           b # c # bs' \<Rightarrow>
             if second_of_3 a b \<and> is_tail c
             then Some ((a - 0xE0) * 4096 + (b - 0x80) * 64 + (c - 0x80), bs') else None
         | _ \<Rightarrow> None)
      else
        (case bs of
           b # c # d # bs' \<Rightarrow>
             if second_of_4 a b \<and> is_tail c \<and> is_tail d
             then Some ((a - 0xF0) * 262144 + (b - 0x80) * 4096 + (c - 0x80) * 64 + (d - 0x80), bs') else None
         | _ \<Rightarrow> None))"

lemma decode_char_shorter: "decode_char bs = Some (c, rest) \<Longrightarrow> length rest < length bs"
  by (induction bs rule: decode_char.induct) (auto split: if_splits list.splits)

function from_utf8 :: "nat \<Rightarrow> nat list \<Rightarrow> nat + utext" where
  "from_utf8 at bs =
     (if bs = [] then Ok []
      else (case decode_char bs of
              None \<Rightarrow> Err at
            | Some (c, rest) \<Rightarrow>
                and_then (from_utf8 (at + (length bs - length rest)) rest) (\<lambda>cs. Ok (c # cs))))"
  by pat_completeness auto

termination
  by (relation "measure (length \<circ> snd)") (auto dest: decode_char_shorter)

declare from_utf8.simps [simp del]

section \<open>Decoding what was encoded\<close>

lemma decode_encode: "is_scalar c \<Longrightarrow> decode_char (encode_utf8 c @ bs) = Some (c, bs)"
proof -
  assume c: "is_scalar c"
  consider "c < 0x80" | "0x80 \<le> c" "c < 0x800" | "0x800 \<le> c" "c < 0x10000" | "0x10000 \<le> c" by linarith
  then show ?thesis
  proof cases
    case 2
    define q r where qr: "q = c div 64" "r = c mod 64"
    have split: "q * 64 + r = c" "r < 64" by (simp_all add: qr)
    then have "2 \<le> q" "q \<le> 31" "r \<le> 63" using 2 by linarith+
    then show ?thesis using 2 split(1) by (simp add: encode_utf8_def is_tail_def qr [symmetric])
  next
    case 3
    define p q r where pqr: "p = c div 4096" "q = c div 64 mod 64" "r = c mod 64"
    have "c div 64 div 64 = p" by (simp add: pqr div_mult2_eq [symmetric])
    then have "c = (p * 64 + q) * 64 + r" unfolding pqr(2,3) by (metis div_mult_mod_eq)
    then have c1: "p * 4096 + q * 64 + r = c" by simp
    have lt: "q < 64" "r < 64" by (simp_all add: pqr)
    have "p \<le> 15" "p = 13 \<Longrightarrow> q \<le> 31" "p = 0 \<Longrightarrow> 32 \<le> q"
      using c 3 c1 lt unfolding is_scalar_def by linarith+
    then show ?thesis
      using 3 c1 lt by (cases "p = 0"; cases "p = 13") (auto simp: encode_utf8_def is_tail_def second_of_3_def pqr [symmetric])
  next
    case 4
    define h p q r where opqr: "h = c div 262144" "p = c div 4096 mod 64" "q = c div 64 mod 64" "r = c mod 64"
    have "c div 64 div 64 = c div 4096" "c div 4096 div 64 = h" by (simp_all add: opqr div_mult2_eq [symmetric])
    then have "c = ((h * 64 + p) * 64 + q) * 64 + r" unfolding opqr(2-4) by (metis div_mult_mod_eq)
    then have c1: "h * 262144 + p * 4096 + q * 64 + r = c" by simp
    have lt: "p < 64" "q < 64" "r < 64" by (simp_all add: opqr)
    have "h \<le> 4" "h = 4 \<Longrightarrow> p \<le> 15" "h = 0 \<Longrightarrow> 16 \<le> p"
      using c 4 c1 lt unfolding is_scalar_def by linarith+
    then show ?thesis
      using 4 c1 lt by (cases "h = 0"; cases "h = 4") (auto simp: encode_utf8_def is_tail_def second_of_4_def opqr [symmetric])
  qed (simp add: encode_utf8_def)
qed

lemma length_encode_utf8 [simp]: "length (encode_utf8 c) = utf8_width c"
  by (simp add: encode_utf8_def utf8_width_def)

lemma encode_utf8_byte: "is_scalar c \<Longrightarrow> b \<in> set (encode_utf8 c) \<Longrightarrow> b < 256"
  by (auto simp: encode_utf8_def is_scalar_def split: if_splits)

theorem from_utf8_bytes: "\<forall>c \<in> set cs. is_scalar c \<Longrightarrow> from_utf8 at (utf8_bytes cs) = Ok cs"
proof (induction cs arbitrary: at)
  case Nil
  then show ?case by (simp add: utf8_bytes_def from_utf8.simps)
next
  case (Cons c cs)
  have "encode_utf8 c \<noteq> []" by (simp add: encode_utf8_def)
  with Cons show ?case
    using decode_encode [of c "utf8_bytes cs"]
    by (simp add: utf8_bytes_def from_utf8.simps [of at "encode_utf8 c @ concat (map encode_utf8 cs)"])
qed

lemma decode_3_range:
  assumes "second_of_3 a b" "is_tail c"
  shows "is_scalar ((a - 0xE0) * 4096 + (b - 0x80) * 64 + (c - 0x80))"
proof -
  have "0xE0 \<le> a" "0x80 \<le> b" "0x80 \<le> c" using assms by (auto simp: second_of_3_def is_tail_def)
  then obtain i j k where "a = 0xE0 + i" "b = 0x80 + j" "c = 0x80 + k" by (meson le_Suc_ex)
  with assms show ?thesis by (auto simp: second_of_3_def is_tail_def is_scalar_def)
qed

lemma decode_4_range:
  assumes "second_of_4 a b" "is_tail c" "is_tail d"
  shows "is_scalar ((a - 0xF0) * 262144 + (b - 0x80) * 4096 + (c - 0x80) * 64 + (d - 0x80))"
proof -
  have "0xF0 \<le> a" "0x80 \<le> b" "0x80 \<le> c" "0x80 \<le> d" using assms by (auto simp: second_of_4_def is_tail_def)
  then obtain i j k l where "a = 0xF0 + i" "b = 0x80 + j" "c = 0x80 + k" "d = 0x80 + l" by (meson le_Suc_ex)
  with assms show ?thesis by (auto simp: second_of_4_def is_tail_def is_scalar_def)
qed

lemma decode_char_scalar: "decode_char bs = Some (c, rest) \<Longrightarrow> is_scalar c"
proof (induction bs rule: decode_char.induct)
  case (2 a bs)
  then show ?case
    by (auto simp: decode_3_range decode_4_range split: if_splits list.splits)
      (auto simp: is_scalar_def is_tail_def second_of_4_def)
qed simp

lemma from_utf8_scalars: "from_utf8 at bs = Ok cs \<Longrightarrow> \<forall>c \<in> set cs. is_scalar c"
proof (induction at bs arbitrary: cs rule: from_utf8.induct)
  case (1 at bs)
  show ?case
  proof (cases "bs = []")
    case True
    with 1(2) show ?thesis by (simp add: from_utf8.simps)
  next
    case False
    with 1(2) obtain c rest ds where run: "decode_char bs = Some (c, rest)"
      "from_utf8 (at + (length bs - length rest)) rest = Ok ds" "cs = c # ds"
      by (subst (asm) from_utf8.simps [of at bs]) (auto simp: and_then_eq_Inr split: option.splits)
    from 1(1) [OF False run(1) refl run(2)] decode_char_scalar [OF run(1)] show ?thesis by (simp add: run(3))
  qed
qed

end
