(* ===== verification/Unicode_Text.thy ===== *)
theory Unicode_Text
  imports Utf8
begin

text \<open>
  What the program uses of Rust's text beyond its bytes: white space as \<open>char::is_whitespace\<close> knows it,
  \<open>str::trim\<close>, the length in bytes, and cutting a text at character boundaries. A text is its scalar
  values, as in \<open>Utf8\<close>.
\<close>

section \<open>White space\<close>

text \<open>The scalar values \<open>char::is_whitespace\<close> holds of.\<close>

definition is_whitespace :: "nat \<Rightarrow> bool" where
  "is_whitespace c =
     ((9 \<le> c \<and> c \<le> 13) \<or> c = 0x20 \<or> c = 0x85 \<or> c = 0xA0 \<or> c = 0x1680 \<or> (0x2000 \<le> c \<and> c \<le> 0x200A) \<or>
      c = 0x2028 \<or> c = 0x2029 \<or> c = 0x202F \<or> c = 0x205F \<or> c = 0x3000)"

definition trim_text :: "utext \<Rightarrow> utext" where
  "trim_text s = rev (dropWhile is_whitespace (rev (dropWhile is_whitespace s)))"

lemma trim_empty: "trim_text s = [] \<longleftrightarrow> list_all is_whitespace s"
proof -
  have "dropWhile P xs = [] \<longleftrightarrow> list_all P xs" for P and xs :: "nat list"
    by (simp add: list_all_iff)
  moreover have "list_all P s \<Longrightarrow> dropWhile P s = []" for P :: "nat \<Rightarrow> bool"
    by (simp add: list_all_iff)
  moreover have "list_all P (dropWhile P s) \<Longrightarrow> list_all P s" for P :: "nat \<Rightarrow> bool"
    by (induction s) (auto split: if_splits)
  ultimately show ?thesis by (auto simp: trim_text_def list_all_iff dest: set_dropWhileD)
qed

text \<open>\<open>trim().is_empty()\<close>.\<close>

definition is_blank :: "utext \<Rightarrow> bool" where "is_blank s = (trim_text s = [])"

section \<open>Lengths and boundaries\<close>

definition byte_len :: "utext \<Rightarrow> nat" where "byte_len s = sum_list (map utf8_width s)"

lemma byte_len_simps [simp]:
  "byte_len [] = 0" "byte_len (c # s) = utf8_width c + byte_len s" "byte_len (s @ t) = byte_len s + byte_len t"
  "byte_len (rev s) = byte_len s"
  by (simp_all add: byte_len_def rev_map [symmetric])

lemma byte_len_bytes: "byte_len s = length (utf8_bytes s)"
  by (induction s) (simp_all add: utf8_bytes_def)

text \<open>The characters that fit whole into the first \<open>n\<close> bytes, and those that fit into the last.\<close>

fun first_bytes :: "nat \<Rightarrow> utext \<Rightarrow> utext" where
  "first_bytes n [] = []"
| "first_bytes n (c # s) = (if utf8_width c \<le> n then c # first_bytes (n - utf8_width c) s else [])"

definition last_bytes :: "nat \<Rightarrow> utext \<Rightarrow> utext" where
  "last_bytes n s = rev (first_bytes n (rev s))"

lemma first_bytes_len: "byte_len (first_bytes n s) \<le> n"
  by (induction n s rule: first_bytes.induct) auto

lemma last_bytes_len: "byte_len (last_bytes n s) \<le> n"
  by (simp add: last_bytes_def first_bytes_len)

lemma set_first_bytes: "set (first_bytes n s) \<subseteq> set s"
  by (induction n s rule: first_bytes.induct) auto

lemma set_last_bytes: "set (last_bytes n s) \<subseteq> set s"
  using set_first_bytes [of n "rev s"] by (simp add: last_bytes_def)

definition join_text :: "utext \<Rightarrow> utext list \<Rightarrow> utext" where
  "join_text sep ts = concat (case ts of [] \<Rightarrow> [] | t # rest \<Rightarrow> t # map (\<lambda>u. sep @ u) rest)"

lemma set_join_text: "set (join_text sep ts) \<subseteq> set sep \<union> (\<Union>t \<in> set ts. set t)"
  by (cases ts) (auto simp: join_text_def)

text \<open>A text as the string of its bytes, which is how the program's checks of names read it.\<close>

definition text_bytes :: "utext \<Rightarrow> string" where
  "text_bytes s = map char_of (utf8_bytes s)"

end
