(* ===== verification/Toml_Text.thy ===== *)
theory Toml_Text
  imports Unicode_Text
begin

text \<open>
  How \<open>crates/plasmosome-core/src/manifest.rs\<close> writes text of a declaration back to its author: TOML
  strings and keys with everything a terminal acts on escaped, and a refusal cut to its bound.
\<close>

definition MAX_REFUSAL_BYTES :: nat where "MAX_REFUSAL_BYTES = 4096"

definition MAX_SHOWN_FIX_BYTES :: nat where "MAX_SHOWN_FIX_BYTES = 1024"

text \<open>\<open>char::is_control\<close> and the direction and line marks.\<close>

definition acted_on :: "nat \<Rightarrow> bool" where
  "acted_on c =
     (c < 0x20 \<or> (0x7F \<le> c \<and> c \<le> 0x9F) \<or> c = 0x061C \<or> c = 0x2028 \<or> c = 0x2029 \<or> c = 0x200E \<or> c = 0x200F \<or>
      (0x202A \<le> c \<and> c \<le> 0x202E) \<or> (0x2066 \<le> c \<and> c \<le> 0x2069))"

text \<open>\<open>{:04X}\<close> of a control, which is below \<open>0x10000\<close>.\<close>

definition upper_digit :: "nat \<Rightarrow> nat" where
  "upper_digit d = (if d < 10 then 0x30 + d else 0x41 + (d - 10))"

definition upper_hex4 :: "nat \<Rightarrow> utext" where
  "upper_hex4 c = map upper_digit [c div 4096 mod 16, c div 256 mod 16, c div 16 mod 16, c mod 16]"

definition push_visible :: "nat \<Rightarrow> utext" where
  "push_visible c =
     (if c = 0x08 then ascii [CHR 0x5C, CHR ''b'']
      else if c = 0x09 then ascii [CHR 0x5C, CHR ''t'']
      else if c = 0x0A then ascii [CHR 0x5C, CHR ''n'']
      else if c = 0x0C then ascii [CHR 0x5C, CHR ''f'']
      else if c = 0x0D then ascii [CHR 0x5C, CHR ''r'']
      else if acted_on c then ascii [CHR 0x5C, CHR ''u''] @ upper_hex4 c
      else [c])"

definition toml_string :: "utext \<Rightarrow> utext" where
  "toml_string s =
     0x22 # concat (map (\<lambda>c. if c = 0x22 \<or> c = 0x5C then [0x5C, c] else push_visible c) s) @ [0x22]"

definition bare_key_char :: "nat \<Rightarrow> bool" where
  "bare_key_char c =
     ((0x30 \<le> c \<and> c \<le> 0x39) \<or> (0x41 \<le> c \<and> c \<le> 0x5A) \<or> (0x61 \<le> c \<and> c \<le> 0x7A) \<or> c = 0x2D \<or> c = 0x5F)"

definition diagnostic_key :: "utext \<Rightarrow> utext" where
  "diagnostic_key name = (if name \<noteq> [] \<and> list_all bare_key_char name then name else toml_string name)"

definition without_controls :: "utext \<Rightarrow> utext" where
  "without_controls s = concat (map push_visible s)"

definition visible_lines :: "utext \<Rightarrow> utext" where
  "visible_lines s = join_text [0x0A] (map without_controls (split_on 0x0A s))"

definition bounded_text :: "utext \<Rightarrow> utext" where
  "bounded_text s =
     (if byte_len s \<le> MAX_REFUSAL_BYTES then s else first_bytes 2046 s @ [0x2026] @ last_bytes 2047 s)"

section \<open>What is written is safe and bounded\<close>

lemma upper_digit_safe: "d < 16 \<Longrightarrow> \<not> acted_on (upper_digit d)"
  by (auto simp: acted_on_def upper_digit_def)

lemma upper_hex4_safe: "x \<in> set (upper_hex4 c) \<Longrightarrow> \<not> acted_on x"
  using upper_digit_safe [of "c div 4096 mod 16"] upper_digit_safe [of "c div 256 mod 16"]
    upper_digit_safe [of "c div 16 mod 16"] upper_digit_safe [of "c mod 16"]
  by (auto simp: upper_hex4_def)

lemma acted_on_printable: "0x20 \<le> c \<Longrightarrow> c < 0x7F \<Longrightarrow> \<not> acted_on c"
  by (simp add: acted_on_def)

lemma push_visible_safe: "x \<in> set (push_visible c) \<Longrightarrow> \<not> acted_on x"
  by (auto simp: push_visible_def acted_on_printable dest: upper_hex4_safe split: if_splits)

lemma toml_string_safe: "x \<in> set (toml_string s) \<Longrightarrow> \<not> acted_on x"
  by (auto simp: toml_string_def acted_on_printable dest: push_visible_safe split: if_splits)

lemma diagnostic_key_safe: "x \<in> set (diagnostic_key s) \<Longrightarrow> \<not> acted_on x"
proof (cases "s \<noteq> [] \<and> list_all bare_key_char s")
  case True
  moreover have "bare_key_char c \<Longrightarrow> \<not> acted_on c" for c
    by (rule acted_on_printable) (auto simp: bare_key_char_def)
  ultimately show "x \<in> set (diagnostic_key s) \<Longrightarrow> ?thesis" by (auto simp: diagnostic_key_def list_all_iff)
next
  case False
  then show "x \<in> set (diagnostic_key s) \<Longrightarrow> ?thesis" by (simp add: diagnostic_key_def toml_string_safe)
qed

lemma without_controls_safe: "x \<in> set (without_controls s) \<Longrightarrow> \<not> acted_on x"
  by (auto simp: without_controls_def dest: push_visible_safe)

lemma visible_lines_safe: "x \<in> set (visible_lines s) \<Longrightarrow> \<not> acted_on x \<or> x = 0x0A"
  using set_join_text [of "[0x0A]" "map without_controls (split_on 0x0A s)"]
  by (auto simp: visible_lines_def dest: without_controls_safe)

lemma bounded_len: "byte_len (bounded_text s) \<le> MAX_REFUSAL_BYTES"
  using first_bytes_len [of 2046 s] last_bytes_len [of 2047 s]
  by (auto simp: bounded_text_def MAX_REFUSAL_BYTES_def utf8_width_def)

lemma bounded_safe: "x \<in> set (bounded_text s) \<Longrightarrow> x \<in> set s \<or> x = 0x2026"
  using set_first_bytes [of 2046 s] set_last_bytes [of 2047 s] by (auto simp: bounded_text_def split: if_splits)

end
