(* ===== verification/Denial.thy ===== *)
theory Denial
  imports Toml_Text Recipe Universe
begin

text \<open>
  \<open>crates/plasmosome-core/src/denial.rs\<close>: the book in which a cell's boundary counts what it refused.
  It keeps a bounded number of distinct denials, issues a bounded number of numbered lines about them,
  and keeps each line until its reader acknowledges it; what it cannot say in a line it counts. The
  length of a line's encoded log event is \<open>serde_json\<close>'s and a parameter.
\<close>

section \<open>What was refused\<close>

datatype denied_reach = ReachHost utext | ReachPort utext u16

record report =
  rep_denied :: utext
  rep_field :: string
  rep_fix :: utext

definition reach_host :: "utext \<Rightarrow> denied_reach option" where
  "reach_host host = (if is_proxy_host (text_bytes host) then Some (ReachHost host) else None)"

definition reach_port :: "utext \<Rightarrow> u16 \<Rightarrow> denied_reach option" where
  "reach_port host port =
     (if is_proxy_host (text_bytes host) \<and> port \<noteq> 0 then Some (ReachPort host port) else None)"

fun reach_report :: "denied_reach \<Rightarrow> report" where
  "reach_report (ReachHost host) =
     \<lparr>rep_denied = host, rep_field = ''network.hosts'', rep_fix = toml_string host\<rparr>"
| "reach_report (ReachPort host port) =
     \<lparr>rep_denied = host @ ascii (CHR '':'' # show_nat (unat port)), rep_field = ''network.ports'',
      rep_fix = ascii (show_nat (unat port))\<rparr>"

section \<open>The book\<close>

record denial_entry =
  de_denied :: utext
  de_field :: string
  de_fix :: utext
  de_count :: u64

record plasmid_denials =
  pd_plasmid :: plugin_id
  pd_denials :: "denial_entry list"

record denial_line =
  dl_seq :: u64
  dl_plasmid :: "plugin_id option"
  dl_denied :: utext
  dl_field :: string
  dl_fix :: utext
  dl_count :: u64
  dl_at_ms :: u64
  dl_unlogged :: u64

record denial_page =
  dp_cell :: cell_id
  dp_book :: u128
  dp_lines :: "denial_line list"
  dp_entries :: "plasmid_denials list"

record denial_limits =
  lim_per_plasmid :: nat
  lim_named :: nat
  lim_unnamed :: nat
  lim_lines_per_denial :: u32
  lim_lines_per_cell :: u32
  lim_waiting :: nat
  lim_page :: nat

definition DEFAULT_LIMITS :: denial_limits where
  "DEFAULT_LIMITS =
     \<lparr>lim_per_plasmid = 16, lim_named = 64, lim_unnamed = 32, lim_lines_per_denial = 64,
      lim_lines_per_cell = 4096, lim_waiting = 256, lim_page = 64\<rparr>"

record book_entry =
  be_plasmid :: "plugin_id option"
  be_reach :: denied_reach
  be_count :: u64
  be_lines :: u32

record pending_line =
  pl_line :: denial_line
  pl_plasmid :: "plugin_id option"

definition pending_wire :: "pending_line \<Rightarrow> denial_line" where
  "pending_wire p = (pl_line p)\<lparr>dl_plasmid := pl_plasmid p\<rparr>"

record denial_book =
  bk_cell :: cell_id
  bk_id :: u128
  bk_limits :: denial_limits
  bk_entries :: "book_entry list"
  bk_waiting :: "pending_line list"
  bk_issued :: u32
  bk_last_seq :: u64
  bk_unlogged :: u64

definition book_new :: "cell_id \<Rightarrow> u128 \<Rightarrow> denial_limits \<Rightarrow> denial_book" where
  "book_new cell book limits =
     \<lparr>bk_cell = cell, bk_id = book, bk_limits = limits, bk_entries = [], bk_waiting = [], bk_issued = 0,
      bk_last_seq = 0, bk_unlogged = 0\<rparr>"

text \<open>The payload of a line's log event, by its keys.\<close>

datatype event_value = EvText utext | EvNumber u64

definition log_event :: "cell_id \<Rightarrow> denial_line \<Rightarrow> string \<Rightarrow> event_value option" where
  "log_event cell l =
     (let event = [''cell'' \<mapsto> EvText (ascii cell), ''denied'' \<mapsto> EvText (dl_denied l),
                   ''field'' \<mapsto> EvText (ascii (dl_field l)), ''fix'' \<mapsto> EvText (dl_fix l),
                   ''count'' \<mapsto> EvNumber (dl_count l), ''at_ms'' \<mapsto> EvNumber (dl_at_ms l),
                   ''membrane_seq'' \<mapsto> EvNumber (dl_seq l)];
          named = (case dl_plasmid l of None \<Rightarrow> event | Some p \<Rightarrow> event(''plasmid'' \<mapsto> EvText (ascii p)))
      in if dl_unlogged l \<noteq> 0 then named(''unlogged'' \<mapsto> EvNumber (dl_unlogged l)) else named)"

type_synonym event_size = "(string \<Rightarrow> event_value option) \<Rightarrow> nat"

section \<open>Recording\<close>

fun entry_position :: "plugin_id option \<Rightarrow> denied_reach \<Rightarrow> book_entry list \<Rightarrow> nat option" where
  "entry_position plasmid r [] = None"
| "entry_position plasmid r (e # es) =
     (if be_plasmid e = plasmid \<and> be_reach e = r then Some 0 else map_option Suc (entry_position plasmid r es))"

definition entry_room :: "plugin_id option \<Rightarrow> denial_book \<Rightarrow> bool" where
  "entry_room plasmid b =
     (let same = length (filter (\<lambda>e. be_plasmid e = plasmid) (bk_entries b));
          named = length (filter (\<lambda>e. be_plasmid e \<noteq> None) (bk_entries b))
      in if plasmid \<noteq> None then same < lim_per_plasmid (bk_limits b) \<and> named < lim_named (bk_limits b)
         else same < lim_unnamed (bk_limits b))"

definition count_unlogged :: "denial_book \<Rightarrow> denial_book" where
  "count_unlogged b = b\<lparr>bk_unlogged := saturating_add (bk_unlogged b) 1\<rparr>"

text \<open>The index of the denial's entry, which may be new; \<open>None\<close> when there is no room for one.\<close>

definition find_entry :: "plugin_id option \<Rightarrow> denied_reach \<Rightarrow> denial_book \<Rightarrow> (nat \<times> denial_book) option" where
  "find_entry plasmid r b =
     (case entry_position plasmid r (bk_entries b) of
        Some index \<Rightarrow> Some (index, b)
      | None \<Rightarrow>
          if \<not> entry_room plasmid b then None
          else Some (length (bk_entries b),
                 b\<lparr>bk_entries := bk_entries b @
                    [\<lparr>be_plasmid = plasmid, be_reach = r, be_count = 0, be_lines = 0\<rparr>]\<rparr>))"

definition line_of :: "denial_book \<Rightarrow> book_entry \<Rightarrow> u64 \<Rightarrow> denial_line" where
  "line_of b e at =
     (let rep = reach_report (be_reach e) in
      \<lparr>dl_seq = bk_last_seq b + 1, dl_plasmid = be_plasmid e, dl_denied = rep_denied rep,
       dl_field = rep_field rep, dl_fix = rep_fix rep, dl_count = be_count e, dl_at_ms = at,
       dl_unlogged = bk_unlogged b\<rparr>)"

definition issue_line :: "event_size \<Rightarrow> nat \<Rightarrow> u64 \<Rightarrow> denial_book \<Rightarrow> denial_book" where
  "issue_line enc index at b =
     (let e = (bk_entries b ! index)\<lparr>be_count := saturating_add (be_count (bk_entries b ! index)) 1\<rparr>;
          b' = b\<lparr>bk_entries := (bk_entries b)[index := e]\<rparr> in
      if be_lines e \<ge> lim_lines_per_denial (bk_limits b) \<or> bk_issued b \<ge> lim_lines_per_cell (bk_limits b) \<or>
         length (bk_waiting b) \<ge> lim_waiting (bk_limits b) \<or> bk_last_seq b = - 1
      then count_unlogged b'
      else if enc (log_event (bk_cell b) (line_of b' e at)) > 1024 then count_unlogged b'
      else b'\<lparr>bk_last_seq := bk_last_seq b + 1,
              bk_entries := (bk_entries b')[index := e\<lparr>be_lines := be_lines e + 1\<rparr>],
              bk_issued := bk_issued b + 1,
              bk_waiting := bk_waiting b @
                [\<lparr>pl_line = (line_of b' e at)\<lparr>dl_plasmid := None\<rparr>, pl_plasmid = be_plasmid e\<rparr>],
              bk_unlogged := 0\<rparr>)"

definition book_record :: "event_size \<Rightarrow> plugin_id option \<Rightarrow> denied_reach \<Rightarrow> u64 \<Rightarrow> denial_book \<Rightarrow> denial_book" where
  "book_record enc plasmid r at b =
     (case find_entry plasmid r b of
        None \<Rightarrow> count_unlogged b
      | Some (index, b') \<Rightarrow> issue_line enc index at b')"

section \<open>Reading\<close>

definition entry_of :: "book_entry \<Rightarrow> denial_entry" where
  "entry_of e =
     (let rep = reach_report (be_reach e) in
      \<lparr>de_denied = rep_denied rep, de_field = rep_field rep, de_fix = rep_fix rep, de_count = be_count e\<rparr>)"

fun add_to_group :: "plugin_id \<Rightarrow> denial_entry \<Rightarrow> plasmid_denials list \<Rightarrow> plasmid_denials list" where
  "add_to_group p d [] = [\<lparr>pd_plasmid = p, pd_denials = [d]\<rparr>]"
| "add_to_group p d (g # gs) =
     (if pd_plasmid g = p then g\<lparr>pd_denials := pd_denials g @ [d]\<rparr> # gs else g # add_to_group p d gs)"

fun group_entries :: "book_entry list \<Rightarrow> plasmid_denials list \<Rightarrow> plasmid_denials list" where
  "group_entries [] gs = gs"
| "group_entries (e # es) gs =
     (case be_plasmid e of
        None \<Rightarrow> group_entries es gs
      | Some p \<Rightarrow> group_entries es (add_to_group p (entry_of e) gs))"

definition acknowledge :: "u128 option \<Rightarrow> u64 \<Rightarrow> denial_book \<Rightarrow> denial_book" where
  "acknowledge book after b =
     (if book = Some (bk_id b)
      then b\<lparr>bk_waiting := filter (\<lambda>p. dl_seq (pl_line p) > after) (bk_waiting b)\<rparr> else b)"

definition book_page :: "u128 option \<Rightarrow> u64 \<Rightarrow> denial_book \<Rightarrow> denial_page \<times> denial_book" where
  "book_page book after b =
     (let b' = acknowledge book after b in
      (\<lparr>dp_cell = bk_cell b', dp_book = bk_id b',
        dp_lines = map pending_wire (take (lim_page (bk_limits b')) (bk_waiting b')),
        dp_entries = group_entries (bk_entries b') []\<rparr>, b'))"

definition book_forget :: "plugin_id \<Rightarrow> denial_book \<Rightarrow> denial_book" where
  "book_forget p b = b\<lparr>bk_entries := filter (\<lambda>e. be_plasmid e \<noteq> Some p) (bk_entries b)\<rparr>"

section \<open>The life of a book\<close>

text \<open>
  Any sequence of calls on a fresh book, with what it has been through: how many denials were recorded,
  every line ever issued, and the sequence numbers acknowledged under this book's identity.
\<close>

record book_past =
  past_records :: nat
  past_lines :: "denial_line list"
  past_acked :: "u64 set"

definition issued_between :: "denial_book \<Rightarrow> denial_book \<Rightarrow> denial_line list" where
  "issued_between b b' = map pending_wire (drop (length (bk_waiting b)) (bk_waiting b'))"

inductive book_life ::
  "event_size \<Rightarrow> cell_id \<Rightarrow> u128 \<Rightarrow> denial_limits \<Rightarrow> book_past \<Rightarrow> denial_book \<Rightarrow> bool"
  for enc cell book limits where
  life_new: "book_life enc cell book limits \<lparr>past_records = 0, past_lines = [], past_acked = {}\<rparr>
    (book_new cell book limits)"
| life_record: "book_life enc cell book limits past b \<Longrightarrow> b' = book_record enc plasmid r at b \<Longrightarrow>
    book_life enc cell book limits
      \<lparr>past_records = past_records past + 1, past_lines = past_lines past @ issued_between b b',
       past_acked = past_acked past\<rparr> b'"
| life_page: "book_life enc cell book limits past b \<Longrightarrow> b' = snd (book_page asked after b) \<Longrightarrow>
    book_life enc cell book limits
      \<lparr>past_records = past_records past, past_lines = past_lines past,
       past_acked = past_acked past \<union>
         (if asked = Some book then {s. s \<le> after \<and> s \<in> dl_seq ` set (past_lines past)} else {})\<rparr> b'"
| life_forget: "book_life enc cell book limits past b \<Longrightarrow> b' = book_forget p b \<Longrightarrow>
    book_life enc cell book limits past b'"


section \<open>What every book keeps\<close>

text \<open>The entries of a book: one for each denial, in the room its owner has.\<close>

definition denial_keys :: "book_entry list \<Rightarrow> (plugin_id option \<times> denied_reach) list" where
  "denial_keys es = map (\<lambda>e. (be_plasmid e, be_reach e)) es"

definition keys_fit :: "denial_limits \<Rightarrow> (plugin_id option \<times> denied_reach) list \<Rightarrow> bool" where
  "keys_fit limits ks =
     (distinct ks \<and>
      (\<forall>p. length (filter (\<lambda>k. fst k = Some p) ks) \<le> lim_per_plasmid limits) \<and>
      length (filter (\<lambda>k. fst k \<noteq> None) ks) \<le> lim_named limits \<and>
      length (filter (\<lambda>k. fst k = None) ks) \<le> lim_unnamed limits)"

definition entries_fit :: "denial_limits \<Rightarrow> book_entry list \<Rightarrow> bool" where
  "entries_fit limits es =
     (keys_fit limits (denial_keys es) \<and> (\<forall>e \<in> set es. be_lines e \<le> lim_lines_per_denial limits))"

lemma denial_keys_update:
  "be_plasmid e = be_plasmid (es ! i) \<Longrightarrow> be_reach e = be_reach (es ! i) \<Longrightarrow>
   denial_keys (es[i := e]) = denial_keys es"
  by (cases "i < length es") (auto simp: denial_keys_def map_update list_update_same_conv list_update_beyond)

lemma count_keys: "length (filter (\<lambda>e. Q (be_plasmid e)) es) = length (filter (\<lambda>k. Q (fst k)) (denial_keys es))"
  by (induction es) (simp_all add: denial_keys_def)

lemma entry_position_Some:
  "entry_position p r es = Some i \<Longrightarrow> i < length es \<and> be_plasmid (es ! i) = p \<and> be_reach (es ! i) = r"
  by (induction es arbitrary: i) (auto split: if_splits)

lemma entry_position_None: "entry_position p r es = None \<longleftrightarrow> (p, r) \<notin> set (denial_keys es)"
  by (induction es) (auto simp: denial_keys_def)

lemma keys_fit_new:
  assumes "keys_fit (bk_limits b) (denial_keys (bk_entries b))" and "entry_room p b"
    and "(p, r) \<notin> set (denial_keys (bk_entries b))"
  shows "keys_fit (bk_limits b) (denial_keys (bk_entries b) @ [(p, r)])"
  using assms
  by (cases p) (auto simp: keys_fit_def entry_room_def Let_def count_keys [where Q = "\<lambda>x. x = p" for p]
    count_keys [where Q = "\<lambda>x. \<exists>y. x = Some y"] Suc_le_eq)

lemma keys_fit_filter: "keys_fit limits (denial_keys es) \<Longrightarrow> keys_fit limits (denial_keys (filter P es))"
proof -
  have "length (filter Q (denial_keys (filter P es))) \<le> length (filter Q (denial_keys es))" for Q
    by (induction es) (auto simp: denial_keys_def)
  moreover have "distinct (denial_keys es) \<Longrightarrow> distinct (denial_keys (filter P es))"
    by (induction es) (auto simp: denial_keys_def)
  ultimately show "keys_fit limits (denial_keys es) \<Longrightarrow> ?thesis" unfolding keys_fit_def by (meson le_trans)
qed

lemma find_entry_Some:
  assumes "find_entry p r b = Some (i, b')" and "entries_fit (bk_limits b) (bk_entries b)"
  obtains es where "b' = b\<lparr>bk_entries := es\<rparr>" and "i < length es" and "entries_fit (bk_limits b) es"
    and "be_plasmid (es ! i) = p" and "be_reach (es ! i) = r"
proof (cases "entry_position p r (bk_entries b)")
  case None
  then have "keys_fit (bk_limits b) (denial_keys (bk_entries b) @ [(p, r)])" if "entry_room p b"
    using assms(2) that by (intro keys_fit_new) (auto simp: entries_fit_def entry_position_None)
  then show ?thesis using assms None
    by (intro that [of "bk_entries b @ [\<lparr>be_plasmid = p, be_reach = r, be_count = 0, be_lines = 0\<rparr>]"])
      (auto simp: find_entry_def entries_fit_def denial_keys_def split: if_splits)
next
  case (Some j)
  with assms entry_position_Some [OF Some] show ?thesis
    by (intro that [of "bk_entries b"]) (auto simp: find_entry_def)
qed

lemma entries_fit_update:
  assumes "entries_fit limits es" and "i < length es" and "be_plasmid e = be_plasmid (es ! i)"
    and "be_reach e = be_reach (es ! i)" and "be_lines e \<le> lim_lines_per_denial limits"
  shows "entries_fit limits (es[i := e])"
  using assms set_update_subset_insert [of es i e] by (auto simp: entries_fit_def denial_keys_update)

text \<open>What one record does: it counts the denial as not said, or issues the next line.\<close>

definition next_line :: "event_size \<Rightarrow> denial_book \<Rightarrow> denial_line \<Rightarrow> bool" where
  "next_line enc b l =
     (dl_seq l = bk_last_seq b + 1 \<and> dl_unlogged l = bk_unlogged b \<and> bk_last_seq b \<noteq> - 1 \<and>
      bk_issued b < lim_lines_per_cell (bk_limits b) \<and> length (bk_waiting b) < lim_waiting (bk_limits b) \<and>
      enc (log_event (bk_cell b) l) \<le> 1024)"

lemma pending_wire_line_of:
  "pending_wire \<lparr>pl_line = (line_of b e at)\<lparr>dl_plasmid := None\<rparr>, pl_plasmid = be_plasmid e\<rparr> = line_of b e at"
  by (simp add: pending_wire_def line_of_def Let_def)

lemma book_record_cases:
  assumes "entries_fit (bk_limits b) (bk_entries b)"
  obtains (unsaid) es where "book_record enc p r at b = count_unlogged (b\<lparr>bk_entries := es\<rparr>)"
      and "entries_fit (bk_limits b) es"
  | (said) es l where "book_record enc p r at b =
        b\<lparr>bk_last_seq := bk_last_seq b + 1, bk_entries := es, bk_issued := bk_issued b + 1,
          bk_waiting := bk_waiting b @ [l], bk_unlogged := 0\<rparr>"
      and "entries_fit (bk_limits b) es" and "next_line enc b (pending_wire l)"
proof (cases "find_entry p r b")
  case None
  with assms show ?thesis by (intro unsaid [of "bk_entries b"]) (simp_all add: book_record_def)
next
  case (Some a)
  obtain i b' where a: "a = (i, b')" by (cases a)
  obtain es where b': "b' = b\<lparr>bk_entries := es\<rparr>" "i < length es" "entries_fit (bk_limits b) es"
    using find_entry_Some assms Some a by metis
  define e where "e = (es ! i)\<lparr>be_count := saturating_add (be_count (es ! i)) 1\<rparr>"
  have e: "be_plasmid e = be_plasmid (es ! i)" "be_reach e = be_reach (es ! i)" "be_lines e = be_lines (es ! i)"
    by (simp_all add: e_def)
  have fits: "entries_fit (bk_limits b) (es[i := e])"
    using b' e by (intro entries_fit_update) (auto simp: entries_fit_def)
  define c where "c = b\<lparr>bk_entries := es[i := e]\<rparr>"
  have step: "book_record enc p r at b = issue_line enc i at (b\<lparr>bk_entries := es\<rparr>)"
    by (simp add: book_record_def Some a b')
  show ?thesis
  proof (cases "book_record enc p r at b = count_unlogged c")
    case True
    with fits show ?thesis by (intro unsaid [of "es[i := e]"]) (simp_all add: c_def)
  next
    case False
    then have ok: "\<not> be_lines e \<ge> lim_lines_per_denial (bk_limits b)" "\<not> bk_issued b \<ge> lim_lines_per_cell (bk_limits b)"
      "\<not> length (bk_waiting b) \<ge> lim_waiting (bk_limits b)" "bk_last_seq b \<noteq> - 1"
      "\<not> enc (log_event (bk_cell b) (line_of c e at)) > 1024"
      unfolding step by (auto simp: issue_line_def Let_def e_def c_def split: if_splits)
    have "be_lines e + 1 \<le> lim_lines_per_denial (bk_limits b)"
      using ok(1) by (simp add: inc_le not_le)
    then have "entries_fit (bk_limits b) (es[i := e\<lparr>be_lines := be_lines e + 1\<rparr>])"
      using b' e by (intro entries_fit_update) auto
    moreover have "next_line enc b (line_of c e at)"
      using ok by (simp add: next_line_def line_of_def c_def Let_def)
    ultimately show ?thesis
      using ok by (intro said [where l = "\<lparr>pl_line = (line_of c e at)\<lparr>dl_plasmid := None\<rparr>, pl_plasmid = be_plasmid e\<rparr>"])
        (simp_all add: step issue_line_def Let_def e_def [symmetric] c_def pending_wire_line_of)
  qed
qed

section \<open>The invariant of a book's life\<close>

definition book_sound ::
  "event_size \<Rightarrow> cell_id \<Rightarrow> u128 \<Rightarrow> denial_limits \<Rightarrow> book_past \<Rightarrow> denial_book \<Rightarrow> bool" where
  "book_sound enc cell book limits past b =
     (bk_cell b = cell \<and> bk_id b = book \<and> bk_limits b = limits \<and> entries_fit limits (bk_entries b) \<and>
      length (bk_waiting b) \<le> lim_waiting limits \<and> bk_issued b \<le> lim_lines_per_cell limits \<and>
      unat (bk_issued b) = length (past_lines past) \<and> unat (bk_last_seq b) = length (past_lines past) \<and>
      map (\<lambda>l. unat (dl_seq l)) (past_lines past) = [1..<Suc (length (past_lines past))] \<and>
      map pending_wire (bk_waiting b) = filter (\<lambda>l. dl_seq l \<notin> past_acked past) (past_lines past) \<and>
      past_acked past \<subseteq> dl_seq ` set (past_lines past) \<and>
      (\<forall>l \<in> set (past_lines past). enc (log_event cell l) \<le> 1024))"

definition said_and_unsaid :: "book_past \<Rightarrow> denial_book \<Rightarrow> nat" where
  "said_and_unsaid past b =
     sum_list (map (\<lambda>l. 1 + unat (dl_unlogged l)) (past_lines past)) + unat (bk_unlogged b)"

lemma dl_seq_pending_wire [simp]: "dl_seq (pending_wire p) = dl_seq (pl_line p)"
  by (simp add: pending_wire_def)

lemma unat_next: "x \<noteq> (- 1 :: 'a::len word) \<Longrightarrow> unat (x + 1) = Suc (unat x)"
  by (metis add.commute add_eq_0_iff unatSuc)

lemma seq_is_fresh:
  assumes "map (\<lambda>l. unat (dl_seq l)) ls = [1..<Suc (length ls)]" and "length ls < unat s"
  shows "s \<notin> dl_seq ` set ls"
proof
  assume "s \<in> dl_seq ` set ls"
  then have "unat s \<in> set (map (\<lambda>l. unat (dl_seq l)) ls)" by auto
  then show False using assms by simp
qed

lemma sound_new: "book_sound enc cell book limits \<lparr>past_records = 0, past_lines = [], past_acked = {}\<rparr>
    (book_new cell book limits)"
  by (simp add: book_sound_def book_new_def entries_fit_def keys_fit_def denial_keys_def)

lemma sound_said:
  assumes "book_sound enc cell book limits past b" and "entries_fit limits es"
    and next_l: "next_line enc b (pending_wire l)"
  shows "book_sound enc cell book limits
    \<lparr>past_records = n, past_lines = past_lines past @ [pending_wire l], past_acked = past_acked past\<rparr>
    (b\<lparr>bk_last_seq := bk_last_seq b + 1, bk_entries := es, bk_issued := bk_issued b + 1,
       bk_waiting := bk_waiting b @ [l], bk_unlogged := 0\<rparr>)"
proof -
  have seq: "unat (bk_last_seq b + 1) = Suc (length (past_lines past))"
    using assms unat_next [of "bk_last_seq b"] by (simp add: next_line_def book_sound_def)
  have below: "bk_issued b < lim_lines_per_cell limits"
    using assms by (simp add: next_line_def book_sound_def)
  then have "bk_issued b \<noteq> - 1" using word_order.extremum_strict by auto
  then have issued: "unat (bk_issued b + 1) = Suc (length (past_lines past))"
    using assms unat_next [of "bk_issued b"] by (simp add: book_sound_def)
  have "bk_last_seq b + 1 \<notin> dl_seq ` set (past_lines past)"
    using assms seq by (intro seq_is_fresh) (simp_all add: book_sound_def)
  moreover have "dl_seq (pl_line l) = bk_last_seq b + 1"
    using next_l by (simp add: next_line_def)
  moreover have "bk_issued b + 1 \<le> lim_lines_per_cell limits" using below by (rule inc_le)
  ultimately show ?thesis
    using assms seq issued unfolding book_sound_def next_line_def by auto
qed

lemma sound_record:
  assumes "book_sound enc cell book limits past b"
  shows "book_sound enc cell book limits
    \<lparr>past_records = n, past_lines = past_lines past @ issued_between b (book_record enc p r at b),
     past_acked = past_acked past\<rparr> (book_record enc p r at b)"
proof -
  have fits: "entries_fit (bk_limits b) (bk_entries b)" and limits: "bk_limits b = limits"
    using assms by (simp_all add: book_sound_def)
  show ?thesis
  proof (cases rule: book_record_cases [OF fits, of enc p r at])
    case (1 es)
    then show ?thesis using assms
      by (simp add: book_sound_def issued_between_def count_unlogged_def)
  next
    case (2 es l)
    then show ?thesis using sound_said [OF assms, of es l] by (simp add: limits issued_between_def)
  qed
qed

lemma sound_page:
  assumes "book_sound enc cell book limits past b"
  shows "book_sound enc cell book limits
    \<lparr>past_records = n, past_lines = past_lines past,
     past_acked = past_acked past \<union>
       (if asked = Some book then {s. s \<le> after \<and> s \<in> dl_seq ` set (past_lines past)} else {})\<rparr>
    (snd (book_page asked after b))"
proof (cases "asked = Some book")
  case True
  have "map pending_wire (filter (\<lambda>p. after < dl_seq (pl_line p)) (bk_waiting b)) =
      filter (\<lambda>l. after < dl_seq l) (map pending_wire (bk_waiting b))"
    by (simp add: filter_map comp_def)
  also have "\<dots> = filter (\<lambda>l. dl_seq l \<notin> past_acked past \<and> \<not> dl_seq l \<le> after) (past_lines past)"
    using assms by (simp add: book_sound_def not_le conj_commute)
  also have "\<dots> = filter (\<lambda>l. dl_seq l \<notin> past_acked past \<union> {s. s \<le> after \<and> s \<in> dl_seq ` set (past_lines past)})
      (past_lines past)"
    by (rule filter_cong) auto
  finally show ?thesis
    using assms True
    by (auto simp: book_sound_def book_page_def acknowledge_def Let_def intro: le_trans [OF length_filter_le])
next
  case False
  then show ?thesis using assms by (auto simp: book_sound_def book_page_def acknowledge_def Let_def)
qed

lemma sound_forget: "book_sound enc cell book limits past b \<Longrightarrow> book_sound enc cell book limits past (book_forget p b)"
  by (simp add: book_sound_def book_forget_def entries_fit_def keys_fit_filter)

lemma book_life_sound: "book_life enc cell book limits past b \<Longrightarrow> book_sound enc cell book limits past b"
  by (induction rule: book_life.induct) (simp_all only: sound_new sound_record sound_page sound_forget)

lemma said_record:
  assumes "book_sound enc cell book limits past b" and "said_and_unsaid past b < 2 ^ 64 - 1"
  shows "said_and_unsaid
    \<lparr>past_records = n, past_lines = past_lines past @ issued_between b (book_record enc p r at b),
     past_acked = past_acked past\<rparr> (book_record enc p r at b) = Suc (said_and_unsaid past b)"
proof -
  have fits: "entries_fit (bk_limits b) (bk_entries b)" using assms by (simp add: book_sound_def)
  have sat: "unat (saturating_add (bk_unlogged b) 1) = Suc (unat (bk_unlogged b))"
    using assms(2) by (simp add: unat_saturating_add said_and_unsaid_def)
  show ?thesis
    by (cases rule: book_record_cases [OF fits, of enc p r at])
      (simp_all add: said_and_unsaid_def issued_between_def count_unlogged_def sat next_line_def)
qed

lemma book_life_accounts:
  "book_life enc cell book limits past b \<Longrightarrow> past_records past < 2 ^ 64 \<Longrightarrow> said_and_unsaid past b = past_records past"
proof (induction rule: book_life.induct)
  case life_new
  then show ?case by (simp add: said_and_unsaid_def book_new_def)
next
  case (life_record past b b' p r at)
  then show ?case using said_record [OF book_life_sound] by simp
next
  case (life_page past b b' asked after)
  then show ?case by (simp add: said_and_unsaid_def book_page_def acknowledge_def Let_def)
next
  case (life_forget past b b' p)
  then show ?case by (simp add: said_and_unsaid_def book_forget_def)
qed

section \<open>Properties\<close>

definition demo_denial_limits :: denial_limits where
  "demo_denial_limits = DEFAULT_LIMITS\<lparr>lim_waiting := 2\<rparr>"

definition demo_denial_book :: denial_book where
  "demo_denial_book =
     snd (book_page (Some 7) 1
       (book_record (\<lambda>_. 200) None (ReachPort (ascii ''a.test'') 22) 12
         (book_record (\<lambda>_. 200) (Some ''web'') (ReachHost (ascii ''b.test'')) 11
           (book_record (\<lambda>_. 200) (Some ''web'') (ReachHost (ascii ''b.test'')) 10
             (book_new ''cell-1'' 7 demo_denial_limits)))))"

definition demo_denial_line :: "u64 \<Rightarrow> u64 \<Rightarrow> denial_line" where
  "demo_denial_line n at =
     \<lparr>dl_seq = n, dl_plasmid = Some ''web'', dl_denied = ascii ''b.test'', dl_field = ''network.hosts'',
      dl_fix = toml_string (ascii ''b.test''), dl_count = n, dl_at_ms = at, dl_unlogged = 0\<rparr>"

definition demo_denial_past :: book_past where
  "demo_denial_past =
     \<lparr>past_records = 3, past_lines = [demo_denial_line 1 10, demo_denial_line 2 11], past_acked = {1}\<rparr>"

lemma demo_denial_life: "book_life (\<lambda>_. 200) ''cell-1'' 7 demo_denial_limits demo_denial_past demo_denial_book"
proof -
  let ?life = "book_life (\<lambda>_. 200) ''cell-1'' 7 demo_denial_limits"
  let ?b0 = "book_new ''cell-1'' 7 demo_denial_limits"
  let ?b1 = "book_record (\<lambda>_. 200) (Some ''web'') (ReachHost (ascii ''b.test'')) 10 ?b0"
  let ?b2 = "book_record (\<lambda>_. 200) (Some ''web'') (ReachHost (ascii ''b.test'')) 11 ?b1"
  let ?b3 = "book_record (\<lambda>_. 200) None (ReachPort (ascii ''a.test'') 22) 12 ?b2"
  note eval = book_record_def find_entry_def issue_line_def Let_def book_new_def demo_denial_limits_def
    DEFAULT_LIMITS_def entry_room_def line_of_def count_unlogged_def demo_denial_line_def issued_between_def
    pending_wire_def saturating_add_def
  have new: "?life \<lparr>past_records = 0, past_lines = [], past_acked = {}\<rparr> ?b0" by (rule life_new)
  have first: "issued_between ?b0 ?b1 = [demo_denial_line 1 10]" by (simp add: eval word_le_nat_alt)
  have second: "issued_between ?b1 ?b2 = [demo_denial_line 2 11]" by (simp add: eval word_le_nat_alt)
  have third: "issued_between ?b2 ?b3 = []" by (simp add: eval word_le_nat_alt)
  have "?life \<lparr>past_records = 1, past_lines = [demo_denial_line 1 10], past_acked = {}\<rparr> ?b1"
    using life_record [OF new refl, where plasmid = "Some ''web''" and r = "ReachHost (ascii ''b.test'')" and at = 10]
    by (simp only: first) simp
  from life_record [OF this refl, where plasmid = "Some ''web''" and r = "ReachHost (ascii ''b.test'')" and at = 11]
  have "?life \<lparr>past_records = 2, past_lines = [demo_denial_line 1 10, demo_denial_line 2 11],
      past_acked = {}\<rparr> ?b2"
    by (simp only: second) (simp add: numeral_2_eq_2)
  from life_record [OF this refl, where plasmid = None and r = "ReachPort (ascii ''a.test'') 22" and at = 12]
  have "?life \<lparr>past_records = 3, past_lines = [demo_denial_line 1 10, demo_denial_line 2 11],
      past_acked = {}\<rparr> ?b3"
    by (simp only: third) (simp add: numeral_3_eq_3 numeral_2_eq_2)
  moreover have "{s :: u64. s \<le> 1 \<and> (s = 1 \<or> s = 2)} = {1}" by (auto simp: word_le_nat_alt)
  ultimately show ?thesis
    using life_page [of "\<lambda>_. 200" "''cell-1''" 7 demo_denial_limits _ ?b3 _ "Some 7" 1]
    by (force simp: demo_denial_past_def demo_denial_book_def demo_denial_line_def)
qed

text \<open>
  C31. However a cell's boundary is driven, its book stays within its bounds: it holds each distinct
  denial once, at most the stated number of them for one plasmid, for all plasmids and for none, lets at
  most the stated number of lines wait, issues at most the stated number in its life, none longer than
  1,024 bytes as a log event, and answers at most a page of them.
\<close>

theorem denial_book_is_bounded:
  assumes "book_life enc cell book limits past b"
  shows "distinct (map (\<lambda>e. (be_plasmid e, be_reach e)) (bk_entries b))
    \<and> length (filter (\<lambda>e. be_plasmid e = Some p) (bk_entries b)) \<le> lim_per_plasmid limits
    \<and> length (filter (\<lambda>e. be_plasmid e \<noteq> None) (bk_entries b)) \<le> lim_named limits
    \<and> length (filter (\<lambda>e. be_plasmid e = None) (bk_entries b)) \<le> lim_unnamed limits
    \<and> length (bk_waiting b) \<le> lim_waiting limits
    \<and> length (past_lines past) \<le> unat (lim_lines_per_cell limits)
    \<and> list_all (\<lambda>l. enc (log_event cell l) \<le> 1024) (past_lines past)
    \<and> length (dp_lines (fst (book_page asked after b))) \<le> lim_page limits"
proof -
  note sound = book_life_sound [OF assms, unfolded book_sound_def entries_fit_def keys_fit_def]
  then have "length (past_lines past) \<le> unat (lim_lines_per_cell limits)"
    by (metis word_le_nat_alt)
  moreover have "length (dp_lines (fst (book_page asked after b))) \<le> lim_page limits"
    using sound by (simp add: book_page_def acknowledge_def Let_def)
  ultimately show ?thesis
    using sound count_keys [of "\<lambda>x. x = Some p" "bk_entries b"] count_keys [of "\<lambda>x. x \<noteq> None" "bk_entries b"]
      count_keys [of "\<lambda>x. x = None" "bk_entries b"]
    by (simp add: denial_keys_def [symmetric] list_all_iff)
qed

theorem denial_book_is_bounded_witness: "length (bk_waiting demo_denial_book) \<le> 2"
  using denial_book_is_bounded [OF demo_denial_life, of "''web''" None 0]
  by (simp add: demo_denial_limits_def)

text \<open>
  C32. No line is lost on its way to the reader. The lines a book issues in its life are numbered one by
  one from 1, and a page answers the oldest of exactly those that were not acknowledged under this book's
  identity, in their order; an acknowledgement meant for another book acknowledges nothing.
\<close>

theorem lines_wait_until_acknowledged:
  assumes "book_life enc cell book limits past b"
  shows "map (\<lambda>l. unat (dl_seq l)) (past_lines past) = [1..<Suc (length (past_lines past))]
    \<and> dp_book (fst (book_page asked after b)) = book
    \<and> dp_lines (fst (book_page asked after b)) =
        take (lim_page limits) (filter
          (\<lambda>l. dl_seq l \<notin> past_acked past \<and> \<not> (asked = Some book \<and> dl_seq l \<le> after)) (past_lines past))"
proof -
  note sound = book_life_sound [OF assms]
  have page: "dp_lines (fst (book_page asked after b)) =
      take (lim_page (bk_limits b)) (map pending_wire (bk_waiting (snd (book_page asked after b))))"
    by (simp add: book_page_def acknowledge_def Let_def take_map)
  have "map pending_wire (bk_waiting (snd (book_page asked after b))) =
      filter (\<lambda>l. dl_seq l \<notin> past_acked past \<union>
          (if asked = Some book then {s. s \<le> after \<and> s \<in> dl_seq ` set (past_lines past)} else {}))
        (past_lines past)"
    using sound_page [OF sound, of 0 asked after] unfolding book_sound_def by simp
  then have "dp_lines (fst (book_page asked after b)) = take (lim_page limits)
      (filter (\<lambda>l. dl_seq l \<notin> past_acked past \<union>
          (if asked = Some book then {s. s \<le> after \<and> s \<in> dl_seq ` set (past_lines past)} else {}))
        (past_lines past))"
    using sound by (simp only: page book_sound_def)
  also have "\<dots> = take (lim_page limits) (filter
      (\<lambda>l. dl_seq l \<notin> past_acked past \<and> \<not> (asked = Some book \<and> dl_seq l \<le> after)) (past_lines past))"
    by (intro arg_cong [where f = "take _"] filter_cong) auto
  finally show ?thesis
    using sound by (simp add: book_sound_def book_page_def acknowledge_def Let_def)
qed

theorem lines_wait_until_acknowledged_witness:
  "dp_lines (fst (book_page None 0 demo_denial_book)) = [demo_denial_line 2 11]"
  using lines_wait_until_acknowledged [OF demo_denial_life, of None 0]
  by (simp add: demo_denial_past_def demo_denial_line_def demo_denial_limits_def DEFAULT_LIMITS_def)

text \<open>
  C33. Every denial is said or counted as unsaid. While a book has recorded fewer than \<open>2 ^ 64\<close> denials,
  their number is the number of lines issued, plus the denials each line says were left unsaid before it,
  plus those not yet told.
\<close>

theorem every_denial_is_accounted:
  assumes "book_life enc cell book limits past b" and "past_records past < 2 ^ 64"
  shows "sum_list (map (\<lambda>l. 1 + unat (dl_unlogged l)) (past_lines past)) + unat (bk_unlogged b)
    = past_records past"
  using book_life_accounts [OF assms] by (simp add: said_and_unsaid_def)

theorem every_denial_is_accounted_witness: "bk_unlogged demo_denial_book = 1"
  using every_denial_is_accounted [OF demo_denial_life]
  by (simp add: demo_denial_past_def demo_denial_line_def word_unat_eq_iff)

end
