(* ===== verification/Cidr.thy ===== *)
theory Cidr
  imports Recipe
begin

text \<open>
  The IP networks of \<open>crates/plasmosome-core/src/manifest.rs\<close>: \<open>Cidr::parse\<close>, its refusals,
  \<open>Cidr::contains\<close> and the text of a network.
\<close>

unbundle bit_operations_syntax

section \<open>Addresses as integers\<close>

text \<open>\<open>u32::from\<close> and \<open>u128::from\<close> of an address, and back.\<close>

fun v4_bits :: "ipv4_addr \<Rightarrow> u32" where
  "v4_bits (Ipv4Addr a b c d) =
     push_bit 8 (push_bit 8 (push_bit 8 (ucast a) OR ucast b) OR ucast c) OR ucast d"

definition v4_of_bits :: "u32 \<Rightarrow> ipv4_addr" where
  "v4_of_bits w = Ipv4Addr (ucast (drop_bit 24 w)) (ucast (drop_bit 16 w)) (ucast (drop_bit 8 w)) (ucast w)"

definition v6_bits :: "ipv6_addr \<Rightarrow> u128" where
  "v6_bits segs = foldl (\<lambda>w s. push_bit 16 w OR ucast s) 0 segs"

definition v6_of_bits :: "u128 \<Rightarrow> ipv6_addr" where
  "v6_of_bits w = map (\<lambda>i. ucast (drop_bit (16 * (7 - i)) w)) [0..<8]"

fun is_ipv4 :: "ip_addr \<Rightarrow> bool" where
  "is_ipv4 (V4 _) = True"
| "is_ipv4 (V6 _) = False"

section \<open>Networks\<close>

record cidr =
  cd_network :: ip_addr
  cd_prefix :: u8

datatype cidr_error = CidrMalformed | HostBitsSet cidr

text \<open>\<open>checked_shl\<close> of all ones: a shift by the whole width has no value, and the mask is then empty.\<close>

definition network_mask :: "u8 \<Rightarrow> 'a::len word" where
  "network_mask prefix =
     (let shift = LENGTH('a) - unat prefix in if shift < LENGTH('a) then push_bit shift (- 1) else 0)"

fun masked :: "ip_addr \<Rightarrow> u8 \<Rightarrow> ip_addr" where
  "masked (V4 v4) prefix = V4 (v4_of_bits (v4_bits v4 AND network_mask prefix))"
| "masked (V6 v6) prefix = V6 (v6_of_bits (v6_bits v6 AND network_mask prefix))"

text \<open>\<open>str::parse\<close> of decimal digits as a \<open>u8\<close>: a value past 255 has none.\<close>

definition prefix_length :: "string \<Rightarrow> nat \<Rightarrow> u8 option" where
  "prefix_length txt width =
     (let n = digits_value 10 (fst (read_digits 10 txt)) in
      if txt = [] \<or> \<not> list_all is_ascii_digit txt \<or> (length txt > 1 \<and> hd txt = CHR ''0'') then None
      else if n < 256 \<and> n \<le> width then Some (of_nat n) else None)"

text \<open>\<open>split_once('/')\<close>.\<close>

fun split_once :: "'a \<Rightarrow> 'a list \<Rightarrow> ('a list \<times> 'a list) option" where
  "split_once c [] = None"
| "split_once c (x # xs) =
     (if x = c then Some ([], xs) else map_option (\<lambda>(a, b). (x # a, b)) (split_once c xs))"

definition cidr_parse :: "string \<Rightarrow> cidr_error + cidr" where
  "cidr_parse txt =
     and_then (ok_or (split_once (CHR ''/'') txt) CidrMalformed) (\<lambda>(written, prefix).
     and_then (ok_or (canonical_ip_literal written) CidrMalformed) (\<lambda>address.
     and_then (ok_or (prefix_length prefix (if is_ipv4 address then 32 else 128)) CidrMalformed) (\<lambda>prefix.
     let network = \<lparr>cd_network = masked address prefix, cd_prefix = prefix\<rparr> in
     if cd_network network \<noteq> address then Err (HostBitsSet network) else Ok network)))"

definition cidr_contains :: "cidr \<Rightarrow> ip_addr \<Rightarrow> bool" where
  "cidr_contains c address =
     (is_ipv4 address = is_ipv4 (cd_network c) \<and> masked address (cd_prefix c) = cd_network c)"

definition show_cidr :: "cidr \<Rightarrow> string" where
  "show_cidr c = show_ip (cd_network c) @ CHR ''/'' # show_nat (unat (cd_prefix c))"

section \<open>Bits\<close>

lemma join_low: "push_bit n (drop_bit n w) OR take_bit n w = (w :: 'a::len word)"
  by (rule bit_word_eqI) (auto simp: bit_simps)

lemma join_byte:
  "push_bit 8 (drop_bit (Suc m * 8) w) OR ucast (ucast (drop_bit (m * 8) w) :: u8) = (drop_bit (m * 8) w :: u32)"
  using join_low [of 8 "drop_bit (m * 8) w"] by (simp add: add.commute unsigned_ucast_eq eval_nat_numeral)

lemma join_segment:
  "push_bit 16 (drop_bit (Suc m * 16) w) OR ucast (ucast (drop_bit (m * 16) w) :: u16) = (drop_bit (m * 16) w :: u128)"
  using join_low [of 16 "drop_bit (m * 16) w"] by (simp add: add.commute unsigned_ucast_eq eval_nat_numeral)

lemma v4_bits_of_bits [simp]: "v4_bits (v4_of_bits w) = w"
  using join_byte [of 0 w] join_byte [of 1 w] join_byte [of 2 w] join_byte [of 3 w]
  by (simp add: v4_of_bits_def drop_bit_word_beyond eval_nat_numeral)

lemma v6_bits_of_bits [simp]: "v6_bits (v6_of_bits w) = w"
  using join_segment [of 0 w] join_segment [of 1 w] join_segment [of 2 w] join_segment [of 3 w]
    join_segment [of 4 w] join_segment [of 5 w] join_segment [of 6 w] join_segment [of 7 w]
  by (simp add: v6_of_bits_def v6_bits_def upt_conv_Cons drop_bit_word_beyond)

lemma bit_network_mask:
  "unat p \<le> LENGTH('a) \<Longrightarrow> bit (network_mask p :: 'a::len word) i \<longleftrightarrow> LENGTH('a) - unat p \<le> i \<and> i < LENGTH('a)"
  by (auto simp: network_mask_def Let_def bit_simps)

text \<open>The bits of an address, the most significant first.\<close>

fun address_bit :: "ip_addr \<Rightarrow> nat \<Rightarrow> bool" where
  "address_bit (V4 a) i = bit (v4_bits a) (31 - i)"
| "address_bit (V6 a) i = bit (v6_bits a) (127 - i)"

definition address_width :: "ip_addr \<Rightarrow> nat" where
  "address_width a = (if is_ipv4 a then 32 else 128)"

lemma mask_agree:
  fixes x y :: "'a::len word"
  assumes "unat p \<le> LENGTH('a)"
  shows "x AND network_mask p = y AND network_mask p \<longleftrightarrow>
    (\<forall>i < unat p. bit x (LENGTH('a) - 1 - i) = bit y (LENGTH('a) - 1 - i))"
proof
  assume eq: "x AND network_mask p = y AND network_mask p"
  show "\<forall>i < unat p. bit x (LENGTH('a) - 1 - i) = bit y (LENGTH('a) - 1 - i)"
  proof (intro allI impI)
    fix i assume "i < unat p"
    then have "bit (network_mask p :: 'a word) (LENGTH('a) - 1 - i)"
      using assms by (auto simp: bit_network_mask)
    then show "bit x (LENGTH('a) - 1 - i) = bit y (LENGTH('a) - 1 - i)"
      using arg_cong [OF eq, of "\<lambda>w. bit w (LENGTH('a) - 1 - i)"] by (simp add: bit_and_iff)
  qed
next
  assume same: "\<forall>i < unat p. bit x (LENGTH('a) - 1 - i) = bit y (LENGTH('a) - 1 - i)"
  show "x AND network_mask p = y AND network_mask p"
  proof (rule bit_word_eqI)
    fix n assume n: "n < LENGTH('a)"
    show "bit (x AND network_mask p) n = bit (y AND network_mask p) n"
      using same [rule_format, of "LENGTH('a) - 1 - n"] n assms
      by (auto simp: bit_and_iff bit_network_mask)
  qed
qed

lemma v4_masked_iff: "v4_of_bits x = v4_of_bits y \<longleftrightarrow> x = y"
  by (metis v4_bits_of_bits)

lemma v6_masked_iff: "v6_of_bits x = v6_of_bits y \<longleftrightarrow> x = y"
  by (metis v6_bits_of_bits)

text \<open>Two addresses of one family mask to the same network exactly when their first bits agree.\<close>

lemma masked_agree:
  assumes "is_ipv4 a = is_ipv4 b" and "unat p \<le> address_width b"
  shows "masked a p = masked b p \<longleftrightarrow> (\<forall>i < unat p. address_bit a i = address_bit b i)"
  using assms
  by (cases a; cases b)
    (simp_all add: v4_masked_iff v6_masked_iff mask_agree [where 'a = 32] mask_agree [where 'a = 128] address_width_def)

lemma masked_idem: "masked (masked a p) p = masked a p"
  by (cases a) (simp_all add: and.assoc)

section \<open>Texts\<close>

lemma split_once_Some: "split_once c xs = Some (a, b) \<Longrightarrow> xs = a @ c # b \<and> c \<notin> set a"
  by (induction xs arbitrary: a) (auto split: if_splits)

lemma digit_char_hex: "is_ascii_digit c \<Longrightarrow> to_digit 10 c = Some (hex_value c) \<and> hex_value c < 10 \<and> digit_char (hex_value c) = c"
  by (auto simp: to_digit_def hex_value_def is_ascii_digit_def digit_char_def byte_of_def)

lemma show_digits_value:
  assumes "list_all is_ascii_digit ds" and "ds \<noteq> []" and "length ds > 1 \<longrightarrow> hd ds \<noteq> CHR ''0''"
  shows "show_nat (digits_value 10 (map hex_value ds)) = ds"
  using assms
proof (induction ds rule: rev_induct)
  case (snoc d ds)
  then have d: "hex_value d < 10" "digit_char (hex_value d) = d" using digit_char_hex by auto
  show ?case
  proof (cases "ds = []")
    case True
    then show ?thesis using d by (simp add: digits_value_def show_nat.simps)
  next
    case False
    then have rec: "show_nat (digits_value 10 (map hex_value ds)) = ds" and nz: "hd ds \<noteq> CHR ''0''"
      using snoc by auto
    have "digits_value 10 (map hex_value ds) \<noteq> 0"
    proof
      assume "digits_value 10 (map hex_value ds) = 0"
      then have "ds = [digit_char 0]" using rec by (simp add: show_nat.simps)
      moreover have "digit_char 0 = CHR ''0''" by code_simp
      ultimately show False using nz by simp
    qed
    then have "show_nat (digits_value 10 (map hex_value ds) * 10 + hex_value d) = ds @ [d]"
      using d rec by (subst show_nat.simps) simp
    then show ?thesis by (simp add: digits_value_append)
  qed
qed simp

lemma read_digits_all: "list_all is_ascii_digit ds \<Longrightarrow> read_digits 10 ds = (map hex_value ds, [])"
  by (induction ds) (auto simp: digit_char_hex)

lemma prefix_length_Some:
  assumes "prefix_length txt width = Some p" and "width \<le> 255"
  shows "unat p \<le> width \<and> show_nat (unat p) = txt"
  using assms show_digits_value [of "txt"]
  by (auto simp: prefix_length_def Let_def read_digits_all unat_of_nat split: if_splits)

lemma cidr_parse_Ok:
  assumes "cidr_parse txt = Ok c"
  shows "show_cidr c = txt \<and> unat (cd_prefix c) \<le> address_width (cd_network c) \<and>
    masked (cd_network c) (cd_prefix c) = cd_network c"
proof -
  obtain written prefix where split: "split_once (CHR ''/'') txt = Some (written, prefix)"
    and addr: "canonical_ip_literal written = Some (cd_network c)"
    and len: "prefix_length prefix (if is_ipv4 (cd_network c) then 32 else 128) = Some (cd_prefix c)"
    and same: "masked (cd_network c) (cd_prefix c) = cd_network c"
    using assms by (auto simp: cidr_parse_def Let_def and_then_eq_Inr ok_or_def split: option.splits if_splits)
  from split_once_Some [OF split] canonical_ip_literal_show [OF addr] prefix_length_Some [OF len] same
  show ?thesis by (auto simp: show_cidr_def address_width_def)
qed

section \<open>Properties\<close>

text \<open>
  C34. A network is accepted in exactly one spelling, and contains what its prefix says. Whatever text
  \<open>Cidr::parse\<close> accepts is the text the network is shown as, so no two texts name one network; the
  network contains itself, and it contains an address exactly when that is of its family and agrees with
  it on the first \<open>prefix\<close> bits.
\<close>

theorem cidr_is_canonical:
  assumes "cidr_parse txt = Ok c"
  shows "show_cidr c = txt \<and> cidr_contains c (cd_network c) \<and>
    (cidr_contains c a \<longleftrightarrow>
      is_ipv4 a = is_ipv4 (cd_network c) \<and>
      list_all (\<lambda>i. address_bit a i = address_bit (cd_network c) i) [0..<unat (cd_prefix c)])"
proof -
  have same: "masked (cd_network c) (cd_prefix c) = cd_network c"
    and le: "unat (cd_prefix c) \<le> address_width (cd_network c)"
    using cidr_parse_Ok [OF assms] by simp_all
  have "masked a (cd_prefix c) = cd_network c \<longleftrightarrow>
      (\<forall>i < unat (cd_prefix c). address_bit a i = address_bit (cd_network c) i)"
    if "is_ipv4 a = is_ipv4 (cd_network c)"
    using masked_agree [OF that le] by (simp add: same)
  then show ?thesis
    using cidr_parse_Ok [OF assms] by (auto simp: cidr_contains_def list_all_iff)
qed

lemma demo_cidr: "cidr_parse ''192.0.2.0/24'' = Ok \<lparr>cd_network = V4 (Ipv4Addr 192 0 2 0), cd_prefix = 24\<rparr>"
  by code_simp

theorem cidr_is_canonical_witness:
  "cidr_contains \<lparr>cd_network = V4 (Ipv4Addr 192 0 2 0), cd_prefix = 24\<rparr> (V4 (Ipv4Addr 192 0 2 0))"
  using cidr_is_canonical [OF demo_cidr, THEN conjunct2, THEN conjunct1] by (simp only: cidr.simps)

end
