(* ===== verification/Toml_Value.thy ===== *)
theory Toml_Value
  imports Toml_Text
begin

text \<open>
  A parsed TOML value, as \<open>toml::Value\<close>, and what \<open>crates/plasmosome-core/src/manifest.rs\<close> reads of one. A
  table is its entries in the order of its keys. A float is what the code asks of it: whether it is a NaN,
  the text \<open>{:?}\<close> gives, and the integer it is when it has no fraction. A date is its text.
\<close>

record float_view =
  fv_nan :: bool
  fv_debug :: utext
  fv_whole :: "64 word option"

datatype tvalue =
    TString utext
  | TInteger "64 word"
  | TFloat float_view
  | TBoolean bool
  | TDatetime utext
  | TArray "tvalue list"
  | TTable "(utext \<times> tvalue) list"

section \<open>Reading a value\<close>

fun tv_str :: "tvalue \<Rightarrow> utext option" where
  "tv_str (TString s) = Some s"
| "tv_str _ = None"

fun tv_integer :: "tvalue \<Rightarrow> 64 word option" where
  "tv_integer (TInteger n) = Some n"
| "tv_integer _ = None"

fun tv_array :: "tvalue \<Rightarrow> tvalue list option" where
  "tv_array (TArray items) = Some items"
| "tv_array _ = None"

fun tv_table :: "tvalue \<Rightarrow> (utext \<times> tvalue) list option" where
  "tv_table (TTable entries) = Some entries"
| "tv_table _ = None"

definition is_table :: "tvalue \<Rightarrow> bool" where "is_table v = (tv_table v \<noteq> None)"

definition is_array :: "tvalue \<Rightarrow> bool" where "is_array v = (tv_array v \<noteq> None)"

definition is_str :: "tvalue \<Rightarrow> bool" where "is_str v = (tv_str v \<noteq> None)"

text \<open>\<open>Value::get\<close> of a key: only a table has one.\<close>

definition tv_get :: "string \<Rightarrow> tvalue \<Rightarrow> tvalue option" where
  "tv_get key v = Option.bind (tv_table v) (\<lambda>entries. map_of entries (ascii key))"

definition tv_get_str :: "string \<Rightarrow> tvalue \<Rightarrow> utext option" where
  "tv_get_str key v = Option.bind (tv_get key v) tv_str"

section \<open>Showing a value\<close>

definition show_i64 :: "64 word \<Rightarrow> utext" where
  "show_i64 n =
     ascii (if sint n < 0 then CHR ''-'' # show_nat (nat (- sint n)) else show_nat (nat (sint n)))"

lemma size_in_array [termination_simp]: "v \<in> set vs \<Longrightarrow> size v < Suc (size_list size vs)"
  by (induction vs) auto

lemma size_in_table [termination_simp]:
  "e \<in> set es \<Longrightarrow> size (snd e) < Suc (size_list (size_prod (\<lambda>_. 0) size) es)"
  by (rule less_SucI, erule size_list_estimation) (simp add: size_prod_simp)

fun shown :: "tvalue \<Rightarrow> utext" where
  "shown (TString s) = toml_string s"
| "shown (TFloat f) = (if fv_nan f then ascii ''nan'' else fv_debug f)"
| "shown (TDatetime d) = d"
| "shown (TArray items) = ascii ''['' @ join_text (ascii '', '') (map (\<lambda>v. shown v) items) @ ascii '']''"
| "shown (TTable entries) =
     (if entries = [] then ascii ''{}''
      else ascii ''{ '' @ join_text (ascii '', '')
        (map (\<lambda>e. diagnostic_key (fst e) @ ascii '' = '' @ shown (snd e)) entries) @ ascii '' }'')"
| "shown (TInteger n) = show_i64 n"
| "shown (TBoolean b) = ascii (if b then ''true'' else ''false'')"

text \<open>How deep a value nests: each array and each inline table adds a level.\<close>

fun nesting :: "tvalue \<Rightarrow> nat" where
  "nesting (TArray items) = Suc (foldr max (map (\<lambda>v. nesting v) items) 0)"
| "nesting (TTable entries) = Suc (foldr max (map (\<lambda>e. nesting (snd e)) entries) 0)"
| "nesting _ = 0"

end
