(* ===== verification/Toml_Depth.thy ===== *)
theory Toml_Depth
  imports Toml_Value
begin

text \<open>
  \<open>crates/plasmosome-core/src/toml_depth.rs\<close>: how deep a declaration nests, read byte by byte before any of
  it is parsed. The position in the text is the list of the bytes from there on. The open containers are
  a list with the innermost first.
\<close>

section \<open>Strings\<close>

text \<open>
  The bytes after a string. \<open>single_line_string_end\<close> stops at a line's end, and \<open>multi_line_string_end\<close>
  after at least three quotes in a row.
\<close>

fun single_line_string_end :: "nat \<Rightarrow> bool \<Rightarrow> nat list \<Rightarrow> nat list" where
  "single_line_string_end quote escapes [] = []"
| "single_line_string_end quote escapes [b] = (if b = 0x0A then [b] else [])"
| "single_line_string_end quote escapes (b # c # bs) =
     (if b = 0x0A then b # c # bs
      else if b = quote then c # bs
      else if escapes \<and> b = 0x5C \<and> c \<noteq> 0x0A then single_line_string_end quote escapes bs
      else single_line_string_end quote escapes (c # bs))"

definition quote_run :: "nat \<Rightarrow> nat list \<Rightarrow> nat" where
  "quote_run quote bs = length (takeWhile (\<lambda>b. b = quote) bs)"

function multi_line_string_end :: "nat \<Rightarrow> bool \<Rightarrow> nat list \<Rightarrow> nat list" where
  "multi_line_string_end quote escapes [] = []"
| "multi_line_string_end quote escapes (b # bs) =
     (if escapes \<and> b = 0x5C then multi_line_string_end quote escapes (drop 1 bs)
      else if b = quote then
        (let run = quote_run quote (b # bs) in
         if run \<ge> 3 then drop run (b # bs) else multi_line_string_end quote escapes (drop run (b # bs)))
      else multi_line_string_end quote escapes bs)"
  by pat_completeness auto
termination by (relation "measure (\<lambda>(q, e, bs). length bs)") (auto simp: quote_run_def Let_def)

definition string_end :: "nat list \<Rightarrow> nat list" where
  "string_end bs =
     (let quote = hd bs; escapes = (quote = 0x22) in
      if take 3 bs = [quote, quote, quote] then multi_line_string_end quote escapes (drop 3 bs)
      else single_line_string_end quote escapes (tl bs))"

lemma single_line_string_end_le: "length (single_line_string_end q e bs) \<le> length bs"
  by (induction q e bs rule: single_line_string_end.induct) auto

lemma multi_line_string_end_le: "length (multi_line_string_end q e bs) \<le> length bs"
  by (induction q e bs rule: multi_line_string_end.induct) (auto simp: Let_def intro: le_trans)

lemma string_end_shorter: "bs \<noteq> [] \<Longrightarrow> length (string_end bs) < length bs"
proof (cases bs)
  case (Cons b bs')
  have "length (multi_line_string_end q e (drop 3 bs)) < length bs" for q e
    using multi_line_string_end_le [of q e "drop 3 bs"] Cons by simp
  moreover have "length (single_line_string_end q e bs') < length bs" for q e
    using single_line_string_end_le [of q e bs'] Cons by simp
  ultimately show ?thesis by (simp add: string_end_def Let_def Cons)
qed simp

section \<open>The state\<close>

datatype depth_container = DcArray | DcInlineTable bool

record depth_open =
  do_container :: depth_container
  do_level :: nat

record depth_count =
  dc_table_level :: nat
  dc_key_dots :: nat
  dc_line_start :: bool
  dc_top_in_key :: bool
  dc_open :: "depth_open list"

datatype past_limit = PastLimit

definition BYTE_ORDER_MARK :: "nat list" where "BYTE_ORDER_MARK = [0xEF, 0xBB, 0xBF]"

definition depth_new :: "nat list \<Rightarrow> nat list \<times> depth_count" where
  "depth_new bytes =
     (case strip_prefix BYTE_ORDER_MARK bytes of Some rest \<Rightarrow> rest | None \<Rightarrow> bytes,
      \<lparr>dc_table_level = 1, dc_key_dots = 0, dc_line_start = True, dc_top_in_key = True, dc_open = []\<rparr>)"

definition reach_level :: "nat \<Rightarrow> nat \<Rightarrow> past_limit + unit" where
  "reach_level limit level = (if level > limit then Err PastLimit else Ok ())"

definition dc_level :: "depth_count \<Rightarrow> nat" where
  "dc_level c = (case dc_open c of [] \<Rightarrow> dc_table_level c | o' # _ \<Rightarrow> do_level o')"

definition dc_in_key :: "depth_count \<Rightarrow> bool" where
  "dc_in_key c =
     (case dc_open c of
        [] \<Rightarrow> dc_top_in_key c
      | o' # _ \<Rightarrow> (case do_container o' of DcInlineTable in_key \<Rightarrow> in_key | DcArray \<Rightarrow> False))"

definition dc_step :: "depth_count \<Rightarrow> depth_count" where
  "dc_step c = c\<lparr>dc_line_start := False\<rparr>"

definition end_line :: "depth_count \<Rightarrow> depth_count" where
  "end_line c =
     (if dc_open c = [] then c\<lparr>dc_line_start := True, dc_top_in_key := True, dc_key_dots := 0\<rparr> else c)"

definition skip_comment :: "nat list \<Rightarrow> nat list" where
  "skip_comment bs = dropWhile (\<lambda>b. b \<noteq> 0x0A) bs"

text \<open>The loop of \<open>header\<close> over the parts of a table's name.\<close>

function header_parts :: "nat \<Rightarrow> nat \<Rightarrow> nat list \<Rightarrow> past_limit + nat \<times> nat list" where
  "header_parts limit parts [] = Ok (parts, [])"
| "header_parts limit parts (b # bs) =
     (if b = 0x5D \<or> b = 0x0A then Ok (parts, b # bs)
      else if b = 0x22 \<or> b = 0x27 then header_parts limit parts (string_end (b # bs))
      else if b = 0x2E then
        and_then (reach_level limit (1 + 2 * (parts + 1))) (\<lambda>_. header_parts limit (parts + 1) bs)
      else header_parts limit parts bs)"
  by pat_completeness auto
termination
proof (relation "measure (\<lambda>(l, p, bs). length bs)")
  show "((limit, parts, string_end (b # bs)), limit, parts, b # bs) \<in> measure (\<lambda>(l, p, bs). length bs)"
    for limit parts :: nat and b and bs
    using string_end_shorter [of "b # bs"] by simp
qed auto

definition header :: "nat \<Rightarrow> nat list \<Rightarrow> depth_count \<Rightarrow> past_limit + nat list \<times> depth_count" where
  "header limit bs c =
     (let bs1 = tl bs; bs2 = (if bs1 \<noteq> [] \<and> hd bs1 = 0x5B then tl bs1 else bs1) in
      and_then (reach_level limit (1 + 2 * 1)) (\<lambda>_.
      and_then (header_parts limit 1 bs2) (\<lambda>(parts, bs3).
      Ok (dropWhile (\<lambda>b. b = 0x5D) bs3,
          c\<lparr>dc_table_level := 1 + 2 * parts, dc_key_dots := 0, dc_line_start := False, dc_top_in_key := True\<rparr>))))"

definition depth_enter :: "nat \<Rightarrow> nat \<Rightarrow> depth_count \<Rightarrow> past_limit + depth_count" where
  "depth_enter limit byte c =
     (let level = dc_level c + dc_key_dots c + 1 in
      and_then (reach_level limit level) (\<lambda>_.
      Ok (dc_step (c\<lparr>dc_open :=
            \<lparr>do_container = (if byte = 0x5B then DcArray else DcInlineTable True), do_level = level\<rparr> # dc_open c,
            dc_key_dots := 0\<rparr>))))"

definition depth_close :: "depth_count \<Rightarrow> depth_count" where
  "depth_close c = dc_step (c\<lparr>dc_open := tl (dc_open c), dc_key_dots := 0\<rparr>)"

definition set_in_key :: "bool \<Rightarrow> depth_open list \<Rightarrow> depth_open list" where
  "set_in_key b os =
     (case os of
        o' # rest \<Rightarrow>
          (case do_container o' of
             DcInlineTable _ \<Rightarrow> o'\<lparr>do_container := DcInlineTable b\<rparr> # rest
           | DcArray \<Rightarrow> os)
      | [] \<Rightarrow> [])"

definition next_entry :: "depth_count \<Rightarrow> depth_count" where
  "next_entry c = dc_step (c\<lparr>dc_open := set_in_key True (dc_open c), dc_key_dots := 0\<rparr>)"

definition start_value :: "depth_count \<Rightarrow> depth_count" where
  "start_value c =
     dc_step (if dc_open c = [] then c\<lparr>dc_top_in_key := False\<rparr>
              else c\<lparr>dc_open := set_in_key False (dc_open c)\<rparr>)"

definition dot :: "nat \<Rightarrow> depth_count \<Rightarrow> past_limit + depth_count" where
  "dot limit c =
     (if dc_in_key c then
        and_then (reach_level limit (dc_level c + (dc_key_dots c + 1))) (\<lambda>_.
        Ok (dc_step (c\<lparr>dc_key_dots := dc_key_dots c + 1\<rparr>)))
      else Ok (dc_step c))"

section \<open>The walk\<close>

definition walk_byte :: "nat \<Rightarrow> nat list \<Rightarrow> depth_count \<Rightarrow> past_limit + nat list \<times> depth_count" where
  "walk_byte limit bs c =
     (let b = hd bs; rest = tl bs in
      if b = 0x0A then Ok (rest, end_line c)
      else if b = 0x20 \<or> b = 0x09 \<or> b = 0x0D then Ok (rest, c)
      else if b = 0x23 then Ok (skip_comment bs, c)
      else if b = 0x22 \<or> b = 0x27 then Ok (string_end bs, c\<lparr>dc_line_start := False\<rparr>)
      else if b = 0x5B \<and> dc_line_start c \<and> dc_open c = [] then header limit bs c
      else if b = 0x5B \<or> b = 0x7B then and_then (depth_enter limit b c) (\<lambda>c'. Ok (rest, c'))
      else if b = 0x5D \<or> b = 0x7D then Ok (rest, depth_close c)
      else if b = 0x2C then Ok (rest, next_entry c)
      else if b = 0x3D then Ok (rest, start_value c)
      else if b = 0x2E then and_then (dot limit c) (\<lambda>c'. Ok (rest, c'))
      else Ok (rest, dc_step c))"

lemma header_parts_le: "header_parts limit parts bs = Ok (n, rest) \<Longrightarrow> length rest \<le> length bs"
proof (induction limit parts bs rule: header_parts.induct)
  case (2 limit parts b bs)
  then show ?case
    using string_end_shorter [of "b # bs"]
    by (fastforce simp: and_then_eq_Inr split: if_splits)
qed simp

lemma walk_byte_shorter:
  assumes "bs \<noteq> []" and "walk_byte limit bs c = Ok (rest, c')"
  shows "length rest < length bs"
proof -
  have "length (skip_comment bs) < length bs" if "hd bs = 0x23"
    using that assms(1) length_dropWhile_le [of "\<lambda>b. b \<noteq> 0x0A" "tl bs"]
    by (cases bs) (auto simp: skip_comment_def)
  moreover have "length rest < length bs" if "header limit bs c = Ok (rest, c')"
  proof -
    define bs2 where "bs2 = (if tl bs \<noteq> [] \<and> hd (tl bs) = 0x5B then tl (tl bs) else tl bs)"
    have "length bs2 \<le> length (tl bs)" by (simp add: bs2_def diff_le_mono2)
    moreover from that obtain n bs3 where "header_parts limit 1 bs2 = Ok (n, bs3)"
      "rest = dropWhile (\<lambda>b. b = 0x5D) bs3"
      unfolding header_def Let_def bs2_def [symmetric] by (auto simp: and_then_eq_Inr)
    ultimately have "length rest \<le> length (tl bs)"
      using header_parts_le length_dropWhile_le le_trans by metis
    then show ?thesis using assms(1) by (cases bs) auto
  qed
  ultimately show ?thesis
    using assms string_end_shorter [of bs]
    by (auto simp: walk_byte_def Let_def and_then_eq_Inr split: if_splits)
qed

function depth_walk :: "nat \<Rightarrow> nat list \<Rightarrow> depth_count \<Rightarrow> past_limit + unit" where
  "depth_walk limit bs c =
     (if bs = [] then Ok ()
      else case walk_byte limit bs c of
             Err e \<Rightarrow> Err e
           | Ok (rest, c') \<Rightarrow> depth_walk limit rest c')"
  by pat_completeness auto
termination by (relation "measure (\<lambda>(l, bs, c). length bs)") (auto dest: walk_byte_shorter)

declare depth_walk.simps [simp del]

definition deeper_than :: "utext \<Rightarrow> nat \<Rightarrow> bool" where
  "deeper_than s limit =
     (let (bs, c) = depth_new (utf8_bytes s) in
      \<not> is_ok (and_then (reach_level limit (dc_table_level c)) (\<lambda>_. depth_walk limit bs c)))"

section \<open>One byte at a time\<close>

text \<open>A byte that is neither white space, a quote nor one of the marks the walk counts.\<close>

definition plain_byte :: "nat \<Rightarrow> bool" where
  "plain_byte b = (b \<notin> {0x0A, 0x20, 0x09, 0x0D, 0x23, 0x22, 0x27, 0x5B, 0x7B, 0x5D, 0x7D, 0x2C, 0x3D, 0x2E})"

lemma depth_walk_Nil [simp]: "depth_walk limit [] c = Ok ()"
  by (simp add: depth_walk.simps)

lemma depth_walk_Cons:
  "depth_walk limit (b # bs) c =
     (case walk_byte limit (b # bs) c of Err e \<Rightarrow> Err e | Ok (rest, c') \<Rightarrow> depth_walk limit rest c')"
  by (simp add: depth_walk.simps [of limit "b # bs" c])

lemma walk_plain: "plain_byte b \<Longrightarrow> depth_walk limit (b # bs) c = depth_walk limit bs (dc_step c)"
  by (simp add: depth_walk_Cons walk_byte_def plain_byte_def Let_def)

lemma walk_plain_all:
  "list_all plain_byte us \<Longrightarrow> depth_walk limit (us @ bs) c = depth_walk limit bs (if us = [] then c else dc_step c)"
  by (induction us arbitrary: c) (auto simp: walk_plain dc_step_def)

lemma walk_space: "depth_walk limit (0x20 # bs) c = depth_walk limit bs c"
  by (simp add: depth_walk_Cons walk_byte_def Let_def)

lemma walk_comma: "depth_walk limit (0x2C # bs) c = depth_walk limit bs (next_entry c)"
  by (simp add: depth_walk_Cons walk_byte_def Let_def)

lemma walk_equals: "depth_walk limit (0x3D # bs) c = depth_walk limit bs (start_value c)"
  by (simp add: depth_walk_Cons walk_byte_def Let_def)

lemma walk_close: "b = 0x5D \<or> b = 0x7D \<Longrightarrow> depth_walk limit (b # bs) c = depth_walk limit bs (depth_close c)"
  by (auto simp: depth_walk_Cons walk_byte_def Let_def)

lemma walk_dot: "\<not> dc_in_key c \<Longrightarrow> depth_walk limit (0x2E # bs) c = depth_walk limit bs (dc_step c)"
  by (simp add: depth_walk_Cons walk_byte_def Let_def dot_def)

lemma walk_open:
  "b = 0x5B \<or> b = 0x7B \<Longrightarrow> \<not> dc_line_start c \<Longrightarrow> dc_key_dots c = 0 \<Longrightarrow>
   depth_walk limit (b # bs) c =
     (if dc_level c + 1 > limit then Err PastLimit
      else depth_walk limit bs (c\<lparr>dc_open :=
        \<lparr>do_container = (if b = 0x5B then DcArray else DcInlineTable True), do_level = dc_level c + 1\<rparr> # dc_open c\<rparr>))"
  by (cases c) (auto simp: depth_walk_Cons walk_byte_def Let_def depth_enter_def reach_level_def dc_step_def)

lemma walk_quote:
  "depth_walk limit (0x22 # bs) c = depth_walk limit (string_end (0x22 # bs)) (c\<lparr>dc_line_start := False\<rparr>)"
  by (simp add: depth_walk_Cons walk_byte_def Let_def)

section \<open>Strings as they are written\<close>

lemma plain_tail: "0x80 \<le> b \<Longrightarrow> plain_byte b"
  by (simp add: plain_byte_def)

lemma encode_utf8_plain: "0x80 \<le> c \<Longrightarrow> b \<in> set (encode_utf8 c) \<Longrightarrow> 0x80 \<le> b"
  by (auto simp: encode_utf8_def split: if_splits)

text \<open>The bytes of a string's character pass by as a whole.\<close>

lemma single_skip:
  "\<forall>b \<in> set us. b \<noteq> 0x0A \<and> b \<noteq> q \<and> b \<noteq> 0x5C \<Longrightarrow> bs \<noteq> [] \<Longrightarrow>
   single_line_string_end q e (us @ bs) = single_line_string_end q e bs"
proof (induction us)
  case (Cons u us)
  obtain c cs where "us @ bs = c # cs" using Cons.prems(2) by (cases "us @ bs") auto
  with Cons show ?case by simp
qed simp

definition string_piece :: "nat \<Rightarrow> utext" where
  "string_piece c = (if c = 0x22 \<or> c = 0x5C then [0x5C, c] else push_visible c)"

lemma toml_string_pieces: "toml_string s = 0x22 # concat (map string_piece s) @ [0x22]"
  by (simp add: toml_string_def string_piece_def [abs_def])

lemma utf8_bytes_simps [simp]:
  "utf8_bytes [] = []" "utf8_bytes (c # s) = encode_utf8 c @ utf8_bytes s"
  "utf8_bytes (s @ t) = utf8_bytes s @ utf8_bytes t"
  by (simp_all add: utf8_bytes_def)

lemma utf8_bytes_low: "list_all (\<lambda>c. c < 0x80) s \<Longrightarrow> utf8_bytes s = s"
  by (induction s) (auto simp: encode_utf8_def)

lemma upper_digit_low: "d < 16 \<Longrightarrow> upper_digit d < 0x80 \<and> plain_byte (upper_digit d) \<and> upper_digit d \<noteq> 0x5C"
  by (auto simp: upper_digit_def plain_byte_def)

lemma single_piece:
  assumes "bs \<noteq> []"
  shows "single_line_string_end 0x22 True (utf8_bytes (string_piece c) @ bs) = single_line_string_end 0x22 True bs"
proof -
  have escape: "single_line_string_end 0x22 True (0x5C # k # bs) = single_line_string_end 0x22 True bs"
    if "k \<noteq> 0x0A" for k using that by simp
  consider (control) "acted_on c" "c \<notin> {8, 9, 10, 12, 13}" | (mark) "c = 0x22 \<or> c = 0x5C"
    | (short) "c \<in> {8, 9, 10, 12, 13}"
    | (visible) "\<not> acted_on c" "c \<noteq> 0x22" "c \<noteq> 0x5C" "c \<notin> {8, 9, 10, 12, 13}" by blast
  then show ?thesis
  proof cases
    case control
    have digits: "list_all (\<lambda>x. x < 0x80 \<and> plain_byte x \<and> x \<noteq> 0x5C) (upper_hex4 c)"
      by (simp add: upper_hex4_def upper_digit_low)
    then have "utf8_bytes (upper_hex4 c) = upper_hex4 c" by (simp add: utf8_bytes_low list_all_iff)
    moreover have "single_line_string_end 0x22 True (upper_hex4 c @ bs) = single_line_string_end 0x22 True bs"
      using digits assms by (intro single_skip) (auto simp: list_all_iff plain_byte_def)
    moreover have "c \<noteq> 0x22 \<and> c \<noteq> 0x5C" using control(1) by (auto simp: acted_on_def)
    ultimately show ?thesis using control by (simp add: string_piece_def push_visible_def encode_utf8_def)
  next
    case mark
    then show ?thesis using escape [of c] by (auto simp: string_piece_def encode_utf8_def)
  next
    case short
    then show ?thesis by (auto simp: string_piece_def push_visible_def encode_utf8_def)
  next
    case visible
    have "\<forall>b \<in> set (encode_utf8 c). b \<noteq> 0x0A \<and> b \<noteq> 0x22 \<and> b \<noteq> 0x5C"
    proof (cases "c < 0x80")
      case True
      with visible show ?thesis by (simp add: encode_utf8_def)
    next
      case False
      then show ?thesis using encode_utf8_plain [of c] by force
    qed
    from single_skip [OF this assms] visible show ?thesis by (simp add: string_piece_def push_visible_def)
  qed
qed

lemma single_pieces:
  "bs \<noteq> [] \<Longrightarrow> single_line_string_end 0x22 True (utf8_bytes (concat (map string_piece s)) @ bs) =
     single_line_string_end 0x22 True bs"
  by (induction s) (simp_all add: single_piece)

lemma string_piece_head: "\<exists>b bs. utf8_bytes (string_piece c) = b # bs \<and> b \<noteq> 0x22"
proof -
  have "(\<exists>t. string_piece c = 0x5C # t) \<or> (string_piece c = [c] \<and> c \<noteq> 0x22)"
    by (auto simp: string_piece_def push_visible_def)
  moreover have "utf8_bytes (0x5C # t) = 0x5C # utf8_bytes t" for t by (simp add: encode_utf8_def)
  moreover have "\<exists>b bs. encode_utf8 c = b # bs \<and> (c \<noteq> 0x22 \<longrightarrow> b \<noteq> 0x22)"
    by (simp add: encode_utf8_def)
  ultimately show ?thesis by auto
qed

text \<open>Walking over a written string, before anything but another quote, counts nothing.\<close>

lemma string_end_written:
  assumes "bs = [] \<or> hd bs \<noteq> 0x22"
  shows "string_end (utf8_bytes (toml_string s) @ bs) = bs"
proof (cases s)
  case Nil
  have "take 3 (0x22 # 0x22 # bs) \<noteq> [0x22, 0x22, 0x22]" using assms by (cases bs) auto
  then show ?thesis using assms Nil
    by (cases bs) (auto simp: string_end_def Let_def toml_string_def encode_utf8_def)
next
  case (Cons c s')
  obtain b us where piece: "utf8_bytes (string_piece c) = b # us" "b \<noteq> 0x22" using string_piece_head by blast
  have "string_end (utf8_bytes (toml_string s) @ bs) =
      single_line_string_end 0x22 True (utf8_bytes (concat (map string_piece s)) @ 0x22 # bs)"
    using piece by (simp add: string_end_def Let_def toml_string_pieces encode_utf8_def Cons)
  also have "\<dots> = single_line_string_end 0x22 True (0x22 # bs)" by (rule single_pieces) simp
  also have "\<dots> = bs" by (cases bs) simp_all
  finally show ?thesis .
qed

lemma walk_string:
  assumes "bs = [] \<or> hd bs \<noteq> 0x22"
  shows "depth_walk limit (utf8_bytes (toml_string s) @ bs) c = depth_walk limit bs (c\<lparr>dc_line_start := False\<rparr>)"
  using walk_quote [of limit "utf8_bytes (concat (map string_piece s) @ [0x22]) @ bs" c] string_end_written [OF assms, of s]
  by (simp add: toml_string_pieces encode_utf8_def)

lemma diagnostic_key_plain:
  "name \<noteq> [] \<and> list_all bare_key_char name \<Longrightarrow> utf8_bytes name = name \<and> list_all plain_byte name"
proof -
  have "bare_key_char c \<Longrightarrow> c < 0x80 \<and> plain_byte c" for c
    by (auto simp: bare_key_char_def plain_byte_def)
  then show "name \<noteq> [] \<and> list_all bare_key_char name \<Longrightarrow> ?thesis"
    by (auto simp: list_all_iff intro!: utf8_bytes_low)
qed

lemma walk_key:
  assumes "bs = [] \<or> hd bs \<noteq> 0x22"
  shows "depth_walk limit (utf8_bytes (diagnostic_key name) @ bs) c = depth_walk limit bs (c\<lparr>dc_line_start := False\<rparr>)"
proof (cases "name \<noteq> [] \<and> list_all bare_key_char name")
  case True
  from diagnostic_key_plain [OF this] True show ?thesis by (simp add: diagnostic_key_def walk_plain_all dc_step_def)
next
  case False
  then have "diagnostic_key name = toml_string name" unfolding diagnostic_key_def by (rule if_not_P)
  then show ?thesis by (simp add: walk_string [OF assms])
qed

section \<open>Values as they are written\<close>

text \<open>What a number, a date or a float is written with; none of it is counted.\<close>

definition scalar_text :: "utext \<Rightarrow> bool" where
  "scalar_text s = (s \<noteq> [] \<and> list_all (\<lambda>c. 0x20 < c \<and> c < 0x7F \<and> (plain_byte c \<or> c = 0x2E)) s)"

fun well_shown :: "tvalue \<Rightarrow> bool" where
  "well_shown (TFloat f) = (fv_nan f \<or> scalar_text (fv_debug f))"
| "well_shown (TDatetime d) = scalar_text d"
| "well_shown (TArray items) = list_all (\<lambda>v. well_shown v) items"
| "well_shown (TTable entries) = list_all (\<lambda>e. well_shown (snd e)) entries"
| "well_shown _ = True"

lemma keep_line_start: "\<not> dc_line_start c \<Longrightarrow> c\<lparr>dc_line_start := False\<rparr> = c"
  by (cases c) simp

lemma walk_scalar_bytes:
  "list_all (\<lambda>b. plain_byte b \<or> b = 0x2E) us \<Longrightarrow> \<not> dc_in_key c \<Longrightarrow> \<not> dc_line_start c \<Longrightarrow>
   depth_walk limit (us @ bs) c = depth_walk limit bs c"
  by (induction us) (auto simp: walk_plain walk_dot dc_step_def keep_line_start)

lemma walk_scalar:
  assumes "scalar_text s" and "\<not> dc_in_key c" and "\<not> dc_line_start c"
  shows "depth_walk limit (utf8_bytes s @ bs) c = depth_walk limit bs c"
proof -
  have "utf8_bytes s = s"
    using assms(1) by (intro utf8_bytes_low) (auto simp: scalar_text_def list_all_iff)
  moreover have "list_all (\<lambda>b. plain_byte b \<or> b = 0x2E) s"
    using assms(1) by (auto simp: scalar_text_def list_all_iff)
  ultimately show ?thesis using walk_scalar_bytes assms(2,3) by simp
qed

lemma show_nat_ascii: "c \<in> set (show_nat n) \<Longrightarrow> 48 \<le> (of_char c :: nat) \<and> (of_char c :: nat) \<le> 57"
proof (induction n rule: show_nat.induct)
  case (1 n)
  then show ?case
    by (subst (asm) show_nat.simps) (auto simp: digit_char_def of_char_of take_bit_eq_mod split: if_splits)
qed

lemma scalar_i64: "scalar_text (show_i64 n)"
proof -
  have "show_nat m \<noteq> []" for m by (subst show_nat.simps) simp
  then show ?thesis
    by (auto simp: scalar_text_def show_i64_def list_all_iff plain_byte_def dest: show_nat_ascii)
qed

lemma scalar_bool: "scalar_text (ascii (if b then ''true'' else ''false''))" "scalar_text (ascii ''nan'')"
  by (simp_all add: scalar_text_def plain_byte_def)

text \<open>A place where a value stands: not in a key, no dots pending, past the start of its line.\<close>

definition at_value :: "nat \<Rightarrow> depth_count \<Rightarrow> bool" where
  "at_value limit c = (\<not> dc_in_key c \<and> dc_key_dots c = 0 \<and> \<not> dc_line_start c \<and> dc_level c \<le> limit)"

definition entered :: "depth_container \<Rightarrow> depth_count \<Rightarrow> depth_count" where
  "entered k c = c\<lparr>dc_open := \<lparr>do_container = k, do_level = dc_level c + 1\<rparr> # dc_open c\<rparr>"

lemma walk_entered:
  "\<not> dc_line_start c \<Longrightarrow> dc_key_dots c = 0 \<Longrightarrow>
    depth_walk limit (0x5B # bs) c =
      (if dc_level c + 1 > limit then Err PastLimit else depth_walk limit bs (entered DcArray c))"
  "\<not> dc_line_start c \<Longrightarrow> dc_key_dots c = 0 \<Longrightarrow>
    depth_walk limit (0x7B # bs) c =
      (if dc_level c + 1 > limit then Err PastLimit else depth_walk limit bs (entered (DcInlineTable True) c))"
  by (simp_all add: walk_open entered_def)

lemma level_entered [simp]: "dc_level (entered k c) = dc_level c + 1"
  by (simp add: entered_def dc_level_def)

lemma fields_entered [simp]:
  "dc_key_dots (entered k c) = dc_key_dots c" "dc_line_start (entered k c) = dc_line_start c"
  "dc_in_key (entered DcArray c) = False" "dc_in_key (entered (DcInlineTable b) c) = b"
  by (simp_all add: entered_def dc_in_key_def)

lemma close_entered: "dc_key_dots c = 0 \<Longrightarrow> \<not> dc_line_start c \<Longrightarrow> depth_close (entered k c) = c"
  by (cases c) (simp add: depth_close_def entered_def dc_step_def)

lemma next_entered:
  "dc_key_dots c = 0 \<Longrightarrow> \<not> dc_line_start c \<Longrightarrow> next_entry (entered DcArray c) = entered DcArray c"
  "dc_key_dots c = 0 \<Longrightarrow> \<not> dc_line_start c \<Longrightarrow> next_entry (entered (DcInlineTable b) c) = entered (DcInlineTable True) c"
  by (cases c; simp add: next_entry_def entered_def dc_step_def set_in_key_def dc_level_def)+

lemma start_entered: "\<not> dc_line_start c \<Longrightarrow> start_value (entered (DcInlineTable b) c) = entered (DcInlineTable False) c"
  by (cases c; simp add: start_value_def entered_def dc_step_def set_in_key_def dc_level_def)

text \<open>What walking over a value does: it refuses exactly what nests too deep.\<close>

definition walks :: "nat \<Rightarrow> tvalue \<Rightarrow> bool" where
  "walks limit v = (\<forall>c bs. at_value limit c \<longrightarrow> (bs = [] \<or> hd bs \<noteq> 0x22) \<longrightarrow>
     depth_walk limit (utf8_bytes (shown v) @ bs) c =
       (if dc_level c + nesting v > limit then Err PastLimit else depth_walk limit bs c))"

lemma walksD:
  "walks limit v \<Longrightarrow> at_value limit c \<Longrightarrow> bs = [] \<or> hd bs \<noteq> 0x22 \<Longrightarrow>
   depth_walk limit (utf8_bytes (shown v) @ bs) c =
     (if dc_level c + nesting v > limit then Err PastLimit else depth_walk limit bs c)"
  unfolding walks_def by blast

lemma join_text_simps [simp]:
  "join_text sep [] = []" "join_text sep [t] = t"
  "join_text sep (t # u # ts) = t @ sep @ join_text sep (u # ts)"
  by (simp_all add: join_text_def)

lemma walks_items:
  assumes "\<forall>v \<in> set items. walks limit v" and "at_value limit (entered DcArray c)"
    and "dc_key_dots c = 0" and "\<not> dc_line_start c"
  shows "depth_walk limit (utf8_bytes (join_text [0x2C, 0x20] (map shown items)) @ 0x5D # bs) (entered DcArray c) =
    (if dc_level c + 1 + foldr max (map nesting items) 0 > limit then Err PastLimit
     else depth_walk limit (0x5D # bs) (entered DcArray c))"
  using assms(1)
proof (induction items rule: induct_list012)
  case 1
  then show ?case using assms(2) by (simp add: at_value_def)
next
  case (2 v)
  then show ?case using walksD [OF _ assms(2), of v "0x5D # bs"] by simp
next
  case (3 v w items)
  let ?rest = "utf8_bytes (join_text [0x2C, 0x20] (map shown (w # items))) @ 0x5D # bs"
  have "depth_walk limit (utf8_bytes (shown v) @ 0x2C # 0x20 # ?rest) (entered DcArray c) =
      (if dc_level c + 1 + nesting v > limit then Err PastLimit
       else depth_walk limit ?rest (entered DcArray c))"
    using walksD [OF _ assms(2), of v "0x2C # 0x20 # ?rest"] 3
    by (simp add: walk_comma walk_space next_entered assms del: join_text_simps list.map)
  moreover have "utf8_bytes (join_text [0x2C, 0x20] (map shown (v # w # items))) @ 0x5D # bs =
      utf8_bytes (shown v) @ 0x2C # 0x20 # ?rest"
    by (simp add: encode_utf8_def)
  moreover have "foldr max (map nesting (v # w # items)) 0 = max (nesting v) (foldr max (map nesting (w # items)) 0)"
    by simp
  ultimately show ?case using 3 by (auto simp del: join_text_simps list.map)
qed

lemma walks_entries:
  assumes "\<forall>e \<in> set entries. walks limit (snd e)" and "dc_level c < limit"
    and "dc_key_dots c = 0" and "\<not> dc_line_start c" and "entries \<noteq> []"
  shows "\<exists>b. depth_walk limit
      (utf8_bytes (join_text [0x2C, 0x20] (map (\<lambda>e. diagnostic_key (fst e) @ [0x20, 0x3D, 0x20] @ shown (snd e)) entries)) @
        0x20 # 0x7D # bs) (entered (DcInlineTable True) c) =
    (if dc_level c + 1 + foldr max (map (\<lambda>e. nesting (snd e)) entries) 0 > limit then Err PastLimit
     else depth_walk limit (0x20 # 0x7D # bs) (entered (DcInlineTable b) c))"
  using assms(1,5)
proof (induction entries rule: induct_list012)
  case 1
  then show ?case by simp
next
  have entry: "depth_walk limit (utf8_bytes (diagnostic_key k @ [0x20, 0x3D, 0x20] @ shown v) @ rest) (entered (DcInlineTable True) c) =
      (if dc_level c + 1 + nesting v > limit then Err PastLimit
       else depth_walk limit rest (entered (DcInlineTable False) c))"
    if "walks limit v" and "rest \<noteq> []" and "hd rest \<noteq> 0x22" for k v rest
  proof -
    have keep: "(entered (DcInlineTable True) c)\<lparr>dc_line_start := False\<rparr> = entered (DcInlineTable True) c"
      using assms(4) by (cases c) (simp add: entered_def)
    have "depth_walk limit (utf8_bytes (diagnostic_key k) @ 0x20 # 0x3D # 0x20 # utf8_bytes (shown v) @ rest)
          (entered (DcInlineTable True) c) =
        depth_walk limit (utf8_bytes (shown v) @ rest) (entered (DcInlineTable False) c)"
      by (subst walk_key) (simp_all add: keep walk_space walk_equals start_entered assms)
    also have "\<dots> = (if dc_level c + 1 + nesting v > limit then Err PastLimit
       else depth_walk limit rest (entered (DcInlineTable False) c))"
      using walksD [OF that(1), of "entered (DcInlineTable False) c" rest] that assms by (simp add: at_value_def)
    finally show ?thesis by (simp add: encode_utf8_def)
  qed
  {
    case (2 e)
    then show ?case using entry [of "snd e" "0x20 # 0x7D # bs" "fst e"] by auto
  next
    case (3 e f entries)
    let ?rest = "utf8_bytes (join_text [0x2C, 0x20]
        (map (\<lambda>e. diagnostic_key (fst e) @ [0x20, 0x3D, 0x20] @ shown (snd e)) (f # entries))) @ 0x20 # 0x7D # bs"
    have "depth_walk limit (utf8_bytes (diagnostic_key (fst e) @ [0x20, 0x3D, 0x20] @ shown (snd e)) @ 0x2C # 0x20 # ?rest)
          (entered (DcInlineTable True) c) =
        (if dc_level c + 1 + nesting (snd e) > limit then Err PastLimit
         else depth_walk limit ?rest (entered (DcInlineTable True) c))"
      using entry [of "snd e" "0x2C # 0x20 # ?rest" "fst e"] 3
      by (simp add: walk_comma walk_space next_entered assms del: join_text_simps list.map)
    moreover have "utf8_bytes (join_text [0x2C, 0x20]
        (map (\<lambda>e. diagnostic_key (fst e) @ [0x20, 0x3D, 0x20] @ shown (snd e)) (e # f # entries))) @ 0x20 # 0x7D # bs =
        utf8_bytes (diagnostic_key (fst e) @ [0x20, 0x3D, 0x20] @ shown (snd e)) @ 0x2C # 0x20 # ?rest"
      by (simp add: encode_utf8_def)
    moreover obtain b where "depth_walk limit ?rest (entered (DcInlineTable True) c) =
        (if dc_level c + 1 + foldr max (map (\<lambda>e. nesting (snd e)) (f # entries)) 0 > limit then Err PastLimit
         else depth_walk limit (0x20 # 0x7D # bs) (entered (DcInlineTable b) c))"
      using 3 by auto
    moreover have "foldr max (map (\<lambda>e. nesting (snd e)) (e # f # entries)) 0 =
        max (nesting (snd e)) (foldr max (map (\<lambda>e. nesting (snd e)) (f # entries)) 0)"
      by simp
    ultimately show ?case by (intro exI [of _ b]) (auto simp del: join_text_simps list.map)
  }
qed

lemma walks_scalar: "scalar_text (shown v) \<Longrightarrow> nesting v = 0 \<Longrightarrow> walks limit v"
  unfolding walks_def at_value_def by (simp add: walk_scalar)

lemma walks_shown: "well_shown v \<Longrightarrow> walks limit v"
proof (induction v rule: shown.induct)
  case (1 s)
  then show ?case by (auto simp: walks_def walk_string at_value_def keep_line_start)
next
  case (2 f)
  then show ?case using scalar_bool(2) by (intro walks_scalar) (auto simp del: list.map)
next
  case (3 d)
  then show ?case by (intro walks_scalar) simp_all
next
  case (4 items)
  show ?case unfolding walks_def
  proof (intro allI impI)
    fix c and bs :: "nat list" assume c: "at_value limit c" and "bs = [] \<or> hd bs \<noteq> 0x22"
    have items: "\<forall>v \<in> set items. walks limit v" using 4 by (auto simp: list_all_iff)
    have "utf8_bytes (shown (TArray items)) @ bs =
        0x5B # utf8_bytes (join_text [0x2C, 0x20] (map shown items)) @ 0x5D # bs"
      by (simp add: encode_utf8_def)
    then show "depth_walk limit (utf8_bytes (shown (TArray items)) @ bs) c =
        (if dc_level c + nesting (TArray items) > limit then Err PastLimit else depth_walk limit bs c)"
      using c walks_items [OF items, of c bs]
      by (auto simp: walk_entered at_value_def walk_close close_entered)
  qed
next
  case (5 entries)
  show ?case unfolding walks_def
  proof (intro allI impI)
    fix c and bs :: "nat list" assume c: "at_value limit c" and "bs = [] \<or> hd bs \<noteq> 0x22"
    have es: "\<forall>e \<in> set entries. walks limit (snd e)"
      using 5 by (cases "entries = []") (simp_all add: list_all_iff)
    show "depth_walk limit (utf8_bytes (shown (TTable entries)) @ bs) c =
        (if dc_level c + nesting (TTable entries) > limit then Err PastLimit else depth_walk limit bs c)"
    proof (cases "entries = []")
      case True
      then show ?thesis using c
        by (auto simp: walk_entered at_value_def walk_close close_entered
          encode_utf8_def)
    next
      case False
      have "utf8_bytes (shown (TTable entries)) @ bs = 0x7B # 0x20 # utf8_bytes (join_text [0x2C, 0x20]
          (map (\<lambda>e. diagnostic_key (fst e) @ [0x20, 0x3D, 0x20] @ shown (snd e)) entries)) @ 0x20 # 0x7D # bs"
        using False by (simp add: encode_utf8_def)
      moreover from c have "dc_key_dots c = 0" "\<not> dc_line_start c" by (simp_all add: at_value_def)
      ultimately show ?thesis
        using c walks_entries [OF es, of c bs] False
        by (auto simp: walk_entered at_value_def walk_close
          close_entered walk_space)
    qed
  qed
next
  case (6 n)
  then show ?case by (intro walks_scalar) (simp_all add: scalar_i64)
next
  case (7 b)
  then show ?case by (intro walks_scalar) (simp_all only: shown.simps nesting.simps scalar_bool)
qed

section \<open>Properties\<close>

text \<open>A declaration of one entry a line, written as the refusals write values.\<close>

definition entry_lines :: "(utext \<times> tvalue) list \<Rightarrow> utext" where
  "entry_lines es = concat (map (\<lambda>e. diagnostic_key (fst e) @ ascii '' = '' @ shown (snd e) @ [0x0A]) es)"

definition depth_start :: depth_count where
  "depth_start = \<lparr>dc_table_level = 1, dc_key_dots = 0, dc_line_start = True, dc_top_in_key = True, dc_open = []\<rparr>"

lemma walk_lines:
  assumes "\<forall>e \<in> set es. well_shown (snd e)" and "1 \<le> limit"
  shows "depth_walk limit (utf8_bytes (entry_lines es)) depth_start =
    (if nesting (TTable es) > limit then Err PastLimit else Ok ())"
  using assms(1)
proof (induction es)
  case Nil
  then show ?case using assms(2) by (simp add: entry_lines_def)
next
  case (Cons e es)
  let ?rest = "0x0A # utf8_bytes (entry_lines es)"
  define c where "c = depth_start\<lparr>dc_line_start := False, dc_top_in_key := False\<rparr>"
  have c: "at_value limit c" "dc_level c = 1"
    using assms(2) by (simp_all add: at_value_def c_def depth_start_def dc_in_key_def dc_level_def)
  have "depth_walk limit (utf8_bytes (entry_lines (e # es))) depth_start =
      depth_walk limit (utf8_bytes (diagnostic_key (fst e)) @ 0x20 # 0x3D # 0x20 # utf8_bytes (shown (snd e)) @ ?rest)
        depth_start"
    by (simp add: entry_lines_def encode_utf8_def)
  also have "\<dots> = depth_walk limit (utf8_bytes (shown (snd e)) @ ?rest) c"
    by (subst walk_key)
      (simp_all add: walk_space walk_equals start_value_def depth_start_def c_def dc_step_def)
  also have "\<dots> = (if 1 + nesting (snd e) > limit then Err PastLimit else depth_walk limit ?rest c)"
    using walksD [OF walks_shown c(1), of "snd e" ?rest] Cons.prems c(2) by simp
  also have "depth_walk limit ?rest c = depth_walk limit (utf8_bytes (entry_lines es)) depth_start"
    by (simp add: depth_walk_Cons walk_byte_def Let_def end_line_def c_def depth_start_def)
  finally show ?case using Cons by auto
qed

lemma no_mark: "strip_prefix BYTE_ORDER_MARK (utf8_bytes (entry_lines es)) = None"
proof (cases es)
  case (Cons e es')
  have "\<exists>b bs. utf8_bytes (diagnostic_key name) = b # bs \<and> b \<noteq> 0xEF" for name
  proof (cases "name \<noteq> [] \<and> list_all bare_key_char name")
    case True
    then have "utf8_bytes (diagnostic_key name) = name"
      using diagnostic_key_plain [of name] by (simp add: diagnostic_key_def)
    moreover have "hd name < 0x80" using True by (cases name) (auto simp: bare_key_char_def)
    ultimately show ?thesis using True by (cases name) auto
  next
    case False
    then have "diagnostic_key name = toml_string name" unfolding diagnostic_key_def by (rule if_not_P)
    then show ?thesis by (simp add: toml_string_def encode_utf8_def)
  qed
  then obtain b bs where "utf8_bytes (diagnostic_key (fst e)) = b # bs" "b \<noteq> 0xEF" by blast
  then show ?thesis by (simp add: Cons entry_lines_def BYTE_ORDER_MARK_def)
qed (simp add: entry_lines_def BYTE_ORDER_MARK_def)

text \<open>
  C35. The depth a declaration counts is its depth. For a declaration of any entries, written one a line as
  the refusals write values, with any keys and any texts, the walk over its bytes refuses exactly when the
  table of its entries nests deeper than the limit: nothing inside a string or a key counts, and no
  container is missed.
\<close>

theorem counted_depth_is_the_depth:
  assumes "well_shown (TTable es)"
  shows "deeper_than (entry_lines es) limit \<longleftrightarrow> nesting (TTable es) > limit"
proof (cases "1 \<le> limit")
  case True
  then show ?thesis
    using assms walk_lines [of es limit]
    by (auto simp: deeper_than_def depth_new_def no_mark reach_level_def depth_start_def list_all_iff)
next
  case False
  then show ?thesis by (simp add: deeper_than_def depth_new_def no_mark reach_level_def)
qed

theorem counted_depth_is_the_depth_witness:
  "deeper_than (entry_lines [(ascii ''a.b'', TArray [TString (ascii ''[[''), TTable [(ascii ''k'', TInteger 1)]])]) 2"
  using counted_depth_is_the_depth [of "[(ascii ''a.b'', TArray [TString (ascii ''[[''), TTable [(ascii ''k'', TInteger 1)]])]" 2]
  by simp

end
