(* ===== verification/Manifest.thy ===== *)
theory Manifest
  imports Cidr Toml_Depth BTree_Map
begin

text \<open>
  \<open>crates/plasmosome-core/src/manifest.rs\<close>: a plasmid's declaration, from the bytes of its file to the checked
  manifest, with every refusal and the repair it names. What the \<open>toml\<close> and \<open>serde\<close> crates do is a parameter,
  a \<open>toml_lib\<close>: parsing a text into a value, the binding keys in parse order, and decoding one credential
  reference; so are the texts of an error of theirs or of the operating system. A path is text.
\<close>

section \<open>The declaration\<close>

record tool_declaration =
  td_name :: utext
  td_description :: utext

record network_spec =
  ns_hosts :: "utext list"
  ns_ports :: "u16 list"
  ns_pin_cidrs :: "cidr list"

record command_network =
  cn_hosts :: "utext list"
  cn_ports :: "u16 list"
  cn_pin_cidrs :: "utext list"

record workspace_mount =
  wm_dst :: utext

record mock_spec =
  mk_hosts :: "utext list"
  mk_kind :: utext
  mk_api :: utext
  mk_source :: utext

record model_spec =
  md_endpoint :: utext
  md_credential :: utext

datatype delivery_mode = DmHandle | DmHelper | DmInject | DmMint

fun delivery_as_str :: "delivery_mode \<Rightarrow> utext" where
  "delivery_as_str DmHandle = ascii ''handle''"
| "delivery_as_str DmHelper = ascii ''helper''"
| "delivery_as_str DmInject = ascii ''inject''"
| "delivery_as_str DmMint = ascii ''mint''"

definition delivery_parse :: "utext \<Rightarrow> delivery_mode option" where
  "delivery_parse s =
     (if s = ascii ''handle'' then Some DmHandle else if s = ascii ''helper'' then Some DmHelper
      else if s = ascii ''inject'' then Some DmInject else if s = ascii ''mint'' then Some DmMint else None)"

datatype secret_consumer = ScWasm | ScGit | ScHttp | ScProcess

fun consumer_as_str :: "secret_consumer \<Rightarrow> utext" where
  "consumer_as_str ScWasm = ascii ''wasm''"
| "consumer_as_str ScGit = ascii ''git''"
| "consumer_as_str ScHttp = ascii ''http''"
| "consumer_as_str ScProcess = ascii ''process''"

definition consumer_parse :: "utext \<Rightarrow> secret_consumer option" where
  "consumer_parse s =
     (if s = ascii ''wasm'' then Some ScWasm else if s = ascii ''git'' then Some ScGit
      else if s = ascii ''http'' then Some ScHttp else if s = ascii ''process'' then Some ScProcess else None)"

record secret_scope =
  ss_path_scope :: "utext list"
  ss_repos :: "utext list"
  ss_permissions :: "utext list"

record secret_ref =
  sr_id :: utext
  sr_consumer :: secret_consumer
  sr_delivery :: "delivery_mode list"
  sr_scope :: "secret_scope option"
  sr_ttl :: "utext option"
  sr_subject :: "utext option"

record command_decl =
  cm_id :: utext
  cm_exec :: "utext list"
  cm_subject :: "utext option"
  cm_network :: "command_network option"
  cm_secrets :: "secret_ref list"

record commands_spec =
  cs_address_plan :: utext
  cs_commands :: "command_decl list"

record plasmid_manifest =
  pm_id :: utext
  pm_description :: utext
  pm_version :: utext
  pm_wasm :: "utext option"
  pm_network :: "network_spec option"
  pm_requires :: "utext list"
  pm_provides_tools :: "tool_declaration list"
  pm_provides :: "utext list"
  pm_secrets :: "secret_ref list"
  pm_commands :: "commands_spec option"
  pm_workspace :: "workspace_mount option"
  pm_mock :: "mock_spec option"
  pm_model :: "model_spec option"
  pm_drain_ms :: "u64 option"

record toml_lib =
  tl_from_str :: "utext \<Rightarrow> utext + tvalue"
  tl_binding_keys :: "utext \<Rightarrow> utext + utext list"
  tl_secret_ref :: "tvalue \<Rightarrow> utext + secret_ref"
  tl_utf8_error :: "nat list \<Rightarrow> utext"

section \<open>Refusals\<close>

datatype manifest_error =
    MfIo utext
  | MfParse utext
  | MfField "utext option" utext utext utext
  | MfTooLarge nat
  | MfTooDeep nat

definition MAX_MANIFEST_BYTES :: nat where "MAX_MANIFEST_BYTES = 1048576"

definition MAX_MANIFEST_DEPTH :: nat where "MAX_MANIFEST_DEPTH = 32"

definition REMOVE_ENTRY :: utext where "REMOVE_ENTRY = ascii ''remove this entry''"

definition BLANK_TOOL :: utext where
  "BLANK_TOOL = ascii ''a tool name must not be empty or only whitespace''"

fun show_manifest_error :: "manifest_error \<Rightarrow> utext" where
  "show_manifest_error (MfIo e) = bounded_text (ascii ''manifest io error: '' @ e)"
| "show_manifest_error (MfParse e) = bounded_text (ascii ''manifest toml error: '' @ visible_lines e)"
| "show_manifest_error (MfField plasmid field fix detail) =
     bounded_text
       ((case plasmid of Some i \<Rightarrow> ascii ''plasmid '' @ diagnostic_key i @ ascii '': '' | None \<Rightarrow> []) @
        (if fix = REMOVE_ENTRY then field @ ascii '': '' @ detail @ ascii ''; '' @ fix
         else if byte_len fix > MAX_SHOWN_FIX_BYTES
         then field @ ascii '': '' @ detail @ ascii ''; its fix is '' @ ascii (show_nat (byte_len fix)) @
           ascii '' bytes, too long to show here''
         else field @ ascii '': '' @ detail @ ascii ''; write '' @ fix))"
| "show_manifest_error (MfTooLarge limit) =
     bounded_text (ascii ''manifest exceeds the '' @ ascii (show_nat limit) @ ascii ''-byte limit'')"
| "show_manifest_error (MfTooDeep limit) =
     bounded_text (ascii ''manifest nesting counts more than the '' @ ascii (show_nat limit) @ ascii ''-level limit'')"

definition id_error :: "utext \<Rightarrow> manifest_error" where
  "id_error detail =
     MfField None (ascii ''id'') (ascii ''id = '' @ toml_string (ascii ''choose-a-stable-id'')) detail"

definition field_error :: "utext \<Rightarrow> utext \<Rightarrow> utext \<Rightarrow> utext \<Rightarrow> manifest_error" where
  "field_error i field fix detail = MfField (Some i) field fix detail"

section \<open>Repairs\<close>

definition EXAMPLE_HOST :: utext where "EXAMPLE_HOST = ascii ''api.example.com''"

definition EXAMPLE_PIN :: utext where "EXAMPLE_PIN = ascii ''192.0.2.0/24''"

definition EXAMPLE_COMMAND :: utext where "EXAMPLE_COMMAND = ascii ''git''"

definition DEFAULT_DST :: utext where "DEFAULT_DST = ascii ''/workspace''"

definition strings_line :: "string \<Rightarrow> utext list \<Rightarrow> utext" where
  "strings_line field names =
     ascii field @ ascii '' = ['' @ join_text (ascii '', '') (map toml_string names) @ ascii '']''"

text \<open>\<open>distinct\<close>: each name where it first stands.\<close>

fun keep_first :: "utext set \<Rightarrow> utext list \<Rightarrow> utext list" where
  "keep_first seen [] = []"
| "keep_first seen (n # ns) = (if n \<in> seen then keep_first seen ns else n # keep_first (insert n seen) ns)"

definition distinct_texts :: "utext list \<Rightarrow> utext list" where
  "distinct_texts names = keep_first {} names"

definition nonblank :: "tvalue \<Rightarrow> utext option" where
  "nonblank item = (case tv_str item of Some s \<Rightarrow> if is_blank s then None else Some s | None \<Rightarrow> None)"

text \<open>\<open>collect::<Option<Vec<_>>>\<close>.\<close>

fun collect_options :: "'a option list \<Rightarrow> 'a list option" where
  "collect_options [] = Some []"
| "collect_options (x # xs) =
     (case x of None \<Rightarrow> None | Some a \<Rightarrow> map_option (\<lambda>as. a # as) (collect_options xs))"

definition evident_strings :: "tvalue \<Rightarrow> utext list" where
  "evident_strings v =
     (case v of
        TArray items \<Rightarrow> (case collect_options (map nonblank items) of Some names \<Rightarrow> distinct_texts names | None \<Rightarrow> [])
      | _ \<Rightarrow> (case nonblank v of Some s \<Rightarrow> [s] | None \<Rightarrow> []))"

definition evident_or :: "tvalue \<Rightarrow> utext list \<Rightarrow> utext \<Rightarrow> utext list" where
  "evident_or v fallback ex =
     (if evident_strings v \<noteq> [] then evident_strings v
      else if fallback \<noteq> [] then distinct_texts fallback else [ex])"

definition command_sections :: "utext list \<Rightarrow> utext" where
  "command_sections names =
     join_text [0x0A] (map (\<lambda>name. ascii ''[commands.commands.'' @ diagnostic_key name @ ascii '']'' @ [0x0A] @
       ascii ''exec = ['' @ toml_string name @ ascii '']'') names)"

definition program_for :: "tvalue option \<Rightarrow> utext \<Rightarrow> utext" where
  "program_for evident key =
     (case Option.bind evident nonblank of
        Some s \<Rightarrow> s
      | None \<Rightarrow> if is_blank key then ascii ''command-name'' else key)"

datatype list_repair = RepairHosts "utext list" | RepairPins | RepairMockHosts

fun repair_field :: "list_repair \<Rightarrow> string" where
  "repair_field (RepairHosts _) = ''hosts''"
| "repair_field RepairMockHosts = ''hosts''"
| "repair_field RepairPins = ''pin_cidrs''"

fun repair_whole :: "list_repair \<Rightarrow> tvalue \<Rightarrow> utext" where
  "repair_whole (RepairHosts fallback) v = strings_line ''hosts'' (evident_or v fallback EXAMPLE_HOST)"
| "repair_whole RepairPins v = strings_line ''pin_cidrs'' (evident_or v [] EXAMPLE_PIN)"
| "repair_whole RepairMockHosts v =
     (if evident_strings v = [] then REMOVE_ENTRY else strings_line ''hosts'' (evident_strings v))"

definition repair_entry :: "list_repair \<Rightarrow> tvalue list \<Rightarrow> utext" where
  "repair_entry repair items =
     (if repair = RepairPins \<and> \<not> list_ex is_str items then toml_string EXAMPLE_PIN else REMOVE_ENTRY)"

section \<open>Lists\<close>

definition at_index :: "utext \<Rightarrow> nat \<Rightarrow> utext" where
  "at_index path index = path @ ascii ''['' @ ascii (show_nat index) @ ascii '']''"

fun strings_from :: "utext \<Rightarrow> utext \<Rightarrow> utext \<Rightarrow> nat \<Rightarrow> tvalue list \<Rightarrow> manifest_error + utext list" where
  "strings_from i path fix index [] = Ok []"
| "strings_from i path fix index (item # items) =
     (case tv_str item of
        None \<Rightarrow> Err (field_error i (at_index path index) fix (shown item @ ascii '' is not a string''))
      | Some s \<Rightarrow> and_then (strings_from i path fix (index + 1) items) (\<lambda>ss. Ok (s # ss)))"

definition declared_string_list ::
  "utext \<Rightarrow> utext \<Rightarrow> tvalue option \<Rightarrow> list_repair \<Rightarrow> manifest_error + utext list" where
  "declared_string_list i sec given repair =
     (case given of
        None \<Rightarrow> Ok []
      | Some v \<Rightarrow>
          let path = sec @ ascii ''.'' @ ascii (repair_field repair) in
          (case tv_array v of
             None \<Rightarrow> Err (field_error i path (repair_whole repair v) (shown v @ ascii '' is not a list of strings''))
           | Some items \<Rightarrow> strings_from i path (repair_entry repair items) 0 items))"

text \<open>\<open>u16::try_from\<close> of a signed number, but not zero.\<close>

definition nonzero_port :: "64 word \<Rightarrow> u16 option" where
  "nonzero_port n = (if 1 \<le> sint n \<and> sint n \<le> 65535 then Some (of_nat (nat (sint n))) else None)"

text \<open>\<open>str::parse::<i64>\<close>: a sign is allowed, and a value out of range has none.\<close>

definition parse_i64 :: "utext \<Rightarrow> 64 word option" where
  "parse_i64 s =
     (let negative = (s \<noteq> [] \<and> hd s = 0x2D);
          digits = (if s \<noteq> [] \<and> (hd s = 0x2D \<or> hd s = 0x2B) then tl s else s);
          n = int (foldl (\<lambda>v d. v * 10 + (d - 0x30)) 0 digits);
          z = (if negative then - n else n)
      in if digits \<noteq> [] \<and> list_all (\<lambda>d. 0x30 \<le> d \<and> d \<le> 0x39) digits \<and> - (2 ^ 63) \<le> z \<and> z < 2 ^ 63
         then Some (word_of_int z) else None)"

definition evident_port :: "tvalue \<Rightarrow> u16 option" where
  "evident_port v =
     Option.bind (case v of
         TInteger n \<Rightarrow> Some n
       | TString s \<Rightarrow> parse_i64 (trim_text s)
       | TFloat f \<Rightarrow> fv_whole f
       | _ \<Rightarrow> None) nonzero_port"

fun position_of_none :: "'a option list \<Rightarrow> nat option" where
  "position_of_none [] = None"
| "position_of_none (x # xs) = (if x = None then Some 0 else map_option Suc (position_of_none xs))"

definition declared_ports :: "utext \<Rightarrow> utext \<Rightarrow> tvalue option \<Rightarrow> manifest_error + u16 list" where
  "declared_ports i field given =
     (case given of
        None \<Rightarrow> Ok []
      | Some v \<Rightarrow>
          (case tv_array v of
             None \<Rightarrow>
               Err (field_error i field
                 (case evident_port v of
                    None \<Rightarrow> REMOVE_ENTRY
                  | Some port \<Rightarrow> ascii ''ports = ['' @ ascii (show_nat (unat port)) @ ascii '']'')
                 (shown v @ ascii '' is not a list of integers from 1 to 65535''))
           | Some items \<Rightarrow>
               let ports = map (\<lambda>item. Option.bind (tv_integer item) nonzero_port) items in
               (case position_of_none ports of
                  None \<Rightarrow> Ok (map the ports)
                | Some index \<Rightarrow>
                    Err (field_error i (at_index field index)
                      (case evident_port (items ! index) of
                         Some port \<Rightarrow>
                           if Some port \<in> set ports then REMOVE_ENTRY else ascii (show_nat (unat port))
                       | None \<Rightarrow> REMOVE_ENTRY)
                      (shown (items ! index) @ ascii '' is not an integer from 1 to 65535'')))))"

definition string_list :: "tvalue option \<Rightarrow> utext list" where
  "string_list given =
     (case Option.bind given tv_array of None \<Rightarrow> [] | Some items \<Rightarrow> List.map_filter tv_str items)"

section \<open>Tools\<close>

definition binding_path :: "utext \<Rightarrow> utext" where
  "binding_path name = ascii ''provides.'' @ diagnostic_key name"

fun parse_binding_tools ::
  "utext \<Rightarrow> utext \<Rightarrow> (utext \<times> tvalue) list \<Rightarrow> manifest_error + tool_declaration list" where
  "parse_binding_tools i path [] = Ok []"
| "parse_binding_tools i path ((name, description) # rest) =
     (let field = path @ ascii ''.tools.'' @ diagnostic_key name in
      if is_blank name then Err (field_error i field REMOVE_ENTRY BLANK_TOOL)
      else case nonblank description of
             None \<Rightarrow>
               Err (field_error i field
                 (diagnostic_key name @ ascii '' = '' @ toml_string (ascii ''Describe what this tool does.''))
                 (ascii ''a nonblank tool description string is required''))
           | Some d \<Rightarrow>
               and_then (parse_binding_tools i path rest) (\<lambda>tools.
               Ok (\<lparr>td_name = name, td_description = d\<rparr> # tools)))"

text \<open>What is written where a binding's \<open>tools\<close> table should be.\<close>

definition tools_refusal :: "utext \<Rightarrow> utext \<Rightarrow> tvalue option \<Rightarrow> manifest_error" where
  "tools_refusal i field given =
     (let first_tool = Option.bind (Option.bind given tv_array)
            (\<lambda>names. case names of [] \<Rightarrow> None | n # _ \<Rightarrow> tv_str n) in
      case first_tool of
        None \<Rightarrow>
          field_error i field (ascii ''['' @ field @ ascii '']'')
            (ascii ''expected a tools table; an empty table declares no tools until entries are written'')
      | Some tool \<Rightarrow>
          if is_blank tool then field_error i (field @ ascii ''[0]'') REMOVE_ENTRY BLANK_TOOL
          else field_error i field
            (ascii ''['' @ field @ ascii '']'' @ [0x0A] @ diagnostic_key tool @ ascii '' = '' @
              toml_string (ascii ''Describe what this tool does.''))
            (ascii ''tool '' @ toml_string tool @
              ascii '' needs a description; replace the names list with a table''))"

fun parse_bindings :: "utext \<Rightarrow> (utext \<times> tvalue) list \<Rightarrow> manifest_error + tool_declaration list" where
  "parse_bindings i [] = Ok []"
| "parse_bindings i ((name, binding) # rest) =
     (if is_blank name then
        Err (field_error i (binding_path name) REMOVE_ENTRY
          (ascii ''a capability key must not be empty or only whitespace''))
      else if \<not> is_table binding then
        Err (field_error i (binding_path name) (ascii ''['' @ binding_path name @ ascii '']'')
          (ascii ''expected a capability binding table''))
      else
        let declarations = tv_get ''tools'' binding in
        case Option.bind declarations tv_table of
          None \<Rightarrow> Err (tools_refusal i (binding_path name @ ascii ''.tools'') declarations)
        | Some table \<Rightarrow>
            and_then (parse_binding_tools i (binding_path name) table) (\<lambda>tools.
            and_then (parse_bindings i rest) (\<lambda>others. Ok (tools @ others))))"

definition parse_tools :: "utext \<Rightarrow> tvalue \<Rightarrow> manifest_error + tool_declaration list" where
  "parse_tools i provides =
     (case tv_table provides of
        None \<Rightarrow> Err (field_error i (ascii ''provides'') (ascii ''[provides]'') (ascii ''expected a table''))
      | Some bindings \<Rightarrow> parse_bindings i bindings)"

text \<open>The order of two or more bindings is read from the text again.\<close>

definition binding_keys :: "toml_lib \<Rightarrow> utext \<Rightarrow> (utext \<times> tvalue) list \<Rightarrow> manifest_error + utext list" where
  "binding_keys lib s bindings =
     (if length bindings < 2 then Ok (map fst bindings) else map_err MfParse (tl_binding_keys lib s))"

section \<open>Networks\<close>

definition parse_network ::
  "utext \<Rightarrow> utext \<Rightarrow> tvalue \<Rightarrow> utext list \<Rightarrow> manifest_error + command_network" where
  "parse_network i field_path n mock_hosts =
     (if \<not> is_table n then
        Err (field_error i field_path
          (ascii ''['' @ field_path @ ascii '']'' @ [0x0A] @
            strings_line ''hosts'' (evident_or n mock_hosts EXAMPLE_HOST))
          (shown n @ ascii '' is not a table''))
      else
        and_then (declared_string_list i field_path (tv_get ''hosts'' n) (RepairHosts mock_hosts)) (\<lambda>hosts.
        and_then (declared_ports i (field_path @ ascii ''.ports'') (tv_get ''ports'' n)) (\<lambda>ports.
        and_then (declared_string_list i field_path (tv_get ''pin_cidrs'' n) RepairPins) (\<lambda>pins.
        Ok \<lparr>cn_hosts = hosts, cn_ports = ports, cn_pin_cidrs = pins\<rparr>))))"

text \<open>The index of the first item that stands before too.\<close>

fun first_repeat_at :: "'a set \<Rightarrow> 'a list \<Rightarrow> nat option" where
  "first_repeat_at seen [] = None"
| "first_repeat_at seen (x # xs) =
     (if x \<in> seen then Some 0 else map_option Suc (first_repeat_at (insert x seen) xs))"

definition host_ok :: "utext \<Rightarrow> bool" where "host_ok host = is_proxy_host (text_bytes host)"

text \<open>\<open>str::to_ascii_lowercase\<close>.\<close>

definition lower_text :: "utext \<Rightarrow> utext" where
  "lower_text s = map (\<lambda>c. if 0x41 \<le> c \<and> c \<le> 0x5A then c + 0x20 else c) s"

fun position_where :: "('a \<Rightarrow> bool) \<Rightarrow> 'a list \<Rightarrow> nat option" where
  "position_where P [] = None"
| "position_where P (x # xs) = (if P x then Some 0 else map_option Suc (position_where P xs))"

fun find_host_bits :: "nat \<Rightarrow> (cidr_error + cidr) list \<Rightarrow> (nat \<times> cidr) option" where
  "find_host_bits index [] = None"
| "find_host_bits index (p # ps) =
     (case p of
        Inl (HostBitsSet network) \<Rightarrow> Some (index, network)
      | _ \<Rightarrow> find_host_bits (index + 1) ps)"

definition exact_pins :: "utext \<Rightarrow> utext list \<Rightarrow> manifest_error + cidr list" where
  "exact_pins i written =
     (let parsed = map (\<lambda>pin. cidr_parse (text_bytes pin)) written;
          refused = (\<lambda>index fix detail. Err (field_error i (at_index (ascii ''network.pin_cidrs'') index) fix detail)) in
      case find_host_bits 0 parsed of
        Some (index, network) \<Rightarrow>
          refused index (toml_string (ascii (show_cidr network)))
            (toml_string (written ! index) @ ascii '' has host bits set past its prefix'')
      | None \<Rightarrow>
          (case position_where (\<lambda>p. \<not> is_ok p) parsed of
             Some index \<Rightarrow>
               refused index (if list_ex is_ok parsed then REMOVE_ENTRY else toml_string EXAMPLE_PIN)
                 (toml_string (written ! index) @ ascii '' is not a CIDR such as '' @ toml_string EXAMPLE_PIN)
           | None \<Rightarrow> Ok (map projr parsed)))"

definition exact_network :: "utext \<Rightarrow> command_network \<Rightarrow> manifest_error + network_spec" where
  "exact_network i written =
     (let hosts = cn_hosts written; ports = cn_ports written in
      if hosts = [] \<and> ports = [] then
        Err (field_error i (ascii ''network'') REMOVE_ENTRY
          (ascii ''a network section with no host and no port declares nothing''))
      else if hosts = [] then
        Err (field_error i (ascii ''network.hosts'') (strings_line ''hosts'' [EXAMPLE_HOST])
          (ascii ''a network section must name at least one host''))
      else if ports = [] then
        Err (field_error i (ascii ''network.hosts[0]'') REMOVE_ENTRY
          (ascii ''a network section that names hosts must declare a port''))
      else case first_repeat_at {} ports of
        Some index \<Rightarrow>
          Err (field_error i (at_index (ascii ''network.ports'') index) REMOVE_ENTRY
            (ascii (show_nat (unat (ports ! index))) @ ascii '' is already declared''))
      | None \<Rightarrow>
      (case position_where (\<lambda>h. \<not> host_ok h) hosts of
         Some index \<Rightarrow>
           let lower = lower_text (hosts ! index) in
           Err (field_error i (at_index (ascii ''network.hosts'') index)
             (if host_ok lower \<and> lower \<notin> set hosts then toml_string lower else REMOVE_ENTRY)
             (toml_string (hosts ! index) @ ascii '' is not a lower-case DNS name''))
       | None \<Rightarrow>
      (case first_repeat_at {} hosts of
         Some index \<Rightarrow>
           Err (field_error i (at_index (ascii ''network.hosts'') index) REMOVE_ENTRY
             (toml_string (hosts ! index) @ ascii '' is already declared''))
       | None \<Rightarrow>
           and_then (exact_pins i (cn_pin_cidrs written)) (\<lambda>pins.
           Ok \<lparr>ns_hosts = hosts, ns_ports = ports, ns_pin_cidrs = pins\<rparr>))))"

section \<open>The workspace\<close>

definition path_ok :: "utext \<Rightarrow> bool" where
  "path_ok p = is_ok (canonical_path ''dst'' (text_bytes p))"

definition trim_end_slashes :: "utext \<Rightarrow> utext" where
  "trim_end_slashes p = rev (dropWhile (\<lambda>c. c = 0x2F) (rev p))"

definition dst_repair :: "utext \<Rightarrow> utext" where
  "dst_repair dst =
     (let rooted = (if dst \<noteq> [] \<and> hd dst = 0x2F then dst else 0x2F # dst); trimmed = trim_end_slashes rooted in
      if path_ok trimmed then trimmed else DEFAULT_DST)"

definition parse_workspace :: "utext \<Rightarrow> tvalue \<Rightarrow> manifest_error + workspace_mount option" where
  "parse_workspace i workspace =
     (let refused = (\<lambda>fix detail.
            Err (field_error i (ascii ''workspace.mount.dst'') (ascii ''dst = '' @ toml_string fix) detail)) in
      case tv_table workspace of
        None \<Rightarrow> Ok None
      | Some _ \<Rightarrow>
          (case tv_get ''mount'' workspace of
             None \<Rightarrow>
               Err (field_error i (ascii ''workspace.mount'')
                 (ascii ''mount = { dst = '' @ toml_string DEFAULT_DST @ ascii '' }'')
                 (ascii ''a workspace section must declare its mount''))
           | Some mount \<Rightarrow>
               (case tv_get ''dst'' mount of
                  None \<Rightarrow> Ok (Some \<lparr>wm_dst = DEFAULT_DST\<rparr>)
                | Some v \<Rightarrow>
                    (case tv_str v of
                       Some dst \<Rightarrow>
                         if path_ok dst then Ok (Some \<lparr>wm_dst = dst\<rparr>)
                         else refused (dst_repair dst)
                           (toml_string dst @ ascii '' is not a canonical absolute path'')
                     | None \<Rightarrow> refused DEFAULT_DST (shown v @ ascii '' is not a path string'')))))"

section \<open>Credentials\<close>

fun narrowest_delivery :: "secret_consumer \<Rightarrow> bool \<Rightarrow> delivery_mode" where
  "narrowest_delivery ScWasm _ = DmHandle"
| "narrowest_delivery ScGit _ = DmHelper"
| "narrowest_delivery _ path_scoped = (if path_scoped then DmInject else DmMint)"

definition path_scope_of :: "secret_ref \<Rightarrow> utext list" where
  "path_scope_of s = (case sr_scope s of Some scope \<Rightarrow> ss_path_scope scope | None \<Rightarrow> [])"

fun delivery_fits :: "secret_consumer \<Rightarrow> delivery_mode \<Rightarrow> bool" where
  "delivery_fits ScWasm mode = (mode = DmHandle)"
| "delivery_fits ScGit mode = (mode = DmHelper \<or> mode = DmMint)"
| "delivery_fits _ mode = (mode = DmInject \<or> mode = DmMint)"

definition ref_field :: "utext \<Rightarrow> nat \<Rightarrow> string \<Rightarrow> utext" where
  "ref_field sec index name = at_index (sec @ ascii ''.refs'') index @ ascii ''.'' @ ascii name"

definition delivery_line :: "delivery_mode \<Rightarrow> utext" where
  "delivery_line mode = ascii ''delivery = ['' @ toml_string (delivery_as_str mode) @ ascii '']''"

definition scope_line :: utext where
  "scope_line = ascii ''scope = { path_scope = ['' @ toml_string (ascii ''/required/path/'') @ ascii ''] }''"

definition absolute_text :: "utext \<Rightarrow> bool" where "absolute_text p = (p \<noteq> [] \<and> hd p = 0x2F)"

definition check_mode :: "utext \<Rightarrow> utext \<Rightarrow> nat \<Rightarrow> secret_ref \<Rightarrow> bool \<Rightarrow> delivery_mode \<Rightarrow> manifest_error + unit" where
  "check_mode i sec index secret delivery_omitted mode =
     (let paths = path_scope_of secret; relative = list_ex (\<lambda>p. \<not> absolute_text p) paths in
      if \<not> delivery_fits (sr_consumer secret) mode then
        Err (field_error i (ref_field sec index ''delivery'')
          (delivery_line (narrowest_delivery (sr_consumer secret) (paths \<noteq> [])))
          (ascii ''delivery `'' @ delivery_as_str mode @ ascii ''` is not valid for consumer `'' @
            consumer_as_str (sr_consumer secret) @ ascii ''`''))
      else if (mode = DmInject \<or> delivery_omitted) \<and> ((mode = DmInject \<and> paths = []) \<or> relative) then
        Err (field_error i (ref_field sec index ''scope.path_scope'') scope_line
          (ascii ''path-scope entries must be absolute; inject also requires a nonempty scope''))
      else Ok ())"

definition validate_secret_ref :: "utext \<Rightarrow> utext \<Rightarrow> nat \<Rightarrow> secret_ref \<Rightarrow> bool \<Rightarrow> manifest_error + unit" where
  "validate_secret_ref i sec index secret delivery_omitted =
     (if sr_delivery secret = [] then
        Err (field_error i (ref_field sec index ''delivery'')
          (delivery_line (narrowest_delivery (sr_consumer secret) (path_scope_of secret \<noteq> [])))
          (ascii ''an explicit delivery list must not be empty''))
      else for_each (check_mode i sec index secret delivery_omitted) (sr_delivery secret))"

text \<open>\<open>Map::remove\<close> and \<open>Map::insert\<close> on a table.\<close>

definition table_remove :: "string \<Rightarrow> (utext \<times> tvalue) list \<Rightarrow> (utext \<times> tvalue) list" where
  "table_remove key es = drop_entry (ascii key) es"

definition table_insert :: "string \<Rightarrow> tvalue \<Rightarrow> (utext \<times> tvalue) list \<Rightarrow> (utext \<times> tvalue) list" where
  "table_insert key v es = put_entry (ascii key) v es"

definition normalize_scope :: "tvalue \<Rightarrow> tvalue" where
  "normalize_scope item =
     (case tv_table item of
        None \<Rightarrow> item
      | Some table \<Rightarrow>
          (case map_of table (ascii ''scope'') of
             Some scope \<Rightarrow>
               if is_array scope
               then TTable (table_insert ''scope'' (TTable [(ascii ''path_scope'', scope)]) (table_remove ''scope'' table))
               else item
           | None \<Rightarrow> item))"

text \<open>The field a reference that does not decode is refused for.\<close>

definition ref_fault :: "delivery_mode \<Rightarrow> tvalue \<Rightarrow> string \<times> utext" where
  "ref_fault derived original =
     (if tv_get_str ''id'' original = None then (''id'', ascii ''id = '' @ toml_string (ascii ''credential-id''))
      else if (case tv_get ''delivery'' original of
                 None \<Rightarrow> False
               | Some delivery \<Rightarrow>
                   (case tv_array delivery of
                      None \<Rightarrow> True
                    | Some modes \<Rightarrow> list_ex (\<lambda>mode. Option.bind (tv_str mode) delivery_parse = None) modes))
      then (''delivery'', delivery_line derived)
      else if (case tv_get ''ttl'' original of None \<Rightarrow> False | Some ttl \<Rightarrow> \<not> is_str ttl)
      then (''ttl'', ascii ''ttl = '' @ toml_string (ascii ''1h''))
      else if (case tv_get ''subject'' original of None \<Rightarrow> False | Some subject \<Rightarrow> \<not> is_str subject)
      then (''subject'', ascii ''subject = '' @ toml_string (ascii ''command-name''))
      else (''scope'', scope_line))"

definition parse_secret_ref :: "toml_lib \<Rightarrow> utext \<Rightarrow> utext \<Rightarrow> nat \<Rightarrow> tvalue \<Rightarrow> manifest_error + secret_ref" where
  "parse_secret_ref lib i sec index original =
     (let item = normalize_scope original in
      case Option.bind (tv_get_str ''consumer'' item) consumer_parse of
        None \<Rightarrow>
          Err (field_error i (ref_field sec index ''consumer'')
            (ascii ''consumer = '' @ toml_string (ascii ''wasm''))
            (ascii ''consumer must be wasm, git, http or process''))
      | Some consumer \<Rightarrow>
          let paths = Option.bind (tv_get ''scope'' item) (tv_get ''path_scope'');
              derived = narrowest_delivery consumer (paths \<noteq> None);
              delivery_omitted = (tv_get ''delivery'' item = None);
              item' = (case tv_table item of
                         Some table \<Rightarrow>
                           if delivery_omitted
                           then TTable (table_insert ''delivery'' (TArray [TString (delivery_as_str derived)]) table)
                           else item
                       | None \<Rightarrow> item) in
          (case tl_secret_ref lib item' of
             Err message \<Rightarrow>
               let (name, fix) = ref_fault derived original in
               Err (field_error i (ref_field sec index name) fix
                 (ascii ''invalid credential reference: '' @ without_controls message))
           | Ok secret \<Rightarrow>
               and_then (validate_secret_ref i sec index secret delivery_omitted) (\<lambda>_. Ok secret)))"

fun parse_ref_items :: "toml_lib \<Rightarrow> utext \<Rightarrow> utext \<Rightarrow> nat \<Rightarrow> tvalue list \<Rightarrow> manifest_error + secret_ref list" where
  "parse_ref_items lib i sec index [] = Ok []"
| "parse_ref_items lib i sec index (item # items) =
     and_then (parse_secret_ref lib i sec index item) (\<lambda>secret.
     and_then (parse_ref_items lib i sec (index + 1) items) (\<lambda>secrets. Ok (secret # secrets)))"

definition parse_secret_refs :: "toml_lib \<Rightarrow> utext \<Rightarrow> utext \<Rightarrow> tvalue \<Rightarrow> manifest_error + secret_ref list" where
  "parse_secret_refs lib i sec secrets =
     (case tv_get ''refs'' secrets of
        None \<Rightarrow> Ok []
      | Some refs \<Rightarrow>
          (case tv_array refs of
             None \<Rightarrow>
               Err (field_error i (sec @ ascii ''.refs'')
                 (ascii ''refs = [{ id = '' @ toml_string (ascii ''credential-id'') @ ascii '', consumer = '' @
                   toml_string (ascii ''wasm'') @ ascii '' }]'')
                 (ascii ''credential refs must be a list''))
           | Some items \<Rightarrow> parse_ref_items lib i sec 0 items))"

section \<open>Commands\<close>

definition parse_command ::
  "toml_lib \<Rightarrow> utext \<Rightarrow> utext \<Rightarrow> tvalue \<Rightarrow> manifest_error + command_decl" where
  "parse_command lib plasmid_id i decl =
     (let path = ascii ''commands.commands.'' @ diagnostic_key i;
          declared = tv_get ''exec'' decl; exec = string_list declared in
      if \<not> is_table decl then
        Err (field_error plasmid_id path
          (ascii ''['' @ path @ ascii '']'' @ [0x0A] @ ascii ''exec = ['' @
            toml_string (program_for (Some decl) i) @ ascii '']'')
          (shown decl @ ascii '' is not a table''))
      else if exec = [] then
        Err (field_error plasmid_id (path @ ascii ''.exec'')
          (ascii ''exec = ['' @ toml_string (program_for declared i) @ ascii '']'')
          (case declared of
             None \<Rightarrow> ascii ''the command declares no exec''
           | Some v \<Rightarrow>
               if is_array v then shown v @ ascii '' names no program to run''
               else shown v @ ascii '' is not a list of strings''))
      else
        and_then (case tv_get ''network'' decl of
            None \<Rightarrow> Ok None
          | Some n \<Rightarrow> and_then (parse_network plasmid_id (path @ ascii ''.network'') n []) (\<lambda>cn. Ok (Some cn))) (\<lambda>network.
        and_then (case tv_get ''secrets'' decl of
            None \<Rightarrow> Ok []
          | Some secrets \<Rightarrow> parse_secret_refs lib plasmid_id (path @ ascii ''.secrets'') secrets) (\<lambda>secrets.
        Ok \<lparr>cm_id = i, cm_exec = exec, cm_subject = tv_get_str ''subject'' decl, cm_network = network,
             cm_secrets = secrets\<rparr>)))"

fun parse_command_table ::
  "toml_lib \<Rightarrow> utext \<Rightarrow> (utext \<times> tvalue) list \<Rightarrow> manifest_error + command_decl list" where
  "parse_command_table lib plasmid_id [] = Ok []"
| "parse_command_table lib plasmid_id ((i, decl) # rest) =
     and_then (parse_command lib plasmid_id i decl) (\<lambda>command.
     and_then (parse_command_table lib plasmid_id rest) (\<lambda>commands. Ok (command # commands)))"

definition parse_commands :: "toml_lib \<Rightarrow> utext \<Rightarrow> tvalue \<Rightarrow> manifest_error + commands_spec" where
  "parse_commands lib plasmid_id raw =
     (let address_plan = (case tv_get_str ''address_plan'' raw of Some a \<Rightarrow> a | None \<Rightarrow> ascii ''10.29.0.0/24'') in
      if \<not> is_table raw then
        Err (field_error plasmid_id (ascii ''commands'') (command_sections (evident_or raw [] EXAMPLE_COMMAND))
          (shown raw @ ascii '' is not a table''))
      else case tv_get ''commands'' raw of
        None \<Rightarrow>
          Err (field_error plasmid_id (ascii ''commands.commands'') (command_sections [EXAMPLE_COMMAND])
            (ascii ''[commands] holds no commands table''))
      | Some v \<Rightarrow>
          (case tv_table v of
             None \<Rightarrow>
               Err (field_error plasmid_id (ascii ''commands.commands'')
                 (command_sections (evident_or v [] EXAMPLE_COMMAND)) (shown v @ ascii '' is not a table''))
           | Some table \<Rightarrow>
               and_then (parse_command_table lib plasmid_id table) (\<lambda>commands.
               Ok \<lparr>cs_address_plan = address_plan, cs_commands = commands\<rparr>)))"

definition blank_option :: "utext option \<Rightarrow> bool" where
  "blank_option s = (case s of None \<Rightarrow> True | Some t \<Rightarrow> is_blank t)"

definition validate_command :: "utext \<Rightarrow> command_decl \<Rightarrow> manifest_error + unit" where
  "validate_command i decl =
     (case position_where (\<lambda>secret. blank_option (sr_subject secret) \<and> blank_option (cm_subject decl))
             (cm_secrets decl) of
        None \<Rightarrow> Ok ()
      | Some index \<Rightarrow>
          Err (field_error i
            (at_index (ascii ''commands.commands.'' @ diagnostic_key (cm_id decl) @ ascii ''.secrets.refs'') index @
              ascii ''.subject'')
            (ascii ''subject = '' @ toml_string (program_for None (cm_id decl)))
            (ascii ''a command credential requires a nonblank ref or command subject'')))"

definition validate_commands :: "utext \<Rightarrow> commands_spec \<Rightarrow> manifest_error + unit" where
  "validate_commands i commands = for_each (validate_command i) (cs_commands commands)"

section \<open>The mock\<close>

definition hosts_named :: "utext list \<Rightarrow> utext" where
  "hosts_named hosts =
     (let quoted = map toml_string hosts in
      if length quoted \<ge> 2
      then join_text (ascii '', '') (butlast quoted) @ ascii '' and '' @ last quoted
      else concat quoted)"

definition parse_mock :: "utext \<Rightarrow> tvalue \<Rightarrow> manifest_error + mock_spec" where
  "parse_mock i m =
     (let backend = tv_get ''backend'' m;
          word = (\<lambda>v default. case v of Some t \<Rightarrow> t | None \<Rightarrow> default) in
      and_then (declared_string_list i (ascii ''mock'') (tv_get ''hosts'' m) RepairMockHosts) (\<lambda>hosts.
      Ok \<lparr>mk_hosts = hosts,
          mk_kind = word (Option.bind backend (tv_get_str ''kind'')) (ascii ''recorded''),
          mk_api = word (tv_get_str ''api'' m) (ascii ''github''),
          mk_source = word (Option.bind backend (tv_get_str ''source'')) []\<rparr>))"

definition validate_mock :: "utext \<Rightarrow> mock_spec \<Rightarrow> command_network option \<Rightarrow> manifest_error + unit" where
  "validate_mock i mock network =
     (case network of
        None \<Rightarrow>
          Err (field_error i (ascii ''mock'') REMOVE_ENTRY
            (if mk_hosts mock = [] then ascii ''[mock] names no host, and there is no [network]''
             else ascii ''[mock] stands in for '' @ hosts_named (distinct_texts (mk_hosts mock)) @
               ascii '', and there is no [network]''))
      | Some net \<Rightarrow>
          (let declared = set (cn_hosts net) in
           case position_where (\<lambda>h. h \<notin> declared) (mk_hosts mock) of
             None \<Rightarrow> Ok ()
           | Some index \<Rightarrow>
               let host = mk_hosts mock ! index in
               if cn_ports net = [] then
                 Err (field_error i (ascii ''mock'') REMOVE_ENTRY
                   (ascii ''[mock] stands in for '' @
                     hosts_named (filter (\<lambda>h. h \<notin> declared) (distinct_texts (mk_hosts mock))) @
                     ascii '', which [network] does not declare, and [network] declares no port''))
               else if \<not> host_ok host then
                 let lower = lower_text host in
                 Err (field_error i (at_index (ascii ''mock.hosts'') index)
                   (if host_ok lower \<and> lower \<notin> set (mk_hosts mock) then toml_string lower else REMOVE_ENTRY)
                   (ascii ''[mock] stands in for '' @ toml_string host @
                     ascii '', which is not a lower-case DNS name''))
               else
                 let (fix, written) =
                   (if cn_hosts net = []
                    then (strings_line ''hosts'' (distinct_texts (mk_hosts mock)), distinct_texts (mk_hosts mock))
                    else (toml_string host, [host])) in
                 Err (field_error i (ascii ''network.hosts'') fix
                   (ascii ''[mock] stands in for '' @ hosts_named written @
                     ascii '', which [network] does not declare''))))"

section \<open>Parsing\<close>

definition parse_model :: "tvalue \<Rightarrow> model_spec" where
  "parse_model m =
     \<lparr>md_endpoint = (case tv_get_str ''endpoint'' m of Some e \<Rightarrow> e
        | None \<Rightarrow> ascii ''https://api.openai.com/v1/chat/completions''),
      md_credential = (case tv_get_str ''credential'' m of Some c \<Rightarrow> c | None \<Rightarrow> ascii ''model-provider/key'')\<rparr>"

text \<open>\<open>Option::map(f).transpose()\<close>.\<close>

definition transposed :: "('a \<Rightarrow> 'e + 'b) \<Rightarrow> 'a option \<Rightarrow> 'e + 'b option" where
  "transposed f x = (case x of None \<Rightarrow> Ok None | Some a \<Rightarrow> and_then (f a) (\<lambda>b. Ok (Some b)))"

definition or_empty :: "'a list option \<Rightarrow> 'a list" where
  "or_empty x = (case x of None \<Rightarrow> [] | Some xs \<Rightarrow> xs)"

text \<open>What the declaration must name: a capability, or an implementation.\<close>

definition names_nothing ::
  "utext option \<Rightarrow> command_network option \<Rightarrow> workspace_mount option \<Rightarrow> mock_spec option \<Rightarrow> model_spec option \<Rightarrow>
   commands_spec option \<Rightarrow> bool" where
  "names_nothing wasm network workspace mock model commands =
     (wasm = None \<and> network = None \<and> workspace = None \<and> mock = None \<and> model = None \<and>
      (case commands of None \<Rightarrow> True | Some c \<Rightarrow> cs_commands c = []))"

definition nothing_error :: "utext \<Rightarrow> commands_spec option \<Rightarrow> manifest_error" where
  "nothing_error i commands =
     (if commands \<noteq> None then
        field_error i (ascii ''commands.commands'') (command_sections [EXAMPLE_COMMAND])
          (ascii ''the commands table declares no command'')
      else
        field_error i (ascii ''impl'') (ascii ''[impl]'' @ [0x0A] @ ascii ''wasm = '' @ toml_string (ascii ''component.wasm''))
          (ascii ''the declaration names no capability and no implementation''))"

definition parse_id :: "tvalue \<Rightarrow> manifest_error + utext" where
  "parse_id raw =
     (case tv_get_str ''id'' raw of
        None \<Rightarrow> Err (id_error (ascii ''a string id is required''))
      | Some i \<Rightarrow>
          if is_blank i then Err (id_error (ascii ''the id must not be empty or only whitespace'')) else Ok i)"

definition parse_description :: "utext \<Rightarrow> tvalue \<Rightarrow> manifest_error + utext" where
  "parse_description i raw =
     (case Option.bind (tv_get ''description'' raw) nonblank of
        Some d \<Rightarrow> Ok d
      | None \<Rightarrow>
          Err (field_error i (ascii ''description'')
            (ascii ''description = '' @ toml_string (ascii ''Describe what this plasmid is for.''))
            (ascii ''a nonblank description string is required'')))"

definition parse_value :: "toml_lib \<Rightarrow> utext \<Rightarrow> tvalue \<Rightarrow> manifest_error + plasmid_manifest" where
  "parse_value lib s raw =
     and_then (parse_id raw) (\<lambda>i.
     and_then (parse_description i raw) (\<lambda>description.
     let version = (case tv_get_str ''version'' raw of Some v \<Rightarrow> v | None \<Rightarrow> ascii ''0.0.0'');
         wasm = Option.bind (tv_get ''impl'' raw) (tv_get_str ''wasm'');
         requires = (case tv_get ''requires'' raw of Some r \<Rightarrow> string_list (tv_get ''capabilities'' r) | None \<Rightarrow> []) in
     and_then (transposed (parse_tools i) (tv_get ''provides'' raw)) (\<lambda>tools.
     and_then (transposed (binding_keys lib s) (Option.bind (tv_get ''provides'' raw) tv_table)) (\<lambda>provides.
     and_then (transposed (parse_secret_refs lib i (ascii ''secrets'')) (tv_get ''secrets'' raw)) (\<lambda>secrets.
     and_then (transposed (parse_commands lib i) (tv_get ''commands'' raw)) (\<lambda>commands.
     and_then (transposed (parse_workspace i) (tv_get ''workspace'' raw)) (\<lambda>workspace.
     let workspace = Option.bind workspace (\<lambda>w. w) in
     and_then (transposed (parse_mock i) (tv_get ''mock'' raw)) (\<lambda>mock.
     let mock_hosts = (case mock of Some m \<Rightarrow> mk_hosts m | None \<Rightarrow> []) in
     and_then (transposed (\<lambda>n. parse_network i (ascii ''network'') n mock_hosts) (tv_get ''network'' raw)) (\<lambda>network.
     let model = map_option parse_model (tv_get ''model'' raw);
         drain_ms = Option.bind (Option.bind (tv_get ''lifecycle'' raw) (tv_get ''drain_ms'')) tv_integer in
     if names_nothing wasm network workspace mock model commands then Err (nothing_error i commands)
     else
       and_then (case mock of None \<Rightarrow> Ok () | Some spec \<Rightarrow> validate_mock i spec network) (\<lambda>_.
       and_then (transposed (exact_network i) network) (\<lambda>network.
       and_then (case commands of None \<Rightarrow> Ok () | Some c \<Rightarrow> validate_commands i c) (\<lambda>_.
       Ok \<lparr>pm_id = i, pm_description = description, pm_version = version, pm_wasm = wasm, pm_network = network,
           pm_requires = requires, pm_provides_tools = or_empty tools, pm_provides = or_empty provides,
           pm_secrets = or_empty secrets, pm_commands = commands, pm_workspace = workspace, pm_mock = mock,
           pm_model = model, pm_drain_ms = drain_ms\<rparr>))))))))))))"

definition manifest_parse :: "toml_lib \<Rightarrow> utext \<Rightarrow> manifest_error + plasmid_manifest" where
  "manifest_parse lib s =
     (if byte_len s > MAX_MANIFEST_BYTES then Err (MfTooLarge MAX_MANIFEST_BYTES)
      else if deeper_than s MAX_MANIFEST_DEPTH then Err (MfTooDeep MAX_MANIFEST_DEPTH)
      else and_then (map_err MfParse (tl_from_str lib s)) (parse_value lib s))"

text \<open>
  \<open>load\<close>. A file either does not open, or delivers bytes and then ends or fails; \<open>take\<close> stops reading one
  byte past the bound, before a later failure is met.
\<close>

datatype manifest_file = NoFile utext | Delivers "nat list" "utext option"

fun manifest_load :: "toml_lib \<Rightarrow> manifest_file \<Rightarrow> manifest_error + plasmid_manifest" where
  "manifest_load lib (NoFile e) = Err (MfIo e)"
| "manifest_load lib (Delivers bytes failure) =
     (let read = take (MAX_MANIFEST_BYTES + 1) bytes in
      if length read \<le> MAX_MANIFEST_BYTES \<and> failure \<noteq> None then Err (MfIo (the failure))
      else if length read > MAX_MANIFEST_BYTES then Err (MfTooLarge MAX_MANIFEST_BYTES)
      else case from_utf8 0 read of
             Err _ \<Rightarrow> Err (MfIo (tl_utf8_error lib read))
           | Ok s \<Rightarrow> manifest_parse lib s)"

definition declares_any_host :: "plasmid_manifest \<Rightarrow> utext \<Rightarrow> bool" where
  "declares_any_host m host = (case pm_network m of None \<Rightarrow> False | Some n \<Rightarrow> host \<in> set (ns_hosts n))"

end
