(* ===== verification/Manifest_Checked.thy ===== *)
theory Manifest_Checked
  imports Manifest
begin

text \<open>
  What a parsed declaration keeps to, and what a refused one is told: the checks of
  \<open>crates/plasmosome-core/src/manifest.rs\<close> leave nothing unchecked that the kernel acts on, and no refusal
  drives the terminal it is read on.
\<close>

section \<open>A checked manifest\<close>

definition checked_secret :: "secret_ref \<Rightarrow> bool" where
  "checked_secret s =
     (sr_delivery s \<noteq> [] \<and>
      list_all (\<lambda>mode. delivery_fits (sr_consumer s) mode \<and>
        (mode = DmInject \<longrightarrow> path_scope_of s \<noteq> [] \<and> list_all absolute_text (path_scope_of s))) (sr_delivery s))"

definition checked_command :: "command_decl \<Rightarrow> bool" where
  "checked_command c =
     (cm_exec c \<noteq> [] \<and> list_all checked_secret (cm_secrets c) \<and>
      list_all (\<lambda>s. \<not> blank_option (sr_subject s) \<or> \<not> blank_option (cm_subject c)) (cm_secrets c) \<and>
      (case cm_network c of None \<Rightarrow> True | Some n \<Rightarrow> 0 \<notin> set (cn_ports n)))"

definition checked_network :: "network_spec \<Rightarrow> bool" where
  "checked_network n =
     (ns_hosts n \<noteq> [] \<and> ns_ports n \<noteq> [] \<and> distinct (ns_hosts n) \<and> distinct (ns_ports n) \<and>
      list_all host_ok (ns_hosts n) \<and> 0 \<notin> set (ns_ports n) \<and>
      list_all (\<lambda>c. masked (cd_network c) (cd_prefix c) = cd_network c) (ns_pin_cidrs n))"

definition checked_mock :: "network_spec option \<Rightarrow> mock_spec \<Rightarrow> bool" where
  "checked_mock network mock =
     (case network of None \<Rightarrow> False | Some n \<Rightarrow> set (mk_hosts mock) \<subseteq> set (ns_hosts n))"

definition checked_manifest :: "plasmid_manifest \<Rightarrow> bool" where
  "checked_manifest m =
     (\<not> is_blank (pm_id m) \<and> \<not> is_blank (pm_description m) \<and>
      list_all (\<lambda>t. \<not> is_blank (td_name t) \<and> \<not> is_blank (td_description t)) (pm_provides_tools m) \<and>
      pred_option checked_network (pm_network m) \<and>
      pred_option (checked_mock (pm_network m)) (pm_mock m) \<and>
      list_all checked_secret (pm_secrets m) \<and>
      pred_option (\<lambda>c. list_all checked_command (cs_commands c)) (pm_commands m) \<and>
      pred_option (\<lambda>w. path_ok (wm_dst w)) (pm_workspace m) \<and>
      (pm_wasm m \<noteq> None \<or> pm_network m \<noteq> None \<or> pm_workspace m \<noteq> None \<or> pm_mock m \<noteq> None \<or>
       pm_model m \<noteq> None \<or> (\<exists>c cs. pm_commands m = Some c \<and> cs_commands c = cs \<and> cs \<noteq> [])))"

section \<open>Searches\<close>

lemma position_where_None: "position_where P xs = None \<longleftrightarrow> list_all (\<lambda>x. \<not> P x) xs"
  by (induction xs) auto

lemma position_where_Some: "position_where P xs = Some i \<Longrightarrow> i < length xs \<and> P (xs ! i)"
  by (induction xs arbitrary: i) (auto split: if_splits)

lemma position_of_none_Some: "position_of_none xs = Some i \<Longrightarrow> i < length xs"
  by (induction xs arbitrary: i) (auto split: if_splits)

lemma first_repeat_at_None: "first_repeat_at seen xs = None \<longleftrightarrow> distinct xs \<and> set xs \<inter> seen = {}"
  by (induction xs arbitrary: seen) auto

lemma position_of_none_None: "position_of_none xs = None \<longleftrightarrow> None \<notin> set xs"
  by (induction xs) (auto simp: eq_commute)

lemma nonblank_Some: "nonblank v = Some s \<longleftrightarrow> tv_str v = Some s \<and> \<not> is_blank s"
  by (auto simp: nonblank_def split: option.splits)

lemma transposed_Ok: "transposed f x = Ok y \<longleftrightarrow> (case x of None \<Rightarrow> y = None | Some a \<Rightarrow> \<exists>b. f a = Ok b \<and> y = Some b)"
  by (auto simp: transposed_def and_then_eq_Inr split: option.splits)

section \<open>Each part\<close>

lemma parse_binding_tools_ok:
  "parse_binding_tools i path es = Ok tools \<Longrightarrow>
   list_all (\<lambda>t. \<not> is_blank (td_name t) \<and> \<not> is_blank (td_description t)) tools"
  by (induction i path es arbitrary: tools rule: parse_binding_tools.induct)
    (auto simp: Let_def and_then_eq_Inr nonblank_Some split: if_splits option.splits)

lemma parse_bindings_ok:
  "parse_bindings i es = Ok tools \<Longrightarrow>
   list_all (\<lambda>t. \<not> is_blank (td_name t) \<and> \<not> is_blank (td_description t)) tools"
proof (induction i es arbitrary: tools rule: parse_bindings.induct)
  case (2 i name binding rest)
  then obtain table here others where "parse_binding_tools i (binding_path name) table = Ok here"
    "parse_bindings i rest = Ok others" "tools = here @ others"
    by (auto simp: Let_def and_then_eq_Inr split: if_splits option.splits)
  moreover have "list_all (\<lambda>t. \<not> is_blank (td_name t) \<and> \<not> is_blank (td_description t)) others"
    using 2 calculation(2) by (auto simp: Let_def and_then_eq_Inr split: if_splits option.splits)
  ultimately show ?case using parse_binding_tools_ok by (auto simp: list_all_append)
qed simp

lemma parse_tools_ok:
  "parse_tools i v = Ok tools \<Longrightarrow> list_all (\<lambda>t. \<not> is_blank (td_name t) \<and> \<not> is_blank (td_description t)) tools"
  by (auto simp: parse_tools_def parse_bindings_ok split: option.splits)

lemma nonzero_port_ok: "nonzero_port n = Some p \<Longrightarrow> p \<noteq> 0"
proof (cases "1 \<le> sint n \<and> sint n \<le> 65535")
  case True
  have small: "(of_nat k :: u16) \<noteq> 0" if "1 \<le> k" "k \<le> 65535" for k
    using that by (auto simp: word_of_nat_eq_0_iff dest: dvd_imp_le)
  have "(of_nat (nat (sint n)) :: u16) \<noteq> 0" by (rule small) (use True in linarith)+
  then show "nonzero_port n = Some p \<Longrightarrow> ?thesis"
    unfolding nonzero_port_def if_P [OF True] option.inject by blast
next
  case False
  then show "nonzero_port n = Some p \<Longrightarrow> ?thesis" unfolding nonzero_port_def by (simp only: if_not_P) simp
qed

lemma declared_ports_ok: "declared_ports i field given = Ok ports \<Longrightarrow> 0 \<notin> set ports"
  by (auto simp: declared_ports_def Let_def position_of_none_None image_iff split: option.splits dest!: nonzero_port_ok)
    (metis nonzero_port_ok option.sel bind_eq_Some_conv not_None_eq)+

lemma parse_network_ok: "parse_network i path n mh = Ok cn \<Longrightarrow> 0 \<notin> set (cn_ports cn)"
  by (auto simp: parse_network_def and_then_eq_Inr declared_ports_ok split: if_splits)

lemma exact_pins_ok:
  "exact_pins i written = Ok pins \<Longrightarrow> list_all (\<lambda>c. masked (cd_network c) (cd_prefix c) = cd_network c) pins"
proof -
  assume ok: "exact_pins i written = Ok pins"
  let ?parsed = "map (\<lambda>pin. cidr_parse (text_bytes pin)) written"
  from ok have "list_all is_ok ?parsed" "pins = map projr ?parsed"
    by (auto simp: exact_pins_def Let_def position_where_None split: option.splits prod.splits)
  moreover have "is_ok (cidr_parse t) \<Longrightarrow>
      masked (cd_network (projr (cidr_parse t))) (cd_prefix (projr (cidr_parse t))) = cd_network (projr (cidr_parse t))" for t
    by (cases "cidr_parse t") (auto dest: cidr_parse_Ok)
  ultimately show ?thesis by (simp add: list_all_iff)
qed

lemma exact_network_ok:
  assumes "exact_network i cn = Ok n" and "0 \<notin> set (cn_ports cn)"
  shows "checked_network n \<and> ns_hosts n = cn_hosts cn"
  using assms
  by (auto simp: exact_network_def Let_def checked_network_def and_then_eq_Inr first_repeat_at_None
      position_where_None exact_pins_ok list_all_iff split: if_splits option.splits dest: exact_pins_ok)

lemma parse_workspace_ok: "parse_workspace i v = Ok (Some w) \<Longrightarrow> path_ok (wm_dst w)"
proof -
  have "path_ok DEFAULT_DST" by code_simp
  then show "parse_workspace i v = Ok (Some w) \<Longrightarrow> ?thesis"
    by (auto simp: parse_workspace_def Let_def split: option.splits if_splits)
qed

lemma validate_secret_ref_ok: "validate_secret_ref i sec index s omitted = Ok () \<Longrightarrow> checked_secret s"
  by (auto simp: validate_secret_ref_def checked_secret_def check_mode_def Let_def for_each_Ok list_all_iff
      list_ex_iff split: if_splits)

lemma parse_ref_items_ok: "parse_ref_items lib i sec index items = Ok ss \<Longrightarrow> list_all checked_secret ss"
proof (induction lib i sec index items arbitrary: ss rule: parse_ref_items.induct)
  case (2 lib i sec index item items)
  then obtain s rest where "parse_secret_ref lib i sec index item = Ok s"
    "parse_ref_items lib i sec (index + 1) items = Ok rest" "ss = s # rest"
    by (auto simp: and_then_eq_Inr)
  moreover then have "checked_secret s"
    by (auto simp: parse_secret_ref_def Let_def and_then_eq_Inr dest: validate_secret_ref_ok
        split: option.splits sum.splits if_splits prod.splits)
  ultimately show ?case using 2 by simp
qed simp

lemma parse_secret_refs_ok: "parse_secret_refs lib i sec v = Ok ss \<Longrightarrow> list_all checked_secret ss"
  by (auto simp: parse_secret_refs_def parse_ref_items_ok split: option.splits)

text \<open>A parsed command, before its credentials' subjects are judged.\<close>

definition parsed_command :: "command_decl \<Rightarrow> bool" where
  "parsed_command c =
     (cm_exec c \<noteq> [] \<and> list_all checked_secret (cm_secrets c) \<and>
      (case cm_network c of None \<Rightarrow> True | Some n \<Rightarrow> 0 \<notin> set (cn_ports n)))"

lemma parse_command_ok: "parse_command lib p i v = Ok c \<Longrightarrow> parsed_command c"
  by (auto simp: parse_command_def parsed_command_def Let_def and_then_eq_Inr parse_secret_refs_ok
      split: if_splits option.splits dest: parse_network_ok)

lemma parse_command_table_ok: "parse_command_table lib p es = Ok cs \<Longrightarrow> list_all parsed_command cs"
  by (induction lib p es arbitrary: cs rule: parse_command_table.induct)
    (auto simp: and_then_eq_Inr dest: parse_command_ok)

lemma parse_commands_ok: "parse_commands lib p v = Ok c \<Longrightarrow> list_all parsed_command (cs_commands c)"
  by (auto simp: parse_commands_def Let_def and_then_eq_Inr parse_command_table_ok split: if_splits option.splits)

lemma validate_commands_ok:
  "list_all parsed_command (cs_commands c) \<Longrightarrow> validate_commands i c = Ok () \<Longrightarrow>
   list_all checked_command (cs_commands c)"
  by (auto simp: validate_commands_def validate_command_def for_each_Ok list_all_iff checked_command_def
      parsed_command_def position_where_None split: option.splits)

lemma validate_mock_ok:
  "validate_mock i mock network = Ok () \<Longrightarrow>
   \<exists>net. network = Some net \<and> set (mk_hosts mock) \<subseteq> set (cn_hosts net)"
  by (auto simp: validate_mock_def Let_def position_where_None list_all_iff split: option.splits if_splits prod.splits)

lemma parse_id_ok: "parse_id raw = Ok i \<Longrightarrow> \<not> is_blank i"
  by (auto simp: parse_id_def split: option.splits if_splits)

lemma parse_description_ok: "parse_description i raw = Ok d \<Longrightarrow> \<not> is_blank d"
  by (auto simp: parse_description_def nonblank_Some bind_eq_Some_conv split: option.splits)

lemma parse_value_ok: "parse_value lib s raw = Ok m \<Longrightarrow> checked_manifest m"
proof -
  assume "parse_value lib s raw = Ok m"
  then obtain i description tools provides secrets commands workspace mock network exact where
    i: "parse_id raw = Ok i" and d: "parse_description i raw = Ok description"
    and tools: "transposed (parse_tools i) (tv_get ''provides'' raw) = Ok tools"
    and secrets: "transposed (parse_secret_refs lib i (ascii ''secrets'')) (tv_get ''secrets'' raw) = Ok secrets"
    and commands: "transposed (parse_commands lib i) (tv_get ''commands'' raw) = Ok commands"
    and workspace: "transposed (parse_workspace i) (tv_get ''workspace'' raw) = Ok workspace"
    and network: "transposed (\<lambda>n. parse_network i (ascii ''network'') n
        (case mock of Some m \<Rightarrow> mk_hosts m | None \<Rightarrow> [])) (tv_get ''network'' raw) = Ok network"
    and named: "\<not> names_nothing (Option.bind (tv_get ''impl'' raw) (tv_get_str ''wasm'')) network
        (Option.bind workspace (\<lambda>w. w)) mock (map_option parse_model (tv_get ''model'' raw)) commands"
    and mock: "(case mock of None \<Rightarrow> Ok () | Some spec \<Rightarrow> validate_mock i spec network) = Ok ()"
    and exact: "transposed (exact_network i) network = Ok exact"
    and judged: "(case commands of None \<Rightarrow> Ok () | Some c \<Rightarrow> validate_commands i c) = Ok ()"
    and m: "pm_id m = i" "pm_description m = description" "pm_provides_tools m = or_empty tools"
      "pm_secrets m = or_empty secrets" "pm_commands m = commands" "pm_workspace m = Option.bind workspace (\<lambda>w. w)"
      "pm_mock m = mock" "pm_network m = exact" "pm_wasm m = Option.bind (tv_get ''impl'' raw) (tv_get_str ''wasm'')"
      "pm_model m = map_option parse_model (tv_get ''model'' raw)"
    unfolding parse_value_def Let_def by (auto simp: and_then_eq_Inr split: if_splits)
  have net: "exact = None \<and> network = None \<or>
      (\<exists>n cn. exact = Some n \<and> network = Some cn \<and> checked_network n \<and> ns_hosts n = cn_hosts cn)"
    using network exact by (auto simp: transposed_Ok split: option.splits dest: parse_network_ok exact_network_ok)
  have "list_all (\<lambda>t. \<not> is_blank (td_name t) \<and> \<not> is_blank (td_description t)) (or_empty tools)"
    using tools by (auto simp: transposed_Ok or_empty_def split: option.splits dest: parse_tools_ok)
  moreover have "list_all checked_secret (or_empty secrets)"
    using secrets by (auto simp: transposed_Ok or_empty_def split: option.splits dest: parse_secret_refs_ok)
  moreover have "pred_option (\<lambda>c. list_all checked_command (cs_commands c)) commands"
    using commands judged
    by (auto simp: transposed_Ok split: option.splits dest: parse_commands_ok validate_commands_ok)
  moreover have "pred_option (\<lambda>w. path_ok (wm_dst w)) (Option.bind workspace (\<lambda>w. w))"
  proof (cases "Option.bind workspace (\<lambda>w. w)")
    case (Some w)
    then have "workspace = Some (Some w)" by (auto simp: bind_eq_Some_conv)
    with workspace Some show ?thesis by (auto simp: transposed_Ok split: option.splits dest: parse_workspace_ok)
  qed simp
  moreover have "pred_option (checked_mock exact) mock"
    using mock net by (auto simp: checked_mock_def split: option.splits dest!: validate_mock_ok)
  ultimately show ?thesis
    using net parse_id_ok [OF i] parse_description_ok [OF d] named
    by (auto simp: checked_manifest_def m names_nothing_def split: option.splits)
qed

section \<open>Refusals stay on the page\<close>

definition clean :: "utext \<Rightarrow> bool" where
  "clean s = list_all (\<lambda>c. \<not> acted_on c \<or> c = 0x0A) s"

lemma clean_simps [simp]:
  "clean []" "clean (c # s) \<longleftrightarrow> (\<not> acted_on c \<or> c = 0x0A) \<and> clean s" "clean (s @ t) \<longleftrightarrow> clean s \<and> clean t"
  by (simp_all add: clean_def)

declare acted_on_printable [simp]

lemma clean_written [simp]: "clean (toml_string s)" "clean (diagnostic_key s)" "clean (without_controls s)"
  using toml_string_safe diagnostic_key_safe without_controls_safe by (auto simp: clean_def list_all_iff)

lemma clean_join: "clean sep \<Longrightarrow> \<forall>t \<in> set ts. clean t \<Longrightarrow> clean (join_text sep ts)"
  using set_join_text [of sep ts] by (auto simp: clean_def list_all_iff)

lemma clean_nat: "clean (ascii (show_nat n))"
  by (auto simp: clean_def list_all_iff acted_on_def dest!: show_nat_ascii)

lemma clean_scalar: "scalar_text s \<Longrightarrow> clean s"
  by (auto simp: scalar_text_def clean_def list_all_iff)

definition clean_char :: "char \<Rightarrow> bool" where
  "clean_char c = (\<not> acted_on (of_char c) \<or> of_char c = (0x0A :: nat))"

lemma clean_char_literal [simp]:
  "clean_char (Char b0 b1 b2 b3 b4 b5 b6 b7) \<longleftrightarrow>
    \<not> acted_on (of_char (Char b0 b1 b2 b3 b4 b5 b6 b7)) \<or> of_char (Char b0 b1 b2 b3 b4 b5 b6 b7) = (0x0A :: nat)"
  by (simp add: clean_char_def)

lemma clean_ascii [simp]: "clean (ascii t) \<longleftrightarrow> list_all clean_char t"
  by (simp add: clean_def list.pred_map comp_def clean_char_def [abs_def])

text \<open>Texts the code writes out stay as they are written.\<close>

declare list.map [simp del]

lemma clean_nat' [simp]: "list_all clean_char (show_nat n)"
  using clean_nat by simp

lemma clean_i64 [simp]: "clean (show_i64 n)"
  using scalar_i64 clean_scalar by blast

lemma well_shown_parts:
  "tv_table v = Some es \<Longrightarrow> well_shown v \<Longrightarrow> e \<in> set es \<Longrightarrow> well_shown (snd e)"
  "tv_array v = Some items \<Longrightarrow> well_shown v \<Longrightarrow> w \<in> set items \<Longrightarrow> well_shown w"
  by (cases v; auto simp: list_all_iff)+

lemma well_shown_items: "tv_array v = Some items \<Longrightarrow> well_shown v \<Longrightarrow> list_all well_shown items"
  by (auto simp: list_all_iff intro: well_shown_parts(2))

lemma well_shown_get: "tv_get key v = Some w \<Longrightarrow> well_shown v \<Longrightarrow> well_shown w"
  using well_shown_parts(1) [of v _ "(ascii key, w)"]
  by (auto simp: tv_get_def bind_eq_Some_conv dest: map_of_SomeD)

lemma clean_shown: "well_shown v \<Longrightarrow> clean (shown v)"
proof (induction v rule: shown.induct)
  case (4 items)
  then show ?case by (auto simp: list_all_iff intro!: clean_join)
next
  case (5 entries)
  then show ?case by (cases "entries = []") (auto simp: list_all_iff intro!: clean_join)
qed (auto simp: clean_scalar)

definition clean_error :: "manifest_error \<Rightarrow> bool" where
  "clean_error e =
     (case e of MfField p field fix detail \<Rightarrow> clean field \<and> clean fix \<and> clean detail | MfIo t \<Rightarrow> clean t | _ \<Rightarrow> True)"

lemma clean_field_error [simp]:
  "clean_error (field_error i field fix detail) \<longleftrightarrow> clean field \<and> clean fix \<and> clean detail"
  by (simp add: clean_error_def field_error_def)

lemma clean_id_error [simp]: "clean_error (id_error detail) \<longleftrightarrow> clean detail"
  by (simp add: clean_error_def id_error_def)

lemma clean_lines [simp]:
  "clean REMOVE_ENTRY" "clean BLANK_TOOL" "clean (at_index path n) \<longleftrightarrow> clean path" "clean (binding_path name)"
  "clean (delivery_line mode)" "clean scope_line" "clean (delivery_as_str mode)" "clean (consumer_as_str consumer)"
proof -
  show "clean (delivery_as_str mode)" "clean (consumer_as_str consumer)"
    by (cases mode; simp) (cases consumer; simp)
qed (simp_all add: REMOVE_ENTRY_def BLANK_TOOL_def at_index_def binding_path_def delivery_line_def scope_line_def)

lemma clean_strings_line [simp]: "list_all clean_char field \<Longrightarrow> clean (strings_line field names)"
  by (auto simp: strings_line_def intro!: clean_join)

lemma clean_sections [simp]: "clean (command_sections names)"
  unfolding command_sections_def by (intro clean_join) auto

lemma clean_repairs [simp]:
  "list_all clean_char (repair_field repair)" "clean (repair_whole repair v)" "clean (repair_entry repair items)"
  by (cases repair; simp add: repair_entry_def)+

lemma clean_ref_field [simp]: "clean (ref_field sec index name) \<longleftrightarrow> clean sec \<and> list_all clean_char name"
  by (simp add: ref_field_def)

lemma strings_from_clean:
  "strings_from i path fix index items = Err e \<Longrightarrow> list_all well_shown items \<Longrightarrow> clean path \<Longrightarrow> clean fix \<Longrightarrow> clean_error e"
  by (induction i path "fix" index items rule: strings_from.induct)
    (auto simp: and_then_eq_Inl clean_shown split: option.splits)

lemma declared_string_list_clean:
  "declared_string_list i sec given repair = Err e \<Longrightarrow> pred_option well_shown given \<Longrightarrow> clean sec \<Longrightarrow> clean_error e"
  by (auto simp: declared_string_list_def Let_def clean_shown well_shown_items
      split: option.splits elim!: strings_from_clean)

lemma declared_ports_clean:
  assumes "declared_ports i field given = Err e" and "pred_option well_shown given" and "clean field"
  shows "clean_error e"
proof -
  have "clean (shown (items ! index))"
    if "tv_array v = Some items" "well_shown v"
      "position_of_none (map (\<lambda>item. Option.bind (tv_integer item) nonzero_port) items) = Some index" for v items index
    using position_of_none_Some [OF that(3)] by (intro clean_shown well_shown_parts(2) [OF that(1,2)]) simp
  then show ?thesis using assms
    by (auto simp: declared_ports_def Let_def clean_shown split: option.splits)
qed

lemma parse_binding_tools_clean: "parse_binding_tools i path es = Err e \<Longrightarrow> clean path \<Longrightarrow> clean_error e"
  by (induction i path es rule: parse_binding_tools.induct)
    (auto simp: Let_def and_then_eq_Inl split: if_splits option.splits)

lemma tools_refusal_clean: "clean field \<Longrightarrow> clean_error (tools_refusal i field given)"
  by (auto simp: tools_refusal_def Let_def split: option.splits)

lemma parse_bindings_clean: "parse_bindings i es = Err e \<Longrightarrow> clean_error e"
proof (induction i es rule: parse_bindings.induct)
  case (2 i name binding rest)
  then show ?case
    by (auto simp: Let_def and_then_eq_Inl intro!: tools_refusal_clean dest: parse_binding_tools_clean
        split: if_splits option.splits)
qed simp

lemma parse_tools_clean: "parse_tools i v = Err e \<Longrightarrow> clean_error e"
  by (auto simp: parse_tools_def parse_bindings_clean split: option.splits)

lemma pred_get: "well_shown v \<Longrightarrow> pred_option well_shown (tv_get key v)"
  by (cases "tv_get key v") (auto dest: well_shown_get)

lemma parse_network_clean:
  "parse_network i path n mh = Err e \<Longrightarrow> well_shown n \<Longrightarrow> clean path \<Longrightarrow> clean_error e"
  by (auto simp: parse_network_def and_then_eq_Inl clean_shown pred_get
      dest!: declared_string_list_clean declared_ports_clean split: if_splits)

lemma parse_workspace_clean: "parse_workspace i v = Err e \<Longrightarrow> well_shown v \<Longrightarrow> clean_error e"
  by (auto simp: parse_workspace_def Let_def clean_shown dest: well_shown_get split: option.splits if_splits)

lemma check_mode_clean: "check_mode i sec index s omitted mode = Err e \<Longrightarrow> clean sec \<Longrightarrow> clean_error e"
  by (auto simp: check_mode_def Let_def split: if_splits)

lemma validate_secret_ref_clean: "validate_secret_ref i sec index s omitted = Err e \<Longrightarrow> clean sec \<Longrightarrow> clean_error e"
  by (auto simp: validate_secret_ref_def check_mode_clean split: if_splits dest!: for_each_Err)

lemma ref_fault_clean: "ref_fault derived v = (name, repair) \<Longrightarrow> list_all clean_char name \<and> clean repair"
  by (auto simp: ref_fault_def split: if_splits)

lemma parse_secret_ref_clean: "parse_secret_ref lib i sec index v = Err e \<Longrightarrow> clean sec \<Longrightarrow> clean_error e"
  by (auto simp: parse_secret_ref_def Let_def and_then_eq_Inl validate_secret_ref_clean ref_fault_clean
      split: option.splits sum.splits if_splits prod.splits dest!: ref_fault_clean)

lemma parse_ref_items_clean: "parse_ref_items lib i sec index items = Err e \<Longrightarrow> clean sec \<Longrightarrow> clean_error e"
  by (induction lib i sec index items rule: parse_ref_items.induct)
    (auto simp: and_then_eq_Inl dest: parse_secret_ref_clean)

lemma parse_secret_refs_clean: "parse_secret_refs lib i sec v = Err e \<Longrightarrow> clean sec \<Longrightarrow> clean_error e"
  by (auto simp: parse_secret_refs_def parse_ref_items_clean split: option.splits)

lemma parse_command_clean: "parse_command lib p i v = Err e \<Longrightarrow> well_shown v \<Longrightarrow> clean_error e"
  by (auto simp: parse_command_def Let_def and_then_eq_Inl clean_shown split: if_splits option.splits
      dest: well_shown_get parse_secret_refs_clean parse_network_clean)

lemma parse_command_table_clean:
  "parse_command_table lib p es = Err e \<Longrightarrow> list_all (\<lambda>e. well_shown (snd e)) es \<Longrightarrow> clean_error e"
  by (induction lib p es rule: parse_command_table.induct)
    (auto simp: and_then_eq_Inl dest: parse_command_clean)

lemma parse_commands_clean: "parse_commands lib p v = Err e \<Longrightarrow> well_shown v \<Longrightarrow> clean_error e"
proof -
  have "list_all (\<lambda>e. well_shown (snd e)) es" if "tv_table w = Some es" "well_shown w" for w es
    using well_shown_parts(1) [OF that] by (auto simp: list_all_iff)
  then show "parse_commands lib p v = Err e \<Longrightarrow> well_shown v \<Longrightarrow> ?thesis"
    by (auto simp: parse_commands_def Let_def and_then_eq_Inl clean_shown
        split: if_splits option.splits dest: well_shown_get elim!: parse_command_table_clean)
qed

lemma validate_commands_clean: "validate_commands i c = Err e \<Longrightarrow> clean_error e"
  by (auto simp: validate_commands_def validate_command_def split: option.splits dest!: for_each_Err)

lemma hosts_named_clean [simp]: "clean (hosts_named hosts)"
proof -
  have "clean (concat (map toml_string hosts))" by (induction hosts) (simp_all add: list.map)
  moreover have "hosts \<noteq> [] \<Longrightarrow> clean (last (map toml_string hosts))" by (simp add: last_map)
  moreover have "clean (join_text (ascii '', '') (butlast (map toml_string hosts)))"
    by (intro clean_join) (auto simp: map_butlast [symmetric])
  ultimately show ?thesis by (cases "hosts = []") (auto simp: hosts_named_def Let_def)
qed

lemma validate_mock_clean: "validate_mock i mock network = Err e \<Longrightarrow> clean_error e"
  by (auto simp: validate_mock_def Let_def split: option.splits if_splits)

lemma parse_mock_clean: "parse_mock i v = Err e \<Longrightarrow> well_shown v \<Longrightarrow> clean_error e"
  by (auto simp: parse_mock_def Let_def and_then_eq_Inl pred_get dest!: declared_string_list_clean)

lemma exact_pins_clean: "exact_pins i written = Err e \<Longrightarrow> clean_error e"
  by (auto simp: exact_pins_def Let_def split: option.splits if_splits prod.splits)

lemma exact_network_clean: "exact_network i cn = Err e \<Longrightarrow> clean_error e"
  by (auto simp: exact_network_def Let_def and_then_eq_Inl exact_pins_clean split: option.splits if_splits)

lemma transposed_Err: "transposed f x = Err e \<longleftrightarrow> (\<exists>a. x = Some a \<and> f a = Err e)"
  by (auto simp: transposed_def and_then_eq_Inl split: option.splits)

lemma nothing_error_clean: "clean_error (nothing_error i commands)"
  by (auto simp: nothing_error_def)

lemma parse_id_clean: "parse_id raw = Err e \<Longrightarrow> clean_error e"
  by (auto simp: parse_id_def split: option.splits if_splits)

lemma parse_description_clean: "parse_description i raw = Err e \<Longrightarrow> clean_error e"
  by (auto simp: parse_description_def split: option.splits)

lemma binding_keys_clean: "binding_keys lib s bindings = Err e \<Longrightarrow> clean_error e"
  by (cases "tl_binding_keys lib s") (auto simp: binding_keys_def clean_error_def split: if_splits)

text \<open>A step whose refusal, if it refuses, is clean.\<close>

definition refuses_clean :: "manifest_error + 'a \<Rightarrow> bool" where
  "refuses_clean m = (\<forall>e. m = Err e \<longrightarrow> clean_error e)"

named_theorems refusing \<open>steps whose refusals are clean\<close>

lemma refuses_simple [refusing]: "refuses_clean (Ok a)" "clean_error e \<Longrightarrow> refuses_clean (Err e)"
  by (simp_all add: refuses_clean_def)

lemma refuses_and_then [refusing]:
  "refuses_clean m \<Longrightarrow> (\<And>a. refuses_clean (k a)) \<Longrightarrow> refuses_clean (and_then m k)"
  by (auto simp: refuses_clean_def and_then_eq_Inl)

lemma refuses_branches [refusing]:
  "refuses_clean m \<Longrightarrow> refuses_clean n \<Longrightarrow> refuses_clean (if b then m else n)"
  "refuses_clean m \<Longrightarrow> (\<And>a. refuses_clean (f a)) \<Longrightarrow> refuses_clean (case x of None \<Rightarrow> m | Some a \<Rightarrow> f a)"
  by (simp_all split: option.split)

lemma refuses_transposed [refusing]:
  "(\<And>a. x = Some a \<Longrightarrow> refuses_clean (f a)) \<Longrightarrow> refuses_clean (transposed f x)"
  by (auto simp: refuses_clean_def transposed_Err)

lemma refuses_parts [refusing]:
  "refuses_clean (parse_id raw)" "refuses_clean (parse_description i raw)" "refuses_clean (parse_tools i v)"
  "refuses_clean (binding_keys lib s bindings)" "refuses_clean (parse_secret_refs lib i (ascii ''secrets'') v)"
  "well_shown v \<Longrightarrow> refuses_clean (parse_commands lib i v)" "well_shown v \<Longrightarrow> refuses_clean (parse_workspace i v)"
  "well_shown v \<Longrightarrow> refuses_clean (parse_mock i v)"
  "well_shown v \<Longrightarrow> refuses_clean (parse_network i (ascii ''network'') v hosts)"
  "refuses_clean (validate_mock i mock network)" "refuses_clean (exact_network i cn)"
  "refuses_clean (validate_commands i c)"
  by (auto simp: refuses_clean_def parse_id_clean parse_description_clean parse_tools_clean binding_keys_clean
      parse_commands_clean parse_workspace_clean parse_mock_clean validate_mock_clean exact_network_clean
      validate_commands_clean dest: parse_secret_refs_clean parse_network_clean)

lemma parse_value_clean: "well_shown raw \<Longrightarrow> refuses_clean (parse_value lib s raw)"
  unfolding parse_value_def Let_def by (intro refusing nothing_error_clean; erule well_shown_get; assumption)

section \<open>Properties\<close>

text \<open>
  C36. A declaration that parses is checked. It is within the size and the depth bounds; its id, its
  description and every tool's name and description say something; its network names distinct hosts, each a
  lower-case DNS name, and distinct ports that are not zero, with no pin that has bits past its prefix; a
  mock stands in only for hosts the network declares; every credential, of the plasmid or of a command, is
  delivered only as its consumer allows, and an injected one only to absolute paths; every command names a
  program and a subject for each credential; the workspace is a canonical path; and it declares something.
\<close>

theorem parsed_manifest_is_checked:
  assumes "manifest_parse lib s = Ok m"
  shows "checked_manifest m \<and> byte_len s \<le> MAX_MANIFEST_BYTES \<and> \<not> deeper_than s MAX_MANIFEST_DEPTH"
proof -
  from assms have "\<not> byte_len s > MAX_MANIFEST_BYTES" "\<not> deeper_than s MAX_MANIFEST_DEPTH"
    and "\<exists>raw. parse_value lib s raw = Ok m"
    by (auto simp: manifest_parse_def and_then_eq_Inr split: if_splits)
  then show ?thesis using parse_value_ok by auto
qed

definition demo_toml_value :: tvalue where
  "demo_toml_value =
     TTable [(ascii ''description'', TString (ascii ''Reads.'')), (ascii ''id'', TString (ascii ''web'')),
       (ascii ''network'', TTable [(ascii ''hosts'', TArray [TString (ascii ''a.test'')]),
         (ascii ''pin_cidrs'', TArray [TString (ascii ''192.0.2.0/24'')]),
         (ascii ''ports'', TArray [TInteger 443])])]"

definition demo_toml_lib :: "tvalue \<Rightarrow> toml_lib" where
  "demo_toml_lib v =
     \<lparr>tl_from_str = \<lambda>_. Ok v, tl_binding_keys = \<lambda>_. Ok [],
      tl_secret_ref = \<lambda>_. Err (ascii ''none''), tl_utf8_error = \<lambda>_. ascii ''not UTF-8''\<rparr>"

definition demo_manifest :: plasmid_manifest where
  "demo_manifest =
     \<lparr>pm_id = ascii ''web'', pm_description = ascii ''Reads.'', pm_version = ascii ''0.0.0'', pm_wasm = None,
      pm_network = Some \<lparr>ns_hosts = [ascii ''a.test''], ns_ports = [443],
        ns_pin_cidrs = [\<lparr>cd_network = V4 (Ipv4Addr 192 0 2 0), cd_prefix = 24\<rparr>]\<rparr>,
      pm_requires = [], pm_provides_tools = [], pm_provides = [], pm_secrets = [], pm_commands = None,
      pm_workspace = None, pm_mock = None, pm_model = None, pm_drain_ms = None\<rparr>"

definition demo_network_value :: tvalue where
  "demo_network_value =
     TTable [(ascii ''hosts'', TArray [TString (ascii ''a.test'')]),
       (ascii ''pin_cidrs'', TArray [TString (ascii ''192.0.2.0/24'')]), (ascii ''ports'', TArray [TInteger 443])]"

definition demo_written :: command_network where
  "demo_written = \<lparr>cn_hosts = [ascii ''a.test''], cn_ports = [443], cn_pin_cidrs = [ascii ''192.0.2.0/24'']\<rparr>"

lemma demo_fields:
  "tv_get ''provides'' demo_toml_value = None" "tv_get ''secrets'' demo_toml_value = None"
  "tv_get ''commands'' demo_toml_value = None" "tv_get ''workspace'' demo_toml_value = None"
  "tv_get ''mock'' demo_toml_value = None" "tv_get ''network'' demo_toml_value = Some demo_network_value"
  "tv_get ''model'' demo_toml_value = None" "tv_get ''lifecycle'' demo_toml_value = None"
  "tv_get ''impl'' demo_toml_value = None" "tv_get ''requires'' demo_toml_value = None"
  "tv_get_str ''version'' demo_toml_value = None"
  by code_simp+

lemma demo_id: "parse_id demo_toml_value = Ok (ascii ''web'')"
  by code_simp

lemma demo_description: "parse_description (ascii ''web'') demo_toml_value = Ok (ascii ''Reads.'')"
  by code_simp

lemma demo_network: "parse_network (ascii ''web'') (ascii ''network'') demo_network_value [] = Ok demo_written"
  by code_simp

lemma demo_exact:
  "exact_network (ascii ''web'') demo_written =
    Ok \<lparr>ns_hosts = [ascii ''a.test''], ns_ports = [443],
        ns_pin_cidrs = [\<lparr>cd_network = V4 (Ipv4Addr 192 0 2 0), cd_prefix = 24\<rparr>]\<rparr>"
  by code_simp

lemma demo_shallow: "deeper_than (ascii ''id'') MAX_MANIFEST_DEPTH = False"
  by code_simp

lemmas demo_parts = demo_id demo_description demo_network demo_exact demo_shallow

lemma demo_short: "byte_len (ascii ''id'') = 2"
  by (simp add: list.map utf8_width_def)

lemma demo_manifest_parse: "manifest_parse (demo_toml_lib demo_toml_value) (ascii ''id'') = Ok demo_manifest"
  by (simp add: manifest_parse_def demo_short MAX_MANIFEST_BYTES_def demo_parts)
    (simp add: demo_toml_lib_def parse_value_def demo_parts demo_fields transposed_def
      names_nothing_def or_empty_def Let_def demo_manifest_def)

theorem parsed_manifest_is_checked_witness: "checked_manifest demo_manifest"
  using parsed_manifest_is_checked [OF demo_manifest_parse] by simp

text \<open>
  C37. A refusal stays on the page. Whatever text a declaration is, its refusal is at most 4,096 bytes and
  holds no character a terminal acts on but line feeds, whatever the author wrote in it and whatever the TOML
  parser said of it, given that the parser's numbers and dates are printed in visible ASCII.
\<close>

theorem refusal_stays_on_the_page:
  assumes "manifest_parse lib s = Err e" and "\<And>raw. tl_from_str lib s = Ok raw \<Longrightarrow> well_shown raw"
  shows "byte_len (show_manifest_error e) \<le> MAX_REFUSAL_BYTES
    \<and> list_all (\<lambda>c. \<not> acted_on c \<or> c = 0x0A) (show_manifest_error e)"
proof -
  have e: "clean_error e"
  proof (cases "tl_from_str lib s")
    case (Inl t)
    then show ?thesis using assms(1) by (auto simp: manifest_parse_def clean_error_def split: if_splits)
  next
    case (Inr raw)
    then show ?thesis using assms parse_value_clean [of raw lib s]
      by (auto simp: manifest_parse_def refuses_clean_def clean_error_def split: if_splits)
  qed
  have "\<not> acted_on 0x2026" by (simp add: acted_on_def)
  then have bounded_text: "clean t \<Longrightarrow> clean (bounded_text t)" for t
    using bounded_safe [of _ t] by (auto simp: clean_def list_all_iff)
  have "clean (show_manifest_error e)"
  proof (cases e)
    case (MfParse t)
    moreover have "clean (visible_lines t)"
      using visible_lines_safe [of _ t] by (auto simp: clean_def list_all_iff)
    ultimately show ?thesis by (auto intro!: bounded_text)
  next
    case (MfField p f r d)
    then show ?thesis using e by (auto simp: clean_error_def intro!: bounded_text split: option.split)
  qed (use e in \<open>auto simp: clean_error_def intro!: bounded_text\<close>)
  moreover have "byte_len (show_manifest_error e) \<le> MAX_REFUSAL_BYTES"
    by (cases e) (simp_all add: bounded_len)
  ultimately show ?thesis by (simp add: clean_def)
qed

theorem refusal_stays_on_the_page_witness:
  "byte_len (show_manifest_error (id_error (ascii ''a string id is required''))) \<le> MAX_REFUSAL_BYTES"
proof -
  have "parse_id (TTable []) = Err (id_error (ascii ''a string id is required''))"
    by (simp add: parse_id_def tv_get_str_def tv_get_def)
  then have "manifest_parse (demo_toml_lib (TTable [])) (ascii ''id'') = Err (id_error (ascii ''a string id is required''))"
    by (simp add: manifest_parse_def demo_short MAX_MANIFEST_BYTES_def demo_parts)
      (simp add: demo_toml_lib_def parse_value_def)
  from refusal_stays_on_the_page [OF this] show ?thesis by (simp add: demo_toml_lib_def)
qed

end
