(* ===== verification/Digest.thy ===== *)
theory Digest
  imports Prelude
begin

text \<open>
  \<open>crates/plasmosome-backend/src/digest.rs\<close>: a SHA-256 digest as 32 bytes and as 64 lowercase
  hexadecimal digits. The hash itself is the \<open>sha2\<close> crate's and is a parameter \<open>sha\<close> wherever it is
  used; what is proved here is the text of a digest and the loop that hashes a reader.
\<close>

unbundle bit_operations_syntax

section \<open>The text of a digest\<close>

type_synonym digest = "u8 list"

datatype digest_error = WrongLength nat | NotLowercaseHex nat

definition DIGITS :: string where "DIGITS = ''0123456789abcdef''"

text \<open>The digit of one byte, or \<open>None\<close> for a byte outside the two ranges.\<close>

definition hex_nibble :: "char \<Rightarrow> u8 option" where
  "hex_nibble digit =
     (if 48 \<le> byte_of digit \<and> byte_of digit \<le> 57 then Some (of_nat (byte_of digit - 48))
      else if 97 \<le> byte_of digit \<and> byte_of digit \<le> 102 then Some (of_nat (byte_of digit - 97 + 10))
      else None)"

fun parse_hex_loop :: "nat \<Rightarrow> string \<Rightarrow> digest \<Rightarrow> digest_error + digest" where
  "parse_hex_loop at [] bytes = Ok bytes"
| "parse_hex_loop at (digit # digits) bytes =
     (case hex_nibble digit of
        None \<Rightarrow> Err (NotLowercaseHex at)
      | Some nibble \<Rightarrow>
          parse_hex_loop (at + 1) digits
            (bytes[at div 2 := bytes ! (at div 2) OR (if at mod 2 = 0 then push_bit 4 nibble else nibble)]))"

definition parse_hex :: "string \<Rightarrow> digest_error + digest" where
  "parse_hex digits =
     (if length digits \<noteq> 64 then Err (WrongLength (length digits))
      else parse_hex_loop 0 digits (replicate 32 0))"

fun digest_hex :: "digest \<Rightarrow> string" where
  "digest_hex [] = []"
| "digest_hex (byte # bytes) =
     DIGITS ! unat (drop_bit 4 byte) # DIGITS ! unat (byte AND 15) # digest_hex bytes"

fun show_digest_error :: "digest_error \<Rightarrow> string" where
  "show_digest_error (WrongLength bytes) =
     ''a SHA-256 digest is 64 lowercase hexadecimal digits, not '' @ show_nat bytes @ '' bytes''"
| "show_digest_error (NotLowercaseHex at) =
     ''byte '' @ show_nat at @ '' of a SHA-256 digest is not a lowercase hexadecimal digit''"

section \<open>Hashing a reader\<close>

text \<open>
  What a \<open>read\<close> call returns: some bytes (none at the end of the input), an interruption, or another
  error. The hasher keeps what it was fed; finishing it hashes that. \<open>None\<close> means the reader has not
  ended the input yet.
\<close>

datatype 'e read_result = ReadOk "u8 list" | Interrupted | ReadErr 'e

fun of_reader :: "(u8 list \<Rightarrow> digest) \<Rightarrow> 'e read_result list \<Rightarrow> u8 list \<Rightarrow> ('e + digest) option" where
  "of_reader sha [] hasher = None"
| "of_reader sha (ReadOk [] # reads) hasher = Some (Ok (sha hasher))"
| "of_reader sha (ReadOk (b # bs) # reads) hasher = of_reader sha reads (hasher @ b # bs)"
| "of_reader sha (Interrupted # reads) hasher = of_reader sha reads hasher"
| "of_reader sha (ReadErr e # reads) hasher = Some (Err e)"

section \<open>Digits\<close>

lemma nibble_of_digit:
  "n < 16 \<Longrightarrow> hex_nibble (DIGITS ! n) = Some (of_nat n)"
proof -
  have "list_all (\<lambda>n. hex_nibble (DIGITS ! n) = Some (of_nat n)) [0..<16]" by code_simp
  then show "n < 16 \<Longrightarrow> ?thesis" by (auto simp: list_all_iff)
qed

lemma digit_of_nibble: "hex_nibble c = Some v \<Longrightarrow> unat v < 16 \<and> c = DIGITS ! unat v"
proof -
  have all: "list_all (\<lambda>n. DIGITS ! (n - 48) = char_of n) [48..<58]"
    "list_all (\<lambda>n. DIGITS ! (n - 97 + 10) = char_of n) [97..<103]" by code_simp+
  assume "hex_nibble c = Some v"
  then consider "48 \<le> byte_of c" "byte_of c < 58" "v = of_nat (byte_of c - 48)"
    | "97 \<le> byte_of c" "byte_of c < 103" "v = of_nat (byte_of c - 97 + 10)"
    by (auto simp: hex_nibble_def split: if_splits)
  then show ?thesis
  proof cases
    case 1
    then have "unat v = byte_of c - 48" by (simp add: unat_of_nat del: of_nat_diff)
    moreover have "DIGITS ! (byte_of c - 48) = char_of (byte_of c)" 
      using 1(1,2) all(1) unfolding list_all_iff set_upt by (simp only: atLeastLessThan_iff Ball_def)
    ultimately show ?thesis using 1 by (simp add: byte_of_def)
  next
    case 2
    then have "unat v = byte_of c - 97 + 10" by (simp add: unat_of_nat del: of_nat_add of_nat_diff)
    moreover have "DIGITS ! (byte_of c - 97 + 10) = char_of (byte_of c)" 
      using 2(1,2) all(2) unfolding list_all_iff set_upt by (simp only: atLeastLessThan_iff Ball_def)
    ultimately show ?thesis using 2 by (simp add: byte_of_def)
  qed
qed

lemma nibbles_of_byte:
  fixes b :: u8
  shows "unat (drop_bit 4 b) < 16" "unat (b AND 15) < 16" "push_bit 4 (drop_bit 4 b) OR (b AND 15) = b"
proof -
  show "unat (drop_bit 4 b) < 16"
    using unsigned_less [of b, where ?'a = nat] unat_drop_bit_eq [of 4 b]
    by (simp add: drop_bit_eq_div [of 4 "unat b"])
  have "unat (b AND 15) = unat b AND 15" by (simp add: unsigned_and_eq)
  also have "\<dots> = unat b mod 16" using and_exp_eq_0_iff_not_bit take_bit_eq_mask [of 4 "unat b"]
    by (simp add: take_bit_eq_mod mask_eq_exp_minus_1)
  finally show "unat (b AND 15) < 16" by simp
  have low: "b AND 15 = take_bit 4 b" by (simp add: take_bit_eq_mask mask_eq_exp_minus_1)
  show "push_bit 4 (drop_bit 4 b) OR (b AND 15) = b"
    unfolding low
    by (rule bit_eqI) (auto simp: bit_or_iff bit_push_bit_iff bit_drop_bit_eq bit_take_bit_iff)
qed

lemma byte_of_nibbles:
  fixes h l :: u8
  assumes "unat h < 16" "unat l < 16"
  shows "drop_bit 4 (push_bit 4 h OR l) = h" "(push_bit 4 h OR l) AND 15 = l"
proof -
  have "list_all (\<lambda>h. list_all (\<lambda>l. drop_bit 4 (push_bit 4 (of_nat h :: u8) OR of_nat l) = of_nat h \<and>
      (push_bit 4 (of_nat h :: u8) OR of_nat l) AND 15 = of_nat l) [0..<16]) [0..<16]" by code_simp
  moreover have "unat h \<in> set [0..<16]" "unat l \<in> set [0..<16]" using assms by simp_all
  ultimately have "drop_bit 4 (push_bit 4 (of_nat (unat h) :: u8) OR of_nat (unat l)) = of_nat (unat h) \<and>
      (push_bit 4 (of_nat (unat h) :: u8) OR of_nat (unat l)) AND 15 = of_nat (unat l)"
    unfolding list_all_iff by blast
  then show "drop_bit 4 (push_bit 4 h OR l) = h" "(push_bit 4 h OR l) AND 15 = l"
    by (simp_all only: of_nat_unat ucast_id)
qed


text \<open>Two digits fill one byte; the rest of the array keeps its zeros.\<close>

lemma parse_hex_loop_step:
  assumes "even at" "hex_nibble a = Some h" "hex_nibble b = Some l" "at div 2 < length bytes"
    and "bytes ! (at div 2) = 0"
  shows "parse_hex_loop at (a # b # rest) bytes =
    parse_hex_loop (at + 2) rest (bytes[at div 2 := push_bit 4 h OR l])"
proof -
  obtain k where "at = 2 * k" using assms(1) by (rule evenE)
  then show ?thesis using assms(2-5) by (simp add: mod_Suc)
qed

lemma parse_hex_loop_hex:
  "parse_hex_loop (2 * length done) (digest_hex rest) (done @ replicate (length rest) 0) = Ok (done @ rest)"
proof (induction rest arbitrary: "done")
  case (Cons byte bytes)
  have "parse_hex_loop (2 * length done) (digest_hex (byte # bytes)) (done @ replicate (Suc (length bytes)) 0) =
      parse_hex_loop (2 * length (done @ [byte])) (digest_hex bytes) ((done @ [byte]) @ replicate (length bytes) 0)"
    using parse_hex_loop_step [of "2 * length done" _ "drop_bit 4 byte" _ "byte AND 15"] nibbles_of_byte [of byte]
    by (simp add: nibble_of_digit)
  with Cons.IH [of "done @ [byte]"] show ?case by simp
qed simp

lemma length_digest_hex [simp]: "length (digest_hex d) = 2 * length d"
  by (induction d) auto

lemma parse_hex_loop_Ok:
  assumes "parse_hex_loop (2 * length done) digits (done @ replicate k 0) = Ok d" "length digits = 2 * k"
  shows "\<exists>rest. d = done @ rest \<and> length rest = k \<and> digest_hex rest = digits"
  using assms
proof (induction k arbitrary: "done" digits)
  case (Suc k)
  then obtain a b rest where digits: "digits = a # b # rest" "length rest = 2 * k"
    by (auto simp: length_Suc_conv)
  with Suc.prems(1) obtain h l where h: "hex_nibble a = Some h" and l: "hex_nibble b = Some l"
    by (auto split: option.splits)
  have "parse_hex_loop (2 * length (done @ [push_bit 4 h OR l])) rest
      ((done @ [push_bit 4 h OR l]) @ replicate k 0) = Ok d"
    using Suc.prems(1) parse_hex_loop_step [of "2 * length done", OF _ h l] by (simp add: digits)
  from Suc.IH [OF this digits(2)] obtain bytes where
    "d = done @ (push_bit 4 h OR l) # bytes" "length bytes = k" "digest_hex bytes = rest" by auto
  moreover have "a = DIGITS ! unat h" "b = DIGITS ! unat l" "unat h < 16" "unat l < 16"
    using digit_of_nibble [OF h] digit_of_nibble [OF l] by auto
  ultimately show ?case
    by (intro exI [of _ "(push_bit 4 h OR l) # bytes"]) (simp add: byte_of_nibbles digits(1) del: drop_bit_or)
qed simp

section \<open>Properties\<close>

text \<open>
  A digest and its text determine each other. The text of 32 bytes reads back as those bytes, every
  text that is accepted is the text of what it read, and so no second spelling of a digest is accepted.
\<close>

theorem digest_hex_roundtrip:
  "(length d = 32 \<longrightarrow> parse_hex (digest_hex d) = Ok d) \<and>
   (parse_hex s = Ok e \<longrightarrow> length e = 32 \<and> digest_hex e = s)"
  using parse_hex_loop_hex [of "[]" d] parse_hex_loop_Ok [of "[]" s 32 e]
  by (auto simp: parse_hex_def split: if_splits)

theorem digest_hex_roundtrip_witness:
  "parse_hex (digest_hex (map of_nat [160..<192])) = Ok (map of_nat [160..<192])"
  using digest_hex_roundtrip [of "map of_nat [160..<192]"] by simp

text \<open>
  Hashing a reader is hashing its bytes. However the input is cut into reads and however often one
  is interrupted, the digest is that of all the bytes up to the end of input; any other error comes back
  unchanged and no digest is produced.
\<close>

theorem of_reader_hashes_all:
  assumes "\<forall>r \<in> set reads. r = Interrupted \<or> (\<exists>b bs. r = ReadOk (b # bs))"
  shows "of_reader sha (reads @ [ReadOk []]) [] =
      Some (Ok (sha (concat (map (\<lambda>r. case r of ReadOk bs \<Rightarrow> bs | _ \<Rightarrow> []) reads)))) \<and>
    of_reader sha (reads @ ReadErr e # rest) [] = Some (Err e)"
proof -
  have "of_reader sha (reads @ [ReadOk []]) h =
      Some (Ok (sha (h @ concat (map (\<lambda>r. case r of ReadOk bs \<Rightarrow> bs | _ \<Rightarrow> []) reads)))) \<and>
    of_reader sha (reads @ ReadErr e # rest) h = Some (Err e)" for h
    using assms by (induction reads arbitrary: h) auto
  from this [of "[]"] show ?thesis by simp
qed

theorem of_reader_hashes_all_witness:
  "of_reader (\<lambda>bs. replicate 31 0 @ [sum_list bs]) [ReadOk [1, 2], Interrupted, ReadOk [3], ReadOk []] [] =
   Some (Ok (replicate 31 0 @ [6]))"
  using of_reader_hashes_all [of "[ReadOk [1, 2], Interrupted, ReadOk [3]]" "\<lambda>bs. replicate 31 0 @ [sum_list bs]"]
  by simp

end
