(* ===== verification/Artifact.thy ===== *)
theory Artifact
  imports Digest
begin

text \<open>
  \<open>crates/plasmosome-ledger/src/artifact.rs\<close>: the names a registry's releases go by. An identifier,
  a version and a digest have one spelling each, a release key is built only from checked fields, and
  keys and references are ordered by the text of their fields. \<open>uuid::Uuid\<close> belongs to its crate: its
  parser and its canonical text are parameters. Decoding one field from JSON is serde's; what a
  reference checks once its fields are decoded is modelled.
\<close>

section \<open>Errors\<close>

datatype artifact_ref_error =
    RefRegistryId string | RefDigest string | RefIdentifier string string | RefVersion string

text \<open>\<open>{:?}\<close> of a text escapes it by rules of the standard library; \<open>debug\<close> stands for them.\<close>

fun show_artifact_ref_error :: "(string \<Rightarrow> string) \<Rightarrow> artifact_ref_error \<Rightarrow> string" where
  "show_artifact_ref_error debug (RefRegistryId txt) =
     ''registry_id '' @ debug txt @ '' is not a non-nil UUID in lower-case hyphenated form''"
| "show_artifact_ref_error debug (RefDigest txt) =
     ''digest '' @ debug txt @ '' is not sha256: followed by 64 lower-case hex digits''"
| "show_artifact_ref_error debug (RefIdentifier field txt) =
     field @ '' '' @ debug txt @ '' does not match [a-z0-9]+(-[a-z0-9]+)* within 64 bytes''"
| "show_artifact_ref_error debug (RefVersion txt) =
     ''version '' @ debug txt @ '' does not match [A-Za-z0-9][A-Za-z0-9._-]* within 128 bytes''"

section \<open>The registry's identity\<close>

type_synonym registry_id = u128

definition registry_id_parse ::
  "(string \<Rightarrow> u128 option) \<Rightarrow> (u128 \<Rightarrow> string) \<Rightarrow> string \<Rightarrow> artifact_ref_error + registry_id" where
  "registry_id_parse parse_str hyphenated txt =
     (case parse_str txt of
        Some uuid \<Rightarrow> if uuid \<noteq> 0 \<and> hyphenated uuid = txt then Ok uuid else Err (RefRegistryId txt)
      | None \<Rightarrow> Err (RefRegistryId txt))"

definition show_registry_id :: "(u128 \<Rightarrow> string) \<Rightarrow> registry_id \<Rightarrow> string" where
  "show_registry_id hyphenated uuid = hyphenated uuid"

section \<open>Kind and population\<close>

datatype artifact_kind = Plasmid | Genome

fun kind_as_str :: "artifact_kind \<Rightarrow> string" where
  "kind_as_str Plasmid = ''plasmid''"
| "kind_as_str Genome = ''genome''"

definition kind_from_text :: "string \<Rightarrow> string + artifact_kind" where
  "kind_from_text txt =
     (if txt = ''plasmid'' then Ok Plasmid
      else if txt = ''genome'' then Ok Genome else Err txt)"

datatype population = Curated | User

fun population_as_str :: "population \<Rightarrow> string" where
  "population_as_str Curated = ''curated''"
| "population_as_str User = ''user''"

definition population_from_text :: "string \<Rightarrow> string + population" where
  "population_from_text txt =
     (if txt = ''curated'' then Ok Curated
      else if txt = ''user'' then Ok User else Err txt)"

lemma kind_as_str_inj: "kind_as_str a = kind_as_str b \<longleftrightarrow> a = b"
  by (cases a; cases b) auto

lemma population_as_str_inj: "population_as_str a = population_as_str b \<longleftrightarrow> a = b"
  by (cases a; cases b) auto

instantiation artifact_kind :: linorder
begin

definition less_eq_artifact_kind :: "artifact_kind \<Rightarrow> artifact_kind \<Rightarrow> bool" where
  "less_eq_artifact_kind a b = (kind_as_str a \<le> kind_as_str b)"

definition less_artifact_kind :: "artifact_kind \<Rightarrow> artifact_kind \<Rightarrow> bool" where
  "less_artifact_kind a b = (kind_as_str a < kind_as_str b)"

instance
  by standard (auto simp: less_eq_artifact_kind_def less_artifact_kind_def less_le kind_as_str_inj)

end

instantiation population :: linorder
begin

definition less_eq_population :: "population \<Rightarrow> population \<Rightarrow> bool" where
  "less_eq_population a b = (population_as_str a \<le> population_as_str b)"

definition less_population :: "population \<Rightarrow> population \<Rightarrow> bool" where
  "less_population a b = (population_as_str a < population_as_str b)"

instance
  by standard (auto simp: less_eq_population_def less_population_def less_le population_as_str_inj)

end

section \<open>The digest of a descriptor\<close>

text \<open>
  The chunks of two digits are zipped with the 32 bytes, so that a digit that is none is refused
  where it stands.
\<close>

fun digest_pairs :: "string \<Rightarrow> digest option" where
  "digest_pairs (high # low # rest) =
     (case hex_nibble high of
        None \<Rightarrow> None
      | Some h \<Rightarrow>
          (case hex_nibble low of
             None \<Rightarrow> None
           | Some l \<Rightarrow>
               (case digest_pairs rest of
                  None \<Rightarrow> None
                | Some bytes \<Rightarrow> Some ((push_bit 4 h OR l) # bytes))))"
| "digest_pairs _ = Some []"

definition artifact_digest_parse :: "string \<Rightarrow> artifact_ref_error + digest" where
  "artifact_digest_parse txt =
     (case strip_prefix ''sha256:'' txt of
        None \<Rightarrow> Err (RefDigest txt)
      | Some digits \<Rightarrow>
          if length digits \<noteq> 64 then Err (RefDigest txt) else ok_or (digest_pairs digits) (RefDigest txt))"

definition show_artifact_digest :: "digest \<Rightarrow> string" where
  "show_artifact_digest d = ''sha256:'' @ digest_hex d"

section \<open>Identifiers and versions\<close>

definition ident_byte :: "char \<Rightarrow> bool" where
  "ident_byte c = (is_ascii_lowercase c \<or> is_ascii_digit c)"

definition check_identifier :: "string \<Rightarrow> string \<Rightarrow> artifact_ref_error + unit" where
  "check_identifier field txt =
     (if length txt \<le> 64 \<and>
         list_all (\<lambda>segment. segment \<noteq> [] \<and> list_all ident_byte segment) (split_on CHR ''-'' txt)
      then Ok () else Err (RefIdentifier field txt))"

definition version_byte :: "char \<Rightarrow> bool" where
  "version_byte c = (is_ascii_alphanumeric c \<or> c = CHR ''.'' \<or> c = CHR ''_'' \<or> c = CHR ''-'')"

definition check_version :: "string \<Rightarrow> artifact_ref_error + unit" where
  "check_version txt =
     (if length txt \<le> 128 \<and> (case txt of [] \<Rightarrow> False | c # _ \<Rightarrow> is_ascii_alphanumeric c) \<and>
         list_all version_byte txt
      then Ok () else Err (RefVersion txt))"

section \<open>Release keys and references\<close>

datatype release_key =
  ReleaseKey (rk_kind: artifact_kind) (rk_population: population) (rk_publisher: string)
    (rk_name: string) (rk_version: string)

definition release_key_checked ::
  "artifact_kind \<Rightarrow> population \<Rightarrow> string \<Rightarrow> string \<Rightarrow> string \<Rightarrow> artifact_ref_error + release_key" where
  "release_key_checked kind pop publisher name version =
     and_then (check_identifier ''publisher'' publisher) (\<lambda>_.
     and_then (check_identifier ''name'' name) (\<lambda>_.
     and_then (check_version version) (\<lambda>_.
     Ok (ReleaseKey kind pop publisher name version))))"

definition release_key_new ::
  "artifact_kind \<Rightarrow> population \<Rightarrow> string \<Rightarrow> string \<Rightarrow> string \<Rightarrow> artifact_ref_error + release_key" where
  "release_key_new kind pop publisher name version =
     release_key_checked kind pop publisher name version"

text \<open>The derived order of a key compares its fields one after the other.\<close>

definition release_key_order ::
  "release_key \<Rightarrow> artifact_kind \<times> population \<times> string \<times> string \<times> string" where
  "release_key_order k = (rk_kind k, rk_population k, rk_publisher k, rk_name k, rk_version k)"

lemma release_key_order_inj: "release_key_order a = release_key_order b \<longleftrightarrow> a = b"
  by (cases a; cases b) (auto simp: release_key_order_def)

instantiation release_key :: linorder
begin

definition less_eq_release_key :: "release_key \<Rightarrow> release_key \<Rightarrow> bool" where
  "less_eq_release_key a b = (release_key_order a \<le> release_key_order b)"

definition less_release_key :: "release_key \<Rightarrow> release_key \<Rightarrow> bool" where
  "less_release_key a b = (release_key_order a < release_key_order b)"

instance
  by standard (auto simp: less_eq_release_key_def less_release_key_def less_le release_key_order_inj)

end

datatype release_ref = ReleaseRef (rr_key: release_key) (rr_digest: digest)

instantiation release_ref :: linorder
begin

definition less_eq_release_ref :: "release_ref \<Rightarrow> release_ref \<Rightarrow> bool" where
  "less_eq_release_ref a b = ((rr_key a, rr_digest a) \<le> (rr_key b, rr_digest b))"

definition less_release_ref :: "release_ref \<Rightarrow> release_ref \<Rightarrow> bool" where
  "less_release_ref a b = ((rr_key a, rr_digest a) < (rr_key b, rr_digest b))"

instance
  by standard (auto simp: less_eq_release_ref_def less_release_ref_def intro: release_ref.expand)

end

text \<open>The fields of a reference's object as serde decoded them, and what the code makes of them.\<close>

record release_ref_wire =
  rw_kind :: artifact_kind
  rw_population :: population
  rw_publisher :: string
  rw_name :: string
  rw_version :: string
  rw_digest :: digest

definition release_ref_from_wire :: "release_ref_wire \<Rightarrow> artifact_ref_error + release_ref" where
  "release_ref_from_wire wire =
     and_then (release_key_checked (rw_kind wire) (rw_population wire) (rw_publisher wire)
                 (rw_name wire) (rw_version wire)) (\<lambda>key.
     Ok (ReleaseRef key (rw_digest wire)))"

definition wire_of_ref :: "release_ref \<Rightarrow> release_ref_wire" where
  "wire_of_ref r =
     \<lparr>rw_kind = rk_kind (rr_key r), rw_population = rk_population (rr_key r),
      rw_publisher = rk_publisher (rr_key r), rw_name = rk_name (rr_key r),
      rw_version = rk_version (rr_key r), rw_digest = rr_digest r\<rparr>"

section \<open>The grammars of the documentation\<close>

text \<open>\<open>[a-z0-9]+(-[a-z0-9]+)*\<close>.\<close>

inductive identifier_grammar :: "string \<Rightarrow> bool" where
  one_segment: "s \<noteq> [] \<Longrightarrow> list_all ident_byte s \<Longrightarrow> identifier_grammar s"
| more_segments: "s \<noteq> [] \<Longrightarrow> list_all ident_byte s \<Longrightarrow> identifier_grammar rest \<Longrightarrow>
    identifier_grammar (s @ CHR ''-'' # rest)"

text \<open>\<open>[A-Za-z0-9][A-Za-z0-9._-]*\<close>.\<close>

definition version_grammar :: "string \<Rightarrow> bool" where
  "version_grammar s \<longleftrightarrow> (\<exists>c rest. s = c # rest \<and> is_ascii_alphanumeric c \<and> list_all version_byte rest)"

lemma no_dash_in_segment: "list_all ident_byte s \<Longrightarrow> CHR ''-'' \<notin> set s"
  by (auto simp: list_all_iff ident_byte_def is_ascii_lowercase_def is_ascii_digit_def byte_of_def)

lemma split_grammar:
  "list_all (\<lambda>segment. segment \<noteq> [] \<and> list_all ident_byte segment) (split_on CHR ''-'' s) \<longleftrightarrow>
   identifier_grammar s"
proof
  assume "identifier_grammar s"
  then show "list_all (\<lambda>segment. segment \<noteq> [] \<and> list_all ident_byte segment) (split_on CHR ''-'' s)"
    by induction (simp_all add: no_dash_in_segment split_on_single split_on_append)
next
  have "ps \<noteq> [] \<Longrightarrow> list_all (\<lambda>segment. segment \<noteq> [] \<and> list_all ident_byte segment) ps \<Longrightarrow>
      identifier_grammar (join_with CHR ''-'' ps)" for ps
  proof (induction ps)
    case (Cons p ps)
    then show ?case
      by (cases "ps = []") (auto simp: join_with_Cons intro: identifier_grammar.intros)
  qed simp
  from this [of "split_on CHR ''-'' s"]
  show "list_all (\<lambda>segment. segment \<noteq> [] \<and> list_all ident_byte segment) (split_on CHR ''-'' s) \<Longrightarrow>
      identifier_grammar s" by simp
qed

lemma check_identifier_Ok: "check_identifier f s = Ok u \<longleftrightarrow> length s \<le> 64 \<and> identifier_grammar s"
  by (simp add: check_identifier_def split_grammar)

lemma check_version_Ok: "check_version s = Ok u \<longleftrightarrow> length s \<le> 128 \<and> version_grammar s"
  by (cases s) (auto simp: check_version_def version_grammar_def version_byte_def)

lemma check_identifier_Err: "check_identifier f s = Err e \<Longrightarrow> e = RefIdentifier f s"
  by (simp add: check_identifier_def split: if_splits)

lemma check_version_Err: "check_version s = Err e \<Longrightarrow> e = RefVersion s"
  by (simp add: check_version_def split: if_splits)

section \<open>Digests have one spelling\<close>

lemma digest_pairs_hex: "digest_pairs (digest_hex d) = Some d"
  by (induction d) (simp_all add: nibble_of_digit nibbles_of_byte)

lemma digest_pairs_Some:
  "digest_pairs digits = Some d \<Longrightarrow> even (length digits) \<Longrightarrow> digest_hex d = digits"
proof (induction digits arbitrary: d rule: digest_pairs.induct)
  case (1 high low rest)
  then obtain h l bytes where *: "hex_nibble high = Some h" "hex_nibble low = Some l"
    "digest_pairs rest = Some bytes" "d = (push_bit 4 h OR l) # bytes"
    by (auto split: option.splits)
  moreover have "digest_hex bytes = rest" using 1 * by simp
  ultimately show ?case
    using digit_of_nibble [of high h] digit_of_nibble [of low l]
    by (simp add: byte_of_nibbles del: drop_bit_or)
qed auto

lemma artifact_digest_roundtrip:
  "length d = 32 \<Longrightarrow> artifact_digest_parse (show_artifact_digest d) = Ok d"
  by (simp add: artifact_digest_parse_def show_artifact_digest_def digest_pairs_hex
      strip_prefix_Some [THEN iffD2])

lemma artifact_digest_canonical:
  assumes "artifact_digest_parse s = Ok d"
  shows "show_artifact_digest d = s \<and> length d = 32"
proof -
  from assms obtain digits where *: "s = ''sha256:'' @ digits" "length digits = 64"
    "digest_pairs digits = Some d"
    by (auto simp: artifact_digest_parse_def ok_or_def strip_prefix_Some
        simp del: strip_prefix.simps split: option.splits if_splits)
  then have "digest_hex d = digits" by (simp add: digest_pairs_Some)
  with * length_digest_hex [of d] show ?thesis by (simp add: show_artifact_digest_def)
qed

lemma registry_id_canonical:
  "registry_id_parse parse_str hyphenated s = Ok u \<Longrightarrow> show_registry_id hyphenated u = s \<and> u \<noteq> 0"
  by (auto simp: registry_id_parse_def show_registry_id_def split: option.splits if_splits)

lemma registry_id_roundtrip:
  "parse_str (hyphenated u) = Some u \<Longrightarrow> u \<noteq> 0 \<Longrightarrow>
   registry_id_parse parse_str hyphenated (show_registry_id hyphenated u) = Ok u"
  by (simp add: registry_id_parse_def show_registry_id_def)

section \<open>Properties\<close>

text \<open>
  A release reference is decoded exactly when its publisher and name are words of the identifier
  grammar within 64 bytes and its version a word of the version grammar within 128, and it keeps every
  field as it is; a reference that is refused is refused for the first of those fields at fault, with
  its text unchanged.
\<close>

theorem reference_is_checked:
  "(release_ref_from_wire w = Ok r \<longleftrightarrow>
      r = ReleaseRef (ReleaseKey (rw_kind w) (rw_population w) (rw_publisher w) (rw_name w) (rw_version w))
            (rw_digest w) \<and>
      length (rw_publisher w) \<le> 64 \<and> identifier_grammar (rw_publisher w) \<and>
      length (rw_name w) \<le> 64 \<and> identifier_grammar (rw_name w) \<and>
      length (rw_version w) \<le> 128 \<and> version_grammar (rw_version w)) \<and>
   (release_ref_from_wire w = Err e \<longleftrightarrow>
      (if length (rw_publisher w) \<le> 64 \<and> identifier_grammar (rw_publisher w) then
         (if length (rw_name w) \<le> 64 \<and> identifier_grammar (rw_name w) then
            \<not> (length (rw_version w) \<le> 128 \<and> version_grammar (rw_version w)) \<and> e = RefVersion (rw_version w)
          else e = RefIdentifier ''name'' (rw_name w))
       else e = RefIdentifier ''publisher'' (rw_publisher w)))"
proof -
  have ident: "check_identifier f s =
      (if length s \<le> 64 \<and> identifier_grammar s then Ok () else Err (RefIdentifier f s))" for f s
    by (simp add: check_identifier_def split_grammar)
  have ver: "check_version s = (if length s \<le> 128 \<and> version_grammar s then Ok () else Err (RefVersion s))" for s
    using check_version_Ok [of s "()"] check_version_Err [of s] by (cases "check_version s") auto
  show ?thesis
    by (auto simp: release_ref_from_wire_def release_key_checked_def ident ver)
qed

end
