(* ===== verification/Cell_Journal.thy ===== *)
theory Cell_Journal
  imports Ledger Artifact Unicode_Text
begin

text \<open>
  \<open>crates/plasmosome-ledger/src/cell_journal/{mod,fault,source,parse}.rs\<close>: one line of a cell's journal
  as a typed record. What \<open>serde_json\<close> does is a parameter, a \<open>journal_codec\<close>: it turns text into the
  wire structures and back. Everything the crate checks on what was decoded is modelled, with the kind
  of every refusal; the detail of a refusal, which no code may branch on, keeps the values the message
  names.
\<close>

section \<open>Faults\<close>

datatype journal_kind =
    JnlIo | JnlUnparseable | JnlUnsupportedFormat | JnlGenerationZero | JnlGenerationOrder
  | JnlEventOrder | JnlInvalidEffect | JnlInvalidSource | JnlInvalidClosure | JnlInvalidLifetime

datatype source_fault =
    SrcBad string | SrcDuplicate string | SrcUnknownField string | SrcMissing string
  | SrcLocalWithFields | SrcNotPlasmid | SrcUnknownKind string

datatype journal_detail =
    DetText string | DetUtf8 nat | DetFormat "utext option" | DetChangesTwice plugin_id
  | DetSource source_fault | DetNotMember string plugin_id | DetNotInverse grant_id grant_id
  | DetOtherOwner grant_id cell_owner cell_owner | DetNoOperation grant_id | DetNoInverse grant_id

datatype rule_error = RuleError (re_kind: journal_kind) (re_detail: journal_detail)

datatype cell_journal_fault =
  JournalFault (jf_path: string) (jf_line: "nat option") (jf_lines_parsed: nat) (jf_kind: journal_kind)
    (jf_detail: journal_detail)

section \<open>Records\<close>

definition CELL_JOURNAL_FORMAT :: u64 where "CELL_JOURNAL_FORMAT = 1"

datatype attachment_source = LocalSource | RegistrySource registry_id release_ref release_ref

record recorded_effect =
  rec_effect :: effect
  rec_operation :: "universe_op option"

record replacement =
  rp_mock :: mock_mode
  rp_source :: attachment_source
  rp_effects :: "recorded_effect list"

record change =
  chg_plugin :: plugin_id
  chg_replacement :: "replacement option"

text \<open>The operator and the reason are text, which \<open>trim\<close> reads as scalar values.\<close>

record force_assertion =
  fa_operator :: utext
  fa_reason :: utext

record prepare =
  pre_changes :: "change list"
  pre_force :: "force_assertion option"

datatype journal_event = JPrepare prepare | JCommit | JAbort | JFinish

record journal_record =
  jr_generation :: u64
  jr_event :: journal_event

section \<open>An effect with its operation\<close>

definition universe_inverse :: "effect \<Rightarrow> universe_removal option" where
  "universe_inverse e =
     (case eff_reversibility e of
        Exact i \<Rightarrow> (case inv_via i of ViaUniverse removal \<Rightarrow> Some removal | ViaBackend _ \<Rightarrow> None)
      | Compensating c \<Rightarrow> Some (cp_witness c)
      | _ \<Rightarrow> None)"

definition rec_address :: "recorded_effect \<Rightarrow> handle option" where
  "rec_address r =
     (case eff_reversibility (rec_effect r) of
        Exact i \<Rightarrow>
          (case inv_via i of
             ViaBackend h \<Rightarrow> Some h
           | ViaUniverse _ \<Rightarrow>
               map_option (\<lambda>removal. Handle (rem_class removal) (rem_id removal)) (universe_inverse (rec_effect r)))
      | _ \<Rightarrow>
          map_option (\<lambda>removal. Handle (rem_class removal) (rem_id removal)) (universe_inverse (rec_effect r)))"

definition rec_validate :: "cell_owner \<Rightarrow> recorded_effect \<Rightarrow> rule_error + unit" where
  "rec_validate owner r =
     (let refuse = (\<lambda>detail. Err (RuleError JnlInvalidEffect detail)) in
      case (universe_inverse (rec_effect r), rec_operation r) of
        (Some removal, Some p) \<Rightarrow>
          if op_removal p \<noteq> removal then refuse (DetNotInverse (op_id p) (rem_id removal))
          else if op_owner p \<noteq> owner then refuse (DetOtherOwner (op_id p) (op_owner p) owner)
          else Ok ()
      | (None, None) \<Rightarrow> Ok ()
      | (Some removal, None) \<Rightarrow> refuse (DetNoOperation (rem_id removal))
      | (None, Some p) \<Rightarrow> refuse (DetNoInverse (op_id p)))"

section \<open>The codec\<close>

text \<open>The wire structures serde derives. A \<open>RawValue\<close> is the text of one JSON value.\<close>

type_synonym raw = utext

record wire_effect =
  we_effect :: raw
  we_operation :: raw

record wire_replacement =
  wr_mock :: mock_mode
  wr_source :: raw
  wr_effects :: "wire_effect list"

record wire_change =
  wc_plugin :: plugin_id
  wc_replacement :: "wire_replacement option"

record wire_force =
  wf_operator :: utext
  wf_reason :: utext

record wire_prepare =
  wp_changes :: "wire_change list"
  wp_force :: "wire_force option"

datatype wire_event = WPrepare wire_prepare | WCommit | WAbort | WFinish

record wire_record =
  wire_format :: u64
  wire_generation :: u64
  wire_event :: wire_event

text \<open>
  \<open>serde_json\<close> and \<open>uuid\<close>. Reading: an object's \<open>format\<close> (its text and what \<open>as_u64\<close> makes of it, or its
  absence; \<open>None\<close> when the text is no object with a readable \<open>format\<close>), a whole record, an object's
  entries in order, a string, a reference's fields, an effect, a nullable operation. Writing: the same
  the other way round.
\<close>

record journal_codec =
  read_probe :: "utext \<Rightarrow> (utext \<times> u64 option) option option"
  read_record :: "utext \<Rightarrow> string + wire_record"
  read_entries :: "raw \<Rightarrow> string + (string \<times> raw) list"
  read_text :: "raw \<Rightarrow> string + string"
  read_ref :: "raw \<Rightarrow> string + release_ref_wire"
  read_effect :: "raw \<Rightarrow> string + effect"
  read_operation :: "raw \<Rightarrow> string + universe_op option"
  parse_uuid :: "string \<Rightarrow> u128 option"
  write_record :: "wire_record \<Rightarrow> string + nat list"
  write_entries :: "(string \<times> raw) list \<Rightarrow> string + raw"
  write_text :: "string \<Rightarrow> string + raw"
  write_ref :: "release_ref_wire \<Rightarrow> string + raw"
  write_effect :: "effect \<Rightarrow> string + raw"
  write_operation :: "universe_op option \<Rightarrow> string + raw"
  hyphenated_uuid :: "u128 \<Rightarrow> string"

section \<open>Where an attachment came from\<close>

definition validate_member :: "plugin_id \<Rightarrow> attachment_source \<Rightarrow> rule_error + unit" where
  "validate_member plugin src =
     (case src of
        RegistrySource _ _ member \<Rightarrow>
          if rk_kind (rr_key member) \<noteq> Plasmid \<or> rk_name (rr_key member) \<noteq> plugin
          then Err (RuleError JnlInvalidSource (DetNotMember (rk_name (rr_key member)) plugin))
          else Ok ()
      | LocalSource \<Rightarrow> Ok ())"

record source_parts =
  sp_kind :: "string option"
  sp_registry_id :: "registry_id option"
  sp_root :: "release_ref option"
  sp_member :: "release_ref option"

definition SOURCE_KEYS :: "string list" where
  "SOURCE_KEYS = [''kind'', ''registry_id'', ''root'', ''member'']"

definition decode_registry_id :: "journal_codec \<Rightarrow> raw \<Rightarrow> source_fault + registry_id" where
  "decode_registry_id c r =
     and_then (map_err SrcBad (read_text c r)) (\<lambda>txt.
     map_err (\<lambda>e. SrcBad (show_artifact_ref_error id e))
       (registry_id_parse (parse_uuid c) (hyphenated_uuid c) txt))"

definition decode_ref :: "journal_codec \<Rightarrow> raw \<Rightarrow> source_fault + release_ref" where
  "decode_ref c r =
     and_then (map_err SrcBad (read_ref c r)) (\<lambda>wire.
     map_err (\<lambda>e. SrcBad (show_artifact_ref_error id e)) (release_ref_from_wire wire))"

fun source_loop :: "journal_codec \<Rightarrow> (string \<times> raw) list \<Rightarrow> source_parts \<Rightarrow> source_fault + source_parts" where
  "source_loop c [] parts = Ok parts"
| "source_loop c ((key, v) # rest) parts =
     (if key = ''kind'' \<and> sp_kind parts = None then
        and_then (map_err SrcBad (read_text c v)) (\<lambda>k. source_loop c rest (parts\<lparr>sp_kind := Some k\<rparr>))
      else if key = ''registry_id'' \<and> sp_registry_id parts = None then
        and_then (decode_registry_id c v) (\<lambda>i. source_loop c rest (parts\<lparr>sp_registry_id := Some i\<rparr>))
      else if key = ''root'' \<and> sp_root parts = None then
        and_then (decode_ref c v) (\<lambda>r. source_loop c rest (parts\<lparr>sp_root := Some r\<rparr>))
      else if key = ''member'' \<and> sp_member parts = None then
        and_then (decode_ref c v) (\<lambda>r. source_loop c rest (parts\<lparr>sp_member := Some r\<rparr>))
      else if key \<in> set SOURCE_KEYS then Err (SrcDuplicate key)
      else Err (SrcUnknownField key))"

definition source_of_parts :: "source_parts \<Rightarrow> source_fault + attachment_source" where
  "source_of_parts parts =
     (case sp_kind parts of
        None \<Rightarrow> Err (SrcMissing ''kind'')
      | Some k \<Rightarrow>
          if k = ''local'' then
            (if sp_registry_id parts = None \<and> sp_root parts = None \<and> sp_member parts = None
             then Ok LocalSource else Err SrcLocalWithFields)
          else if k = ''registry'' then
            and_then (ok_or (sp_member parts) (SrcMissing ''member'')) (\<lambda>member.
            and_then (require (rk_kind (rr_key member) = Plasmid) SrcNotPlasmid) (\<lambda>_.
            and_then (ok_or (sp_registry_id parts) (SrcMissing ''registry_id'')) (\<lambda>i.
            and_then (ok_or (sp_root parts) (SrcMissing ''root'')) (\<lambda>root.
            Ok (RegistrySource i root member)))))
          else Err (SrcUnknownKind k))"

definition read_source :: "journal_codec \<Rightarrow> raw \<Rightarrow> source_fault + attachment_source" where
  "read_source c r =
     and_then (map_err SrcBad (read_entries c r)) (\<lambda>es.
     and_then (source_loop c es \<lparr>sp_kind = None, sp_registry_id = None, sp_root = None, sp_member = None\<rparr>)
       source_of_parts)"

definition source_entries :: "journal_codec \<Rightarrow> attachment_source \<Rightarrow> string + (string \<times> raw) list" where
  "source_entries c src =
     (case src of
        LocalSource \<Rightarrow> and_then (write_text c ''local'') (\<lambda>k. Ok [(''kind'', k)])
      | RegistrySource i root member \<Rightarrow>
          and_then (write_text c ''registry'') (\<lambda>k.
          and_then (write_text c (show_registry_id (hyphenated_uuid c) i)) (\<lambda>vi.
          and_then (write_ref c (wire_of_ref root)) (\<lambda>vr.
          and_then (write_ref c (wire_of_ref member)) (\<lambda>vm.
          Ok [(''kind'', k), (''registry_id'', vi), (''root'', vr), (''member'', vm)])))))"

section \<open>From the wire\<close>

text \<open>\<open>collect\<close> into a \<open>Result\<close>: the first error ends it.\<close>

fun try_map :: "('a \<Rightarrow> 'e + 'b) \<Rightarrow> 'a list \<Rightarrow> 'e + 'b list" where
  "try_map f [] = Ok []"
| "try_map f (x # xs) = and_then (f x) (\<lambda>y. and_then (try_map f xs) (\<lambda>ys. Ok (y # ys)))"

definition unparseable :: "journal_detail \<Rightarrow> rule_error" where
  "unparseable detail = RuleError JnlUnparseable detail"

fun first_repeat :: "plugin_id btree_set \<Rightarrow> wire_change list \<Rightarrow> plugin_id option" where
  "first_repeat plugins [] = None"
| "first_repeat plugins (wc # rest) =
     (if bs_contains plugins (wc_plugin wc) then Some (wc_plugin wc)
      else first_repeat (bs_insert (wc_plugin wc) plugins) rest)"

definition effect_from :: "journal_codec \<Rightarrow> cell_owner \<Rightarrow> wire_effect \<Rightarrow> rule_error + recorded_effect" where
  "effect_from c owner wire =
     (let invalid = (\<lambda>e. RuleError JnlInvalidEffect (DetText e)) in
      and_then (map_err invalid (read_effect c (we_effect wire))) (\<lambda>e.
      and_then (map_err invalid (read_operation c (we_operation wire))) (\<lambda>p.
      let recorded = \<lparr>rec_effect = e, rec_operation = p\<rparr> in
      and_then (rec_validate owner recorded) (\<lambda>_. Ok recorded))))"

definition change_from :: "journal_codec \<Rightarrow> cell_id \<Rightarrow> wire_change \<Rightarrow> rule_error + change" where
  "change_from c cell wire =
     (case wc_replacement wire of
        None \<Rightarrow> Ok \<lparr>chg_plugin = wc_plugin wire, chg_replacement = None\<rparr>
      | Some r \<Rightarrow>
          and_then (map_err (\<lambda>e. RuleError JnlInvalidSource (DetSource e)) (read_source c (wr_source r))) (\<lambda>src.
          and_then (validate_member (wc_plugin wire) src) (\<lambda>_.
          and_then (try_map (effect_from c (CellOwner cell (wc_plugin wire))) (wr_effects r)) (\<lambda>effects.
          Ok \<lparr>chg_plugin = wc_plugin wire,
              chg_replacement = Some \<lparr>rp_mock = wr_mock r, rp_source = src, rp_effects = effects\<rparr>\<rparr>))))"

definition prepare_from :: "journal_codec \<Rightarrow> cell_id \<Rightarrow> wire_prepare \<Rightarrow> rule_error + prepare" where
  "prepare_from c cell wire =
     (if wp_changes wire = [] then Err (unparseable (DetText ''a prepare has no changes''))
      else case first_repeat bt_empty (wp_changes wire) of
        Some plugin \<Rightarrow> Err (unparseable (DetChangesTwice plugin))
      | None \<Rightarrow>
          and_then
            (case wp_force wire of
               Some f \<Rightarrow>
                 if trim_text (wf_operator f) = [] \<or> trim_text (wf_reason f) = []
                 then Err (unparseable (DetText ''a force needs an operator and a reason''))
                 else Ok (Some \<lparr>fa_operator = wf_operator f, fa_reason = wf_reason f\<rparr>)
             | None \<Rightarrow> Ok None) (\<lambda>f.
          and_then (try_map (change_from c cell) (wp_changes wire)) (\<lambda>changes.
          Ok \<lparr>pre_changes = changes, pre_force = f\<rparr>)))"

definition event_from :: "journal_codec \<Rightarrow> cell_id \<Rightarrow> wire_event \<Rightarrow> rule_error + journal_event" where
  "event_from c cell ev =
     (case ev of
        WPrepare p \<Rightarrow> and_then (prepare_from c cell p) (\<lambda>q. Ok (JPrepare q))
      | WCommit \<Rightarrow> Ok JCommit
      | WAbort \<Rightarrow> Ok JAbort
      | WFinish \<Rightarrow> Ok JFinish)"

definition parse_wire ::
  "journal_codec \<Rightarrow> cell_id \<Rightarrow> string + wire_record \<Rightarrow> rule_error + journal_record" where
  "parse_wire c cell decoded =
     and_then (map_err (\<lambda>e. unparseable (DetText e)) decoded) (\<lambda>wire.
     if wire_generation wire = 0
     then Err (RuleError JnlGenerationZero (DetText ''generation 0 appears in no record''))
     else and_then (event_from c cell (wire_event wire)) (\<lambda>ev.
       Ok \<lparr>jr_generation = wire_generation wire, jr_event = ev\<rparr>))"

definition parse_record :: "journal_codec \<Rightarrow> cell_id \<Rightarrow> nat list \<Rightarrow> rule_error + journal_record" where
  "parse_record c cell line =
     (case from_utf8 0 line of
        Inl at \<Rightarrow> Err (unparseable (DetUtf8 at))
      | Inr txt \<Rightarrow>
          (case read_probe c txt of
             Some None \<Rightarrow> Err (RuleError JnlUnsupportedFormat (DetFormat None))
           | Some (Some (shown, as_u64)) \<Rightarrow>
               if as_u64 \<noteq> Some CELL_JOURNAL_FORMAT
               then Err (RuleError JnlUnsupportedFormat (DetFormat (Some shown)))
               else parse_wire c cell (read_record c txt)
           | None \<Rightarrow> parse_wire c cell (read_record c txt)))"

section \<open>To the wire\<close>

definition write_source :: "journal_codec \<Rightarrow> attachment_source \<Rightarrow> string + raw" where
  "write_source c src = and_then (source_entries c src) (write_entries c)"

definition wire_effect_of :: "journal_codec \<Rightarrow> recorded_effect \<Rightarrow> string + wire_effect" where
  "wire_effect_of c r =
     and_then (write_effect c (rec_effect r)) (\<lambda>e.
     and_then (write_operation c (rec_operation r)) (\<lambda>p.
     Ok \<lparr>we_effect = e, we_operation = p\<rparr>))"

definition wire_change_of :: "journal_codec \<Rightarrow> change \<Rightarrow> string + wire_change" where
  "wire_change_of c ch =
     (case chg_replacement ch of
        None \<Rightarrow> Ok \<lparr>wc_plugin = chg_plugin ch, wc_replacement = None\<rparr>
      | Some r \<Rightarrow>
          and_then (write_source c (rp_source r)) (\<lambda>src.
          and_then (try_map (wire_effect_of c) (rp_effects r)) (\<lambda>effects.
          Ok \<lparr>wc_plugin = chg_plugin ch,
              wc_replacement = Some \<lparr>wr_mock = rp_mock r, wr_source = src, wr_effects = effects\<rparr>\<rparr>)))"

definition wire_event_of :: "journal_codec \<Rightarrow> journal_event \<Rightarrow> string + wire_event" where
  "wire_event_of c ev =
     (case ev of
        JPrepare p \<Rightarrow>
          and_then (try_map (wire_change_of c) (pre_changes p)) (\<lambda>changes.
          Ok (WPrepare \<lparr>wp_changes = changes,
                wp_force = map_option (\<lambda>f. \<lparr>wf_operator = fa_operator f, wf_reason = fa_reason f\<rparr>) (pre_force p)\<rparr>))
      | JCommit \<Rightarrow> Ok WCommit
      | JAbort \<Rightarrow> Ok WAbort
      | JFinish \<Rightarrow> Ok WFinish)"

definition encode_record :: "journal_codec \<Rightarrow> journal_record \<Rightarrow> string + nat list" where
  "encode_record c r =
     and_then (wire_event_of c (jr_event r)) (\<lambda>ev.
     and_then (write_record c \<lparr>wire_format = CELL_JOURNAL_FORMAT, wire_generation = jr_generation r,
                 wire_event = ev\<rparr>) (\<lambda>bytes.
     Ok (bytes @ [10])))"

section \<open>Valid records\<close>

text \<open>What spec 008 asks of one record on its own.\<close>

definition ref_ok :: "release_ref \<Rightarrow> bool" where
  "ref_ok r \<longleftrightarrow>
     length (rk_publisher (rr_key r)) \<le> 64 \<and> identifier_grammar (rk_publisher (rr_key r)) \<and>
     length (rk_name (rr_key r)) \<le> 64 \<and> identifier_grammar (rk_name (rr_key r)) \<and>
     length (rk_version (rr_key r)) \<le> 128 \<and> version_grammar (rk_version (rr_key r))"

definition source_ok :: "plugin_id \<Rightarrow> attachment_source \<Rightarrow> bool" where
  "source_ok plugin src \<longleftrightarrow>
     (case src of
        LocalSource \<Rightarrow> True
      | RegistrySource i root member \<Rightarrow>
          i \<noteq> 0 \<and> ref_ok root \<and> ref_ok member \<and> rk_kind (rr_key member) = Plasmid \<and>
          rk_name (rr_key member) = plugin)"

definition recorded_ok :: "cell_owner \<Rightarrow> recorded_effect \<Rightarrow> bool" where
  "recorded_ok owner r \<longleftrightarrow>
     (case universe_inverse (rec_effect r) of
        None \<Rightarrow> rec_operation r = None
      | Some removal \<Rightarrow> \<exists>p. rec_operation r = Some p \<and> op_removal p = removal \<and> op_owner p = owner)"

definition change_ok :: "cell_id \<Rightarrow> change \<Rightarrow> bool" where
  "change_ok cell ch \<longleftrightarrow>
     (case chg_replacement ch of
        None \<Rightarrow> True
      | Some r \<Rightarrow>
          source_ok (chg_plugin ch) (rp_source r) \<and>
          list_all (recorded_ok (CellOwner cell (chg_plugin ch))) (rp_effects r))"

definition force_ok :: "force_assertion \<Rightarrow> bool" where
  "force_ok f \<longleftrightarrow>
     \<not> list_all is_whitespace (fa_operator f) \<and> \<not> list_all is_whitespace (fa_reason f)"

definition prepare_ok :: "cell_id \<Rightarrow> prepare \<Rightarrow> bool" where
  "prepare_ok cell p \<longleftrightarrow>
     pre_changes p \<noteq> [] \<and> distinct (map chg_plugin (pre_changes p)) \<and>
     list_all (change_ok cell) (pre_changes p) \<and>
     (case pre_force p of None \<Rightarrow> True | Some f \<Rightarrow> force_ok f)"

definition record_ok :: "cell_id \<Rightarrow> journal_record \<Rightarrow> bool" where
  "record_ok cell r \<longleftrightarrow>
     jr_generation r \<noteq> 0 \<and>
     (case jr_event r of JPrepare p \<Rightarrow> prepare_ok cell p | _ \<Rightarrow> True)"

lemma rec_address_target: "rec_address r = effect_target (rec_effect r)"
  by (simp add: rec_address_def effect_target_def universe_inverse_def rem_handle_def
      split: reversibility.split inverse_via.split)

lemma first_repeat_None:
  "first_repeat seen wcs = None \<longleftrightarrow>
   distinct (map wc_plugin wcs) \<and> (\<forall>wc \<in> set wcs. \<not> bs_contains seen (wc_plugin wc))"
  by (induction wcs arbitrary: seen) (auto simp: image_iff)

lemma rec_validate_Ok: "rec_validate owner r = Ok u \<longleftrightarrow> recorded_ok owner r"
  by (auto simp: rec_validate_def recorded_ok_def Let_def split: option.splits)

lemma try_map_Ok:
  "try_map f xs = Ok ys \<longleftrightarrow> list_all2 (\<lambda>x y. f x = Ok y) xs ys"
  by (induction xs arbitrary: ys) (auto simp: and_then_eq_Inr list_all2_Cons1)

section \<open>What is read is valid\<close>

lemma release_ref_from_wire_ok: "release_ref_from_wire w = Ok r \<Longrightarrow> ref_ok r"
  by (auto simp: release_ref_from_wire_def release_key_checked_def ref_ok_def and_then_eq_Inr
      check_identifier_Ok check_version_Ok)

lemma release_ref_rewire: "ref_ok r \<Longrightarrow> release_ref_from_wire (wire_of_ref r) = Ok r"
  by (cases r; cases "rr_key r")
    (auto simp: release_ref_from_wire_def release_key_checked_def ref_ok_def wire_of_ref_def
      check_identifier_Ok check_version_Ok and_then_eq_Inr)

lemma decode_ref_ok: "decode_ref c r = Ok x \<Longrightarrow> ref_ok x"
  by (auto simp: decode_ref_def and_then_eq_Inr intro: release_ref_from_wire_ok)

lemma decode_registry_id_ok: "decode_registry_id c r = Ok i \<Longrightarrow> i \<noteq> 0"
  using registry_id_canonical by (auto simp: decode_registry_id_def and_then_eq_Inr)

definition parts_ok :: "source_parts \<Rightarrow> bool" where
  "parts_ok parts \<longleftrightarrow>
     sp_registry_id parts \<noteq> Some 0 \<and> (\<forall>r. sp_root parts = Some r \<longrightarrow> ref_ok r) \<and>
     (\<forall>r. sp_member parts = Some r \<longrightarrow> ref_ok r)"

lemma parts_ok_update:
  "parts_ok parts \<Longrightarrow> parts_ok (parts\<lparr>sp_kind := k\<rparr>)"
  "parts_ok parts \<Longrightarrow> i \<noteq> 0 \<Longrightarrow> parts_ok (parts\<lparr>sp_registry_id := Some i\<rparr>)"
  "parts_ok parts \<Longrightarrow> ref_ok r \<Longrightarrow> parts_ok (parts\<lparr>sp_root := Some r\<rparr>)"
  "parts_ok parts \<Longrightarrow> ref_ok r \<Longrightarrow> parts_ok (parts\<lparr>sp_member := Some r\<rparr>)"
  by (simp_all add: parts_ok_def)

lemma source_loop_ok: "source_loop c es parts = Ok parts' \<Longrightarrow> parts_ok parts \<Longrightarrow> parts_ok parts'"
proof (induction es arbitrary: parts)
  case (Cons e es)
  obtain key v where e: "e = (key, v)" by (cases e)
  from Cons.prems(1) consider k where "source_loop c es (parts\<lparr>sp_kind := Some k\<rparr>) = Ok parts'"
    | i where "i \<noteq> 0" "source_loop c es (parts\<lparr>sp_registry_id := Some i\<rparr>) = Ok parts'"
    | r where "ref_ok r" "source_loop c es (parts\<lparr>sp_root := Some r\<rparr>) = Ok parts'"
    | r where "ref_ok r" "source_loop c es (parts\<lparr>sp_member := Some r\<rparr>) = Ok parts'"
    unfolding e source_loop.simps
    by (auto simp: and_then_eq_Inr split: if_splits dest: decode_registry_id_ok decode_ref_ok)
  then show ?case
    by cases (use Cons.IH parts_ok_update [OF Cons.prems(2)] in blast)+
qed simp

lemma source_of_parts_ok:
  assumes "source_of_parts parts = Ok src" "parts_ok parts" "validate_member plugin src = Ok u"
  shows "source_ok plugin src"
proof (cases src)
  case (RegistrySource i root member)
  with assms(1) have "sp_registry_id parts = Some i" "sp_root parts = Some root" "sp_member parts = Some member"
    by (auto simp: source_of_parts_def and_then_eq_Inr ok_or_def split: option.splits if_splits)
  with assms(2,3) RegistrySource show ?thesis
    by (auto simp: source_ok_def parts_ok_def validate_member_def split: if_splits)
qed (simp add: source_ok_def)

lemma read_source_ok:
  assumes "read_source c r = Ok src" "validate_member plugin src = Ok u"
  shows "source_ok plugin src"
proof -
  from assms(1) obtain es parts where
    parts: "source_loop c es \<lparr>sp_kind = None, sp_registry_id = None, sp_root = None, sp_member = None\<rparr> = Ok parts"
    and src: "source_of_parts parts = Ok src"
    by (auto simp: read_source_def and_then_eq_Inr)
  from parts have "parts_ok parts" by (rule source_loop_ok) (simp add: parts_ok_def)
  from source_of_parts_ok [OF src this assms(2)] show ?thesis .
qed

lemma effect_from_ok: "effect_from c owner w = Ok r \<Longrightarrow> recorded_ok owner r"
  by (auto simp: effect_from_def Let_def and_then_eq_Inr rec_validate_Ok)

lemma effects_from_ok: "try_map (effect_from c owner) ws = Ok rs \<Longrightarrow> list_all (recorded_ok owner) rs"
  unfolding try_map_Ok by (induction rule: list_all2_induct) (auto dest: effect_from_ok)

lemma change_from_ok: "change_from c cell w = Ok ch \<Longrightarrow> change_ok cell ch \<and> chg_plugin ch = wc_plugin w"
  by (auto simp: change_from_def and_then_eq_Inr change_ok_def read_source_ok effects_from_ok
      split: option.splits)

lemma changes_from_ok:
  "list_all2 (\<lambda>w ch. change_from c cell w = Ok ch) ws chs \<Longrightarrow>
   list_all (change_ok cell) chs \<and> map chg_plugin chs = map wc_plugin ws"
  by (induction rule: list_all2_induct) (auto dest: change_from_ok)

lemma prepare_from_ok:
  assumes "prepare_from c cell w = Ok p"
  shows "prepare_ok cell p"
proof -
  have first: "first_repeat bt_empty (wp_changes w) = None" and some: "wp_changes w \<noteq> []"
    using assms by (auto simp: prepare_from_def split: option.splits if_splits)
  from assms have changes: "try_map (change_from c cell) (wp_changes w) = Ok (pre_changes p)"
    and "case pre_force p of None \<Rightarrow> True | Some f \<Rightarrow> force_ok f"
    by (auto simp: prepare_from_def some first and_then_eq_Inr force_ok_def trim_empty
        split: option.splits if_splits)
  moreover from changes have "list_all (change_ok cell) (pre_changes p)"
    "map chg_plugin (pre_changes p) = map wc_plugin (wp_changes w)"
    using changes_from_ok [OF changes [unfolded try_map_Ok]] by simp_all
  moreover have "pre_changes p \<noteq> []" using changes some by (auto simp: try_map_Ok)
  ultimately show ?thesis using first by (simp add: prepare_ok_def first_repeat_None)
qed

lemma parse_wire_ok: "parse_wire c cell d = Ok r \<Longrightarrow> record_ok cell r"
  by (auto simp: parse_wire_def and_then_eq_Inr record_ok_def event_from_def prepare_from_ok
      split: if_splits wire_event.splits)

lemma parse_record_ok: "parse_record c cell line = Ok r \<Longrightarrow> record_ok cell r"
  by (auto simp: parse_record_def parse_wire_ok split: sum.splits option.splits if_splits)

section \<open>What is written is read back\<close>

text \<open>
  A codec that reads what it wrote, and a UUID's canonical text that parses as that UUID. For the derived wire
  structures, texts and entries that is what serde documents. For effects and operations it stands for the
  serde code of \<open>wire.rs\<close> and \<open>universe.rs\<close>, which is not modelled; so what follows says only that the checks
  between the wire and the record refuse nothing that was written.
\<close>

definition faithful_codec :: "journal_codec \<Rightarrow> bool" where
  "faithful_codec c \<longleftrightarrow>
     (\<forall>w bytes. write_record c w = Ok bytes \<longrightarrow>
        (\<exists>txt shown. from_utf8 0 bytes = Ok txt \<and> read_record c txt = Ok w \<and>
           read_probe c txt = Some (Some (shown, Some (wire_format w))))) \<and>
     (\<forall>es r. write_entries c es = Ok r \<longrightarrow> read_entries c r = Ok es) \<and>
     (\<forall>s r. write_text c s = Ok r \<longrightarrow> read_text c r = Ok s) \<and>
     (\<forall>w r. write_ref c w = Ok r \<longrightarrow> read_ref c r = Ok w) \<and>
     (\<forall>e r. write_effect c e = Ok r \<longrightarrow> read_effect c r = Ok e) \<and>
     (\<forall>p r. write_operation c p = Ok r \<longrightarrow> read_operation c r = Ok p) \<and>
     (\<forall>u. parse_uuid c (hyphenated_uuid c u) = Some u)"

lemma decode_written_ref:
  "faithful_codec c \<Longrightarrow> ref_ok x \<Longrightarrow> write_ref c (wire_of_ref x) = Ok r \<Longrightarrow> decode_ref c r = Ok x"
  by (simp add: faithful_codec_def decode_ref_def release_ref_rewire)

lemma decode_written_id:
  "faithful_codec c \<Longrightarrow> i \<noteq> 0 \<Longrightarrow> write_text c (show_registry_id (hyphenated_uuid c) i) = Ok r \<Longrightarrow>
   decode_registry_id c r = Ok i"
  by (simp add: faithful_codec_def decode_registry_id_def registry_id_roundtrip)

lemma read_written_source:
  assumes c: "faithful_codec c" and ok: "source_ok plugin src" and w: "write_source c src = Ok r"
  shows "read_source c r = Ok src \<and> validate_member plugin src = Ok ()"
proof -
  from w obtain es where es: "source_entries c src = Ok es" "write_entries c es = Ok r"
    by (auto simp: write_source_def and_then_eq_Inr)
  have read: "read_entries c r = Ok es" using c es(2) by (simp add: faithful_codec_def)
  have texts: "write_text c s = Ok v \<Longrightarrow> read_text c v = Ok s" for s v
    using c by (simp add: faithful_codec_def)
  show ?thesis
  proof (cases src)
    case LocalSource
    with es(1) read show ?thesis
      by (auto simp: source_entries_def and_then_eq_Inr read_source_def texts source_of_parts_def validate_member_def)
  next
    case (RegistrySource i root member)
    with es(1) read ok show ?thesis
      by (auto simp: source_entries_def and_then_eq_Inr read_source_def texts source_of_parts_def validate_member_def
          source_ok_def decode_written_ref [OF c] decode_written_id [OF c])
  qed
qed

lemma read_written_effect:
  assumes "faithful_codec c" "recorded_ok owner r" "wire_effect_of c r = Ok w"
  shows "effect_from c owner w = Ok r"
proof -
  from assms(3) obtain e p where w: "write_effect c (rec_effect r) = Ok e"
    "write_operation c (rec_operation r) = Ok p" "w = \<lparr>we_effect = e, we_operation = p\<rparr>"
    by (auto simp: wire_effect_of_def and_then_eq_Inr)
  with assms(1) have "read_effect c e = Ok (rec_effect r)" "read_operation c p = Ok (rec_operation r)"
    by (simp_all add: faithful_codec_def)
  moreover have "rec_validate owner r = Ok ()" using assms(2) by (simp add: rec_validate_Ok)
  ultimately show ?thesis by (cases r) (simp add: effect_from_def w(3) Let_def)
qed

lemma try_map_back:
  assumes "try_map f xs = Ok ys" "\<And>x y. x \<in> set xs \<Longrightarrow> f x = Ok y \<Longrightarrow> g y = Ok x"
  shows "try_map g ys = Ok xs"
  using assms by (auto simp: try_map_Ok list_all2_conv_all_nth)

lemma read_written_change:
  assumes c: "faithful_codec c" and ok: "change_ok cell ch" and w: "wire_change_of c ch = Ok w"
  shows "change_from c cell w = Ok ch \<and> wc_plugin w = chg_plugin ch"
proof (cases "chg_replacement ch")
  case None
  with w show ?thesis by (auto simp: wire_change_of_def change_from_def)
next
  case (Some r)
  from w obtain src effects where *: "write_source c (rp_source r) = Ok src"
    "try_map (wire_effect_of c) (rp_effects r) = Ok effects"
    "w = \<lparr>wc_plugin = chg_plugin ch,
          wc_replacement = Some \<lparr>wr_mock = rp_mock r, wr_source = src, wr_effects = effects\<rparr>\<rparr>"
    by (auto simp: wire_change_of_def Some and_then_eq_Inr)
  from ok Some have good: "source_ok (chg_plugin ch) (rp_source r)"
    "\<forall>e \<in> set (rp_effects r). recorded_ok (CellOwner cell (chg_plugin ch)) e"
    by (auto simp: change_ok_def list_all_iff)
  have "try_map (effect_from c (CellOwner cell (chg_plugin ch))) effects = Ok (rp_effects r)"
    using *(2) good(2) by (blast intro: try_map_back read_written_effect [OF c])
  with read_written_source [OF c good(1) *(1)] show ?thesis
    using Some by (simp add: change_from_def *(3))
qed

lemma read_written_event:
  assumes c: "faithful_codec c" and w: "wire_event_of c ev = Ok w"
    and ok: "case ev of JPrepare p \<Rightarrow> prepare_ok cell p | _ \<Rightarrow> True"
  shows "event_from c cell w = Ok ev"
proof (cases ev)
  case (JPrepare p)
  from w obtain chs where chs: "try_map (wire_change_of c) (pre_changes p) = Ok chs" and w': "w = WPrepare
      \<lparr>wp_changes = chs,
        wp_force = map_option (\<lambda>f. \<lparr>wf_operator = fa_operator f, wf_reason = fa_reason f\<rparr>) (pre_force p)\<rparr>"
    by (auto simp: wire_event_of_def JPrepare and_then_eq_Inr)
  from ok JPrepare have p: "prepare_ok cell p" by simp
  then have each: "\<forall>ch \<in> set (pre_changes p). change_ok cell ch" by (simp add: prepare_ok_def list_all_iff)
  have again: "try_map (change_from c cell) chs = Ok (pre_changes p)"
    using chs each by (blast intro: try_map_back dest: read_written_change [OF c])
  then have "map wc_plugin chs = map chg_plugin (pre_changes p)"
    by (metis changes_from_ok try_map_Ok)
  moreover have "chs \<noteq> []" using again p by (auto simp: prepare_ok_def)
  ultimately show ?thesis
    using p again
    by (cases "pre_force p")
      (auto simp: JPrepare event_from_def w' prepare_from_def first_repeat_None [THEN iffD2] prepare_ok_def
        force_ok_def trim_empty)
qed (use w in \<open>auto simp: wire_event_of_def event_from_def\<close>)

lemma record_reads_back:
  assumes "faithful_codec c" "record_ok cell r" "encode_record c r = Ok bytes"
  shows "\<exists>line. bytes = line @ [10] \<and> parse_record c cell line = Ok r"
proof -
  from assms(3) obtain ev line where ev: "wire_event_of c (jr_event r) = Ok ev" and
    line: "write_record c \<lparr>wire_format = CELL_JOURNAL_FORMAT, wire_generation = jr_generation r,
      wire_event = ev\<rparr> = Ok line" and bytes: "bytes = line @ [10]"
    by (auto simp: encode_record_def and_then_eq_Inr)
  from assms(1) have "\<forall>w bytes. write_record c w = Ok bytes \<longrightarrow>
      (\<exists>t shown. from_utf8 0 bytes = Ok t \<and> read_record c t = Ok w \<and>
         read_probe c t = Some (Some (shown, Some (wire_format w))))"
    unfolding faithful_codec_def by (rule conjunct1)
  from this [rule_format, OF line] obtain t shown where "from_utf8 0 line = Ok t"
    "read_record c t = Ok \<lparr>wire_format = CELL_JOURNAL_FORMAT, wire_generation = jr_generation r, wire_event = ev\<rparr>"
    "read_probe c t = Some (Some (shown, Some CELL_JOURNAL_FORMAT))"
    by auto
  moreover have "event_from c cell ev = Ok (jr_event r)"
    using assms(1,2) ev by (intro read_written_event) (auto simp: record_ok_def)
  ultimately show ?thesis
    using assms(2) by (intro exI [of _ line]) (simp add: bytes parse_record_def parse_wire_def record_ok_def)
qed

section \<open>A small codec\<close>

text \<open>One record, with the bytes, texts and values that carry it.\<close>

definition demo_effect :: effect where
  "demo_effect = effect_exact ''mount'' (ViaBackend (Handle ClsMount 7))"

definition demo_record :: journal_record where
  "demo_record =
     \<lparr>jr_generation = 1,
      jr_event = JPrepare
        \<lparr>pre_changes = [\<lparr>chg_plugin = ''mail'', chg_replacement = Some
            \<lparr>rp_mock = Simulate, rp_source = LocalSource,
             rp_effects = [\<lparr>rec_effect = demo_effect, rec_operation = None\<rparr>]\<rparr>\<rparr>],
         pre_force = Some \<lparr>fa_operator = [111], fa_reason = [32, 114]\<rparr>\<rparr>\<rparr>"

definition demo_wire :: wire_record where
  "demo_wire =
     \<lparr>wire_format = 1, wire_generation = 1,
      wire_event = WPrepare
        \<lparr>wp_changes = [\<lparr>wc_plugin = ''mail'', wc_replacement = Some
            \<lparr>wr_mock = Simulate, wr_source = [3],
             wr_effects = [\<lparr>we_effect = [1], we_operation = [2]\<rparr>]\<rparr>\<rparr>],
         wp_force = Some \<lparr>wf_operator = [111], wf_reason = [32, 114]\<rparr>\<rparr>\<rparr>"

definition demo_commit_wire :: wire_record where
  "demo_commit_wire = \<lparr>wire_format = 1, wire_generation = 1, wire_event = WCommit\<rparr>"

definition demo_entries :: "(string \<times> raw) list" where
  "demo_entries = [(''kind'', ascii ''local'')]"

definition demo_codec :: journal_codec where
  "demo_codec =
     \<lparr>read_probe = (\<lambda>t. if t = [123, 125] \<or> t = [91, 93] then Some (Some ([49], Some 1)) else None),
      read_record = (\<lambda>t. if t = [123, 125] then Ok demo_wire else
        if t = [91, 93] then Ok demo_commit_wire else Err ''record''),
      read_entries = (\<lambda>r. if r = [3] then Ok demo_entries else Err ''entries''),
      read_text = (\<lambda>r. Ok (map char_of r)),
      read_ref = (\<lambda>_. Err ''ref''),
      read_effect = (\<lambda>r. if r = [1] then Ok (demo_effect) else Err ''effect''),
      read_operation = (\<lambda>r. if r = [2] then Ok None else Err ''operation''),
      parse_uuid = (\<lambda>s. Some (of_nat (length s))),
      write_record = (\<lambda>w. if w = demo_wire then Ok [123, 125] else
        if w = demo_commit_wire then Ok [91, 93] else Err ''record''),
      write_entries = (\<lambda>es. if es = demo_entries then Ok [3] else Err ''entries''),
      write_text = (\<lambda>s. Ok (ascii s)),
      write_ref = (\<lambda>_. Err ''ref''),
      write_effect = (\<lambda>e. if e = demo_effect then Ok [1] else Err ''effect''),
      write_operation = (\<lambda>p. if p = None then Ok [2] else Err ''operation''),
      hyphenated_uuid = (\<lambda>u. replicate (unat u) CHR ''a'')\<rparr>"

lemma demo_utf8: "from_utf8 0 [123, 125] = Ok [123, 125]" "from_utf8 0 [91, 93] = Ok [91, 93]"
  by (simp_all add: from_utf8.simps)

lemma demo_codec_faithful: "faithful_codec demo_codec"
  by (auto simp: faithful_codec_def demo_codec_def demo_utf8 demo_wire_def demo_commit_wire_def comp_def)

lemma demo_record_ok: "record_ok ''c'' demo_record"
  by (simp add: record_ok_def demo_record_def prepare_ok_def change_ok_def source_ok_def recorded_ok_def
      universe_inverse_def demo_effect_def effect_exact_def force_ok_def is_whitespace_def)

lemma demo_encode: "encode_record demo_codec demo_record = Ok ([123, 125] @ [10])"
  by (simp add: encode_record_def demo_record_def wire_event_of_def wire_change_of_def wire_effect_of_def
      write_source_def source_entries_def demo_codec_def demo_entries_def demo_wire_def CELL_JOURNAL_FORMAT_def)

lemma demo_reads:
  "read_probe demo_codec [123, 125] = Some (Some ([49], Some 1))" "read_record demo_codec [123, 125] = Ok demo_wire"
  "read_probe demo_codec [91, 93] = Some (Some ([49], Some 1))" "read_record demo_codec [91, 93] = Ok demo_commit_wire"
  by (simp_all add: demo_codec_def)

lemma demo_parse: "parse_record demo_codec ''c'' [123, 125] = Ok demo_record"
proof -
  have "wire_event_of demo_codec (jr_event demo_record) = Ok (wire_event demo_wire)"
    by (simp add: demo_record_def wire_event_of_def wire_change_of_def wire_effect_of_def
        write_source_def source_entries_def demo_codec_def demo_entries_def demo_wire_def)
  then have "event_from demo_codec ''c'' (wire_event demo_wire) = Ok (jr_event demo_record)"
    using demo_record_ok by (intro read_written_event [OF demo_codec_faithful]) (auto simp: record_ok_def)
  then have "parse_wire demo_codec ''c'' (Ok demo_wire) = Ok demo_record"
    by (simp add: parse_wire_def) (simp add: demo_record_def demo_wire_def)
  then show ?thesis
    by (simp add: parse_record_def demo_utf8 CELL_JOURNAL_FORMAT_def demo_reads)
qed

lemma demo_parse_commit: "parse_record demo_codec ''c'' [91, 93] = Ok \<lparr>jr_generation = 1, jr_event = JCommit\<rparr>"
  by (simp add: parse_record_def demo_utf8 CELL_JOURNAL_FORMAT_def parse_wire_def demo_reads
      demo_commit_wire_def event_from_def)

section \<open>Properties\<close>

text \<open>
  C29. A line is only ever read as a record that keeps spec 008's rules for its cell: a generation above
  zero; a prepare that changes at least one plugin and each at most once, under a Force that names an
  operator and a reason; sources whose references are checked and whose member is the plasmid of the
  changed plugin; and effects whose operation creates exactly what their inverse removes, for this cell
  and this plugin.
\<close>

theorem parsed_records_are_valid:
  assumes "parse_record c cell line = Ok r"
  shows "record_ok cell r"
  using assms by (rule parse_record_ok)

theorem parsed_records_are_valid_witness: "record_ok ''c'' demo_record"
  by (rule parsed_records_are_valid [OF demo_parse])

end
