(* ===== verification/Cell_History.thy ===== *)
theory Cell_History
  imports Cell_Journal BTree_Map
begin

text \<open>
  \<open>crates/plasmosome-ledger/src/cell_journal/{history,read}.rs\<close>: what a cell's journal says happened.
  The history admits one validated record at a time, keeps the attachments that were committed and
  remembers every address any prepare ever introduced; the reader replays a whole journal into it and
  stops at the first fault. An \<open>expect\<close> of the code is \<open>None\<close> here, and is proved not to occur.
\<close>

section \<open>State\<close>

datatype decision = DecCommit | DecAbort

record open_transaction =
  ot_generation :: u64
  ot_prepare :: prepare
  ot_decision :: "decision option"

record attachment =
  at_generation :: u64
  at_replacement :: replacement

datatype id_state = Standing | Introduced | Retired

record identity =
  idn_plugin :: plugin_id
  idn_effect :: recorded_effect
  idn_state :: id_state

record cell_history =
  ch_cell :: cell_id
  ch_last :: u64
  ch_open :: "open_transaction option"
  ch_committed :: "(plugin_id, attachment) btree_map"
  ch_identities :: "(handle, identity) btree_map"

definition history_new :: "cell_id \<Rightarrow> cell_history" where
  "history_new cell =
     \<lparr>ch_cell = cell, ch_last = 0, ch_open = None, ch_committed = bt_empty, ch_identities = bt_empty\<rparr>"

definition next_generation :: "cell_history \<Rightarrow> u64 option" where
  "next_generation h = checked_add (ch_last h) 1"

definition history_addresses :: "cell_history \<Rightarrow> (handle \<times> plugin_id) list" where
  "history_addresses h = map (\<lambda>(address, i). (address, idn_plugin i)) (entries (ch_identities h))"

section \<open>Checking a record\<close>

definition order_refusal :: "cell_history \<Rightarrow> journal_record \<Rightarrow> (journal_kind \<times> string) option" where
  "order_refusal h r =
     (if jr_generation r = 0 then Some (JnlGenerationZero, ''generation zero'')
      else case (ch_open h, jr_event r) of
        (None, JPrepare _) \<Rightarrow>
          if next_generation h \<noteq> Some (jr_generation r)
          then Some (JnlGenerationOrder, ''prepare is not the next generation'') else None
      | (None, _) \<Rightarrow> Some (JnlEventOrder, ''terminal event without prepare'')
      | (Some _, JPrepare _) \<Rightarrow> Some (JnlEventOrder, ''prepare before finish'')
      | (Some ot, ev) \<Rightarrow>
          if ot_generation ot \<noteq> jr_generation r
          then Some (JnlGenerationOrder, ''terminal event has another generation'')
          else if ev = JFinish \<and> ot_decision ot = None
          then Some (JnlEventOrder, ''finish without a decision'')
          else if (ev = JCommit \<or> ev = JAbort) \<and> ot_decision ot \<noteq> None
          then Some (JnlEventOrder, ''decision already recorded'') else None)"

definition invalid_effect :: "string \<Rightarrow> rule_error" where
  "invalid_effect detail = RuleError JnlInvalidEffect (DetText detail)"

text \<open>One effect of a change, with the addresses seen before it in the prepare.\<close>

definition check_recorded ::
  "cell_history \<Rightarrow> plugin_id \<Rightarrow> handle btree_set \<Rightarrow> recorded_effect \<Rightarrow> rule_error + handle btree_set" where
  "check_recorded h plugin seen e =
     (case rec_address e of
        None \<Rightarrow> Ok seen
      | Some address \<Rightarrow>
          if bs_contains seen address then Err (invalid_effect ''address repeated in prepare'')
          else case bt_get (ch_identities h) address of
              None \<Rightarrow> Ok (bs_insert address seen)
            | Some i \<Rightarrow>
                if idn_effect i \<noteq> e then Err (invalid_effect ''address has a changed payload'')
                else if idn_plugin i \<noteq> plugin \<or> idn_state i \<noteq> Standing
                then Err (invalid_effect ''address is retired or belongs to another holding'')
                else Ok (bs_insert address seen))"

fun check_effects ::
  "cell_history \<Rightarrow> plugin_id \<Rightarrow> handle btree_set \<Rightarrow> recorded_effect list \<Rightarrow> rule_error + handle btree_set" where
  "check_effects h plugin seen [] = Ok seen"
| "check_effects h plugin seen (e # es) =
     and_then (check_recorded h plugin seen e) (\<lambda>seen'. check_effects h plugin seen' es)"

fun check_changes :: "cell_history \<Rightarrow> handle btree_set \<Rightarrow> change list \<Rightarrow> rule_error + unit" where
  "check_changes h seen [] = Ok ()"
| "check_changes h seen (c # cs) =
     (case chg_replacement c of
        None \<Rightarrow>
          if \<not> bt_contains_key (ch_committed h) (chg_plugin c)
          then Err (invalid_effect ''removal without a committed attachment'')
          else check_changes h seen cs
      | Some r \<Rightarrow>
          and_then (check_effects h (chg_plugin c) seen (rp_effects r)) (\<lambda>seen'. check_changes h seen' cs))"

definition check_identities :: "cell_history \<Rightarrow> prepare \<Rightarrow> rule_error + unit" where
  "check_identities h p = check_changes h bt_empty (pre_changes p)"

definition history_check :: "cell_history \<Rightarrow> journal_record \<Rightarrow> rule_error + unit" where
  "history_check h r =
     (case order_refusal h r of
        Some (kind, detail) \<Rightarrow> Err (RuleError kind (DetText detail))
      | None \<Rightarrow> (case jr_event r of JPrepare p \<Rightarrow> check_identities h p | _ \<Rightarrow> Ok ()))"

section \<open>Applying a record\<close>

type_synonym identities = "(handle, identity) btree_map"

definition change_effects :: "change \<Rightarrow> recorded_effect list" where
  "change_effects c = (case chg_replacement c of None \<Rightarrow> [] | Some r \<Rightarrow> rp_effects r)"

definition addresses_of :: "recorded_effect list \<Rightarrow> handle list" where
  "addresses_of es = List.map_filter rec_address es"

definition introduce :: "plugin_id \<Rightarrow> recorded_effect \<Rightarrow> identities \<Rightarrow> identities" where
  "introduce plugin e ids =
     (case rec_address e of
        None \<Rightarrow> ids
      | Some address \<Rightarrow>
          (case bt_get ids address of
             Some _ \<Rightarrow> ids
           | None \<Rightarrow> bt_insert address \<lparr>idn_plugin = plugin, idn_effect = e, idn_state = Introduced\<rparr> ids))"

definition introduce_change :: "change \<Rightarrow> identities \<Rightarrow> identities" where
  "introduce_change c ids = fold (introduce (chg_plugin c)) (change_effects c) ids"

definition set_state :: "id_state \<Rightarrow> handle \<Rightarrow> identities \<Rightarrow> identities option" where
  "set_state st address ids =
     (case bt_get ids address of
        None \<Rightarrow> None
      | Some i \<Rightarrow> Some (bt_insert address (i\<lparr>idn_state := st\<rparr>) ids))"

fun set_states :: "id_state \<Rightarrow> handle list \<Rightarrow> identities \<Rightarrow> identities option" where
  "set_states st [] ids = Some ids"
| "set_states st (a # as) ids = Option.bind (set_state st a ids) (set_states st as)"

definition commit_change ::
  "u64 \<Rightarrow> change \<Rightarrow> (plugin_id, attachment) btree_map \<times> identities \<Rightarrow>
   ((plugin_id, attachment) btree_map \<times> identities) option" where
  "commit_change generation c s =
     (case s of (committed, ids) \<Rightarrow>
        let retained = bs_of_list (addresses_of (change_effects c));
            old = (case bt_get committed (chg_plugin c) of
                     None \<Rightarrow> []
                   | Some a \<Rightarrow> addresses_of (rp_effects (at_replacement a)))
        in Option.bind (set_states Retired (filter (\<lambda>a. \<not> bs_contains retained a) old) ids) (\<lambda>ids'.
           Option.bind (set_states Standing (bt_keys retained) ids') (\<lambda>ids''.
           Some (case chg_replacement c of
                   Some r \<Rightarrow>
                     bt_insert (chg_plugin c) \<lparr>at_generation = generation, at_replacement = r\<rparr> committed
                 | None \<Rightarrow> bt_remove (chg_plugin c) committed, ids''))))"

fun commit_changes ::
  "u64 \<Rightarrow> change list \<Rightarrow> (plugin_id, attachment) btree_map \<times> identities \<Rightarrow>
   ((plugin_id, attachment) btree_map \<times> identities) option" where
  "commit_changes generation [] s = Some s"
| "commit_changes generation (c # cs) s =
     Option.bind (commit_change generation c s) (commit_changes generation cs)"

text \<open>\<open>values_mut\<close> over the identities, which changes no key.\<close>

lift_definition bt_map_values :: "('v \<Rightarrow> 'w) \<Rightarrow> ('k::linorder, 'v) btree_map \<Rightarrow> ('k, 'w) btree_map"
  is "\<lambda>f. map (\<lambda>(k, v). (k, f v))"
  by (simp add: comp_def case_prod_beta)

definition retire_introduced :: "identity \<Rightarrow> identity" where
  "retire_introduced i = (if idn_state i = Introduced then i\<lparr>idn_state := Retired\<rparr> else i)"

definition history_apply :: "journal_record \<Rightarrow> cell_history \<Rightarrow> cell_history option" where
  "history_apply r h =
     (case jr_event r of
        JPrepare p \<Rightarrow>
          Some (h\<lparr>ch_last := jr_generation r,
                 ch_identities := fold introduce_change (pre_changes p) (ch_identities h),
                 ch_open := Some \<lparr>ot_generation = jr_generation r, ot_prepare = p, ot_decision = None\<rparr>\<rparr>)
      | JCommit \<Rightarrow>
          Option.bind (ch_open h) (\<lambda>ot.
          Option.bind (commit_changes (jr_generation r) (pre_changes (ot_prepare ot))
                         (ch_committed h, ch_identities h)) (\<lambda>(committed, ids).
          Some (h\<lparr>ch_committed := committed, ch_identities := ids,
                 ch_open := Some (ot\<lparr>ot_decision := Some DecCommit\<rparr>)\<rparr>)))
      | JAbort \<Rightarrow>
          Option.bind (ch_open h) (\<lambda>ot.
          Some (h\<lparr>ch_identities := bt_map_values retire_introduced (ch_identities h),
                 ch_open := Some (ot\<lparr>ot_decision := Some DecAbort\<rparr>)\<rparr>))
      | JFinish \<Rightarrow> Some (h\<lparr>ch_open := None\<rparr>))"

text \<open>\<open>None\<close> is a panic; the history is the caller's, so a refusal leaves it as it was.\<close>

definition history_admit :: "cell_history \<Rightarrow> journal_record \<Rightarrow> (rule_error + cell_history) option" where
  "history_admit h r =
     (case history_check h r of
        Inl e \<Rightarrow> Some (Err e)
      | Inr _ \<Rightarrow> map_option Ok (history_apply r h))"

section \<open>Reading a journal\<close>

text \<open>
  A reader is the bytes it yields up to its end, or up to the error that ends it. \<open>read_until\<close> gives
  the bytes through the next line feed, the rest of the input, or that error.
\<close>

datatype reader = Reader (rd_bytes: "nat list") (rd_error: "string option")

definition read_line_bytes :: "reader \<Rightarrow> string + nat list \<times> reader" where
  "read_line_bytes rd =
     (if 10 \<in> set (rd_bytes rd) then
        (let n = length (takeWhile (\<lambda>b. b \<noteq> 10) (rd_bytes rd)) + 1
         in Ok (take n (rd_bytes rd), Reader (drop n (rd_bytes rd)) (rd_error rd)))
      else case rd_error rd of
          Some e \<Rightarrow> Err e
        | None \<Rightarrow> Ok (rd_bytes rd, Reader [] None))"

lemma read_line_shorter:
  "read_line_bytes rd = Ok (bytes, rd') \<Longrightarrow> bytes \<noteq> [] \<Longrightarrow> length (rd_bytes rd') < length (rd_bytes rd)"
  by (auto simp: read_line_bytes_def Let_def split: if_splits option.splits)

text \<open>
  The loop of \<open>read_records\<close>, with the callback's state \<open>s\<close>. \<open>None\<close> is a panic of the callback. Line
  numbers count the lines read, which no input makes as many as \<open>2 ^ 64\<close>.
\<close>

function read_records_from ::
  "(nat list \<Rightarrow> rule_error + journal_record) \<Rightarrow> ('s \<Rightarrow> journal_record \<Rightarrow> (rule_error + 's) option) \<Rightarrow>
   string \<Rightarrow> reader \<Rightarrow> nat \<Rightarrow> journal_record list \<Rightarrow> 's \<Rightarrow>
   (cell_journal_fault + journal_record list \<times> 's) option" where
  "read_records_from parse admit path rd line records s =
     (let line' = line + 1; fault = JournalFault path (Some line') (length records) in
      case read_line_bytes rd of
        Inl e \<Rightarrow> Some (Err (fault JnlIo (DetText e)))
      | Inr (bytes, rd') \<Rightarrow>
          if bytes = [] then Some (Ok (records, s))
          else if last bytes \<noteq> 10
          then Some (Err (fault JnlUnparseable (DetText ''the last record has no final LF'')))
          else case parse (butlast bytes) of
              Inl e \<Rightarrow> Some (Err (fault (re_kind e) (re_detail e)))
            | Inr r \<Rightarrow>
                (case admit s r of
                   None \<Rightarrow> None
                 | Some (Inl e) \<Rightarrow> Some (Err (fault (re_kind e) (re_detail e)))
                 | Some (Inr s') \<Rightarrow> read_records_from parse admit path rd' line' (records @ [r]) s'))"
  by pat_completeness auto

termination
  by (relation "measure (\<lambda>(_, _, _, rd, _, _, _). length (rd_bytes rd))") (auto dest: read_line_shorter)

declare read_records_from.simps [simp del]

definition read_cell_history ::
  "journal_codec \<Rightarrow> cell_id \<Rightarrow> string \<Rightarrow> reader \<Rightarrow>
   (cell_journal_fault + journal_record list \<times> cell_history) option" where
  "read_cell_history c cell path rd =
     read_records_from (parse_record c cell) history_admit path rd 0 [] (history_new cell)"

definition read_cell_journal_from ::
  "journal_codec \<Rightarrow> cell_id \<Rightarrow> string \<Rightarrow> reader \<Rightarrow> (cell_journal_fault + journal_record list) option" where
  "read_cell_journal_from c cell path rd =
     map_option (map_sum id fst) (read_cell_history c cell path rd)"

section \<open>Identities\<close>

lemma bt_get_map_values [simp]: "bt_get (bt_map_values f m) k = map_option f (bt_get m k)"
  by transfer (induct_tac m, auto)

lemma set_states_known:
  "(\<And>x. x \<in> set as \<Longrightarrow> bt_get ids x \<noteq> None) \<Longrightarrow>
   \<exists>ids'. set_states st as ids = Some ids' \<and>
     (\<forall>x. bt_get ids' x = (if x \<in> set as then map_option (idn_state_update (\<lambda>_. st)) (bt_get ids x) else bt_get ids x))"
proof (induction as arbitrary: ids)
  case (Cons a as)
  then obtain i where i: "bt_get ids a = Some i" by force
  define ids1 where "ids1 = bt_insert a (i\<lparr>idn_state := st\<rparr>) ids"
  have "\<And>x. x \<in> set as \<Longrightarrow> bt_get ids1 x \<noteq> None" using Cons.prems by (auto simp: ids1_def)
  from Cons.IH [OF this] obtain ids' where "set_states st as ids1 = Some ids'"
    "\<forall>x. bt_get ids' x = (if x \<in> set as then map_option (idn_state_update (\<lambda>_. st)) (bt_get ids1 x) else bt_get ids1 x)"
    by blast
  then show ?case by (intro exI [of _ ids']) (auto simp: set_state_def i ids1_def)
qed simp

lemma addresses_of_iff: "x \<in> set (addresses_of es) \<longleftrightarrow> (\<exists>e \<in> set es. rec_address e = Some x)"
  by (induction es) (auto simp: addresses_of_def List.map_filter_def)

text \<open>
  What every operation keeps of the identities: an address once recorded keeps its plugin and its effect
  for good, and once retired stays retired.
\<close>

definition only_forward :: "identities \<Rightarrow> identities \<Rightarrow> bool" where
  "only_forward ids ids' \<longleftrightarrow>
     (\<forall>x i. bt_get ids x = Some i \<longrightarrow>
        (\<exists>i'. bt_get ids' x = Some i' \<and> idn_plugin i' = idn_plugin i \<and> idn_effect i' = idn_effect i \<and>
          (idn_state i = Retired \<longrightarrow> idn_state i' = Retired)))"

lemma only_forward_refl [simp]: "only_forward ids ids"
  by (simp add: only_forward_def)

lemma only_forwardD:
  "only_forward a b \<Longrightarrow> bt_get a x = Some i \<Longrightarrow>
   \<exists>j. bt_get b x = Some j \<and> idn_plugin j = idn_plugin i \<and> idn_effect j = idn_effect i \<and>
     (idn_state i = Retired \<longrightarrow> idn_state j = Retired)"
  by (simp add: only_forward_def)

lemma only_forward_trans:
  assumes "only_forward a b" "only_forward b c"
  shows "only_forward a c"
  unfolding only_forward_def
proof (intro allI impI)
  fix x i
  assume "bt_get a x = Some i"
  from only_forwardD [OF assms(1) this] obtain j where j: "bt_get b x = Some j" "idn_plugin j = idn_plugin i"
    "idn_effect j = idn_effect i" "idn_state i = Retired \<longrightarrow> idn_state j = Retired" by blast
  from only_forwardD [OF assms(2) j(1)] j(2-4)
  show "\<exists>k. bt_get c x = Some k \<and> idn_plugin k = idn_plugin i \<and> idn_effect k = idn_effect i \<and>
      (idn_state i = Retired \<longrightarrow> idn_state k = Retired)" by auto
qed

section \<open>The invariant\<close>

text \<open>The effects of an attachment all hold their address for its plugin.\<close>

definition holds_all :: "identities \<Rightarrow> id_state set \<Rightarrow> plugin_id \<Rightarrow> recorded_effect list \<Rightarrow> bool" where
  "holds_all ids states plugin es \<longleftrightarrow>
     (\<forall>e \<in> set es. \<forall>x. rec_address e = Some x \<longrightarrow>
        (\<exists>i. bt_get ids x = Some i \<and> idn_plugin i = plugin \<and> idn_effect i = e \<and> idn_state i \<in> states))"

definition attached_effects :: "(plugin_id, attachment) btree_map \<Rightarrow> plugin_id \<Rightarrow> recorded_effect list" where
  "attached_effects committed plugin =
     (case bt_get committed plugin of None \<Rightarrow> [] | Some a \<Rightarrow> rp_effects (at_replacement a))"

definition settled :: "(plugin_id, attachment) btree_map \<Rightarrow> identities \<Rightarrow> bool" where
  "settled committed ids \<longleftrightarrow>
     (\<forall>plugin. holds_all ids {Standing} plugin (attached_effects committed plugin)) \<and>
     (\<forall>x i. bt_get ids x = Some i \<longrightarrow> rec_address (idn_effect i) = Some x \<and>
        (idn_state i = Standing \<longrightarrow> idn_effect i \<in> set (attached_effects committed (idn_plugin i))))"

text \<open>
  The changes still to be decided on: each holds its addresses, and whatever was introduced belongs to
  one of them.
\<close>

definition pending :: "change list \<Rightarrow> identities \<Rightarrow> bool" where
  "pending cs ids \<longleftrightarrow>
     distinct (map chg_plugin cs) \<and>
     (\<forall>c \<in> set cs. holds_all ids {Standing, Introduced} (chg_plugin c) (change_effects c)) \<and>
     (\<forall>x i. bt_get ids x = Some i \<longrightarrow> idn_state i = Introduced \<longrightarrow>
        (\<exists>c \<in> set cs. chg_plugin c = idn_plugin i \<and> idn_effect i \<in> set (change_effects c)))"

definition history_ok :: "cell_history \<Rightarrow> bool" where
  "history_ok h \<longleftrightarrow>
     settled (ch_committed h) (ch_identities h) \<and>
     (case ch_open h of
        None \<Rightarrow> pending [] (ch_identities h)
      | Some ot \<Rightarrow> ot_generation ot = ch_last h \<and>
          (if ot_decision ot = None then pending (pre_changes (ot_prepare ot)) (ch_identities h)
           else pending [] (ch_identities h)))"

lemma pending_Nil: "pending [] ids \<longleftrightarrow> (\<forall>x i. bt_get ids x = Some i \<longrightarrow> idn_state i \<noteq> Introduced)"
  by (auto simp: pending_def)

lemma holds_allD:
  "holds_all ids states plugin es \<Longrightarrow> e \<in> set es \<Longrightarrow> rec_address e = Some x \<Longrightarrow>
   \<exists>i. bt_get ids x = Some i \<and> idn_plugin i = plugin \<and> idn_effect i = e \<and> idn_state i \<in> states"
  by (simp add: holds_all_def)

lemma holds_all_address:
  "holds_all ids states plugin es \<Longrightarrow> x \<in> set (addresses_of es) \<Longrightarrow>
   \<exists>i. bt_get ids x = Some i \<and> idn_plugin i = plugin \<and> idn_effect i \<in> set es \<and> idn_state i \<in> states"
  unfolding addresses_of_iff using holds_allD by blast

lemma settledD: "settled committed ids \<Longrightarrow> holds_all ids {Standing} plugin (attached_effects committed plugin)"
  by (simp add: settled_def)

lemma settled_identity:
  "settled committed ids \<Longrightarrow> bt_get ids x = Some i \<Longrightarrow> rec_address (idn_effect i) = Some x \<and>
   (idn_state i = Standing \<longrightarrow> idn_effect i \<in> set (attached_effects committed (idn_plugin i)))"
  by (simp add: settled_def)

lemma pendingD:
  "pending cs ids \<Longrightarrow> c \<in> set cs \<Longrightarrow>
   holds_all ids {Standing, Introduced} (chg_plugin c) (change_effects c)"
  by (simp add: pending_def)

lemma pending_introduced:
  "pending cs ids \<Longrightarrow> bt_get ids x = Some i \<Longrightarrow> idn_state i = Introduced \<Longrightarrow>
   \<exists>c \<in> set cs. chg_plugin c = idn_plugin i \<and> idn_effect i \<in> set (change_effects c)"
  by (simp add: pending_def)

text \<open>What a committed change makes of the attachments and of the identities.\<close>

definition replaced ::
  "u64 \<Rightarrow> change \<Rightarrow> (plugin_id \<Rightarrow> attachment option) \<Rightarrow> (plugin_id \<Rightarrow> attachment option)" where
  "replaced generation c m =
     m(chg_plugin c := map_option (\<lambda>r. \<lparr>at_generation = generation, at_replacement = r\<rparr>) (chg_replacement c))"

lemma commit_change_result:
  assumes "settled committed ids" "pending (c # cs) ids"
  shows "\<exists>committed' ids'.
    commit_change generation c (committed, ids) = Some (committed', ids') \<and>
    bt_get committed' = replaced generation c (bt_get committed) \<and>
    (\<forall>x. bt_get ids' x =
       (if x \<in> set (addresses_of (change_effects c)) then map_option (idn_state_update (\<lambda>_. Standing)) (bt_get ids x)
        else if x \<in> set (addresses_of (attached_effects committed (chg_plugin c)))
        then map_option (idn_state_update (\<lambda>_. Retired)) (bt_get ids x) else bt_get ids x))"
proof -
  let ?R = "addresses_of (change_effects c)"
  let ?O = "addresses_of (attached_effects committed (chg_plugin c))"
  let ?as = "filter (\<lambda>a. \<not> bs_contains (bs_of_list ?R) a) ?O"
  have old: "(case bt_get committed (chg_plugin c) of None \<Rightarrow> []
      | Some a \<Rightarrow> addresses_of (rp_effects (at_replacement a))) = ?O"
    by (simp add: attached_effects_def addresses_of_def List.map_filter_def split: option.split)
  have "\<And>x. x \<in> set ?as \<Longrightarrow> bt_get ids x \<noteq> None"
    using holds_all_address [OF settledD [OF assms(1)]] by fastforce
  from set_states_known [OF this, where st = Retired] obtain ids1 where 1: "set_states Retired ?as ids = Some ids1"
    "\<And>x. bt_get ids1 x = (if x \<in> set ?as then map_option (idn_state_update (\<lambda>_. Retired)) (bt_get ids x)
      else bt_get ids x)" by blast
  have keys: "set (bt_keys (bs_of_list ?R)) = set ?R" by (simp add: set_bt_keys_bs)
  have "\<And>x. x \<in> set ?R \<Longrightarrow> bt_get ids x \<noteq> None"
    using holds_all_address [OF pendingD [OF assms(2)], of c] by fastforce
  then have known: "\<And>x. x \<in> set (bt_keys (bs_of_list ?R)) \<Longrightarrow> bt_get ids1 x \<noteq> None"
    by (simp add: keys 1(2))
  from set_states_known [of "bt_keys (bs_of_list ?R)" ids1 Standing, OF known] obtain ids2 where
    2: "set_states Standing (bt_keys (bs_of_list ?R)) ids1 = Some ids2"
    "\<And>x. bt_get ids2 x = (if x \<in> set ?R then map_option (idn_state_update (\<lambda>_. Standing)) (bt_get ids1 x)
      else bt_get ids1 x)" unfolding keys by blast
  let ?committed = "case chg_replacement c of
      Some r \<Rightarrow> bt_insert (chg_plugin c) \<lparr>at_generation = generation, at_replacement = r\<rparr> committed
    | None \<Rightarrow> bt_remove (chg_plugin c) committed"
  show ?thesis
  proof (intro exI conjI allI)
    show "commit_change generation c (committed, ids) = Some (?committed, ids2)"
      using 1(1) 2(1) by (simp add: commit_change_def old Let_def)
    show "bt_get ?committed = replaced generation c (bt_get committed)"
      by (auto simp: replaced_def fun_eq_iff split: option.split)
    show "bt_get ids2 x =
       (if x \<in> set ?R then map_option (idn_state_update (\<lambda>_. Standing)) (bt_get ids x)
        else if x \<in> set ?O then map_option (idn_state_update (\<lambda>_. Retired)) (bt_get ids x)
        else bt_get ids x)" for x
      by (simp add: 1(2) 2(2))
  qed
qed

lemma commit_change_keeps:
  assumes ok: "settled committed ids" "pending (c # cs) ids"
    and run: "commit_change generation c (committed, ids) = Some (committed', ids')"
  shows "settled committed' ids'" "pending cs ids'" "only_forward ids ids'"
    "bt_get committed' = replaced generation c (bt_get committed)"
proof -
  let ?p = "chg_plugin c"
  let ?R = "set (addresses_of (change_effects c))"
  let ?O = "set (addresses_of (attached_effects committed ?p))"
  obtain committed2 ids2 where two: "commit_change generation c (committed, ids) = Some (committed2, ids2)"
    "bt_get committed2 = replaced generation c (bt_get committed)"
    "\<And>x. bt_get ids2 x =
      (if x \<in> ?R then map_option (idn_state_update (\<lambda>_. Standing)) (bt_get ids x)
       else if x \<in> ?O then map_option (idn_state_update (\<lambda>_. Retired)) (bt_get ids x) else bt_get ids x)"
    using commit_change_result [OF ok, of generation] by blast
  with run have same: "committed2 = committed'" "ids2 = ids'" by simp_all
  show committed': "bt_get committed' = replaced generation c (bt_get committed)"
    using two(2) by (simp add: same)
  note ids' = two(3) [unfolded same]
  have R: "bt_get ids x = Some i \<Longrightarrow> idn_plugin i = ?p \<and> idn_effect i \<in> set (change_effects c) \<and>
      idn_state i \<noteq> Retired" if "x \<in> ?R" for x i
    using holds_all_address [OF pendingD [OF ok(2)] that] by auto
  have old: "bt_get ids x = Some i \<Longrightarrow> idn_plugin i = ?p" if "x \<in> ?O" for x i
    using holds_all_address [OF settledD [OF ok(1)] that] by auto
  have other: "bt_get ids' x = bt_get ids x" if "bt_get ids x = Some i" "idn_plugin i \<noteq> ?p" for x i
  proof -
    have "x \<notin> ?R" using R [OF _ that(1)] that(2) by blast
    moreover have "x \<notin> ?O" using old [OF _ that(1)] that(2) by blast
    ultimately show ?thesis by (simp add: ids')
  qed
  have attached: "attached_effects committed' p =
      (if p = ?p then change_effects c else attached_effects committed p)" for p
    by (simp add: attached_effects_def change_effects_def committed' replaced_def split: option.split)
  show "settled committed' ids'"
    unfolding settled_def
  proof (intro conjI allI impI)
    fix p
    show "holds_all ids' {Standing} p (attached_effects committed' p)"
    proof (cases "p = ?p")
      case True
      show ?thesis
        unfolding holds_all_def True
      proof (intro ballI allI impI)
        fix e x
        assume e: "e \<in> set (attached_effects committed' ?p)" and x: "rec_address e = Some x"
        then have e': "e \<in> set (change_effects c)" by (simp add: attached)
        from holds_allD [OF pendingD [OF ok(2)] e' x] x e'
        show "\<exists>i. bt_get ids' x = Some i \<and> idn_plugin i = ?p \<and> idn_effect i = e \<and> idn_state i \<in> {Standing}"
          by (auto simp: ids' addresses_of_iff)
      qed
    next
      case False
      then show ?thesis
        using settledD [OF ok(1), of p] other by (fastforce simp: holds_all_def attached)
    qed
  next
    fix x i
    assume i: "bt_get ids' x = Some i"
    then obtain j where j: "bt_get ids x = Some j" "idn_effect i = idn_effect j" "idn_plugin i = idn_plugin j"
      by (auto simp: ids' split: if_splits)
    then show address: "rec_address (idn_effect i) = Some x"
      using settled_identity [OF ok(1) j(1)] by simp
    assume st: "idn_state i = Standing"
    show "idn_effect i \<in> set (attached_effects committed' (idn_plugin i))"
    proof (cases "x \<in> ?R")
      case True
      with R [OF True j(1)] j show ?thesis by (simp add: attached)
    next
      case False
      with i st have same: "bt_get ids x = Some i" "x \<notin> ?O"
        by (auto simp: ids' split: if_splits)
      with settled_identity [OF ok(1) same(1)] st have
        "idn_effect i \<in> set (attached_effects committed (idn_plugin i))" by simp
      with same(2) address show ?thesis by (auto simp: attached addresses_of_iff)
    qed
  qed
  show "pending cs ids'"
    unfolding pending_def
  proof (intro conjI ballI allI impI)
    show "distinct (map chg_plugin cs)" using ok(2) by (simp add: pending_def)
    show "holds_all ids' {Standing, Introduced} (chg_plugin d) (change_effects d)" if d: "d \<in> set cs" for d
    proof -
      have "?p \<notin> chg_plugin ` set cs" using ok(2) by (simp add: pending_def)
      with d have "chg_plugin d \<noteq> ?p" by (metis imageI)
      then show ?thesis
        using pendingD [OF ok(2), of d] d other by (fastforce simp: holds_all_def)
    qed
  next
    fix x i
    assume "bt_get ids' x = Some i" and st: "idn_state i = Introduced"
    then have i: "bt_get ids x = Some i" "x \<notin> ?R" by (auto simp: ids' split: if_splits)
    from pending_introduced [OF ok(2) i(1) st] obtain d where d: "d \<in> set (c # cs)" "chg_plugin d = idn_plugin i"
      "idn_effect i \<in> set (change_effects d)" by blast
    have "d \<noteq> c" using d(3) i settled_identity [OF ok(1) i(1)] by (auto simp: addresses_of_iff)
    with d show "\<exists>d \<in> set cs. chg_plugin d = idn_plugin i \<and> idn_effect i \<in> set (change_effects d)" by auto
  qed
  show "only_forward ids ids'"
    unfolding only_forward_def
  proof (intro allI impI)
    fix x i
    assume i: "bt_get ids x = Some i"
    then show "\<exists>i'. bt_get ids' x = Some i' \<and> idn_plugin i' = idn_plugin i \<and> idn_effect i' = idn_effect i \<and>
        (idn_state i = Retired \<longrightarrow> idn_state i' = Retired)"
      using R [OF _ i] by (auto simp: ids')
  qed
qed

lemma commit_changes_keep:
  assumes "settled committed ids" "pending cs ids"
  shows "\<exists>committed' ids'. commit_changes generation cs (committed, ids) = Some (committed', ids') \<and>
    settled committed' ids' \<and> pending [] ids' \<and> only_forward ids ids' \<and>
    bt_get committed' = fold (replaced generation) cs (bt_get committed)"
  using assms
proof (induction cs arbitrary: committed ids)
  case (Cons c cs)
  obtain committed1 ids1 where run: "commit_change generation c (committed, ids) = Some (committed1, ids1)"
    using commit_change_result [OF Cons.prems, of generation] by blast
  note one = commit_change_keeps [OF Cons.prems run]
  from Cons.IH [OF one(1,2)] obtain committed' ids' where
    "commit_changes generation cs (committed1, ids1) = Some (committed', ids')"
    "settled committed' ids'" "pending [] ids'" "only_forward ids1 ids'"
    "bt_get committed' = fold (replaced generation) cs (bt_get committed1)" by blast
  then show ?case
    using only_forward_trans [OF one(3)] by (intro exI [of _ committed'] exI [of _ ids']) (simp add: run one(4))
qed simp

section \<open>A prepare introduces what it may\<close>

text \<open>The addresses a prepare names, with the plugin and the effect that claim each.\<close>

definition effect_claims :: "plugin_id \<Rightarrow> recorded_effect list \<Rightarrow> (handle \<times> plugin_id \<times> recorded_effect) list" where
  "effect_claims plugin es =
     List.map_filter (\<lambda>e. map_option (\<lambda>x. (x, plugin, e)) (rec_address e)) es"

definition claims :: "change list \<Rightarrow> (handle \<times> plugin_id \<times> recorded_effect) list" where
  "claims cs = concat (map (\<lambda>c. effect_claims (chg_plugin c) (change_effects c)) cs)"

lemma effect_claims_simps [simp]:
  "effect_claims plugin [] = []"
  "effect_claims plugin (e # es) =
     (case rec_address e of None \<Rightarrow> effect_claims plugin es | Some x \<Rightarrow> (x, plugin, e) # effect_claims plugin es)"
  by (simp_all add: effect_claims_def List.map_filter_def split: option.split)

lemma claims_simps [simp]:
  "claims [] = []"
  "claims (c # cs) = effect_claims (chg_plugin c) (change_effects c) @ claims cs"
  by (simp_all add: claims_def)

lemma set_effect_claims:
  "(x, p, e) \<in> set (effect_claims plugin es) \<longleftrightarrow> p = plugin \<and> e \<in> set es \<and> rec_address e = Some x"
  by (induction es) (auto split: option.split)

lemma set_claims:
  "(x, p, e) \<in> set (claims cs) \<longleftrightarrow>
   (\<exists>c \<in> set cs. p = chg_plugin c \<and> e \<in> set (change_effects c) \<and> rec_address e = Some x)"
  by (auto simp: claims_def set_effect_claims)

definition may_claim :: "identities \<Rightarrow> handle \<times> plugin_id \<times> recorded_effect \<Rightarrow> bool" where
  "may_claim ids k = (case k of (x, p, e) \<Rightarrow>
     bt_get ids x = None \<or> bt_get ids x = Some \<lparr>idn_plugin = p, idn_effect = e, idn_state = Standing\<rparr>)"

lemma check_recorded_claims:
  "check_recorded h plugin seen e = Ok seen' \<Longrightarrow>
   (case rec_address e of
      None \<Rightarrow> seen' = seen
    | Some x \<Rightarrow> \<not> bs_contains seen x \<and> seen' = bs_insert x seen \<and> may_claim (ch_identities h) (x, plugin, e))"
  by (auto simp: check_recorded_def may_claim_def split: option.splits if_splits)

lemma check_effects_claims:
  "check_effects h plugin seen es = Ok seen' \<Longrightarrow>
   distinct (map fst (effect_claims plugin es)) \<and>
   (\<forall>k \<in> set (effect_claims plugin es). \<not> bs_contains seen (fst k) \<and> may_claim (ch_identities h) k) \<and>
   (\<forall>x. bs_contains seen' x \<longleftrightarrow> bs_contains seen x \<or> x \<in> fst ` set (effect_claims plugin es))"
proof (induction es arbitrary: seen)
  case (Cons e es)
  then obtain seen1 where 1: "check_recorded h plugin seen e = Ok seen1"
    and 2: "check_effects h plugin seen1 es = Ok seen'" by (auto simp: and_then_eq_Inr)
  from check_recorded_claims [OF 1] Cons.IH [OF 2] show ?case
    by (cases "rec_address e") auto
qed simp

lemma check_changes_claims:
  "check_changes h seen cs = Ok u \<Longrightarrow>
   distinct (map fst (claims cs)) \<and>
   (\<forall>k \<in> set (claims cs). \<not> bs_contains seen (fst k) \<and> may_claim (ch_identities h) k)"
proof (induction cs arbitrary: seen)
  case (Cons c cs)
  show ?case
  proof (cases "chg_replacement c")
    case None
    with Cons show ?thesis by (auto simp: change_effects_def split: if_splits)
  next
    case (Some r)
    with Cons.prems obtain seen1 where 1: "check_effects h (chg_plugin c) seen (rp_effects r) = Ok seen1"
      and 2: "check_changes h seen1 cs = Ok u" by (auto simp: and_then_eq_Inr)
    let ?E = "effect_claims (chg_plugin c) (rp_effects r)"
    have E: "distinct (map fst ?E)" "\<forall>k \<in> set ?E. \<not> bs_contains seen (fst k) \<and> may_claim (ch_identities h) k"
      "\<And>x. bs_contains seen1 x \<longleftrightarrow> bs_contains seen x \<or> x \<in> fst ` set ?E"
      using check_effects_claims [OF 1] by auto
    note rest = Cons.IH [OF 2, unfolded E(3)]
    then have apart: "\<forall>k \<in> set (claims cs). fst k \<notin> fst ` set ?E" by simp
    have "fst ` set ?E \<inter> fst ` set (claims cs) = {}"
    proof (rule equals0I, elim IntE imageE [of _ _ "set (claims cs)"])
      show "x \<in> fst ` set ?E \<Longrightarrow> x = fst k \<Longrightarrow> k \<in> set (claims cs) \<Longrightarrow> False" for x k
        using apart by simp
    qed
    with E(1,2) rest show ?thesis by (simp add: change_effects_def Some ball_Un)
  qed
qed simp

text \<open>Introducing keeps what is recorded and adds the first claim of each new address.\<close>

definition with_claims :: "identities \<Rightarrow> (handle \<times> plugin_id \<times> recorded_effect) list \<Rightarrow> handle \<Rightarrow> identity option" where
  "with_claims ids ks x =
     (case bt_get ids x of
        Some i \<Rightarrow> Some i
      | None \<Rightarrow> map_option (\<lambda>(p, e). \<lparr>idn_plugin = p, idn_effect = e, idn_state = Introduced\<rparr>) (map_of ks x))"

lemma introduce_effects:
  "bt_get (fold (introduce plugin) es ids) x = with_claims ids (effect_claims plugin es) x"
  by (induction es arbitrary: ids)
    (auto simp: with_claims_def introduce_def split: option.split)

lemma introduce_changes: "bt_get (fold introduce_change cs ids) x = with_claims ids (claims cs) x"
proof (induction cs arbitrary: ids)
  case (Cons c cs)
  have "bt_get (fold introduce_change (c # cs) ids) x = with_claims (introduce_change c ids) (claims cs) x"
    by (simp add: Cons.IH)
  also have "\<dots> = with_claims ids (claims (c # cs)) x"
    by (auto simp: with_claims_def introduce_change_def introduce_effects map_add_def split: option.split)
  finally show ?case .
qed (simp add: with_claims_def split: option.split)

lemma prepare_keeps:
  assumes "settled committed ids" "pending [] ids" "check_changes h bt_empty cs = Ok u" "ch_identities h = ids"
    and "distinct (map chg_plugin cs)"
  shows "settled committed (fold introduce_change cs ids)" "pending cs (fold introduce_change cs ids)"
    "only_forward ids (fold introduce_change cs ids)"
proof -
  let ?ids = "fold introduce_change cs ids"
  from check_changes_claims [OF assms(3)] have claims: "distinct (map fst (claims cs))"
    "\<And>x p e. (x, p, e) \<in> set (claims cs) \<Longrightarrow> may_claim ids (x, p, e)" by (auto simp: assms(4))
  have kept: "bt_get ids x = Some i \<Longrightarrow> bt_get ?ids x = Some i" for x i
    by (simp add: introduce_changes with_claims_def)
  have from_claims: "bt_get ids x = Some i \<or>
      (\<exists>p e. (x, p, e) \<in> set (claims cs) \<and> i = \<lparr>idn_plugin = p, idn_effect = e, idn_state = Introduced\<rparr>)"
    if "bt_get ?ids x = Some i" for x i
    using that by (auto simp: introduce_changes with_claims_def dest: map_of_SomeD split: option.splits)
  show "only_forward ids ?ids" using kept by (auto simp: only_forward_def)
  show "settled committed ?ids"
    unfolding settled_def
  proof (intro conjI allI impI)
    fix p
    show "holds_all ?ids {Standing} p (attached_effects committed p)"
      using settledD [OF assms(1), of p] kept by (fastforce simp: holds_all_def)
  next
    fix x i
    assume i: "bt_get ?ids x = Some i"
    with from_claims [OF i] settled_identity [OF assms(1)] show "rec_address (idn_effect i) = Some x"
      by (auto simp: set_claims)
    assume "idn_state i = Standing"
    with from_claims [OF i] settled_identity [OF assms(1), of x i]
    show "idn_effect i \<in> set (attached_effects committed (idn_plugin i))" by auto
  qed
  show "pending cs ?ids"
    unfolding pending_def
  proof (intro conjI ballI allI impI)
    show "distinct (map chg_plugin cs)" by fact
  next
    fix c
    assume c: "c \<in> set cs"
    show "holds_all ?ids {Standing, Introduced} (chg_plugin c) (change_effects c)"
      unfolding holds_all_def
    proof (intro ballI allI impI)
      fix e x
      assume "e \<in> set (change_effects c)" "rec_address e = Some x"
      with c have k: "(x, chg_plugin c, e) \<in> set (claims cs)" by (auto simp: set_claims)
      with claims(1) have "map_of (claims cs) x = Some (chg_plugin c, e)" by simp
      with claims(2) [OF k] show "\<exists>i. bt_get ?ids x = Some i \<and> idn_plugin i = chg_plugin c \<and> idn_effect i = e \<and>
          idn_state i \<in> {Standing, Introduced}"
        by (auto simp: introduce_changes with_claims_def may_claim_def)
    qed
  next
    fix x i
    assume i: "bt_get ?ids x = Some i" "idn_state i = Introduced"
    with assms(2) from_claims [OF i(1)]
    show "\<exists>c \<in> set cs. chg_plugin c = idn_plugin i \<and> idn_effect i \<in> set (change_effects c)"
      by (auto simp: pending_Nil set_claims)
  qed
qed

section \<open>Admitting a record\<close>

text \<open>Which records a history takes, in the terms of its open transaction.\<close>

lemma check_Ok:
  assumes "history_check h r = Ok u"
  obtains p where "jr_event r = JPrepare p" "ch_open h = None" "next_generation h = Some (jr_generation r)"
      "check_changes h bt_empty (pre_changes p) = Ok ()"
  | ot where "jr_event r = JCommit \<or> jr_event r = JAbort" "ch_open h = Some ot" "ot_decision ot = None"
      "ot_generation ot = jr_generation r"
  | ot d where "jr_event r = JFinish" "ch_open h = Some ot" "ot_decision ot = Some d"
      "ot_generation ot = jr_generation r"
proof -
  from assms have none: "order_refusal h r = None" by (auto simp: history_check_def split: option.splits)
  show thesis
  proof (cases "ch_open h")
    case None
    with none obtain p where "jr_event r = JPrepare p" "next_generation h = Some (jr_generation r)"
      by (auto simp: order_refusal_def split: if_splits journal_event.splits)
    with assms None none that(1) show thesis by (auto simp: history_check_def check_identities_def)
  next
    case (Some ot)
    with none have ev: "jr_event r = JCommit \<and> ot_decision ot = None \<or> jr_event r = JAbort \<and> ot_decision ot = None \<or>
        jr_event r = JFinish \<and> ot_decision ot \<noteq> None" "ot_generation ot = jr_generation r"
      by (auto simp: order_refusal_def split: if_splits journal_event.splits)
    with Some that(2,3) show thesis by auto
  qed
qed

lemma retire_introduced_state:
  "idn_state (retire_introduced i) \<noteq> Introduced" "idn_plugin (retire_introduced i) = idn_plugin i"
  "idn_effect (retire_introduced i) = idn_effect i"
  "idn_state i = Retired \<Longrightarrow> idn_state (retire_introduced i) = Retired"
  by (simp_all add: retire_introduced_def)

lemma settled_retired: "settled committed ids \<Longrightarrow> settled committed (bt_map_values retire_introduced ids)"
  by (fastforce simp: settled_def holds_all_def retire_introduced_def split: if_splits)

lemma abort_keeps:
  assumes "settled committed ids"
  shows "settled committed (bt_map_values retire_introduced ids)" "pending [] (bt_map_values retire_introduced ids)"
    "only_forward ids (bt_map_values retire_introduced ids)"
  using assms by (auto simp: settled_retired pending_Nil only_forward_def retire_introduced_state)

text \<open>An admitted record never meets a missing identity, and keeps the invariant.\<close>

definition committed_step :: "cell_history \<Rightarrow> journal_record \<Rightarrow> plugin_id \<Rightarrow> attachment option" where
  "committed_step h r =
     (case (jr_event r, ch_open h) of
        (JCommit, Some ot) \<Rightarrow>
          fold (replaced (jr_generation r)) (pre_changes (ot_prepare ot)) (bt_get (ch_committed h))
      | _ \<Rightarrow> bt_get (ch_committed h))"

definition open_step :: "cell_history \<Rightarrow> journal_record \<Rightarrow> open_transaction option" where
  "open_step h r =
     (case jr_event r of
        JPrepare p \<Rightarrow> Some \<lparr>ot_generation = jr_generation r, ot_prepare = p, ot_decision = None\<rparr>
      | JCommit \<Rightarrow> map_option (ot_decision_update (\<lambda>_. Some DecCommit)) (ch_open h)
      | JAbort \<Rightarrow> map_option (ot_decision_update (\<lambda>_. Some DecAbort)) (ch_open h)
      | JFinish \<Rightarrow> None)"

lemma apply_keeps:
  assumes ok: "history_ok h" and r: "record_ok cell r" and check: "history_check h r = Ok u"
  shows "\<exists>h'. history_apply r h = Some h' \<and> history_ok h' \<and> only_forward (ch_identities h) (ch_identities h') \<and>
    bt_get (ch_committed h') = committed_step h r \<and> ch_open h' = open_step h r \<and> ch_cell h' = ch_cell h \<and>
    ch_last h' = (case jr_event r of JPrepare _ \<Rightarrow> jr_generation r | _ \<Rightarrow> ch_last h)"
  using check
proof (cases rule: check_Ok)
  case (1 p)
  from ok 1(2) have h: "settled (ch_committed h) (ch_identities h)" "pending [] (ch_identities h)"
    by (simp_all add: history_ok_def)
  from r 1(1) have "distinct (map chg_plugin (pre_changes p))" by (simp add: record_ok_def prepare_ok_def)
  from prepare_keeps [OF h 1(4) refl this] 1 show ?thesis
    by (simp add: history_apply_def history_ok_def committed_step_def open_step_def)
next
  case (2 ot)
  from ok 2 have h: "settled (ch_committed h) (ch_identities h)" "ot_generation ot = ch_last h"
    "pending (pre_changes (ot_prepare ot)) (ch_identities h)"
    by (simp_all add: history_ok_def)
  from 2(1) show ?thesis
  proof
    assume ev: "jr_event r = JCommit"
    from commit_changes_keep [OF h(1,3), of "jr_generation r"] obtain committed' ids' where
      "commit_changes (jr_generation r) (pre_changes (ot_prepare ot)) (ch_committed h, ch_identities h) =
         Some (committed', ids')"
      "settled committed' ids'" "pending [] ids'" "only_forward (ch_identities h) ids'"
      "bt_get committed' = fold (replaced (jr_generation r)) (pre_changes (ot_prepare ot)) (bt_get (ch_committed h))"
      by blast
    with 2 ev h(2) show ?thesis
      by (simp add: history_apply_def history_ok_def committed_step_def open_step_def)
  next
    assume ev: "jr_event r = JAbort"
    with 2 h(2) abort_keeps [OF h(1)] show ?thesis
      by (simp add: history_apply_def history_ok_def committed_step_def open_step_def)
  qed
next
  case (3 ot d)
  with ok show ?thesis
    by (simp add: history_apply_def history_ok_def committed_step_def open_step_def)
qed

lemma history_new_ok: "history_ok (history_new cell)"
  by (simp add: history_ok_def history_new_def settled_def pending_def holds_all_def attached_effects_def)

lemma admit_total:
  "history_ok h \<Longrightarrow> record_ok cell r \<Longrightarrow> history_admit h r \<noteq> None"
  using apply_keeps by (fastforce simp: history_admit_def split: sum.split)

lemma admit_Ok:
  "history_admit h r = Some (Ok h') \<longleftrightarrow> history_check h r = Ok () \<and> history_apply r h = Some h'"
  by (auto simp: history_admit_def split: sum.splits)

section \<open>Replaying records\<close>

text \<open>The histories a journal's records lead to.\<close>

inductive replays :: "cell_id \<Rightarrow> cell_history \<Rightarrow> journal_record list \<Rightarrow> cell_history \<Rightarrow> bool" for cell where
  replay_none: "replays cell h [] h"
| replay_record: "replays cell h rs h1 \<Longrightarrow> record_ok cell r \<Longrightarrow> history_admit h1 r = Some (Ok h2) \<Longrightarrow>
    replays cell h (rs @ [r]) h2"

lemma replays_ok: "replays cell h rs h' \<Longrightarrow> history_ok h \<Longrightarrow>
    history_ok h' \<and> only_forward (ch_identities h) (ch_identities h')"
proof (induction rule: replays.induct)
  case (replay_record h rs h1 r h2)
  then have "history_check h1 r = Ok ()" "history_apply r h1 = Some h2" by (auto simp: admit_Ok)
  with apply_keeps [of h1 cell r] replay_record show ?case by (auto intro: only_forward_trans)
qed simp

lemma replays_cons:
  "replays cell h1 rs h' \<Longrightarrow> record_ok cell r \<Longrightarrow> history_admit h r = Some (Ok h1) \<Longrightarrow> replays cell h (r # rs) h'"
proof (induction rule: replays.induct)
  case (replay_none h1)
  from replays.replay_record [OF replays.replay_none this] show ?case by simp
next
  case (replay_record h1 rs h2 q h3)
  from replays.replay_record [OF replay_record.IH replay_record.hyps(2,3)] replay_record.prems show ?case by simp
qed

section \<open>Reading line by line\<close>

text \<open>Lines that parse and are admitted one after the other, and a line that is not.\<close>

inductive accepts ::
  "journal_codec \<Rightarrow> cell_id \<Rightarrow> cell_history \<Rightarrow> nat list list \<Rightarrow> journal_record list \<Rightarrow> cell_history \<Rightarrow> bool"
  for c cell where
  accepts_none: "accepts c cell h [] [] h"
| accepts_line: "parse_record c cell l = Ok r \<Longrightarrow> history_admit h r = Some (Ok h1) \<Longrightarrow> accepts c cell h1 ls rs h' \<Longrightarrow>
    accepts c cell h (l # ls) (r # rs) h'"

definition refuses ::
  "journal_codec \<Rightarrow> cell_id \<Rightarrow> cell_history \<Rightarrow> nat list \<Rightarrow> rule_error \<Rightarrow> bool" where
  "refuses c cell h l e \<longleftrightarrow>
     parse_record c cell l = Err e \<or> (\<exists>r. parse_record c cell l = Ok r \<and> history_check h r = Err e)"

definition framed :: "nat list list \<Rightarrow> nat list" where
  "framed ls = concat (map (\<lambda>l. l @ [10]) ls)"

lemma framed_simps [simp]: "framed [] = []" "framed (l # ls) = l @ 10 # framed ls"
  by (simp_all add: framed_def)

lemma framed_append: "framed (ls @ ms) = framed ls @ framed ms"
  by (induction ls) simp_all

lemma split_lines: "\<exists>ls tail. bytes = framed ls @ tail \<and> (\<forall>l \<in> set ls. 10 \<notin> set l) \<and> 10 \<notin> set tail"
proof (induction "length bytes" arbitrary: bytes rule: less_induct)
  case less
  show ?case
  proof (cases "10 \<in> set bytes")
    case True
    then obtain l rest where b: "bytes = l @ 10 # rest" "10 \<notin> set l" by (meson split_list_first)
    with less [of rest] obtain ls tail where "rest = framed ls @ tail" "\<forall>l \<in> set ls. 10 \<notin> set l" "10 \<notin> set tail"
      by auto
    with b show ?thesis by (intro exI [of _ "l # ls"] exI [of _ tail]) simp
  qed (intro exI [of _ "[]"] exI [of _ bytes], simp)
qed

lemma read_line_framed:
  "10 \<notin> set l \<Longrightarrow> read_line_bytes (Reader (l @ 10 # rest) e) = Ok (l @ [10], Reader rest e)"
proof -
  assume "10 \<notin> set l"
  then have "takeWhile (\<lambda>b. b \<noteq> 10) (l @ 10 # rest) = l" by (induction l) auto
  then show ?thesis by (simp add: read_line_bytes_def)
qed

abbreviation read_history ::
  "journal_codec \<Rightarrow> cell_id \<Rightarrow> string \<Rightarrow> reader \<Rightarrow> journal_record list \<Rightarrow> cell_history \<Rightarrow>
   (cell_journal_fault + journal_record list \<times> cell_history) option" where
  "read_history c cell path rd records h \<equiv>
     read_records_from (parse_record c cell) history_admit path rd (length records) records h"

lemma read_accepted:
  "accepts c cell h ls rs h' \<Longrightarrow> \<forall>l \<in> set ls. 10 \<notin> set l \<Longrightarrow>
   read_history c cell path (Reader (framed ls @ rest) e) records h =
   read_history c cell path (Reader rest e) (records @ rs) h'"
proof (induction arbitrary: records rule: accepts.induct)
  case (accepts_line l r h h1 ls rs h')
  then have "read_history c cell path (Reader (framed (l # ls) @ rest) e) records h =
      read_history c cell path (Reader (framed ls @ rest) e) (records @ [r]) h1"
    by (subst read_records_from.simps) (simp add: read_line_framed Let_def)
  with accepts_line.IH [of "records @ [r]"] accepts_line.prems show ?case by simp
qed simp

lemma read_refused:
  "refuses c cell h l err \<Longrightarrow> 10 \<notin> set l \<Longrightarrow>
   read_history c cell path (Reader (l @ 10 # rest) e) records h =
   Some (Err (JournalFault path (Some (length records + 1)) (length records) (re_kind err) (re_detail err)))"
  by (subst read_records_from.simps)
    (auto simp: read_line_framed Let_def refuses_def history_admit_def)

lemma read_tail:
  "10 \<notin> set tail \<Longrightarrow>
   read_history c cell path (Reader tail e) records h =
   (case e of
      Some x \<Rightarrow> Some (Err (JournalFault path (Some (length records + 1)) (length records) JnlIo (DetText x)))
    | None \<Rightarrow>
        if tail = [] then Some (Ok (records, h))
        else Some (Err (JournalFault path (Some (length records + 1)) (length records) JnlUnparseable
               (DetText ''the last record has no final LF''))))"
  by (subst read_records_from.simps)
    (auto simp: read_line_bytes_def Let_def split: option.split dest: last_in_set)

lemma accepts_replays: "accepts c cell h ls rs h' \<Longrightarrow> replays cell h rs h' \<and> length rs = length ls"
  by (induction rule: accepts.induct) (auto intro: replays.replay_none replays_cons parse_record_ok)

lemma lines_accepted_or_refused:
  "history_ok h \<Longrightarrow>
   (\<exists>rs h'. accepts c cell h ls rs h') \<or>
   (\<exists>before l after rs h1 err. ls = before @ l # after \<and> accepts c cell h before rs h1 \<and> refuses c cell h1 l err)"
proof (induction ls arbitrary: h)
  case (Cons l ls)
  show ?case
  proof (cases "\<exists>err. refuses c cell h l err")
    case True
    then obtain err where "refuses c cell h l err" ..
    with accepts.accepts_none [of c cell h] show ?thesis by (metis append_Nil)
  next
    case False
    then obtain r where r: "parse_record c cell l = Ok r"
      by (cases "parse_record c cell l") (auto simp: refuses_def)
    with False have "history_check h r = Ok ()" by (cases "history_check h r") (auto simp: refuses_def)
    with apply_keeps [OF Cons.prems parse_record_ok [OF r] this] obtain h1 where
      h1: "history_admit h r = Some (Ok h1)" "history_ok h1" by (auto simp: admit_Ok)
    from Cons.IH [OF h1(2)] show ?thesis
    proof (elim disjE exE conjE)
      fix rs h'
      assume "accepts c cell h1 ls rs h'"
      from accepts.accepts_line [OF r h1(1) this] show ?thesis by blast
    next
      fix before l' after rs h2 err
      assume *: "ls = before @ l' # after" "accepts c cell h1 before rs h2" "refuses c cell h2 l' err"
      from accepts.accepts_line [OF r h1(1) *(2)] * show ?thesis
        by (intro disjI2 exI [of _ "l # before"] exI [of _ l'] exI [of _ after] exI [of _ "r # rs"] exI [of _ h2]
            exI [of _ err]) simp
    qed
  qed
qed (auto intro: accepts.accepts_none)

lemma read_cell_history_eq:
  "read_cell_history c cell path rd = read_history c cell path rd [] (history_new cell)"
  by (simp add: read_cell_history_def)

text \<open>How a reading ends, whatever the bytes are.\<close>

lemma read_cases:
  obtains ls rs h where "\<forall>l \<in> set ls. 10 \<notin> set l" "accepts c cell (history_new cell) ls rs h"
      "rd_bytes rd = framed ls" "rd_error rd = None"
      "read_cell_history c cell path rd = Some (Ok (rs, h))"
  | ls rest rs h f where "\<forall>l \<in> set ls. 10 \<notin> set l" "accepts c cell (history_new cell) ls rs h"
      "rd_bytes rd = framed ls @ rest"
      "read_cell_history c cell path rd = Some (Err f)"
      "f = JournalFault path (Some (length rs + 1)) (length rs) (jf_kind f) (jf_detail f)"
      "(\<exists>l more. rest = l @ 10 # more \<and> 10 \<notin> set l \<and> refuses c cell h l (RuleError (jf_kind f) (jf_detail f))) \<or>
       (10 \<notin> set rest \<and> (if rd_error rd = None then rest \<noteq> [] \<and> jf_kind f = JnlUnparseable else jf_kind f = JnlIo))"
proof -
  obtain ls tail where b: "rd_bytes rd = framed ls @ tail" "\<forall>l \<in> set ls. 10 \<notin> set l" "10 \<notin> set tail"
    using split_lines by blast
  then have rd: "rd = Reader (framed ls @ tail) (rd_error rd)" by (cases rd) simp
  from lines_accepted_or_refused [OF history_new_ok, of c cell cell ls] show thesis
  proof (elim disjE exE conjE)
    fix rs h
    assume a: "accepts c cell (history_new cell) ls rs h"
    have run: "read_cell_history c cell path rd = read_history c cell path (Reader tail (rd_error rd)) rs h"
      using read_accepted [OF a b(2), of path tail "rd_error rd" "[]"] rd by (simp add: read_cell_history_eq)
    show thesis
    proof (cases "rd_error rd = None \<and> tail = []")
      case True
      with that(1) [OF b(2) a] b(1) run show thesis by (simp add: read_tail)
    next
      case False
      with that(2) [OF b(2) a b(1)] b(3) run show thesis by (auto simp: read_tail split: option.splits)
    qed
  next
    fix before l after rs h err
    assume ls: "ls = before @ l # after" and a: "accepts c cell (history_new cell) before rs h"
      and bad: "refuses c cell h l err"
    from b(2) ls have plain: "\<forall>l \<in> set before. 10 \<notin> set l" "10 \<notin> set l" by auto
    have bytes: "rd_bytes rd = framed before @ l @ 10 # framed after @ tail" by (simp add: b(1) ls framed_append)
    have rd': "rd = Reader (framed before @ l @ 10 # framed after @ tail) (rd_error rd)"
      using bytes by (cases rd) simp
    have "read_cell_history c cell path rd =
        Some (Err (JournalFault path (Some (length rs + 1)) (length rs) (re_kind err) (re_detail err)))"
      using read_accepted [OF a plain(1), of path "l @ 10 # framed after @ tail" "rd_error rd" "[]"]
        read_refused [OF bad plain(2), of path "framed after @ tail" "rd_error rd" rs] rd'
      by (simp add: read_cell_history_eq)
    from that(2) [OF plain(1) a bytes this] bad plain(2) show thesis by auto
  qed
qed

lemma read_Ok_replays:
  assumes "read_history c cell path rd records h = Some (Ok (records', h'))" "history_ok h"
  shows "\<exists>rs. records' = records @ rs \<and> replays cell h rs h'"
proof -
  obtain ls tail where b: "rd_bytes rd = framed ls @ tail" "\<forall>l \<in> set ls. 10 \<notin> set l" "10 \<notin> set tail"
    using split_lines by blast
  then have rd: "rd = Reader (framed ls @ tail) (rd_error rd)" by (cases rd) simp
  from lines_accepted_or_refused [OF assms(2), of c cell ls] show ?thesis
  proof (elim disjE exE conjE)
    fix rs h1
    assume a: "accepts c cell h ls rs h1"
    with read_accepted [OF a b(2), of path tail "rd_error rd" records] rd assms(1) b(3)
    have "read_history c cell path (Reader tail (rd_error rd)) (records @ rs) h1 = Some (Ok (records', h'))"
      by simp
    with read_tail [OF b(3), of c cell path "rd_error rd" "records @ rs" h1]
    have "records' = records @ rs" "h' = h1" by (auto split: option.splits if_splits)
    with accepts_replays [OF a] show ?thesis by blast
  next
    fix before l after rs h1 err
    assume ls: "ls = before @ l # after" and a: "accepts c cell h before rs h1" and bad: "refuses c cell h1 l err"
    from b(2) ls have plain: "\<forall>l \<in> set before. 10 \<notin> set l" "10 \<notin> set l" by auto
    have "rd = Reader (framed before @ l @ 10 # framed after @ tail) (rd_error rd)"
      using rd by (simp add: ls framed_append)
    with read_accepted [OF a plain(1), of path "l @ 10 # framed after @ tail" "rd_error rd" records]
      read_refused [OF bad plain(2), of path "framed after @ tail" "rd_error rd" "records @ rs"] assms(1)
    show ?thesis by simp
  qed
qed

section \<open>The journal as a sequence of transactions\<close>

text \<open>
  The abstract journal of spec 008: finished transactions, numbered from one, each a prepare with its
  decision; and at most one more that has not finished and may lack its decision.
\<close>

type_synonym transaction = "prepare \<times> decision"

fun decision_event :: "decision \<Rightarrow> journal_event" where
  "decision_event DecCommit = JCommit"
| "decision_event DecAbort = JAbort"

definition transaction_records :: "nat \<Rightarrow> transaction \<Rightarrow> journal_record list" where
  "transaction_records n t =
     [\<lparr>jr_generation = of_nat n, jr_event = JPrepare (fst t)\<rparr>,
      \<lparr>jr_generation = of_nat n, jr_event = decision_event (snd t)\<rparr>,
      \<lparr>jr_generation = of_nat n, jr_event = JFinish\<rparr>]"

fun finished_records :: "nat \<Rightarrow> transaction list \<Rightarrow> journal_record list" where
  "finished_records n [] = []"
| "finished_records n (t # ts) = transaction_records n t @ finished_records (n + 1) ts"

fun unfinished_records :: "nat \<Rightarrow> (prepare \<times> decision option) option \<Rightarrow> journal_record list" where
  "unfinished_records n None = []"
| "unfinished_records n (Some (p, None)) = [\<lparr>jr_generation = of_nat n, jr_event = JPrepare p\<rparr>]"
| "unfinished_records n (Some (p, Some d)) =
     [\<lparr>jr_generation = of_nat n, jr_event = JPrepare p\<rparr>,
      \<lparr>jr_generation = of_nat n, jr_event = decision_event d\<rparr>]"

text \<open>What a transaction does to the attachments: all of its changes when it commits, and nothing else.\<close>

definition decided :: "nat \<Rightarrow> prepare \<Rightarrow> decision option \<Rightarrow> (plugin_id \<Rightarrow> attachment option) \<Rightarrow> plugin_id \<Rightarrow> attachment option" where
  "decided n p d m = (if d = Some DecCommit then fold (replaced (of_nat n)) (pre_changes p) m else m)"

fun attachments_after :: "nat \<Rightarrow> transaction list \<Rightarrow> (plugin_id \<Rightarrow> attachment option) \<Rightarrow> plugin_id \<Rightarrow> attachment option" where
  "attachments_after n [] m = m"
| "attachments_after n (t # ts) m = attachments_after (n + 1) ts (decided n (fst t) (Some (snd t)) m)"

text \<open>A history stands for a sequence of transactions.\<close>

definition stands_for ::
  "cell_history \<Rightarrow> journal_record list \<Rightarrow> transaction list \<Rightarrow> (prepare \<times> decision option) option \<Rightarrow> bool" where
  "stands_for h rs ts cur \<longleftrightarrow>
     (let n = length ts + 1; m = attachments_after 1 ts (\<lambda>_. None) in
      rs = finished_records 1 ts @ unfinished_records n cur \<and>
      unat (ch_last h) = (if cur = None then length ts else n) \<and>
      ch_open h = map_option (\<lambda>(p, d). \<lparr>ot_generation = of_nat n, ot_prepare = p, ot_decision = d\<rparr>) cur \<and>
      bt_get (ch_committed h) = (case cur of None \<Rightarrow> m | Some (p, d) \<Rightarrow> decided n p d m))"

lemma finished_snoc:
  "finished_records n (ts @ [t]) = finished_records n ts @ transaction_records (n + length ts) t"
  by (induction ts arbitrary: n) simp_all

lemma attachments_snoc:
  "attachments_after n (ts @ [t]) m =
   decided (n + length ts) (fst t) (Some (snd t)) (attachments_after n ts m)"
  by (induction ts arbitrary: n m) simp_all

lemma stands_for_step:
  assumes ok: "history_ok h" and r: "record_ok cell r" and admit: "history_admit h r = Some (Ok h')"
    and s: "stands_for h rs ts cur"
  shows "\<exists>ts' cur'. stands_for h' (rs @ [r]) ts' cur'"
proof -
  from admit have check: "history_check h r = Ok ()" and run: "history_apply r h = Some h'" by (simp_all add: admit_Ok)
  let ?n = "length ts + 1" and ?m = "attachments_after 1 ts (\<lambda>_. None)"
  from apply_keeps [OF ok r check] run have h': "bt_get (ch_committed h') = committed_step h r"
    "ch_open h' = open_step h r" "ch_last h' = (case jr_event r of JPrepare _ \<Rightarrow> jr_generation r | _ \<Rightarrow> ch_last h)"
    by auto
  obtain g ev where r_eq: "r = \<lparr>jr_generation = g, jr_event = ev\<rparr>" by (cases r)
  from check show ?thesis
  proof (cases rule: check_Ok)
    case (1 p)
    with s have cur: "cur = None" and last: "unat (ch_last h) = length ts"
      by (auto simp: stands_for_def Let_def split: if_splits)
    from 1(3) last have g: "unat g = ?n" by (simp add: next_generation_def checked_add_Some r_eq)
    then have "g = of_nat ?n" by (metis of_nat_unat ucast_id)
    with 1 s g have "stands_for h' (rs @ [r]) ts (Some (p, None))"
      by (auto simp: stands_for_def Let_def cur h' committed_step_def open_step_def r_eq decided_def)
    then show ?thesis by blast
  next
    case (2 ot)
    with s obtain p where cur: "cur = Some (p, None)" and ot: "ot = \<lparr>ot_generation = of_nat ?n, ot_prepare = p, ot_decision = None\<rparr>"
      by (cases cur) (auto simp: stands_for_def Let_def)
    with 2 have g: "g = of_nat ?n" by (simp add: r_eq)
    from 2(1) have "\<exists>d. ev = decision_event d" by (auto simp: r_eq intro: decision_event.simps [symmetric])
    then obtain d where ev: "ev = decision_event d" ..
    have "stands_for h' (rs @ [r]) ts (Some (p, Some d))"
      using s 2(2) by (cases d) (auto simp: stands_for_def Let_def cur h' committed_step_def open_step_def r_eq ev g ot decided_def)
    then show ?thesis by blast
  next
    case (3 ot d)
    with s obtain p where cur: "cur = Some (p, Some d)" and "ot = \<lparr>ot_generation = of_nat ?n, ot_prepare = p, ot_decision = Some d\<rparr>"
      by (cases cur) (auto simp: stands_for_def Let_def)
    with 3 have g: "g = of_nat ?n" by (simp add: r_eq)
    have "stands_for h' (rs @ [r]) (ts @ [(p, d)]) None"
      using s 3 by (auto simp: stands_for_def Let_def cur h' committed_step_def open_step_def r_eq g
          finished_snoc attachments_snoc transaction_records_def)
    then show ?thesis by blast
  qed
qed

lemma replays_stand_for:
  "replays cell h0 rs h \<Longrightarrow> h0 = history_new cell' \<Longrightarrow> \<exists>ts cur. stands_for h rs ts cur"
proof (induction rule: replays.induct)
  case (replay_none h)
  then have "stands_for h [] [] None" by (simp add: stands_for_def history_new_def fun_eq_iff)
  then show ?case by blast
next
  case (replay_record h rs h1 r h2)
  then obtain ts cur where "stands_for h1 rs ts cur" by blast
  moreover have "history_ok h1"
    using replays_ok [OF replay_record.hyps(1)] replay_record.prems by (simp add: history_new_ok)
  ultimately show ?case using stands_for_step replay_record.hyps(2,3) by blast
qed

lemma read_Ok:
  assumes "read_cell_history c cell path rd = Some (Ok (records, h))"
  shows "replays cell (history_new cell) records h" "history_ok h"
proof -
  from read_Ok_replays [OF assms [unfolded read_cell_history_eq] history_new_ok]
  show r: "replays cell (history_new cell) records h" by simp
  from replays_ok [OF r history_new_ok] show "history_ok h" ..
qed

lemma read_framed_Ok:
  assumes "accepts c cell (history_new cell) ls rs h" "\<forall>l \<in> set ls. 10 \<notin> set l"
  shows "read_cell_history c cell path (Reader (framed ls) None) = Some (Ok (rs, h))"
  using read_accepted [OF assms, of path "[]" None "[]"] by (simp add: read_cell_history_eq read_tail)

section \<open>A small journal\<close>

definition demo_journal :: "nat list" where "demo_journal = framed [[123, 125], [91, 93]]"

definition demo_commit :: journal_record where "demo_commit = \<lparr>jr_generation = 1, jr_event = JCommit\<rparr>"

abbreviation demo_recorded :: recorded_effect where
  "demo_recorded \<equiv> \<lparr>rec_effect = demo_effect, rec_operation = None\<rparr>"

lemma demo_address: "rec_address demo_recorded = Some (Handle ClsMount 7)"
  by (simp add: rec_address_def demo_effect_def effect_exact_def)

lemma demo_history_check: "history_check (history_new ''c'') demo_record = Ok ()"
  by (simp add: history_check_def order_refusal_def history_new_def next_generation_def checked_add_def
      demo_record_def check_identities_def check_recorded_def demo_address)

lemma demo_replay:
  "\<exists>h1 h2. accepts demo_codec ''c'' (history_new ''c'') [[123, 125]] [demo_record] h1 \<and>
     accepts demo_codec ''c'' (history_new ''c'') [[123, 125], [91, 93]] [demo_record, demo_commit] h2 \<and>
     (\<exists>i. bt_get (ch_identities h1) (Handle ClsMount 7) = Some i \<and> idn_plugin i = ''mail'') \<and>
     (\<exists>a. bt_get (ch_committed h2) ''mail'' = Some a \<and> demo_recorded \<in> set (rp_effects (at_replacement a)))"
proof -
  from apply_keeps [OF history_new_ok demo_record_ok demo_history_check] obtain h1 where
    a1: "history_apply demo_record (history_new ''c'') = Some h1" and ok1: "history_ok h1"
    and open1: "ch_open h1 = open_step (history_new ''c'') demo_record" by blast
  have check2: "history_check h1 demo_commit = Ok ()"
    by (simp add: history_check_def order_refusal_def demo_commit_def open1 open_step_def demo_record_def)
  have "record_ok ''c'' demo_commit" by (simp add: record_ok_def demo_commit_def)
  from apply_keeps [OF ok1 this check2] obtain h2 where
    a2: "history_apply demo_commit h1 = Some h2" and c2: "bt_get (ch_committed h2) = committed_step h1 demo_commit"
    by blast
  have first: "history_admit (history_new ''c'') demo_record = Some (Ok h1)"
    using demo_history_check a1 by (simp add: admit_Ok)
  have second: "history_admit h1 demo_commit = Some (Ok h2)" using check2 a2 by (simp add: admit_Ok)
  have commit: "parse_record demo_codec ''c'' [91, 93] = Ok demo_commit"
    by (simp add: demo_parse_commit demo_commit_def)
  note none = accepts.accepts_none [of demo_codec "''c''"]
  from accepts.accepts_line [OF demo_parse first none]
  have one: "accepts demo_codec ''c'' (history_new ''c'') [[123, 125]] [demo_record] h1" .
  from accepts.accepts_line [OF demo_parse first accepts.accepts_line [OF commit second none]]
  have two: "accepts demo_codec ''c'' (history_new ''c'') [[123, 125], [91, 93]] [demo_record, demo_commit] h2" .
  have "\<exists>a. bt_get (ch_committed h2) ''mail'' = Some a \<and> demo_recorded \<in> set (rp_effects (at_replacement a))"
    by (simp add: c2 committed_step_def demo_commit_def open1 open_step_def demo_record_def replaced_def)
  moreover have "\<exists>i. bt_get (ch_identities h1) (Handle ClsMount 7) = Some i \<and> idn_plugin i = ''mail''"
    using a1 by (auto simp: history_apply_def demo_record_def history_new_def introduce_change_def
        introduce_def change_effects_def demo_address)
  ultimately show ?thesis using one two by blast
qed

section \<open>Properties\<close>

text \<open>
  C25. A journal that reads without a fault is a sequence of transactions, numbered from one without a gap,
  each a prepare, one decision and a finish, with at most one unfinished at its end; and the attachments
  of the history are exactly what those transactions make of an empty cell when every committed one
  replaces or removes all the attachments it names and no other does anything.
\<close>

theorem journal_is_its_transactions:
  assumes "read_cell_history c cell path rd = Some (Ok (records, h))"
  shows "\<exists>ts cur. stands_for h records ts cur"
  using replays_stand_for [OF read_Ok(1) [OF assms] refl] .

theorem journal_is_its_transactions_witness:
  "\<exists>h ts cur. stands_for h [demo_record, demo_commit] ts cur"
proof -
  from demo_replay obtain h where "accepts demo_codec ''c'' (history_new ''c'') [[123, 125], [91, 93]]
      [demo_record, demo_commit] h" by blast
  from read_framed_Ok [OF this] have "read_cell_history demo_codec ''c'' ''j'' (Reader demo_journal None) =
      Some (Ok ([demo_record, demo_commit], h))" by (simp add: demo_journal_def)
  from journal_is_its_transactions [OF this] show ?thesis by blast
qed

text \<open>
  C26. After any journal that reads without a fault, an effect of a committed attachment that has an address
  is recorded there, standing, for its plugin and for no other; whatever stands belongs to the committed
  attachment of its plugin; and while no transaction is open nothing is merely introduced.
\<close>

theorem identities_match_attachments:
  assumes "read_cell_history c cell path rd = Some (Ok (records, h))"
  shows "(\<forall>plugin a e x. bt_get (ch_committed h) plugin = Some a \<longrightarrow> e \<in> set (rp_effects (at_replacement a)) \<longrightarrow>
      rec_address e = Some x \<longrightarrow>
      bt_get (ch_identities h) x = Some \<lparr>idn_plugin = plugin, idn_effect = e, idn_state = Standing\<rparr>) \<and>
    (\<forall>x i. bt_get (ch_identities h) x = Some i \<longrightarrow> idn_state i = Standing \<longrightarrow>
      (\<exists>a. bt_get (ch_committed h) (idn_plugin i) = Some a \<and> idn_effect i \<in> set (rp_effects (at_replacement a)))) \<and>
    (ch_open h = None \<longrightarrow> (\<forall>x i. bt_get (ch_identities h) x = Some i \<longrightarrow> idn_state i \<noteq> Introduced))"
proof (intro conjI allI impI)
  from read_Ok(2) [OF assms] have ok: "settled (ch_committed h) (ch_identities h)"
    and none: "ch_open h = None \<Longrightarrow> pending [] (ch_identities h)" by (simp_all add: history_ok_def)
  fix plugin a e x
  assume *: "bt_get (ch_committed h) plugin = Some a" "e \<in> set (rp_effects (at_replacement a))"
    "rec_address e = Some x"
  with holds_allD [OF settledD [OF ok, of plugin], of e x]
  show "bt_get (ch_identities h) x = Some \<lparr>idn_plugin = plugin, idn_effect = e, idn_state = Standing\<rparr>"
    by (auto simp: attached_effects_def)
next
  from read_Ok(2) [OF assms] have ok: "settled (ch_committed h) (ch_identities h)" by (simp add: history_ok_def)
  fix x i
  assume i: "bt_get (ch_identities h) x = Some i" "idn_state i = Standing"
  have "idn_effect i \<in> set (attached_effects (ch_committed h) (idn_plugin i))"
    using settled_identity [OF ok i(1)] i(2) by simp
  then show "\<exists>a. bt_get (ch_committed h) (idn_plugin i) = Some a \<and> idn_effect i \<in> set (rp_effects (at_replacement a))"
    by (cases "bt_get (ch_committed h) (idn_plugin i)") (simp_all add: attached_effects_def)
next
  fix x i
  assume "ch_open h = None" "bt_get (ch_identities h) x = Some i"
  with read_Ok(2) [OF assms] show "idn_state i \<noteq> Introduced" by (simp add: history_ok_def pending_Nil)
qed

theorem identities_match_attachments_witness:
  "\<exists>h :: cell_history. bt_get (ch_identities h) (Handle ClsMount 7) =
     Some \<lparr>idn_plugin = ''mail'', idn_effect = demo_recorded, idn_state = Standing\<rparr>"
proof -
  from demo_replay obtain h a where a: "accepts demo_codec ''c'' (history_new ''c'') [[123, 125], [91, 93]]
      [demo_record, demo_commit] h" "bt_get (ch_committed h) ''mail'' = Some a"
    "demo_recorded \<in> set (rp_effects (at_replacement a))" by blast
  from read_framed_Ok [OF a(1)] have "read_cell_history demo_codec ''c'' ''j'' (Reader demo_journal None) =
      Some (Ok ([demo_record, demo_commit], h))" by (simp add: demo_journal_def)
  from conjunct1 [OF identities_match_attachments [OF this], rule_format, OF a(2,3) demo_address]
  show ?thesis by (rule exI)
qed

text \<open>
  C27. No address is ever reused. However a journal that reads without a fault is continued, as long as the
  longer one reads too, its records come first, every address it recorded keeps its plugin and its effect,
  and an address it retired stays retired.
\<close>

theorem addresses_are_never_reused:
  assumes "read_cell_history c cell path (Reader bytes None) = Some (Ok (records, h))"
    and "read_cell_history c cell path (Reader (bytes @ further) e) = Some (Ok (records', h'))"
    and "bt_get (ch_identities h) x = Some i"
  shows "take (length records) records' = records \<and>
    (\<exists>i'. bt_get (ch_identities h') x = Some i' \<and> idn_plugin i' = idn_plugin i \<and> idn_effect i' = idn_effect i \<and>
      (idn_state i = Retired \<longrightarrow> idn_state i' = Retired))"
proof -
  obtain ls where ls: "\<forall>l \<in> set ls. 10 \<notin> set l" "accepts c cell (history_new cell) ls records h" "bytes = framed ls"
    using assms(1) by (cases rule: read_cases [of c cell "Reader bytes None" path]) auto
  from read_accepted [OF ls(2,1), of path further e "[]"] assms(2) ls(3)
  have "read_history c cell path (Reader further e) records h = Some (Ok (records', h'))"
    by (simp add: read_cell_history_eq)
  from read_Ok_replays [OF this read_Ok(2) [OF assms(1)]] obtain rs where
    rs: "records' = records @ rs" "replays cell h rs h'" by blast
  from replays_ok [OF rs(2) read_Ok(2) [OF assms(1)]] only_forwardD [OF _ assms(3)] rs(1) show ?thesis by simp
qed

theorem addresses_are_never_reused_witness:
  "\<exists>(h :: cell_history) i. bt_get (ch_identities h) (Handle ClsMount 7) = Some i \<and>
     idn_plugin i = ''mail'' \<and> bt_get (ch_committed h) ''mail'' \<noteq> None"
proof -
  from demo_replay obtain h1 h2 i a where
    one: "accepts demo_codec ''c'' (history_new ''c'') [[123, 125]] [demo_record] h1" and
    two: "accepts demo_codec ''c'' (history_new ''c'') [[123, 125], [91, 93]] [demo_record, demo_commit] h2" and
    i: "bt_get (ch_identities h1) (Handle ClsMount 7) = Some i" "idn_plugin i = ''mail''" and
    a: "bt_get (ch_committed h2) ''mail'' = Some a" by blast
  from read_framed_Ok [OF one] have r1: "read_cell_history demo_codec ''c'' ''j'' (Reader [123, 125, 10] None) =
      Some (Ok ([demo_record], h1))" by simp
  from read_framed_Ok [OF two] have r2:
    "read_cell_history demo_codec ''c'' ''j'' (Reader ([123, 125, 10] @ [91, 93, 10]) None) =
      Some (Ok ([demo_record, demo_commit], h2))" by simp
  from addresses_are_never_reused [OF r1 r2 i(1)] obtain j where
    "bt_get (ch_identities h2) (Handle ClsMount 7) = Some j" "idn_plugin j = ''mail''" unfolding i(2) by blast
  with a show ?thesis by (intro exI [of _ h2] exI [of _ j]) simp
qed

text \<open>
  C28. Reading a journal never panics, and a fault names the first line at fault. The lines before it read
  without a fault on their own, as many as the fault says were accepted, and the line it names is the next
  one: it does not parse, or the history of those lines refuses it, for the very reason the fault gives;
  or it is not a whole line, because the input ends or fails there.
\<close>

theorem fault_names_the_first_bad_line:
  "read_cell_history c cell path rd \<noteq> None \<and>
   (read_cell_history c cell path rd = Some (Err f) \<longrightarrow>
     (\<exists>good rest records h.
        rd_bytes rd = good @ rest \<and> count_list good 10 = length records \<and>
        read_cell_history c cell path (Reader good None) = Some (Ok (records, h)) \<and>
        jf_path f = path \<and> jf_lines_parsed f = length records \<and> jf_line f = Some (length records + 1) \<and>
        ((\<exists>l others. rest = l @ 10 # others \<and> 10 \<notin> set l \<and>
            refuses c cell h l (RuleError (jf_kind f) (jf_detail f))) \<or>
         (10 \<notin> set rest \<and>
          (if rd_error rd = None then rest \<noteq> [] \<and> jf_kind f = JnlUnparseable else jf_kind f = JnlIo)))))"
proof -
  have count: "count_list (framed ls) 10 = length ls" if "\<forall>l \<in> set ls. (10::nat) \<notin> set l" for ls
    using that by (induction ls) simp_all
  show ?thesis
  proof (cases rule: read_cases [of c cell rd path])
    case (2 ls rest rs h g)
    have fields: "jf_path g = path" "jf_line g = Some (length rs + 1)" "jf_lines_parsed g = length rs"
      by (subst 2(5), simp)+
    have n: "count_list (framed ls) 10 = length rs"
      using count [OF 2(1)] accepts_replays [OF 2(2)] by simp
    show ?thesis
    proof (intro conjI impI)
      show "read_cell_history c cell path rd \<noteq> None" by (simp add: 2(4))
      assume "read_cell_history c cell path rd = Some (Err f)"
      with 2(4) have "f = g" by simp
      from 2(3) n read_framed_Ok [OF 2(2,1), of path] fields 2(6)
      show "\<exists>good rest records h.
        rd_bytes rd = good @ rest \<and> count_list good 10 = length records \<and>
        read_cell_history c cell path (Reader good None) = Some (Ok (records, h)) \<and>
        jf_path f = path \<and> jf_lines_parsed f = length records \<and> jf_line f = Some (length records + 1) \<and>
        ((\<exists>l others. rest = l @ 10 # others \<and> 10 \<notin> set l \<and>
            refuses c cell h l (RuleError (jf_kind f) (jf_detail f))) \<or>
         (10 \<notin> set rest \<and>
          (if rd_error rd = None then rest \<noteq> [] \<and> jf_kind f = JnlUnparseable else jf_kind f = JnlIo)))"
        unfolding \<open>f = g\<close> by blast
    qed
  qed simp
qed

theorem fault_names_the_first_bad_line_witness:
  "\<exists>f. read_cell_history demo_codec ''c'' ''j'' (Reader [123, 125] None) = Some (Err f) \<and> jf_line f = Some 1"
proof -
  have run: "read_cell_history demo_codec ''c'' ''j'' (Reader [123, 125] None) =
      Some (Err (JournalFault ''j'' (Some 1) 0 JnlUnparseable (DetText ''the last record has no final LF'')))"
    using read_tail [of "[123, 125]" demo_codec "''c''" "''j''" None "[]"] by (simp add: read_cell_history_eq)
  with fault_names_the_first_bad_line [of demo_codec "''c''" "''j''" "Reader [123, 125] None"] show ?thesis by auto
qed

end
