(* ===== verification/Plugin_Log.thy ===== *)
theory Plugin_Log
  imports Ledger Utf8
begin

text \<open>
  The log file of \<open>crates/plasmosome-ledger/src/lib.rs\<close>: one line per effect of a plugin, appended and
  read back. The JSON of one record is \<open>serde_json\<close>'s and a parameter; the format number, the framing, the
  torn last line, the one plugin of a file and what an append leaves behind are modelled.
\<close>

section \<open>Records\<close>

definition FORMAT :: nat where "FORMAT = 3"

record log_record =
  lr_format :: nat
  lr_plugin :: plugin_id
  lr_effect :: effect

text \<open>A decoding error with its text, and whether the input ended too early.\<close>

datatype json_error = JsonError (je_text: string) (je_eof: bool)

text \<open>
  \<open>serde_json\<close>: the \<open>format\<close> of an object, where there is a readable one; the three fields of a record,
  with the format as the byte it must fit; and the bytes of a record.
\<close>

record log_codec =
  read_version :: "nat list \<Rightarrow> nat option"
  read_wire :: "nat list \<Rightarrow> json_error + log_record"
  write_wire :: "log_record \<Rightarrow> string + nat list"

definition unsupported :: "nat \<Rightarrow> string" where
  "unsupported format = ''unsupported ledger format '' @ show_nat format @ ''; expected '' @ show_nat FORMAT"

definition log_serialize :: "log_codec \<Rightarrow> log_record \<Rightarrow> string + nat list" where
  "log_serialize c r = (if lr_format r \<noteq> FORMAT then Err (unsupported (lr_format r)) else write_wire c r)"

definition log_deserialize :: "log_codec \<Rightarrow> nat list \<Rightarrow> json_error + log_record" where
  "log_deserialize c line =
     and_then (read_wire c line) (\<lambda>w.
     if lr_format w \<noteq> FORMAT then Err (JsonError (unsupported (lr_format w)) False) else Ok w)"

definition decode_record :: "log_codec \<Rightarrow> nat list \<Rightarrow> json_error + log_record" where
  "decode_record c line =
     (case read_version c line of
        Some format \<Rightarrow>
          if format \<noteq> FORMAT then Err (JsonError (unsupported format) False) else log_deserialize c line
      | None \<Rightarrow> log_deserialize c line)"

section \<open>Reading\<close>

text \<open>
  \<open>str::from_utf8\<close> fails at an offset; its error has no length exactly when the bytes there are the start
  of a character that the input cuts off.
\<close>

definition utf8_cut_off :: "nat list \<Rightarrow> bool" where
  "utf8_cut_off bs =
     (case bs of
        [a] \<Rightarrow> 0xC2 \<le> a \<and> a \<le> 0xF4
      | [a, b] \<Rightarrow> (0xE0 \<le> a \<and> a \<le> 0xEF \<and> second_of_3 a b) \<or> (0xF0 \<le> a \<and> a \<le> 0xF4 \<and> second_of_4 a b)
      | [a, b, c] \<Rightarrow> 0xF0 \<le> a \<and> a \<le> 0xF4 \<and> second_of_4 a b \<and> is_tail c
      | _ \<Rightarrow> False)"

datatype log_error =
    LogUtf8 nat nat | LogRecordAt nat string | LogMixes nat plugin_id plugin_id | LogNoNewline
  | LogBelongsTo plugin_id plugin_id | LogCannotEncode nat nat string | LogEmpty | LogIo string

text \<open>\<open>split_inclusive\<close> at line feeds: every piece keeps its line feed, and the last may have none.\<close>

fun split_inclusive :: "nat list \<Rightarrow> nat list list" where
  "split_inclusive [] = []"
| "split_inclusive (b # bs) =
     (if b = 10 then [b] # split_inclusive bs
      else case split_inclusive bs of
          [] \<Rightarrow> [[b]]
        | l # ls \<Rightarrow> (b # l) # ls)"

definition log_utf8_fault :: "bool \<Rightarrow> nat list \<Rightarrow> nat option" where
  "log_utf8_fault newline_ended line =
     (case from_utf8 0 line of
        Inl at \<Rightarrow> if newline_ended \<or> \<not> utf8_cut_off (drop at line) then Some at else None
      | Inr _ \<Rightarrow> None)"

fun plugin_log_loop ::
  "log_codec \<Rightarrow> nat \<Rightarrow> nat list list \<Rightarrow> plugin_id option \<Rightarrow> effect list \<Rightarrow>
   log_error + plugin_id option \<times> effect list" where
  "plugin_log_loop c index [] plugin effects = Ok (plugin, effects)"
| "plugin_log_loop c index (l # ls) plugin effects =
     (let newline_ended = (last l = 10); line = (if newline_ended then butlast l else l) in
      case log_utf8_fault newline_ended line of
        Some at \<Rightarrow> Err (LogUtf8 (index + 1) at)
      | None \<Rightarrow>
          (case decode_record c line of
             Inl e \<Rightarrow>
               if \<not> newline_ended \<and> je_eof e then Ok (plugin, effects)
               else Err (LogRecordAt (index + 1) (je_text e))
           | Inr r \<Rightarrow>
               if \<exists>existing. plugin = Some existing \<and> existing \<noteq> lr_plugin r
               then Err (LogMixes (index + 1) (the plugin) (lr_plugin r))
               else plugin_log_loop c (index + 1) ls
                      (if plugin = None then Some (lr_plugin r) else plugin) (effects @ [lr_effect r])))"

definition read_plugin_log :: "log_codec \<Rightarrow> nat list \<Rightarrow> log_error + plugin_id option \<times> effect list" where
  "read_plugin_log c bytes = plugin_log_loop c 0 (split_inclusive bytes) None []"

section \<open>Writing\<close>

fun encode_loop :: "log_codec \<Rightarrow> plugin_id \<Rightarrow> nat \<Rightarrow> nat \<Rightarrow> effect list \<Rightarrow> nat list \<Rightarrow> log_error + nat list" where
  "encode_loop c plugin total_effects index [] records = Ok records"
| "encode_loop c plugin total_effects index (e # es) records =
     and_then
       (map_err (LogCannotEncode (index + 1) total_effects)
          (log_serialize c \<lparr>lr_format = FORMAT, lr_plugin = plugin, lr_effect = e\<rparr>))
       (\<lambda>bytes. encode_loop c plugin total_effects (index + 1) es (records @ bytes @ [10]))"

definition ledger_encode :: "log_codec \<Rightarrow> ledger \<Rightarrow> log_error + nat list" where
  "ledger_encode c l = encode_loop c (led_plugin l) (length (led_effects l)) 0 (led_effects l) []"

definition accepts_target :: "log_codec \<Rightarrow> ledger \<Rightarrow> nat list \<Rightarrow> log_error + unit" where
  "accepts_target c l existing =
     (if existing = [] then Ok ()
      else if last existing \<noteq> 10 then Err LogNoNewline
      else and_then (read_plugin_log c existing) (\<lambda>(found, _).
        case found of
          Some p \<Rightarrow> if p \<noteq> led_plugin l then Err (LogBelongsTo p (led_plugin l)) else Ok ()
        | None \<Rightarrow> Ok ()))"

section \<open>The file\<close>

text \<open>
  What the operating system answers one append: whether the directories could be made, the file be
  opened and read to its end; and how many of the bytes reached the file before the write ended, with
  its error if it failed. The file is its bytes, or absent.
\<close>

record file_answers =
  fs_dirs :: "string option"
  fs_open :: "string option"
  fs_read :: "string option"
  fs_written :: nat
  fs_write :: "string option"
  fs_flush :: "string option"

definition or_io :: "string option \<Rightarrow> log_error + unit" where
  "or_io e = (case e of None \<Rightarrow> Ok () | Some x \<Rightarrow> Err (LogIo x))"

definition written :: "file_answers \<Rightarrow> nat list \<Rightarrow> nat list" where
  "written fs bytes = (if fs_write fs = None then bytes else take (fs_written fs) bytes)"

definition append_to_file ::
  "log_codec \<Rightarrow> file_answers \<Rightarrow> ledger \<Rightarrow> nat list option \<Rightarrow> (log_error + nat) \<times> nat list option" where
  "append_to_file c fs l target =
     (case ledger_encode c l of
        Inl e \<Rightarrow> (Err e, target)
      | Inr records \<Rightarrow>
          (case and_then (or_io (fs_dirs fs)) (\<lambda>_. or_io (fs_open fs)) of
             Inl e \<Rightarrow> (Err e, target)
           | Inr _ \<Rightarrow>
               let existing = (case target of None \<Rightarrow> [] | Some bytes \<Rightarrow> bytes) in
               (case and_then (or_io (fs_read fs)) (\<lambda>_. accepts_target c l existing) of
                  Inl e \<Rightarrow> (Err e, Some existing)
                | Inr _ \<Rightarrow>
                    (and_then (or_io (fs_write fs)) (\<lambda>_. and_then (or_io (fs_flush fs)) (\<lambda>_.
                       Ok (length (led_effects l)))),
                     Some (existing @ written fs records)))))"

text \<open>A writer keeps what it was given before its write failed.\<close>

definition write_to :: "log_codec \<Rightarrow> file_answers \<Rightarrow> ledger \<Rightarrow> nat list \<Rightarrow> (log_error + nat) \<times> nat list" where
  "write_to c fs l out =
     (case ledger_encode c l of
        Inl e \<Rightarrow> (Err e, out)
      | Inr records \<Rightarrow>
          (and_then (or_io (fs_write fs)) (\<lambda>_. and_then (or_io (fs_flush fs)) (\<lambda>_.
             Ok (length (led_effects l)))),
           out @ written fs records))"

definition ledger_open_file :: "log_codec \<Rightarrow> string + nat list \<Rightarrow> log_error + ledger" where
  "ledger_open_file c content =
     and_then (map_err LogIo content) (\<lambda>bytes.
     and_then (read_plugin_log c bytes) (\<lambda>(plugin, effects).
     and_then (ok_or plugin LogEmpty) (\<lambda>p. Ok \<lparr>led_plugin = p, led_effects = effects\<rparr>)))"

section \<open>Files as lines\<close>

definition log_lines :: "nat list list \<Rightarrow> nat list" where
  "log_lines ls = concat (map (\<lambda>l. l @ [10]) ls)"

lemma log_lines_simps [simp]: "log_lines [] = []" "log_lines (l # ls) = l @ 10 # log_lines ls"
  "log_lines (ls @ ms) = log_lines ls @ log_lines ms"
  by (simp_all add: log_lines_def)

lemma split_inclusive_line: "10 \<notin> set l \<Longrightarrow> split_inclusive (l @ 10 # rest) = (l @ [10]) # split_inclusive rest"
  by (induction l) simp_all

lemma split_inclusive_torn: "10 \<notin> set l \<Longrightarrow> split_inclusive l = (if l = [] then [] else [l])"
  by (induction l) auto

lemma split_inclusive_lines:
  "\<forall>l \<in> set ls. 10 \<notin> set l \<Longrightarrow>
   split_inclusive (log_lines ls @ rest) = map (\<lambda>l. l @ [10]) ls @ split_inclusive rest"
  by (induction ls) (simp_all add: split_inclusive_line)

text \<open>Lines that hold records of one plugin, and the effects they hold.\<close>

definition reads_as :: "log_codec \<Rightarrow> plugin_id \<Rightarrow> nat list \<Rightarrow> effect \<Rightarrow> bool" where
  "reads_as c p l e \<longleftrightarrow>
     10 \<notin> set l \<and> (\<exists>t. from_utf8 0 l = Ok t) \<and>
     decode_record c l = Ok \<lparr>lr_format = FORMAT, lr_plugin = p, lr_effect = e\<rparr>"

lemma loop_lines:
  "list_all2 (reads_as c p) ls es \<Longrightarrow> plugin = None \<or> plugin = Some p \<Longrightarrow>
   plugin_log_loop c index (map (\<lambda>l. l @ [10]) ls @ tail) plugin effects =
   plugin_log_loop c (index + length ls) tail (if ls = [] then plugin else Some p) (effects @ es)"
proof (induction ls es arbitrary: index plugin effects rule: list_all2_induct)
  case (Cons l ls e es)
  then obtain t where "from_utf8 0 l = Ok t"
    "decode_record c l = Ok \<lparr>lr_format = FORMAT, lr_plugin = p, lr_effect = e\<rparr>" by (auto simp: reads_as_def)
  with Cons.IH [of "Some p" "index + 1" "effects @ [e]"] Cons.prems show ?case
    by (auto simp: log_utf8_fault_def Let_def)
qed simp

lemma read_lines:
  assumes "list_all2 (reads_as c p) ls es"
  shows "read_plugin_log c (log_lines ls @ rest) =
    plugin_log_loop c (length ls) (split_inclusive rest) (if ls = [] then None else Some p) es"
proof -
  have "\<forall>l \<in> set ls. 10 \<notin> set l"
    using assms by (auto simp: list_all2_conv_all_nth reads_as_def in_set_conv_nth)
  then show ?thesis
    using loop_lines [OF assms, of None 0 _ "[]"] by (simp add: read_plugin_log_def split_inclusive_lines)
qed

section \<open>What serde documents\<close>

text \<open>
  A record that was written is one line of UTF-8 that reads back as itself, its \<open>format\<close> included; and a
  line cut short before its end is UTF-8 up to a cut-off character and fails as ended too early.
\<close>

definition faithful_log_codec :: "log_codec \<Rightarrow> bool" where
  "faithful_log_codec c \<longleftrightarrow>
     (\<forall>r bytes. write_wire c r = Ok bytes \<longrightarrow>
        10 \<notin> set bytes \<and> (\<exists>t. from_utf8 0 bytes = Ok t) \<and> read_version c bytes = Some (lr_format r) \<and>
        read_wire c bytes = Ok r \<and>
        (\<forall>n < length bytes. n > 0 \<longrightarrow> read_version c (take n bytes) = None \<and>
           (\<exists>e. read_wire c (take n bytes) = Err (JsonError e True)) \<and>
           (\<forall>at. from_utf8 0 (take n bytes) = Err at \<longrightarrow> utf8_cut_off (drop at (take n bytes)))))"

text \<open>The lines a ledger's records make.\<close>

definition written_lines :: "log_codec \<Rightarrow> plugin_id \<Rightarrow> effect list \<Rightarrow> nat list list \<Rightarrow> bool" where
  "written_lines c p es ls \<longleftrightarrow>
     list_all2 (\<lambda>e l. write_wire c \<lparr>lr_format = FORMAT, lr_plugin = p, lr_effect = e\<rparr> = Ok l) es ls"

lemma encode_loop_lines:
  "encode_loop c p n index es records = Ok bytes \<Longrightarrow> \<exists>ls. written_lines c p es ls \<and> bytes = records @ log_lines ls"
proof (induction es arbitrary: index records)
  case (Cons e es)
  then obtain l where l: "write_wire c \<lparr>lr_format = FORMAT, lr_plugin = p, lr_effect = e\<rparr> = Ok l"
    and "encode_loop c p n (index + 1) es (records @ l @ [10]) = Ok bytes"
    by (auto simp: and_then_eq_Inr log_serialize_def)
  with Cons.IH [of "index + 1" "records @ l @ [10]"] obtain ls where
    "written_lines c p es ls" "bytes = records @ log_lines (l # ls)" by auto
  with l show ?case by (intro exI [of _ "l # ls"]) (simp add: written_lines_def)
qed (simp add: written_lines_def)

lemma ledger_encode_lines:
  "ledger_encode c l = Ok bytes \<Longrightarrow> \<exists>ls. written_lines c (led_plugin l) (led_effects l) ls \<and> bytes = log_lines ls"
  using encode_loop_lines by (fastforce simp: ledger_encode_def)

lemma written_reads_as:
  assumes "faithful_log_codec c" "written_lines c p es ls"
  shows "list_all2 (reads_as c p) ls es"
  using assms
  by (fastforce simp: written_lines_def list_all2_conv_all_nth reads_as_def faithful_log_codec_def
      decode_record_def log_deserialize_def)

section \<open>Appending\<close>

lemma split_inclusive_append:
  "existing = [] \<or> last existing = 10 \<Longrightarrow>
   split_inclusive (existing @ rest) = split_inclusive existing @ split_inclusive rest"
proof (induction existing)
  case (Cons b bs)
  show ?case
  proof (cases "bs = []")
    case False
    with Cons have "split_inclusive (bs @ rest) = split_inclusive bs @ split_inclusive rest" by auto
    moreover have "split_inclusive bs \<noteq> []" using False by (cases bs) (auto split: list.splits)
    ultimately show ?thesis by (auto split: list.split)
  qed (use Cons in simp)
qed simp

lemma split_inclusive_ended:
  "existing = [] \<or> last existing = 10 \<Longrightarrow> l \<in> set (split_inclusive existing) \<Longrightarrow> last l = 10"
proof (induction existing arbitrary: l)
  case (Cons b bs)
  show ?case
  proof (cases "bs = []")
    case False
    then have ne: "split_inclusive bs \<noteq> []" by (cases bs) (auto split: list.splits)
    have nonempty: "\<forall>x \<in> set (split_inclusive bs). x \<noteq> []"
      by (induction bs) (auto split: list.splits)
    from False Cons.prems(1) have "\<And>x. x \<in> set (split_inclusive bs) \<Longrightarrow> last x = 10" using Cons.IH by auto
    with Cons.prems(2) ne nonempty show ?thesis
      by (cases "split_inclusive bs") (auto split: if_splits)
  qed (use Cons in auto)
qed simp

lemma loop_append:
  "\<forall>l \<in> set fs. last l = 10 \<Longrightarrow>
   plugin_log_loop c index (fs @ gs) plugin effects =
   and_then (plugin_log_loop c index fs plugin effects)
     (\<lambda>(plugin', effects'). plugin_log_loop c (index + length fs) gs plugin' effects')"
  by (induction c index fs plugin effects rule: plugin_log_loop.induct)
    (auto simp: Let_def split: option.splits sum.splits)

lemma take_lines:
  "\<exists>m torn. take k (log_lines ls) = log_lines (take m ls) @ torn \<and>
     (torn = [] \<or> (m < length ls \<and> (\<exists>j. 0 < j \<and> j \<le> length (ls ! m) \<and> torn = take j (ls ! m)))) \<and>
     (length (log_lines ls) \<le> k \<longrightarrow> length ls \<le> m)"
proof (induction ls arbitrary: k)
  case (Cons l ls)
  show ?case
  proof (cases "k \<le> length l")
    case True
    then show ?thesis
      by (intro exI [of _ 0] exI [of _ "take k l"]) (auto intro: exI [of _ k])
  next
    case False
    then obtain k' where k: "k = length l + Suc k'" by (metis add_Suc_right less_imp_Suc_add not_le)
    from Cons.IH [of k'] obtain m torn where "take k' (log_lines ls) = log_lines (take m ls) @ torn"
      "torn = [] \<or> (m < length ls \<and> (\<exists>j. 0 < j \<and> j \<le> length (ls ! m) \<and> torn = take j (ls ! m)))"
      "length (log_lines ls) \<le> k' \<longrightarrow> length ls \<le> m" by blast
    then show ?thesis by (intro exI [of _ "Suc m"] exI [of _ torn]) (simp add: k)
  qed
qed simp

text \<open>What a written line that was cut short does to the reading: nothing, unless only its line feed is missing.\<close>

lemma loop_torn:
  assumes c: "faithful_log_codec c" and w: "write_wire c \<lparr>lr_format = FORMAT, lr_plugin = p, lr_effect = e\<rparr> = Ok l"
    and j: "0 < j" "j \<le> length l" and plugin: "plugin = None \<or> plugin = Some p"
  shows "plugin_log_loop c index [take j l] plugin effects =
    Ok (if j = length l then (Some p, effects @ [e]) else (plugin, effects))"
proof -
  from c w have l: "10 \<notin> set l" "\<exists>t. from_utf8 0 l = Ok t" "read_version c l = Some FORMAT"
    "read_wire c l = Ok \<lparr>lr_format = FORMAT, lr_plugin = p, lr_effect = e\<rparr>"
    and short: "\<And>n. n < length l \<Longrightarrow> n > 0 \<Longrightarrow> read_version c (take n l) = None \<and>
      (\<exists>x. read_wire c (take n l) = Err (JsonError x True)) \<and>
      (\<forall>at. from_utf8 0 (take n l) = Err at \<longrightarrow> utf8_cut_off (drop at (take n l)))"
    by (auto simp: faithful_log_codec_def)
  have "take j l \<noteq> []" using j by auto
  from last_in_set [OF this] l(1) have "last (take j l) \<noteq> 10" by (metis in_set_takeD)
  moreover have "log_utf8_fault False (take j l) = None"
    using l(2) short [of j] j by (cases "j = length l") (auto simp: log_utf8_fault_def split: sum.split)
  moreover have "decode_record c (take j l) =
      (if j = length l then Ok \<lparr>lr_format = FORMAT, lr_plugin = p, lr_effect = e\<rparr>
       else decode_record c (take j l))"
    using l(3,4) by (simp add: decode_record_def log_deserialize_def)
  moreover have "j < length l \<Longrightarrow> \<exists>x. decode_record c (take j l) = Err (JsonError x True)"
    using short [of j] j(1) by (auto simp: decode_record_def log_deserialize_def)
  ultimately show ?thesis using plugin j by (cases "j = length l") (auto simp: Let_def)
qed

lemma appended_lines:
  assumes c: "faithful_log_codec c" and ls: "written_lines c p es ls"
    and before: "read_plugin_log c existing = Ok (found, effects)" "existing = [] \<or> last existing = 10"
    and found: "found = None \<or> found = Some p"
  shows "\<exists>m. read_plugin_log c (existing @ take k (log_lines ls)) =
      Ok (if m = 0 then found else Some p, effects @ take m es) \<and> m \<le> length es \<and>
      (length (log_lines ls) \<le> k \<longrightarrow> m = length es)"
proof -
  from take_lines [of k ls] obtain m torn where cut: "take k (log_lines ls) = log_lines (take m ls) @ torn"
    "torn = [] \<or> (m < length ls \<and> (\<exists>j. 0 < j \<and> j \<le> length (ls ! m) \<and> torn = take j (ls ! m)))"
    "length (log_lines ls) \<le> k \<longrightarrow> length ls \<le> m" by blast
  have len: "length ls = length es" using ls by (simp add: written_lines_def list_all2_conv_all_nth)
  have reads: "list_all2 (reads_as c p) (take m ls) (take m es)"
    using written_reads_as [OF c ls] by (rule list_all2_takeI)
  have plain: "\<forall>l \<in> set ls. 10 \<notin> set l"
    using written_reads_as [OF c ls] by (auto simp: list_all2_conv_all_nth reads_as_def in_set_conv_nth)
  let ?fs = "split_inclusive existing" and ?p = "if take m ls = [] then found else Some p"
  have run: "read_plugin_log c (existing @ take k (log_lines ls)) =
      plugin_log_loop c (length ?fs + length (take m ls)) (split_inclusive torn) ?p (effects @ take m es)"
  proof -
    have "\<forall>l \<in> set (take m ls). 10 \<notin> set l" using plain by (auto dest: in_set_takeD)
    then have "split_inclusive (existing @ take k (log_lines ls)) =
        ?fs @ map (\<lambda>l. l @ [10]) (take m ls) @ split_inclusive torn"
      by (simp add: split_inclusive_append [OF before(2)] cut(1) split_inclusive_lines)
    then show ?thesis
      using loop_append [of ?fs c 0 _ None "[]"] split_inclusive_ended [OF before(2)] before(1)
        loop_lines [OF reads found, of "length ?fs" "split_inclusive torn" effects]
      by (simp add: read_plugin_log_def)
  qed
  from cut(2) show ?thesis
  proof
    assume "torn = []"
    with run cut(3) len show ?thesis
      by (intro exI [of _ "min m (length es)"]) (auto simp: min_def)
  next
    assume "m < length ls \<and> (\<exists>j. 0 < j \<and> j \<le> length (ls ! m) \<and> torn = take j (ls ! m))"
    then obtain j where m: "m < length ls" and j: "0 < j" "j \<le> length (ls ! m)" "torn = take j (ls ! m)" by blast
    have w: "write_wire c \<lparr>lr_format = FORMAT, lr_plugin = p, lr_effect = es ! m\<rparr> = Ok (ls ! m)"
      using ls m by (simp add: written_lines_def list_all2_conv_all_nth)
    have "10 \<notin> set torn" using plain m j(3) by (auto dest: in_set_takeD)
    moreover have "torn \<noteq> []" using j by auto
    ultimately have "split_inclusive torn = [torn]" by (simp add: split_inclusive_torn)
    with run loop_torn [OF c w j(1,2), of ?p "length ?fs + length (take m ls)" "effects @ take m es"] found j(3)
    have "read_plugin_log c (existing @ take k (log_lines ls)) =
      Ok (if j = length (ls ! m) then (Some p, (effects @ take m es) @ [es ! m]) else (?p, effects @ take m es))"
      by auto
    with m len cut(3) show ?thesis
      by (intro exI [of _ "if j = length (ls ! m) then Suc m else m"]) (auto simp: take_Suc_conv_app_nth)
  qed
qed

section \<open>A small log\<close>

definition demo_logged :: log_record where
  "demo_logged = \<lparr>lr_format = FORMAT, lr_plugin = ''mail'', lr_effect = effect_external ''sent''\<rparr>"

definition demo_log_codec :: log_codec where
  "demo_log_codec =
     \<lparr>read_version = (\<lambda>l. if l = [123, 125] then Some FORMAT else None),
      read_wire = (\<lambda>l. if l = [123, 125] then Ok demo_logged else Err (JsonError ''EOF'' True)),
      write_wire = (\<lambda>r. if r = demo_logged then Ok [123, 125] else Err ''refused'')\<rparr>"

lemma demo_log_faithful: "faithful_log_codec demo_log_codec"
proof -
  have utf8: "from_utf8 0 [123, 125] = Ok [123, 125]" "from_utf8 0 [123] = Ok [123]"
    by (simp_all add: from_utf8.simps)
  show ?thesis
    by (auto simp: faithful_log_codec_def demo_log_codec_def demo_logged_def utf8 less_Suc_eq numeral_2_eq_2)
qed

definition demo_answers :: file_answers where
  "demo_answers = \<lparr>fs_dirs = None, fs_open = None, fs_read = None, fs_written = 0, fs_write = None, fs_flush = None\<rparr>"

definition demo_log_ledger :: ledger where
  "demo_log_ledger = \<lparr>led_plugin = ''mail'', led_effects = [effect_external ''sent'']\<rparr>"

lemma demo_append:
  "append_to_file demo_log_codec demo_answers demo_log_ledger None = (Ok 1, Some [123, 125, 10])"
  by (simp add: append_to_file_def ledger_encode_def demo_log_ledger_def log_serialize_def demo_log_codec_def
      demo_logged_def demo_answers_def or_io_def accepts_target_def written_def Let_def)

section \<open>Properties\<close>

text \<open>The plugin and the effects a log file holds; a file that is absent holds none.\<close>

definition log_content :: "log_codec \<Rightarrow> nat list option \<Rightarrow> log_error + plugin_id option \<times> effect list" where
  "log_content c target = (case target of None \<Rightarrow> Ok (None, []) | Some bytes \<Rightarrow> read_plugin_log c bytes)"

definition file_bytes :: "nat list option \<Rightarrow> nat list" where
  "file_bytes target = (case target of None \<Rightarrow> [] | Some bytes \<Rightarrow> bytes)"

lemma accepts_target_Ok:
  "accepts_target c l existing = Ok u \<Longrightarrow>
   existing = [] \<or> last existing = 10 \<and>
     (\<exists>found effects. read_plugin_log c existing = Ok (found, effects) \<and> (found = None \<or> found = Some (led_plugin l)))"
  by (auto simp: accepts_target_def and_then_eq_Inr split: if_splits option.splits)
    (metis option.exhaust)

lemma written_after:
  assumes c: "faithful_log_codec c" and ls: "written_lines c (led_plugin l) (led_effects l) ls"
    and old: "read_plugin_log c existing = Ok (found, effects)" and ok: "accepts_target c l existing = Ok ()"
  shows "\<exists>m. read_plugin_log c (existing @ written fs (log_lines ls)) =
      Ok (if m = 0 then found else Some (led_plugin l), effects @ take m (led_effects l)) \<and>
    m \<le> length (led_effects l) \<and> (fs_write fs = None \<longrightarrow> m = length (led_effects l)) \<and>
    (found = None \<or> found = Some (led_plugin l))"
proof -
  have sound: "existing = [] \<or> last existing = 10" "found = None \<or> found = Some (led_plugin l)"
    using accepts_target_Ok [OF ok] old by (auto simp: read_plugin_log_def)
  let ?k = "if fs_write fs = None then length (log_lines ls) else fs_written fs"
  have "written fs (log_lines ls) = take ?k (log_lines ls)" by (simp add: written_def)
  with appended_lines [OF c ls old sound, of ?k] sound(2) show ?thesis by auto
qed

text \<open>What stops an append before its first byte: an encoding, the way to the file, or the file itself.\<close>

definition append_refused :: "log_codec \<Rightarrow> file_answers \<Rightarrow> ledger \<Rightarrow> nat list option \<Rightarrow> bool" where
  "append_refused c fs l target \<longleftrightarrow>
     \<not> is_ok (ledger_encode c l) \<or> fs_dirs fs \<noteq> None \<or> fs_open fs \<noteq> None \<or> fs_read fs \<noteq> None \<or>
     \<not> is_ok (accepts_target c l (file_bytes target))"

text \<open>A refusal changes no byte, at most it leaves an empty file where there was none.\<close>

lemma append_refused_changes_nothing:
  assumes "append_to_file c fs l target = (r, target')" "append_refused c fs l target"
  shows "(\<exists>e. r = Err e) \<and> (target' = target \<or> target = None \<and> target' = Some [])"
  using assms
  by (auto simp: append_to_file_def append_refused_def Let_def file_bytes_def or_io_def and_then_def is_ok_def
      split: sum.splits option.splits)

lemma append_not_refused:
  assumes "append_to_file c fs l target = (r, target')" "\<not> append_refused c fs l target"
  shows "\<exists>records. ledger_encode c l = Ok records \<and> accepts_target c l (file_bytes target) = Ok () \<and>
    target' = Some (file_bytes target @ written fs records) \<and>
    r = and_then (or_io (fs_write fs)) (\<lambda>_. and_then (or_io (fs_flush fs)) (\<lambda>_. Ok (length (led_effects l))))"
  using assms
  by (auto simp: append_to_file_def append_refused_def Let_def file_bytes_def [symmetric] or_io_def and_then_def is_ok_def
      split: sum.splits)

text \<open>
  C30. Appending never loses what a log holds, however the append ends. No byte of the log is ever changed: what
  it has afterwards is what it had and some more. An append that is refused (a record cannot be encoded, the
  directories or the file cannot be made, opened or read, or the log does not take this plugin's records) leaves
  the file as it was, at most creating an empty one. Any other failure is one of writing or flushing; after it,
  even when the write ended in the middle of a record or of a character, the log holds what it held and the
  effects whose records were written whole, in order. After an append that returns a count it holds that and
  every effect of the ledger. What the log holds is what its reader makes of it, with a JSON codec that reads
  what it wrote and takes a record cut short for one that ended too early.
\<close>

theorem append_keeps_the_log:
  assumes c: "faithful_log_codec c" and before: "log_content c target = Ok (found, effects)"
    and run: "append_to_file c fs l target = (r, target')"
  shows "(\<exists>new. file_bytes target' = file_bytes target @ new) \<and>
    (append_refused c fs l target \<longrightarrow> (\<exists>e. r = Err e) \<and> (target' = target \<or> target = None \<and> target' = Some []) \<and>
      log_content c target' = Ok (found, effects)) \<and>
    (\<not> append_refused c fs l target \<longrightarrow>
      (\<forall>e. r = Err e \<longrightarrow> fs_write fs \<noteq> None \<or> fs_flush fs \<noteq> None) \<and>
      (\<exists>m found'. log_content c target' = Ok (found', effects @ take m (led_effects l)) \<and>
        m \<le> length (led_effects l) \<and> (found' = found \<or> found = None \<and> found' = Some (led_plugin l)) \<and>
        (\<forall>n. r = Ok n \<longrightarrow> m = length (led_effects l) \<and> n = m)))"
proof (cases "append_refused c fs l target")
  case True
  from append_refused_changes_nothing [OF run True] before True show ?thesis
    by (auto simp: log_content_def file_bytes_def read_plugin_log_def)
next
  case False
  from append_not_refused [OF run False] obtain records where records: "ledger_encode c l = Ok records"
    and ok: "accepts_target c l (file_bytes target) = Ok ()"
    and target': "target' = Some (file_bytes target @ written fs records)"
    and r: "r = and_then (or_io (fs_write fs)) (\<lambda>_. and_then (or_io (fs_flush fs)) (\<lambda>_. Ok (length (led_effects l))))"
    by blast
  from ledger_encode_lines [OF records] obtain ls where
    ls: "written_lines c (led_plugin l) (led_effects l) ls" "records = log_lines ls" by blast
  have "read_plugin_log c (file_bytes target) = Ok (found, effects)"
    using before by (cases target) (auto simp: log_content_def read_plugin_log_def file_bytes_def)
  from written_after [OF c ls(1) this ok, of fs]
  obtain m where m: "read_plugin_log c (file_bytes target @ written fs records) =
      Ok (if m = 0 then found else Some (led_plugin l), effects @ take m (led_effects l)) \<and>
    m \<le> length (led_effects l) \<and> (fs_write fs = None \<longrightarrow> m = length (led_effects l)) \<and>
    (found = None \<or> found = Some (led_plugin l))" unfolding ls(2) by (elim exE)
  have "r = Ok n \<Longrightarrow> fs_write fs = None \<and> n = length (led_effects l)" for n
    using r by (simp add: or_io_def and_then_eq_Inr split: option.splits)
  moreover have "r = Err e \<Longrightarrow> fs_write fs \<noteq> None \<or> fs_flush fs \<noteq> None" for e
    using r by (auto simp: or_io_def and_then_def split: option.splits)
  moreover from m have "log_content c target' =
      Ok (if m = 0 then found else Some (led_plugin l), effects @ take m (led_effects l))"
    by (simp add: log_content_def target')
  ultimately have "(\<forall>e. r = Err e \<longrightarrow> fs_write fs \<noteq> None \<or> fs_flush fs \<noteq> None) \<and>
      (\<exists>m found'. log_content c target' = Ok (found', effects @ take m (led_effects l)) \<and>
        m \<le> length (led_effects l) \<and> (found' = found \<or> found = None \<and> found' = Some (led_plugin l)) \<and>
        (\<forall>n. r = Ok n \<longrightarrow> m = length (led_effects l) \<and> n = m))"
    using m by (intro conjI exI [of _ m] exI [of _ "if m = 0 then found else Some (led_plugin l)"]) auto
  with False show ?thesis by (simp add: target' file_bytes_def)
qed

theorem append_keeps_the_log_witness:
  "\<exists>found. log_content demo_log_codec (Some [123, 125, 10]) = Ok (found, [effect_external ''sent''])"
proof -
  have "log_content demo_log_codec None = Ok (None, [])" by (simp add: log_content_def)
  moreover have "\<not> append_refused demo_log_codec demo_answers demo_log_ledger None"
    by (simp add: append_refused_def ledger_encode_def demo_log_ledger_def log_serialize_def demo_log_codec_def
        demo_logged_def demo_answers_def accepts_target_def file_bytes_def)
  ultimately show ?thesis
    using append_keeps_the_log [OF demo_log_faithful _ demo_append, of None "[]"]
    by (auto simp: demo_log_ledger_def)
qed

end
