(* ===== verification/Attachment_Graph.thy ===== *)
theory Attachment_Graph
  imports Universe
begin

text \<open>
  \<open>crates/plasmosome-core/src/closure.rs\<close>: the plugins attached to one cell, the providers each
  requires, and what a removal takes. The two loops of \<open>removal_closure\<close> are proved to end and to
  compute the least set their documentation describes. Indexing the map of providers panics in the
  code on an absent key; here that is \<open>None\<close>, and it is proved not to happen on a graph built by
  \<open>attach\<close>.
\<close>

section \<open>The graph and its operations\<close>

record attachment_graph =
  ag_providers :: "(plugin_id, plugin_id btree_set) btree_map"
  ag_named :: "plugin_id btree_set"

datatype graph_error =
    NotAttached plugin_id
  | UnknownProvider plugin_id plugin_id
  | AlreadyAttached plugin_id

definition ag_new :: attachment_graph where
  "ag_new = \<lparr>ag_providers = bt_empty, ag_named = bt_empty\<rparr>"

definition ag_contains :: "attachment_graph \<Rightarrow> plugin_id \<Rightarrow> bool" where
  "ag_contains g plugin = bt_contains_key (ag_providers g) plugin"

definition attach ::
  "plugin_id \<Rightarrow> plugin_id btree_set \<Rightarrow> bool \<Rightarrow> attachment_graph \<Rightarrow>
   (graph_error + unit) \<times> attachment_graph" where
  "attach plugin providers named g =
     (if ag_contains g plugin then (Err (AlreadyAttached plugin), g)
      else case List.find (\<lambda>provider. \<not> ag_contains g provider) (bt_keys providers) of
             Some provider \<Rightarrow> (Err (UnknownProvider plugin provider), g)
           | None \<Rightarrow>
               (Ok (), \<lparr>ag_providers = bt_insert plugin providers (ag_providers g),
                        ag_named = (if named then bs_insert plugin (ag_named g) else ag_named g)\<rparr>))"

definition requirers :: "attachment_graph \<Rightarrow> plugin_id \<Rightarrow> plugin_id list" where
  "requirers g provider =
     map fst (filter (\<lambda>e. bs_contains (snd e) provider) (entries (ag_providers g)))"

definition check_attached :: "attachment_graph \<Rightarrow> plugin_id \<Rightarrow> graph_error + unit" where
  "check_attached g plugin = (if ag_contains g plugin then Ok () else Err (NotAttached plugin))"

definition stranded_by :: "attachment_graph \<Rightarrow> plugin_id \<Rightarrow> graph_error + plugin_id list" where
  "stranded_by g root = and_then (check_attached g root) (\<lambda>_. Ok (requirers g root))"

text \<open>The body of the inner \<open>for\<close>: take each requirer not taken yet and push it.\<close>

fun push_requirers ::
  "plugin_id list \<Rightarrow> plugin_id btree_set \<Rightarrow> plugin_id list \<Rightarrow> plugin_id btree_set \<times> plugin_id list" where
  "push_requirers [] taken unvisited = (taken, unvisited)"
| "push_requirers (r # rs) taken unvisited =
     (if bs_contains taken r then push_requirers rs taken unvisited
      else push_requirers rs (bs_insert r taken) (r # unvisited))"

text \<open>The plugins and providers a graph mentions.\<close>

definition mentioned :: "attachment_graph \<Rightarrow> plugin_id set" where
  "mentioned g = {p. ag_contains g p} \<union>
     {q. \<exists>p ps. bt_get (ag_providers g) p = Some ps \<and> bs_contains ps q}"

lemma ag_contains_get: "ag_contains g p \<longleftrightarrow> (\<exists>ps. bt_get (ag_providers g) p = Some ps)"
  by (auto simp: ag_contains_def bt_contains_key_def)

lemma finite_mentioned: "finite (mentioned g)"
proof -
  have "mentioned g \<subseteq> set (bt_keys (ag_providers g)) \<union>
      (\<Union>ps \<in> set (bt_values (ag_providers g)). {q. bs_contains ps q})"
    unfolding mentioned_def ag_contains_get using bt_values_get [of _ "ag_providers g"]
    by (fastforce simp: bt_keys_get)
  moreover have "finite \<dots>" by (auto intro: finite_bs)
  ultimately show ?thesis by (rule finite_subset)
qed

lemma set_requirers:
  "p \<in> set (requirers g q) \<longleftrightarrow> (\<exists>ps. bt_get (ag_providers g) p = Some ps \<and> bs_contains ps q)"
  by (force simp: requirers_def entries_get [symmetric])

lemma requirers_mentioned: "set (requirers g q) \<subseteq> mentioned g"
  by (auto simp: set_requirers mentioned_def ag_contains_get)

lemma push_requirers_result:
  "push_requirers rs taken unvisited = (taken', unvisited') \<Longrightarrow>
   (\<forall>p. bs_contains taken' p \<longleftrightarrow> bs_contains taken p \<or> p \<in> set rs) \<and>
   set unvisited' = set unvisited \<union> {p \<in> set rs. \<not> bs_contains taken p}"
  by (induction rs taken unvisited rule: push_requirers.induct) (fastforce split: if_splits)+

lemma push_requirers_measure:
  "finite U \<Longrightarrow> set rs \<subseteq> U \<Longrightarrow> push_requirers rs taken unvisited = (taken', unvisited') \<Longrightarrow>
   card {p \<in> U. \<not> bs_contains taken' p} + length unvisited' =
   card {p \<in> U. \<not> bs_contains taken p} + length unvisited"
proof (induction rs taken unvisited rule: push_requirers.induct)
  case (2 r rs taken unvisited)
  show ?case
  proof (cases "bs_contains taken r")
    case False
    then have "{p \<in> U. \<not> bs_contains taken p} = insert r {p \<in> U. \<not> bs_contains (bs_insert r taken) p}"
      using 2(4) by auto
    moreover have "r \<notin> {p \<in> U. \<not> bs_contains (bs_insert r taken) p}" by simp
    ultimately show ?thesis using 2 False by simp
  qed (use 2 in simp)
qed simp

text \<open>\<open>while let Some(provider) = unvisited.pop()\<close>, the stack's top first.\<close>

function take_requirers ::
  "attachment_graph \<Rightarrow> plugin_id btree_set \<Rightarrow> plugin_id list \<Rightarrow> plugin_id btree_set" where
  "take_requirers g taken [] = taken"
| "take_requirers g taken (provider # unvisited) =
     (case push_requirers (requirers g provider) taken unvisited of
        (taken', unvisited') \<Rightarrow> take_requirers g taken' unvisited')"
  by pat_completeness auto

termination
proof (relation "measure (\<lambda>(g, taken, unvisited).
    card {p \<in> mentioned g. \<not> bs_contains taken p} + length unvisited)")
  fix g taken provider unvisited taken' unvisited'
  assume "(taken', unvisited') = push_requirers (requirers g provider) taken unvisited"
  then have "push_requirers (requirers g provider) taken unvisited = (taken', unvisited')" by simp
  from push_requirers_measure [OF finite_mentioned requirers_mentioned this]
  show "((g, taken', unvisited'), g, taken, provider # unvisited) \<in> measure (\<lambda>(g, taken, unvisited).
      card {p \<in> mentioned g. \<not> bs_contains taken p} + length unvisited)"
    by simp
qed simp

text \<open>The providers of one taken member; \<open>None\<close> where the code would panic.\<close>

fun providers_of_all :: "attachment_graph \<Rightarrow> plugin_id list \<Rightarrow> plugin_id list option" where
  "providers_of_all g [] = Some []"
| "providers_of_all g (member # members) =
     (case bt_get (ag_providers g) member of
        None \<Rightarrow> None
      | Some ps \<Rightarrow> map_option (\<lambda>rest. bt_keys ps @ rest) (providers_of_all g members))"

definition orphans :: "attachment_graph \<Rightarrow> plugin_id btree_set \<Rightarrow> plugin_id list option" where
  "orphans g taken =
     map_option (filter (\<lambda>provider. \<not> bs_contains taken provider \<and> \<not> bs_contains (ag_named g) provider \<and>
         list_all (bs_contains taken) (requirers g provider)))
       (providers_of_all g (bt_keys taken))"

definition bs_extend :: "'a::linorder list \<Rightarrow> 'a btree_set \<Rightarrow> 'a btree_set" where
  "bs_extend xs s = fold bs_insert xs s"

lemma bs_contains_extend [simp]: "bs_contains (bs_extend xs s) y \<longleftrightarrow> y \<in> set xs \<or> bs_contains s y"
  unfolding bs_extend_def by (induction xs arbitrary: s) auto

lemma providers_of_all_Some:
  "providers_of_all g ms = Some qs \<Longrightarrow>
   (\<forall>p \<in> set ms. ag_contains g p) \<and> set qs = {q. \<exists>p \<in> set ms. p \<in> set (requirers g q)}"
proof (induction ms arbitrary: qs)
  case (Cons p ms)
  then show ?case by (auto simp: set_requirers ag_contains_get set_bt_keys_bs split: option.splits)
qed simp

lemma providers_of_all_total: "\<forall>p \<in> set ms. ag_contains g p \<Longrightarrow> \<exists>qs. providers_of_all g ms = Some qs"
  by (induction ms) (auto simp: ag_contains_get)

lemma orphans_Some:
  assumes "orphans g taken = Some qs"
  shows "set qs = {q. (\<exists>p. bs_contains taken p \<and> p \<in> set (requirers g q)) \<and> \<not> bs_contains taken q \<and>
    \<not> bs_contains (ag_named g) q \<and> (\<forall>r \<in> set (requirers g q). bs_contains taken r)}"
proof -
  from assms obtain zs where zs: "providers_of_all g (bt_keys taken) = Some zs"
    "set qs = {q \<in> set zs. \<not> bs_contains taken q \<and> \<not> bs_contains (ag_named g) q \<and>
      (\<forall>r \<in> set (requirers g q). bs_contains taken r)}"
    by (auto simp: orphans_def list_all_iff)
  have "q \<in> set zs \<longleftrightarrow> (\<exists>p. bs_contains taken p \<and> p \<in> set (requirers g q))" for q
    using providers_of_all_Some [OF zs(1)] unfolding set_bt_keys_bs by blast
  with zs(2) show ?thesis by (simp only:)
qed

text \<open>The second \<open>loop\<close>: rounds of orphans until a round finds none.\<close>

function take_orphans :: "attachment_graph \<Rightarrow> plugin_id btree_set \<Rightarrow> plugin_id btree_set option" where
  "take_orphans g taken =
     (case orphans g taken of
        None \<Rightarrow> None
      | Some [] \<Rightarrow> Some taken
      | Some (q # qs) \<Rightarrow> take_orphans g (bs_extend (q # qs) taken))"
  by pat_completeness auto

termination
proof (relation "measure (\<lambda>(g, taken). card {p \<in> mentioned g. \<not> bs_contains taken p})")
  fix g taken x2 q qs
  assume "orphans g taken = Some x2" "x2 = q # qs"
  then have "q \<in> {q. (\<exists>p. bs_contains taken p \<and> p \<in> set (requirers g q)) \<and> \<not> bs_contains taken q}"
    using orphans_Some by force
  then have "q \<in> mentioned g" "\<not> bs_contains taken q"
    by (auto simp: mentioned_def set_requirers)
  then have "{p \<in> mentioned g. \<not> bs_contains (bs_extend (q # qs) taken) p} \<subset>
      {p \<in> mentioned g. \<not> bs_contains taken p}"
    by auto
  from psubset_card_mono [OF _ this] finite_mentioned
  show "((g, bs_extend (q # qs) taken), g, taken) \<in>
      measure (\<lambda>(g, taken). card {p \<in> mentioned g. \<not> bs_contains taken p})"
    by simp
qed simp

declare take_orphans.simps [simp del]

definition removal_closure ::
  "attachment_graph \<Rightarrow> plugin_id \<Rightarrow> (graph_error + plugin_id list) option" where
  "removal_closure g root =
     (case check_attached g root of
        Inl x \<Rightarrow> Some (Err x)
      | Inr _ \<Rightarrow>
          map_option (\<lambda>taken. Ok (bt_keys taken))
            (take_orphans g (take_requirers g (bs_of_list [root]) [root])))"

section \<open>What a removal takes\<close>

inductive requires_on :: "attachment_graph \<Rightarrow> plugin_id \<Rightarrow> plugin_id \<Rightarrow> bool" for g root where
  requires_self: "requires_on g root root"
| requires_step: "requires_on g root q \<Longrightarrow> p \<in> set (requirers g q) \<Longrightarrow> requires_on g root p"

inductive removed_with :: "attachment_graph \<Rightarrow> plugin_id \<Rightarrow> plugin_id \<Rightarrow> bool" for g root where
  removed_up: "requires_on g root p \<Longrightarrow> removed_with g root p"
| removed_orphan: "removed_with g root p \<Longrightarrow> p \<in> set (requirers g q) \<Longrightarrow> \<not> bs_contains (ag_named g) q \<Longrightarrow>
    (\<forall>r \<in> set (requirers g q). removed_with g root r) \<Longrightarrow> removed_with g root q"

lemma take_requirers_sound:
  "\<forall>p. bs_contains taken p \<longrightarrow> requires_on g root p \<Longrightarrow> \<forall>p \<in> set unvisited. requires_on g root p \<Longrightarrow>
   bs_contains (take_requirers g taken unvisited) p \<Longrightarrow> requires_on g root p"
proof (induction g taken unvisited rule: take_requirers.induct)
  case (2 g taken q unvisited)
  obtain taken' unvisited' where push:
    "push_requirers (requirers g q) taken unvisited = (taken', unvisited')" by fastforce
  note res = push_requirers_result [OF push]
  have "\<forall>p. bs_contains taken' p \<longrightarrow> requires_on g root p" "\<forall>p \<in> set unvisited'. requires_on g root p"
    using res 2(2,3) by (auto intro: requires_step)
  from 2(1) [OF push [symmetric] this] 2(4) push show ?case by simp
qed simp

text \<open>Every taken member is either still to be visited or has its requirers taken.\<close>

lemma take_requirers_closed:
  "\<forall>p. bs_contains taken p \<longrightarrow> p \<in> set unvisited \<or> (\<forall>r \<in> set (requirers g p). bs_contains taken r) \<Longrightarrow>
   bs_contains (take_requirers g taken unvisited) p \<Longrightarrow> r \<in> set (requirers g p) \<Longrightarrow>
   bs_contains (take_requirers g taken unvisited) r"
proof (induction g taken unvisited rule: take_requirers.induct)
  case (2 g taken q unvisited)
  obtain taken' unvisited' where push:
    "push_requirers (requirers g q) taken unvisited = (taken', unvisited')" by fastforce
  note res = push_requirers_result [OF push]
  have "\<forall>p. bs_contains taken' p \<longrightarrow> p \<in> set unvisited' \<or> (\<forall>r \<in> set (requirers g p). bs_contains taken' r)"
    using res 2(2) by auto
  from 2(1) [OF push [symmetric] this] 2(3,4) push show ?case by simp
qed auto

lemma take_requirers_mono:
  "bs_contains taken p \<Longrightarrow> bs_contains (take_requirers g taken unvisited) p"
proof (induction g taken unvisited rule: take_requirers.induct)
  case (2 g taken q unvisited)
  obtain taken' unvisited' where push:
    "push_requirers (requirers g q) taken unvisited = (taken', unvisited')" by fastforce
  from 2(1) [OF push [symmetric]] push_requirers_result [OF push] 2(2) push show ?case by simp
qed simp

lemma take_requirers_all:
  "bs_contains (take_requirers g (bs_of_list [root]) [root]) p \<longleftrightarrow> requires_on g root p"
proof
  assume "bs_contains (take_requirers g (bs_of_list [root]) [root]) p"
  then show "requires_on g root p"
    by (rule take_requirers_sound [rotated 2]) (auto intro: requires_self)
next
  assume "requires_on g root p"
  then show "bs_contains (take_requirers g (bs_of_list [root]) [root]) p"
  proof induction
    case requires_self
    then show ?case by (rule take_requirers_mono) simp
  next
    case (requires_step q p)
    then show ?case by (intro take_requirers_closed [of _ _ _ q p]) auto
  qed
qed

text \<open>A set of taken plugins with which the second loop may start or continue.\<close>

definition up_closed :: "attachment_graph \<Rightarrow> plugin_id btree_set \<Rightarrow> bool" where
  "up_closed g taken \<longleftrightarrow> (\<forall>p r. bs_contains taken p \<longrightarrow> r \<in> set (requirers g p) \<longrightarrow> bs_contains taken r)"

lemma take_orphans_sound:
  "\<forall>p. bs_contains taken p \<longrightarrow> removed_with g root p \<Longrightarrow> take_orphans g taken = Some t \<Longrightarrow>
   (\<forall>p. bs_contains taken p \<longrightarrow> bs_contains t p) \<and> (\<forall>p. bs_contains t p \<longrightarrow> removed_with g root p) \<and>
   orphans g t = Some []"
proof (induction g taken rule: take_orphans.induct)
  case (1 g taken)
  show ?case
  proof (cases "orphans g taken")
    case None
    with 1(3) show ?thesis by (simp add: take_orphans.simps)
  next
    case (Some qs)
    show ?thesis
    proof (cases qs)
      case Nil
      with 1(2,3) Some show ?thesis by (simp add: take_orphans.simps)
    next
      case (Cons q qs')
      have "\<forall>p. bs_contains (bs_extend qs taken) p \<longrightarrow> removed_with g root p"
        using 1(2) orphans_Some [OF Some] by (auto intro: removed_orphan)
      moreover have "take_orphans g (bs_extend qs taken) = Some t"
        using 1(3) Some Cons by (simp add: take_orphans.simps [of g taken])
      ultimately have "(\<forall>p. bs_contains (bs_extend qs taken) p \<longrightarrow> bs_contains t p) \<and>
          (\<forall>p. bs_contains t p \<longrightarrow> removed_with g root p) \<and> orphans g t = Some []"
        using 1(1) [OF Some Cons] unfolding Cons by blast
      then show ?thesis by simp
    qed
  qed
qed

lemma removed_with_taken:
  assumes "removed_with g root p" "\<And>p. requires_on g root p \<Longrightarrow> bs_contains t p" "orphans g t = Some []"
  shows "bs_contains t p"
  using assms(1)
proof induction
  case (removed_up p)
  then show ?case by (rule assms(2))
next
  case (removed_orphan p q)
  show ?case
  proof (rule ccontr)
    assume "\<not> bs_contains t q"
    with removed_orphan have "q \<in> set []"
      using orphans_Some [OF assms(3)] by blast
    then show False by simp
  qed
qed

section \<open>Graphs built by attach\<close>

inductive graph_reachable :: "attachment_graph \<Rightarrow> bool" where
  graph_start: "graph_reachable ag_new"
| graph_attach: "graph_reachable g \<Longrightarrow> graph_reachable (snd (attach plugin providers named g))"

definition graph_inv :: "attachment_graph \<Rightarrow> bool" where
  "graph_inv g \<longleftrightarrow>
     (\<forall>p q. p \<in> set (requirers g q) \<longrightarrow> ag_contains g q) \<and>
     (\<forall>p. bs_contains (ag_named g) p \<longrightarrow> ag_contains g p) \<and>
     acyclic {(p, q). p \<in> set (requirers g q)}"

lemma attach_Ok:
  "attach plugin providers named g = (Ok u, g') \<longleftrightarrow>
   \<not> ag_contains g plugin \<and> (\<forall>q. bs_contains providers q \<longrightarrow> ag_contains g q) \<and>
   g' = \<lparr>ag_providers = bt_insert plugin providers (ag_providers g),
         ag_named = (if named then bs_insert plugin (ag_named g) else ag_named g)\<rparr>"
  by (auto simp: attach_def find_NoneD set_bt_keys_bs split: option.splits dest: find_SomeD)

lemma attach_Err: "attach plugin providers named g = (Err x, g') \<Longrightarrow> g' = g"
  by (auto simp: attach_def split: if_splits option.splits)

text \<open>A source whose edges end elsewhere closes no cycle.\<close>

lemma acyclic_insert_source:
  assumes "acyclic R" "x \<notin> snd ` R" "x \<notin> Q"
  shows "acyclic (R \<union> {x} \<times> Q)"
proof -
  let ?S = "R \<union> {x} \<times> Q"
  have into: "(a, x) \<notin> ?S\<^sup>+" for a
  proof
    assume "(a, x) \<in> ?S\<^sup>+"
    then obtain b where "(b, x) \<in> ?S" by (meson tranclD2)
    with assms(2,3) show False by force
  qed
  have "(a, b) \<in> R\<^sup>+ \<or> a = x" if "(a, b) \<in> ?S\<^sup>+" for a b
    using that
  proof (induction rule: trancl_induct)
    case (step b c)
    then have "b \<noteq> x" using into by blast
    with step show ?case by (auto intro: trancl_into_trancl)
  qed auto
  with into assms(1) show ?thesis unfolding acyclic_def by blast
qed

lemma graph_inv_attach:
  assumes inv: "graph_inv g"
  shows "graph_inv (snd (attach plugin providers named g))"
proof (cases "fst (attach plugin providers named g)")
  case (Inl x)
  then show ?thesis
    using inv attach_Err [of plugin providers named g x "snd (attach plugin providers named g)"]
    by (metis prod.collapse)
next
  case (Inr u)
  let ?g = "snd (attach plugin providers named g)"
  from Inr have new: "\<not> ag_contains g plugin" "\<forall>q. bs_contains providers q \<longrightarrow> ag_contains g q"
    and g': "?g = \<lparr>ag_providers = bt_insert plugin providers (ag_providers g),
      ag_named = (if named then bs_insert plugin (ag_named g) else ag_named g)\<rparr>"
    using attach_Ok [of plugin providers named g u ?g] by (metis prod.collapse)+
  let ?R = "{(p, q). p \<in> set (requirers g q)}"
  have reqs: "p \<in> set (requirers ?g q) \<longleftrightarrow> p = plugin \<and> bs_contains providers q \<or> p \<in> set (requirers g q)" for p q
    using new(1) by (auto simp: g' set_requirers ag_contains_get)
  have cont: "ag_contains ?g p \<longleftrightarrow> p = plugin \<or> ag_contains g p" for p
    by (auto simp: g' ag_contains_get)
  have fresh: "plugin \<notin> snd ` ?R" using inv new(1) by (auto simp: graph_inv_def)
  have "acyclic {(p, q). p \<in> set (requirers ?g q)}"
  proof -
    have "{(p, q). p \<in> set (requirers ?g q)} = ?R \<union> {plugin} \<times> {q. bs_contains providers q}"
      using reqs by auto
    moreover have "acyclic (?R \<union> {plugin} \<times> {q. bs_contains providers q})"
    proof (rule acyclic_insert_source)
      show "acyclic ?R" using inv by (simp add: graph_inv_def)
      show "plugin \<notin> snd ` ?R" by (rule fresh)
      show "plugin \<notin> {q. bs_contains providers q}" using new by auto
    qed
    ultimately show ?thesis by simp
  qed
  then show ?thesis
    using inv new reqs cont by (auto simp: graph_inv_def g')
qed

lemma graph_reachable_inv: "graph_reachable g \<Longrightarrow> graph_inv g"
proof (induction rule: graph_reachable.induct)
  case graph_start
  then show ?case by (simp add: graph_inv_def ag_new_def requirers_def bt_empty.rep_eq acyclic_def)
qed (rule graph_inv_attach)

lemma requires_on_attached:
  "graph_inv g \<Longrightarrow> ag_contains g root \<Longrightarrow> requires_on g root p \<Longrightarrow> ag_contains g p"
  by (erule requires_on.cases) (auto simp: set_requirers ag_contains_get)

lemma removed_with_attached:
  "removed_with g root p \<Longrightarrow> graph_inv g \<Longrightarrow> ag_contains g root \<Longrightarrow> ag_contains g p"
  by (erule removed_with.cases) (auto intro: requires_on_attached simp: graph_inv_def)

lemma take_orphans_total:
  "\<forall>p. bs_contains taken p \<longrightarrow> ag_contains g p \<Longrightarrow> graph_inv g \<Longrightarrow> \<exists>t. take_orphans g taken = Some t"
proof (induction g taken rule: take_orphans.induct)
  case (1 g taken)
  then obtain qs where qs: "orphans g taken = Some qs"
    using providers_of_all_total [of "bt_keys taken" g] by (auto simp: orphans_def set_bt_keys_bs)
  show ?case
  proof (cases qs)
    case Nil
    with qs show ?thesis by (simp add: take_orphans.simps)
  next
    case (Cons q qs')
    have "\<forall>p. bs_contains (bs_extend qs taken) p \<longrightarrow> ag_contains g p"
      using 1(2,3) orphans_Some [OF qs] by (auto simp: graph_inv_def)
    with 1(1) [OF qs Cons] 1(3) Cons have "\<exists>t. take_orphans g (bs_extend qs taken) = Some t" by simp
    with qs Cons show ?thesis by (simp add: take_orphans.simps [of g taken])
  qed
qed

lemma removed_requirers:
  "removed_with g root p \<Longrightarrow> r \<in> set (requirers g p) \<Longrightarrow> removed_with g root r"
  by (induction rule: removed_with.induct) (auto intro: removed_up requires_step)

lemma removal_closure_set:
  assumes inv: "graph_inv g" and root: "ag_contains g root"
  shows "\<exists>ps. removal_closure g root = Some (Ok ps) \<and> sorted_wrt (<) ps \<and> set ps = {p. removed_with g root p}"
proof -
  define up where "up = take_requirers g (bs_of_list [root]) [root]"
  have up: "bs_contains up p \<longleftrightarrow> requires_on g root p" for p
    unfolding up_def by (rule take_requirers_all)
  obtain t where t: "take_orphans g up = Some t"
    using take_orphans_total [of up g] requires_on_attached [OF inv root] inv up by auto
  have sound: "(\<forall>p. bs_contains up p \<longrightarrow> bs_contains t p) \<and> (\<forall>p. bs_contains t p \<longrightarrow> removed_with g root p) \<and>
      orphans g t = Some []"
    by (rule take_orphans_sound [OF _ t]) (simp add: up removed_up)
  then have "bs_contains t p \<longleftrightarrow> removed_with g root p" for p
    using removed_with_taken [of g root p t] up by blast
  moreover have "removal_closure g root = Some (Ok (bt_keys t))"
    using root t unfolding removal_closure_def check_attached_def up_def by simp
  ultimately show ?thesis by (simp add: bt_keys_sorted set_bt_keys_bs)
qed

lemma stranded_by_empty: "stranded_by g root = Ok [] \<Longrightarrow> requires_on g root p \<longleftrightarrow> p = root"
proof
  assume none: "stranded_by g root = Ok []"
  have reqs: "requirers g root = []" using none by (auto simp: stranded_by_def and_then_eq_Inr)
  show "p = root" if "requires_on g root p"
    using that by induction (use reqs in auto)
qed (auto intro: requires_self)

section \<open>Properties\<close>

text \<open>
  C3. What a removal takes. On every graph that \<open>attach\<close> can build, \<open>removal_closure\<close> ends without a
  panic and returns, sorted and without repeats, exactly the least set the documentation describes: the
  root, all that transitively requires it, and every unnamed provider whose requirers are all taken.
\<close>

theorem removal_closure_exact:
  assumes "graph_reachable g"
  shows "(\<not> ag_contains g root \<longrightarrow> removal_closure g root = Some (Err (NotAttached root))) \<and>
    (ag_contains g root \<longrightarrow>
      (\<exists>ps. removal_closure g root = Some (Ok ps) \<and> sorted_wrt (<) ps \<and> set ps = {p. removed_with g root p}))"
  using removal_closure_set [OF graph_reachable_inv [OF assms]]
  by (auto simp: removal_closure_def check_attached_def)

definition demo_graph :: attachment_graph where
  "demo_graph =
     snd (attach ''app'' (bs_of_list [''mid'', ''net'']) True
     (snd (attach ''mid'' (bs_of_list [''base'']) False
     (snd (attach ''net'' bt_empty True
     (snd (attach ''base'' bt_empty False ag_new)))))))"

lemma demo_graph_reachable: "graph_reachable demo_graph"
  unfolding demo_graph_def by (intro graph_attach graph_start)

theorem removal_closure_exact_witness:
  "removal_closure demo_graph ''app'' = Some (Ok [''app'', ''base'', ''mid'']) \<and>
   (\<exists>ps. removal_closure demo_graph ''app'' = Some (Ok ps) \<and> set ps = {p. removed_with demo_graph ''app'' p})"
proof -
  have "removal_closure demo_graph ''app'' = Some (Ok [''app'', ''base'', ''mid''])" by code_simp
  moreover have "ag_contains demo_graph ''app''" by code_simp
  ultimately show ?thesis using removal_closure_exact [OF demo_graph_reachable, of "''app''"] by auto
qed

text \<open>
  A removal leaves a sound graph. Nothing that stays requires anything taken; a named plugin is
  taken only if it transitively requires the root; and a provider of a taken plugin that stays is
  named or is still required by something that stays. When \<open>stranded_by\<close> reports nothing, the root is
  the only plugin taken for its own sake.
\<close>

theorem removal_leaves_sound_graph:
  assumes "graph_reachable g" "removal_closure g root = Some (Ok ps)"
  shows "(\<forall>p q. p \<in> set (requirers g q) \<and> q \<in> set ps \<longrightarrow> p \<in> set ps) \<and>
    (\<forall>p \<in> set ps. bs_contains (ag_named g) p \<longrightarrow> requires_on g root p) \<and>
    (\<forall>p \<in> set ps. \<forall>q. p \<in> set (requirers g q) \<and> q \<notin> set ps \<longrightarrow>
       bs_contains (ag_named g) q \<or> (\<exists>r \<in> set (requirers g q). r \<notin> set ps)) \<and>
    (stranded_by g root = Ok [] \<longrightarrow> (\<forall>p \<in> set ps. bs_contains (ag_named g) p \<longrightarrow> p = root))"
proof -
  have "ag_contains g root"
    using assms(2) by (auto simp: removal_closure_def check_attached_def split: if_splits)
  from removal_closure_set [OF graph_reachable_inv [OF assms(1)] this] assms(2)
  have ps: "p \<in> set ps \<longleftrightarrow> removed_with g root p" for p by auto
  have named: "requires_on g root p" if "removed_with g root p" "bs_contains (ag_named g) p" for p
    using that by cases auto
  show ?thesis
    using named stranded_by_empty by (auto simp: ps intro: removed_requirers removed_orphan)
qed

theorem removal_leaves_sound_graph_witness:
  "removal_closure demo_graph ''mid'' = Some (Ok [''app'', ''base'', ''mid'']) \<and>
   set (requirers demo_graph ''base'') \<subseteq> set [''app'', ''base'', ''mid''] \<and> requires_on demo_graph ''mid'' ''app''"
proof -
  have taken: "removal_closure demo_graph ''mid'' = Some (Ok [''app'', ''base'', ''mid''])" by code_simp
  have named: "bs_contains (ag_named demo_graph) ''app''" by code_simp
  have "''base'' \<in> set [''app'', ''base'', ''mid'']" by simp
  with removal_leaves_sound_graph [OF demo_graph_reachable taken]
  have "set (requirers demo_graph ''base'') \<subseteq> set [''app'', ''base'', ''mid'']" by blast
  moreover from removal_leaves_sound_graph [OF demo_graph_reachable taken] named
  have "requires_on demo_graph ''mid'' ''app''" by simp
  ultimately show ?thesis using taken by blast
qed

text \<open>
  C4. Attaching keeps the graph sound: every provider of an attached plugin is attached, every named
  plugin is attached, no plugin requires itself through others, and a refusal changes nothing.
\<close>

theorem attach_keeps_graph_sound:
  assumes "graph_reachable g"
  shows "(\<forall>p q. p \<in> set (requirers g q) \<longrightarrow> ag_contains g q) \<and>
    (\<forall>p. bs_contains (ag_named g) p \<longrightarrow> ag_contains g p) \<and>
    acyclic {(p, q). p \<in> set (requirers g q)} \<and>
    (\<forall>plugin providers named x g'. attach plugin providers named g = (Err x, g') \<longrightarrow> g' = g)"
  using graph_reachable_inv [OF assms] attach_Err by (auto simp: graph_inv_def)

theorem attach_keeps_graph_sound_witness:
  "acyclic {(p, q). p \<in> set (requirers demo_graph q)} \<and> ''mid'' \<in> set (requirers demo_graph ''base'')"
proof -
  have "list_ex (\<lambda>p. p = ''mid'') (requirers demo_graph ''base'')" by code_simp
  then show ?thesis using attach_keeps_graph_sound [OF demo_graph_reachable] by (auto simp: list_ex_iff)
qed

end
