(* ===== verification/Version.thy ===== *)
theory Version
  imports Universe
begin

text \<open>
  \<open>crates/plasmosome-core/src/version.rs\<close>: versions, requirements on them, and the policy that
  selects one provider: an explicit pin overrides, otherwise the newest version that satisfies every
  requirement.
\<close>

section \<open>Versions and requirements\<close>

datatype version = Version (ver_major: u32) (ver_minor: u32) (ver_patch: u32)

text \<open>The derived order compares the fields in the order of their declaration.\<close>

instantiation version :: linorder
begin

definition less_eq_version :: "version \<Rightarrow> version \<Rightarrow> bool" where
  "less_eq_version a b =
     ((ver_major a, ver_minor a, ver_patch a) \<le> (ver_major b, ver_minor b, ver_patch b))"

definition less_version :: "version \<Rightarrow> version \<Rightarrow> bool" where
  "less_version a b =
     ((ver_major a, ver_minor a, ver_patch a) < (ver_major b, ver_minor b, ver_patch b))"

instance
  by standard (auto simp: less_eq_version_def less_version_def intro: version.expand)

end

datatype version_req = AnyVersion | Compatible u32 u32 | Pin version

record candidate =
  cand_provider :: plugin_id
  cand_version :: version

record conflict_policy =
  pol_pins :: "(string, version) btree_map"

datatype selection_error =
    NoProvider string
  | Unsatisfiable string "version list" "string list"
  | PinNotOffered string version "version list"

definition show_version :: "version \<Rightarrow> string" where
  "show_version v = show_nat (unat (ver_major v)) @ ''.'' @ show_nat (unat (ver_minor v)) @ ''.'' @
     show_nat (unat (ver_patch v))"

fun show_req :: "version_req \<Rightarrow> string" where
  "show_req AnyVersion = ''*''"
| "show_req (Compatible major minor) = ''^'' @ show_nat (unat major) @ ''.'' @ show_nat (unat minor)"
| "show_req (Pin v) = ''='' @ show_version v"

fun req_matches :: "version_req \<Rightarrow> version \<Rightarrow> bool" where
  "req_matches AnyVersion candidate \<longleftrightarrow> True"
| "req_matches (Compatible major minor) candidate \<longleftrightarrow>
     ver_major candidate = major \<and> ver_minor candidate \<ge> minor"
| "req_matches (Pin pinned) candidate \<longleftrightarrow> candidate = pinned"

section \<open>Selection\<close>

definition offered_versions :: "candidate list \<Rightarrow> version list" where
  "offered_versions candidates = sort (map cand_version candidates)"

text \<open>\<open>Iterator::max_by_key\<close>: the last of the elements with the greatest key.\<close>

definition max_by_key :: "('a \<Rightarrow> 'k::linorder) \<Rightarrow> 'a list \<Rightarrow> 'a option" where
  "max_by_key f xs =
     (case xs of
        [] \<Rightarrow> None
      | x # ys \<Rightarrow> Some (foldl (\<lambda>best y. if f best \<le> f y then y else best) x ys))"

text \<open>
  The \<open>expect\<close> on the maximum cannot fail after the guard above it; the model keeps the guard and
  returns the error of the guard where the code would panic.
\<close>

definition select_version ::
  "string \<Rightarrow> candidate list \<Rightarrow> version_req list \<Rightarrow> conflict_policy \<Rightarrow> selection_error + candidate" where
  "select_version capability candidates requirements policy =
     (if candidates = [] then Err (NoProvider capability)
      else case bt_get (pol_pins policy) capability of
             Some pin \<Rightarrow>
               (case List.find (\<lambda>c. cand_version c = pin) candidates of
                  None \<Rightarrow> Err (PinNotOffered capability pin (offered_versions candidates))
                | Some pinned \<Rightarrow>
                    (case List.find (\<lambda>r. \<not> req_matches r (cand_version pinned)) requirements of
                       Some bad \<Rightarrow> Err (Unsatisfiable capability [cand_version pinned] [show_req bad])
                     | None \<Rightarrow> Ok pinned))
           | None \<Rightarrow>
               (let satisfying = filter (\<lambda>c. list_all (\<lambda>r. req_matches r (cand_version c)) requirements) candidates
                in case max_by_key cand_version satisfying of
                     None \<Rightarrow> Err (Unsatisfiable capability (offered_versions candidates) (map show_req requirements))
                   | Some best \<Rightarrow> Ok best))"

lemma foldl_max_by:
  "let m = foldl (\<lambda>best y. if f best \<le> f y then y else best) x ys
   in m \<in> insert x (set ys) \<and> (\<forall>y \<in> insert x (set ys). f y \<le> f m)"
  for f :: "'a \<Rightarrow> 'k::linorder"
proof (induction ys arbitrary: x)
  case (Cons y ys)
  from Cons.IH [of "if f x \<le> f y then y else x"] show ?case
    by (auto simp: Let_def split: if_splits)
qed simp

lemma max_by_key_Some: "max_by_key f xs = Some m \<Longrightarrow> m \<in> set xs \<and> (\<forall>x \<in> set xs. f x \<le> f m)"
  using foldl_max_by [of f] by (auto simp: max_by_key_def Let_def split: list.splits)

lemma max_by_key_None: "max_by_key f xs = None \<longleftrightarrow> xs = []"
  by (auto simp: max_by_key_def split: list.splits)

text \<open>
  C5. The selected provider. A selection that succeeds is one of the candidates and satisfies every
  requirement; with a pin it has exactly the pinned version, and without one no candidate that
  satisfies every requirement is newer.
\<close>

theorem select_version_best:
  assumes "select_version capability candidates requirements policy = Ok c"
  shows "c \<in> set candidates \<and> (\<forall>r \<in> set requirements. req_matches r (cand_version c)) \<and>
    (case bt_get (pol_pins policy) capability of
       Some pin \<Rightarrow> cand_version c = pin
     | None \<Rightarrow> \<forall>d \<in> set candidates.
         (\<forall>r \<in> set requirements. req_matches r (cand_version d)) \<longrightarrow> cand_version d \<le> cand_version c)"
proof (cases "bt_get (pol_pins policy) capability")
  case None
  with assms show ?thesis
    by (auto simp: select_version_def Let_def list_all_iff split: if_splits option.splits
        dest!: max_by_key_Some)
next
  case (Some pin)
  with assms show ?thesis
    by (auto simp: select_version_def find_NoneD split: if_splits option.splits dest!: find_SomeD)
qed

theorem select_version_best_witness:
  "let c = \<lparr>cand_provider = ''b'', cand_version = Version 1 4 0\<rparr> in
   select_version ''db'' [\<lparr>cand_provider = ''a'', cand_version = Version 1 2 9\<rparr>, c,
     \<lparr>cand_provider = ''c'', cand_version = Version 2 0 0\<rparr>] [Compatible 1 2] \<lparr>pol_pins = bt_empty\<rparr> = Ok c \<and>
   req_matches (Compatible 1 2) (cand_version c)"
proof -
  let ?c = "\<lparr>cand_provider = ''b'', cand_version = Version 1 4 0\<rparr>"
  have run: "select_version ''db'' [\<lparr>cand_provider = ''a'', cand_version = Version 1 2 9\<rparr>, ?c,
     \<lparr>cand_provider = ''c'', cand_version = Version 2 0 0\<rparr>] [Compatible 1 2] \<lparr>pol_pins = bt_empty\<rparr> = Ok ?c"
    by code_simp
  from select_version_best [OF run] run show ?thesis by (simp add: Let_def)
qed

text \<open>
  Why a selection fails. It fails exactly when there is no candidate, when a pin names a version
  no candidate offers, when the pinned candidate breaks a requirement, or, without a pin, when every
  candidate breaks one.
\<close>

theorem select_version_fails_iff:
  "\<not> is_ok (select_version capability candidates requirements policy) \<longleftrightarrow>
   (case bt_get (pol_pins policy) capability of
      Some pin \<Rightarrow> (\<forall>c \<in> set candidates. cand_version c \<noteq> pin) \<or> (\<exists>r \<in> set requirements. \<not> req_matches r pin)
    | None \<Rightarrow> \<forall>c \<in> set candidates. \<exists>r \<in> set requirements. \<not> req_matches r (cand_version c))"
proof (cases "bt_get (pol_pins policy) capability")
  case None
  let ?fit = "filter (\<lambda>c. list_all (\<lambda>r. req_matches r (cand_version c)) requirements) candidates"
  have "is_ok (select_version capability candidates requirements policy) \<longleftrightarrow> ?fit \<noteq> []"
    using None max_by_key_None [of cand_version ?fit]
    by (auto simp: select_version_def Let_def split: option.splits)
  with None show ?thesis by (auto simp: filter_empty_conv list_all_iff)
next
  case (Some pin)
  then show ?thesis
    by (auto simp: select_version_def find_NoneD split: option.splits dest!: find_SomeD)
qed

theorem select_version_fails_iff_witness:
  "\<not> is_ok (select_version ''db'' [\<lparr>cand_provider = ''a'', cand_version = Version 1 2 9\<rparr>]
     [Compatible 1 3] \<lparr>pol_pins = bt_empty\<rparr>)"
  unfolding select_version_fails_iff by simp

end
