(* ===== verification/Registry.thy ===== *)
theory Registry
  imports Universe
begin

text \<open>
  \<open>crates/plasmosome-core/src/registry.rs\<close>: each cell's tool names and the plasmid holding each one.
  The mutex around the map is taken once per call, so an operation is one step on the map.
\<close>

section \<open>State and operations\<close>

text \<open>The two fields of \<open>manifest::ToolDeclaration\<close> the registry reads.\<close>

record tool_declaration =
  td_name :: string
  td_description :: string

type_synonym tool_registry = "(cell_id \<times> string, plugin_id \<times> string) btree_map"

record registry_entry =
  re_owner :: cell_owner
  re_tool :: string
  re_description :: string

datatype lookup_error = UnknownTool cell_id string

datatype register_error = ToolHeld cell_id string plugin_id

definition registry_new :: tool_registry where
  "registry_new = bt_empty"

definition tool_refusal :: "cell_owner \<Rightarrow> tool_registry \<Rightarrow> tool_declaration \<Rightarrow> register_error option" where
  "tool_refusal owner reg tool =
     (case bt_get reg (own_cell owner, td_name tool) of
        None \<Rightarrow> None
      | Some (holder, _) \<Rightarrow>
          if holder \<noteq> own_plugin owner then Some (ToolHeld (own_cell owner) (td_name tool) holder) else None)"

definition register_tool :: "cell_owner \<Rightarrow> tool_declaration \<Rightarrow> tool_registry \<Rightarrow> tool_registry" where
  "register_tool owner tool reg =
     bt_insert (own_cell owner, td_name tool) (own_plugin owner, td_description tool) reg"

definition register ::
  "cell_owner \<Rightarrow> tool_declaration list \<Rightarrow> tool_registry \<Rightarrow> (register_error + unit) \<times> tool_registry" where
  "register owner tools reg =
     (case find_map (tool_refusal owner reg) tools of
        Some refusal \<Rightarrow> (Err refusal, reg)
      | None \<Rightarrow> (Ok (), fold (register_tool owner) tools reg))"

definition registry_list :: "cell_id \<Rightarrow> tool_registry \<Rightarrow> string list" where
  "registry_list cell reg = map snd (filter (\<lambda>k. fst k = cell) (bt_keys reg))"

definition lookup_tool :: "cell_id \<Rightarrow> string \<Rightarrow> tool_registry \<Rightarrow> lookup_error + registry_entry" where
  "lookup_tool cell tool reg =
     ok_or (map_option (\<lambda>(plugin, description).
         \<lparr>re_owner = CellOwner cell plugin, re_tool = tool, re_description = description\<rparr>)
       (bt_get reg (cell, tool))) (UnknownTool cell tool)"

definition held_by :: "cell_owner \<Rightarrow> cell_id \<times> string \<Rightarrow> plugin_id \<times> string \<Rightarrow> bool" where
  "held_by owner k v \<longleftrightarrow> fst k = own_cell owner \<and> fst v = own_plugin owner"

definition withdraw :: "cell_owner \<Rightarrow> tool_registry \<Rightarrow> string list \<times> tool_registry" where
  "withdraw owner reg =
     (map (\<lambda>e. snd (fst e)) (filter (\<lambda>e. held_by owner (fst e) (snd e)) (entries reg)),
      bt_retain (\<lambda>k v. \<not> held_by owner k v) reg)"

definition registry_len :: "tool_registry \<Rightarrow> nat" where
  "registry_len reg = bt_len reg"

definition registry_is_empty :: "tool_registry \<Rightarrow> bool" where
  "registry_is_empty reg = (registry_len reg = 0)"

section \<open>Lemmas\<close>

lemma get_registered:
  "bt_get (fold (register_tool owner) tools reg) k =
   (if fst k = own_cell owner \<and> snd k \<in> td_name ` set tools
    then map_option (\<lambda>t. (own_plugin owner, td_description t)) (List.find (\<lambda>t. td_name t = snd k) (rev tools))
    else bt_get reg k)"
proof (induction tools rule: rev_induct)
  case (snoc t tools)
  then show ?case by (cases k) (auto simp: register_tool_def)
qed simp

lemma tool_refusal_None:
  "tool_refusal owner reg tool = None \<longleftrightarrow>
   (\<forall>holder d. bt_get reg (own_cell owner, td_name tool) = Some (holder, d) \<longrightarrow> holder = own_plugin owner)"
  by (auto simp: tool_refusal_def split: option.splits)

lemma register_Ok:
  "register owner tools reg = (Ok u, reg') \<longleftrightarrow>
   (\<forall>t \<in> set tools. tool_refusal owner reg t = None) \<and> reg' = fold (register_tool owner) tools reg"
  by (auto simp: register_def find_map_None split: option.splits)
    (metis find_map_None option.distinct(1))

lemma register_Err:
  "register owner tools reg = (Err x, reg') \<longleftrightarrow>
   find_map (tool_refusal owner reg) tools = Some x \<and> reg' = reg"
  by (auto simp: register_def split: option.splits)

lemma get_withdrawn:
  "bt_get (snd (withdraw owner reg)) k =
   (case bt_get reg k of Some v \<Rightarrow> if held_by owner k v then None else Some v | None \<Rightarrow> None)"
  by (simp add: withdraw_def split: option.splits)

lemma set_withdrawn:
  "tool \<in> set (fst (withdraw owner reg)) \<longleftrightarrow> (\<exists>d. bt_get reg (own_cell owner, tool) = Some (own_plugin owner, d))"
  by (force simp: withdraw_def held_by_def entries_get [symmetric])

section \<open>Properties\<close>

text \<open>
  C6. Registration is all or nothing and steals no name. When it succeeds every declared name resolves
  in that cell to the registering plasmid, every other name of every cell resolves as before, and no
  name changes its holder; when another plasmid holds one of the names in that cell it is refused
  naming that holder, and nothing changes.
\<close>

theorem register_all_or_nothing:
  assumes "register owner tools reg = (r, reg')"
  shows "(is_ok r \<longrightarrow>
      (\<forall>t \<in> set tools. \<exists>d. lookup_tool (own_cell owner) (td_name t) reg' =
         Ok \<lparr>re_owner = owner, re_tool = td_name t, re_description = d\<rparr>) \<and>
      (\<forall>cell tool. cell \<noteq> own_cell owner \<or> tool \<notin> td_name ` set tools \<longrightarrow>
         lookup_tool cell tool reg' = lookup_tool cell tool reg) \<and>
      (\<forall>k holder d. bt_get reg k = Some (holder, d) \<longrightarrow> (\<exists>d'. bt_get reg' k = Some (holder, d')))) \<and>
    (\<forall>x. r = Err x \<longrightarrow> reg' = reg \<and>
      (\<exists>t \<in> set tools. \<exists>holder d. x = ToolHeld (own_cell owner) (td_name t) holder \<and> holder \<noteq> own_plugin owner \<and>
         bt_get reg (own_cell owner, td_name t) = Some (holder, d)))"
proof (cases r)
  case (Inl x)
  with assms have "find_map (tool_refusal owner reg) tools = Some x" "reg' = reg"
    by (simp_all add: register_Err)
  then show ?thesis
    using Inl by (auto simp: find_map_Some tool_refusal_def split: option.splits if_splits)
next
  case (Inr u)
  with assms have free: "\<forall>t \<in> set tools. tool_refusal owner reg t = None"
    and reg': "reg' = fold (register_tool owner) tools reg"
    by (simp_all add: register_Ok)
  have "\<exists>t'. List.find (\<lambda>t'. td_name t' = n) (rev tools) = Some t'" if "n \<in> td_name ` set tools" for n
    using that find_NoneD [of "\<lambda>t'. td_name t' = n" "rev tools"] by fastforce
  then show ?thesis
    using Inr free reg' by (cases owner) (fastforce simp: lookup_tool_def get_registered tool_refusal_None)
qed

definition demo_registry :: tool_registry where
  "demo_registry = bt_insert (''one'', ''grep'') (''search'', ''find text'') registry_new"

theorem register_all_or_nothing_witness:
  "register (CellOwner ''one'' ''other'') [\<lparr>td_name = ''ls'', td_description = ''list''\<rparr>,
     \<lparr>td_name = ''grep'', td_description = ''mine''\<rparr>] demo_registry =
   (Err (ToolHeld ''one'' ''grep'' ''search''), demo_registry) \<and>
   (\<exists>d. bt_get demo_registry (''one'', ''grep'') = Some (''search'', d))"
proof -
  let ?tools = "[\<lparr>td_name = ''ls'', td_description = ''list''\<rparr>, \<lparr>td_name = ''grep'', td_description = ''mine''\<rparr>]"
  have run: "register (CellOwner ''one'' ''other'') ?tools demo_registry =
      (Err (ToolHeld ''one'' ''grep'' ''search''), demo_registry)" by code_simp
  from register_all_or_nothing [OF run] run show ?thesis by auto
qed

text \<open>
  Withdrawing takes exactly what the owner holds in its cell. The names returned are those it held,
  in order and once each; afterwards none of them resolves in that cell, and every other entry, the
  same plasmid's in other cells included, resolves as before.
\<close>

theorem withdraw_exact:
  assumes "withdraw owner reg = (names, reg')"
  shows "(\<forall>tool. tool \<in> set names \<longleftrightarrow> (\<exists>d. bt_get reg (own_cell owner, tool) = Some (own_plugin owner, d))) \<and>
    sorted_wrt (<) names \<and>
    (\<forall>tool \<in> set names. lookup_tool (own_cell owner) tool reg' = Err (UnknownTool (own_cell owner) tool)) \<and>
    (\<forall>cell tool. cell \<noteq> own_cell owner \<or> tool \<notin> set names \<longrightarrow>
       lookup_tool cell tool reg' = lookup_tool cell tool reg)"
proof -
  have reg': "reg' = snd (withdraw owner reg)" and names: "names = fst (withdraw owner reg)"
    using assms by simp_all
  have "sorted_wrt (\<lambda>a b. fst a < fst b) (filter (\<lambda>e. held_by owner (fst e) (snd e)) (entries reg))"
    using bt_keys_sorted [of reg] by (simp add: bt_keys_def sorted_wrt_map sorted_wrt_filter)
  then have "sorted_wrt (<) names"
    unfolding names withdraw_def fst_conv sorted_wrt_map
    by (rule sorted_wrt_mono_rel [rotated]) (auto simp: held_by_def less_prod_def)
  then show ?thesis
    unfolding lookup_tool_def reg' names
    by (auto simp: set_withdrawn get_withdrawn held_by_def split: option.splits)
qed

theorem withdraw_exact_witness:
  "withdraw (CellOwner ''one'' ''search'') demo_registry = ([''grep''], registry_new) \<and>
   lookup_tool ''one'' ''grep'' registry_new = Err (UnknownTool ''one'' ''grep'')"
proof -
  have run: "withdraw (CellOwner ''one'' ''search'') demo_registry = ([''grep''], registry_new)" by code_simp
  from withdraw_exact [OF run] run show ?thesis by auto
qed

end
