(* ===== verification/Kill_Budget.thy ===== *)
theory Kill_Budget
  imports Universe
begin

text \<open>
  \<open>crates/plasmosome-core/src/kill_budget.rs\<close>: the deadline shares of one \<open>cell.kill\<close>, counted from
  the request's arrival, and the closed set of steps its reply may list as incomplete. A \<open>Duration\<close> is
  a number of nanoseconds, an \<open>Instant\<close> its distance in nanoseconds from the clock's origin. Each
  share reads the clock once; the reading is the argument \<open>reading\<close>.
\<close>

section \<open>State and shares\<close>

type_synonym instant = nat

definition MOST_LOCK_RESERVE :: duration where "MOST_LOCK_RESERVE = 3000000000"

definition MOST_WORKLOAD_STOP :: duration where "MOST_WORKLOAD_STOP = 5000000000"

record kill_budget =
  kb_arrival :: instant
  kb_total :: duration
  kb_now :: bool

datatype 'a share = Run 'a | NoBudget

datatype workload_stop = StopRun duration | StopNoBudget | StopSkipped

record withdrawal =
  wd_share :: duration
  wd_drain :: duration
  wd_effect :: duration
  wd_publication :: duration

record guest_stop =
  gs_drain :: drain_spec
  gs_answer_wait :: duration

definition kill_budget_new :: "instant \<Rightarrow> duration \<Rightarrow> bool \<Rightarrow> kill_budget" where
  "kill_budget_new arrival tot now = \<lparr>kb_arrival = arrival, kb_total = tot, kb_now = now\<rparr>"

text \<open>\<open>saturating_duration_since\<close> and \<open>saturating_sub\<close> are subtraction on naturals.\<close>

definition remaining :: "kill_budget \<Rightarrow> instant \<Rightarrow> duration" where
  "remaining b reading = kb_total b - (reading - kb_arrival b)"

definition clamp :: "nat \<Rightarrow> nat \<Rightarrow> nat \<Rightarrow> nat" where
  "clamp lo hi x = (if x < lo then lo else if hi < x then hi else x)"

definition lock_reserve :: "kill_budget \<Rightarrow> duration" where
  "lock_reserve b = clamp MS MOST_LOCK_RESERVE (kb_total b div 10)"

definition spendable :: "kill_budget \<Rightarrow> instant \<Rightarrow> duration" where
  "spendable b reading = remaining b reading - lock_reserve b"

definition at_least_one_ms :: "duration \<Rightarrow> duration option" where
  "at_least_one_ms d = (let whole = whole_ms d in if whole < MS then None else Some whole)"

definition workload_stop_share :: "kill_budget \<Rightarrow> instant \<Rightarrow> workload_stop" where
  "workload_stop_share b reading =
     (if kb_now b then StopSkipped
      else (let cap = clamp MS MOST_WORKLOAD_STOP (kb_total b div 10)
            in case at_least_one_ms (min cap (spendable b reading div 3)) of
                 Some share \<Rightarrow> StopRun share
               | None \<Rightarrow> StopNoBudget))"

definition withdrawal_share :: "kill_budget \<Rightarrow> instant \<Rightarrow> withdrawal share" where
  "withdrawal_share b reading =
     (let share = spendable b reading div 2;
          drain = share div 2;
          effect = share div 4
      in case (at_least_one_ms drain, at_least_one_ms effect, at_least_one_ms (share - drain - effect)) of
           (Some d, Some e, Some p) \<Rightarrow>
             Run \<lparr>wd_share = whole_ms share, wd_drain = d, wd_effect = e, wd_publication = p\<rparr>
         | _ \<Rightarrow> NoBudget)"

definition guest_stop_share :: "kill_budget \<Rightarrow> instant \<Rightarrow> guest_stop" where
  "guest_stop_share b reading =
     (let answer_wait = whole_ms (max (spendable b reading) MS);
          drain = (if kb_now b then \<lparr>ds_deadline = MS, ds_policy = Force\<rparr>
                   else (let teardown = max MS (answer_wait div 4)
                         in drain_graceful (whole_ms (max (answer_wait - teardown) MS))))
      in \<lparr>gs_drain = drain, gs_answer_wait = answer_wait\<rparr>)"

text \<open>
  The loop of \<open>lock_wait_until\<close>. The latest instant the platform can hold is a parameter;
  \<open>Instant::checked_add\<close> answers exactly when the sum does not pass it.
\<close>

definition instant_checked_add :: "instant \<Rightarrow> instant \<Rightarrow> duration \<Rightarrow> instant option" where
  "instant_checked_add latest at span = (if at + span \<le> latest then Some (at + span) else None)"

partial_function (option) lock_wait_loop :: "instant \<Rightarrow> instant \<Rightarrow> duration \<Rightarrow> instant option" where
  "lock_wait_loop latest arrival span =
     (case instant_checked_add latest arrival span of
        Some until \<Rightarrow> Some until
      | None \<Rightarrow> lock_wait_loop latest arrival (span div 2))"

definition lock_wait_until :: "instant \<Rightarrow> kill_budget \<Rightarrow> instant option" where
  "lock_wait_until latest b = lock_wait_loop latest (kb_arrival b) (kb_total b)"

section \<open>The incomplete steps\<close>

datatype shortfall = SfWorkloadStop | SfShutdown | SfTeardown

fun shortfall_rank :: "shortfall \<Rightarrow> nat" where
  "shortfall_rank SfWorkloadStop = 0"
| "shortfall_rank SfShutdown = 1"
| "shortfall_rank SfTeardown = 2"

lemma shortfall_rank_inj: "shortfall_rank a = shortfall_rank b \<longleftrightarrow> a = b"
  by (cases a; cases b) auto

instantiation shortfall :: linorder
begin

definition less_eq_shortfall :: "shortfall \<Rightarrow> shortfall \<Rightarrow> bool" where
  "less_eq_shortfall a b = (shortfall_rank a \<le> shortfall_rank b)"

definition less_shortfall :: "shortfall \<Rightarrow> shortfall \<Rightarrow> bool" where
  "less_shortfall a b = (shortfall_rank a < shortfall_rank b)"

instance
  by standard (auto simp: less_eq_shortfall_def less_shortfall_def shortfall_rank_inj)

end

type_synonym incomplete = "shortfall btree_set"

definition incomplete_add :: "shortfall \<Rightarrow> bool \<Rightarrow> incomplete \<Rightarrow> incomplete" where
  "incomplete_add sf now s = (if \<not> now \<or> sf = SfTeardown then bs_insert sf s else s)"

definition is_retirement :: "incomplete \<Rightarrow> bool" where
  "is_retirement s \<longleftrightarrow> \<not> bs_contains s SfTeardown"

definition incomplete_is_empty :: "incomplete \<Rightarrow> bool" where
  "incomplete_is_empty s = bt_is_empty s"

definition incomplete_serialize :: "incomplete \<Rightarrow> shortfall list" where
  "incomplete_serialize s = bt_keys s"

fun incomplete_read :: "shortfall list \<Rightarrow> incomplete \<Rightarrow> string + incomplete" where
  "incomplete_read [] read = Ok read"
| "incomplete_read (sf # sfs) read =
     (if bs_contains read sf then Err ''incomplete lists an entry twice''
      else incomplete_read sfs (bs_insert sf read))"

definition incomplete_deserialize :: "shortfall list \<Rightarrow> string + incomplete" where
  "incomplete_deserialize sfs = incomplete_read sfs bt_empty"

section \<open>Lemmas\<close>

lemma at_least_one_ms_Some: "at_least_one_ms d = Some w \<longleftrightarrow> w = whole_ms d \<and> MS \<le> whole_ms d"
  by (auto simp: at_least_one_ms_def Let_def)

lemma lock_reserve_bounds: "MS \<le> lock_reserve b \<and> lock_reserve b \<le> MOST_LOCK_RESERVE"
  by (auto simp: lock_reserve_def clamp_def MS_def MOST_LOCK_RESERVE_def)

lemma spendable_within:
  "0 < spendable b reading \<Longrightarrow> kb_arrival b \<le> reading \<Longrightarrow>
   reading + spendable b reading + lock_reserve b = kb_arrival b + kb_total b"
  by (simp add: spendable_def remaining_def)

lemma lock_wait_loop_finds:
  "arrival \<le> latest \<Longrightarrow>
   \<exists>until. lock_wait_loop latest arrival span = Some until \<and> arrival \<le> until \<and> until \<le> latest \<and>
     until \<le> arrival + span \<and>
     (if arrival + span \<le> latest then until = arrival + span else latest - arrival \<le> 2 * (until - arrival))"
proof (induction span rule: less_induct)
  case (less span)
  show ?case
  proof (cases "arrival + span \<le> latest")
    case True
    then show ?thesis by (simp add: lock_wait_loop.simps [of latest arrival span] instant_checked_add_def)
  next
    case False
    then have "0 < span" using less.prems by auto
    then have "span div 2 < span" by simp
    from less.IH [OF this less.prems] obtain until where u:
      "lock_wait_loop latest arrival (span div 2) = Some until" "arrival \<le> until" "until \<le> latest"
      "until \<le> arrival + span div 2"
      "if arrival + span div 2 \<le> latest then until = arrival + span div 2
       else latest - arrival \<le> 2 * (until - arrival)"
      by blast
    then have "latest - arrival \<le> 2 * (until - arrival)" using False by (auto split: if_splits)
    with u False show ?thesis
      by (auto simp: lock_wait_loop.simps [of latest arrival span] instant_checked_add_def)
  qed
qed

lemma incomplete_read_Ok:
  "incomplete_read sfs read = Ok s \<longleftrightarrow>
   distinct sfs \<and> (\<forall>sf \<in> set sfs. \<not> bs_contains read sf) \<and> s = fold bs_insert sfs read"
  by (induction sfs read rule: incomplete_read.induct) auto

section \<open>Properties\<close>

text \<open>
  C7. The withdrawal's share. Whenever step 2 gets a budget, its three parts are whole milliseconds of
  at least one, they fit together inside the share, and the share ends, with the lock reserve still
  unspent, no later than the kill's deadline.
\<close>

theorem withdrawal_within_deadline:
  assumes "withdrawal_share b reading = Run w" "kb_arrival b \<le> reading"
  shows "MS \<le> wd_drain w \<and> MS \<le> wd_effect w \<and> MS \<le> wd_publication w \<and>
    MS dvd wd_share w \<and> MS dvd wd_drain w \<and> MS dvd wd_effect w \<and> MS dvd wd_publication w \<and>
    wd_drain w + wd_effect w + wd_publication w \<le> wd_share w \<and>
    reading + wd_share w + lock_reserve b \<le> kb_arrival b + kb_total b"
proof -
  let ?share = "spendable b reading div 2"
  let ?rest = "?share - ?share div 2 - ?share div 4"
  from assms(1) have w: "w = \<lparr>wd_share = whole_ms ?share, wd_drain = whole_ms (?share div 2),
      wd_effect = whole_ms (?share div 4), wd_publication = whole_ms ?rest\<rparr>"
    and least: "MS \<le> whole_ms (?share div 2)" "MS \<le> whole_ms (?share div 4)" "MS \<le> whole_ms ?rest"
    by (auto simp: withdrawal_share_def Let_def at_least_one_ms_Some split: option.splits)
  have "whole_ms (?share div 2) + whole_ms (?share div 4) + whole_ms ?rest \<le> ?share"
    using whole_ms_le [of "?share div 2"] whole_ms_le [of "?share div 4"] whole_ms_le [of ?rest] by linarith
  then have "whole_ms (whole_ms (?share div 2) + whole_ms (?share div 4) + whole_ms ?rest) \<le> whole_ms ?share"
    by (rule whole_ms_mono)
  then have parts: "whole_ms (?share div 2) + whole_ms (?share div 4) + whole_ms ?rest \<le> whole_ms ?share"
    by (simp add: whole_ms_id whole_ms_dvd)
  have "0 < spendable b reading"
    using least(1) whole_ms_le [of "?share div 2"] by (cases "spendable b reading") (auto simp: MS_def)
  from spendable_within [OF this assms(2)] whole_ms_le [of ?share]
  have "reading + whole_ms ?share + lock_reserve b \<le> kb_arrival b + kb_total b" by linarith
  with parts least show ?thesis by (simp add: w whole_ms_dvd)
qed

text \<open>A kill of ten seconds read one second after its arrival.\<close>

theorem withdrawal_within_deadline_witness:
  "\<exists>w. withdrawal_share (kill_budget_new 5 10000000000 False) 1000000005 = Run w \<and>
     wd_drain w + wd_effect w + wd_publication w \<le> wd_share w"
proof -
  let ?b = "kill_budget_new 5 10000000000 False"
  have "\<exists>w. withdrawal_share ?b 1000000005 = Run w"
    by (simp add: withdrawal_share_def Let_def at_least_one_ms_def whole_ms_def MS_def spendable_def
        remaining_def lock_reserve_def clamp_def MOST_LOCK_RESERVE_def kill_budget_new_def)
  then obtain w where run: "withdrawal_share ?b 1000000005 = Run w" ..
  from withdrawal_within_deadline [OF run] run show ?thesis by (simp add: kill_budget_new_def)
qed

text \<open>
  The guest stop always has a deadline. Step 3's drain and answer wait are whole milliseconds of at
  least one even after the kill's deadline has passed, the drain never outlasts the wait, and the drain
  forces exactly when the kill was asked for now.
\<close>

theorem guest_stop_has_deadline:
  "let g = guest_stop_share b reading
   in MS \<le> gs_answer_wait g \<and> MS dvd gs_answer_wait g \<and>
      MS \<le> ds_deadline (gs_drain g) \<and> MS dvd ds_deadline (gs_drain g) \<and>
      ds_deadline (gs_drain g) \<le> gs_answer_wait g \<and>
      (ds_policy (gs_drain g) = Force \<longleftrightarrow> kb_now b)"
proof -
  define wait where "wait = whole_ms (max (spendable b reading) MS)"
  define left where "left = whole_ms (max (wait - max MS (wait div 4)) MS)"
  have wait: "MS \<le> wait" "MS dvd wait" by (simp_all add: wait_def whole_ms_ge whole_ms_dvd)
  have "left \<le> max (wait - max MS (wait div 4)) MS" unfolding left_def by (rule whole_ms_le)
  with wait have left: "left \<le> wait" by simp
  have least: "MS \<le> left" "MS dvd left" by (simp_all add: left_def whole_ms_ge whole_ms_dvd)
  have "guest_stop_share b reading =
    \<lparr>gs_drain = (if kb_now b then \<lparr>ds_deadline = MS, ds_policy = Force\<rparr> else drain_graceful left),
     gs_answer_wait = wait\<rparr>"
    unfolding guest_stop_share_def Let_def wait_def left_def ..
  with wait left least show ?thesis by (cases "kb_now b") (simp_all add: Let_def drain_graceful_def)
qed

text \<open>
  The workload stop never starves the steps after it: its share is a whole number of milliseconds
  of at least one, at most five seconds and at most a third of what is left past the lock reserve; it
  is skipped exactly when the kill was asked for now.
\<close>

theorem workload_stop_bounded:
  "(workload_stop_share b reading = StopSkipped \<longleftrightarrow> kb_now b) \<and>
   (\<forall>d. workload_stop_share b reading = StopRun d \<longrightarrow>
      MS \<le> d \<and> MS dvd d \<and> d \<le> MOST_WORKLOAD_STOP \<and> 3 * d \<le> spendable b reading)"
proof -
  let ?m = "min (clamp MS MOST_WORKLOAD_STOP (kb_total b div 10)) (spendable b reading div 3)"
  have "whole_ms ?m \<le> ?m" by (rule whole_ms_le)
  moreover have "clamp MS MOST_WORKLOAD_STOP (kb_total b div 10) \<le> MOST_WORKLOAD_STOP"
    by (auto simp: clamp_def MS_def MOST_WORKLOAD_STOP_def)
  ultimately have "whole_ms ?m \<le> MOST_WORKLOAD_STOP" "3 * whole_ms ?m \<le> spendable b reading"
    by linarith+
  then show ?thesis
    by (auto simp: workload_stop_share_def Let_def at_least_one_ms_Some whole_ms_dvd split: option.splits)
qed

theorem workload_stop_bounded_witness:
  "workload_stop_share (kill_budget_new 0 10000000000 False) 0 = StopRun 1000000000 \<and>
   3 * 1000000000 \<le> spendable (kill_budget_new 0 10000000000 False) 0"
proof -
  let ?b = "kill_budget_new 0 10000000000 False"
  have run: "workload_stop_share ?b 0 = StopRun 1000000000"
    by (simp add: workload_stop_share_def Let_def at_least_one_ms_def whole_ms_def MS_def spendable_def
        remaining_def lock_reserve_def clamp_def MOST_LOCK_RESERVE_def MOST_WORKLOAD_STOP_def kill_budget_new_def)
  with workload_stop_bounded [of ?b 0] show ?thesis by blast
qed

text \<open>
  C8. The lock wait's end is always found. Whatever the deadline, the search for it ends; it is the
  arrival plus the deadline when the clock can hold that, and otherwise an instant the clock can hold,
  at least half as far past the arrival as the latest one.
\<close>

theorem lock_wait_until_found:
  assumes "kb_arrival b \<le> latest"
  shows "\<exists>until. lock_wait_until latest b = Some until \<and> until \<le> latest \<and>
    (if kb_arrival b + kb_total b \<le> latest then until = kb_arrival b + kb_total b
     else latest - kb_arrival b \<le> 2 * (until - kb_arrival b))"
  using lock_wait_loop_finds [OF assms, of "kb_total b"] by (auto simp: lock_wait_until_def)

text \<open>Exactly half is reached: eleven units of a clock that can hold ten more.\<close>

theorem lock_wait_until_found_witness:
  "lock_wait_until 110 (kill_budget_new 100 11 False) = Some 105 \<and>
   (\<exists>until. lock_wait_until 110 (kill_budget_new 100 11 False) = Some until \<and> until \<le> 110)"
  using lock_wait_until_found [of "kill_budget_new 100 11 False" 110]
  by (auto simp: lock_wait_until_def kill_budget_new_def instant_checked_add_def
      lock_wait_loop.simps [of 110 100 11] lock_wait_loop.simps [of 110 100 5])

text \<open>
  The incomplete list survives the wire: reading back what is written gives the same set, a
  repeated entry is refused, and with now only an unclean teardown is ever recorded, which is what
  decides whether the cell was retired.
\<close>

theorem incomplete_roundtrip:
  "incomplete_deserialize (incomplete_serialize s) = Ok s \<and>
   (is_ok (incomplete_deserialize sfs) \<longleftrightarrow> distinct sfs) \<and>
   (is_retirement (incomplete_add sf now s) \<longleftrightarrow> is_retirement s \<and> sf \<noteq> SfTeardown) \<and>
   (incomplete_add sf True s \<noteq> s \<longrightarrow> sf = SfTeardown)"
proof -
  have "bs_of_list (bt_keys s) = s"
    by (rule bs_ext) (metis bs_contains_of_list mem_Collect_eq set_bt_keys_bs)
  then have "incomplete_deserialize (incomplete_serialize s) = Ok s"
    by (simp add: incomplete_deserialize_def incomplete_serialize_def incomplete_read_Ok
        bt_keys_distinct bs_of_list_def)
  moreover have "is_ok (incomplete_deserialize sfs) \<longleftrightarrow> distinct sfs"
    using incomplete_read_Ok [of sfs bt_empty]
    by (cases "incomplete_read sfs bt_empty") (auto simp: incomplete_deserialize_def)
  ultimately show ?thesis by (auto simp: is_retirement_def incomplete_add_def)
qed

theorem incomplete_roundtrip_witness:
  "incomplete_deserialize (incomplete_serialize (incomplete_add SfTeardown True bt_empty)) =
     Ok (incomplete_add SfTeardown True bt_empty) \<and>
   \<not> is_retirement (incomplete_add SfTeardown True bt_empty)"
  using incomplete_roundtrip [of "incomplete_add SfTeardown True bt_empty"]
    incomplete_roundtrip [of bt_empty _ SfTeardown True] by simp

end
