(* ===== verification/Cell_Names.thy ===== *)
theory Cell_Names
  imports Universe
begin

text \<open>
  \<open>crates/plasmosome-core/src/state.rs\<close>: the names an instance and a cell may have, the paths built
  from a cell's name, and the records of the controller's state.
\<close>

section \<open>Records\<close>

type_synonym genome_name = string

record plasmid_record =
  pr_plasmid :: string
  pr_mock :: mock_mode

datatype cell_status = Germinating | Ready | StDraining | Dead

record cell_record =
  cr_id :: cell_id
  cr_genome :: "genome_name option"
  cr_status :: cell_status
  cr_plasmids :: "plasmid_record list"

type_synonym instance_name = string

record instance_record =
  ir_name :: instance_name
  ir_cells :: "cell_record list"

record controller_state =
  cs_instances :: "instance_record list"

definition list_label :: "plasmid_record \<Rightarrow> string" where
  "list_label r = pr_plasmid r @ '' '' @ mock_list_tag (pr_mock r)"

section \<open>Names\<close>

datatype instance_name_error = InstEmpty | NotAName string

definition instance_name_parse :: "string \<Rightarrow> instance_name_error + instance_name" where
  "instance_name_parse txt =
     (if txt = [] then Err InstEmpty
      else if CHR ''/'' \<in> set txt \<or> CHR 0x5C \<in> set txt \<or> txt = ''.'' \<or> txt = ''..'' \<or> NUL \<in> set txt
      then Err (NotAName txt)
      else Ok txt)"

definition registry_path :: "instance_name \<Rightarrow> string" where
  "registry_path name = ''instances/'' @ name"

definition CELLS_DIR :: string where "CELLS_DIR = ''cells''"

definition CELL_JOURNAL_FILE :: string where "CELL_JOURNAL_FILE = ''ledger.ndjson''"

definition CELL_SUPERVISOR_SOCKET :: string where "CELL_SUPERVISOR_SOCKET = ''membrane.uds''"

datatype cell_path_error = CellEmpty | NotACellName string

definition validate_cell_id :: "cell_id \<Rightarrow> cell_path_error + unit" where
  "validate_cell_id cell =
     (if cell = [] then Err CellEmpty
      else if cell = ''.'' \<or> cell = ''..'' \<or> CHR ''/'' \<in> set cell \<or> CHR 0x5C \<in> set cell \<or> NUL \<in> set cell
      then Err (NotACellName cell)
      else Ok ())"

text \<open>
  \<open>Path::join\<close> on Unix: an absolute path replaces, otherwise one separator stands between the two
  unless the first is empty or ends with one.
\<close>

definition path_join :: "string \<Rightarrow> string \<Rightarrow> string" where
  "path_join p q =
     (case q of
        [] \<Rightarrow> (if p \<noteq> [] \<and> last p \<noteq> CHR ''/'' then p @ ''/'' else p)
      | c # _ \<Rightarrow>
          if c = CHR ''/'' then q
          else if p \<noteq> [] \<and> last p \<noteq> CHR ''/'' then p @ ''/'' @ q else p @ q)"

definition cell_path :: "string \<Rightarrow> cell_id \<Rightarrow> cell_path_error + string" where
  "cell_path root cell =
     and_then (validate_cell_id cell) (\<lambda>_. Ok (path_join (path_join root CELLS_DIR) cell))"

definition cell_ledger_path :: "string \<Rightarrow> cell_id \<Rightarrow> cell_path_error + string" where
  "cell_ledger_path root cell =
     and_then (cell_path root cell) (\<lambda>p. Ok (path_join p CELL_JOURNAL_FILE))"

definition cell_supervisor_socket_path :: "string \<Rightarrow> cell_id \<Rightarrow> cell_path_error + string" where
  "cell_supervisor_socket_path root cell =
     and_then (cell_path root cell) (\<lambda>p. Ok (path_join p CELL_SUPERVISOR_SOCKET))"

section \<open>Lemmas\<close>

lemma path_join_relative:
  "q \<noteq> [] \<Longrightarrow> CHR ''/'' \<notin> set q \<Longrightarrow> p \<noteq> [] \<Longrightarrow> last p \<noteq> CHR ''/'' \<Longrightarrow> path_join p q = p @ ''/'' @ q"
  by (cases q) (auto simp: path_join_def)

lemma validate_cell_id_Ok:
  "validate_cell_id cell = Ok u \<longleftrightarrow>
   cell \<noteq> [] \<and> cell \<noteq> ''.'' \<and> cell \<noteq> ''..'' \<and> CHR ''/'' \<notin> set cell \<and> CHR 0x5C \<notin> set cell \<and> NUL \<notin> set cell"
  by (auto simp: validate_cell_id_def)

lemma cells_dir_end: "path_join root CELLS_DIR \<noteq> [] \<and> last (path_join root CELLS_DIR) \<noteq> CHR ''/''"
  by (simp add: path_join_def CELLS_DIR_def)

lemma cell_path_Ok:
  "cell_path root cell = Ok p \<longleftrightarrow>
   is_ok (validate_cell_id cell) \<and> p = path_join root CELLS_DIR @ ''/'' @ cell"
proof -
  have "path_join (path_join root CELLS_DIR) cell = path_join root CELLS_DIR @ ''/'' @ cell"
    if "validate_cell_id cell = Ok ()"
    using that cells_dir_end [of root]
    by (intro path_join_relative) (auto simp: validate_cell_id_Ok)
  then show ?thesis by (auto simp: cell_path_def and_then_eq_Inr is_ok_unit)
qed

lemma cell_file_path:
  assumes "cell_path root cell = Ok p" "file \<noteq> []" "CHR ''/'' \<notin> set file"
  shows "path_join p file = path_join root CELLS_DIR @ ''/'' @ cell @ ''/'' @ file"
proof -
  have c: "cell \<noteq> []" "CHR ''/'' \<notin> set cell" "p = path_join root CELLS_DIR @ ''/'' @ cell"
    using assms(1) by (auto simp: cell_path_Ok is_ok_unit validate_cell_id_Ok)
  then have "last p \<noteq> CHR ''/''" by (metis append_is_Nil_conv last_appendR last_in_set)
  with c assms(2,3) show ?thesis
    by (subst path_join_relative) auto
qed

section \<open>Properties\<close>

text \<open>
  A cell's files stay in its own directory. For every valid cell name the journal and the socket
  are one fixed file name below exactly one directory of that name below \<open>cells\<close>, so two cells never
  share a path and no name reaches another directory.
\<close>

theorem cell_paths_separate:
  assumes "cell_ledger_path root a = Ok p" "cell_supervisor_socket_path root b = Ok q"
  shows "p = path_join root CELLS_DIR @ ''/'' @ a @ ''/'' @ CELL_JOURNAL_FILE \<and>
    q = path_join root CELLS_DIR @ ''/'' @ b @ ''/'' @ CELL_SUPERVISOR_SOCKET \<and>
    CHR ''/'' \<notin> set a \<and> a \<notin> {[], ''.'', ''..''} \<and> p \<noteq> q \<and>
    (\<forall>c. cell_ledger_path root c = Ok p \<longrightarrow> c = a)"
proof -
  have at: "r = path_join root CELLS_DIR @ ''/'' @ c @ ''/'' @ CELL_JOURNAL_FILE \<and> is_ok (validate_cell_id c)"
    if "cell_ledger_path root c = Ok r" for c r
    using that cell_file_path [of root c _ CELL_JOURNAL_FILE]
    by (auto simp: cell_ledger_path_def and_then_eq_Inr CELL_JOURNAL_FILE_def cell_path_Ok)
  have q: "q = path_join root CELLS_DIR @ ''/'' @ b @ ''/'' @ CELL_SUPERVISOR_SOCKET"
    using assms(2) cell_file_path [of root b _ CELL_SUPERVISOR_SOCKET]
    by (auto simp: cell_supervisor_socket_path_def and_then_eq_Inr CELL_SUPERVISOR_SOCKET_def)
  have "last p = CHR ''n''" "last q = CHR ''s''"
    using at [OF assms(1)] q by (simp_all add: CELL_JOURNAL_FILE_def CELL_SUPERVISOR_SOCKET_def)
  then have "p \<noteq> q" by auto
  with at [OF assms(1)] q at show ?thesis
    by (auto simp: is_ok_unit validate_cell_id_Ok)
qed

theorem cell_paths_separate_witness:
  "cell_ledger_path ''/var/p'' ''cell-1'' = Ok ''/var/p/cells/cell-1/ledger.ndjson'' \<and>
   {c. cell_ledger_path ''/var/p'' c = Ok ''/var/p/cells/cell-1/ledger.ndjson''} = {''cell-1''}"
proof -
  have a: "cell_ledger_path ''/var/p'' ''cell-1'' = Ok ''/var/p/cells/cell-1/ledger.ndjson''" by code_simp
  have b: "cell_supervisor_socket_path ''/var/p'' ''cell-1'' = Ok ''/var/p/cells/cell-1/membrane.uds''" by code_simp
  from cell_paths_separate [OF a b] a show ?thesis by blast
qed

end
