(* ===== verification/Reconciler.thy ===== *)
theory Reconciler
  imports Cell_Names
begin

text \<open>
  \<open>crates/plasmosome-core/src/reconciler.rs\<close>: the desired and the observed cells, and the plan that
  says how they drift apart.
\<close>

record desired_cell =
  dc_genome :: "genome_name option"
  dc_plasmids :: "plasmid_record list"

record desired_state =
  des_generation :: u64
  des_cells :: "(cell_id, desired_cell) btree_map"

record observed_state =
  obs_generation :: u64
  obs_cells :: "cell_id btree_set"

datatype reconcile_plan = Idle | Drift (plan_missing: "cell_id list") (plan_unexpected: "cell_id list")

record reconciler =
  rec_desired :: desired_state
  rec_observed :: observed_state

definition reconciler_new :: "desired_state \<Rightarrow> reconciler" where
  "reconciler_new d = \<lparr>rec_desired = d, rec_observed = \<lparr>obs_generation = 0, obs_cells = bt_empty\<rparr>\<rparr>"

definition set_desired :: "desired_state \<Rightarrow> reconciler \<Rightarrow> reconciler" where
  "set_desired d r = r\<lparr>rec_desired := d\<rparr>"

definition observe :: "observed_state \<Rightarrow> reconciler \<Rightarrow> reconciler" where
  "observe ob r = r\<lparr>rec_observed := ob\<rparr>"

definition reconcile :: "reconciler \<Rightarrow> reconcile_plan" where
  "reconcile r =
     (let desired_cells = bs_of_list (bt_keys (des_cells (rec_desired r)));
          missing = bs_difference desired_cells (obs_cells (rec_observed r));
          unexpected = bs_difference (obs_cells (rec_observed r)) desired_cells
      in if missing = [] \<and> unexpected = [] then Idle else Drift missing unexpected)"

text \<open>The observation once a plan is carried out.\<close>

definition carried_out :: "reconcile_plan \<Rightarrow> observed_state \<Rightarrow> observed_state" where
  "carried_out plan ob =
     (case plan of
        Idle \<Rightarrow> ob
      | Drift missing unexpected \<Rightarrow>
          ob\<lparr>obs_cells := fold bs_insert missing (fold bs_remove unexpected (obs_cells ob))\<rparr>)"

lemma bs_contains_fold_insert [simp]:
  "bs_contains (fold bs_insert xs s) y \<longleftrightarrow> y \<in> set xs \<or> bs_contains s y"
  by (induction xs arbitrary: s) auto

lemma bs_contains_fold_remove [simp]:
  "bs_contains (fold bs_remove xs s) y \<longleftrightarrow> y \<notin> set xs \<and> bs_contains s y"
  by (induction xs arbitrary: s) auto

lemma reconcile_sets:
  fixes r
  defines "want \<equiv> {c. bt_contains_key (des_cells (rec_desired r)) c}"
    and "have \<equiv> {c. bs_contains (obs_cells (rec_observed r)) c}"
  shows "(case reconcile r of
      Idle \<Rightarrow> want = have
    | Drift missing unexpected \<Rightarrow> want \<noteq> have \<and> set missing = want - have \<and> set unexpected = have - want \<and>
        sorted_wrt (<) missing \<and> sorted_wrt (<) unexpected)"
proof -
  let ?w = "bs_of_list (bt_keys (des_cells (rec_desired r)))"
  let ?o = "obs_cells (rec_observed r)"
  have w: "bs_contains ?w c \<longleftrightarrow> c \<in> want" for c
    by (simp add: want_def bt_keys_get bt_contains_key_def)
  have sets: "set (bs_difference ?w ?o) = want - have" "set (bs_difference ?o ?w) = have - want"
    unfolding set_bs_difference w have_def by auto
  then have "bs_difference ?w ?o = [] \<and> bs_difference ?o ?w = [] \<longleftrightarrow> want = have"
    by (metis Diff_cancel Diff_eq_empty_iff set_empty subset_antisym)
  then show ?thesis
    using sets by (simp add: reconcile_def Let_def sorted_bs_difference)
qed

text \<open>
  The plan is exactly the drift. It is idle precisely when the desired and the observed cells are
  the same; otherwise it lists, each sorted, exactly the desired cells not observed and the observed
  cells not desired, and once it has been carried out the next plan is idle.
\<close>

theorem reconcile_is_the_drift:
  "(reconcile r = Idle \<longleftrightarrow>
     (\<forall>c. bt_contains_key (des_cells (rec_desired r)) c \<longleftrightarrow> bs_contains (obs_cells (rec_observed r)) c)) \<and>
   (\<forall>missing unexpected. reconcile r = Drift missing unexpected \<longrightarrow>
      sorted_wrt (<) missing \<and> sorted_wrt (<) unexpected \<and>
      set missing = {c. bt_contains_key (des_cells (rec_desired r)) c \<and> \<not> bs_contains (obs_cells (rec_observed r)) c} \<and>
      set unexpected = {c. bs_contains (obs_cells (rec_observed r)) c \<and> \<not> bt_contains_key (des_cells (rec_desired r)) c}) \<and>
   reconcile (observe (carried_out (reconcile r) (rec_observed r)) r) = Idle"
proof -
  note sets = reconcile_sets [of r]
  let ?r = "observe (carried_out (reconcile r) (rec_observed r)) r"
  have "bt_contains_key (des_cells (rec_desired r)) c \<longleftrightarrow> bs_contains (obs_cells (rec_observed ?r)) c" for c
    using sets by (cases "reconcile r") (auto simp: carried_out_def observe_def)
  then have "reconcile ?r = Idle"
    using reconcile_sets [of ?r] by (cases "reconcile ?r") (auto simp: observe_def)
  with sets show ?thesis by (cases "reconcile r") auto
qed

theorem reconcile_is_the_drift_witness:
  "let r = observe \<lparr>obs_generation = 1, obs_cells = bs_of_list [''b'', ''c'']\<rparr>
     (reconciler_new \<lparr>des_generation = 1,
        des_cells = bt_collect [(''a'', \<lparr>dc_genome = None, dc_plasmids = []\<rparr>), (''b'', \<lparr>dc_genome = None, dc_plasmids = []\<rparr>)]\<rparr>)
   in reconcile r = Drift [''a''] [''c''] \<and> reconcile (observe (carried_out (reconcile r) (rec_observed r)) r) = Idle"
proof -
  let ?r = "observe \<lparr>obs_generation = 1, obs_cells = bs_of_list [''b'', ''c'']\<rparr>
     (reconciler_new \<lparr>des_generation = 1,
        des_cells = bt_collect [(''a'', \<lparr>dc_genome = None, dc_plasmids = []\<rparr>), (''b'', \<lparr>dc_genome = None, dc_plasmids = []\<rparr>)]\<rparr>)"
  have "reconcile ?r = Drift [''a''] [''c'']" by code_simp
  with reconcile_is_the_drift [of ?r] show ?thesis unfolding Let_def by blast
qed

end
