(* ===== verification/Lifecycle.thy ===== *)
theory Lifecycle
  imports Prelude BTree_Map
begin

text \<open>
  Two small components of the controller: \<open>crates/plasmosome-core/src/lifecycle.rs\<close>, the states of a
  plugin and its legal transitions, and \<open>gatekeeper.rs\<close>, the secrets by handle.
\<close>

section \<open>Plugin states\<close>

datatype plugin_state = Inactive | Loading | Active | Draining | Unloading | Failed

fun state_as_str :: "plugin_state \<Rightarrow> string" where
  "state_as_str Inactive = ''inactive''"
| "state_as_str Loading = ''loading''"
| "state_as_str Active = ''active''"
| "state_as_str Draining = ''draining''"
| "state_as_str Unloading = ''unloading''"
| "state_as_str Failed = ''failed''"

definition accepts_invocations :: "plugin_state \<Rightarrow> bool" where
  "accepts_invocations s \<longleftrightarrow> s = Active"

record state_error =
  se_from :: plugin_state
  se_to :: plugin_state

definition transition :: "plugin_state \<Rightarrow> plugin_state \<Rightarrow> state_error + plugin_state" where
  "transition s nxt =
     (if (s, nxt) \<in> {(Inactive, Loading), (Loading, Active), (Loading, Failed), (Active, Draining),
         (Draining, Unloading), (Draining, Failed), (Unloading, Inactive), (Failed, Inactive)}
      then Ok nxt else Err \<lparr>se_from = s, se_to = nxt\<rparr>)"

definition show_state_error :: "state_error \<Rightarrow> string" where
  "show_state_error e =
     ''illegal lifecycle transition '' @ state_as_str (se_from e) @ '' -> '' @ state_as_str (se_to e)"

text \<open>A sequence of requested transitions, stopping at the first illegal one.\<close>

fun lifecycle_run :: "plugin_state \<Rightarrow> plugin_state list \<Rightarrow> state_error + plugin_state" where
  "lifecycle_run s [] = Ok s"
| "lifecycle_run s (nxt # rest) = and_then (transition s nxt) (\<lambda>t. lifecycle_run t rest)"

lemma transition_cases:
  "transition s nxt = Ok t \<longleftrightarrow> t = nxt \<and>
   (case s of Inactive \<Rightarrow> nxt = Loading | Loading \<Rightarrow> nxt = Active \<or> nxt = Failed | Active \<Rightarrow> nxt = Draining
    | Draining \<Rightarrow> nxt = Unloading \<or> nxt = Failed | Unloading \<Rightarrow> nxt = Inactive | Failed \<Rightarrow> nxt = Inactive)"
  by (cases s; cases nxt) (auto simp: transition_def)

lemma run_to_active:
  "lifecycle_run s xs = Ok Active \<Longrightarrow>
   (s \<in> {Draining, Unloading, Failed} \<longrightarrow> Inactive \<in> set xs \<and> Loading \<in> set xs) \<and>
   (s = Inactive \<longrightarrow> Loading \<in> set xs)"
proof (induction xs arbitrary: s)
  case (Cons x xs)
  then have step: "transition s x = Ok x" "lifecycle_run x xs = Ok Active"
    by (auto simp: and_then_eq_Inr transition_cases)
  from Cons.IH [OF step(2)] step(1) show ?case by (cases s) (auto simp: transition_cases)
qed auto

text \<open>
  A plugin is not active again without a full cycle. Whatever legal transitions lead from active back
  to active, they drain it, bring it to inactive and load it again; while any state but active lasts it
  accepts no invocation, and from every state inactive can be reached.
\<close>

theorem reactivation_needs_full_cycle:
  "(lifecycle_run Active xs = Ok Active \<and> xs \<noteq> [] \<longrightarrow> {Draining, Inactive, Loading} \<subseteq> set xs) \<and>
   (accepts_invocations s \<longleftrightarrow> s = Active) \<and> (\<exists>ys. lifecycle_run s ys = Ok Inactive)"
proof -
  have "{Draining, Inactive, Loading} \<subseteq> set xs" if run: "lifecycle_run Active xs = Ok Active" "xs \<noteq> []"
  proof -
    from run obtain ys where "xs = Draining # ys" "lifecycle_run Draining ys = Ok Active"
      by (cases xs) (auto simp: and_then_eq_Inr transition_cases)
    with run_to_active [of Draining ys] show ?thesis by auto
  qed
  moreover have "\<exists>ys. lifecycle_run s ys = Ok Inactive"
  proof (cases s)
    case Inactive then show ?thesis by (intro exI [of _ "[]"]) simp
  next
    case Loading then show ?thesis by (intro exI [of _ "[Failed, Inactive]"]) (simp add: transition_def)
  next
    case Active then show ?thesis by (intro exI [of _ "[Draining, Unloading, Inactive]"]) (simp add: transition_def)
  next
    case Draining then show ?thesis by (intro exI [of _ "[Failed, Inactive]"]) (simp add: transition_def)
  qed (intro exI [of _ "[Inactive]"], simp add: transition_def)+
  ultimately show ?thesis by (simp add: accepts_invocations_def)
qed

theorem reactivation_needs_full_cycle_witness:
  "lifecycle_run Active [Draining, Unloading, Inactive, Loading, Active] = Ok Active \<and>
   {Draining, Inactive, Loading} \<subseteq> set [Draining, Unloading, Inactive, Loading, Active]"
proof -
  have "lifecycle_run Active [Draining, Unloading, Inactive, Loading, Active] = Ok Active" by code_simp
  with reactivation_needs_full_cycle [of "[Draining, Unloading, Inactive, Loading, Active]"] show ?thesis by blast
qed

section \<open>Secrets\<close>

type_synonym gatekeeper = "(string, string) btree_map"

definition DEFAULT_GITHUB_TOKEN_HANDLE :: string where
  "DEFAULT_GITHUB_TOKEN_HANDLE = ''github-pr/token''"

definition DEFAULT_MODEL_KEY_HANDLE :: string where
  "DEFAULT_MODEL_KEY_HANDLE = ''model-provider/key''"

definition gk_new :: gatekeeper where "gk_new = bt_empty"

definition gk_install :: "string \<Rightarrow> string \<Rightarrow> gatekeeper \<Rightarrow> gatekeeper" where
  "gk_install h v k = bt_insert h v k"

definition gk_revoke :: "string \<Rightarrow> gatekeeper \<Rightarrow> bool \<times> gatekeeper" where
  "gk_revoke h k = (bt_get k h \<noteq> None, bt_remove h k)"

definition gk_get :: "string \<Rightarrow> gatekeeper \<Rightarrow> string option" where
  "gk_get h k = bt_get k h"

definition gk_handles :: "gatekeeper \<Rightarrow> string list" where
  "gk_handles k = bt_keys k"

text \<open>The process environment is the argument \<open>env\<close>.\<close>

definition stub_secret :: "(string \<Rightarrow> string option) \<Rightarrow> string \<Rightarrow> string" where
  "stub_secret env prefix =
     (case env (''AK_SECRET_'' @ prefix) of
        Some v \<Rightarrow> v | None \<Rightarrow> ''stub-'' @ map to_ascii_lowercase prefix)"

definition with_stub_defaults :: "(string \<Rightarrow> string option) \<Rightarrow> gatekeeper" where
  "with_stub_defaults env =
     gk_install DEFAULT_MODEL_KEY_HANDLE (stub_secret env ''MODEL'')
       (gk_install DEFAULT_GITHUB_TOKEN_HANDLE
          (case env ''AK_SECRET_GITHUB'' of Some v \<Rightarrow> v | None \<Rightarrow> []) gk_new)"

text \<open>
  A secret is readable exactly while it is installed: installing one handle and revoking another
  touch no other secret, revoking says whether there was one, and a keeper with the stub defaults knows
  just the two default handles.
\<close>

theorem gatekeeper_secrets:
  "gk_get h (gk_install h v k) = Some v \<and>
   (h \<noteq> h' \<longrightarrow> gk_get h' (gk_install h v k) = gk_get h' k) \<and>
   gk_get h (snd (gk_revoke h k)) = None \<and>
   (h \<noteq> h' \<longrightarrow> gk_get h' (snd (gk_revoke h k)) = gk_get h' k) \<and>
   (fst (gk_revoke h k) \<longleftrightarrow> h \<in> set (gk_handles k)) \<and>
   set (gk_handles (with_stub_defaults env)) = {DEFAULT_GITHUB_TOKEN_HANDLE, DEFAULT_MODEL_KEY_HANDLE}"
proof -
  have "bt_get (with_stub_defaults env) j \<noteq> None \<longleftrightarrow> j \<in> {DEFAULT_GITHUB_TOKEN_HANDLE, DEFAULT_MODEL_KEY_HANDLE}" for j
    by (auto simp: with_stub_defaults_def gk_install_def gk_new_def)
  then have "set (gk_handles (with_stub_defaults env)) = {DEFAULT_GITHUB_TOKEN_HANDLE, DEFAULT_MODEL_KEY_HANDLE}"
    unfolding gk_handles_def set_eq_iff bt_keys_get by blast
  then show ?thesis by (auto simp: gk_get_def gk_install_def gk_revoke_def gk_handles_def bt_keys_get)
qed

theorem gatekeeper_secrets_witness:
  "gk_get ''a'' (gk_install ''b'' ''v'' (gk_install ''a'' ''w'' gk_new)) = Some ''w''"
proof -
  have "''b'' \<noteq> ''a''" by simp
  with gatekeeper_secrets [of "''b''" "''v''" "gk_install ''a'' ''w'' gk_new" "''a''"]
    gatekeeper_secrets [of "''a''" "''w''" gk_new]
  show ?thesis by metis
qed

end
