(* ===== verification/Calendar.thy ===== *)
theory Calendar
  imports Prelude
begin

text \<open>
  The calendar half of \<open>crates/plasmosome-backend/src/lifetime.rs\<close>: UTC instants in milliseconds, their
  RFC 3339 text, and the proof that what is written reads back. The code computes in \<open>u64\<close>; every
  value here is far below that range, so the model computes in natural numbers.
\<close>

section \<open>Days and civil dates\<close>

type_synonym wall_ms = u64

definition MS_PER_DAY :: nat where "MS_PER_DAY = 86400000"

definition EPOCH_YEAR :: nat where "EPOCH_YEAR = 1970"

definition is_leap :: "nat \<Rightarrow> bool" where
  "is_leap year \<longleftrightarrow> year mod 4 = 0 \<and> (year mod 100 \<noteq> 0 \<or> year mod 400 = 0)"

definition days_in_month :: "nat \<Rightarrow> nat \<Rightarrow> nat" where
  "days_in_month year month =
     (if month = 2 then (if is_leap year then 29 else 28)
      else if month \<in> {4, 6, 9, 11} then 30 else 31)"

definition days_since_epoch :: "nat \<Rightarrow> nat \<Rightarrow> nat \<Rightarrow> nat" where
  "days_since_epoch year0 month day =
     (let year = (if month \<le> 2 then year0 - 1 else year0);
          era = year div 400;
          year_of_era = year mod 400;
          day_of_year = (153 * ((month + 9) mod 12) + 2) div 5 + day - 1;
          day_of_era = year_of_era * 365 + year_of_era div 4 - year_of_era div 100 + day_of_year
      in era * 146097 + day_of_era - 719468)"

definition civil_from_days :: "nat \<Rightarrow> nat \<times> nat \<times> nat" where
  "civil_from_days days0 =
     (let days = days0 + 719468;
          era = days div 146097;
          day_of_era = days mod 146097;
          year_of_era = (day_of_era - day_of_era div 1460 + day_of_era div 36524 - day_of_era div 146096) div 365;
          day_of_year = day_of_era - (365 * year_of_era + year_of_era div 4 - year_of_era div 100);
          shifted_month = (5 * day_of_year + 2) div 153;
          day = day_of_year - (153 * shifted_month + 2) div 5 + 1;
          month = (if shifted_month < 10 then shifted_month + 3 else shifted_month - 9);
          year = era * 400 + year_of_era + (if month \<le> 2 then 1 else 0)
      in (year, month, day))"

section \<open>Text\<close>

datatype time_text_error = Form | Field string | BeforeEpoch

fun number_from :: "nat \<Rightarrow> string \<Rightarrow> nat option" where
  "number_from v [] = Some v"
| "number_from v (d # ds) =
     (if is_ascii_digit d then number_from (v * 10 + (byte_of d - 48)) ds else None)"

definition slice :: "'a list \<Rightarrow> nat \<Rightarrow> nat \<Rightarrow> 'a list" where
  "slice xs from to = take (to - from) (drop from xs)"

definition time_fraction :: "string \<Rightarrow> time_text_error + string" where
  "time_fraction bytes =
     (if length bytes = 20 then Ok []
      else if 22 \<le> length bytes \<and> length bytes \<le> 24 \<and> bytes ! 19 = CHR ''.''
      then Ok (slice bytes 20 (length bytes - 1))
      else Err Form)"

definition time_separators :: "(nat \<times> char) list" where
  "time_separators = [(4, CHR ''-''), (7, CHR ''-''), (10, CHR ''T''), (13, CHR '':''), (16, CHR '':'')]"

definition time_field :: "string \<Rightarrow> nat \<Rightarrow> nat \<Rightarrow> time_text_error + nat" where
  "time_field bytes from to = ok_or (number_from 0 (slice bytes from to)) Form"

definition parse_rfc3339 :: "string \<Rightarrow> time_text_error + wall_ms" where
  "parse_rfc3339 bytes =
     and_then (time_fraction bytes) (\<lambda>fraction.
     and_then (require (\<not> (list_ex (\<lambda>(at, byte). bytes ! at \<noteq> byte) time_separators \<or>
                          bytes ! (length bytes - 1) \<noteq> CHR ''Z'')) Form) (\<lambda>_.
     and_then (time_field bytes 0 4) (\<lambda>year.
     and_then (time_field bytes 5 7) (\<lambda>month.
     and_then (time_field bytes 8 10) (\<lambda>day.
     and_then (time_field bytes 11 13) (\<lambda>hour.
     and_then (time_field bytes 14 16) (\<lambda>minute.
     and_then (time_field bytes 17 19) (\<lambda>second.
     and_then (ok_or (number_from 0 fraction) Form) (\<lambda>digits.
     (let millis = digits * 10 ^ (3 - length fraction) in
      if \<not> (1 \<le> month \<and> month \<le> 12) then Err (Field ''month'')
      else if \<not> (1 \<le> day \<and> day \<le> days_in_month year month) then Err (Field ''day'')
      else if hour > 23 then Err (Field ''hour'')
      else if minute > 59 then Err (Field ''minute'')
      else if second > 59 then Err (Field ''second'')
      else if year < EPOCH_YEAR then Err BeforeEpoch
      else (let seconds = days_since_epoch year month day * 86400 + hour * 3600 + minute * 60 + second
            in Ok (of_nat (seconds * 1000 + millis)))))))))))))"

text \<open>\<open>{:0w}\<close>: decimal digits, padded with zeros on the left to at least \<open>w\<close>.\<close>

definition pad_nat :: "nat \<Rightarrow> nat \<Rightarrow> string" where
  "pad_nat w n = replicate (w - length (show_nat n)) (CHR ''0'') @ show_nat n"

definition to_rfc3339 :: "wall_ms \<Rightarrow> string" where
  "to_rfc3339 w =
     (let (year, month, day) = civil_from_days (unat w div MS_PER_DAY);
          of_day = unat w mod MS_PER_DAY
      in pad_nat 4 year @ ''-'' @ pad_nat 2 month @ ''-'' @ pad_nat 2 day @ ''T'' @
         pad_nat 2 (of_day div 3600000) @ '':'' @ pad_nat 2 (of_day div 60000 mod 60) @ '':'' @
         pad_nat 2 (of_day div 1000 mod 60) @ ''.'' @ pad_nat 3 (of_day mod 1000) @ ''Z'')"

section \<open>The era arithmetic\<close>

text \<open>
  A day of a 400-year era, counted from the first of March, is the start of year
  \<open>100 c + 4 q + k\<close> plus a day \<open>r\<close> of that year; only a year before a leap February has a 366th.
\<close>

definition era_day :: "nat \<Rightarrow> nat \<Rightarrow> nat \<Rightarrow> nat \<Rightarrow> nat \<Rightarrow> bool" where
  "era_day doe c q k r \<longleftrightarrow>
     doe = 36524 * c + 1461 * q + 365 * k + r \<and> c \<le> 3 \<and> q \<le> 24 \<and> k \<le> 3 \<and> r \<le> 365 \<and>
     (r = 365 \<longrightarrow> k = 3 \<and> (q \<noteq> 24 \<or> c = 3))"

lemma era_day_exists:
  assumes "doe < 146097"
  shows "\<exists>c q k r. era_day doe c q k r"
proof -
  define c where "c = min (doe div 36524) 3"
  define d1 where "d1 = doe - 36524 * c"
  have d1: "doe = 36524 * c + d1" "c \<le> 3" "d1 \<le> 36524" "d1 = 36524 \<longrightarrow> c = 3"
    using assms by (auto simp: c_def d1_def min_def split: if_splits)
  define q where "q = d1 div 1461"
  define d2 where "d2 = d1 mod 1461"
  have d2: "d1 = 1461 * q + d2" "d2 \<le> 1460"
    using mod_less_divisor [of 1461 d1] unfolding q_def d2_def by simp_all
  with d1(3,4) have "q \<le> 24" "q = 24 \<and> d2 = 1460 \<longrightarrow> c = 3" by auto
  define k where "k = min (d2 div 365) 3"
  define r where "r = d2 - 365 * k"
  have "d2 = 365 * k + r" "k \<le> 3" "r \<le> 365" "r = 365 \<longrightarrow> k = 3 \<and> d2 = 1460"
    using d2(2) by (auto simp: k_def r_def min_def split: if_splits)
  with d1 d2 \<open>q \<le> 24\<close> \<open>q = 24 \<and> d2 = 1460 \<longrightarrow> c = 3\<close> have "era_day doe c q k r" unfolding era_day_def by auto
  then show ?thesis by blast
qed

lemma era_day_year:
  assumes "era_day doe c q k r"
  shows "(doe - doe div 1460 + doe div 36524 - doe div 146096) div 365 = 100 * c + 4 * q + k"
proof -
  from assms have doe: "doe = 36524 * c + 1461 * q + 365 * k + r"
    and le: "c \<le> 3" "q \<le> 24" "k \<le> 3" "r \<le> 365"
    and full: "r = 365 \<Longrightarrow> k = 3 \<and> (q \<noteq> 24 \<or> c = 3)"
    by (auto simp: era_day_def)
  define e where "e = 24 * c + q + 365 * k + r"
  define \<delta> where "\<delta> = (if 1460 \<le> e then 1 else 0 :: nat)"
  have e: "doe = 1460 * (25 * c + q) + e" "e < 2920" using doe le by (simp_all add: e_def)
  have A: "doe div 1460 = 25 * c + q + \<delta>"
    using e by (intro div_nat_eqI) (simp_all add: \<delta>_def)
  define final where "final = (if doe = 146096 then 1 else 0 :: nat)"
  have top: "doe < 36524 * c + 36524 \<or> doe = 146096 \<and> c = 3"
  proof (cases "r = 365 \<and> q = 24")
    case True
    with full doe show ?thesis by simp
  next
    case False
    then consider "r \<le> 364" | "q \<le> 23" using le by linarith
    then show ?thesis using doe le by cases linarith+
  qed
  have B: "doe div 36524 = c + final" and C: "doe div 146096 = final"
    using top doe le by (auto simp: final_def intro!: div_nat_eqI)
  have r: "\<delta> \<le> r" "r \<le> \<delta> + 364"
  proof -
    show "r \<le> \<delta> + 364"
      using full le by (cases "r = 365") (auto simp: \<delta>_def e_def)
    show "\<delta> \<le> r"
      using le by (cases "r = 0") (auto simp: \<delta>_def e_def)
  qed
  have "doe - doe div 1460 + doe div 36524 - doe div 146096 = 365 * (100 * c + 4 * q + k) + (r - \<delta>)"
    unfolding A B C using doe r(1) by simp
  moreover have "r - \<delta> < 365" using r by linarith
  ultimately show ?thesis by simp
qed

lemma era_day_start:
  assumes "era_day doe c q k r"
  defines "y \<equiv> 100 * c + 4 * q + k"
  shows "365 * y + y div 4 - y div 100 + r = doe" "y < 400"
    and "r = 365 \<Longrightarrow> is_leap (400 * era + y + 1)"
proof -
  from assms(1) have doe: "doe = 36524 * c + 1461 * q + 365 * k + r"
    and le: "c \<le> 3" "q \<le> 24" "k \<le> 3" and full: "r = 365 \<Longrightarrow> k = 3 \<and> (q \<noteq> 24 \<or> c = 3)"
    by (auto simp: era_day_def)
  have "y div 4 = 25 * c + q" "y div 100 = c"
    using le by (auto simp: y_def intro!: div_nat_eqI)
  then show "365 * y + y div 4 - y div 100 + r = doe" by (simp add: y_def doe)
  show "y < 400" using le by (simp add: y_def)
  assume "r = 365"
  with full have k: "k = 3" and qc: "q \<noteq> 24 \<or> c = 3" by auto
  have y1: "400 * era + y + 1 = 4 * (100 * era + 25 * c + q + 1)" using k by (simp add: y_def)
  have "(400 * era + y + 1) mod 100 \<noteq> 0 \<or> (400 * era + y + 1) mod 400 = 0"
  proof (cases "q = 24")
    case True
    with qc k have "400 * era + y + 1 = 400 * (era + 1)" by (simp add: y_def)
    then show ?thesis by simp
  next
    case False
    then have "4 * q + 4 < 100" using le by linarith
    moreover have "400 * era + y + 1 = 100 * (4 * era + c) + (4 * q + 4)" using k by (simp add: y_def)
    ultimately have "(400 * era + y + 1) mod 100 = 4 * q + 4"
      by (simp only: mod_mult_self4 mod_less)
    then show ?thesis by simp
  qed
  moreover have "(400 * era + y + 1) mod 4 = 0" unfolding y1 by simp
  ultimately show "is_leap (400 * era + y + 1)" by (simp add: is_leap_def)
qed

text \<open>The months, counted from March, split a year's days as \<open>(153 m + 2) div 5\<close> says.\<close>

lemma month_split:
  fixes r :: nat
  assumes "r \<le> 365"
  defines "mp \<equiv> (5 * r + 2) div 153"
  shows "mp \<le> 11" "(153 * mp + 2) div 5 \<le> r" "5 * r + 2 < 153 * mp + 153"
proof -
  have "5 * r + 2 = 153 * mp + (5 * r + 2) mod 153" "(5 * r + 2) mod 153 < 153"
    unfolding mp_def by (simp_all add: div_mult_mod_eq)
  then have le: "153 * mp \<le> 5 * r + 2" and lt: "5 * r + 2 < 153 * mp + 153" by linarith+
  show "mp \<le> 11" using le assms(1) by linarith
  show "5 * r + 2 < 153 * mp + 153" by (rule lt)
  have "153 * mp + 2 < (r + 1) * 5" using le by simp
  then show "(153 * mp + 2) div 5 \<le> r" using less_mult_imp_div_less [of "153 * mp + 2" "r + 1" 5] by simp
qed

lemma month_length:
  fixes r :: nat
  assumes "r \<le> 365" "r = 365 \<Longrightarrow> is_leap (y + 1)" "mp = (5 * r + 2) div 153"
    and "month = (if mp < 10 then mp + 3 else mp - 9)"
  shows "r - (153 * mp + 2) div 5 + 1 \<le> days_in_month (y + (if month \<le> 2 then 1 else 0)) month"
    "1 \<le> month" "month \<le> 12" "(month + 9) mod 12 = mp"
proof -
  note mp = month_split [OF assms(1), folded assms(3)]
  from mp(1) have cases: "mp \<in> {0, 1, 2, 3, 4, 5, 6, 7, 8, 9, 10, 11}"
    unfolding insert_iff empty_iff by presburger
  then show "1 \<le> month" "month \<le> 12" "(month + 9) mod 12 = mp"
    unfolding assms(4) by (elim insertE emptyE; simp)+
  have last: "\<not> is_leap (y + 1) \<Longrightarrow> r \<le> 364" using assms(1,2) by (cases "r = 365") auto
  show "r - (153 * mp + 2) div 5 + 1 \<le> days_in_month (y + (if month \<le> 2 then 1 else 0)) month"
    using cases mp(3) assms(1) last unfolding assms(4)
    by (cases "is_leap (y + 1)"; elim insertE emptyE; simp add: days_in_month_def)
qed

text \<open>The date of a day number is a valid date, and its day number is that day.\<close>

lemma civil_roundtrip:
  assumes "civil_from_days d = (year, month, day)"
  shows "days_since_epoch year month day = d" "1 \<le> month" "month \<le> 12" "1 \<le> day"
    "day \<le> days_in_month year month" "1970 \<le> year"
proof -
  define era where "era = (d + 719468) div 146097"
  define doe where "doe = (d + 719468) mod 146097"
  have split: "d + 719468 = era * 146097 + doe" and "doe < 146097"
    by (simp_all add: era_def doe_def)
  then obtain c q k r where ed: "era_day doe c q k r" using era_day_exists by blast
  define y where "y = 100 * c + 4 * q + k"
  note start = era_day_start [OF ed, folded y_def]
  have r: "r \<le> 365" using ed by (simp add: era_day_def)
  define mp where "mp = (5 * r + 2) div 153"
  have year_of_era: "(doe - doe div 1460 + doe div 36524 - doe div 146096) div 365 = y"
    using era_day_year [OF ed] by (simp add: y_def)
  have doy: "doe - (365 * y + y div 4 - y div 100) = r" using start(1) by linarith
  have civil: "month = (if mp < 10 then mp + 3 else mp - 9)" "day = r - (153 * mp + 2) div 5 + 1"
    "year = era * 400 + y + (if month \<le> 2 then 1 else 0)"
    using assms
    unfolding civil_from_days_def Let_def era_def [symmetric] doe_def [symmetric] year_of_era doy mp_def [symmetric]
    by auto
  note len = month_length [OF r start(3) [of era] mp_def civil(1)]
  show "1 \<le> month" "month \<le> 12" using len(2,3) by simp_all
  show "1 \<le> day" by (simp add: civil(2))
  have leap: "400 * era + y + (if month \<le> 2 then 1 else 0) = year" using civil(3) by simp
  show "day \<le> days_in_month year month" using len(1) unfolding leap civil(2) [symmetric] .
  have base: "(if month \<le> 2 then year - 1 else year) = era * 400 + y" using civil(3) by simp
  have era: "(era * 400 + y) div 400 = era" "(era * 400 + y) mod 400 = y" using start(2) by simp_all
  have "(153 * mp + 2) div 5 + day - 1 = r" using month_split(2) [OF r] by (simp add: civil(2) mp_def)
  then have "(153 * ((month + 9) mod 12) + 2) div 5 + day - 1 = r" by (simp only: len(4))
  then have "days_since_epoch year month day = era * 146097 + (y * 365 + y div 4 - y div 100 + r) - 719468"
    unfolding days_since_epoch_def Let_def base era by (simp only:)
  also have "\<dots> = d" using start(1) split by (simp add: mult.commute)
  finally show "days_since_epoch year month day = d" .
  show "1970 \<le> year"
  proof (cases "era = 4")
    case True
    then have "135080 \<le> doe" using split by linarith
    then have "135080 \<le> 365 * y + y div 4 - y div 100 + r" using start(1) by simp
    then have "369 \<le> y" "y = 369 \<Longrightarrow> 306 \<le> r" using r start(2) by linarith+
    moreover have "month \<le> 2" if "306 \<le> r"
    proof -
      have "10 \<le> mp" "mp \<le> 11" using that month_split(1,3) [OF r, folded mp_def] by linarith+
      then show ?thesis by (simp add: civil(1))
    qed
    ultimately show ?thesis using True civil(3) by (cases "y = 369") auto
  next
    case False
    moreover have "4 \<le> era" using split \<open>doe < 146097\<close> by linarith
    ultimately show ?thesis using civil(3) by simp
  qed
qed

section \<open>Writing and reading digits\<close>

lemma number_from_append:
  "number_from v (xs @ ys) = (case number_from v xs of None \<Rightarrow> None | Some u \<Rightarrow> number_from u ys)"
  by (induction v xs rule: number_from.induct) auto

lemma digit_char_value: "d < 10 \<Longrightarrow> is_ascii_digit (digit_char d) \<and> byte_of (digit_char d) - 48 = d"
  by (simp add: digit_char_def is_ascii_digit_def byte_of_def)

lemma number_from_show: "number_from 0 (show_nat n) = Some n"
proof (induction n rule: show_nat.induct)
  case (1 n)
  show ?case
  proof (cases "n < 10")
    case True
    then show ?thesis by (simp add: show_nat.simps [of n] digit_char_value)
  next
    case False
    with 1 have "number_from 0 (show_nat (n div 10)) = Some (n div 10)" by simp
    with False show ?thesis
      by (simp add: show_nat.simps [of n] number_from_append digit_char_value)
  qed
qed

lemma length_show_nat: "n < 10 ^ w \<Longrightarrow> 0 < w \<Longrightarrow> length (show_nat n) \<le> w"
proof (induction n arbitrary: w rule: show_nat.induct)
  case (1 n)
  show ?case
  proof (cases "n < 10")
    case True
    then show ?thesis using 1(3) by (simp add: show_nat.simps [of n])
  next
    case False
    then obtain v where v: "w = Suc v" "0 < v" using 1(2,3) by (cases w; cases "w - 1") auto
    then have "n div 10 < 10 ^ v" using 1(2) by (simp add: less_mult_imp_div_less)
    with 1(1) [of v] False v show ?thesis by (simp add: show_nat.simps [of n])
  qed
qed

lemma length_pad_nat: "n < 10 ^ w \<Longrightarrow> 0 < w \<Longrightarrow> length (pad_nat w n) = w"
  using length_show_nat [of n w] by (simp add: pad_nat_def)

lemma number_from_pad: "number_from 0 (pad_nat w n) = Some n"
proof -
  have "number_from 0 (replicate k (CHR ''0'')) = Some 0" for k
    by (induction k) (simp_all add: is_ascii_digit_def byte_of_def)
  then show ?thesis by (simp add: pad_nat_def number_from_append number_from_show)
qed

text \<open>A padded field of two, three or four digits, digit by digit.\<close>

lemma pad_nat_digits:
  "n < 100 \<Longrightarrow> \<exists>a b. pad_nat 2 n = [a, b] \<and> number_from 0 [a, b] = Some n"
  "n < 1000 \<Longrightarrow> \<exists>a b c. pad_nat 3 n = [a, b, c] \<and> number_from 0 [a, b, c] = Some n"
  "n < 10000 \<Longrightarrow> \<exists>a b c d. pad_nat 4 n = [a, b, c, d] \<and> number_from 0 [a, b, c, d] = Some n"
proof -
  have two: "\<exists>a b. xs = [a, b]" if "length xs = 2" for xs :: string
    using that by (auto simp: length_Suc_conv numeral_2_eq_2)
  have three: "\<exists>a b c. xs = [a, b, c]" if "length xs = 3" for xs :: string
    using that by (auto simp: length_Suc_conv numeral_3_eq_3)
  have four: "\<exists>a b c d. xs = [a, b, c, d]" if "length xs = 4" for xs :: string
    using that by (auto simp: length_Suc_conv numeral_eq_Suc)
  show "n < 100 \<Longrightarrow> \<exists>a b. pad_nat 2 n = [a, b] \<and> number_from 0 [a, b] = Some n"
    using two [of "pad_nat 2 n"] length_pad_nat [of n 2] number_from_pad [of 2 n] by (auto simp del: number_from.simps)
  show "n < 1000 \<Longrightarrow> \<exists>a b c. pad_nat 3 n = [a, b, c] \<and> number_from 0 [a, b, c] = Some n"
    using three [of "pad_nat 3 n"] length_pad_nat [of n 3] number_from_pad [of 3 n] by (auto simp del: number_from.simps)
  show "n < 10000 \<Longrightarrow> \<exists>a b c d. pad_nat 4 n = [a, b, c, d] \<and> number_from 0 [a, b, c, d] = Some n"
    using four [of "pad_nat 4 n"] length_pad_nat [of n 4] number_from_pad [of 4 n] by (auto simp del: number_from.simps)
qed

declare number_from.simps [simp del]

lemma day_parts:
  fixes t :: nat
  defines "of_day \<equiv> t mod MS_PER_DAY"
  shows "of_day div 3600000 \<le> 23" "of_day div 60000 mod 60 \<le> 59" "of_day div 1000 mod 60 \<le> 59"
    and "((t div MS_PER_DAY) * 86400 + of_day div 3600000 * 3600 + of_day div 60000 mod 60 * 60 +
      of_day div 1000 mod 60) * 1000 + of_day mod 1000 = t"
proof -
  have lt: "of_day < 86400000" by (simp add: of_day_def MS_PER_DAY_def)
  then show "of_day div 3600000 \<le> 23" by linarith
  show "of_day div 60000 mod 60 \<le> 59" "of_day div 1000 mod 60 \<le> 59"
    using mod_less_divisor [of 60 "of_day div 60000"] mod_less_divisor [of 60 "of_day div 1000"] by linarith+
  have m: "of_day div 1000 = of_day div 1000 div 60 * 60 + of_day div 1000 mod 60"
    "of_day div 60000 = of_day div 60000 div 60 * 60 + of_day div 60000 mod 60"
    "of_day = of_day div 1000 * 1000 + of_day mod 1000"
    by (simp_all only: div_mult_mod_eq)
  have d: "of_day div 1000 div 60 = of_day div 60000" "of_day div 60000 div 60 = of_day div 3600000"
    by (simp_all add: div_mult2_eq [symmetric])
  have t: "t = t div MS_PER_DAY * 86400000 + of_day"
    using div_mult_mod_eq [of t MS_PER_DAY] by (simp add: of_day_def MS_PER_DAY_def)
  have "of_day = ((of_day div 3600000 * 60 + of_day div 60000 mod 60) * 60 + of_day div 1000 mod 60) * 1000 +
      of_day mod 1000"
    using m unfolding d by presburger
  then have "t = t div MS_PER_DAY * 86400000 +
      (((of_day div 3600000 * 60 + of_day div 60000 mod 60) * 60 + of_day div 1000 mod 60) * 1000 + of_day mod 1000)"
    using t by simp
  then show "((t div MS_PER_DAY) * 86400 + of_day div 3600000 * 3600 + of_day div 60000 mod 60 * 60 +
      of_day div 1000 mod 60) * 1000 + of_day mod 1000 = t"
    by (simp add: distrib_right mult.assoc)
qed

text \<open>
  C9. An instant survives its text. Every instant up to the end of year 9999 is written as RFC 3339 text
  that reads back as that same instant.
\<close>

theorem rfc3339_roundtrip:
  assumes "fst (civil_from_days (unat w div MS_PER_DAY)) \<le> 9999"
  shows "parse_rfc3339 (to_rfc3339 w) = Ok w"
proof -
  obtain year month day where civil: "civil_from_days (unat w div MS_PER_DAY) = (year, month, day)"
    by (metis prod_cases3)
  note date = civil_roundtrip [OF civil]
  define of_day where "of_day = unat w mod MS_PER_DAY"
  note parts = day_parts [of "unat w", folded of_day_def]
  have "days_in_month year month \<le> 31" by (simp add: days_in_month_def)
  then have small: "year < 10000" "month < 100" "day < 100" "of_day mod 1000 < 1000"
    "of_day div 3600000 < 100" "of_day div 60000 mod 60 < 100" "of_day div 1000 mod 60 < 100"
    using assms civil date(2-5) parts(1-3) by auto
  obtain y1 y2 y3 y4 where y: "pad_nat 4 year = [y1, y2, y3, y4]" "number_from 0 [y1, y2, y3, y4] = Some year"
    using pad_nat_digits(3) [OF small(1)] by blast
  obtain m1 m2 where m: "pad_nat 2 month = [m1, m2]" "number_from 0 [m1, m2] = Some month"
    using pad_nat_digits(1) [OF small(2)] by blast
  obtain d1 d2 where d: "pad_nat 2 day = [d1, d2]" "number_from 0 [d1, d2] = Some day"
    using pad_nat_digits(1) [OF small(3)] by blast
  obtain h1 h2 where h: "pad_nat 2 (of_day div 3600000) = [h1, h2]"
    "number_from 0 [h1, h2] = Some (of_day div 3600000)"
    using pad_nat_digits(1) [OF small(5)] by blast
  obtain i1 i2 where i: "pad_nat 2 (of_day div 60000 mod 60) = [i1, i2]"
    "number_from 0 [i1, i2] = Some (of_day div 60000 mod 60)"
    using pad_nat_digits(1) [OF small(6)] by blast
  obtain s1 s2 where s: "pad_nat 2 (of_day div 1000 mod 60) = [s1, s2]"
    "number_from 0 [s1, s2] = Some (of_day div 1000 mod 60)"
    using pad_nat_digits(1) [OF small(7)] by blast
  obtain f1 f2 f3 where f: "pad_nat 3 (of_day mod 1000) = [f1, f2, f3]"
    "number_from 0 [f1, f2, f3] = Some (of_day mod 1000)"
    using pad_nat_digits(2) [OF small(4)] by blast
  have written: "to_rfc3339 w = [y1, y2, y3, y4, CHR ''-'', m1, m2, CHR ''-'', d1, d2, CHR ''T'', h1, h2,
      CHR '':'', i1, i2, CHR '':'', s1, s2, CHR ''.'', f1, f2, f3, CHR ''Z'']"
    by (simp add: to_rfc3339_def civil of_day_def [symmetric] Let_def y(1) m(1) d(1) h(1) i(1) s(1) f(1))
  have whole: "(days_since_epoch year month day * 86400 + of_day div 3600000 * 3600 +
      of_day div 60000 mod 60 * 60 + of_day div 1000 mod 60) * 1000 + of_day mod 1000 = unat w"
    unfolding date(1) by (rule parts(4))
  have ranges: "\<not> 23 < of_day div 3600000" "\<not> 59 < of_day div 60000 mod 60" "\<not> 59 < of_day div 1000 mod 60"
    "\<not> year < 1970"
    using parts(1-3) date(6) by auto
  have "of_nat ((days_since_epoch year month day * 86400 + of_day div 3600000 * 3600 +
      of_day div 60000 mod 60 * 60 + of_day div 1000 mod 60) * 1000 + of_day mod 1000) = w"
    unfolding whole by simp
  then show ?thesis
    using date(2-5) ranges unfolding written parse_rfc3339_def
    by (simp add: time_fraction_def time_separators_def time_field_def slice_def require_def
        y(2) m(2) d(2) h(2) i(2) s(2) f(2) Let_def EPOCH_YEAR_def del: of_nat_add of_nat_mult)
qed

lemma digit_chars:
  "digit_char 0 = CHR ''0''" "digit_char (Suc 0) = CHR ''1''" "digit_char 2 = CHR ''2''" "digit_char 3 = CHR ''3''"
  "digit_char 4 = CHR ''4''" "digit_char 5 = CHR ''5''" "digit_char 6 = CHR ''6''" "digit_char 7 = CHR ''7''"
  "digit_char 8 = CHR ''8''" "digit_char 9 = CHR ''9''"
  by code_simp+

text \<open>The date of a day number from its intermediate values, each computed once.\<close>

lemma civil_from_days_steps:
  assumes "era = (d + 719468) div 146097" "doe = (d + 719468) mod 146097"
    and "yoe = (doe - doe div 1460 + doe div 36524 - doe div 146096) div 365"
    and "doy = doe - (365 * yoe + yoe div 4 - yoe div 100)"
    and "mp = (5 * doy + 2) div 153" "month = (if mp < 10 then mp + 3 else mp - 9)"
  shows "civil_from_days d = (era * 400 + yoe + (if month \<le> 2 then 1 else 0), month, doy - (153 * mp + 2) div 5 + 1)"
  unfolding civil_from_days_def Let_def assms [symmetric] ..

theorem rfc3339_roundtrip_witness:
  "to_rfc3339 1709210096789 = ''2024-02-29T12:34:56.789Z'' \<and>
   parse_rfc3339 (to_rfc3339 1709210096789) = Ok 1709210096789"
proof -
  have "civil_from_days 19782 =
      (5 * 400 + 23 + (if (2 :: nat) \<le> 2 then 1 else 0), 2, 365 - (153 * 11 + 2) div 5 + 1)"
    by (rule civil_from_days_steps [of 5 19782 8765 23 365 11 2]) simp_all
  moreover have "unat (1709210096789 :: wall_ms) div MS_PER_DAY = 19782" by (simp add: MS_PER_DAY_def)
  ultimately have civil: "civil_from_days (unat (1709210096789 :: wall_ms) div MS_PER_DAY) = (2024, 2, 29)"
    by simp
  have written: "to_rfc3339 1709210096789 = ''2024-02-29T12:34:56.789Z''"
    unfolding to_rfc3339_def civil
    by (simp add: MS_PER_DAY_def pad_nat_def show_nat.simps digit_chars)
  show ?thesis
    using rfc3339_roundtrip [of 1709210096789] unfolding civil fst_conv written by simp
qed

end
