(* ===== verification/Lifetime.thy ===== *)
theory Lifetime
  imports Calendar
begin

text \<open>
  Lifetime bounds and the clock they read: the rest of
  \<open>crates/plasmosome-backend/src/lifetime.rs\<close> and \<open>crates/plasmosome-backend/src/clock.rs\<close>. A bound
  is a wall deadline and a deadline on the continuous clock of one boot session; three questions are
  asked of it, each from one reading: has it passed, how long is left, and where does it fall on the
  clock that waits use. An \<open>Instant\<close> is a whole number of nanoseconds from the clock's own origin, and
  the instants the platform can hold are the parameters \<open>lo\<close> and \<open>hi\<close>. The code's \<open>i128\<close> sums stay
  below \<open>2^85\<close>, so they are integers here.
\<close>

section \<open>Limits\<close>

definition MIN_LIMIT_MS :: u64 where "MIN_LIMIT_MS = 1000"

definition MAX_LIMIT_MS :: u64 where "MAX_LIMIT_MS = 2592000000"

definition MIN_DRAIN_MS :: u64 where "MIN_DRAIN_MS = 1"

definition MAX_DRAIN_MS :: u64 where "MAX_DRAIN_MS = 30000"

definition NS_PER_MS :: u64 where "NS_PER_MS = 1000000"

record range_error =
  re_limit :: string
  re_value :: u64
  re_min :: u64
  re_max :: u64

definition check_range :: "u64 \<Rightarrow> string \<Rightarrow> u64 \<Rightarrow> u64 \<Rightarrow> range_error + u64" where
  "check_range v limit lo hi =
     (if lo \<le> v \<and> v \<le> hi then Ok v
      else Err \<lparr>re_limit = limit, re_value = v, re_min = lo, re_max = hi\<rparr>)"

definition check_limit_ms :: "u64 \<Rightarrow> range_error + u64" where
  "check_limit_ms ms = check_range ms ''a lease or idle limit'' MIN_LIMIT_MS MAX_LIMIT_MS"

definition check_drain_ms :: "u64 \<Rightarrow> range_error + u64" where
  "check_drain_ms ms = check_range ms ''a drain budget'' MIN_DRAIN_MS MAX_DRAIN_MS"

definition show_range_error :: "range_error \<Rightarrow> string" where
  "show_range_error e =
     show_nat (unat (re_value e)) @ '' ms is not '' @ re_limit e @ '', which is '' @
     show_nat (unat (re_min e)) @ '' to '' @ show_nat (unat (re_max e)) @ '' ms''"

fun show_time_text_error :: "time_text_error \<Rightarrow> string" where
  "show_time_text_error Form = ''not an RFC 3339 UTC instant of the form YYYY-MM-DDTHH:MM:SS[.sss]Z''"
| "show_time_text_error (Field name) = ''the '' @ name @ '' is out of range''"
| "show_time_text_error BeforeEpoch = ''before 1970-01-01T00:00:00Z''"

section \<open>Readings\<close>

type_synonym boot_session = u128

text \<open>\<open>Uuid::try_parse\<close> belongs to the \<open>uuid\<close> crate and is a parameter.\<close>

definition boot_session_parse :: "(string \<Rightarrow> u128 option) \<Rightarrow> string \<Rightarrow> boot_session option" where
  "boot_session_parse try_parse s = (if length s \<noteq> 36 then None else try_parse s)"

record continuous =
  boot :: boot_session
  ns :: u64

record clock_reading =
  wall :: wall_ms
  cont :: continuous
  wait :: int

definition checked_add_ms :: "wall_ms \<Rightarrow> u64 \<Rightarrow> wall_ms option" where
  "checked_add_ms w ms = checked_add w ms"

text \<open>The manual clock: each reading moves on its own, and stops at the end of its range.\<close>

definition saturating_add_signed :: "u64 \<Rightarrow> int \<Rightarrow> u64" where
  "saturating_add_signed a d = clamp_word (nat (uint a + d))"

definition step_wall :: "int \<Rightarrow> clock_reading \<Rightarrow> clock_reading" where
  "step_wall ms r = r\<lparr>wall := saturating_add_signed (wall r) ms\<rparr>"

definition step_continuous :: "u64 \<Rightarrow> clock_reading \<Rightarrow> clock_reading" where
  "step_continuous ms r =
     r\<lparr>cont := (cont r)\<lparr>ns := saturating_add (ns (cont r)) (saturating_mul ms NS_PER_MS)\<rparr>\<rparr>"

text \<open>\<open>None\<close> is the panic past what an \<open>Instant\<close> holds.\<close>

definition step_wait :: "int \<Rightarrow> u64 \<Rightarrow> clock_reading \<Rightarrow> clock_reading option" where
  "step_wait hi ms r =
     (let at = wait r + uint ms * uint NS_PER_MS in if at \<le> hi then Some (r\<lparr>wait := at\<rparr>) else None)"

definition advance_all_ms :: "int \<Rightarrow> u64 \<Rightarrow> clock_reading \<Rightarrow> clock_reading option" where
  "advance_all_ms hi ms r =
     step_wait hi ms (step_continuous ms (r\<lparr>wall := saturating_add (wall r) ms\<rparr>))"

definition set_boot :: "boot_session \<Rightarrow> u64 \<Rightarrow> clock_reading \<Rightarrow> clock_reading" where
  "set_boot b n r = r\<lparr>cont := \<lparr>boot = b, ns = n\<rparr>\<rparr>"

section \<open>Bounds\<close>

record bound =
  not_after :: wall_ms
  deadline :: continuous

definition bound_after :: "clock_reading \<Rightarrow> u64 \<Rightarrow> bound option" where
  "bound_after now ms =
     (case checked_mul ms NS_PER_MS of
        None \<Rightarrow> None
      | Some span \<Rightarrow>
          (case checked_add (ns (cont now)) span of
             None \<Rightarrow> None
           | Some n \<Rightarrow>
               (case checked_add_ms (wall now) ms of
                  None \<Rightarrow> None
                | Some w \<Rightarrow> Some \<lparr>not_after = w, deadline = \<lparr>boot = boot (cont now), ns = n\<rparr>\<rparr>)))"

definition bound_passed :: "bound \<Rightarrow> clock_reading \<Rightarrow> bool" where
  "bound_passed b now \<longleftrightarrow>
     not_after b \<le> wall now \<or>
     (boot (cont now) = boot (deadline b) \<and> ns (deadline b) \<le> ns (cont now))"

definition remaining_ns :: "bound \<Rightarrow> clock_reading \<Rightarrow> int" where
  "remaining_ns b now =
     (let w = (uint (not_after b) - uint (wall now)) * uint NS_PER_MS in
      if boot (cont now) \<noteq> boot (deadline b) then w
      else min w (uint (ns (deadline b)) - uint (ns (cont now))))"

definition div_ceil :: "nat \<Rightarrow> nat \<Rightarrow> nat" where
  "div_ceil a b = a div b + (if a mod b = 0 then 0 else 1)"

definition remaining_ms :: "bound \<Rightarrow> clock_reading \<Rightarrow> u64" where
  "remaining_ms b now =
     (let left = (if 0 \<le> remaining_ns b now then nat (remaining_ns b now) else 0)
      in clamp_word (div_ceil left (unat NS_PER_MS)))"

definition earlier :: "bound \<Rightarrow> bound \<Rightarrow> bound" where
  "earlier a b =
     (if boot (deadline a) \<noteq> boot (deadline b)
      then (if not_after b < not_after a then b else a)
      else \<lparr>not_after = min (not_after a) (not_after b),
            deadline = \<lparr>boot = boot (deadline a), ns = min (ns (deadline a)) (ns (deadline b))\<rparr>\<rparr>)"

definition duration_from_ns :: "nat \<Rightarrow> nat" where
  "duration_from_ns n =
     (let seconds = (if n div 1000000000 < 2 ^ 64 then n div 1000000000 else 2 ^ 64 - 1);
          nanos = (if n mod 1000000000 < 2 ^ 32 then n mod 1000000000 else 0)
      in seconds * 1000000000 + nanos)"

definition wait_deadline :: "int \<Rightarrow> int \<Rightarrow> bound \<Rightarrow> clock_reading \<Rightarrow> u64 \<Rightarrow> int" where
  "wait_deadline lo hi b now extra_ms =
     (let n = remaining_ns b now + uint extra_ms * uint NS_PER_MS;
          shift = int (duration_from_ns (nat \<bar>n\<bar>));
          at = (if 0 \<le> n then wait now + shift else wait now - shift)
      in if lo \<le> at \<and> at \<le> hi then at else wait now)"

text \<open>
  The rule a caller follows to keep a fence, as the documentation of \<open>Bound\<close> gives it: the continuous
  deadline moves to the reading's continuous value less the time overdue there.
\<close>

definition fenced :: "int \<Rightarrow> int \<Rightarrow> bound \<Rightarrow> clock_reading \<Rightarrow> bound" where
  "fenced lo hi b now =
     b\<lparr>deadline := \<lparr>boot = boot (cont now),
        ns = of_nat (unat (ns (cont now)) - nat (wait now - wait_deadline lo hi b now 0))\<rparr>\<rparr>"

section \<open>Arithmetic\<close>

lemma uint_NS_PER_MS [simp]: "uint NS_PER_MS = 1000000" "unat NS_PER_MS = 1000000"
  by (simp_all add: NS_PER_MS_def)

lemma uint_less_64: "uint (x :: u64) < 18446744073709551616" "0 \<le> uint (x :: u64)"
  using unsigned_less [of x, where ?'a = int] by simp_all

lemma uint_unat_sums:
  fixes a b c :: u64
  shows "uint a + uint b < 2 ^ 64 \<longleftrightarrow> unat a + unat b < 2 ^ 64"
    and "uint a + uint b * 1000000 < 2 ^ 64 \<longleftrightarrow> unat a + unat b * 1000000 < 2 ^ 64"
    and "uint c = uint a + uint b \<longleftrightarrow> unat c = unat a + unat b"
    and "uint c = uint a + uint b * 1000000 \<longleftrightarrow> unat c = unat a + unat b * 1000000"
proof -
  have u: "uint x = int (unat x)" for x :: u64 by simp
  have "(int p + int q < 2 ^ 64 \<longleftrightarrow> p + q < 2 ^ 64) \<and>
      (int p + int q * 1000000 < 2 ^ 64 \<longleftrightarrow> p + q * 1000000 < 2 ^ 64) \<and>
      (int r = int p + int q \<longleftrightarrow> r = p + q) \<and> (int r = int p + int q * 1000000 \<longleftrightarrow> r = p + q * 1000000)" for p q r
    by (intro conjI iffI) simp_all
  then show "uint a + uint b < 2 ^ 64 \<longleftrightarrow> unat a + unat b < 2 ^ 64"
    "uint a + uint b * 1000000 < 2 ^ 64 \<longleftrightarrow> unat a + unat b * 1000000 < 2 ^ 64"
    "uint c = uint a + uint b \<longleftrightarrow> unat c = unat a + unat b"
    "uint c = uint a + uint b * 1000000 \<longleftrightarrow> unat c = unat a + unat b * 1000000"
    unfolding u by blast+
qed

lemma remaining_ns_bounds:
  "\<bar>remaining_ns b now + uint (extra :: u64) * 1000000\<bar> < 2 ^ 86"
proof -
  define w where "w = (uint (not_after b) - uint (wall now)) * 1000000"
  define c where "c = uint (ns (deadline b)) - uint (ns (cont now))"
  have "\<bar>uint (not_after b) - uint (wall now)\<bar> < 18446744073709551616"
    using uint_less_64 [of "not_after b"] uint_less_64 [of "wall now"] by linarith
  then have "\<bar>w\<bar> < 18446744073709551616 * 1000000" unfolding w_def abs_mult by simp
  moreover have "\<bar>c\<bar> < 18446744073709551616"
    unfolding c_def using uint_less_64 [of "ns (deadline b)"] uint_less_64 [of "ns (cont now)"] by linarith
  moreover have "remaining_ns b now = w \<or> remaining_ns b now = c"
    by (auto simp: remaining_ns_def Let_def w_def c_def min_def)
  moreover have "\<bar>v + uint extra * 1000000\<bar> < 2 ^ 86" if "\<bar>v\<bar> < 18446744073709551616 * 1000000" for v
  proof -
    define x where "x = uint extra"
    have "0 \<le> x" "x < 18446744073709551616" using uint_less_64 [of extra] by (simp_all add: x_def)
    with that show ?thesis unfolding x_def [symmetric] by simp
  qed
  ultimately show ?thesis by (elim disjE) simp_all
qed

text \<open>No remainder a bound can have is cut off by \<open>Duration\<close>.\<close>

lemma duration_from_ns_exact: "n < 1000000000 * 2 ^ 64 \<Longrightarrow> duration_from_ns n = n"
proof -
  assume "n < 1000000000 * 2 ^ 64"
  then have "n div 1000000000 < 2 ^ 64" by (simp add: less_mult_imp_div_less)
  moreover have "n mod 1000000000 < 1000000000" by simp
  then have "n mod 1000000000 < 2 ^ 32" by simp
  ultimately show ?thesis unfolding duration_from_ns_def Let_def by (simp only: if_True div_mult_mod_eq)
qed

lemma wait_deadline_eq:
  "wait_deadline lo hi b now extra =
     (let at = wait now + remaining_ns b now + uint extra * 1000000
      in if lo \<le> at \<and> at \<le> hi then at else wait now)"
proof -
  define n where "n = remaining_ns b now + uint extra * 1000000"
  have "\<bar>n\<bar> < 2 ^ 86" unfolding n_def by (rule remaining_ns_bounds)
  then have "nat \<bar>n\<bar> < 1000000000 * 2 ^ 64" by simp
  then have shift: "int (duration_from_ns (nat \<bar>n\<bar>)) = \<bar>n\<bar>" by (simp add: duration_from_ns_exact)
  have "wait_deadline lo hi b now extra =
      (let at = wait now + n in if lo \<le> at \<and> at \<le> hi then at else wait now)"
    unfolding wait_deadline_def Let_def uint_NS_PER_MS n_def [symmetric] shift by (auto simp: abs_if)
  then show ?thesis by (simp add: n_def add.assoc)
qed

lemma remaining_ns_passed: "remaining_ns b now \<le> 0 \<longleftrightarrow> bound_passed b now"
  by (auto simp: remaining_ns_def bound_passed_def Let_def word_le_def min_le_iff_disj)

lemma div_ceil_zero: "0 < b \<Longrightarrow> div_ceil a b = 0 \<longleftrightarrow> a = 0"
  by (cases "a = 0") (auto simp: div_ceil_def div_eq_0_iff)

lemma div_ceil_mult: "0 < b \<Longrightarrow> div_ceil (a * b) b = a"
  by (simp add: div_ceil_def)

lemma remaining_ns_earlier:
  "boot (deadline a) = boot (deadline b) \<Longrightarrow>
   remaining_ns (earlier a b) now = min (remaining_ns a now) (remaining_ns b now)"
  by (auto simp: remaining_ns_def earlier_def Let_def min_def word_le_def)

text \<open>
  The platform can hold every deadline a bound can have, seen from \<open>r\<close>: with seconds kept in 64 bits,
  as Linux and macOS do, this is every reading less than \<open>2^63\<close> seconds from the origin by \<open>2^86\<close>
  nanoseconds.
\<close>

definition instants_fit :: "int \<Rightarrow> int \<Rightarrow> clock_reading \<Rightarrow> bool" where
  "instants_fit lo hi r \<longleftrightarrow> lo + 2 ^ 86 \<le> wait r \<and> wait r + 2 ^ 86 \<le> hi"

lemma wait_deadline_fits:
  "instants_fit lo hi now \<Longrightarrow>
   wait_deadline lo hi b now extra = wait now + remaining_ns b now + uint extra * 1000000"
  using remaining_ns_bounds [of b now extra] by (auto simp: wait_deadline_eq Let_def instants_fit_def)

lemma wait_deadline_zero:
  "instants_fit lo hi now \<Longrightarrow> wait_deadline lo hi b now 0 = wait now + remaining_ns b now"
  by (simp add: wait_deadline_fits)

text \<open>Time passing on an awake host moves every reading by the same amount.\<close>

lemma advance_all_readings:
  assumes "advance_all_ms hi ms r = Some r'"
    and "uint (wall r) + uint ms < 2 ^ 64" "uint (ns (cont r)) + uint ms * 1000000 < 2 ^ 64"
  shows "uint (wall r') = uint (wall r) + uint ms" "boot (cont r') = boot (cont r)"
    "uint (ns (cont r')) = uint (ns (cont r)) + uint ms * 1000000" "wait r' = wait r + uint ms * 1000000"
proof -
  have r': "wall r' = saturating_add (wall r) ms" "boot (cont r') = boot (cont r)"
    "ns (cont r') = saturating_add (ns (cont r)) (saturating_mul ms NS_PER_MS)"
    "wait r' = wait r + uint ms * 1000000"
    using assms(1) by (auto simp: advance_all_ms_def step_wait_def step_continuous_def Let_def split: if_splits)
  then show "boot (cont r') = boot (cont r)" "wait r' = wait r + uint ms * 1000000" by simp_all
  have "unat (wall r) + unat ms < 2 ^ 64" using assms(2) by (simp only: uint_unat_sums)
  then have "unat (wall r') = unat (wall r) + unat ms"
    using unat_saturating_add [of "wall r" ms] by (simp add: r'(1))
  then show "uint (wall r') = uint (wall r) + uint ms" by (simp only: uint_unat_sums)
  have nsum: "unat (ns (cont r)) + unat ms * 1000000 < 2 ^ 64" using assms(3) by (simp only: uint_unat_sums)
  then have "unat (saturating_mul ms NS_PER_MS) = unat ms * 1000000"
    using unat_saturating_mul [of ms NS_PER_MS] by simp
  then have "unat (ns (cont r')) = unat (ns (cont r)) + unat ms * 1000000"
    using unat_saturating_add [of "ns (cont r)" "saturating_mul ms NS_PER_MS"] nsum by (simp add: r'(3))
  then show "uint (ns (cont r')) = uint (ns (cont r)) + uint ms * 1000000" by (simp only: uint_unat_sums)
qed

lemma remaining_ns_advance:
  assumes "uint (wall r') = uint (wall r) + d" "boot (cont r') = boot (cont r)"
    "uint (ns (cont r')) = uint (ns (cont r)) + d * 1000000"
  shows "remaining_ns b r' = remaining_ns b r - d * 1000000"
  using assms by (simp add: remaining_ns_def Let_def min_def algebra_simps)

lemma fenced_deadline:
  assumes "instants_fit lo hi now" "bound_passed b now"
  shows "boot (deadline (fenced lo hi b now)) = boot (cont now)"
    "uint (ns (deadline (fenced lo hi b now))) = max 0 (uint (ns (cont now)) + remaining_ns b now)"
proof -
  have neg: "remaining_ns b now \<le> 0" using assms(2) by (simp add: remaining_ns_passed)
  define over where "over = nat (- remaining_ns b now)"
  have "wait now - wait_deadline lo hi b now 0 = - remaining_ns b now"
    using assms(1) by (simp add: wait_deadline_zero)
  then have n: "ns (deadline (fenced lo hi b now)) = of_nat (unat (ns (cont now)) - over)"
    by (simp add: fenced_def over_def)
  have "unat (ns (cont now)) - over < 2 ^ 64"
    using unsigned_less [of "ns (cont now)", where ?'a = nat] by simp
  then have "unat (ns (deadline (fenced lo hi b now))) = unat (ns (cont now)) - over"
    unfolding n by (simp add: unat_of_nat)
  then have "int (unat (ns (deadline (fenced lo hi b now)))) = max 0 (int (unat (ns (cont now))) - int over)"
    by linarith
  moreover have "int over = - remaining_ns b now" using neg by (simp add: over_def)
  ultimately show "uint (ns (deadline (fenced lo hi b now))) = max 0 (uint (ns (cont now)) + remaining_ns b now)"
    by simp
  show "boot (deadline (fenced lo hi b now)) = boot (cont now)" by (simp add: fenced_def)
qed

lemma div_ceil_bounds: "0 < b \<Longrightarrow> 0 < a \<Longrightarrow> (div_ceil a b - 1) * b < a \<and> a \<le> div_ceil a b * b"
proof -
  assume b: "0 < b" and a: "0 < a"
  have "a = a div b * b + a mod b" "a mod b < b" using b by (simp_all add: div_mult_mod_eq)
  then show ?thesis using a by (cases "a div b") (auto simp: div_ceil_def algebra_simps)
qed

lemma remaining_ns_clamp: "0 < remaining_ns b now \<Longrightarrow> div_ceil (nat (remaining_ns b now)) 1000000 < 2 ^ 64"
proof -
  assume "0 < remaining_ns b now"
  have "remaining_ns b now \<le> (uint (not_after b) - uint (wall now)) * 1000000"
    by (simp add: remaining_ns_def Let_def)
  also have "\<dots> \<le> uint (not_after b) * 1000000" using uint_less_64 [of "wall now"] by simp
  also have "\<dots> \<le> 18446744073709551615 * 1000000" using uint_less_64 [of "not_after b"] by simp
  finally have "nat (remaining_ns b now) \<le> 18446744073709551615 * 1000000" by simp
  then have "(div_ceil (nat (remaining_ns b now)) 1000000 - 1) * 1000000 < 18446744073709551615 * 1000000"
    using div_ceil_bounds [of 1000000 "nat (remaining_ns b now)"] \<open>0 < remaining_ns b now\<close> by linarith
  then show ?thesis by simp
qed

lemma uint_remaining_ms:
  "uint (remaining_ms b now) = int (div_ceil (nat (max 0 (remaining_ns b now))) 1000000)"
proof (cases "0 < remaining_ns b now")
  case True
  have "unat (remaining_ms b now) = div_ceil (nat (remaining_ns b now)) 1000000"
    using True remaining_ns_clamp [OF True] by (simp add: remaining_ms_def Let_def unat_clamp_word)
  then have "int (unat (remaining_ms b now)) = int (div_ceil (nat (remaining_ns b now)) 1000000)" by simp
  with True show ?thesis by simp
next
  case False
  then show ?thesis by (cases "remaining_ns b now = 0") (auto simp: remaining_ms_def div_ceil_def clamp_word_def)
qed

section \<open>Properties\<close>

text \<open>
  Time left and passing agree. At every reading the time left is zero exactly when the bound has
  passed, and otherwise it is the least number of whole milliseconds after which it will have.
\<close>

theorem remaining_agrees_with_passed:
  "(remaining_ms b now = 0 \<longleftrightarrow> bound_passed b now) \<and>
   (bound_passed b now \<or>
     (uint (remaining_ms b now) - 1) * 1000000 < remaining_ns b now \<and>
     remaining_ns b now \<le> uint (remaining_ms b now) * 1000000)"
proof (cases "0 < remaining_ns b now")
  case True
  define n where "n = nat (remaining_ns b now)"
  define c where "c = div_ceil n 1000000"
  have n: "int n = remaining_ns b now" "0 < n" using True by (simp_all add: n_def)
  have ms: "uint (remaining_ms b now) = int c" using True by (simp add: uint_remaining_ms n_def c_def)
  have "(c - 1) * 1000000 < n" "n \<le> c * 1000000" "0 < c"
    using div_ceil_bounds [of 1000000 n] div_ceil_zero [of 1000000 n] n(2) by (auto simp: c_def)
  then have "(int c - 1) * 1000000 < int n" "int n \<le> int c * 1000000" by simp_all
  moreover have "\<not> bound_passed b now" using True remaining_ns_passed [of b now] by simp
  moreover have "remaining_ms b now \<noteq> 0" using ms \<open>0 < c\<close> by auto
  ultimately show ?thesis by (simp add: ms n(1))
next
  case False
  then have "bound_passed b now" using remaining_ns_passed [of b now] by simp
  moreover have "uint (remaining_ms b now) = 0" using False by (simp add: uint_remaining_ms div_ceil_def)
  ultimately show ?thesis by (simp add: word_uint_eq_iff)
qed

text \<open>
  A bound set \<open>ms\<close> ahead has exactly \<open>ms\<close> left at that reading, on either clock, and is refused
  exactly when one of its two deadlines would overflow.
\<close>

theorem bound_after_exact:
  "(case bound_after now ms of
      Some b \<Rightarrow> remaining_ms b now = ms \<and> remaining_ns b now = uint ms * 1000000 \<and>
        boot (deadline b) = boot (cont now) \<and> (bound_passed b now \<longleftrightarrow> ms = 0)
    | None \<Rightarrow> 2 ^ 64 \<le> unat (ns (cont now)) + unat ms * 1000000 \<or> 2 ^ 64 \<le> unat (wall now) + unat ms)"
proof (cases "bound_after now ms")
  case None
  then show ?thesis
    by (auto simp: bound_after_def checked_add_ms_def checked_mul_def checked_add_def unat_word_ariths
        split: option.splits if_splits)
next
  case (Some b)
  then obtain sp n w where sp: "checked_mul ms NS_PER_MS = Some sp" "checked_add (ns (cont now)) sp = Some n"
    "checked_add (wall now) ms = Some w"
    and b: "b = \<lparr>not_after = w, deadline = \<lparr>boot = boot (cont now), ns = n\<rparr>\<rparr>"
    by (auto simp: bound_after_def checked_add_ms_def split: option.splits)
  have "unat n = unat (ns (cont now)) + unat ms * 1000000" "unat w = unat (wall now) + unat ms"
    using sp by (auto simp: checked_add_Some dest: checked_mul_Some_unat)
  then have "uint n = uint (ns (cont now)) + uint ms * 1000000" "uint w = uint (wall now) + uint ms"
    by (simp_all only: uint_unat_sums)
  then have r: "remaining_ns b now = uint ms * 1000000" by (simp add: remaining_ns_def b)
  then have "nat (max 0 (remaining_ns b now)) = unat ms * 1000000" by (simp add: nat_mult_distrib)
  then have "uint (remaining_ms b now) = int (unat ms)" by (simp only: uint_remaining_ms div_ceil_mult)
  then have "remaining_ms b now = ms" by (simp add: word_uint_eq_iff)
  with r Some b remaining_ns_passed [of b now] show ?thesis
    by (auto simp: word_uint_eq_iff order.antisym)
qed

text \<open>
  The earlier of two bounds of one boot session ends when the first of them does: it has passed
  exactly when either has, has as little time left, and its wait deadline is the earlier one.
\<close>

theorem earlier_ends_first:
  assumes "boot (deadline a) = boot (deadline b)" "instants_fit lo hi now"
  shows "(bound_passed (earlier a b) now \<longleftrightarrow> bound_passed a now \<or> bound_passed b now) \<and>
    remaining_ns (earlier a b) now = min (remaining_ns a now) (remaining_ns b now) \<and>
    wait_deadline lo hi (earlier a b) now extra =
      min (wait_deadline lo hi a now extra) (wait_deadline lo hi b now extra)"
  using remaining_ns_earlier [OF assms(1), of now]
  by (simp add: remaining_ns_passed [symmetric] min_le_iff_disj wait_deadline_fits [OF assms(2)])

definition demo_reading :: "u64 \<Rightarrow> u64 \<Rightarrow> clock_reading" where
  "demo_reading w n = \<lparr>wall = w, cont = \<lparr>boot = 7, ns = n\<rparr>, wait = uint n\<rparr>"

definition demo_bound :: bound where
  "demo_bound = \<lparr>not_after = 2000, deadline = \<lparr>boot = 7, ns = 50000000\<rparr>\<rparr>"

theorem earlier_ends_first_witness:
  "bound_passed (earlier demo_bound \<lparr>not_after = 9000, deadline = \<lparr>boot = 7, ns = 4000000\<rparr>\<rparr>)
     (demo_reading 1500 4000000)"
proof -
  let ?b = "\<lparr>not_after = 9000, deadline = \<lparr>boot = 7, ns = 4000000\<rparr>\<rparr>" and ?now = "demo_reading 1500 4000000"
  have "boot (deadline demo_bound) = boot (deadline ?b)" "instants_fit (- (2 ^ 90)) (2 ^ 90) ?now"
    by (simp_all add: demo_bound_def demo_reading_def instants_fit_def)
  moreover have "bound_passed ?b ?now" by (simp add: demo_reading_def bound_passed_def)
  ultimately show ?thesis using earlier_ends_first [of demo_bound ?b] by blast
qed

text \<open>
  On an awake host with no wall step, where a bound falls on the wait clock does not move: every
  later reading gives the same wait deadline, before the bound and after it, the time left falls by
  exactly the time that went by, and a bound that has passed stays passed.
\<close>

theorem wait_deadline_stable:
  assumes "advance_all_ms hi ms r = Some r'" "instants_fit lo hi r" "instants_fit lo hi r'"
    and "uint (wall r) + uint ms < 2 ^ 64" "uint (ns (cont r)) + uint ms * 1000000 < 2 ^ 64"
  shows "wait_deadline lo hi b r' extra = wait_deadline lo hi b r extra \<and>
    remaining_ns b r' = remaining_ns b r - uint ms * 1000000 \<and> (bound_passed b r \<longrightarrow> bound_passed b r')"
proof -
  note to = advance_all_readings [OF assms(1,4,5)]
  have "remaining_ns b r' = remaining_ns b r - uint ms * 1000000"
    by (rule remaining_ns_advance [OF to(1-3)])
  moreover have "bound_passed b r \<longrightarrow> bound_passed b r'"
    using calculation uint_less_64 [of ms] unfolding remaining_ns_passed [symmetric] by linarith
  ultimately show ?thesis using to(4) by (simp add: wait_deadline_fits assms(2,3))
qed

theorem wait_deadline_stable_witness:
  "wait_deadline (- (2 ^ 90)) (2 ^ 90) demo_bound (demo_reading 2100 104000000) 5000 =
   wait_deadline (- (2 ^ 90)) (2 ^ 90) demo_bound (demo_reading 2000 4000000) 5000"
proof -
  let ?r = "demo_reading 2000 4000000" and ?r' = "demo_reading 2100 104000000"
  have "advance_all_ms (2 ^ 90) 100 ?r = Some ?r'"
    by (simp add: demo_reading_def advance_all_ms_def step_wait_def step_continuous_def Let_def
        saturating_add_def saturating_mul_def NS_PER_MS_def)
  moreover have "instants_fit (- (2 ^ 90)) (2 ^ 90) ?r" "instants_fit (- (2 ^ 90)) (2 ^ 90) ?r'"
    "uint (wall ?r) + uint (100 :: u64) < 2 ^ 64" "uint (ns (cont ?r)) + uint (100 :: u64) * 1000000 < 2 ^ 64"
    by (simp_all add: demo_reading_def instants_fit_def)
  ultimately show ?thesis using wait_deadline_stable by blast
qed

text \<open>
  C10. A fence holds. Let a bound have passed at a reading, and a caller move its continuous deadline by the
  documented rule. Take a later reading of the same boot session, whose continuous clock has not gone back and
  whose wait clock has run no longer since than the continuous one, and let both readings fit what the clock's
  instants can hold (\<open>instants_fit\<close>). Then the bound reads as passed there too, however the wall clock was
  set; and if the continuous clock at the first reading with what remained of the bound added, which is never
  more than zero, is not negative, so that the rule's subtraction does not saturate, the wait deadline the
  later reading gives for the fenced bound is not later than the one the first reading gave for the bound.
\<close>

theorem fence_holds:
  assumes "bound_passed b now" "instants_fit lo hi now" "instants_fit lo hi later"
    and "boot (cont later) = boot (cont now)" "ns (cont now) \<le> ns (cont later)"
    and "wait later - wait now \<le> uint (ns (cont later)) - uint (ns (cont now))"
  shows "bound_passed (fenced lo hi b now) later \<and>
    (0 \<le> uint (ns (cont now)) + remaining_ns b now \<longrightarrow>
      wait_deadline lo hi (fenced lo hi b now) later extra \<le> wait_deadline lo hi b now extra)"
proof -
  note fence = fenced_deadline [OF assms(2,1)]
  have neg: "remaining_ns b now \<le> 0" using assms(1) by (simp add: remaining_ns_passed)
  have le: "uint (ns (cont now)) \<le> uint (ns (cont later))" using assms(5) by (simp add: word_le_def)
  have "uint (ns (deadline (fenced lo hi b now))) \<le> uint (ns (cont later))"
    unfolding fence(2) using neg le by simp
  then have "bound_passed (fenced lo hi b now) later"
    using fence(1) assms(4) by (simp add: bound_passed_def word_le_def)
  moreover have "remaining_ns (fenced lo hi b now) later \<le>
      uint (ns (deadline (fenced lo hi b now))) - uint (ns (cont later))"
    using fence(1) assms(4) by (simp add: remaining_ns_def Let_def)
  ultimately show ?thesis
    using assms(6) unfolding fence(2) wait_deadline_fits [OF assms(2)] wait_deadline_fits [OF assms(3)]
    by linarith
qed

theorem fence_holds_witness:
  "bound_passed demo_bound (demo_reading 3000 4000000) \<and>
   \<not> bound_passed demo_bound (demo_reading 1500 9000000) \<and>
   bound_passed (fenced (- (2 ^ 90)) (2 ^ 90) demo_bound (demo_reading 3000 4000000)) (demo_reading 1500 9000000)"
proof -
  let ?now = "demo_reading 3000 4000000" and ?later = "demo_reading 1500 9000000"
  have now: "bound_passed demo_bound ?now" and later: "\<not> bound_passed demo_bound ?later"
    by (simp_all add: demo_bound_def demo_reading_def bound_passed_def)
  have fit: "instants_fit (- (2 ^ 90)) (2 ^ 90) ?now" "instants_fit (- (2 ^ 90)) (2 ^ 90) ?later"
    by (simp_all add: demo_reading_def instants_fit_def)
  have "boot (cont ?later) = boot (cont ?now)" "ns (cont ?now) \<le> ns (cont ?later)"
    "wait ?later - wait ?now \<le> uint (ns (cont ?later)) - uint (ns (cont ?now))"
    by (simp_all add: demo_reading_def)
  from fence_holds [OF now fit this] now later show ?thesis by blast
qed

end
