(* ===== verification/Paging.thy ===== *)
theory Paging
  imports Digest
begin

text \<open>
  Paged observation, \<open>crates/plasmosome-backend/src/paging.rs\<close>: a responder freezes an account and
  serves it in pages until a deadline (\<open>CaptureSlot\<close>); a caller collects the pages and accepts the
  account only when every byte arrived and its hash is the stated one (\<open>PageAssembler\<close>). The hash and
  the JSON encoder and decoder belong to other crates and are parameters. Instants are natural numbers
  of nanoseconds. A \<open>Vec\<close> never holds \<open>2^63\<close> bytes, so \<open>len as u64\<close> loses nothing; where a proof
  needs that it is a hypothesis on the account.
\<close>

section \<open>Pages\<close>

definition MAX_PAGE_BYTES :: nat where "MAX_PAGE_BYTES = 65536"

record observation_page =
  pg_snapshot :: u64
  pg_offset :: u64
  pg_total :: u64
  pg_sha256 :: digest
  pg_bytes :: "u8 list"
  pg_complete :: bool

datatype page_fault =
    ZeroSnapshot
  | ZeroTotal
  | EmptyBytes
  | TooManyBytes nat
  | OffsetOverflow u64 nat
  | BeyondTotal u64 u64
  | CompleteFlag bool bool

definition page_check :: "observation_page \<Rightarrow> page_fault + unit" where
  "page_check p =
     (let len = length (pg_bytes p) in
      if pg_snapshot p = 0 then Err ZeroSnapshot
      else if pg_total p = 0 then Err ZeroTotal
      else if len = 0 then Err EmptyBytes
      else if MAX_PAGE_BYTES < len then Err (TooManyBytes len)
      else
        (case checked_add (pg_offset p) (of_nat len) of
           None \<Rightarrow> Err (OffsetOverflow (pg_offset p) len)
         | Some end \<Rightarrow>
             if pg_total p < end then Err (BeyondTotal end (pg_total p))
             else (let actual = (end = pg_total p) in
                   if pg_complete p \<noteq> actual then Err (CompleteFlag (pg_complete p) actual) else Ok ())))"

record page_cursor =
  cur_snapshot :: u64
  cur_offset :: u64

definition cursor_start :: page_cursor where
  "cursor_start = \<lparr>cur_snapshot = 0, cur_offset = 0\<rparr>"

definition is_start :: "page_cursor \<Rightarrow> bool" where
  "is_start c \<longleftrightarrow> c = cursor_start"

section \<open>The responder\<close>

datatype paging_error =
    InvalidCursor u64 u64
  | UnknownSnapshot u64
  | ScopeChanged u64
  | OffsetOutOfRange u64 u64
  | Expired
  | SnapshotsExhausted
  | BadPageSize nat
  | Encode string

fun paging_code :: "paging_error \<Rightarrow> int" where
  "paging_code (InvalidCursor _ _) = -32602"
| "paging_code (UnknownSnapshot _) = -32602"
| "paging_code (ScopeChanged _) = -32602"
| "paging_code (OffsetOutOfRange _ _) = -32602"
| "paging_code Expired = -32603"
| "paging_code SnapshotsExhausted = -32603"
| "paging_code (BadPageSize _) = -32603"
| "paging_code (Encode _) = -32603"

datatype 'e capture_error = CapturePaging paging_error | Collect 'e

record frozen_account =
  fa_bytes :: "u8 list"
  fa_sha256 :: digest

definition freeze ::
  "('a \<Rightarrow> string + u8 list) \<Rightarrow> (u8 list \<Rightarrow> digest) \<Rightarrow> 'a \<Rightarrow> paging_error + frozen_account" where
  "freeze to_vec sha v =
     and_then (map_err Encode (to_vec v)) (\<lambda>bytes. Ok \<lparr>fa_bytes = bytes, fa_sha256 = sha bytes\<rparr>)"

definition fa_total :: "frozen_account \<Rightarrow> u64" where
  "fa_total a = of_nat (length (fa_bytes a))"

record 's capture =
  cp_snapshot :: u64
  cp_scope :: 's
  cp_account :: frozen_account
  cp_expires :: nat

record 's capture_slot =
  cs_page_bytes :: nat
  cs_last_snapshot :: u64
  cs_current :: "'s capture option"
  cs_ended :: "(u64 \<times> 's) option"

definition page_at :: "'s capture \<Rightarrow> u64 \<Rightarrow> nat \<Rightarrow> observation_page" where
  "page_at c offset page_bytes =
     (let account = fa_bytes (cp_account c);
          start = unat offset;
          end = min (length account) (start + page_bytes)
      in \<lparr>pg_snapshot = cp_snapshot c, pg_offset = offset, pg_total = fa_total (cp_account c),
          pg_sha256 = fa_sha256 (cp_account c), pg_bytes = take (end - start) (drop start account),
          pg_complete = (end = length account)\<rparr>)"

definition slot_new :: "'s capture_slot" where
  "slot_new = \<lparr>cs_page_bytes = MAX_PAGE_BYTES, cs_last_snapshot = 0, cs_current = None, cs_ended = None\<rparr>"

definition with_page_bytes :: "nat \<Rightarrow> paging_error + 's capture_slot" where
  "with_page_bytes n =
     (if \<not> (1 \<le> n \<and> n \<le> MAX_PAGE_BYTES) then Err (BadPageSize n)
      else Ok (slot_new\<lparr>cs_page_bytes := n\<rparr>))"

text \<open>
  \<open>CaptureSlot::capture\<close>. \<open>now1\<close> and \<open>now2\<close> are what the clock reads before and after the
  collection, and \<open>collected\<close> is what \<open>collect\<close> returns.
\<close>

definition slot_capture ::
  "'s \<Rightarrow> nat \<Rightarrow> nat \<Rightarrow> ('e + frozen_account) \<Rightarrow> nat \<Rightarrow> 's capture_slot \<Rightarrow>
   ('e capture_error + observation_page) \<times> 's capture_slot" where
  "slot_capture scope expires now1 collected now2 slot0 =
     (let slot = slot0\<lparr>cs_current := None, cs_ended := None\<rparr> in
      if expires \<le> now1 then (Err (CapturePaging Expired), slot)
      else
        (case collected of
           Inl e \<Rightarrow> (Err (Collect e), slot)
         | Inr account \<Rightarrow>
             if expires \<le> now2 then (Err (CapturePaging Expired), slot)
             else
               (case checked_add (cs_last_snapshot slot) 1 of
                  None \<Rightarrow> (Err (CapturePaging SnapshotsExhausted), slot)
                | Some snapshot \<Rightarrow>
                    (let c = \<lparr>cp_snapshot = snapshot, cp_scope = scope, cp_account = account, cp_expires = expires\<rparr>
                     in (Ok (page_at c 0 (cs_page_bytes slot)),
                         slot\<lparr>cs_last_snapshot := snapshot, cs_current := Some c\<rparr>)))))"

definition slot_end :: "'s capture_slot \<Rightarrow> 's capture_slot" where
  "slot_end slot =
     (case cs_current slot of
        None \<Rightarrow> slot
      | Some held \<Rightarrow> slot\<lparr>cs_current := None, cs_ended := Some (cp_snapshot held, cp_scope held)\<rparr>)"

definition slot_page ::
  "'s \<Rightarrow> page_cursor \<Rightarrow> nat \<Rightarrow> nat \<Rightarrow> 's capture_slot \<Rightarrow> (paging_error + observation_page) \<times> 's capture_slot" where
  "slot_page scope cursor request_expires now slot =
     (let snapshot = cur_snapshot cursor; offset = cur_offset cursor in
      if snapshot = 0 then (Err (InvalidCursor snapshot offset), slot)
      else
        (case (case cs_current slot of
                 Some held \<Rightarrow> if cp_snapshot held = snapshot then Some held else None
               | None \<Rightarrow> None) of
           None \<Rightarrow>
             (Err (case cs_ended slot of
                     Some (ended, held) \<Rightarrow>
                       if ended = snapshot \<and> held \<noteq> scope then ScopeChanged snapshot
                       else if ended = snapshot then Expired else UnknownSnapshot snapshot
                   | None \<Rightarrow> UnknownSnapshot snapshot), slot)
         | Some held \<Rightarrow>
             if cp_scope held \<noteq> scope then (Err (ScopeChanged snapshot), slot)
             else
               (let c = held\<lparr>cp_expires := min (cp_expires held) request_expires\<rparr>;
                    slot' = slot\<lparr>cs_current := Some c\<rparr> in
                if cp_expires c \<le> now then (Err Expired, slot_end slot')
                else (let total = fa_total (cp_account c) in
                      if total \<le> offset then (Err (OffsetOutOfRange offset total), slot')
                      else (Ok (page_at c offset (cs_page_bytes slot')), slot')))))"

definition slot_expire :: "nat \<Rightarrow> 's capture_slot \<Rightarrow> 's capture_slot" where
  "slot_expire now slot =
     (if (case cs_current slot of Some held \<Rightarrow> cp_expires held \<le> now | None \<Rightarrow> False) then slot_end slot else slot)"

definition slot_discard :: "'s capture_slot \<Rightarrow> 's capture_slot" where
  "slot_discard slot = slot_end slot"

definition is_holding :: "'s capture_slot \<Rightarrow> bool" where
  "is_holding slot \<longleftrightarrow> cs_current slot \<noteq> None"

section \<open>The caller\<close>

datatype assembly_fault =
    FaultPage page_fault
  | FirstPageNotAtZero u64
  | SnapshotChanged u64 u64
  | TotalChanged u64 u64
  | HashChanged
  | OutOfOrder u64 u64
  | AfterComplete
  | Incomplete u64 "u64 option"
  | HashMismatch digest digest
  | Whitespace
  | Decode string

record started =
  st_snapshot :: u64
  st_total :: u64
  st_sha256 :: digest
  st_complete :: bool

record page_assembler =
  as_started :: "started option"
  as_buffer :: "u8 list"

definition assembler_new :: page_assembler where
  "assembler_new = \<lparr>as_started = None, as_buffer = []\<rparr>"

definition received :: "page_assembler \<Rightarrow> u64" where
  "received a = of_nat (length (as_buffer a))"

definition assembler_next :: "page_assembler \<Rightarrow> page_cursor option" where
  "assembler_next a =
     (case as_started a of
        None \<Rightarrow> Some cursor_start
      | Some s \<Rightarrow> if st_complete s then None
                  else Some \<lparr>cur_snapshot = st_snapshot s, cur_offset = received a\<rparr>)"

definition follows :: "page_assembler \<Rightarrow> started \<Rightarrow> observation_page \<Rightarrow> assembly_fault + unit" where
  "follows a s p =
     (if st_complete s then Err AfterComplete
      else if pg_snapshot p \<noteq> st_snapshot s then Err (SnapshotChanged (st_snapshot s) (pg_snapshot p))
      else if pg_total p \<noteq> st_total s then Err (TotalChanged (st_total s) (pg_total p))
      else if pg_sha256 p \<noteq> st_sha256 s then Err HashChanged
      else if pg_offset p \<noteq> received a then Err (OutOfOrder (received a) (pg_offset p))
      else Ok ())"

definition accept ::
  "observation_page \<Rightarrow> page_assembler \<Rightarrow> (assembly_fault + unit) \<times> page_assembler" where
  "accept p a =
     (case and_then (map_err FaultPage (page_check p)) (\<lambda>_.
             case as_started a of
               None \<Rightarrow> if pg_offset p \<noteq> 0 then Err (FirstPageNotAtZero (pg_offset p)) else Ok ()
             | Some s \<Rightarrow> follows a s p) of
        Inl e \<Rightarrow> (Err e, a)
      | Inr _ \<Rightarrow>
          (Ok (), \<lparr>as_started = Some \<lparr>st_snapshot = pg_snapshot p, st_total = pg_total p,
                      st_sha256 = pg_sha256 p, st_complete = pg_complete p\<rparr>,
                   as_buffer = as_buffer a @ pg_bytes p\<rparr>))"

definition is_ascii_whitespace :: "u8 \<Rightarrow> bool" where
  "is_ascii_whitespace b \<longleftrightarrow> b \<in> {32, 9, 10, 12, 13}"

definition finish ::
  "(u8 list \<Rightarrow> digest) \<Rightarrow> (u8 list \<Rightarrow> string + 'a) \<Rightarrow> page_assembler \<Rightarrow> assembly_fault + 'a" where
  "finish sha from_slice a =
     and_then
       (case as_started a of
          Some s \<Rightarrow> if received a = st_total s then Ok (st_sha256 s) else Err (Incomplete (received a) (Some (st_total s)))
        | None \<Rightarrow> Err (Incomplete (received a) None)) (\<lambda>stated.
     (let computed = sha (as_buffer a) in
      if computed \<noteq> stated then Err (HashMismatch stated computed)
      else if (as_buffer a \<noteq> [] \<and>
               (is_ascii_whitespace (hd (as_buffer a)) \<or> is_ascii_whitespace (last (as_buffer a))))
      then Err Whitespace
      else map_err Decode (from_slice (as_buffer a))))"

section \<open>Messages\<close>

definition show_bool :: "bool \<Rightarrow> string" where
  "show_bool b = (if b then ''true'' else ''false'')"

definition show_word :: "'a::len word \<Rightarrow> string" where
  "show_word w = show_nat (unat w)"

fun show_page_fault :: "page_fault \<Rightarrow> string" where
  "show_page_fault ZeroSnapshot = ''the page names snapshot 0, which only starts a capture''"
| "show_page_fault ZeroTotal = ''the page states an empty account''"
| "show_page_fault EmptyBytes = ''the page carries no bytes''"
| "show_page_fault (TooManyBytes len) =
     ''the page carries '' @ show_nat len @ '' bytes, more than '' @ show_nat MAX_PAGE_BYTES"
| "show_page_fault (OffsetOverflow offset len) =
     ''offset '' @ show_word offset @ '' plus '' @ show_nat len @ '' bytes overflows a u64''"
| "show_page_fault (BeyondTotal end tot) =
     ''the page ends at byte '' @ show_word end @ '', past the account'' @ [CHR 0x27] @ ''s '' @ show_word tot @ '' bytes''"
| "show_page_fault (CompleteFlag stated actual) =
     ''the page says complete is '' @ show_bool stated @ '', but where it ends makes it '' @ show_bool actual"

fun show_paging_error :: "paging_error \<Rightarrow> string" where
  "show_paging_error (InvalidCursor snapshot offset) =
     ''snapshot '' @ show_word snapshot @ '' with offset '' @ show_word offset @
     '' names no page; zero/zero starts a capture''"
| "show_paging_error (UnknownSnapshot snapshot) =
     ''snapshot '' @ show_word snapshot @ '' is not the capture this connection holds''"
| "show_paging_error (ScopeChanged snapshot) =
     ''snapshot '' @ show_word snapshot @ '' was captured for another scope''"
| "show_paging_error (OffsetOutOfRange offset tot) =
     ''offset '' @ show_word offset @ '' is outside the '' @ show_word tot @ ''-byte account''"
| "show_paging_error Expired = ''the capture has ended: its deadline passed or the server dropped it''"
| "show_paging_error SnapshotsExhausted = ''this connection has issued every snapshot ID''"
| "show_paging_error (BadPageSize page_bytes) =
     ''a page of '' @ show_nat page_bytes @ '' bytes is outside 1 to '' @ show_nat MAX_PAGE_BYTES"
| "show_paging_error (Encode detail) = ''the account cannot be encoded as JSON: '' @ detail"

fun show_capture_error :: "('e \<Rightarrow> string) \<Rightarrow> 'e capture_error \<Rightarrow> string" where
  "show_capture_error show_e (CapturePaging e) = show_paging_error e"
| "show_capture_error show_e (Collect e) = ''collecting the account failed: '' @ show_e e"

fun show_assembly_fault :: "assembly_fault \<Rightarrow> string" where
  "show_assembly_fault (FaultPage fault) = show_page_fault fault"
| "show_assembly_fault (FirstPageNotAtZero offset) =
     ''the first page starts at offset '' @ show_word offset @ '', not 0''"
| "show_assembly_fault (SnapshotChanged expected found) =
     ''a page from snapshot '' @ show_word found @ '' arrived while assembling snapshot '' @ show_word expected"
| "show_assembly_fault (TotalChanged expected found) =
     ''a page states a '' @ show_word found @ ''-byte account, not '' @ show_word expected @ '' bytes''"
| "show_assembly_fault HashChanged = ''a page states a different account hash than the first page''"
| "show_assembly_fault (OutOfOrder expected found) =
     ''a page starts at offset '' @ show_word found @ '', not at the first missing byte '' @ show_word expected"
| "show_assembly_fault AfterComplete = ''a page arrived after the completing page''"
| "show_assembly_fault (Incomplete n (Some tot)) =
     ''only '' @ show_word n @ '' of '' @ show_word tot @ '' bytes arrived''"
| "show_assembly_fault (Incomplete n None) = ''no page arrived''"
| "show_assembly_fault (HashMismatch stated computed) =
     ''the account hashes to '' @ digest_hex computed @ '', not the stated '' @ digest_hex stated"
| "show_assembly_fault Whitespace =
     ''the account starts or ends with whitespace, so it is not compact JSON''"
| "show_assembly_fault (Decode detail) = ''the account is not the expected record: '' @ detail"

section \<open>One transfer\<close>

text \<open>
  The caller's loop: ask for \<open>assembler_next\<close>, pass the reply to \<open>accept\<close>. Each request carries its
  own deadline and is served at its own time; the loop ends at the completing page or at a refusal.
\<close>

fun transfer ::
  "'s \<Rightarrow> (nat \<times> nat) list \<Rightarrow> 's capture_slot \<Rightarrow> page_assembler \<Rightarrow>
   ((paging_error + assembly_fault) + page_assembler) \<times> 's capture_slot" where
  "transfer scope [] slot a = (Ok a, slot)"
| "transfer scope ((request_expires, now) # reqs) slot a =
     (case assembler_next a of
        None \<Rightarrow> (Ok a, slot)
      | Some cursor \<Rightarrow>
          (case slot_page scope cursor request_expires now slot of
             (Inl e, slot') \<Rightarrow> (Err (Inl e), slot')
           | (Inr p, slot') \<Rightarrow>
               (case accept p a of
                  (Inl f, _) \<Rightarrow> (Err (Inr f), slot')
                | (Inr _, a') \<Rightarrow> transfer scope reqs slot' a')))"

text \<open>The caller holding the first \<open>k\<close> bytes of a capture.\<close>

definition partial :: "'s capture \<Rightarrow> nat \<Rightarrow> page_assembler" where
  "partial c k =
     \<lparr>as_started = Some \<lparr>st_snapshot = cp_snapshot c, st_total = fa_total (cp_account c),
        st_sha256 = fa_sha256 (cp_account c), st_complete = (k = length (fa_bytes (cp_account c)))\<rparr>,
      as_buffer = take k (fa_bytes (cp_account c))\<rparr>"

text \<open>A capture that can be served: not snapshot zero, and an account of \<open>1\<close> to \<open>2^63 - 1\<close> bytes.\<close>

definition servable :: "'s capture \<Rightarrow> bool" where
  "servable c \<longleftrightarrow> cp_snapshot c \<noteq> 0 \<and> fa_bytes (cp_account c) \<noteq> [] \<and> length (fa_bytes (cp_account c)) < 2 ^ 63"

lemma servable_total:
  assumes "servable c"
  shows "unat (fa_total (cp_account c)) = length (fa_bytes (cp_account c))"
    "k \<le> length (fa_bytes (cp_account c)) \<Longrightarrow> unat (of_nat k :: u64) = k"
  using assms by (simp_all add: servable_def fa_total_def unat_of_nat)

lemma page_at_bytes:
  assumes "k < length (fa_bytes (cp_account c))" "servable c"
  shows "pg_bytes (page_at c (of_nat k) n) = take n (drop k (fa_bytes (cp_account c)))"
    "pg_complete (page_at c (of_nat k) n) \<longleftrightarrow> length (fa_bytes (cp_account c)) \<le> k + n"
proof -
  have k: "unat (of_nat k :: u64) = k" using servable_total(2) [OF assms(2)] assms(1) by simp
  show "pg_bytes (page_at c (of_nat k) n) = take n (drop k (fa_bytes (cp_account c)))"
    by (simp add: page_at_def Let_def k min_def)
  show "pg_complete (page_at c (of_nat k) n) \<longleftrightarrow> length (fa_bytes (cp_account c)) \<le> k + n"
    by (auto simp: page_at_def Let_def k min_def)
qed

lemma page_at_check:
  assumes "servable c" "k < length (fa_bytes (cp_account c))" "1 \<le> n" "n \<le> MAX_PAGE_BYTES"
  shows "page_check (page_at c (of_nat k) n) = Ok ()"
proof -
  let ?p = "page_at c (of_nat k) n" and ?L = "length (fa_bytes (cp_account c))"
  have len: "length (pg_bytes ?p) = min n (?L - k)" using page_at_bytes(1) [OF assms(2,1)] by simp
  have fields: "pg_snapshot ?p = cp_snapshot c" "pg_offset ?p = of_nat k" "pg_total ?p = of_nat ?L"
    by (simp_all add: page_at_def Let_def fa_total_def)
  define e :: u64 where "e = of_nat (k + min n (?L - k))"
  have ue: "unat e = k + min n (?L - k)" "unat (of_nat k :: u64) = k" "unat (of_nat ?L :: u64) = ?L"
    "unat (of_nat (min n (?L - k)) :: u64) = min n (?L - k)"
    using servable_total(2) [OF assms(1)] assms(2) unfolding e_def by (auto simp del: of_nat_add)
  then have "checked_add (of_nat k :: u64) (of_nat (min n (?L - k))) = Some e" by (simp add: checked_add_Some)
  moreover have "\<not> of_nat ?L < e" "e = of_nat ?L \<longleftrightarrow> ?L \<le> k + n"
    using ue assms(2) by (auto simp: word_less_nat_alt word_unat_eq_iff)
  moreover have "of_nat ?L \<noteq> (0 :: u64)" using ue(3) assms(2) by (metis gr_implies_not0 unsigned_0)
  ultimately show ?thesis
    using assms len page_at_bytes(2) [OF assms(2,1), of n]
    by (simp add: page_check_def fields Let_def servable_def MAX_PAGE_BYTES_def)
qed

lemma page_at_expires [simp]: "page_at (c\<lparr>cp_expires := x\<rparr>) offset n = page_at c offset n"
  by (simp add: page_at_def)

lemma partial_expires [simp]: "partial (c\<lparr>cp_expires := x\<rparr>) k = partial c k"
  by (simp add: partial_def)

lemma servable_expires [simp]: "servable (c\<lparr>cp_expires := x\<rparr>) = servable c"
  by (simp add: servable_def)

lemma slot_page_serves:
  assumes "cs_current slot = Some c" "servable c" "k < length (fa_bytes (cp_account c))"
    and "now < cp_expires c" "now < request_expires"
  shows "slot_page (cp_scope c) \<lparr>cur_snapshot = cp_snapshot c, cur_offset = of_nat k\<rparr> request_expires now slot =
    (Ok (page_at c (of_nat k) (cs_page_bytes slot)),
     slot\<lparr>cs_current := Some (c\<lparr>cp_expires := min (cp_expires c) request_expires\<rparr>)\<rparr>)"
proof -
  have "\<not> fa_total (cp_account c) \<le> of_nat k"
    using servable_total [OF assms(2)] assms(3) by (simp add: word_le_nat_alt)
  then show ?thesis using assms by (simp add: slot_page_def Let_def servable_def)
qed

lemma accept_first:
  assumes "servable c" "1 \<le> n" "n \<le> MAX_PAGE_BYTES"
  shows "accept (page_at c 0 n) assembler_new = (Ok (), partial c (min (length (fa_bytes (cp_account c))) n))"
proof -
  have L: "0 < length (fa_bytes (cp_account c))" using assms(1) by (simp add: servable_def)
  have "page_check (page_at c 0 n) = Ok ()" using page_at_check [OF assms(1) L assms(2,3)] by simp
  moreover have "pg_bytes (page_at c 0 n) = take n (fa_bytes (cp_account c))"
    using page_at_bytes(1) [OF L assms(1)] by simp
  moreover have "pg_complete (page_at c 0 n) \<longleftrightarrow> length (fa_bytes (cp_account c)) \<le> n"
    using page_at_bytes(2) [OF L assms(1)] by simp
  ultimately show ?thesis
    by (auto simp: accept_def assembler_new_def partial_def page_at_def Let_def min_def)
qed

lemma accept_next:
  assumes "servable c" "k < length (fa_bytes (cp_account c))" "1 \<le> n" "n \<le> MAX_PAGE_BYTES"
  shows "accept (page_at c (of_nat k) n) (partial c k) =
    (Ok (), partial c (min (length (fa_bytes (cp_account c))) (k + n)))"
proof -
  let ?p = "page_at c (of_nat k) n" and ?B = "fa_bytes (cp_account c)"
  have fields: "pg_snapshot ?p = cp_snapshot c" "pg_offset ?p = of_nat k" "pg_total ?p = fa_total (cp_account c)"
    "pg_sha256 ?p = fa_sha256 (cp_account c)"
    by (simp_all add: page_at_def Let_def)
  have "received (partial c k) = of_nat k" using assms(2) by (simp add: received_def partial_def min_def)
  then have "follows (partial c k) (the (as_started (partial c k))) ?p = Ok ()"
    using assms(2) by (simp add: follows_def partial_def fields)
  moreover have "take k ?B @ take n (drop k ?B) = take (min (length ?B) (k + n)) ?B"
    by (simp add: take_add min_def)
  ultimately show ?thesis
    using page_at_check [OF assms] page_at_bytes [OF assms(2,1), of n]
    by (auto simp: accept_def partial_def fields min_def)
qed

lemma transfer_partial:
  assumes "servable c" "cs_current slot = Some c" "1 \<le> cs_page_bytes slot" "cs_page_bytes slot \<le> MAX_PAGE_BYTES"
    and "0 < k" "k \<le> length (fa_bytes (cp_account c))"
    and "\<forall>(e, now) \<in> set reqs. now < cp_expires c \<and> (\<forall>(e', now') \<in> set reqs. now < e')"
    and "length (fa_bytes (cp_account c)) \<le> k + length reqs * cs_page_bytes slot"
  shows "\<exists>slot'. transfer (cp_scope c) reqs slot (partial c k) =
    (Ok (partial c (length (fa_bytes (cp_account c)))), slot')"
  using assms
proof (induction reqs arbitrary: slot c k)
  case (Cons r reqs)
  obtain e now where r: "r = (e, now)" by (cases r)
  let ?L = "length (fa_bytes (cp_account c))" and ?n = "cs_page_bytes slot"
  show ?case
  proof (cases "k = ?L")
    case True
    then show ?thesis by (simp add: r assembler_next_def partial_def)
  next
    case False
    with Cons.prems(6) have k: "k < ?L" by simp
    let ?c = "c\<lparr>cp_expires := min (cp_expires c) e\<rparr>"
    let ?slot = "slot\<lparr>cs_current := Some ?c\<rparr>"
    have "assembler_next (partial c k) = Some \<lparr>cur_snapshot = cp_snapshot c, cur_offset = of_nat k\<rparr>"
      using k by (simp add: assembler_next_def partial_def received_def min_def)
    then have "transfer (cp_scope c) (r # reqs) slot (partial c k) =
        transfer (cp_scope c) reqs ?slot (partial c (min ?L (k + ?n)))"
      using slot_page_serves [OF Cons.prems(2,1) k, of now e] Cons.prems(7) accept_next [OF Cons.prems(1) k Cons.prems(3,4)]
      by (auto simp: r)
    moreover have "\<exists>slot'. transfer (cp_scope ?c) reqs ?slot (partial ?c (min ?L (k + ?n))) =
        (Ok (partial ?c (length (fa_bytes (cp_account ?c)))), slot')"
      by (rule Cons.IH) (use Cons.prems r in \<open>auto simp: min_def\<close>)
    ultimately show ?thesis by simp
  qed
qed simp

lemma slot_capture_Ok:
  assumes "slot_capture scope expires now1 collected now2 slot = (Ok first, slot1)"
  shows "\<exists>c acc. collected = Ok acc \<and> first = page_at c 0 (cs_page_bytes slot) \<and>
    cp_scope c = scope \<and> cp_account c = acc \<and> cp_expires c = expires \<and>
    unat (cp_snapshot c) = unat (cs_last_snapshot slot) + 1 \<and>
    slot1 = slot\<lparr>cs_last_snapshot := cp_snapshot c, cs_current := Some c, cs_ended := None\<rparr> \<and>
    now1 < expires \<and> now2 < expires"
proof -
  from assms obtain acc snapshot where
    "collected = Ok acc" "unat snapshot = unat (cs_last_snapshot slot) + 1" "now1 < expires" "now2 < expires"
    "(first, slot1) =
       (let c = \<lparr>cp_snapshot = snapshot, cp_scope = scope, cp_account = acc, cp_expires = expires\<rparr>
        in (page_at c 0 (cs_page_bytes slot),
            slot\<lparr>cs_last_snapshot := snapshot, cs_current := Some c, cs_ended := None\<rparr>))"
    by (auto simp: slot_capture_def Let_def checked_add_Some split: if_splits sum.splits option.splits)
  then show ?thesis
    by (intro exI [of _ "\<lparr>cp_snapshot = snapshot, cp_scope = scope, cp_account = acc, cp_expires = expires\<rparr>"]
        exI [of _ acc]) (simp add: Let_def)
qed

lemma slot_capture_Err:
  assumes "slot_capture scope expires now1 collected now2 slot = (Err e, slot1)"
  shows "slot1 = slot\<lparr>cs_current := None, cs_ended := None\<rparr>"
  using assms by (auto simp: slot_capture_def Let_def split: if_splits sum.splits option.splits)

section \<open>What a caller can rely on\<close>

text \<open>Pages accepted one after another; the first refusal ends it.\<close>

fun accept_all :: "observation_page list \<Rightarrow> page_assembler \<Rightarrow> (assembly_fault + unit) \<times> page_assembler" where
  "accept_all [] a = (Ok (), a)"
| "accept_all (p # ps) a = (case accept p a of (Inl e, a') \<Rightarrow> (Err e, a') | (Inr _, a') \<Rightarrow> accept_all ps a')"

text \<open>
  The pages of one account in order: each starts where the one before ended, all state the same
  snapshot, length and hash, none exceeds the length, and only the last can be the completing one.
\<close>

definition consecutive :: "observation_page list \<Rightarrow> bool" where
  "consecutive ps \<longleftrightarrow>
     (\<forall>i < length ps.
        unat (pg_offset (ps ! i)) = length (concat (map pg_bytes (take i ps))) \<and>
        pg_snapshot (ps ! i) = pg_snapshot (ps ! 0) \<and> pg_total (ps ! i) = pg_total (ps ! 0) \<and>
        pg_sha256 (ps ! i) = pg_sha256 (ps ! 0) \<and>
        (pg_complete (ps ! i) \<longleftrightarrow> length (concat (map pg_bytes (take (Suc i) ps))) = unat (pg_total (ps ! i))) \<and>
        length (concat (map pg_bytes (take (Suc i) ps))) \<le> unat (pg_total (ps ! i)) \<and>
        (pg_complete (ps ! i) \<longrightarrow> Suc i = length ps))"

definition assembled :: "observation_page list \<Rightarrow> page_assembler \<Rightarrow> bool" where
  "assembled ps a \<longleftrightarrow>
     consecutive ps \<and> as_buffer a = concat (map pg_bytes ps) \<and>
     (case as_started a of
        None \<Rightarrow> ps = []
      | Some s \<Rightarrow> ps \<noteq> [] \<and> st_snapshot s = pg_snapshot (last ps) \<and> st_total s = pg_total (last ps) \<and>
          st_sha256 s = pg_sha256 (last ps) \<and> st_complete s = pg_complete (last ps))"

lemma page_check_Ok:
  assumes "page_check p = Ok ()"
  shows "pg_snapshot p \<noteq> 0" "unat (pg_offset p) + length (pg_bytes p) \<le> unat (pg_total p)"
    "pg_complete p \<longleftrightarrow> unat (pg_offset p) + length (pg_bytes p) = unat (pg_total p)"
    "0 < length (pg_bytes p)" "length (pg_bytes p) \<le> MAX_PAGE_BYTES"
proof -
  let ?n = "length (pg_bytes p)"
  from assms obtain stop where e: "checked_add (pg_offset p) (of_nat ?n) = Some stop"
    "\<not> pg_total p < stop" "pg_complete p \<longleftrightarrow> stop = pg_total p" "pg_snapshot p \<noteq> 0" "0 < ?n" "?n \<le> MAX_PAGE_BYTES"
    by (auto simp: page_check_def Let_def split: if_splits option.splits)
  have "unat (of_nat ?n :: u64) = ?n" using e(6) by (simp add: unat_of_nat MAX_PAGE_BYTES_def)
  then have "unat stop = unat (pg_offset p) + ?n" using e(1) by (simp add: checked_add_Some)
  with e show "unat (pg_offset p) + ?n \<le> unat (pg_total p)" "pg_complete p \<longleftrightarrow> unat (pg_offset p) + ?n = unat (pg_total p)"
    by (auto simp: word_less_nat_alt word_unat_eq_iff)
  show "pg_snapshot p \<noteq> 0" "0 < ?n" "?n \<le> MAX_PAGE_BYTES" by fact+
qed

lemma accept_Ok:
  assumes "accept p a = (Ok u, a')"
  shows "page_check p = Ok ()"
    "case as_started a of None \<Rightarrow> pg_offset p = 0
     | Some s \<Rightarrow> \<not> st_complete s \<and> pg_snapshot p = st_snapshot s \<and> pg_total p = st_total s \<and>
         pg_sha256 p = st_sha256 s \<and> pg_offset p = received a"
    "a' = \<lparr>as_started = Some \<lparr>st_snapshot = pg_snapshot p, st_total = pg_total p,
        st_sha256 = pg_sha256 p, st_complete = pg_complete p\<rparr>, as_buffer = as_buffer a @ pg_bytes p\<rparr>"
  using assms
  by (auto simp: accept_def follows_def and_then_eq_Inr split: sum.splits option.splits if_splits)

lemma accept_Err: "accept p a = (Err e, a') \<Longrightarrow> a' = a"
  by (auto simp: accept_def split: sum.splits)

lemma assembled_received:
  assumes "assembled ps a" "ps \<noteq> []"
  shows "unat (received a) = length (as_buffer a)" "length (as_buffer a) \<le> unat (pg_total (ps ! 0))"
    "pg_complete (last ps) \<longleftrightarrow> length (as_buffer a) = unat (pg_total (ps ! 0))"
proof -
  obtain i where i: "length ps = Suc i" using assms(2) by (cases "length ps") auto
  have buf: "as_buffer a = concat (map pg_bytes (take (Suc i) ps))" using assms(1) i by (simp add: assembled_def)
  have at: "length (concat (map pg_bytes (take (Suc i) ps))) \<le> unat (pg_total (ps ! i))"
    "pg_total (ps ! i) = pg_total (ps ! 0)"
    "pg_complete (ps ! i) \<longleftrightarrow> length (concat (map pg_bytes (take (Suc i) ps))) = unat (pg_total (ps ! i))"
    using assms(1) i unfolding assembled_def consecutive_def by (metis lessI)+
  then show le: "length (as_buffer a) \<le> unat (pg_total (ps ! 0))" by (simp add: buf)
  have "last ps = ps ! i" using i assms(2) by (simp add: last_conv_nth)
  with at show "pg_complete (last ps) \<longleftrightarrow> length (as_buffer a) = unat (pg_total (ps ! 0))" by (simp add: buf)
  have "unat (pg_total (ps ! 0)) < 2 ^ 64" using unsigned_less [of "pg_total (ps ! 0)", where ?'a = nat] by simp
  with le show "unat (received a) = length (as_buffer a)" by (simp add: received_def unat_of_nat)
qed

lemma assembled_accept:
  assumes "assembled ps a" "accept p a = (Ok u, a')"
  shows "assembled (ps @ [p]) a'"
proof -
  note acc = accept_Ok [OF assms(2)]
  note chk = page_check_Ok [OF acc(1)]
  have old: "consecutive ps" "as_buffer a = concat (map pg_bytes ps)" using assms(1) by (simp_all add: assembled_def)
  have same: "unat (pg_offset p) = length (as_buffer a) \<and> (ps \<noteq> [] \<longrightarrow> \<not> pg_complete (last ps) \<and>
      pg_snapshot p = pg_snapshot (ps ! 0) \<and> pg_total p = pg_total (ps ! 0) \<and> pg_sha256 p = pg_sha256 (ps ! 0))"
  proof (cases "as_started a")
    case None
    then show ?thesis using acc(2) assms(1) by (simp add: assembled_def)
  next
    case (Some s)
    then have ps: "ps \<noteq> []" and s: "\<not> pg_complete (last ps)" "pg_snapshot p = pg_snapshot (last ps)"
      "pg_total p = pg_total (last ps)" "pg_sha256 p = pg_sha256 (last ps)" "pg_offset p = received a"
      using acc(2) assms(1) by (auto simp: assembled_def)
    have "last ps = ps ! (length ps - 1)" "length ps - 1 < length ps" using ps by (simp_all add: last_conv_nth)
    then have "pg_snapshot (last ps) = pg_snapshot (ps ! 0)" "pg_total (last ps) = pg_total (ps ! 0)"
      "pg_sha256 (last ps) = pg_sha256 (ps ! 0)"
      using old(1) unfolding consecutive_def by metis+
    with s assembled_received(1) [OF assms(1) ps] show ?thesis by simp
  qed
  have "consecutive (ps @ [p])"
    unfolding consecutive_def
  proof (intro allI impI)
    fix i assume "i < length (ps @ [p])"
    show "unat (pg_offset ((ps @ [p]) ! i)) = length (concat (map pg_bytes (take i (ps @ [p])))) \<and>
        pg_snapshot ((ps @ [p]) ! i) = pg_snapshot ((ps @ [p]) ! 0) \<and>
        pg_total ((ps @ [p]) ! i) = pg_total ((ps @ [p]) ! 0) \<and>
        pg_sha256 ((ps @ [p]) ! i) = pg_sha256 ((ps @ [p]) ! 0) \<and>
        (pg_complete ((ps @ [p]) ! i) \<longleftrightarrow>
          length (concat (map pg_bytes (take (Suc i) (ps @ [p])))) = unat (pg_total ((ps @ [p]) ! i))) \<and>
        length (concat (map pg_bytes (take (Suc i) (ps @ [p])))) \<le> unat (pg_total ((ps @ [p]) ! i)) \<and>
        (pg_complete ((ps @ [p]) ! i) \<longrightarrow> Suc i = length (ps @ [p]))"
    proof (cases "i < length ps")
      case True
      then have "0 < length ps" by linarith
      have no: "\<not> pg_complete (ps ! i)"
      proof
        assume "pg_complete (ps ! i)"
        with old(1) [unfolded consecutive_def, rule_format, OF True] have "Suc i = length ps" by blast
        then have "ps ! i = last ps" by (metis diff_Suc_1 last_conv_nth length_0_conv nat.distinct(1))
        with \<open>pg_complete (ps ! i)\<close> same \<open>0 < length ps\<close> show False by auto
      qed
      have eqs: "take i (ps @ [p]) = take i ps" "take (Suc i) (ps @ [p]) = take (Suc i) ps"
        "(ps @ [p]) ! i = ps ! i" "(ps @ [p]) ! 0 = ps ! 0"
        using True \<open>0 < length ps\<close> by (auto simp: nth_append)
      show ?thesis
        unfolding eqs using old(1) [unfolded consecutive_def, rule_format, OF True] no by blast
    next
      case False
      with \<open>i < length (ps @ [p])\<close> have i: "i = length ps" by simp
      show ?thesis
        using same chk old(2) by (cases ps) (auto simp: i nth_append)
    qed
  qed
  then show ?thesis using old(2) by (simp add: assembled_def acc(3))
qed

lemma assembled_accept_all:
  "assembled ps a \<Longrightarrow> accept_all qs a = (Ok u, a') \<Longrightarrow> assembled (ps @ qs) a'"
proof (induction qs arbitrary: ps a)
  case (Cons q qs)
  then obtain u' a1 where a1: "accept q a = (Ok u', a1)" "accept_all qs a1 = (Ok u, a')"
    by (auto split: prod.splits sum.splits)
  from Cons.IH [OF assembled_accept [OF Cons.prems(1) a1(1)] a1(2)] show ?case by simp
qed simp

lemma assembled_new: "assembled [] assembler_new"
  by (simp add: assembled_def assembler_new_def consecutive_def)

text \<open>
  A finished account has every byte it was said to have, under the hash it was said to have.
\<close>

lemma finish_Ok:
  assumes "assembled ps a" "finish sha from_slice a = Ok v"
  shows "ps \<noteq> []" "pg_complete (last ps)" "sha (as_buffer a) = pg_sha256 (last ps)" "from_slice (as_buffer a) = Ok v"
    "length (as_buffer a) = unat (pg_total (last ps))"
proof -
  from assms(2) obtain s where s: "as_started a = Some s" "received a = st_total s" "sha (as_buffer a) = st_sha256 s"
    "from_slice (as_buffer a) = Ok v"
    by (auto simp: finish_def and_then_eq_Inr Let_def split: option.splits if_splits)
  then show ps: "ps \<noteq> []" and "sha (as_buffer a) = pg_sha256 (last ps)" "from_slice (as_buffer a) = Ok v"
    using assms(1) by (auto simp: assembled_def)
  have eq: "received a = pg_total (last ps)" using s(1,2) assms(1) by (auto simp: assembled_def)
  have "last ps = ps ! (length ps - 1)" "length ps - 1 < length ps" using ps by (simp_all add: last_conv_nth)
  then have "pg_total (last ps) = pg_total (ps ! 0)"
    using assms(1) unfolding assembled_def consecutive_def by metis
  with assembled_received [OF assms(1) ps] eq
  show "pg_complete (last ps)" "length (as_buffer a) = unat (pg_total (last ps))" by simp_all
qed

section \<open>Properties\<close>

text \<open>
  C11. A transfer delivers the account. Once a value is frozen and captured, a caller that follows
  \<open>next\<close>, with every request served before every deadline and at least as many requests as pages left,
  ends with the completing page accepted, holds exactly the account's bytes, and \<open>finish\<close> gives the
  value back.
\<close>

theorem transfer_delivers:
  assumes "freeze to_vec sha v = Ok acc" "from_slice (fa_bytes acc) = Ok v"
    and "fa_bytes acc \<noteq> []" "length (fa_bytes acc) < 2 ^ 63"
    and "\<not> is_ascii_whitespace (hd (fa_bytes acc))" "\<not> is_ascii_whitespace (last (fa_bytes acc))"
    and "slot_capture scope expires now1 (Ok acc) now2 slot = (Ok first, slot1)"
    and "1 \<le> cs_page_bytes slot" "cs_page_bytes slot \<le> MAX_PAGE_BYTES"
    and "\<forall>(e, now) \<in> set reqs. now < expires \<and> (\<forall>(e', now') \<in> set reqs. now < e')"
    and "length (fa_bytes acc) \<le> (length reqs + 1) * cs_page_bytes slot"
  shows "\<exists>a slot2. fst (accept first assembler_new) = Ok () \<and>
    transfer scope reqs slot1 (snd (accept first assembler_new)) = (Ok a, slot2) \<and>
    assembler_next a = None \<and> as_buffer a = fa_bytes acc \<and> finish sha from_slice a = Ok v"
proof -
  from slot_capture_Ok [OF assms(7)] obtain c where c: "first = page_at c 0 (cs_page_bytes slot)"
    "cp_scope c = scope" "cp_account c = acc" "cp_expires c = expires"
    "unat (cp_snapshot c) = unat (cs_last_snapshot slot) + 1"
    "slot1 = slot\<lparr>cs_last_snapshot := cp_snapshot c, cs_current := Some c, cs_ended := None\<rparr>"
    by auto
  let ?L = "length (fa_bytes acc)"
  have sv: "servable c" using c(3,5) assms(3,4) by (auto simp: servable_def)
  have first: "accept first assembler_new = (Ok (), partial c (min ?L (cs_page_bytes slot)))"
    using accept_first [OF sv assms(8,9)] by (simp add: c(1,3))
  have "\<exists>slot'. transfer (cp_scope c) reqs slot1 (partial c (min ?L (cs_page_bytes slot))) =
      (Ok (partial c (length (fa_bytes (cp_account c)))), slot')"
    by (rule transfer_partial [OF sv]) (use assms(3,8-11) c in \<open>auto simp: min_def\<close>)
  then obtain slot2 where run: "transfer scope reqs slot1 (partial c (min ?L (cs_page_bytes slot))) =
      (Ok (partial c ?L), slot2)" by (auto simp: c(2,3))
  have sha: "fa_sha256 acc = sha (fa_bytes acc)" using assms(1) by (auto simp: freeze_def and_then_eq_Inr)
  have "assembler_next (partial c ?L) = None" "as_buffer (partial c ?L) = fa_bytes acc"
    by (simp_all add: assembler_next_def partial_def c(3))
  moreover have "finish sha from_slice (partial c ?L) = Ok v"
    using assms(2,5,6) sha by (simp add: finish_def partial_def c(3) received_def fa_total_def Let_def)
  ultimately show ?thesis using first run by auto
qed

theorem transfer_delivers_witness:
  "let to_vec = (\<lambda>v :: u8 list. Inr v :: string + u8 list); sha = (\<lambda>bs. replicate 31 0 @ [sum_list bs]);
       acc = \<lparr>fa_bytes = [91, 49, 44, 50, 93], fa_sha256 = sha [91, 49, 44, 50, 93]\<rparr>;
       slot = slot_new\<lparr>cs_page_bytes := 2\<rparr>;
       (got, slot1) = slot_capture ''cell'' 100 10 (Inr acc :: unit + frozen_account) 20 slot
   in \<exists>first a slot2. got = Ok first \<and>
      transfer ''cell'' [(90, 30), (95, 40)] slot1 (snd (accept first assembler_new)) = (Ok a, slot2) \<and>
      finish sha to_vec a = Ok [91, 49, 44, 50, 93]"
proof -
  let ?sha = "\<lambda>bs :: u8 list. replicate 31 0 @ [sum_list bs]" and ?v = "[91, 49, 44, 50, 93] :: u8 list"
  let ?acc = "\<lparr>fa_bytes = ?v, fa_sha256 = ?sha ?v\<rparr>" and ?slot = "slot_new\<lparr>cs_page_bytes := 2\<rparr> :: string capture_slot"
  obtain first slot1 where run: "slot_capture ''cell'' 100 10 (Inr ?acc :: unit + frozen_account) 20 ?slot = (Ok first, slot1)"
    by (simp add: slot_capture_def Let_def slot_new_def checked_add_def)
  have "freeze (\<lambda>v. Inr v :: string + u8 list) ?sha ?v = Ok ?acc" by (simp add: freeze_def)
  from transfer_delivers [OF this _ _ _ _ _ run, of Inr "[(90, 30), (95, 40)]"] run show ?thesis
    by (auto simp: is_ascii_whitespace_def slot_new_def MAX_PAGE_BYTES_def Let_def)
qed

text \<open>
  C12. Nothing but the stated account is ever accepted. However the pages arrive, those accepted are
  consecutive pages of one snapshot, length and hash, a refused page changes nothing, and a value is
  yielded only after the completing page, from exactly the stated number of bytes with the stated hash:
  for a hash with no collision on them, they are the responder's own bytes.
\<close>

theorem assembled_account_is_the_stated_one:
  assumes "accept_all ps assembler_new = (Ok (), a)" "finish sha from_slice a = Ok v"
  shows "consecutive ps \<and> as_buffer a = concat (map pg_bytes ps) \<and> ps \<noteq> [] \<and> pg_complete (last ps) \<and>
    length (as_buffer a) = unat (pg_total (last ps)) \<and> sha (as_buffer a) = pg_sha256 (last ps) \<and>
    from_slice (as_buffer a) = Ok v \<and>
    (\<forall>bytes. pg_sha256 (last ps) = sha bytes \<and> (sha bytes = sha (as_buffer a) \<longrightarrow> bytes = as_buffer a) \<longrightarrow>
       from_slice bytes = Ok v) \<and>
    (\<forall>p e a'. accept p a = (Err e, a') \<longrightarrow> a' = a)"
proof -
  have "assembled ps a" using assembled_accept_all [OF assembled_new assms(1)] by simp
  from finish_Ok [OF this assms(2)] this accept_Err show ?thesis by (auto simp: assembled_def)
qed

theorem assembled_account_is_the_stated_one_witness:
  "let sha = (\<lambda>bs :: u8 list. replicate 31 0 @ [sum_list bs]);
       page = \<lparr>pg_snapshot = 1, pg_offset = 0, pg_total = 2, pg_sha256 = sha [49, 50], pg_bytes = [49, 50], pg_complete = True\<rparr>;
       a = snd (accept page assembler_new)
   in consecutive [page] \<and> as_buffer a = [49, 50] \<and> finish sha (Inr :: u8 list \<Rightarrow> string + u8 list) a = Ok [49, 50]"
proof -
  define sha where "sha = (\<lambda>bs :: u8 list. replicate 31 0 @ [sum_list bs])"
  define page where "page = \<lparr>pg_snapshot = 1, pg_offset = 0, pg_total = 2, pg_sha256 = sha [49, 50],
    pg_bytes = [49, 50], pg_complete = True\<rparr>"
  define a where "a = snd (accept page assembler_new)"
  have "page_check page = Ok ()" by (simp add: page_check_def page_def Let_def MAX_PAGE_BYTES_def checked_add_def)
  then have all: "accept_all [page] assembler_new = (Ok (), a)" and a: "as_buffer a = [49, 50]"
      "as_started a = Some \<lparr>st_snapshot = 1, st_total = 2, st_sha256 = sha [49, 50], st_complete = True\<rparr>"
    by (simp_all add: accept_def assembler_new_def a_def page_def)
  have "finish sha (Inr :: u8 list \<Rightarrow> string + u8 list) a = Ok [49, 50]"
    by (simp add: finish_def a received_def Let_def is_ascii_whitespace_def)
  with assembled_account_is_the_stated_one [OF all this] a show ?thesis
    unfolding Let_def sha_def [symmetric] page_def [symmetric] a_def [symmetric] by blast
qed

text \<open>
  The requests one connection makes of its slot, with the captures taken and the pages served so far,
  each page with the scope asked for and the time it was served.
\<close>

datatype 's slot_op =
    OpCapture 's nat nat "unit + frozen_account" nat
  | OpPage 's page_cursor nat nat
  | OpExpire nat
  | OpDiscard

record 's slot_trace =
  tr_slot :: "'s capture_slot"
  tr_captures :: "'s capture list"
  tr_served :: "('s \<times> nat \<times> observation_page) list"

fun slot_step :: "'s slot_op \<Rightarrow> 's slot_trace \<Rightarrow> 's slot_trace" where
  "slot_step (OpCapture scope expires now1 collected now2) t =
     (case slot_capture scope expires now1 collected now2 (tr_slot t) of
        (Inl _, slot) \<Rightarrow> t\<lparr>tr_slot := slot\<rparr>
      | (Inr p, slot) \<Rightarrow>
          t\<lparr>tr_slot := slot, tr_captures := tr_captures t @ [the (cs_current slot)],
             tr_served := tr_served t @ [(scope, now2, p)]\<rparr>)"
| "slot_step (OpPage scope cursor request_expires now) t =
     (case slot_page scope cursor request_expires now (tr_slot t) of
        (Inl _, slot) \<Rightarrow> t\<lparr>tr_slot := slot\<rparr>
      | (Inr p, slot) \<Rightarrow> t\<lparr>tr_slot := slot, tr_served := tr_served t @ [(scope, now, p)]\<rparr>)"
| "slot_step (OpExpire now) t = t\<lparr>tr_slot := slot_expire now (tr_slot t)\<rparr>"
| "slot_step OpDiscard t = t\<lparr>tr_slot := slot_discard (tr_slot t)\<rparr>"

inductive slot_reachable :: "nat \<Rightarrow> 's slot_trace \<Rightarrow> bool" for n where
  slot_start: "with_page_bytes n = Ok slot \<Longrightarrow>
    slot_reachable n \<lparr>tr_slot = slot, tr_captures = [], tr_served = []\<rparr>"
| slot_op: "slot_reachable n t \<Longrightarrow> slot_reachable n (slot_step op t)"

text \<open>What a slot holds is one of its captures, its deadline at most lowered.\<close>

definition slot_inv :: "nat \<Rightarrow> 's slot_trace \<Rightarrow> bool" where
  "slot_inv n t \<longleftrightarrow>
     cs_page_bytes (tr_slot t) = n \<and>
     sorted_wrt (<) (map cp_snapshot (tr_captures t)) \<and>
     (\<forall>c \<in> set (tr_captures t). cp_snapshot c \<le> cs_last_snapshot (tr_slot t)) \<and>
     (\<forall>c. cs_current (tr_slot t) = Some c \<longrightarrow>
        (\<exists>d \<in> set (tr_captures t). \<exists>x \<le> cp_expires d. c = d\<lparr>cp_expires := x\<rparr>)) \<and>
     (\<forall>(scope, now, p) \<in> set (tr_served t). \<exists>c \<in> set (tr_captures t).
        cp_scope c = scope \<and> now < cp_expires c \<and> p = page_at c (pg_offset p) n)"

lemma slot_end_fields [simp]:
  "cs_page_bytes (slot_end slot) = cs_page_bytes slot" "cs_last_snapshot (slot_end slot) = cs_last_snapshot slot"
  "cs_current (slot_end slot) = None"
  by (simp_all add: slot_end_def split: option.splits)

lemma pg_offset_page_at [simp]: "pg_offset (page_at c k n) = k"
  by (simp add: page_at_def Let_def)

lemma slot_page_cases:
  assumes "slot_page scope cursor request_expires now slot = (r, slot')"
  shows "cs_page_bytes slot' = cs_page_bytes slot" "cs_last_snapshot slot' = cs_last_snapshot slot"
    "cs_current slot' = Some c' \<Longrightarrow> \<exists>c x. cs_current slot = Some c \<and> x \<le> cp_expires c \<and> c' = c\<lparr>cp_expires := x\<rparr>"
    "r = Ok p \<Longrightarrow> \<exists>c. cs_current slot = Some c \<and> cp_scope c = scope \<and> now < cp_expires c \<and>
       p = page_at c (pg_offset p) (cs_page_bytes slot)"
proof -
  have "cs_current slot' = cs_current slot \<or> cs_current slot' = None \<or> (\<exists>c. cs_current slot = Some c \<and>
      cs_current slot' = Some (c\<lparr>cp_expires := min (cp_expires c) request_expires\<rparr>))"
    using assms by (auto simp: slot_page_def Let_def split: if_splits option.splits)
  then consider "cs_current slot' = cs_current slot" | "cs_current slot' = None"
    | c where "cs_current slot = Some c" "cs_current slot' = Some (c\<lparr>cp_expires := min (cp_expires c) request_expires\<rparr>)"
    by (elim disjE exE conjE) simp_all
  note moved = this
  show "cs_page_bytes slot' = cs_page_bytes slot" "cs_last_snapshot slot' = cs_last_snapshot slot"
    using assms by (auto simp: slot_page_def Let_def split: if_splits option.splits)
  show "\<exists>c x. cs_current slot = Some c \<and> x \<le> cp_expires c \<and> c' = c\<lparr>cp_expires := x\<rparr>" if "cs_current slot' = Some c'"
    using moved
  proof cases
    case 1
    with that show ?thesis by (intro exI [of _ c'] exI [of _ "cp_expires c'"]) simp
  next
    case (3 c)
    with that show ?thesis by (intro exI [of _ c] exI [of _ "min (cp_expires c) request_expires"]) simp
  qed (use that in simp)
  show "\<exists>c. cs_current slot = Some c \<and> cp_scope c = scope \<and> now < cp_expires c \<and>
       p = page_at c (pg_offset p) (cs_page_bytes slot)" if "r = Ok p"
    using assms that by (auto simp: slot_page_def Let_def split: if_splits option.splits)
qed

lemma slot_inv_step:
  assumes "slot_inv n t"
  shows "slot_inv n (slot_step op t)"
proof (cases op)
  case (OpCapture scope expires now1 collected now2)
  obtain r slot where run: "slot_capture scope expires now1 collected now2 (tr_slot t) = (r, slot)" by (cases "slot_capture scope expires now1 collected now2 (tr_slot t)")
  show ?thesis
  proof (cases r)
    case (Inl e)
    with run assms show ?thesis
      using slot_capture_Err [of scope expires now1 collected now2 "tr_slot t"] by (auto simp: OpCapture slot_inv_def)
  next
    case (Inr p)
    from slot_capture_Ok [OF run [unfolded Inr]] obtain c where c: "p = page_at c 0 (cs_page_bytes (tr_slot t))"
      "cp_scope c = scope" "cp_expires c = expires" "unat (cp_snapshot c) = unat (cs_last_snapshot (tr_slot t)) + 1"
      "slot = (tr_slot t)\<lparr>cs_last_snapshot := cp_snapshot c, cs_current := Some c, cs_ended := None\<rparr>" "now2 < expires"
      by auto
    have less: "cs_last_snapshot (tr_slot t) < cp_snapshot c" using c(4) by (simp add: word_less_nat_alt)
    then have "\<forall>d \<in> set (tr_captures t). cp_snapshot d < cp_snapshot c"
      using assms by (auto simp: slot_inv_def)
    moreover have "\<exists>x \<le> cp_expires c. c = c\<lparr>cp_expires := x\<rparr>" by (rule exI [of _ "cp_expires c"]) simp
    ultimately show ?thesis
      using assms c less run Inr by (fastforce simp: OpCapture slot_inv_def sorted_wrt_append)
  qed
next
  case (OpPage scope cursor request_expires now)
  obtain r slot where run: "slot_page scope cursor request_expires now (tr_slot t) = (r, slot)"
    by (cases "slot_page scope cursor request_expires now (tr_slot t)")
  note step = slot_page_cases [OF run]
  have current: "\<exists>d \<in> set (tr_captures t). \<exists>x \<le> cp_expires d. c' = d\<lparr>cp_expires := x\<rparr>"
    if "cs_current slot = Some c'" for c'
  proof -
    from step(3) [OF that] obtain c x where c: "cs_current (tr_slot t) = Some c" "x \<le> cp_expires c"
      "c' = c\<lparr>cp_expires := x\<rparr>" by blast
    with assms obtain d y where "d \<in> set (tr_captures t)" "y \<le> cp_expires d" "c = d\<lparr>cp_expires := y\<rparr>"
      unfolding slot_inv_def by blast
    with c show ?thesis by (intro bexI [of _ d] exI [of _ x]) auto
  qed
  have served: "\<exists>d \<in> set (tr_captures t). cp_scope d = scope \<and> now < cp_expires d \<and> p = page_at d (pg_offset p) n"
    if "r = Ok p" for p
  proof -
    from step(4) [OF that] obtain c where c: "cs_current (tr_slot t) = Some c" "cp_scope c = scope"
      "now < cp_expires c" "p = page_at c (pg_offset p) (cs_page_bytes (tr_slot t))" by blast
    with assms obtain d y where "d \<in> set (tr_captures t)" "y \<le> cp_expires d" "c = d\<lparr>cp_expires := y\<rparr>"
      "cs_page_bytes (tr_slot t) = n"
      unfolding slot_inv_def by blast
    with c show ?thesis by (intro bexI [of _ d]) auto
  qed
  show ?thesis
    using assms run step(1,2) current served unfolding slot_inv_def OpPage by (cases r) auto
next
  case (OpExpire now)
  with assms show ?thesis by (auto simp: slot_inv_def slot_expire_def)
next
  case OpDiscard
  with assms show ?thesis by (auto simp: slot_inv_def slot_discard_def)
qed

lemma slot_reachable_inv: "slot_reachable n t \<Longrightarrow> slot_inv n t"
proof (induction rule: slot_reachable.induct)
  case (slot_start slot)
  then show ?case by (auto simp: slot_inv_def with_page_bytes_def slot_new_def split: if_splits)
qed (rule slot_inv_step)

text \<open>
  C13. A connection's pages never mix. Whatever requests reach a slot, in whatever order and at whatever
  times, snapshot IDs only grow, so none is reused; every page served is cut from the capture it names,
  for that capture's own scope and before its deadline; and one snapshot and offset always give the same
  page.
\<close>

theorem served_pages_never_mix:
  assumes "slot_reachable n t"
  shows "sorted_wrt (<) (map cp_snapshot (tr_captures t)) \<and>
    (\<forall>(scope, now, p) \<in> set (tr_served t). \<exists>c \<in> set (tr_captures t).
       cp_scope c = scope \<and> now < cp_expires c \<and> p = page_at c (pg_offset p) n) \<and>
    (\<forall>(scope, now, p) \<in> set (tr_served t). \<forall>(scope', now', q) \<in> set (tr_served t).
       pg_snapshot p = pg_snapshot q \<and> pg_offset p = pg_offset q \<longrightarrow> p = q \<and> scope = scope')"
proof -
  have inv: "sorted_wrt (<) (map cp_snapshot (tr_captures t))"
    "\<And>scope now p. (scope, now, p) \<in> set (tr_served t) \<Longrightarrow> \<exists>c \<in> set (tr_captures t).
       cp_scope c = scope \<and> now < cp_expires c \<and> p = page_at c (pg_offset p) n"
    using slot_reachable_inv [OF assms] by (auto simp: slot_inv_def)
  have inj: "c = d" if "c \<in> set (tr_captures t)" "d \<in> set (tr_captures t)" "cp_snapshot c = cp_snapshot d" for c d
    using strict_sorted_iff [THEN iffD1, OF inv(1)] that by (auto simp: distinct_map dest: inj_onD)
  have "p = q \<and> scope = scope'" if pq: "(scope, now, p) \<in> set (tr_served t)" "(scope', now', q) \<in> set (tr_served t)"
    "pg_snapshot p = pg_snapshot q" "pg_offset p = pg_offset q" for scope now p scope' now' q
  proof -
    from inv(2) [OF pq(1)] obtain c where c: "c \<in> set (tr_captures t)" "cp_scope c = scope" "p = page_at c (pg_offset p) n"
      by blast
    from inv(2) [OF pq(2)] obtain d where d: "d \<in> set (tr_captures t)" "cp_scope d = scope'" "q = page_at d (pg_offset q) n"
      by blast
    have "pg_snapshot p = cp_snapshot c" "pg_snapshot q = cp_snapshot d"
      by (subst c(3) d(3), simp add: page_at_def Let_def)+
    then have "c = d" using inj c(1) d(1) pq(3) by simp
    with c d pq(4) show ?thesis by simp
  qed
  with inv show ?thesis by fast
qed

theorem served_pages_never_mix_witness:
  "let t = slot_step (OpCapture ''cell'' 100 10 (Inr \<lparr>fa_bytes = [1, 2, 3], fa_sha256 = []\<rparr>) 20)
         \<lparr>tr_slot = slot_new\<lparr>cs_page_bytes := 2\<rparr>, tr_captures = [], tr_served = []\<rparr>
   in map (pg_bytes \<circ> snd \<circ> snd) (tr_served t) = [[1, 2]] \<and> sorted_wrt (<) (map cp_snapshot (tr_captures t))"
proof -
  let ?s = "\<lparr>tr_slot = slot_new\<lparr>cs_page_bytes := 2\<rparr>, tr_captures = [], tr_served = []\<rparr> :: string slot_trace"
  let ?t = "slot_step (OpCapture ''cell'' 100 10 (Inr \<lparr>fa_bytes = [1, 2, 3], fa_sha256 = []\<rparr>) 20) ?s"
  have "with_page_bytes 2 = Ok (slot_new\<lparr>cs_page_bytes := 2\<rparr> :: string capture_slot)"
    by (simp add: with_page_bytes_def MAX_PAGE_BYTES_def)
  then have "slot_reachable 2 ?t" by (intro slot_op slot_start)
  moreover have "map (pg_bytes \<circ> snd \<circ> snd) (tr_served ?t) = [[1, 2]]"
    by (simp add: slot_capture_def Let_def slot_new_def checked_add_def page_at_def)
  ultimately show ?thesis using served_pages_never_mix [of 2 ?t] by (simp only: Let_def simp_thms)
qed

end
