(* ===== verification/Json_Scan.thy ===== *)
theory Json_Scan
  imports Utf8
begin

text \<open>
  The client's JSON reader, the first half of \<open>crates/plasmosome-cli/src/json.rs\<close>: values, the scanner
  with its own stack of open containers, and its refusals. The scanner reads bytes; every byte it tests
  for is ASCII, and in UTF-8 those never occur inside another character, so it is modelled on scalar
  values with the byte offset kept beside the text still to read. All of its loops end: each step takes
  at least one character.
\<close>

section \<open>Values\<close>

datatype json =
    JNull
  | JBool bool
  | JNumber utext
  | JString utext
  | JArray "json list"
  | JObject "(utext \<times> json) list"

definition MAX_INDENT :: nat where "MAX_INDENT = 32"

definition LINEAR_KEYS :: nat where "LINEAR_KEYS = 8"

definition MAX_REPLY_BYTES :: nat where "MAX_REPLY_BYTES = 16 * 1024 * 1024"

definition member_of :: "(utext \<times> json) list \<Rightarrow> utext \<Rightarrow> json option" where
  "member_of members key = map_option snd (List.find (\<lambda>m. fst m = key) members)"

definition json_get :: "json \<Rightarrow> utext \<Rightarrow> json option" where
  "json_get v key = (case v of JObject members \<Rightarrow> member_of members key | _ \<Rightarrow> None)"

section \<open>Refusals\<close>

datatype reason =
    NotUtf8
  | AtEnd
  | Expected string
  | BadNumber
  | Control
  | BadEscape
  | LoneSurrogate
  | Trailing
  | TooLarge
  | DuplicateKey utext

record scan_error =
  se_offset :: nat
  se_reason :: reason

section \<open>The scanner\<close>

text \<open>What is left to read, and the offset of its first byte.\<close>

type_synonym scanner = "utext \<times> nat"

abbreviation QUOTE :: nat where "QUOTE \<equiv> 0x22"
abbreviation BACKSLASH :: nat where "BACKSLASH \<equiv> 0x5C"
abbreviation COMMA :: nat where "COMMA \<equiv> 0x2C"
abbreviation COLON :: nat where "COLON \<equiv> 0x3A"
abbreviation LBRACK :: nat where "LBRACK \<equiv> 0x5B"
abbreviation RBRACK :: nat where "RBRACK \<equiv> 0x5D"
abbreviation LBRACE :: nat where "LBRACE \<equiv> 0x7B"
abbreviation RBRACE :: nat where "RBRACE \<equiv> 0x7D"
abbreviation MINUS :: nat where "MINUS \<equiv> 0x2D"

definition peek :: "scanner \<Rightarrow> nat option" where
  "peek s = (case fst s of [] \<Rightarrow> None | c # _ \<Rightarrow> Some c)"

text \<open>\<open>self.at += 1\<close> past the character just seen.\<close>

definition bump :: "scanner \<Rightarrow> scanner" where
  "bump s = (tl (fst s), snd s + 1)"

definition eat :: "nat \<Rightarrow> scanner \<Rightarrow> bool \<times> scanner" where
  "eat byte s = (let found = (peek s = Some byte) in (found, if found then bump s else s))"

definition error_at :: "scanner \<Rightarrow> reason \<Rightarrow> scan_error" where
  "error_at s r = \<lparr>se_offset = snd s, se_reason = r\<rparr>"

definition unexpected :: "scanner \<Rightarrow> string \<Rightarrow> scan_error" where
  "unexpected s expected = (if fst s = [] then error_at s AtEnd else error_at s (Expected expected))"

fun skip_from :: "utext \<Rightarrow> nat \<Rightarrow> scanner" where
  "skip_from [] at = ([], at)"
| "skip_from (c # cs) at = (if c = 0x20 \<or> c = 0x09 \<or> c = 0x0A \<or> c = 0x0D then skip_from cs (at + 1) else (c # cs, at))"

definition skip_whitespace :: "scanner \<Rightarrow> scanner" where
  "skip_whitespace s = skip_from (fst s) (snd s)"

definition is_digit :: "nat \<Rightarrow> bool" where
  "is_digit c \<longleftrightarrow> 0x30 \<le> c \<and> c \<le> 0x39"

definition peeks_digit :: "scanner \<Rightarrow> bool" where
  "peeks_digit s = (case peek s of Some c \<Rightarrow> is_digit c | None \<Rightarrow> False)"

fun digits_from :: "utext \<Rightarrow> nat \<Rightarrow> scanner" where
  "digits_from [] at = ([], at)"
| "digits_from (c # cs) at = (if is_digit c then digits_from cs (at + 1) else (c # cs, at))"

definition digits :: "scanner \<Rightarrow> scanner" where
  "digits s = digits_from (fst s) (snd s)"

definition required_digits :: "scanner \<Rightarrow> scan_error + scanner" where
  "required_digits s = (if \<not> peeks_digit s then Err (error_at s BadNumber) else Ok (digits s))"

text \<open>The text between two positions, \<open>self.text[start..self.at]\<close>.\<close>

definition between :: "scanner \<Rightarrow> scanner \<Rightarrow> utext" where
  "between start s = take (length (fst start) - length (fst s)) (fst start)"

text \<open>The integer part, the fraction and the exponent of \<open>number\<close>, in its order.\<close>

definition number_int :: "scanner \<Rightarrow> scan_error + scanner" where
  "number_int s =
     (case peek s of
        Some c \<Rightarrow>
          if c = 0x30 then
            (if peeks_digit (bump s) then Err (error_at (bump s) BadNumber) else Ok (bump s))
          else if 0x31 \<le> c \<and> c \<le> 0x39 then Ok (digits s)
          else Err (error_at s BadNumber)
      | None \<Rightarrow> Err (error_at s BadNumber))"

definition number_fraction :: "scanner \<Rightarrow> scan_error + scanner" where
  "number_fraction s = (let (dot, s') = eat 0x2E s in if dot then required_digits s' else Ok s')"

definition number_exponent :: "scanner \<Rightarrow> scan_error + scanner" where
  "number_exponent s =
     (let (e, s1) = eat 0x65 s; (e', s2) = (if e then (True, s1) else eat 0x45 s1) in
      if e' then
        (let (plus, s3) = eat 0x2B s2; s4 = (if plus then s3 else snd (eat MINUS s3)) in required_digits s4)
      else Ok s2)"

definition scan_number :: "scanner \<Rightarrow> scan_error + (utext \<times> scanner)" where
  "scan_number start =
     and_then (number_int (snd (eat MINUS start))) (\<lambda>s.
     and_then (number_fraction s) (\<lambda>s.
     and_then (number_exponent s) (\<lambda>s.
     Ok (between start s, s))))"

text \<open>\<open>char::to_digit(16)\<close>.\<close>

definition to_digit16 :: "nat \<Rightarrow> nat option" where
  "to_digit16 c =
     (if 0x30 \<le> c \<and> c \<le> 0x39 then Some (c - 0x30)
      else if 0x61 \<le> c \<and> c \<le> 0x66 then Some (c - 0x61 + 10)
      else if 0x41 \<le> c \<and> c \<le> 0x46 then Some (c - 0x41 + 10)
      else None)"

fun hex_loop :: "nat \<Rightarrow> nat \<Rightarrow> nat \<Rightarrow> scanner \<Rightarrow> scan_error + (nat \<times> scanner)" where
  "hex_loop 0 escape v s = Ok (v, s)"
| "hex_loop (Suc n) escape v s =
     (case peek s of
        None \<Rightarrow> Err (error_at s AtEnd)
      | Some byte \<Rightarrow>
          (case to_digit16 byte of
             None \<Rightarrow> Err \<lparr>se_offset = escape, se_reason = BadEscape\<rparr>
           | Some digit \<Rightarrow> hex_loop n escape (v * 16 + digit) (bump s)))"

definition scan_hex :: "nat \<Rightarrow> scanner \<Rightarrow> scan_error + (nat \<times> scanner)" where
  "scan_hex escape s = hex_loop 4 escape 0 s"

definition scan_unicode :: "nat \<Rightarrow> scanner \<Rightarrow> scan_error + (nat \<times> scanner)" where
  "scan_unicode start s =
     (let lone = \<lparr>se_offset = start, se_reason = LoneSurrogate\<rparr> in
      and_then (scan_hex start s) (\<lambda>(first, s).
      and_then
        (if 0xD800 \<le> first \<and> first \<le> 0xDBFF then
           (let second_start = snd s;
                (slash, s1) = eat BACKSLASH s;
                (u, s2) = (if slash then eat 0x75 s1 else (False, s1)) in
            if \<not> (slash \<and> u) then Err lone
            else and_then (scan_hex second_start s2) (\<lambda>(second, s3).
              if \<not> (0xDC00 \<le> second \<and> second \<le> 0xDFFF) then Err lone
              else Ok (0x10000 + (first - 0xD800) * 1024 + (second - 0xDC00), s3)))
         else Ok (first, s)) (\<lambda>(code_point, s).
      if is_scalar code_point then Ok (code_point, s) else Err lone)))"

definition scan_escape :: "scanner \<Rightarrow> scan_error + (nat \<times> scanner)" where
  "scan_escape s0 =
     (let start = snd s0; s = bump s0 in
      case peek s of
        None \<Rightarrow> Err (error_at s AtEnd)
      | Some byte \<Rightarrow>
          (let s' = bump s in
           if byte = QUOTE then Ok (QUOTE, s')
           else if byte = BACKSLASH then Ok (BACKSLASH, s')
           else if byte = 0x2F then Ok (0x2F, s')
           else if byte = 0x62 then Ok (0x08, s')
           else if byte = 0x66 then Ok (0x0C, s')
           else if byte = 0x6E then Ok (0x0A, s')
           else if byte = 0x72 then Ok (0x0D, s')
           else if byte = 0x74 then Ok (0x09, s')
           else if byte = 0x75 then scan_unicode start s'
           else Err \<lparr>se_offset = start, se_reason = BadEscape\<rparr>))"

section \<open>What is read gets shorter\<close>

lemma and_then_cong [fundef_cong]:
  "r = r' \<Longrightarrow> (\<And>x. r' = Ok x \<Longrightarrow> f x = g x) \<Longrightarrow> and_then r f = and_then r' g"
  by (cases r') auto

lemma length_bump: "peek s = Some c \<Longrightarrow> length (fst (bump s)) < length (fst s)"
  by (auto simp: peek_def bump_def split: list.splits)

lemma length_bump_le: "length (fst (bump s)) \<le> length (fst s)"
  by (simp add: bump_def)

lemma length_eat: "eat b s = (True, s') \<Longrightarrow> length (fst s') < length (fst s)"
  by (auto simp: eat_def Let_def length_bump split: if_splits)

lemma length_eat_le: "eat b s = (f, s') \<Longrightarrow> length (fst s') \<le> length (fst s)"
  by (auto simp: eat_def Let_def length_bump_le split: if_splits)

lemma length_skip_le: "length (fst (skip_whitespace s)) \<le> length (fst s)"
proof -
  have "length (fst (skip_from cs at)) \<le> length cs" for cs at
    by (induction cs at rule: skip_from.induct) (auto intro: le_SucI)
  then show ?thesis by (simp add: skip_whitespace_def)
qed

lemma length_digits_le: "length (fst (digits s)) \<le> length (fst s)"
proof -
  have "length (fst (digits_from cs at)) \<le> length cs" for cs at
    by (induction cs at rule: digits_from.induct) (auto intro: le_SucI)
  then show ?thesis by (simp add: digits_def)
qed

lemma length_digits: "peeks_digit s \<Longrightarrow> length (fst (digits s)) < length (fst s)"
proof -
  have le: "length (fst (digits_from cs at)) \<le> length cs" for cs at
    by (induction cs at rule: digits_from.induct) (auto intro: le_SucI)
  assume "peeks_digit s"
  then obtain c cs where "fst s = c # cs" "is_digit c"
    by (cases "fst s") (auto simp: peeks_digit_def peek_def)
  then show ?thesis using le [of cs "snd s + 1"] by (simp add: digits_def)
qed

lemma length_required_digits: "required_digits s = Ok s' \<Longrightarrow> length (fst s') < length (fst s)"
  by (auto simp: required_digits_def length_digits split: if_splits)

lemma length_hex_loop: "hex_loop n e v s = Ok (w, s') \<Longrightarrow> length (fst s') \<le> length (fst s)"
proof (induction n arbitrary: v s)
  case (Suc n)
  then obtain b d where "peek s = Some b" "hex_loop n e (v * 16 + d) (bump s) = Ok (w, s')"
    by (auto split: option.splits)
  with Suc.IH length_bump_le [of s] show ?case by (meson le_trans)
qed simp

lemma length_scan_unicode: "scan_unicode start s = Ok (c, s') \<Longrightarrow> length (fst s') \<le> length (fst s)"
proof -
  assume run: "scan_unicode start s = Ok (c, s')"
  then obtain first s1 where s1: "scan_hex start s = Ok (first, s1)"
    by (auto simp: scan_unicode_def Let_def and_then_eq_Inr)
  then have le1: "length (fst s1) \<le> length (fst s)" by (auto simp: scan_hex_def dest: length_hex_loop)
  show ?thesis
  proof (cases "0xD800 \<le> first \<and> first \<le> 0xDBFF")
    case False
    with run s1 have "s' = s1" by (auto simp: scan_unicode_def Let_def split: if_splits)
    with le1 show ?thesis by simp
  next
    case True
    with run s1 obtain s2 s3 second where
      "eat BACKSLASH s1 = (True, s2)" "eat 0x75 s2 = (True, s3)" "scan_hex (snd s1) s3 = Ok (second, s')"
      by (auto simp: scan_unicode_def Let_def and_then_eq_Inr split: if_splits prod.splits)
    then show ?thesis using le1
      by (auto simp: scan_hex_def dest!: length_hex_loop length_eat)
  qed
qed

lemma length_scan_escape: "scan_escape s = Ok (c, s') \<Longrightarrow> length (fst s') < length (fst s)"
proof -
  assume run: "scan_escape s = Ok (c, s')"
  then obtain byte where byte: "peek (bump s) = Some byte" by (auto simp: scan_escape_def Let_def split: option.splits)
  then obtain cs where cs: "fst (bump s) = byte # cs" by (cases "fst (bump s)") (auto simp: peek_def)
  have "length (fst s') \<le> length cs"
    using run byte cs length_scan_unicode [of "snd s" "bump (bump s)" c s']
    by (auto simp: scan_escape_def Let_def bump_def split: if_splits)
  then show ?thesis using cs length_bump_le [of s] by simp
qed

section \<open>Strings, scalars and keys\<close>

text \<open>
  The loop of \<open>string\<close>, after the opening quote: a run of plain characters is copied as it stands, so
  it is copied one character at a time here.
\<close>

function scan_string_from :: "utext \<Rightarrow> scanner \<Rightarrow> scan_error + (utext \<times> scanner)" where
  "scan_string_from acc s =
     (case peek s of
        None \<Rightarrow> Err (error_at s AtEnd)
      | Some c \<Rightarrow>
          if c \<noteq> QUOTE \<and> c \<noteq> BACKSLASH \<and> 0x20 \<le> c
          then scan_string_from (acc @ [c]) (tl (fst s), snd s + utf8_width c)
          else if c = QUOTE then Ok (acc, bump s)
          else if c = BACKSLASH
          then and_then (scan_escape s) (\<lambda>r. scan_string_from (acc @ [fst r]) (snd r))
          else Err (error_at s Control))"
  by pat_completeness auto

termination
  by (relation "measure (\<lambda>(acc, s). length (fst s))")
    (auto simp: peek_def dest: length_scan_escape split: list.splits)

declare scan_string_from.simps [simp del]

definition scan_string :: "scanner \<Rightarrow> scan_error + (utext \<times> scanner)" where
  "scan_string s = scan_string_from [] (bump s)"

definition scan_literal :: "string \<Rightarrow> json \<Rightarrow> scanner \<Rightarrow> scan_error + (json \<times> scanner)" where
  "scan_literal word v s =
     (case strip_prefix (ascii word) (fst s) of
        None \<Rightarrow> Err (error_at s (Expected ''a value''))
      | Some rest \<Rightarrow> Ok (v, (rest, snd s + length word)))"

definition scan_scalar :: "scanner \<Rightarrow> scan_error + (json \<times> scanner)" where
  "scan_scalar s =
     (case peek s of
        Some c \<Rightarrow>
          if c = QUOTE then and_then (scan_string s) (\<lambda>r. Ok (JString (fst r), snd r))
          else if c = MINUS \<or> is_digit c then and_then (scan_number s) (\<lambda>r. Ok (JNumber (fst r), snd r))
          else if c = 0x74 then scan_literal ''true'' (JBool True) s
          else if c = 0x66 then scan_literal ''false'' (JBool False) s
          else if c = 0x6E then scan_literal ''null'' JNull s
          else Err (unexpected s ''a value'')
      | None \<Rightarrow> Err (unexpected s ''a value''))"

definition scan_key :: "scanner \<Rightarrow> scan_error + ((nat \<times> utext) \<times> scanner)" where
  "scan_key s0 =
     (let s = skip_whitespace s0; offset = snd s in
      if peek s \<noteq> Some QUOTE then Err (unexpected s ''a string key'')
      else and_then (scan_string s) (\<lambda>r.
        (let (colon, s') = eat COLON (skip_whitespace (snd r)) in
         if \<not> colon then Err (unexpected s' [CHR 0x27, CHR '':'', CHR 0x27])
         else Ok ((offset, fst r), s'))))"

section \<open>The document\<close>

datatype frame =
    FArray "json list"
  | FObject "(utext \<times> json) list" utext "utext set option"

text \<open>
  \<open>ObjectFrame::admit\<close>: up to \<open>LINEAR_KEYS\<close> members are searched one by one, more than that through
  the set of the names seen. The result is the frame's new set, or \<open>None\<close> for a repeated key.
\<close>

definition admit :: "(utext \<times> json) list \<Rightarrow> utext set option \<Rightarrow> utext \<Rightarrow> utext set option option" where
  "admit members seen key =
     (case seen of
        Some names \<Rightarrow> if key \<in> names then None else Some (Some (insert key names))
      | None \<Rightarrow>
          if member_of members key \<noteq> None then None
          else if LINEAR_KEYS \<le> length members then Some (Some (insert key (set (map fst members))))
          else Some None)"

fun push_pointer_segment :: "utext \<Rightarrow> utext" where
  "push_pointer_segment [] = []"
| "push_pointer_segment (c # cs) =
     (if c = 0x7E then [0x7E, 0x30] else if c = 0x2F then [0x7E, 0x31] else [c]) @ push_pointer_segment cs"

text \<open>Frames are kept innermost first; a pointer names the open containers outermost first.\<close>

definition pointer :: "frame list \<Rightarrow> utext \<Rightarrow> utext" where
  "pointer frames repeated =
     concat (map (\<lambda>f. 0x2F # (case f of FArray items \<Rightarrow> ascii (show_nat (length items))
                                      | FObject _ key _ \<Rightarrow> push_pointer_segment key)) (rev (tl frames))) @
     0x2F # push_pointer_segment repeated"

abbreviation OR_CLOSE :: "char \<Rightarrow> string" where
  "OR_CLOSE c \<equiv> [CHR 0x27, CHR '','', CHR 0x27] @ '' or '' @ [CHR 0x27, c, CHR 0x27]"

lemma length_scan_string: "scan_string_from acc s = Ok (t, s') \<Longrightarrow> length (fst s') < length (fst s)"
proof (induction acc s rule: scan_string_from.induct)
  case (1 acc s)
  from 1(3) obtain c where c: "peek s = Some c"
    by (subst (asm) scan_string_from.simps) (auto split: option.splits)
  then obtain cs where cs: "fst s = c # cs" by (cases "fst s") (auto simp: peek_def)
  show ?case
  proof (cases "c \<noteq> QUOTE \<and> c \<noteq> BACKSLASH \<and> 0x20 \<le> c")
    case True
    with 1(3) c have "scan_string_from (acc @ [c]) (tl (fst s), snd s + utf8_width c) = Ok (t, s')"
      by (subst (asm) scan_string_from.simps) simp
    from 1(1) [OF c True this] cs show ?thesis by simp
  next
    case False
    show ?thesis
    proof (cases "c = BACKSLASH")
      case True
      with 1(3) c obtain r where r: "scan_escape s = Ok r" "scan_string_from (acc @ [fst r]) (snd r) = Ok (t, s')"
        by (subst (asm) scan_string_from.simps) (auto simp: and_then_eq_Inr)
      from 1(2) [OF c False _ True r] length_scan_escape [of s "fst r" "snd r"] r(1) True show ?thesis by simp
    next
      case nb: False
      with False 1(3) c have "s' = bump s"
        by (subst (asm) scan_string_from.simps) (auto split: if_splits)
      with cs show ?thesis by (simp add: bump_def)
    qed
  qed
qed

lemma length_number_int: "number_int s = Ok s' \<Longrightarrow> length (fst s') < length (fst s)"
  using length_bump [of s] length_digits [of s]
  by (auto simp: number_int_def peeks_digit_def is_digit_def split: option.splits if_splits)

lemma length_number_fraction: "number_fraction s = Ok s' \<Longrightarrow> length (fst s') \<le> length (fst s)"
proof -
  obtain dot s1 where dot: "eat 0x2E s = (dot, s1)" by (cases "eat 0x2E s")
  assume "number_fraction s = Ok s'"
  then have "s' = s1 \<or> length (fst s') < length (fst s1)"
    by (auto simp: number_fraction_def dot split: if_splits dest: length_required_digits)
  with length_eat_le [OF dot] show ?thesis by auto
qed

lemma length_number_exponent: "number_exponent s = Ok s' \<Longrightarrow> length (fst s') \<le> length (fst s)"
proof -
  obtain e s1 where e: "eat 0x65 s = (e, s1)" by (cases "eat 0x65 s")
  obtain e' s2 where e': "(if e then (True, s1) else eat 0x45 s1) = (e', s2)"
    by (cases "if e then (True, s1) else eat 0x45 s1")
  obtain plus s3 where plus: "eat 0x2B s2 = (plus, s3)" by (cases "eat 0x2B s2")
  obtain m s4 where m: "eat MINUS s3 = (m, s4)" by (cases "eat MINUS s3")
  have "length (fst s1) \<le> length (fst s)" "length (fst s2) \<le> length (fst s1)"
    "length (fst s3) \<le> length (fst s2)" "length (fst s4) \<le> length (fst s3)"
    using length_eat_le [OF e] length_eat_le [OF plus] length_eat_le [OF m] e' length_eat_le
    by (auto split: if_splits)
  moreover assume "number_exponent s = Ok s'"
  then have "s' = s2 \<or> length (fst s') < length (fst s3) \<or> length (fst s') < length (fst s4)"
    by (auto simp: number_exponent_def e e' plus m Let_def split: if_splits dest: length_required_digits)
  ultimately show ?thesis by auto
qed

lemma length_scan_number: "scan_number s = Ok (t, s') \<Longrightarrow> length (fst s') < length (fst s)"
proof -
  assume "scan_number s = Ok (t, s')"
  then obtain s1 s2 where "number_int (snd (eat MINUS s)) = Ok s1" "number_fraction s1 = Ok s2" "number_exponent s2 = Ok s'"
    by (auto simp: scan_number_def and_then_eq_Inr)
  moreover have "length (fst (snd (eat MINUS s))) \<le> length (fst s)"
    using length_eat_le [of MINUS s] by (metis prod.collapse)
  ultimately show ?thesis
    by (auto dest!: length_number_int length_number_fraction length_number_exponent)
qed

lemma length_scan_scalar: "scan_scalar s = Ok (v, s') \<Longrightarrow> length (fst s') < length (fst s)"
proof -
  have literal: "scan_literal word w s = Ok (v, s') \<Longrightarrow> word \<noteq> [] \<Longrightarrow> length (fst s') < length (fst s)" for word w
    by (auto simp: scan_literal_def strip_prefix_Some split: option.splits)
  assume "scan_scalar s = Ok (v, s')"
  then show ?thesis
    using length_scan_number [of s _ s'] length_scan_string [of "[]" "bump s" _ s'] length_bump_le [of s]
      literal [of "''true''"] literal [of "''false''"] literal [of "''null''"]
    by (fastforce simp: scan_scalar_def scan_string_def and_then_eq_Inr split: option.splits if_splits)
qed

lemma length_scan_key: "scan_key s = Ok (k, s') \<Longrightarrow> length (fst s') < length (fst s)"
proof -
  assume "scan_key s = Ok (k, s')"
  then obtain r where r: "scan_string (skip_whitespace s) = Ok r"
    and colon: "(let (colon, s') = eat COLON (skip_whitespace (snd r)) in
      if \<not> colon then Err (unexpected s' [CHR 0x27, CHR '':'', CHR 0x27])
      else Ok ((snd (skip_whitespace s), fst r), s')) = Ok (k, s')"
    by (auto simp: scan_key_def Let_def and_then_eq_Inr split: if_splits)
  define t s1 where "t = fst r" and "s1 = snd r"
  then have t: "scan_string (skip_whitespace s) = Ok (t, s1)" using r by simp
  have s': "eat COLON (skip_whitespace s1) = (True, s')"
    using colon unfolding s1_def by (cases "eat COLON (skip_whitespace (snd r))") (auto split: if_splits)
  from t have "length (fst s1) < length (fst s)"
    using length_scan_string [of "[]" "bump (skip_whitespace s)" t s1] length_bump_le [of "skip_whitespace s"] length_skip_le [of s]
    by (simp add: scan_string_def)
  with length_eat [OF s'] length_skip_le [of s1] show ?thesis by linarith
qed

lemma open_shorter:
  "peek (skip_whitespace s) = Some c \<Longrightarrow> eat b (skip_whitespace (bump (skip_whitespace s))) = (f, s') \<Longrightarrow>
   length (fst s') < length (fst s)"
  using length_bump [of "skip_whitespace s" c] length_skip_le [of s] length_skip_le [of "bump (skip_whitespace s)"]
    length_eat_le [of b "skip_whitespace (bump (skip_whitespace s))" f s'] by linarith

lemma close_shorter: "eat b (skip_whitespace s) = (True, s') \<Longrightarrow> length (fst s') < length (fst s)"
  using length_eat [of b "skip_whitespace s" s'] length_skip_le [of s] by linarith

lemma scalar_shorter: "scan_scalar (skip_whitespace s) = Ok (v, s') \<Longrightarrow> length (fst s') < length (fst s)"
  using length_scan_scalar [of "skip_whitespace s" v s'] length_skip_le [of s] by linarith

text \<open>
  The two nested loops of \<open>document\<close>. \<open>doc_value\<close> is one round of the outer one: it opens a
  container or reads a scalar. \<open>doc_close\<close> is one round of the inner one: it hands a finished value to
  the innermost open container, which continues at a comma or closes and is itself finished.
\<close>

function doc_value :: "frame list \<Rightarrow> scanner \<Rightarrow> scan_error + json"
  and doc_close :: "frame list \<Rightarrow> json \<Rightarrow> scanner \<Rightarrow> scan_error + json" where
  "doc_value frames s0 =
     (let s = skip_whitespace s0 in
      if peek s = Some LBRACK then
        (case eat RBRACK (skip_whitespace (bump s)) of
           (False, s') \<Rightarrow> doc_value (FArray [] # frames) s'
         | (True, s') \<Rightarrow> doc_close frames (JArray []) s')
      else if peek s = Some LBRACE then
        (case eat RBRACE (skip_whitespace (bump s)) of
           (False, s') \<Rightarrow>
             (case scan_key s' of
                Inl e \<Rightarrow> Err e
              | Inr (k, s'') \<Rightarrow> doc_value (FObject [] (snd k) None # frames) s'')
         | (True, s') \<Rightarrow> doc_close frames (JObject []) s')
      else
        (case scan_scalar s of
           Inl e \<Rightarrow> Err e
         | Inr (v, s') \<Rightarrow> doc_close frames v s'))"
| "doc_close frames v s0 =
     (let s = skip_whitespace s0 in
      case frames of
        [] \<Rightarrow> if fst s = [] then Ok v else Err (error_at s Trailing)
      | FArray items # outer \<Rightarrow>
          (case eat COMMA s of
             (True, s') \<Rightarrow> doc_value (FArray (items @ [v]) # outer) s'
           | (False, _) \<Rightarrow>
               (case eat RBRACK s of
                  (False, s') \<Rightarrow> Err (unexpected s' (OR_CLOSE (CHR '']'')))
                | (True, s') \<Rightarrow> doc_close outer (JArray (items @ [v])) s'))
      | FObject members key seen # outer \<Rightarrow>
          (case eat COMMA s of
             (True, s') \<Rightarrow>
               (case scan_key s' of
                  Inl e \<Rightarrow> Err e
                | Inr (k, s'') \<Rightarrow>
                    (case admit (members @ [(key, v)]) seen (snd k) of
                       None \<Rightarrow> Err \<lparr>se_offset = fst k, se_reason = DuplicateKey (pointer frames (snd k))\<rparr>
                     | Some seen' \<Rightarrow> doc_value (FObject (members @ [(key, v)]) (snd k) seen' # outer) s''))
           | (False, _) \<Rightarrow>
               (case eat RBRACE s of
                  (False, s') \<Rightarrow> Err (unexpected s' (OR_CLOSE (CHR ''}'')))
                | (True, s') \<Rightarrow> doc_close outer (JObject (members @ [(key, v)])) s')))"
  by pat_completeness auto

termination
proof (relation "measure (\<lambda>r. case r of Inl (_, s) \<Rightarrow> length (fst s) | Inr (_, _, s) \<Rightarrow> length (fst s))", goal_cases)
  case 1
  then show ?case by simp
qed (auto dest: open_shorter [OF _ sym] close_shorter [OF sym] dest!: scalar_shorter length_scan_key)

declare doc_value.simps [simp del] doc_close.simps [simp del]

text \<open>\<open>scan\<close>: the bound, the text, and the document from its start.\<close>

definition scan :: "u8 list \<Rightarrow> scan_error + json" where
  "scan bytes =
     (if MAX_REPLY_BYTES < length bytes then Err \<lparr>se_offset = MAX_REPLY_BYTES, se_reason = TooLarge\<rparr>
      else and_then (map_err (\<lambda>at. \<lparr>se_offset = at, se_reason = NotUtf8\<rparr>) (from_utf8 0 (map unat bytes)))
        (\<lambda>cs. doc_value [] (cs, 0)))"

text \<open>\<open>Number::new\<close>: the whole text is one number.\<close>

definition number_new :: "utext \<Rightarrow> utext + utext" where
  "number_new t =
     (case scan_number (t, 0) of
        Inr (_, s) \<Rightarrow> if fst s = [] then Ok t else Err t
      | Inl _ \<Rightarrow> Err t)"

end
