(* ===== verification/Json_Number.thy ===== *)
theory Json_Number
  imports Json_Scan
begin

text \<open>
  How the scanner reads a number, independently of what follows it: each part of the grammar takes the
  same characters from every text that starts with them, as long as the character after them does not
  continue a number. So a number read inside a document is a number on its own, and one that is written
  is read back wherever it stands.
\<close>

definition numchar :: "nat \<Rightarrow> bool" where
  "numchar c \<longleftrightarrow> is_digit c \<or> c = 0x2B \<or> c = MINUS \<or> c = 0x2E \<or> c = 0x45 \<or> c = 0x65"

definition head :: "utext \<Rightarrow> nat option" where
  "head cs = (case cs of [] \<Rightarrow> None | c # _ \<Rightarrow> Some c)"

lemma head_simps [simp]: "head [] = None" "head (c # cs) = Some c"
  by (simp_all add: head_def)

lemma head_append [simp]: "u \<noteq> [] \<Longrightarrow> head (u @ r) = head u"
  by (cases u) auto

text \<open>What follows in the other text is the same character, or one that is no part of a number.\<close>

definition same_end :: "utext \<Rightarrow> utext \<Rightarrow> bool" where
  "same_end r r' \<longleftrightarrow> head r' = head r \<or> (\<forall>c. head r' = Some c \<longrightarrow> \<not> numchar c)"

lemma same_end_append: "same_end r r' \<Longrightarrow> same_end (u @ r) (u @ r')"
  by (cases u) (simp_all add: same_end_def)

lemma same_end_not_head: "same_end r r' \<Longrightarrow> numchar b \<Longrightarrow> head r \<noteq> Some b \<Longrightarrow> head r' \<noteq> Some b"
  by (auto simp: same_end_def)

lemma peek_head: "peek s = head (fst s)"
  by (simp add: peek_def head_def)

lemma eat_taken: "\<exists>u. fst s = u @ fst (snd (eat b s)) \<and> set u \<subseteq> {b}"
  by (cases "fst s") (auto simp: eat_def peek_def bump_def Let_def)

lemma digits_taken: "\<exists>u. fst s = u @ fst (digits s) \<and> (\<forall>c \<in> set u. is_digit c)"
proof -
  have "\<exists>u. cs = u @ fst (digits_from cs at) \<and> (\<forall>c \<in> set u. is_digit c)" for cs at
  proof (induction cs at rule: digits_from.induct)
    case (2 c cs at)
    show ?case
    proof (cases "is_digit c")
      case True
      with 2 obtain u where "cs = u @ fst (digits_from cs (at + 1))" "\<forall>c \<in> set u. is_digit c" by blast
      with True show ?thesis by (intro exI [of _ "c # u"]) auto
    next
      case False
      then show ?thesis by (intro exI [of _ "[]"]) simp
    qed
  qed simp
  then show ?thesis by (simp add: digits_def)
qed

lemma digits_append: "\<forall>c \<in> set u. is_digit c \<Longrightarrow> \<exists>b. digits (u @ r, a) = digits (r, b)"
proof -
  have "\<forall>c \<in> set u. is_digit c \<Longrightarrow> \<exists>b. digits_from (u @ r) a = digits_from r b" for a
    by (induction u arbitrary: a) auto
  then show "\<forall>c \<in> set u. is_digit c \<Longrightarrow> ?thesis" by (simp add: digits_def)
qed

lemma digits_stop: "(\<forall>c. head r = Some c \<longrightarrow> \<not> is_digit c) \<Longrightarrow> digits (r, a) = (r, a)"
  by (cases r) (auto simp: digits_def)

lemma digits_end: "fst (digits s) = r \<Longrightarrow> head r = Some c \<Longrightarrow> \<not> is_digit c"
proof -
  have "fst (digits_from cs at) = r \<Longrightarrow> head r = Some c \<Longrightarrow> \<not> is_digit c" for cs at
    by (induction cs at rule: digits_from.induct) (auto split: if_splits)
  then show "fst (digits s) = r \<Longrightarrow> head r = Some c \<Longrightarrow> ?thesis" by (auto simp: digits_def)
qed

section \<open>Each part takes the same characters\<close>

lemma eat_local:
  assumes "eat b (u @ r, a) = (f, (r, a1))" "same_end r r'" "numchar b"
  shows "\<exists>a1'. eat b (u @ r', a') = (f, (r', a1'))"
proof (cases f)
  case True
  with assms(1) have "u @ r = b # r"
    by (cases "u @ r") (auto simp: eat_def peek_def bump_def Let_def split: if_splits)
  then have "u = [b]" by (metis append_Cons append_Nil append_same_eq)
  with True show ?thesis by (simp add: eat_def peek_def bump_def Let_def)
next
  case False
  with assms(1) have "u = []" "head r \<noteq> Some b" by (auto simp: eat_def peek_head Let_def split: if_splits)
  with False same_end_not_head [OF assms(2,3)] show ?thesis by (simp add: eat_def peek_head Let_def)
qed

lemma digits_local:
  assumes "fst (digits (u @ r, a)) = r" "same_end r r'"
  shows "fst (digits (u @ r', a')) = r'"
proof -
  from digits_taken [of "(u @ r, a)"] assms(1) have "\<forall>c \<in> set u. is_digit c" by auto
  from digits_append [OF this] obtain b where b: "digits (u @ r', a') = digits (r', b)" by blast
  have "\<forall>c. head r' = Some c \<longrightarrow> \<not> is_digit c"
    using assms(2) digits_end [OF assms(1)] by (auto simp: same_end_def numchar_def)
  then show ?thesis by (simp add: b digits_stop)
qed

lemma required_digits_local:
  assumes "required_digits (u @ r, a) = Ok (r, a1)" "same_end r r'"
  shows "\<exists>a1'. required_digits (u @ r', a') = Ok (r', a1')"
proof -
  from assms(1) have d: "peeks_digit (u @ r, a)" "digits (u @ r, a) = (r, a1)"
    by (auto simp: required_digits_def split: if_splits)
  then have "u \<noteq> []" using length_digits [OF d(1)] by auto
  then have "peeks_digit (u @ r', a')" using d(1) by (simp add: peeks_digit_def peek_head)
  moreover have "fst (digits (u @ r', a')) = r'" using digits_local [of u r a r' a'] d(2) assms(2) by simp
  ultimately show ?thesis by (cases "digits (u @ r', a')") (auto simp: required_digits_def)
qed

lemma number_int_local:
  assumes "number_int (u @ r, a) = Ok (r, a1)" "same_end r r'"
  shows "\<exists>a1'. number_int (u @ r', a') = Ok (r', a1')"
proof -
  have u: "u \<noteq> []" using length_number_int [OF assms(1)] by auto
  then obtain c v where v: "u = c # v" by (cases u) auto
  consider "c = 0x30" | "0x31 \<le> c" "c \<le> 0x39"
    using assms(1) by (auto simp: number_int_def peek_head v split: if_splits)
  then show ?thesis
  proof cases
    case 1
    with assms(1) have "v @ r = r" and nd: "\<not> peeks_digit (v @ r, a + 1)"
      by (auto simp: number_int_def peek_head v bump_def split: if_splits)
    then have "v = []" by simp
    with nd have "\<forall>c. head r' = Some c \<longrightarrow> \<not> is_digit c"
      using assms(2) by (auto simp: same_end_def numchar_def peeks_digit_def peek_head split: option.splits)
    with 1 \<open>v = []\<close> show ?thesis
      by (auto simp: number_int_def peek_head v bump_def peeks_digit_def split: option.splits)
  next
    case 2
    with assms(1) have "digits (u @ r, a) = (r, a1)" by (auto simp: number_int_def peek_head v)
    then have "fst (digits (u @ r', a')) = r'" using digits_local [of u r a r' a'] assms(2) by simp
    with 2 show ?thesis by (cases "digits (u @ r', a')") (auto simp: number_int_def peek_head v)
  qed
qed

lemma required_digits_taken:
  "required_digits s = Ok s' \<Longrightarrow> \<exists>u. fst s = u @ fst s' \<and> (\<forall>c \<in> set u. numchar c)"
  using digits_taken [of s] by (auto simp: required_digits_def numchar_def split: if_splits)

lemma eat_taken_num: "numchar b \<Longrightarrow> eat b s = (f, s') \<Longrightarrow> \<exists>u. fst s = u @ fst s' \<and> (\<forall>c \<in> set u. numchar c)"
  using eat_taken [of s b] by auto

lemma numchars [simp]: "numchar 0x2E" "numchar 0x65" "numchar 0x45" "numchar 0x2B" "numchar MINUS"
  by (simp_all add: numchar_def)

lemma number_int_taken:
  assumes "number_int s = Ok s'"
  shows "\<exists>u. fst s = u @ fst s' \<and> (\<forall>c \<in> set u. numchar c) \<and> u \<noteq> [] \<and> is_digit (hd u)"
proof -
  obtain c cs where s: "fst s = c # cs" using assms by (cases "fst s") (auto simp: number_int_def peek_def)
  consider "c = 0x30" "s' = bump s" | "0x31 \<le> c" "c \<le> 0x39" "s' = digits s"
    using assms s by (auto simp: number_int_def peek_def split: if_splits)
  then show ?thesis
  proof cases
    case 1
    with s show ?thesis by (intro exI [of _ "[c]"]) (auto simp: bump_def numchar_def is_digit_def)
  next
    case 2
    from digits_taken [of s] obtain u where u: "fst s = u @ fst s'" "\<forall>c \<in> set u. is_digit c"
      using 2 by blast
    moreover have "u \<noteq> []"
      using length_digits [of s] 2 s u(1) by (auto simp: peeks_digit_def peek_def is_digit_def)
    ultimately show ?thesis by (intro exI [of _ u]) (auto simp: numchar_def)
  qed
qed

section \<open>Parts in sequence\<close>

definition local_part :: "(scanner \<Rightarrow> scan_error + scanner) \<Rightarrow> bool" where
  "local_part f \<longleftrightarrow>
     (\<forall>s s'. f s = Ok s' \<longrightarrow> (\<exists>u. fst s = u @ fst s' \<and> (\<forall>c \<in> set u. numchar c))) \<and>
     (\<forall>u r a a1 r' a'. f (u @ r, a) = Ok (r, a1) \<and> same_end r r' \<longrightarrow> (\<exists>a1'. f (u @ r', a') = Ok (r', a1')))"

lemma local_taken: "local_part f \<Longrightarrow> f s = Ok s' \<Longrightarrow> \<exists>u. fst s = u @ fst s' \<and> (\<forall>c \<in> set u. numchar c)"
  unfolding local_part_def by blast

lemma local_moved:
  "local_part f \<Longrightarrow> f (u @ r, a) = Ok (r, a1) \<Longrightarrow> same_end r r' \<Longrightarrow> \<exists>a1'. f (u @ r', a') = Ok (r', a1')"
  unfolding local_part_def by blast

fun chain :: "(scanner \<Rightarrow> scan_error + scanner) list \<Rightarrow> scanner \<Rightarrow> scan_error + scanner" where
  "chain [] s = Ok s"
| "chain (f # fs) s = and_then (f s) (chain fs)"

lemma and_then_Ok [simp]: "and_then r Ok = r"
  by (cases r) auto

lemma chain_Nil: "chain [] = Ok"
  by (rule ext) simp

lemma local_chain: "\<forall>f \<in> set fs. local_part f \<Longrightarrow> local_part (chain fs)"
proof (induction fs)
  case Nil
  then show ?case by (auto simp: local_part_def)
next
  case (Cons f fs)
  then have f: "local_part f" and fs: "local_part (chain fs)" by simp_all
  show ?case
    unfolding local_part_def
  proof (intro conjI allI impI)
    fix s s' assume "chain (f # fs) s = Ok s'"
    then obtain s1 where s1: "f s = Ok s1" "chain fs s1 = Ok s'" by (auto simp: and_then_eq_Inr)
    from local_taken [OF f s1(1)] obtain u where u: "fst s = u @ fst s1" "\<forall>c \<in> set u. numchar c" by blast
    from local_taken [OF fs s1(2)] obtain v where v: "fst s1 = v @ fst s'" "\<forall>c \<in> set v. numchar c" by blast
    from u v show "\<exists>u. fst s = u @ fst s' \<and> (\<forall>c \<in> set u. numchar c)" by (intro exI [of _ "u @ v"]) auto
  next
    fix u r a a1 r' a' assume "chain (f # fs) (u @ r, a) = Ok (r, a1) \<and> same_end r r'"
    then obtain s1 where s1: "f (u @ r, a) = Ok s1" "chain fs s1 = Ok (r, a1)" and e: "same_end r r'"
      by (auto simp: and_then_eq_Inr)
    from local_taken [OF f s1(1)] obtain v where v: "u @ r = v @ fst s1" by auto
    from local_taken [OF fs s1(2)] obtain w where w: "fst s1 = w @ r" by auto
    with v have u: "u = v @ w" by simp
    obtain b where b: "s1 = (w @ r, b)" using w by (cases s1) auto
    from local_moved [OF f, of v "w @ r" a b "w @ r'" a'] s1(1) same_end_append [OF e]
    obtain b' where "f (v @ w @ r', a') = Ok (w @ r', b')" by (auto simp: u b)
    moreover from local_moved [OF fs s1(2) [unfolded b] e, of b'] obtain c where
      "chain fs (w @ r', b') = Ok (r', c)" by blast
    ultimately show "\<exists>a1'. chain (f # fs) (u @ r', a') = Ok (r', a1')" by (simp add: u)
  qed
qed

text \<open>An optional character with what became of it.\<close>

definition eat_as :: "nat \<Rightarrow> bool \<Rightarrow> scanner \<Rightarrow> scan_error + scanner" where
  "eat_as b f s = (if fst (eat b s) = f then Ok (snd (eat b s)) else Err (error_at s BadNumber))"

lemma eat_as_Ok: "eat_as b f s = Ok s' \<longleftrightarrow> eat b s = (f, s')"
  by (cases "eat b s") (auto simp: eat_as_def)

lemma local_eat_as [simp]: "numchar b \<Longrightarrow> local_part (eat_as b f)"
  unfolding local_part_def eat_as_Ok using eat_taken_num eat_local by blast

lemma local_required_digits [simp]: "local_part required_digits"
  unfolding local_part_def using required_digits_taken required_digits_local by blast

lemma local_number_int [simp]: "local_part number_int"
  unfolding local_part_def using number_int_taken number_int_local by blast

lemma number_fraction_chains:
  "number_fraction s = Ok s' \<longleftrightarrow>
   chain [eat_as 0x2E False] s = Ok s' \<or> chain [eat_as 0x2E True, required_digits] s = Ok s'"
  by (cases "eat 0x2E s") (auto simp: number_fraction_def and_then_def eat_as_def split: sum.splits)

definition exponent_chains :: "(scanner \<Rightarrow> scan_error + scanner) list list" where
  "exponent_chains =
     [[eat_as 0x65 False, eat_as 0x45 False],
      [eat_as 0x65 True, eat_as 0x2B True, required_digits],
      [eat_as 0x65 False, eat_as 0x45 True, eat_as 0x2B True, required_digits],
      [eat_as 0x65 True, eat_as 0x2B False, eat_as MINUS True, required_digits],
      [eat_as 0x65 True, eat_as 0x2B False, eat_as MINUS False, required_digits],
      [eat_as 0x65 False, eat_as 0x45 True, eat_as 0x2B False, eat_as MINUS True, required_digits],
      [eat_as 0x65 False, eat_as 0x45 True, eat_as 0x2B False, eat_as MINUS False, required_digits]]"

lemma number_exponent_chains:
  "number_exponent s = Ok s' \<longleftrightarrow> (\<exists>fs \<in> set exponent_chains. chain fs s = Ok s')"
proof -
  obtain e s1 where e: "eat 0x65 s = (e, s1)" by (cases "eat 0x65 s")
  obtain e2 s2 where e2: "eat 0x45 s1 = (e2, s2)" by (cases "eat 0x45 s1")
  define s3 where "s3 = (if e then s1 else s2)"
  obtain p s4 where p: "eat 0x2B s3 = (p, s4)" by (cases "eat 0x2B s3")
  obtain m s5 where m: "eat MINUS s4 = (m, s5)" by (cases "eat MINUS s4")
  show ?thesis
    using p unfolding s3_def
    by (cases e; cases e2; cases p; cases m)
      (simp_all add: number_exponent_def exponent_chains_def eat_as_def e e2 m Let_def chain_Nil del: chain.simps(1))
qed

lemma number_local:
  assumes "number_int s1 = Ok s2" "number_fraction s2 = Ok s3" "number_exponent s3 = Ok s4"
  shows "\<exists>u. fst s1 = u @ fst s4 \<and> u \<noteq> [] \<and> is_digit (hd u) \<and> (\<forall>c \<in> set u. numchar c) \<and>
    (\<forall>r' a'. same_end (fst s4) r' \<longrightarrow> (\<exists>t2 t3 b.
       number_int (u @ r', a') = Ok t2 \<and> number_fraction t2 = Ok t3 \<and> number_exponent t3 = Ok (r', b)))"
proof -
  from assms(2) obtain fs where fs: "chain fs s2 = Ok s3" "\<forall>f \<in> set fs. local_part f"
    "\<And>s s'. chain fs s = Ok s' \<Longrightarrow> number_fraction s = Ok s'"
    unfolding number_fraction_chains
    by (elim disjE) (rule that [of "[eat_as 0x2E False]"] that [of "[eat_as 0x2E True, required_digits]"];
        simp add: number_fraction_chains)+
  from assms(3) obtain es where es: "chain es s3 = Ok s4" "es \<in> set exponent_chains"
    unfolding number_exponent_chains by blast
  have "\<forall>f \<in> set es. local_part f" using es(2) by (auto simp: exponent_chains_def)
  then have loc: "local_part (chain fs)" "local_part (chain es)" using fs(2) by (simp_all add: local_chain)
  from number_int_taken [OF assms(1)] obtain u where u: "fst s1 = u @ fst s2" "u \<noteq> []" "is_digit (hd u)" "\<forall>c \<in> set u. numchar c" by blast
  from local_taken [OF loc(1) fs(1)] obtain v where v: "fst s2 = v @ fst s3" "\<forall>c \<in> set v. numchar c" by blast
  from local_taken [OF loc(2) es(1)] obtain w where w: "fst s3 = w @ fst s4" "\<forall>c \<in> set w. numchar c" by blast
  obtain a1 a2 a3 a4 r where st: "s1 = (u @ v @ w @ r, a1)" "s2 = (v @ w @ r, a2)" "s3 = (w @ r, a3)" "s4 = (r, a4)"
    using u(1) v(1) w(1) by (metis prod.collapse)
  have "\<exists>t2 t3 b. number_int ((u @ v @ w) @ r', a') = Ok t2 \<and> number_fraction t2 = Ok t3 \<and> number_exponent t3 = Ok (r', b)"
    if "same_end (fst s4) r'" for r' a'
  proof -
    from that have e: "same_end r r'" by (simp add: st)
    from local_moved [OF local_number_int assms(1) [unfolded st] same_end_append [OF same_end_append [OF e]], of a']
    obtain b2 where b2: "number_int (u @ v @ w @ r', a') = Ok (v @ w @ r', b2)" by blast
    from local_moved [OF loc(1) fs(1) [unfolded st] same_end_append [OF e], of b2]
    obtain b3 where b3: "chain fs (v @ w @ r', b2) = Ok (w @ r', b3)" by blast
    from local_moved [OF loc(2) es(1) [unfolded st] e, of b3]
    obtain b4 where b4: "chain es (w @ r', b3) = Ok (r', b4)" by blast
    have "number_exponent (w @ r', b3) = Ok (r', b4)" using b4 es(2) unfolding number_exponent_chains by blast
    with b2 fs(3) [OF b3] show ?thesis by auto
  qed
  with u v w show ?thesis by (intro exI [of _ "u @ v @ w"]) auto
qed

text \<open>
  A number is taken whole from every text that starts with it and does not go on as a number.
\<close>

lemma scan_number_local:
  assumes "scan_number s = Ok (t, s')"
  shows "fst s = t @ fst s'" "t \<noteq> []" "hd t = MINUS \<or> is_digit (hd t)" "\<forall>c \<in> set t. numchar c"
    "same_end (fst s') r' \<Longrightarrow> \<exists>b. scan_number (t @ r', a') = Ok (t, (r', b))"
proof -
  obtain m s1 where m: "eat MINUS s = (m, s1)" by (cases "eat MINUS s")
  from assms obtain s2 s3 where s: "number_int s1 = Ok s2" "number_fraction s2 = Ok s3" "number_exponent s3 = Ok s'"
    and t: "t = between s s'"
    by (auto simp: scan_number_def and_then_eq_Inr m)
  from number_local [OF s] obtain u where u: "fst s1 = u @ fst s'" "u \<noteq> []" "is_digit (hd u)" "\<forall>c \<in> set u. numchar c"
    and moved: "\<And>r' a'. same_end (fst s') r' \<Longrightarrow> \<exists>t2 t3 b.
      number_int (u @ r', a') = Ok t2 \<and> number_fraction t2 = Ok t3 \<and> number_exponent t3 = Ok (r', b)" by blast
  define v where "v = (if m then [MINUS] else [])"
  have v: "fst s = v @ fst s1"
    using m by (cases "fst s") (auto simp: v_def eat_def peek_def bump_def Let_def split: if_splits)
  then have t': "t = v @ u" by (simp add: t between_def u(1))
  then show "fst s = t @ fst s'" "t \<noteq> []" "hd t = MINUS \<or> is_digit (hd t)" "\<forall>c \<in> set t. numchar c"
    using v u by (auto simp: v_def)
  show "\<exists>b. scan_number (t @ r', a') = Ok (t, (r', b))" if "same_end (fst s') r'"
  proof -
    have head: "head (u @ r') \<noteq> Some MINUS" using u(2,3) by (cases u) (auto simp: is_digit_def)
    then obtain a1 where a1: "eat MINUS (v @ u @ r', a') = (m, (u @ r', a1))"
      by (cases m) (simp_all add: v_def eat_def peek_head bump_def Let_def)
    from moved [OF that, of a1] a1 show ?thesis
      by (auto simp: scan_number_def t' between_def)
  qed
qed

lemma number_new_Ok: "number_new t = Ok t' \<longleftrightarrow> t' = t \<and> (\<exists>b. scan_number (t, 0) = Ok (t, ([], b)))"
proof
  assume "number_new t = Ok t'"
  then obtain w b where "scan_number (t, 0) = Ok (w, ([], b))" "t' = t"
    by (auto simp: number_new_def split: sum.splits prod.splits if_splits)
  with scan_number_local(1) [OF this(1)] show "t' = t \<and> (\<exists>b. scan_number (t, 0) = Ok (t, ([], b)))" by auto
qed (auto simp: number_new_def)

lemma scan_number_valid: "scan_number s = Ok (t, s') \<Longrightarrow> number_new t = Ok t"
  using scan_number_local(5) [of s t s' "[]" 0] by (auto simp: number_new_Ok same_end_def)

lemma scan_number_extends:
  "number_new t = Ok t \<Longrightarrow> (\<forall>c. head r = Some c \<longrightarrow> \<not> numchar c) \<Longrightarrow> \<exists>b. scan_number (t @ r, a) = Ok (t, (r, b))"
  using scan_number_local(5) [of "(t, 0)" t "([], _)" r a] by (auto simp: number_new_Ok same_end_def)

lemma number_new_chars:
  "number_new t = Ok t \<Longrightarrow> t \<noteq> [] \<and> (hd t = MINUS \<or> is_digit (hd t)) \<and> (\<forall>c \<in> set t. numchar c)"
  using scan_number_local(2-4) [of "(t, 0)" t] by (auto simp: number_new_Ok)

end
