(* ===== verification/Json_Write.thy ===== *)
theory Json_Write
  imports Json_Scan
begin

text \<open>
  The client's JSON writer, the second half of \<open>crates/plasmosome-cli/src/json.rs\<close>: the two styles, the
  loop that writes a value with its own stack of levels, equality without recursion, and the search for a
  repeated key. The loops are proved equal to the plain recursion on values.
\<close>

section \<open>Characters and strings\<close>

datatype style = Compact | Human

definition is_terminal_control :: "nat \<Rightarrow> bool" where
  "is_terminal_control c \<longleftrightarrow>
     c \<le> 0x1F \<or> (0x7F \<le> c \<and> c \<le> 0x9F) \<or> c = 0x061C \<or> (0x200E \<le> c \<and> c \<le> 0x200F) \<or>
     (0x202A \<le> c \<and> c \<le> 0x202E) \<or> (0x2066 \<le> c \<and> c \<le> 0x2069)"

text \<open>\<open>{:x}\<close> and \<open>{:X}\<close>, padded with zeros to four digits.\<close>

definition hex_digit :: "bool \<Rightarrow> nat \<Rightarrow> nat" where
  "hex_digit upper d = (if d < 10 then 0x30 + d else (if upper then 0x41 else 0x61) + (d - 10))"

fun hex_text :: "bool \<Rightarrow> nat \<Rightarrow> utext" where
  "hex_text upper n =
     (if n < 16 then [hex_digit upper n] else hex_text upper (n div 16) @ [hex_digit upper (n mod 16)])"

declare hex_text.simps [simp del]

definition hex4 :: "bool \<Rightarrow> nat \<Rightarrow> utext" where
  "hex4 upper n = replicate (4 - length (hex_text upper n)) 0x30 @ hex_text upper n"

definition write_control :: "nat \<Rightarrow> style \<Rightarrow> utext" where
  "write_control c style =
     (case style of
        Compact \<Rightarrow> [BACKSLASH, 0x75] @ hex4 False c
      | Human \<Rightarrow> ascii ''<U+'' @ hex4 True c @ ascii ''>'')"

fun write_chars :: "style \<Rightarrow> utext \<Rightarrow> utext" where
  "write_chars style [] = []"
| "write_chars style (c # cs) =
     (if c = QUOTE \<or> c = BACKSLASH then [BACKSLASH, c]
      else if is_terminal_control c then write_control c style
      else [c]) @ write_chars style cs"

definition write_string :: "utext \<Rightarrow> style \<Rightarrow> utext" where
  "write_string t style = [QUOTE] @ write_chars style t @ [QUOTE]"

fun show_text :: "utext \<Rightarrow> utext" where
  "show_text [] = []"
| "show_text (c # cs) = (if is_terminal_control c then write_control c Human else [c]) @ show_text cs"

fun show_reason :: "reason \<Rightarrow> utext" where
  "show_reason NotUtf8 = ascii ''the text is not UTF-8''"
| "show_reason AtEnd = ascii ''the text ends inside a value''"
| "show_reason (Expected what) = ascii (''expected '' @ what)"
| "show_reason BadNumber = ascii ''a number breaks the JSON grammar''"
| "show_reason Control = ascii ''a string holds a raw control character''"
| "show_reason BadEscape = ascii ''a string holds an invalid escape''"
| "show_reason LoneSurrogate = ascii ''a string escapes a lone surrogate''"
| "show_reason Trailing = ascii ''more text follows the value''"
| "show_reason TooLarge = ascii (''the text is longer than '' @ show_nat MAX_REPLY_BYTES @ '' bytes'')"
| "show_reason (DuplicateKey path) = ascii ''the key '' @ show_text path @ ascii '' repeats''"

definition show_scan_error :: "scan_error \<Rightarrow> utext" where
  "show_scan_error e = show_reason (se_reason e) @ ascii ('' at byte '' @ show_nat (se_offset e))"

section \<open>The writer\<close>

definition separator :: "bool \<Rightarrow> style \<Rightarrow> nat \<Rightarrow> utext" where
  "separator first style depth =
     (if \<not> first then [COMMA] else []) @
     (if style = Human then 0x0A # concat (replicate (min depth MAX_INDENT) [0x20, 0x20]) else [])"

definition close_container :: "nat \<Rightarrow> style \<Rightarrow> nat \<Rightarrow> utext" where
  "close_container close style depth =
     (if style = Human then separator True style depth else []) @ [close]"

definition write_key :: "utext \<Rightarrow> style \<Rightarrow> utext" where
  "write_key key style = write_string key style @ [COLON] @ (if style = Human then [0x20] else [])"

datatype rest = Items "json list" | Members "(utext \<times> json) list"

type_synonym level = "rest \<times> nat"

text \<open>A value's own text; a container with something in it is opened and pushed as a level.\<close>

fun open_value :: "style \<Rightarrow> json \<Rightarrow> level list \<Rightarrow> utext \<times> level list" where
  "open_value style JNull levels = (ascii ''null'', levels)"
| "open_value style (JBool True) levels = (ascii ''true'', levels)"
| "open_value style (JBool False) levels = (ascii ''false'', levels)"
| "open_value style (JNumber number) levels = (number, levels)"
| "open_value style (JString t) levels = (write_string t style, levels)"
| "open_value style (JArray []) levels = (ascii ''[]'', levels)"
| "open_value style (JObject []) levels = (ascii ''{}'', levels)"
| "open_value style (JArray (x # xs)) levels = ([LBRACK], (Items (x # xs), 0) # levels)"
| "open_value style (JObject (m # ms)) levels = ([LBRACE], (Members (m # ms), 0) # levels)"

fun rest_item :: "rest \<Rightarrow> nat \<Rightarrow> (utext option \<times> json) option" where
  "rest_item (Items items) i = (if i < length items then Some (None, items ! i) else None)"
| "rest_item (Members members) i =
     (if i < length members then Some (Some (fst (members ! i)), snd (members ! i)) else None)"

fun closer :: "rest \<Rightarrow> nat" where
  "closer (Items _) = RBRACK"
| "closer (Members _) = RBRACE"

text \<open>How much is left to write.\<close>

lemma size_member: "m \<in> set ms \<Longrightarrow> size (snd m) < Suc (size_list (size_prod (\<lambda>_. 0) size) ms)"
  by (induction ms) auto

lemma size_item: "x \<in> set xs \<Longrightarrow> size x < Suc (size_list size xs)" for xs :: "json list"
  by (induction xs) auto

function weight :: "json \<Rightarrow> nat" where
  "weight (JArray xs) = 1 + sum_list (map (\<lambda>x. 1 + weight x) xs)"
| "weight (JObject ms) = 1 + sum_list (map (\<lambda>m. 1 + weight (snd m)) ms)"
| "weight JNull = 1"
| "weight (JBool b) = 1"
| "weight (JNumber n) = 1"
| "weight (JString t) = 1"
  by pat_completeness auto

termination
  by (relation "measure size") (auto intro: size_item size_member)

definition level_weight :: "level \<Rightarrow> nat" where
  "level_weight l =
     1 + (case l of
            (Items items, i) \<Rightarrow> sum_list (map (\<lambda>x. 1 + weight x) (drop i items))
          | (Members ms, i) \<Rightarrow> sum_list (map (\<lambda>m. 1 + weight (snd m)) (drop i ms)))"

definition loop_weight :: "level list \<Rightarrow> json option \<Rightarrow> nat" where
  "loop_weight levels next =
     sum_list (map level_weight levels) + (case next of None \<Rightarrow> 0 | Some v \<Rightarrow> weight v)"

lemma open_value_weight:
  "open_value style v levels = (t, levels') \<Longrightarrow> loop_weight levels' None \<le> loop_weight levels (Some v)"
  by (cases "(style, v, levels)" rule: open_value.cases) (auto simp: loop_weight_def level_weight_def)

lemma rest_item_weight:
  "rest_item r i = Some (k, v) \<Longrightarrow> level_weight (r, Suc i) + weight v < level_weight (r, i)"
  by (cases r) (auto simp: level_weight_def Cons_nth_drop_Suc [symmetric] split: if_splits)

lemma write_step_weight:
  assumes "(out, levels) = (case next of None \<Rightarrow> (out0, levels0)
      | Some v \<Rightarrow> (case open_value style v levels0 of (t, levels) \<Rightarrow> (out0 @ t, levels)))"
  shows "loop_weight levels None \<le> loop_weight levels0 next"
  using assms open_value_weight by (auto split: option.splits prod.splits)

lemma close_level_weight: "loop_weight outer None < loop_weight (l # outer) None"
  by (simp add: loop_weight_def level_weight_def)

lemma next_item_weight:
  "rest_item r i = Some (k, v) \<Longrightarrow> loop_weight ((r, Suc i) # outer) (Some v) < loop_weight ((r, i) # outer) None"
  using rest_item_weight [of r i k v] by (simp add: loop_weight_def)

function write_loop :: "style \<Rightarrow> nat \<Rightarrow> level list \<Rightarrow> json option \<Rightarrow> utext \<Rightarrow> utext" where
  "write_loop style depth levels0 next out0 =
     (case (case next of
              None \<Rightarrow> (out0, levels0)
            | Some v \<Rightarrow> (case open_value style v levels0 of (t, levels) \<Rightarrow> (out0 @ t, levels))) of
        (out, levels) \<Rightarrow>
          (case levels of
             [] \<Rightarrow> out
           | (r, i) # outer \<Rightarrow>
               (case rest_item r i of
                  Some (key, v) \<Rightarrow>
                    write_loop style depth ((r, i + 1) # outer) (Some v)
                      (out @ separator (i = 0) style (depth + length levels) @
                       (case key of Some k \<Rightarrow> write_key k style | None \<Rightarrow> []))
                | None \<Rightarrow>
                    write_loop style depth outer None
                      (out @ close_container (closer r) style (depth + length outer)))))"
  by pat_completeness auto

termination
  by (relation "measure (\<lambda>(style, depth, levels, next, out). loop_weight levels next)")
    (auto dest!: write_step_weight intro: less_le_trans [OF close_level_weight] less_le_trans [OF next_item_weight])

declare write_loop.simps [simp del]

definition write_value :: "json \<Rightarrow> style \<Rightarrow> nat \<Rightarrow> utext" where
  "write_value v style depth = write_loop style depth [] (Some v) []"

definition write_compact :: "json \<Rightarrow> utext" where
  "write_compact v = write_value v Compact 0"

definition write_human :: "json \<Rightarrow> utext" where
  "write_human v = write_value v Human 0"

section \<open>The writer is the recursion on values\<close>

definition separated :: "style \<Rightarrow> nat \<Rightarrow> utext list \<Rightarrow> utext" where
  "separated style depth ts =
     (case ts of
        [] \<Rightarrow> []
      | t # ts' \<Rightarrow> separator True style depth @ t @ concat (map (\<lambda>u. separator False style depth @ u) ts'))"

function render :: "style \<Rightarrow> nat \<Rightarrow> json \<Rightarrow> utext" where
  "render style depth JNull = ascii ''null''"
| "render style depth (JBool b) = ascii (if b then ''true'' else ''false'')"
| "render style depth (JNumber number) = number"
| "render style depth (JString t) = write_string t style"
| "render style depth (JArray items) =
     (if items = [] then ascii ''[]''
      else LBRACK # separated style (depth + 1) (map (\<lambda>v. render style (depth + 1) v) items) @
        close_container RBRACK style depth)"
| "render style depth (JObject members) =
     (if members = [] then ascii ''{}''
      else LBRACE # separated style (depth + 1)
          (map (\<lambda>m. write_key (fst m) style @ render style (depth + 1) (snd m)) members) @
        close_container RBRACE style depth)"
  by pat_completeness auto

termination
  by (relation "measure (\<lambda>(style, depth, v). size v)") (auto intro: size_item size_member)

definition item_text :: "style \<Rightarrow> nat \<Rightarrow> utext option \<times> json \<Rightarrow> utext" where
  "item_text style depth kv =
     (case fst kv of Some k \<Rightarrow> write_key k style | None \<Rightarrow> []) @ render style depth (snd kv)"

fun rest_items :: "rest \<Rightarrow> (utext option \<times> json) list" where
  "rest_items (Items items) = map (Pair None) items"
| "rest_items (Members members) = map (\<lambda>m. (Some (fst m), snd m)) members"

lemma rest_item_eq: "rest_item r i = (if i < length (rest_items r) then Some (rest_items r ! i) else None)"
  by (cases r) auto

text \<open>One level, from its \<open>i\<close>-th item on, is written out and closed.\<close>

lemma write_level:
  assumes "\<forall>kv \<in> set (rest_items r). \<forall>levels out.
      write_loop style depth levels (Some (snd kv)) out =
      write_loop style depth levels None (out @ render style (depth + length levels) (snd kv))"
    and "i \<le> length (rest_items r)"
  shows "write_loop style depth ((r, i) # outer) None out =
    write_loop style depth outer None (out @
      concat (map (\<lambda>j. separator (j = 0) style (depth + Suc (length outer)) @
          item_text style (depth + Suc (length outer)) (rest_items r ! j)) [i ..< length (rest_items r)]) @
      close_container (closer r) style (depth + length outer))"
  using assms(2)
proof (induction "length (rest_items r) - i" arbitrary: i out)
  case 0
  then show ?case by (subst write_loop.simps) (simp add: rest_item_eq)
next
  case (Suc n)
  then have i: "i < length (rest_items r)" by simp
  obtain k v where kv: "rest_items r ! i = (k, v)" by (cases "rest_items r ! i")
  have v: "(k, v) \<in> set (rest_items r)" using i kv by (metis nth_mem)
  let ?out = "out @ separator (i = 0) style (depth + Suc (length outer)) @ (case k of Some k \<Rightarrow> write_key k style | None \<Rightarrow> [])"
  have "write_loop style depth ((r, i) # outer) None out = write_loop style depth ((r, Suc i) # outer) (Some v) ?out"
    by (subst write_loop.simps) (simp add: rest_item_eq i kv)
  also have "\<dots> = write_loop style depth ((r, Suc i) # outer) None (?out @ render style (depth + Suc (length outer)) v)"
    using assms(1) v by force
  also have "\<dots> = write_loop style depth outer None (out @
      concat (map (\<lambda>j. separator (j = 0) style (depth + Suc (length outer)) @
          item_text style (depth + Suc (length outer)) (rest_items r ! j)) [i ..< length (rest_items r)]) @
      close_container (closer r) style (depth + length outer))"
    using Suc(1) [of "Suc i"] Suc(2) i by (simp add: upt_conv_Cons item_text_def kv)
  finally show ?case .
qed

lemma separated_upt:
  "ts \<noteq> [] \<Longrightarrow> concat (map (\<lambda>j. separator (j = 0) style depth @ ts ! j) [0 ..< length ts]) = separated style depth ts"
proof -
  assume "ts \<noteq> []"
  then obtain t us where ts: "ts = t # us" by (cases ts) auto
  have "map (\<lambda>j. separator (j = 0) style depth @ (t # us) ! j) [Suc 0 ..< Suc (length us)] =
      map (\<lambda>u. separator False style depth @ u) us"
    by (rule nth_equalityI) (simp_all del: upt_Suc)
  then show ?thesis by (simp add: ts upt_conv_Cons separated_def del: upt_Suc)
qed

lemma write_opened:
  assumes "rest_items r \<noteq> []" "\<forall>kv \<in> set (rest_items r). \<forall>levels out.
      write_loop style depth levels (Some (snd kv)) out =
      write_loop style depth levels None (out @ render style (depth + length levels) (snd kv))"
    and "open_value style v levels = (t, (r, 0) # levels)"
  shows "write_loop style depth levels (Some v) out =
    write_loop style depth levels None (out @ t @
      separated style (depth + length levels + 1) (map (item_text style (depth + length levels + 1)) (rest_items r)) @
      close_container (closer r) style (depth + length levels))"
proof -
  let ?d = "depth + length levels + 1"
  have "write_loop style depth levels (Some v) out = write_loop style depth ((r, 0) # levels) None (out @ t)"
    by (subst (1 2) write_loop.simps) (simp add: assms(3))
  also have "\<dots> = write_loop style depth levels None (out @ t @
      concat (map (\<lambda>j. separator (j = 0) style ?d @ item_text style ?d (rest_items r ! j)) [0 ..< length (rest_items r)]) @
      close_container (closer r) style (depth + length levels))"
    using write_level [of r style depth 0 levels "out @ t"] assms(2) by simp
  also have "concat (map (\<lambda>j. separator (j = 0) style ?d @ item_text style ?d (rest_items r ! j)) [0 ..< length (rest_items r)]) =
      separated style ?d (map (item_text style ?d) (rest_items r))"
  proof -
    have eq: "map (\<lambda>j. separator (j = 0) style ?d @ item_text style ?d (rest_items r ! j)) [0 ..< length (rest_items r)] =
        map (\<lambda>j. separator (j = 0) style ?d @ map (item_text style ?d) (rest_items r) ! j) [0 ..< length (rest_items r)]"
      by (rule map_cong) simp_all
    show ?thesis
      unfolding eq
      by (rule separated_upt [of "map (item_text style ?d) (rest_items r)" style ?d, unfolded length_map])
        (use assms(1) in simp)
  qed
  finally show ?thesis .
qed

lemma write_loop_render:
  "write_loop style depth levels (Some v) out =
   write_loop style depth levels None (out @ render style (depth + length levels) v)"
proof (induction v arbitrary: levels out rule: measure_induct_rule [of size])
  case (less v)
  have plain: "write_loop style depth levels (Some v) out = write_loop style depth levels None (out @ t)"
    if "open_value style v levels = (t, levels)" for t
    by (subst (1 2) write_loop.simps) (simp add: that)
  show ?case
  proof (cases v)
    case (JArray items)
    show ?thesis
    proof (cases items)
      case Nil
      then show ?thesis using plain by (simp add: JArray)
    next
      case (Cons x xs)
      have "\<forall>kv \<in> set (rest_items (Items items)). \<forall>levels out. write_loop style depth levels (Some (snd kv)) out =
          write_loop style depth levels None (out @ render style (depth + length levels) (snd kv))"
      proof (intro ballI allI)
        fix kv levels out assume "kv \<in> set (rest_items (Items items))"
        then have "size (snd kv) < size v" using size_item [of _ items] by (auto simp: JArray)
        then show "write_loop style depth levels (Some (snd kv)) out =
            write_loop style depth levels None (out @ render style (depth + length levels) (snd kv))"
          by (rule less)
      qed
      from write_opened [OF _ this, of v levels "[LBRACK]" out] show ?thesis
        by (simp add: JArray Cons item_text_def comp_def separated_def)
    qed
  next
    case (JObject members)
    show ?thesis
    proof (cases members)
      case Nil
      then show ?thesis using plain by (simp add: JObject)
    next
      case (Cons x xs)
      have "\<forall>kv \<in> set (rest_items (Members members)). \<forall>levels out. write_loop style depth levels (Some (snd kv)) out =
          write_loop style depth levels None (out @ render style (depth + length levels) (snd kv))"
      proof (intro ballI allI)
        fix kv levels out assume "kv \<in> set (rest_items (Members members))"
        then have "size (snd kv) < size v" using size_member [of _ members] by (auto simp: JObject)
        then show "write_loop style depth levels (Some (snd kv)) out =
            write_loop style depth levels None (out @ render style (depth + length levels) (snd kv))"
          by (rule less)
      qed
      from write_opened [OF _ this, of v levels "[LBRACE]" out] show ?thesis
        by (simp add: JObject Cons item_text_def comp_def separated_def)
    qed
  qed (use plain in auto)
qed

lemma write_value_render: "write_value v style depth = render style depth v"
  by (simp add: write_value_def write_loop_render) (simp add: write_loop.simps)

end
