(* ===== verification/Json.thy ===== *)
theory Json
  imports Json_Number Json_Write
begin

text \<open>
  What the client's JSON reader and writer promise together: what is written compactly is read back as
  the same value, what is read is well formed, the writer's and the comparison's loops are the plain
  recursions, and nothing that is written can drive a terminal.
\<close>

section \<open>Comparison and repeated keys\<close>

text \<open>\<open>PartialEq\<close>: a stack of pairs still to compare, the last pushed first.\<close>

fun push_members :: "((utext \<times> json) \<times> (utext \<times> json)) list \<Rightarrow> (json \<times> json) list \<Rightarrow> (json \<times> json) list option" where
  "push_members [] pending = Some pending"
| "push_members (((lk, lv), (rk, rv)) # ms) pending =
     (if lk \<noteq> rk then None else push_members ms ((lv, rv) # pending))"

lemma push_members_Some:
  "push_members (zip ls rs) pending = Some pending' \<Longrightarrow> length ls = length rs \<Longrightarrow>
   map fst ls = map fst rs \<and> pending' = rev (zip (map snd ls) (map snd rs)) @ pending"
  by (induction ls rs arbitrary: pending rule: list_induct2') (auto split: if_splits prod.splits)

lemma push_members_None:
  "push_members (zip ls rs) pending = None \<Longrightarrow> length ls = length rs \<Longrightarrow> map fst ls \<noteq> map fst rs"
  by (induction ls rs arbitrary: pending rule: list_induct2') (auto split: if_splits prod.splits)

definition pending_weight :: "(json \<times> json) list \<Rightarrow> nat" where
  "pending_weight ps = sum_list (map (\<lambda>p. weight (fst p)) ps)"

lemma weight_items: "length ls = length rs \<Longrightarrow> pending_weight (rev (zip ls rs)) < weight (JArray ls)"
proof -
  assume "length ls = length rs"
  then have "map (\<lambda>p. weight (fst p)) (zip ls rs) = map weight ls"
    by (induction ls rs rule: list_induct2) auto
  then have "pending_weight (rev (zip ls rs)) = sum_list (map weight ls)"
    by (simp add: pending_weight_def rev_map [symmetric])
  also have "\<dots> \<le> sum_list (map (\<lambda>x. 1 + weight x) ls)" by (rule sum_list_mono) simp
  finally show ?thesis by simp
qed

lemma weight_members:
  "length ls = length rs \<Longrightarrow> pending_weight (rev (zip (map snd ls) (map snd rs))) < weight (JObject ls)"
proof -
  assume "length ls = length rs"
  then have "pending_weight (rev (zip (map snd ls) (map snd rs))) < weight (JArray (map snd ls))"
    using weight_items [of "map snd ls" "map snd rs"] by simp
  then show ?thesis by (simp add: comp_def)
qed

lemma pending_weight_append [simp]: "pending_weight (ps @ qs) = pending_weight ps + pending_weight qs"
  by (simp add: pending_weight_def)

lemma pending_weight_Cons [simp]: "pending_weight ((a, b) # ps) = weight a + pending_weight ps"
  by (simp add: pending_weight_def)

function json_eq_loop :: "(json \<times> json) list \<Rightarrow> bool" where
  "json_eq_loop [] = True"
| "json_eq_loop ((JNull, JNull) # ps) = json_eq_loop ps"
| "json_eq_loop ((JBool a, JBool b) # ps) = (if a = b then json_eq_loop ps else False)"
| "json_eq_loop ((JNumber a, JNumber b) # ps) = (if a = b then json_eq_loop ps else False)"
| "json_eq_loop ((JString a, JString b) # ps) = (if a = b then json_eq_loop ps else False)"
| "json_eq_loop ((JArray ls, JArray rs) # ps) =
     (if length ls = length rs then json_eq_loop (rev (zip ls rs) @ ps) else False)"
| "json_eq_loop ((JObject ls, JObject rs) # ps) =
     (if length ls = length rs then
        (case push_members (zip ls rs) ps of None \<Rightarrow> False | Some ps' \<Rightarrow> json_eq_loop ps')
      else False)"
| "json_eq_loop ((JNull, JBool b) # ps) = False" | "json_eq_loop ((JNull, JNumber b) # ps) = False"
| "json_eq_loop ((JNull, JString b) # ps) = False" | "json_eq_loop ((JNull, JArray b) # ps) = False"
| "json_eq_loop ((JNull, JObject b) # ps) = False" | "json_eq_loop ((JBool a, JNull) # ps) = False"
| "json_eq_loop ((JBool a, JNumber b) # ps) = False" | "json_eq_loop ((JBool a, JString b) # ps) = False"
| "json_eq_loop ((JBool a, JArray b) # ps) = False" | "json_eq_loop ((JBool a, JObject b) # ps) = False"
| "json_eq_loop ((JNumber a, JNull) # ps) = False" | "json_eq_loop ((JNumber a, JBool b) # ps) = False"
| "json_eq_loop ((JNumber a, JString b) # ps) = False" | "json_eq_loop ((JNumber a, JArray b) # ps) = False"
| "json_eq_loop ((JNumber a, JObject b) # ps) = False" | "json_eq_loop ((JString a, JNull) # ps) = False"
| "json_eq_loop ((JString a, JBool b) # ps) = False" | "json_eq_loop ((JString a, JNumber b) # ps) = False"
| "json_eq_loop ((JString a, JArray b) # ps) = False" | "json_eq_loop ((JString a, JObject b) # ps) = False"
| "json_eq_loop ((JArray a, JNull) # ps) = False" | "json_eq_loop ((JArray a, JBool b) # ps) = False"
| "json_eq_loop ((JArray a, JNumber b) # ps) = False" | "json_eq_loop ((JArray a, JString b) # ps) = False"
| "json_eq_loop ((JArray a, JObject b) # ps) = False" | "json_eq_loop ((JObject a, JNull) # ps) = False"
| "json_eq_loop ((JObject a, JBool b) # ps) = False" | "json_eq_loop ((JObject a, JNumber b) # ps) = False"
| "json_eq_loop ((JObject a, JString b) # ps) = False" | "json_eq_loop ((JObject a, JArray b) # ps) = False"
  by pat_completeness auto

termination
  by (relation "measure pending_weight") (use weight_items weight_members in \<open>auto dest!: push_members_Some\<close>)

definition json_eq :: "json \<Rightarrow> json \<Rightarrow> bool" where
  "json_eq a b = json_eq_loop [(a, b)]"

text \<open>\<open>repeats\<close>: few members are compared with those before them, many through a set.\<close>

fun repeats_seen :: "(utext \<times> json) list \<Rightarrow> utext set \<Rightarrow> bool" where
  "repeats_seen [] seen = False"
| "repeats_seen (m # ms) seen = (if fst m \<in> seen then True else repeats_seen ms (insert (fst m) seen))"

definition repeats :: "(utext \<times> json) list \<Rightarrow> bool" where
  "repeats members =
     (if length members \<le> LINEAR_KEYS
      then list_ex (\<lambda>i. member_of (take i members) (fst (members ! i)) \<noteq> None) [0 ..< length members]
      else repeats_seen members {})"

fun children :: "json \<Rightarrow> json list" where
  "children (JArray items) = items"
| "children (JObject members) = map snd members"
| "children v = []"

lemma weight_children: "sum_list (map weight (children v)) < weight v"
proof (cases v)
  case (JArray xs)
  have "sum_list (map weight xs) \<le> sum_list (map (\<lambda>x. 1 + weight x) xs)" by (rule sum_list_mono) simp
  then show ?thesis by (simp add: JArray)
next
  case (JObject ms)
  have "sum_list (map (\<lambda>m. weight (snd m)) ms) \<le> sum_list (map (\<lambda>m. 1 + weight (snd m)) ms)"
    by (rule sum_list_mono) simp
  then show ?thesis by (simp add: JObject comp_def)
qed simp_all

function repeats_a_key_loop :: "json list \<Rightarrow> bool" where
  "repeats_a_key_loop [] = False"
| "repeats_a_key_loop (v # pending) =
     (if (case v of JObject members \<Rightarrow> repeats members | _ \<Rightarrow> False) then True
      else repeats_a_key_loop (rev (children v) @ pending))"
  by pat_completeness auto

termination
proof (relation "measure (\<lambda>ps. sum_list (map weight ps))", goal_cases)
  case (2 v pending)
  then show ?case using weight_children [of v] by (simp add: rev_map [symmetric])
qed simp

definition repeats_a_key :: "json \<Rightarrow> bool" where
  "repeats_a_key v = repeats_a_key_loop [v]"

section \<open>The loops are the recursions\<close>

lemma json_eq_loop_all: "json_eq_loop ps \<longleftrightarrow> (\<forall>(a, b) \<in> set ps. a = b)"
proof (induction ps rule: json_eq_loop.induct)
  case (6 ls rs ps)
  have "(\<forall>(a, b) \<in> set (zip ls rs). a = b) \<longleftrightarrow> ls = rs" if "length ls = length rs"
    using that by (induction ls rs rule: list_induct2) auto
  with 6 show ?case by (auto simp: ball_Un)
next
  case (7 ls rs ps)
  show ?case
  proof (cases "length ls = length rs")
    case len: True
    have vals: "(\<forall>(a, b) \<in> set (zip (map snd ls) (map snd rs)). a = b) \<and> map fst ls = map fst rs \<longleftrightarrow> ls = rs"
      using len by (induction ls rs rule: list_induct2) (auto simp: prod_eq_iff)
    show ?thesis
    proof (cases "push_members (zip ls rs) ps")
      case None
      with push_members_None [OF None len] len show ?thesis by auto
    next
      case (Some ps')
      from push_members_Some [OF Some len] have ps': "map fst ls = map fst rs"
        "ps' = rev (zip (map snd ls) (map snd rs)) @ ps" by auto
      have "json_eq_loop ps' \<longleftrightarrow> (\<forall>(a, b) \<in> set ps'. a = b)" by (rule 7 [OF len Some])
      also have "\<dots> \<longleftrightarrow> ls = rs \<and> (\<forall>(a, b) \<in> set ps. a = b)"
      proof -
        have "(\<forall>(a, b) \<in> set ps'. a = b) \<longleftrightarrow>
            (\<forall>(a, b) \<in> set (zip (map snd ls) (map snd rs)). a = b) \<and> (\<forall>(a, b) \<in> set ps. a = b)"
          unfolding ps'(2) by (simp only: set_append set_rev ball_Un)
        moreover have "(\<forall>(a, b) \<in> set (zip (map snd ls) (map snd rs)). a = b) \<longleftrightarrow> ls = rs"
          using vals ps'(1) by simp
        ultimately show ?thesis by simp
      qed
      finally show ?thesis using len Some by simp
    qed
  qed auto
qed auto

lemma repeats_seen_eq: "repeats_seen ms seen \<longleftrightarrow> \<not> distinct (map fst ms) \<or> (\<exists>m \<in> set ms. fst m \<in> seen)"
  by (induction ms arbitrary: seen) force+

lemma member_of_None: "member_of members key = None \<longleftrightarrow> key \<notin> set (map fst members)"
  by (force simp: member_of_def find_None_iff)

lemma repeats_eq: "repeats members \<longleftrightarrow> \<not> distinct (map fst members)"
proof -
  have "list_ex (\<lambda>i. member_of (take i members) (fst (members ! i)) \<noteq> None) [0 ..< length members] \<longleftrightarrow>
      \<not> distinct (map fst members)"
  proof (induction members rule: rev_induct)
    case (snoc m ms)
    have "list_ex (\<lambda>i. member_of (take i (ms @ [m])) (fst ((ms @ [m]) ! i)) \<noteq> None) [0 ..< length ms] =
        list_ex (\<lambda>i. member_of (take i ms) (fst (ms ! i)) \<noteq> None) [0 ..< length ms]"
      by (rule list_ex_cong) (auto simp: nth_append)
    with snoc show ?case by (simp add: member_of_None) 
  qed simp
  then show ?thesis by (simp add: repeats_def repeats_seen_eq)
qed

text \<open>Every value inside a value, itself included.\<close>

inductive inside :: "json \<Rightarrow> json \<Rightarrow> bool" for v where
  inside_self: "inside v v"
| inside_child: "inside v w \<Longrightarrow> x \<in> set (children w) \<Longrightarrow> inside v x"

lemma inside_first: "inside x w \<Longrightarrow> x \<in> set (children v) \<Longrightarrow> inside v w"
  by (induction rule: inside.induct) (auto intro: inside.intros)

lemma inside_cases: "inside v w \<longleftrightarrow> w = v \<or> (\<exists>x \<in> set (children v). inside x w)"
proof
  assume "inside v w"
  then show "w = v \<or> (\<exists>x \<in> set (children v). inside x w)"
    by (induction rule: inside.induct) (auto intro: inside.intros)
qed (auto intro: inside.intros inside_first)

lemma repeats_a_key_loop_eq:
  "repeats_a_key_loop ps \<longleftrightarrow> (\<exists>v \<in> set ps. \<exists>members. inside v (JObject members) \<and> \<not> distinct (map fst members))"
proof (induction ps rule: repeats_a_key_loop.induct)
  case (2 v pending)
  have split: "(\<exists>members. inside v (JObject members) \<and> \<not> distinct (map fst members)) \<longleftrightarrow>
      (case v of JObject members \<Rightarrow> repeats members | _ \<Rightarrow> False) \<or>
      (\<exists>x \<in> set (children v). \<exists>members. inside x (JObject members) \<and> \<not> distinct (map fst members))"
    by (subst inside_cases) (auto simp: repeats_eq split: json.splits)
  show ?case
  proof (cases "case v of JObject members \<Rightarrow> repeats members | _ \<Rightarrow> False")
    case True
    with split show ?thesis by simp
  next
    case False
    with 2 split show ?thesis by (simp only: repeats_a_key_loop.simps if_False set_append set_rev list.set
        bex_Un bex_simps False simp_thms)
  qed
qed simp

section \<open>Well-formed values\<close>

text \<open>
  A value that \<open>scan\<close> can return: numbers are numbers, text is made of scalar values, and no object
  repeats a key.
\<close>

function wf_json :: "json \<Rightarrow> bool" where
  "wf_json JNull = True"
| "wf_json (JBool b) = True"
| "wf_json (JNumber t) = (number_new t = Ok t)"
| "wf_json (JString t) = (\<forall>c \<in> set t. is_scalar c)"
| "wf_json (JArray items) = (\<forall>x \<in> set items. wf_json x)"
| "wf_json (JObject members) =
     (distinct (map fst members) \<and> (\<forall>m \<in> set members. (\<forall>c \<in> set (fst m). is_scalar c) \<and> wf_json (snd m)))"
  by pat_completeness auto

termination
  by (relation "measure size") (auto intro: size_item size_member)

section \<open>Reading back what was written\<close>

lemma hex_loop_digits:
  "\<forall>d \<in> set ds. d < 16 \<Longrightarrow>
   \<exists>b. hex_loop (length ds) e v (map (hex_digit u) ds @ r, a) = Ok (foldl (\<lambda>v d. v * 16 + d) v ds, (r, b))"
proof (induction ds arbitrary: v a)
  case (Cons d ds)
  have "to_digit16 (hex_digit u d) = Some d"
    using Cons.prems by (auto simp: to_digit16_def hex_digit_def)
  with Cons show ?case by (simp add: peek_def bump_def)
qed simp

lemma hex4_digits:
  assumes "n < 65536"
  shows "hex4 u n = map (hex_digit u) [n div 4096, n div 256 mod 16, n div 16 mod 16, n mod 16]"
proof -
  have d: "n div 16 div 16 = n div 256" "n div 16 div 16 div 16 = n div 4096"
    by (simp_all add: div_mult2_eq [symmetric])
  have pad: "replicate 3 (0x30 :: nat) = [0x30, 0x30, 0x30]" "replicate 2 (0x30 :: nat) = [0x30, 0x30]"
    by (simp_all add: numeral_3_eq_3 numeral_2_eq_2)
  consider "n < 16" | "16 \<le> n" "n < 256" | "256 \<le> n" "n < 4096" | "4096 \<le> n" by linarith
  then show ?thesis
  proof cases
    case 1
    then show ?thesis by (simp add: hex4_def hex_text.simps [of _ n] hex_digit_def pad)
  next
    case 2
    then have "n div 16 < 16" "n div 4096 = 0" "n div 256 = 0" by auto
    with 2 show ?thesis
      by (simp add: hex4_def hex_text.simps [of _ n] hex_text.simps [of _ "n div 16"] hex_digit_def [of _ 0] pad)
  next
    case 3
    then have "n div 256 < 16" "n div 4096 = 0" "\<not> n div 16 < 16" by auto
    with 3 show ?thesis
      by (simp add: hex4_def hex_text.simps [of _ n] hex_text.simps [of _ "n div 16"] hex_text.simps [of _ "n div 256"] d
          hex_digit_def [of _ 0] pad)
  next
    case 4
    then have "n div 4096 < 16" "\<not> n div 256 < 16" "\<not> n div 16 < 16" using assms by auto
    with 4 show ?thesis
      by (simp add: hex4_def hex_text.simps [of _ n] hex_text.simps [of _ "n div 16"] hex_text.simps [of _ "n div 256"]
          hex_text.simps [of _ "n div 4096"] d div_mult2_eq [symmetric])
  qed
qed

lemma scan_hex4: "n < 65536 \<Longrightarrow> \<exists>b. scan_hex e (hex4 u n @ r, a) = Ok (n, (r, b))"
proof -
  assume n: "n < 65536"
  let ?ds = "[n div 4096, n div 256 mod 16, n div 16 mod 16, n mod 16]"
  have "\<forall>d \<in> set ?ds. d < 16" using n by auto
  moreover have len: "length ?ds = 4" by simp
  ultimately obtain b where
    "hex_loop 4 e 0 (hex4 u n @ r, a) = Ok (foldl (\<lambda>v d. v * 16 + d) 0 ?ds, (r, b))"
    unfolding hex4_digits [OF n] using hex_loop_digits [of ?ds e 0 u r a, unfolded len] by blast
  moreover have "((n div 4096 * 16 + n div 256 mod 16) * 16 + n div 16 mod 16) * 16 + n mod 16 = n"
  proof -
    have "n div 16 div 16 = n div 256" "n div 256 div 16 = n div 4096" by (simp_all add: div_mult2_eq [symmetric])
    then show ?thesis by (metis div_mult_mod_eq)
  qed
  ultimately show ?thesis by (auto simp: scan_hex_def)
qed

lemma terminal_control_small: "is_terminal_control c \<Longrightarrow> c < 65536 \<and> is_scalar c \<and> \<not> (0xD800 \<le> c \<and> c \<le> 0xDBFF)"
  by (auto simp: is_terminal_control_def is_scalar_def)

lemma scan_escape_control:
  assumes "is_terminal_control c"
  shows "\<exists>b. scan_escape (write_control c Compact @ r, a) = Ok (c, (r, b))"
proof -
  note c = terminal_control_small [OF assms]
  from c scan_hex4 obtain b where "scan_hex a (hex4 False c @ r, a + 1 + 1) = Ok (c, (r, b))" by blast
  with c have "scan_unicode a (hex4 False c @ r, a + 1 + 1) = Ok (c, (r, b))"
    by (auto simp: scan_unicode_def Let_def)
  then show ?thesis by (simp add: scan_escape_def write_control_def bump_def peek_def Let_def)
qed

lemma scan_string_write:
  "\<forall>c \<in> set t. is_scalar c \<Longrightarrow>
   \<exists>b. scan_string_from acc (write_chars Compact t @ QUOTE # r, a) = Ok (acc @ t, (r, b))"
proof (induction t arbitrary: acc a)
  case Nil
  then show ?case by (simp add: scan_string_from.simps [of acc] peek_def bump_def)
next
  case (Cons c t)
  have scalars: "\<forall>c \<in> set t. is_scalar c" using Cons.prems by simp
  have escaped: ?case
    if "scan_escape (u @ write_chars Compact t @ QUOTE # r, a) = Ok (c, (write_chars Compact t @ QUOTE # r, b))"
      "hd u = BACKSLASH" "u \<noteq> []" "write_chars Compact (c # t) = u @ write_chars Compact t" for u b
  proof -
    from that(2,3) have "peek (u @ write_chars Compact t @ QUOTE # r, a) = Some BACKSLASH" by (cases u) (auto simp: peek_def)
    then have "scan_string_from acc (write_chars Compact (c # t) @ QUOTE # r, a) =
        scan_string_from (acc @ [c]) (write_chars Compact t @ QUOTE # r, b)"
      unfolding that(4) using that(1) by (subst scan_string_from.simps) simp
    with Cons.IH [OF scalars, of "acc @ [c]" b] show ?thesis by simp
  qed
  consider "c = QUOTE \<or> c = BACKSLASH" | "c \<noteq> QUOTE" "c \<noteq> BACKSLASH" "is_terminal_control c"
    | "c \<noteq> QUOTE" "c \<noteq> BACKSLASH" "\<not> is_terminal_control c" by blast
  then show ?case
  proof cases
    case 1
    then show ?thesis
      by (intro escaped [of "[BACKSLASH, c]" "a + 1 + 1"]) (auto simp: scan_escape_def bump_def peek_def Let_def)
  next
    case 2
    from scan_escape_control [OF 2(3), of "write_chars Compact t @ QUOTE # r" a] obtain b where
      "scan_escape (write_control c Compact @ write_chars Compact t @ QUOTE # r, a) =
        Ok (c, (write_chars Compact t @ QUOTE # r, b))" by blast
    then show ?thesis by (rule escaped) (use 2 in \<open>auto simp: write_control_def\<close>)
  next
    case 3
    then have "0x20 \<le> c" by (simp add: is_terminal_control_def)
    with 3 have "scan_string_from acc (write_chars Compact (c # t) @ QUOTE # r, a) =
        scan_string_from (acc @ [c]) (write_chars Compact t @ QUOTE # r, a + utf8_width c)"
      by (subst scan_string_from.simps) (simp add: peek_def)
    with Cons.IH [OF scalars, of "acc @ [c]" "a + utf8_width c"] show ?thesis by simp
  qed
qed

lemma scan_string_text:
  "\<forall>c \<in> set t. is_scalar c \<Longrightarrow> \<exists>b. scan_string (write_string t Compact @ r, a) = Ok (t, (r, b))"
  using scan_string_write [of t "[]" r "a + 1"] by (simp add: scan_string_def write_string_def bump_def)

text \<open>Where the text starts with a character that is not white space, none is skipped.\<close>

lemma skip_none: "c \<notin> {0x20, 0x09, 0x0A, 0x0D} \<Longrightarrow> skip_whitespace (c # cs, a) = (c # cs, a)"
  by (simp add: skip_whitespace_def)

lemma eat_head: "eat b (c # cs, a) = (if c = b then (True, (cs, a + 1)) else (False, (c # cs, a)))"
  by (simp add: eat_def peek_def bump_def Let_def)

lemma scan_key_text:
  assumes "\<forall>c \<in> set k. is_scalar c"
  shows "\<exists>o1 b. scan_key (write_key k Compact @ r, a) = Ok ((o1, k), (r, b))"
proof -
  from scan_string_text [OF assms, of "COLON # r" a] obtain b where
    "scan_string (write_string k Compact @ COLON # r, a) = Ok (k, (COLON # r, b))" by blast
  then show ?thesis
    by (simp add: scan_key_def write_key_def write_string_def skip_none eat_head peek_def Let_def)
qed

lemma render_head:
  "wf_json v \<Longrightarrow> \<exists>c cs. render Compact d v = c # cs \<and> c \<notin> {0x20, 0x09, 0x0A, 0x0D} \<and> c \<noteq> RBRACK"
  using number_new_chars by (cases v; fastforce simp: write_string_def neq_Nil_conv is_digit_def)

section \<open>Documents\<close>

definition ends_number :: "utext \<Rightarrow> bool" where
  "ends_number r \<longleftrightarrow> (\<forall>c. head r = Some c \<longrightarrow> \<not> numchar c)"

lemma ends_number_simps [simp]: "ends_number []" "ends_number (COMMA # r)" "ends_number (RBRACK # r)" "ends_number (RBRACE # r)"
  by (simp_all add: ends_number_def numchar_def is_digit_def)

definition reads :: "json \<Rightarrow> bool" where
  "reads v \<longleftrightarrow> (\<forall>frames r a d. ends_number r \<longrightarrow>
     (\<exists>b. doc_value frames (render Compact d v @ r, a) = doc_close frames v (r, b)))"

lemma readsD: "reads v \<Longrightarrow> ends_number r \<Longrightarrow> \<exists>b. doc_value frames (render Compact d v @ r, a) = doc_close frames v (r, b)"
  unfolding reads_def by blast

text \<open>The rest of an array after its value \<open>y\<close>, and the rest of an object after its member \<open>(k, y)\<close>.\<close>

lemma close_array:
  assumes "\<forall>x \<in> set ys. reads x"
  shows "\<exists>b. doc_close (FArray items # frames) y (concat (map (\<lambda>x. COMMA # render Compact d x) ys) @ RBRACK # r, a) =
    doc_close frames (JArray (items @ y # ys)) (r, b)"
  using assms
proof (induction ys arbitrary: items y a)
  case Nil
  have "doc_close (FArray items # frames) y (RBRACK # r, a) = doc_close frames (JArray (items @ [y])) (r, a + 1)"
    by (subst doc_close.simps) (simp add: skip_none eat_head)
  then show ?case by auto
next
  case (Cons x ys)
  let ?rest = "concat (map (\<lambda>x. COMMA # render Compact d x) ys) @ RBRACK # r"
  have step: "doc_close (FArray items # frames) y (COMMA # render Compact d x @ ?rest, a) =
      doc_value (FArray (items @ [y]) # frames) (render Compact d x @ ?rest, a + 1)"
    by (subst doc_close.simps) (simp add: skip_none eat_head)
  have "ends_number ?rest" by (cases ys) auto
  with Cons.prems readsD [of x ?rest "FArray (items @ [y]) # frames" d "a + 1"] obtain b where
    "doc_value (FArray (items @ [y]) # frames) (render Compact d x @ ?rest, a + 1) =
      doc_close (FArray (items @ [y]) # frames) x (?rest, b)" by auto
  with step Cons.IH [of "items @ [y]" x b] Cons.prems show ?case by simp
qed

text \<open>The names an open object has seen are its members' and its current key.\<close>

definition seen_ok :: "(utext \<times> json) list \<Rightarrow> utext \<Rightarrow> utext set option \<Rightarrow> bool" where
  "seen_ok members key seen \<longleftrightarrow> (\<forall>names. seen = Some names \<longrightarrow> names = insert key (set (map fst members)))"

lemma admit_eq:
  assumes "seen_ok members key seen"
  shows "admit (members @ [(key, v)]) seen k = None \<longleftrightarrow> k \<in> set (map fst (members @ [(key, v)]))"
    "admit (members @ [(key, v)]) seen k = Some seen' \<Longrightarrow> seen_ok (members @ [(key, v)]) k seen'"
  using assms member_of_None [of "members @ [(key, v)]" k]
  by (auto simp: admit_def seen_ok_def split: option.splits if_splits)

lemma close_object:
  assumes "\<forall>m \<in> set ms. (\<forall>c \<in> set (fst m). is_scalar c) \<and> reads (snd m)"
    and "distinct (map fst members @ key # map fst ms)" "seen_ok members key seen"
  shows "\<exists>b. doc_close (FObject members key seen # frames) y
      (concat (map (\<lambda>m. COMMA # write_key (fst m) Compact @ render Compact d (snd m)) ms) @ RBRACE # r, a) =
    doc_close frames (JObject (members @ (key, y) # ms)) (r, b)"
  using assms
proof (induction ms arbitrary: members key seen y a)
  case Nil
  have "doc_close (FObject members key seen # frames) y (RBRACE # r, a) =
      doc_close frames (JObject (members @ [(key, y)])) (r, a + 1)"
    by (subst doc_close.simps) (simp add: skip_none eat_head)
  then show ?case by auto
next
  case (Cons m ms)
  obtain k x where m: "m = (k, x)" by (cases m)
  let ?rest = "concat (map (\<lambda>m. COMMA # write_key (fst m) Compact @ render Compact d (snd m)) ms) @ RBRACE # r"
  have k: "\<forall>c \<in> set k. is_scalar c" and x: "reads x" using Cons.prems(1) by (simp_all add: m)
  from scan_key_text [OF k, of "render Compact d x @ ?rest" "a + 1"] obtain o1 b1 where
    key: "scan_key (write_key k Compact @ render Compact d x @ ?rest, a + 1) = Ok ((o1, k), (render Compact d x @ ?rest, b1))"
    by blast
  have "k \<notin> set (map fst (members @ [(key, y)]))" using Cons.prems(2) by (auto simp: m)
  with admit_eq(1) [OF Cons.prems(3), of y k] obtain seen' where
    adm: "admit (members @ [(key, y)]) seen k = Some seen'" by (cases "admit (members @ [(key, y)]) seen k") auto
  have step: "doc_close (FObject members key seen # frames) y
      (COMMA # write_key k Compact @ render Compact d x @ ?rest, a) =
      doc_value (FObject (members @ [(key, y)]) k seen' # frames) (render Compact d x @ ?rest, b1)"
    by (subst doc_close.simps) (simp add: skip_none eat_head key [simplified] adm)
  have "ends_number ?rest" by (cases ms) auto
  with readsD [OF x, of ?rest "FObject (members @ [(key, y)]) k seen' # frames" d b1] obtain b where
    b: "doc_value (FObject (members @ [(key, y)]) k seen' # frames) (render Compact d x @ ?rest, b1) =
      doc_close (FObject (members @ [(key, y)]) k seen' # frames) x (?rest, b)" by auto
  have "distinct (map fst (members @ [(key, y)]) @ k # map fst ms)" using Cons.prems(2) by (simp add: m)
  from Cons.IH [OF _ this admit_eq(2) [OF Cons.prems(3) adm], of x b] Cons.prems(1) step b show ?case
    by (simp add: m)
qed

lemma separated_compact: "separated Compact d (t # ts) = t @ concat (map ((#) COMMA) ts)"
proof -
  have "concat (map ((@) [COMMA]) ts) = concat (map ((#) COMMA) ts)" by (induction ts) auto
  then show ?thesis by (simp add: separated_def separator_def)
qed

lemma reads_scalar:
  assumes "\<And>d. render Compact d v = t" "\<And>r a. ends_number r \<Longrightarrow> \<exists>b. scan_scalar (t @ r, a) = Ok (v, (r, b))"
    and "t \<noteq> []" "hd t \<notin> {0x20, 0x09, 0x0A, 0x0D, LBRACK, LBRACE}"
  shows "reads v"
  unfolding reads_def
proof (intro allI impI)
  fix frames r a d assume "ends_number r"
  with assms(2) obtain b where b: "scan_scalar (t @ r, a) = Ok (v, (r, b))" by blast
  obtain c cs where t: "t = c # cs" using assms(3) by (cases t) auto
  have "doc_value frames (t @ r, a) = doc_close frames v (r, b)"
    using assms(4) b by (subst doc_value.simps) (simp add: t skip_none peek_def)
  then show "\<exists>b. doc_value frames (render Compact d v @ r, a) = doc_close frames v (r, b)"
    by (auto simp: assms(1))
qed

lemma reads_literal:
  assumes "scan_scalar (ascii w @ r, a) = scan_literal w v (ascii w @ r, a)"
  shows "\<exists>b. scan_scalar (ascii w @ r, a) = Ok (v, (r, b))"
proof -
  have "strip_prefix (ascii w) (ascii w @ r) = Some r" by (simp add: strip_prefix_Some)
  then show ?thesis by (simp add: assms scan_literal_def)
qed

lemma reads_array:
  assumes "wf_json (JArray items)" "\<forall>x \<in> set items. reads x"
  shows "reads (JArray items)"
  unfolding reads_def
proof (intro allI impI)
  fix frames r a d assume r: "ends_number r"
  show "\<exists>b. doc_value frames (render Compact d (JArray items) @ r, a) = doc_close frames (JArray items) (r, b)"
  proof (cases items)
    case Nil
    have "doc_value frames (LBRACK # RBRACK # r, a) = doc_close frames (JArray []) (r, a + 1 + 1)"
      by (subst doc_value.simps) (simp add: skip_none peek_def bump_def eat_head)
    then show ?thesis by (auto simp: Nil)
  next
    case (Cons y ys)
    let ?rest = "concat (map (\<lambda>x. COMMA # render Compact (d + 1) x) ys) @ RBRACK # r"
    have written: "render Compact d (JArray items) @ r = LBRACK # render Compact (d + 1) y @ ?rest"
      by (simp add: Cons separated_compact close_container_def comp_def)
    obtain c cs where c: "render Compact (d + 1) y = c # cs" "c \<notin> {0x20, 0x09, 0x0A, 0x0D}" "c \<noteq> RBRACK"
      using render_head [of y "d + 1"] assms(1) by (auto simp: Cons)
    have skip: "skip_whitespace (c # zs, n) = (c # zs, n)" for zs n using c(2) by (rule skip_none)
    have "doc_value frames (LBRACK # render Compact (d + 1) y @ ?rest, a) =
        doc_value (FArray [] # frames) (render Compact (d + 1) y @ ?rest, a + 1)"
      unfolding c(1) append_Cons
      by (subst doc_value.simps) (simp add: skip_none [of LBRACK] skip c(3) peek_def bump_def eat_head)
    moreover have "ends_number ?rest" by (cases ys) auto
    then obtain b where "doc_value (FArray [] # frames) (render Compact (d + 1) y @ ?rest, a + 1) =
        doc_close (FArray [] # frames) y (?rest, b)"
      using readsD assms(2) Cons by (metis list.set_intros(1))
    moreover obtain b' where "doc_close (FArray [] # frames) y (?rest, b) = doc_close frames (JArray (y # ys)) (r, b')"
      using close_array [of ys "[]" frames y "d + 1" r b] assms(2) Cons by auto
    ultimately show ?thesis unfolding written by (auto simp: Cons)
  qed
qed

lemma reads_object:
  assumes "wf_json (JObject members)" "\<forall>m \<in> set members. (\<forall>c \<in> set (fst m). is_scalar c) \<and> reads (snd m)"
  shows "reads (JObject members)"
  unfolding reads_def
proof (intro allI impI)
  fix frames r a d assume r: "ends_number r"
  show "\<exists>b. doc_value frames (render Compact d (JObject members) @ r, a) = doc_close frames (JObject members) (r, b)"
  proof (cases members)
    case Nil
    have "doc_value frames (LBRACE # RBRACE # r, a) = doc_close frames (JObject []) (r, a + 1 + 1)"
      by (subst doc_value.simps) (simp add: skip_none peek_def bump_def eat_head)
    then show ?thesis by (auto simp: Nil)
  next
    case (Cons m ms)
    obtain k y where m: "m = (k, y)" by (cases m)
    let ?rest = "concat (map (\<lambda>m. COMMA # write_key (fst m) Compact @ render Compact (d + 1) (snd m)) ms) @ RBRACE # r"
    have written: "render Compact d (JObject members) @ r = LBRACE # write_key k Compact @ render Compact (d + 1) y @ ?rest"
      by (simp add: Cons m separated_compact close_container_def comp_def)
    have k: "\<forall>c \<in> set k. is_scalar c" "reads y" using assms(2) by (auto simp: Cons m)
    from scan_key_text [OF k(1), of "render Compact (d + 1) y @ ?rest" "a + 1"] obtain o1 b1 where
      key: "scan_key (write_key k Compact @ render Compact (d + 1) y @ ?rest, a + 1) =
        Ok ((o1, k), (render Compact (d + 1) y @ ?rest, b1))" by blast
    have "\<exists>cs. write_key k Compact = QUOTE # cs" by (simp add: write_key_def write_string_def)
    then obtain cs where q: "write_key k Compact = QUOTE # cs" by blast
    have "doc_value frames (LBRACE # write_key k Compact @ render Compact (d + 1) y @ ?rest, a) =
        doc_value (FObject [] k None # frames) (render Compact (d + 1) y @ ?rest, b1)"
      using key unfolding q append_Cons by (subst doc_value.simps) (simp add: skip_none peek_def bump_def eat_head)
    moreover have "ends_number ?rest" by (cases ms) auto
    then obtain b where "doc_value (FObject [] k None # frames) (render Compact (d + 1) y @ ?rest, b1) =
        doc_close (FObject [] k None # frames) y (?rest, b)"
      using readsD k(2) by blast
    moreover have "distinct (map fst [] @ k # map fst ms)" "seen_ok [] k None"
      using assms(1) by (simp_all add: Cons m seen_ok_def)
    then obtain b' where "doc_close (FObject [] k None # frames) y (?rest, b) =
        doc_close frames (JObject (m # ms)) (r, b')"
      using close_object [of ms "[]" k None frames y "d + 1" r b] assms(2) by (auto simp: Cons m)
    ultimately show ?thesis unfolding written by (auto simp: Cons)
  qed
qed

lemma reads_wf: "wf_json v \<Longrightarrow> reads v"
proof (induction v rule: measure_induct_rule [of size])
  case (less v)
  show ?case
  proof (cases v)
    case JNull
    show ?thesis
      by (rule reads_scalar [of v "ascii ''null''"], simp add: JNull, unfold JNull, rule reads_literal)
        (simp_all add: scan_scalar_def peek_def is_digit_def)
  next
    case (JBool b)
    show ?thesis
      by (rule reads_scalar [of v "ascii (if b then ''true'' else ''false'')"], simp add: JBool, unfold JBool,
          rule reads_literal)
        (cases b; simp add: scan_scalar_def peek_def is_digit_def)+
  next
    case (JNumber t)
    with less.prems have num: "number_new t = Ok t" by simp
    note chars = number_new_chars [OF num]
    show ?thesis
    proof (rule reads_scalar [of v t])
      fix r a assume "ends_number r"
      with scan_number_extends [OF num] obtain b where "scan_number (t @ r, a) = Ok (t, (r, b))"
        unfolding ends_number_def by blast
      moreover have "hd t = MINUS \<or> is_digit (hd t)" "t \<noteq> []" using chars by auto
      then have "peek (t @ r, a) = Some (hd t)" "hd t \<noteq> QUOTE" by (cases t; auto simp: peek_def is_digit_def)+
      ultimately show "\<exists>b. scan_scalar (t @ r, a) = Ok (v, (r, b))" using chars by (simp add: scan_scalar_def JNumber)
    qed (use chars in \<open>auto simp: JNumber is_digit_def\<close>)
  next
    case (JString t)
    with less.prems have scalars: "\<forall>c \<in> set t. is_scalar c" by simp
    show ?thesis
    proof (rule reads_scalar [of v "write_string t Compact"])
      fix r a
      from scan_string_text [OF scalars] obtain b where "scan_string (write_string t Compact @ r, a) = Ok (t, (r, b))"
        by blast
      moreover have "peek (write_string t Compact @ r, a) = Some QUOTE" by (simp add: write_string_def peek_def)
      ultimately show "\<exists>b. scan_scalar (write_string t Compact @ r, a) = Ok (v, (r, b))"
        by (simp add: scan_scalar_def JString)
    qed (simp_all add: JString write_string_def)
  next
    case (JArray items)
    have items: "\<forall>x \<in> set items. reads x"
    proof
      fix x assume "x \<in> set items"
      with less.prems show "reads x" by (intro less.IH) (auto simp: JArray intro: size_item)
    qed
    then show ?thesis using reads_array less.prems by (simp add: JArray)
  next
    case (JObject members)
    have vals: "\<forall>m \<in> set members. (\<forall>c \<in> set (fst m). is_scalar c) \<and> reads (snd m)"
    proof
      fix m assume "m \<in> set members"
      with less.prems show "(\<forall>c \<in> set (fst m). is_scalar c) \<and> reads (snd m)"
        by (auto simp: JObject intro!: less.IH dest: size_member)
    qed
    then show ?thesis using reads_object less.prems by (simp add: JObject)
  qed
qed

section \<open>What is written can be shown\<close>

definition shows_safely :: "style \<Rightarrow> nat \<Rightarrow> bool" where
  "shows_safely style c \<longleftrightarrow> is_scalar c \<and> (is_terminal_control c \<longrightarrow> style = Human \<and> c = 0x0A)"

lemma safe_ascii: "0x20 \<le> c \<Longrightarrow> c < 0x7F \<Longrightarrow> shows_safely style c"
  by (auto simp: shows_safely_def is_scalar_def is_terminal_control_def)

lemma hex4_chars: "c \<in> set (hex4 u n) \<Longrightarrow> 0x30 \<le> c \<and> c < 0x67"
proof -
  have digit: "d < 16 \<Longrightarrow> 0x30 \<le> hex_digit u d \<and> hex_digit u d < 0x67" for d by (auto simp: hex_digit_def)
  have "c \<in> set (hex_text u m) \<Longrightarrow> 0x30 \<le> c \<and> c < 0x67" for m
  proof (induction m rule: less_induct)
    case (less m)
    show ?case
      using less.prems less.IH [of "m div 16"] by (subst (asm) hex_text.simps) (auto simp: digit split: if_splits)
  qed
  then show "c \<in> set (hex4 u n) \<Longrightarrow> 0x30 \<le> c \<and> c < 0x67" by (auto simp: hex4_def)
qed

lemma write_control_safe: "c \<in> set (write_control x style) \<Longrightarrow> shows_safely style c"
  by (rule safe_ascii) (auto simp: write_control_def dest: hex4_chars split: style.splits)

lemma write_string_safe:
  assumes "\<forall>c \<in> set t. is_scalar c"
  shows "\<forall>c \<in> set (write_string t style). shows_safely style c"
proof -
  have "\<forall>c \<in> set (write_chars style t). shows_safely style c"
    using assms
  proof (induction t)
    case (Cons x t)
    have "shows_safely style x" if "\<not> is_terminal_control x" using Cons.prems that by (simp add: shows_safely_def)
    moreover have "shows_safely style QUOTE" "shows_safely style BACKSLASH" by (simp_all add: safe_ascii)
    ultimately show ?case using Cons write_control_safe [of _ x style] by auto
  qed simp
  then show ?thesis by (simp add: write_string_def safe_ascii)
qed

lemma write_key_safe:
  "\<forall>c \<in> set k. is_scalar c \<Longrightarrow> c \<in> set (write_key k style) \<Longrightarrow> shows_safely style c"
  using write_string_safe [of k style] by (auto simp: write_key_def safe_ascii split: if_splits)

lemma separator_safe: "c \<in> set (separator first style d) \<Longrightarrow> shows_safely style c"
  by (auto simp: separator_def safe_ascii split: if_splits) (auto simp: shows_safely_def is_scalar_def)

lemma close_container_safe: "shows_safely style k \<Longrightarrow> c \<in> set (close_container k style d) \<Longrightarrow> shows_safely style c"
  using separator_safe [of c True style d] by (auto simp: close_container_def split: if_splits)

lemma separated_safe:
  "\<forall>t \<in> set ts. \<forall>c \<in> set t. shows_safely style c \<Longrightarrow> c \<in> set (separated style d ts) \<Longrightarrow> shows_safely style c"
  using separator_safe [of c _ style d] by (auto simp: separated_def split: list.splits if_splits)

lemma numchar_safe: "numchar c \<Longrightarrow> shows_safely style c"
  by (rule safe_ascii) (auto simp: numchar_def is_digit_def)

lemma render_safe: "wf_json v \<Longrightarrow> c \<in> set (render style d v) \<Longrightarrow> shows_safely style c"
proof (induction v arbitrary: c d rule: wf_json.induct)
  case (3 t)
  then show ?case using number_new_chars [of t] numchar_safe by auto
next
  case (4 t)
  then show ?case using write_string_safe [of t style] by simp
next
  case (5 items)
  then have "\<forall>t \<in> set (map (render style (d + 1)) items). \<forall>c \<in> set t. shows_safely style c" by auto
  from separated_safe [OF this, of c "d + 1"] 5(3) show ?case
    using close_container_safe [of style RBRACK c d] by (auto simp: safe_ascii split: if_splits)
next
  case (6 ms)
  then have "\<forall>t \<in> set (map (\<lambda>m. write_key (fst m) style @ render style (d + 1) (snd m)) ms). \<forall>c \<in> set t. shows_safely style c"
    by (auto dest: write_key_safe [rotated] simp: ball_Un)
  from separated_safe [OF this, of c "d + 1"] 6(3) show ?case
    using close_container_safe [of style RBRACE c d] by (auto simp: safe_ascii split: if_splits)
qed (auto simp: safe_ascii split: if_splits)

section \<open>What is read is well formed\<close>

text \<open>The text still to read is valid text, and every step leaves such text.\<close>

definition scalars :: "scanner \<Rightarrow> bool" where
  "scalars s \<longleftrightarrow> (\<forall>c \<in> set (fst s). is_scalar c)"

named_theorems keeps_scalars

lemma scalars_tl: "scalars s \<Longrightarrow> scalars (tl (fst s), n)"
  by (cases "fst s") (auto simp: scalars_def)

lemma scalars_bump [keeps_scalars]: "scalars s \<Longrightarrow> scalars (bump s)"
  by (simp add: bump_def scalars_tl)

lemma scalars_peek: "scalars s \<Longrightarrow> peek s = Some c \<Longrightarrow> is_scalar c"
  by (auto simp: scalars_def peek_def split: list.splits)

lemma scalars_eat [keeps_scalars]: "eat b s = (f, s') \<Longrightarrow> scalars s \<Longrightarrow> scalars s'"
  by (auto simp: eat_def Let_def intro: scalars_bump split: if_splits)

lemma scalars_skip [keeps_scalars]: "scalars s \<Longrightarrow> scalars (skip_whitespace s)"
proof -
  have "set (fst (skip_from cs at)) \<subseteq> set cs" for cs at
    by (induction cs at rule: skip_from.induct) auto
  then show "scalars s \<Longrightarrow> scalars (skip_whitespace s)" by (force simp: scalars_def skip_whitespace_def)
qed

lemma scalars_hex: "hex_loop n e v s = Ok (w, s') \<Longrightarrow> scalars s \<Longrightarrow> scalars s'"
  by (induction n e v s rule: hex_loop.induct) (auto intro: scalars_bump split: option.splits)

lemma scan_unicode_scalar:
  assumes run: "scan_unicode start s = Ok (c, s')" and s: "scalars s"
  shows "is_scalar c \<and> scalars s'"
proof -
  from run obtain first s1 where s1: "scan_hex start s = Ok (first, s1)"
    by (auto simp: scan_unicode_def Let_def and_then_eq_Inr)
  then have s1s: "scalars s1" using scalars_hex s unfolding scan_hex_def by blast
  have c: "is_scalar c" using run by (auto simp: scan_unicode_def Let_def and_then_eq_Inr split: if_splits prod.splits)
  show ?thesis
  proof (cases "0xD800 \<le> first \<and> first \<le> 0xDBFF")
    case False
    with run s1 have "s' = s1" by (auto simp: scan_unicode_def Let_def split: if_splits)
    with s1s c show ?thesis by simp
  next
    case True
    with run s1 obtain s2 s3 second where
      "eat BACKSLASH s1 = (True, s2)" "eat 0x75 s2 = (True, s3)" "scan_hex (snd s1) s3 = Ok (second, s')"
      by (auto simp: scan_unicode_def Let_def and_then_eq_Inr split: if_splits prod.splits)
    with s1s c show ?thesis unfolding scan_hex_def by (meson scalars_eat scalars_hex)
  qed
qed

lemma scan_escape_scalar:
  assumes "scan_escape s = Ok (c, s')" and "scalars s"
  shows "is_scalar c \<and> scalars s'"
  using assms scan_unicode_scalar [of "snd s" "bump (bump s)" c s'] scalars_bump [OF scalars_bump [OF assms(2)]]
  by (auto simp: scan_escape_def Let_def is_scalar_def split: option.splits if_splits)

lemma scan_string_scalars:
  "scan_string_from acc s = Ok (t, s') \<Longrightarrow> scalars s \<Longrightarrow> \<forall>c \<in> set acc. is_scalar c \<Longrightarrow>
   (\<forall>c \<in> set t. is_scalar c) \<and> scalars s'"
proof (induction acc s rule: scan_string_from.induct)
  case (1 acc s)
  from 1(3) obtain c where c: "peek s = Some c"
    by (subst (asm) scan_string_from.simps) (auto split: option.splits)
  show ?case
  proof (cases "c \<noteq> QUOTE \<and> c \<noteq> BACKSLASH \<and> 0x20 \<le> c")
    case True
    with 1(3) c have "scan_string_from (acc @ [c]) (tl (fst s), snd s + utf8_width c) = Ok (t, s')"
      by (subst (asm) scan_string_from.simps) simp
    from 1(1) [OF c True this scalars_tl [OF 1(4)]] 1(5) scalars_peek [OF 1(4) c] show ?thesis by simp
  next
    case False
    show ?thesis
    proof (cases "c = BACKSLASH")
      case True
      with 1(3) c obtain r where r: "scan_escape s = Ok r" "scan_string_from (acc @ [fst r]) (snd r) = Ok (t, s')"
        by (subst (asm) scan_string_from.simps) (auto simp: and_then_eq_Inr)
      have "is_scalar (fst r) \<and> scalars (snd r)" using scan_escape_scalar [of s "fst r" "snd r"] r(1) 1(4) by simp
      with 1(2) [OF c False _ True r] 1(5) True show ?thesis by simp
    next
      case nb: False
      with False 1(3) c have "s' = bump s" "t = acc"
        by (subst (asm) scan_string_from.simps, auto split: if_splits)+
      with 1(4,5) show ?thesis by (simp add: scalars_bump)
    qed
  qed
qed

lemma scan_number_scalars: "scan_number s = Ok (t, s') \<Longrightarrow> scalars s \<Longrightarrow> scalars s'"
  using scan_number_local(1) [of s t s'] by (auto simp: scalars_def)

lemma scan_scalar_wf: "scan_scalar s = Ok (v, s') \<Longrightarrow> scalars s \<Longrightarrow> wf_json v \<and> scalars s'"
proof -
  assume run: "scan_scalar s = Ok (v, s')" and s: "scalars s"
  have literal: "v = w \<and> scalars s'" if "scan_literal word w s = Ok (v, s')" for word w
    using that s by (auto simp: scan_literal_def scalars_def strip_prefix_Some split: option.splits)
  from run consider t where "scan_string s = Ok (t, s')" "v = JString t"
    | t where "scan_number s = Ok (t, s')" "v = JNumber t"
    | word w where "scan_literal word w s = Ok (v, s')" "wf_json w"
    by (auto simp: scan_scalar_def and_then_eq_Inr split: option.splits if_splits)
  then show ?thesis
  proof cases
    case (1 t)
    then show ?thesis
      using scan_string_scalars [of "[]" "bump s" t s'] scalars_bump [OF s] by (simp add: scan_string_def)
  qed (use s literal scan_number_scalars scan_number_valid in auto)
qed

lemma scan_key_scalars: "scan_key s = Ok (k, s') \<Longrightarrow> scalars s \<Longrightarrow> (\<forall>c \<in> set (snd k). is_scalar c) \<and> scalars s'"
proof -
  assume run: "scan_key s = Ok (k, s')" and s: "scalars s"
  from run obtain r where r: "scan_string (skip_whitespace s) = Ok r" and k: "snd k = fst r"
    and s': "eat COLON (skip_whitespace (snd r)) = (True, s')"
    by (auto simp: scan_key_def Let_def and_then_eq_Inr split_beta prod_eq_iff split: if_splits)
  have "(\<forall>c \<in> set (fst r). is_scalar c) \<and> scalars (snd r)"
    using scan_string_scalars [of "[]" "bump (skip_whitespace s)" "fst r" "snd r"] r
    by (simp add: scan_string_def scalars_bump scalars_skip s)
  with s' show ?thesis by (auto simp: k intro: scalars_eat scalars_skip)
qed

text \<open>What an open container has gathered so far.\<close>

fun frame_ok :: "frame \<Rightarrow> bool" where
  "frame_ok (FArray items) \<longleftrightarrow> (\<forall>x \<in> set items. wf_json x)"
| "frame_ok (FObject members key seen) \<longleftrightarrow>
     wf_json (JObject members) \<and> (\<forall>c \<in> set key. is_scalar c) \<and> key \<notin> set (map fst members) \<and> seen_ok members key seen"

lemma doc_wf:
  "doc_value frames s = Ok v \<Longrightarrow> \<forall>f \<in> set frames. frame_ok f \<Longrightarrow> scalars s \<Longrightarrow> wf_json v"
  "doc_close frames w s = Ok v \<Longrightarrow> \<forall>f \<in> set frames. frame_ok f \<Longrightarrow> scalars s \<Longrightarrow> wf_json w \<Longrightarrow> wf_json v"
proof (induction frames s and frames w s rule: doc_value_doc_close.induct)
  case (1 frames s0)
  let ?s = "skip_whitespace s0"
  have s: "scalars ?s" using 1 by (simp add: scalars_skip)
  have opened: "scalars s'" if "eat b (skip_whitespace (bump ?s)) = (f, s')" for b f s'
    using that s by (meson scalars_eat scalars_skip scalars_bump)
  note run = 1(6) [unfolded doc_value.simps [of frames s0] Let_def]
  show ?case
  proof (cases "peek ?s = Some LBRACK")
    case arr: True
    obtain f s' where e: "eat RBRACK (skip_whitespace (bump ?s)) = (f, s')" by (metis surj_pair)
    show ?thesis
      using 1(1) [OF refl arr e [symmetric]] 1(2) [OF refl arr e [symmetric]] run arr e opened [OF e] 1(7)
      by (cases f) auto
  next
    case no_arr: False
    show ?thesis
    proof (cases "peek ?s = Some LBRACE")
      case obj: True
      obtain f s' where e: "eat RBRACE (skip_whitespace (bump ?s)) = (f, s')" by (metis surj_pair)
      show ?thesis
      proof (cases f)
        case True
        then show ?thesis using 1(3) [OF refl no_arr obj e [symmetric]] run obj e opened [OF e] 1(7) by auto
      next
        case False
        then have f: "f = False" by simp
        with run obj e obtain k s'' where k: "scan_key s' = Ok (k, s'')"
          "doc_value (FObject [] (snd k) None # frames) s'' = Ok v" by (auto split: sum.splits)
        from scan_key_scalars [OF k(1) opened [OF e]]
          1(4) [OF refl no_arr obj e [symmetric, unfolded f] refl k(1) refl k(2)]
        show ?thesis using 1(7) by (auto simp: seen_ok_def)
      qed
    next
      case no_obj: False
      with no_arr run obtain w s' where w: "scan_scalar ?s = Ok (w, s')" "doc_close frames w s' = Ok v"
        by (auto split: sum.splits)
      from 1(5) [OF refl no_arr no_obj w(1) refl w(2)] scan_scalar_wf [OF w(1) s] 1(7) show ?thesis by simp
    qed
  qed
next
  case (2 frames w s0)
  let ?s = "skip_whitespace s0"
  have s: "scalars ?s" using 2 by (simp add: scalars_skip)
  note run = 2(5) [unfolded doc_close.simps [of frames w s0] Let_def]
  show ?case
  proof (cases frames)
    case Nil
    with run 2(8) show ?thesis by (auto split: if_splits)
  next
    case (Cons f outer)
    obtain comma s1 where comma: "eat COMMA ?s = (comma, s1)" by (metis surj_pair)
    have s1: "scalars s1" by (rule scalars_eat [OF comma s])
    have outer: "\<forall>f \<in> set outer. frame_ok f" "frame_ok f" using 2(6) by (simp_all add: Cons)
    show ?thesis
    proof (cases f)
      case (FArray items)
      show ?thesis
      proof (cases comma)
        case True
        with run comma show ?thesis
          using 2(1) [OF refl Cons FArray comma [symmetric]] outer s1 2(8) by (auto simp: Cons FArray)
      next
        case False
        then have c: "comma = False" by simp
        obtain shut s2 where shut: "eat RBRACK ?s = (shut, s2)" by (metis surj_pair)
        from run comma False shut have "shut" "doc_close outer (JArray (items @ [w])) s2 = Ok v"
          by (auto simp: Cons FArray split: if_splits bool.splits)
        with 2(2) [OF refl Cons FArray comma [symmetric, unfolded c] refl shut [symmetric]] outer 2(8)
          scalars_eat [OF shut s] show ?thesis by (auto simp: FArray)
      qed
    next
      case (FObject members key seen)
      show ?thesis
      proof (cases comma)
        case True
        then have c: "comma = True" by simp
        with run comma obtain k s2 seen' where k: "scan_key s1 = Ok (k, s2)"
          "admit (members @ [(key, w)]) seen (snd k) = Some seen'"
          "doc_value (FObject (members @ [(key, w)]) (snd k) seen' # outer) s2 = Ok v"
          by (auto simp: Cons FObject split: sum.splits option.splits)
        have "seen_ok members key seen" using outer(2) by (simp add: FObject)
        note adm = admit_eq(1) [OF this, of w "snd k"] admit_eq(2) [OF this k(2)]
        from 2(3) [OF refl Cons FObject comma [symmetric, unfolded c] refl k(1) refl k(2) k(3)]
          scan_key_scalars [OF k(1) s1] adm k(2) outer 2(8) show ?thesis by (auto simp: FObject)
      next
        case False
        then have c: "comma = False" by simp
        obtain shut s2 where shut: "eat RBRACE ?s = (shut, s2)" by (metis surj_pair)
        from run comma False shut have "shut" "doc_close outer (JObject (members @ [(key, w)])) s2 = Ok v"
          by (auto simp: Cons FObject split: if_splits bool.splits)
        with 2(4) [OF refl Cons FObject comma [symmetric, unfolded c] refl shut [symmetric]] outer 2(8)
          scalars_eat [OF shut s] show ?thesis by (auto simp: FObject)
      qed
    qed
  qed
qed

lemma wf_inside: "inside v w \<Longrightarrow> wf_json v \<Longrightarrow> wf_json w"
proof (induction rule: inside.induct)
  case (inside_child w x)
  then show ?case by (cases w) auto
qed simp

section \<open>The promises\<close>

lemma scan_write:
  assumes "wf_json v" and "length (utf8_bytes (write_compact v)) \<le> MAX_REPLY_BYTES"
  shows "scan (map of_nat (utf8_bytes (write_compact v))) = Ok v"
proof -
  have written: "write_compact v = render Compact 0 v" by (simp add: write_compact_def write_value_render)
  have scalars: "\<forall>c \<in> set (write_compact v). is_scalar c"
    using render_safe [OF assms(1)] by (auto simp: written shows_safely_def)
  have "b < 256" if "b \<in> set (utf8_bytes (write_compact v))" for b
    using that scalars encode_utf8_byte by (auto simp: utf8_bytes_def)
  then have bytes: "map unat (map (of_nat :: nat \<Rightarrow> u8) (utf8_bytes (write_compact v))) = utf8_bytes (write_compact v)"
    unfolding map_map comp_def by (intro map_idI) (simp add: unat_of_nat)
  obtain b where "doc_value [] (render Compact 0 v @ [], 0) = doc_close [] v ([], b)"
    using readsD [OF reads_wf [OF assms(1)], of "[]" "[]" 0 0] by auto
  then have "doc_value [] (write_compact v, 0) = Ok v"
    by (simp add: written doc_close.simps skip_whitespace_def)
  with assms(2) show ?thesis
    unfolding scan_def bytes by (simp add: from_utf8_bytes [OF scalars])
qed

text \<open>
  C14. What is written compactly is read back as the same value, whatever well-formed value it is, as
  long as its text fits the bound on a reply: escapes, control characters, numbers and nested containers
  included.\<close>

theorem scan_write_roundtrip:
  assumes "wf_json v" and "length (utf8_bytes (write_compact v)) \<le> MAX_REPLY_BYTES"
  shows "scan (map of_nat (utf8_bytes (write_compact v))) = Ok v"
  using assms by (rule scan_write)

theorem scan_write_roundtrip_witness:
  "scan (map of_nat (utf8_bytes (write_compact (JArray [JString [0x22, 0x07, 0x1F600], JNull])))) =
     Ok (JArray [JString [0x22, 0x07, 0x1F600], JNull])"
proof (rule scan_write_roundtrip)
  show "wf_json (JArray [JString [0x22, 0x07, 0x1F600], JNull])" by (simp add: is_scalar_def)
  show "length (utf8_bytes (write_compact (JArray [JString [0x22, 0x07, 0x1F600], JNull]))) \<le> MAX_REPLY_BYTES"
    by (simp add: MAX_REPLY_BYTES_def write_compact_def write_value_render separated_def separator_def
        close_container_def write_string_def write_control_def is_terminal_control_def hex4_def hex_text.simps hex_digit_def
        numeral_3_eq_3 utf8_bytes_def utf8_width_def)
qed

text \<open>
  C15. Whatever bytes arrive, a value that \<open>scan\<close> returns is well formed all the way down: its numbers
  follow the grammar, its text is made of scalar values with no lone surrogate, and no object in it
  repeats a key, which \<open>repeats_a_key\<close> therefore confirms; and the bytes were within the bound.\<close>

theorem scan_well_formed:
  assumes "scan bytes = Ok v"
  shows "wf_json v \<and> \<not> repeats_a_key v \<and> length bytes \<le> MAX_REPLY_BYTES"
proof -
  from assms obtain cs where cs: "from_utf8 0 (map unat bytes) = Ok cs" "doc_value [] (cs, 0) = Ok v"
    and len: "length bytes \<le> MAX_REPLY_BYTES"
    by (auto simp: scan_def and_then_eq_Inr map_err_eq_Inr split: if_splits)
  from from_utf8_scalars [OF cs(1)] have "scalars (cs, 0)" by (simp add: scalars_def)
  with doc_wf(1) [OF cs(2)] have wf: "wf_json v" by simp
  moreover have "\<not> repeats_a_key v"
    using wf_inside [OF _ wf, of "JObject _"] by (auto simp: repeats_a_key_def repeats_a_key_loop_eq)
  ultimately show ?thesis using len by simp
qed

theorem scan_well_formed_witness:
  "scan (map of_nat [0x5B, 0x2D, 0x31, 0x5D]) = Ok (JArray [JNumber [0x2D, 0x31]]) \<and>
   wf_json (JArray [JNumber [0x2D, 0x31]]) \<and> \<not> repeats_a_key (JArray [JNumber [0x2D, 0x31]])"
proof -
  have run: "scan (map of_nat [0x5B, 0x2D, 0x31, 0x5D]) = Ok (JArray [JNumber [0x2D, 0x31]])"
    by (simp add: scan_def MAX_REPLY_BYTES_def from_utf8.simps doc_value.simps doc_close.simps skip_whitespace_def
        peek_def bump_def eat_def Let_def scan_scalar_def scan_number_def number_int_def number_fraction_def
        number_exponent_def digits_def is_digit_def between_def)
  with scan_well_formed [OF run] show ?thesis by blast
qed

text \<open>
  Nothing written drives a terminal: whatever text a reply carried, the compact form holds no control
  or direction character at all, and the indented form only its own line breaks.\<close>

theorem written_is_safe:
  assumes "wf_json v"
  shows "(\<forall>c \<in> set (write_compact v). \<not> is_terminal_control c) \<and>
    (\<forall>c \<in> set (write_human v). is_terminal_control c \<longrightarrow> c = 0x0A)"
  using render_safe [OF assms, of _ _ 0]
  by (auto simp: write_compact_def write_human_def write_value_render shows_safely_def)

theorem written_is_safe_witness: "0x1B \<notin> set (write_compact (JString [0x1B, 0x5B]))"
  using written_is_safe [of "JString [0x1B, 0x5B]"] by (auto simp: is_scalar_def is_terminal_control_def)

text \<open>
  The loops that replace recursion compute what the recursion would: the writer writes the value's
  rendering at every depth, comparison is equality, and the search for a repeated key finds exactly the
  objects, at any depth, whose keys are not distinct.\<close>

theorem loops_are_recursions:
  "write_value v style depth = render style depth v \<and> (json_eq v w \<longleftrightarrow> v = w) \<and>
   (repeats_a_key v \<longleftrightarrow> (\<exists>members. inside v (JObject members) \<and> \<not> distinct (map fst members)))"
  by (simp add: write_value_render json_eq_def json_eq_loop_all repeats_a_key_def repeats_a_key_loop_eq)

end
