(* ===== verification/Client_Error.thy ===== *)
theory Client_Error
  imports Json Ip_Addr
begin

text \<open>
  The client's refusals: the exit statuses and codes of \<open>crates/plasmosome-cli/src/codes.rs\<close>, the two
  error bodies of \<open>envelope.rs\<close> with the checks of their constructors, and \<open>refusal.rs\<close>, which turns
  a refusal of the private-socket checks into one of the client's. Every string is its text; a path is
  its text after the lossy conversion the code shows it with.
\<close>

section \<open>Exit statuses and codes\<close>

datatype exit_status = XDone | XUnavailable | XRefused | XOutcomeUnknown | XUsage | XInternal

fun exit_code :: "exit_status \<Rightarrow> u8" where
  "exit_code XDone = 0"
| "exit_code XUnavailable = 1"
| "exit_code XRefused = 2"
| "exit_code XOutcomeUnknown = 3"
| "exit_code XUsage = 64"
| "exit_code XInternal = 70"

datatype client_code =
    InvalidArgument | NotServed | InvalidHome | NoInstance | NotRunning | Unreachable | DeadlinePassed
  | Transport | LocalIo | NoReply | OutcomeUnknown | AmbiguousInstance | UnsafeSocket | PeerMismatchCode
  | SocketPathTooLong | ReplyTooLarge | BadReply | InternalFailure

definition ALL_CODES :: "client_code list" where
  "ALL_CODES =
     [InvalidArgument, NotServed, InvalidHome, NoInstance, NotRunning, Unreachable, DeadlinePassed,
      Transport, LocalIo, NoReply, OutcomeUnknown, AmbiguousInstance, UnsafeSocket, PeerMismatchCode,
      SocketPathTooLong, ReplyTooLarge, BadReply, InternalFailure]"

fun code_str :: "client_code \<Rightarrow> string" where
  "code_str InvalidArgument = ''invalid_argument''"
| "code_str NotServed = ''not_served''"
| "code_str InvalidHome = ''invalid_home''"
| "code_str NoInstance = ''no_instance''"
| "code_str NotRunning = ''not_running''"
| "code_str Unreachable = ''unreachable''"
| "code_str DeadlinePassed = ''deadline''"
| "code_str Transport = ''transport''"
| "code_str LocalIo = ''local_io''"
| "code_str NoReply = ''no_reply''"
| "code_str OutcomeUnknown = ''outcome_unknown''"
| "code_str AmbiguousInstance = ''ambiguous_instance''"
| "code_str UnsafeSocket = ''unsafe_socket''"
| "code_str PeerMismatchCode = ''peer_mismatch''"
| "code_str SocketPathTooLong = ''socket_path_too_long''"
| "code_str ReplyTooLarge = ''reply_too_large''"
| "code_str BadReply = ''bad_reply''"
| "code_str InternalFailure = ''internal''"

fun code_exit :: "client_code \<Rightarrow> exit_status" where
  "code_exit InvalidArgument = XUsage"
| "code_exit NoInstance = XUnavailable"
| "code_exit NotRunning = XUnavailable"
| "code_exit Unreachable = XUnavailable"
| "code_exit DeadlinePassed = XUnavailable"
| "code_exit Transport = XUnavailable"
| "code_exit LocalIo = XUnavailable"
| "code_exit NoReply = XUnavailable"
| "code_exit OutcomeUnknown = XOutcomeUnknown"
| "code_exit NotServed = XRefused"
| "code_exit InvalidHome = XRefused"
| "code_exit AmbiguousInstance = XRefused"
| "code_exit UnsafeSocket = XRefused"
| "code_exit PeerMismatchCode = XRefused"
| "code_exit SocketPathTooLong = XRefused"
| "code_exit ReplyTooLarge = XRefused"
| "code_exit BadReply = XInternal"
| "code_exit InternalFailure = XInternal"

section \<open>Error bodies\<close>

record client_error =
  ce_code :: client_code
  ce_message :: utext
  ce_fields :: "(utext \<times> json) list"

definition client_error_new ::
  "client_code \<Rightarrow> utext \<Rightarrow> (utext \<times> json) list \<Rightarrow> (utext \<times> json) list + client_error" where
  "client_error_new code message flds =
     (if list_ex (\<lambda>i. (let (key, v) = flds ! i in
            key \<in> {ascii ''domain'', ascii ''code'', ascii ''message''} \<or>
            member_of (take i flds) key \<noteq> None \<or> repeats_a_key v)) [0 ..< length flds]
      then Err flds
      else Ok \<lparr>ce_code = code, ce_message = message, ce_fields = flds\<rparr>)"

record kernel_error =
  ke_members :: "(utext \<times> json) list"

definition kernel_error_new :: "json \<Rightarrow> json + kernel_error" where
  "kernel_error_new e =
     (if repeats_a_key e then Err e
      else case e of
             JObject members \<Rightarrow>
               if member_of members (ascii ''domain'') = None then Ok \<lparr>ke_members = members\<rparr> else Err e
           | _ \<Rightarrow> Err e)"

section \<open>Refusals of the client\<close>

definition json_text :: "utext \<Rightarrow> json" where
  "json_text t = JString t"

text \<open>
  \<open>number(value)\<close> and \<open>refusal(...)\<close> end in \<open>expect\<close>. A panic is caught by \<open>handle\<close>, which reports
  one \<open>internal\<close> error; where the code would panic the model returns that error.
\<close>

definition show_int :: "int \<Rightarrow> string" where
  "show_int n = (if n < 0 then ''-'' @ show_nat (nat (- n)) else show_nat (nat n))"

definition json_number :: "int \<Rightarrow> json" where
  "json_number n = JNumber (ascii (show_int n))"

definition panicked :: client_error where
  "panicked = \<lparr>ce_code = InternalFailure, ce_message = ascii ''the client failed; please report it'', ce_fields = []\<rparr>"

definition refusal :: "client_code \<Rightarrow> utext \<Rightarrow> (string \<times> json) list \<Rightarrow> client_error" where
  "refusal code message flds =
     (case client_error_new code message (map (\<lambda>f. (ascii (fst f), snd f)) flds) of
        Inr e \<Rightarrow> e
      | Inl _ \<Rightarrow> panicked)"

definition at_path :: "utext \<Rightarrow> string \<times> json" where
  "at_path path = (''path'', json_text path)"

datatype path_origin = SocketFlag | Home

text \<open>\<open>PrivateSocketError\<close> of \<open>crates/plasmosome-core/src/private_socket.rs\<close>.\<close>

datatype private_socket_error =
    BadPath utext
  | SymlinkInPath utext
  | NoDirectory utext
  | NoSocket utext
  | NotDirectory utext
  | ForeignOwner utext u32
  | Replaceable utext u32
  | ReplaceableByAcl utext
  | OwnershipIgnored utext
  | NotPrivate utext u32
  | AclPresent utext
  | Replaced utext
  | BadName utext
  | PathTooLong utext nat
  | AddressInUse utext
  | NotASocket utext
  | SocketOwner utext u32
  | SocketMode utext u32
  | BindEscaped utext
  | PeerCredentials int
  | PeerMismatch u32 u32
  | SocketIo string utext int

text \<open>\<open>{mode:04o}\<close>.\<close>

fun octal :: "nat \<Rightarrow> utext" where
  "octal n = (if n < 8 then [0x30 + n] else octal (n div 8) @ [0x30 + n mod 8])"

declare octal.simps [simp del]

definition octal4 :: "u32 \<Rightarrow> utext" where
  "octal4 mode = replicate (4 - length (octal (unat mode))) 0x30 @ octal (unat mode)"

definition show_u32 :: "u32 \<Rightarrow> utext" where
  "show_u32 n = ascii (show_nat (unat n))"

text \<open>\<open>{name:?}\<close> escapes by the Unicode tables of the standard library, so its text is a parameter.\<close>

definition show_private_socket_error :: "(utext \<Rightarrow> utext) \<Rightarrow> private_socket_error \<Rightarrow> utext" where
  "show_private_socket_error dbg e =
     (case e of
        BadPath path \<Rightarrow>
          path @ ascii '' is not an absolute path of normal components (no empty, . or .. components)''
      | SymlinkInPath path \<Rightarrow>
          path @ ascii '' is a symlink; a private socket path must not pass through one''
      | NoDirectory path \<Rightarrow>
          path @ ascii '' does not exist''
      | NoSocket path \<Rightarrow>
          path @ ascii '' does not exist: no socket is bound at that name''
      | NotDirectory path \<Rightarrow>
          path @ ascii '' is not a directory''
      | ForeignOwner path uid \<Rightarrow>
          path @ ascii '' is owned by uid '' @ show_u32 uid @ ascii '', which is not trusted here''
      | Replaceable path mode \<Rightarrow>
          path @ ascii '' has mode '' @ octal4 mode @ ascii '': group or other can replace entries in it''
      | ReplaceableByAcl path \<Rightarrow>
          path @ ascii '' has an ACL allow entry granting add_file, add_subdirectory, delete_child, '' @
          ascii ''delete, writesecurity or chown; such an entry is refused on an ancestor whoever '' @
          ascii ''it names, even if it applies only to new children''
      | OwnershipIgnored path \<Rightarrow>
          path @ ascii '' is on a volume mounted with ownership ignored (noowners): its owner and mode '' @
          ascii ''do not keep other users out''
      | NotPrivate path mode \<Rightarrow>
          path @ ascii '' has mode '' @ octal4 mode @ ascii '': a private socket directory grants group and other nothing''
      | AclPresent path \<Rightarrow>
          path @ ascii '' carries an ACL: a private socket directory has none''
      | Replaced path \<Rightarrow>
          path @ ascii '' no longer names the directory that was opened''
      | BadName name \<Rightarrow>
          dbg name @ ascii '' is not a single path component''
      | PathTooLong path limit \<Rightarrow>
          path @ ascii ('' is longer than the '' @ show_nat limit @ '' bytes a socket address holds'')
      | AddressInUse path \<Rightarrow>
          path @ ascii '' already exists and is left untouched''
      | NotASocket path \<Rightarrow>
          path @ ascii '' is not a socket''
      | SocketOwner path uid \<Rightarrow>
          path @ ascii '' is owned by uid '' @ show_u32 uid @ ascii '', not by the trusted uid''
      | SocketMode path mode \<Rightarrow>
          path @ ascii '' has mode '' @ octal4 mode @ ascii '': a private socket is exactly 0600''
      | BindEscaped path \<Rightarrow>
          ascii ''the socket bound at '' @ path @
          ascii '' cannot be shown to be inside the directory that was opened''
      | PeerCredentials errno \<Rightarrow>
          ascii (''the kernel did not report the peer'' @ [CHR 0x27] @ ''s credentials (errno '' @ show_int errno @ '')'')
      | PeerMismatch trusted found \<Rightarrow>
          ascii ''the peer runs as uid '' @ show_u32 found @ ascii '', not the trusted uid '' @ show_u32 trusted
      | SocketIo what path errno \<Rightarrow>
          ascii (what @ '' failed at '') @ path @ ascii ('' (errno '' @ show_int errno @ '')''))"

definition unsafe_socket :: "utext \<Rightarrow> string \<Rightarrow> client_code \<times> (string \<times> json) list" where
  "unsafe_socket path rule = (UnsafeSocket, [at_path path, (''rule'', json_text (ascii rule))])"

text \<open>Quoted for a shell: each single quote closes the quoting, is quoted on its own, and reopens it.\<close>

definition chmod_700 :: "utext \<Rightarrow> utext" where
  "chmod_700 directory =
     ascii ''chmod 700 '' @ [0x27] @
     concat (map (\<lambda>c. if c = 0x27 then [0x27, 0x22, 0x27, 0x22, 0x27] else [c]) directory) @ [0x27]"

definition json_u32 :: "u32 \<Rightarrow> json" where
  "json_u32 n = json_number (int (unat n))"

fun refusal_of :: "utext \<Rightarrow> path_origin \<Rightarrow> u32 \<Rightarrow> private_socket_error \<Rightarrow> client_code \<times> (string \<times> json) list" where
  "refusal_of checked origin uid (BadPath _) =
     (case origin of
        SocketFlag \<Rightarrow> (InvalidArgument, [(''argument'', json_text checked)])
      | Home \<Rightarrow> (InvalidHome, []))"
| "refusal_of checked origin uid (SymlinkInPath path) = unsafe_socket path ''symlink''"
| "refusal_of checked origin uid (NoDirectory path) = (NoInstance, [at_path path])"
| "refusal_of checked origin uid (NoSocket path) = (NotRunning, [at_path path])"
| "refusal_of checked origin uid (NotDirectory path) = unsafe_socket path ''not_directory''"
| "refusal_of checked origin uid (ForeignOwner path _) = unsafe_socket path ''owner''"
| "refusal_of checked origin uid (Replaceable path _) = unsafe_socket path ''mode''"
| "refusal_of checked origin uid (ReplaceableByAcl path) = unsafe_socket path ''acl''"
| "refusal_of checked origin uid (OwnershipIgnored path) = unsafe_socket path ''owner''"
| "refusal_of checked origin uid (NotPrivate path _) =
     (let (code, flds) = unsafe_socket path ''mode'' in
      (code, flds @ [(''fix'', json_text (chmod_700 path))]))"
| "refusal_of checked origin uid (AclPresent path) = unsafe_socket path ''acl''"
| "refusal_of checked origin uid (Replaced _) = (InternalFailure, [])"
| "refusal_of checked origin uid (BadName _) = unsafe_socket checked ''name''"
| "refusal_of checked origin uid (PathTooLong path limit) =
     (SocketPathTooLong, [at_path path, (''max_bytes'', json_number (int limit))])"
| "refusal_of checked origin uid (AddressInUse _) = (InternalFailure, [])"
| "refusal_of checked origin uid (NotASocket path) = unsafe_socket path ''not_socket''"
| "refusal_of checked origin uid (SocketOwner path _) = unsafe_socket path ''owner''"
| "refusal_of checked origin uid (SocketMode path _) = unsafe_socket path ''mode''"
| "refusal_of checked origin uid (BindEscaped _) = (InternalFailure, [])"
| "refusal_of checked origin uid (PeerCredentials _) =
     (PeerMismatchCode, [at_path checked, (''uid'', json_u32 uid)])"
| "refusal_of checked origin uid (PeerMismatch _ found) =
     (PeerMismatchCode, [at_path checked, (''uid'', json_u32 uid), (''peer_uid'', json_u32 found)])"
| "refusal_of checked origin uid (SocketIo _ path errno) =
     (LocalIo, [at_path path, (''errno'', json_number errno)])"

definition map_refusal ::
  "(utext \<Rightarrow> utext) \<Rightarrow> private_socket_error \<Rightarrow> utext \<Rightarrow> path_origin \<Rightarrow> u32 \<Rightarrow> client_error" where
  "map_refusal dbg e checked origin uid =
     (let (code, flds) = refusal_of checked origin uid e;
          shown = show_private_socket_error dbg e;
          message = (case code of
             InvalidArgument \<Rightarrow> ascii ''--socket: '' @ shown
           | InvalidHome \<Rightarrow> ascii ''the path built from $HOME is refused: '' @ shown
           | InternalFailure \<Rightarrow> ascii ''the client failed: '' @ shown
           | _ \<Rightarrow> shown)
      in refusal code message flds)"

section \<open>What the constructors admit\<close>

text \<open>What Rust's types guarantee of a value: valid text and valid numbers, repeated keys allowed.\<close>

function plain_json :: "json \<Rightarrow> bool" where
  "plain_json JNull = True"
| "plain_json (JBool b) = True"
| "plain_json (JNumber t) = (number_new t = Ok t)"
| "plain_json (JString t) = (\<forall>c \<in> set t. is_scalar c)"
| "plain_json (JArray items) = (\<forall>x \<in> set items. plain_json x)"
| "plain_json (JObject members) =
     (\<forall>m \<in> set members. (\<forall>c \<in> set (fst m). is_scalar c) \<and> plain_json (snd m))"
  by pat_completeness auto

termination
  by (relation "measure size") (auto intro: size_item size_member)

lemma repeats_a_key_iff:
  "repeats_a_key v \<longleftrightarrow> (\<exists>members. inside v (JObject members) \<and> \<not> distinct (map fst members))"
  by (simp add: repeats_a_key_def repeats_a_key_loop_eq)

lemma repeats_a_key_child: "x \<in> set (children v) \<Longrightarrow> repeats_a_key x \<Longrightarrow> repeats_a_key v"
  by (auto simp: repeats_a_key_iff intro: inside_first)

lemma wf_plain: "wf_json v \<longleftrightarrow> plain_json v \<and> \<not> repeats_a_key v"
proof
  assume "wf_json v"
  then have "plain_json v" by (induction v rule: wf_json.induct) auto
  moreover have "\<not> repeats_a_key v"
    using wf_inside [OF _ \<open>wf_json v\<close>, of "JObject _"] by (auto simp: repeats_a_key_iff)
  ultimately show "plain_json v \<and> \<not> repeats_a_key v" by simp
next
  assume "plain_json v \<and> \<not> repeats_a_key v"
  then show "wf_json v"
  proof (induction v rule: wf_json.induct)
    case (5 items)
    then show ?case using repeats_a_key_child [of _ "JArray items"] by auto
  next
    case (6 members)
    have "distinct (map fst members)"
      using 6(2) inside_self [of "JObject members"] by (auto simp: repeats_a_key_iff)
    then show ?case using 6 repeats_a_key_child [of _ "JObject members"] by force
  qed auto
qed

lemma distinct_by_index:
  "distinct (map fst ms) \<longleftrightarrow> (\<forall>i < length ms. member_of (take i ms) (fst (ms ! i)) = None)"
proof (induction ms rule: rev_induct)
  case (snoc m ms)
  have "(\<forall>i < length (ms @ [m]). member_of (take i (ms @ [m])) (fst ((ms @ [m]) ! i)) = None) \<longleftrightarrow>
      (\<forall>i < length ms. member_of (take i ms) (fst (ms ! i)) = None) \<and> member_of ms (fst m) = None"
    by (auto simp: less_Suc_eq nth_append)
  with snoc show ?case by (simp add: member_of_None)
qed simp

lemma client_error_new_Ok:
  "client_error_new code message flds = Ok e \<longleftrightarrow>
   e = \<lparr>ce_code = code, ce_message = message, ce_fields = flds\<rparr> \<and> distinct (map fst flds) \<and>
   (\<forall>f \<in> set flds. fst f \<notin> {ascii ''domain'', ascii ''code'', ascii ''message''} \<and> \<not> repeats_a_key (snd f))"
proof -
  have "list_ex (\<lambda>i. (let (key, v) = flds ! i in
            key \<in> {ascii ''domain'', ascii ''code'', ascii ''message''} \<or>
            member_of (take i flds) key \<noteq> None \<or> repeats_a_key v)) [0 ..< length flds] \<longleftrightarrow>
      \<not> (distinct (map fst flds) \<and>
        (\<forall>f \<in> set flds. fst f \<notin> {ascii ''domain'', ascii ''code'', ascii ''message''} \<and> \<not> repeats_a_key (snd f)))"
    unfolding distinct_by_index all_set_conv_all_nth list_ex_iff by (auto simp: split_beta Let_def)
  then show ?thesis unfolding client_error_new_def by auto
qed

lemma kernel_error_new_Ok:
  "kernel_error_new v = Ok e \<longleftrightarrow>
   v = JObject (ke_members e) \<and> \<not> repeats_a_key v \<and> ascii ''domain'' \<notin> set (map fst (ke_members e))"
  by (cases v) (auto simp: kernel_error_new_def member_of_None split: if_splits)

text \<open>A decimal integer is a JSON number, so \<open>json_number\<close> is what \<open>number\<close> returns.\<close>

lemma ascii_digits: "ascii (show_nat n) = map (\<lambda>d. 0x30 + d) (dec_digits n)"
proof -
  have "of_char (digit_char d) = (0x30 + d :: nat)" if "d < 10" for d
    using that by (simp add: digit_char_def)
  then show ?thesis using dec_digits_small by (simp add: show_nat_digits)
qed

lemma digits_all: "\<forall>c \<in> set cs. is_digit c \<Longrightarrow> digits (cs, a) = ([], a + length cs)"
proof -
  have "digits_from cs a = ([], a + length cs)" if "\<forall>c \<in> set cs. is_digit c"
    using that by (induction cs a rule: digits_from.induct) auto
  then show "\<forall>c \<in> set cs. is_digit c \<Longrightarrow> digits (cs, a) = ([], a + length cs)" by (simp add: digits_def)
qed

lemma number_int_decimal:
  "\<exists>b. number_int (ascii (show_nat n), a) = Ok ([], b)"
proof -
  obtain d ds where ds: "dec_digits n = d # ds" by (cases "dec_digits n") auto
  then have small: "d < 10" "\<forall>x \<in> set ds. x < 10" using dec_digits_small [of _ n] by auto
  then have all: "\<forall>c \<in> set (map (\<lambda>d. 0x30 + d) (d # ds)). is_digit c" by (auto simp: is_digit_def)
  show ?thesis
  proof (cases "d = 0")
    case True
    with ds hd_dec_digits [of n] have "n = 0" by simp
    then show ?thesis by (simp add: ascii_digits number_int_def peek_def peeks_digit_def bump_def)
  next
    case False
    with small digits_all [OF all, of a] show ?thesis
      by (simp add: ascii_digits ds number_int_def peek_def)
  qed
qed

lemma number_new_decimal: "number_new (ascii (show_int n)) = Ok (ascii (show_int n))"
proof -
  have whole: "scan_number (cs, 0) = Ok (cs, ([], b))"
    if "number_int (snd (eat MINUS (cs, 0))) = Ok ([], b)" for cs b
    using that by (simp add: scan_number_def number_fraction_def number_exponent_def eat_def peek_def Let_def between_def)
  have "\<exists>b. number_int (snd (eat MINUS (ascii (show_int n), 0))) = Ok ([], b)"
  proof (cases "n < 0")
    case True
    then show ?thesis using number_int_decimal [of "nat (- n)" 1] by (simp add: show_int_def eat_def peek_def bump_def)
  next
    case False
    have "hd (ascii (show_nat (nat n))) \<noteq> MINUS"
      by (cases "dec_digits (nat n)") (simp_all add: ascii_digits)
    then have "eat MINUS (ascii (show_nat (nat n)), 0) = (False, (ascii (show_nat (nat n)), 0))"
      by (cases "ascii (show_nat (nat n))") (auto simp: eat_def peek_def)
    with False show ?thesis using number_int_decimal [of "nat n" 0] by (simp add: show_int_def)
  qed
  with whole show ?thesis by (auto simp: number_new_def)
qed

lemma json_number_wf [simp]: "wf_json (json_number n)" "wf_json (json_u32 w)"
  by (simp_all add: json_number_def json_u32_def number_new_decimal)

lemma not_repeats_scalar [simp]:
  "\<not> repeats_a_key (json_number n)" "\<not> repeats_a_key (json_u32 w)" "\<not> repeats_a_key (json_text t)"
  by (simp_all add: repeats_a_key_def json_number_def json_u32_def json_text_def)

text \<open>No refusal of the client is lost to a panic: the fields it names never clash.\<close>

lemma refusal_Ok:
  assumes "distinct (map fst flds)"
    and "\<forall>f \<in> set flds. fst f \<notin> {''domain'', ''code'', ''message''} \<and> \<not> repeats_a_key (snd f)"
  shows "refusal code message flds =
    \<lparr>ce_code = code, ce_message = message, ce_fields = map (\<lambda>f. (ascii (fst f), snd f)) flds\<rparr>"
proof -
  have inj: "inj (ascii :: string \<Rightarrow> utext)" by (simp add: inj_of_char)
  then have eq: "ascii s = ascii t \<longleftrightarrow> s = t" for s t :: string by (simp add: inj_eq)
  have "distinct (map ascii (map fst flds))"
    using assms(1) inj by (simp add: distinct_map inj_on_subset [OF inj] del: map_map)
  then have "distinct (map fst (map (\<lambda>f. (ascii (fst f), snd f)) flds))" by (simp add: comp_def)
  moreover have "\<forall>f \<in> set (map (\<lambda>f. (ascii (fst f), snd f)) flds).
      fst f \<notin> {ascii ''domain'', ascii ''code'', ascii ''message''} \<and> \<not> repeats_a_key (snd f)"
    using assms(2) unfolding set_map ball_simps fst_conv snd_conv insert_iff empty_iff eq by simp
  ultimately have "client_error_new code message (map (\<lambda>f. (ascii (fst f), snd f)) flds) =
      Ok \<lparr>ce_code = code, ce_message = message, ce_fields = map (\<lambda>f. (ascii (fst f), snd f)) flds\<rparr>"
    unfolding client_error_new_Ok by blast
  then show ?thesis by (simp add: refusal_def)
qed

lemma map_refusal_code: "ce_code (map_refusal dbg e checked origin uid) = fst (refusal_of checked origin uid e)"
proof -
  have "distinct (map fst (snd (refusal_of checked origin uid e))) \<and>
      (\<forall>f \<in> set (snd (refusal_of checked origin uid e)).
        fst f \<notin> {''domain'', ''code'', ''message''} \<and> \<not> repeats_a_key (snd f))"
    by (cases e) (auto simp: unsafe_socket_def at_path_def split: path_origin.splits)
  then show ?thesis by (auto simp: map_refusal_def split_beta Let_def refusal_Ok)
qed

end
