(* ===== verification/Client_Envelope.thy ===== *)
theory Client_Envelope
  imports Client_Error
begin

text \<open>
  What one command prints, \<open>crates/plasmosome-cli/src/envelope.rs\<close>: the envelope, its view as JSON
  without copying, the text for a person, and the writer that hands the text out in pieces. The stream
  written to is a parameter: its \<open>write_all\<close> and \<open>flush\<close>, on a state of their own.
\<close>

definition ENVELOPE_PIECE :: nat where "ENVELOPE_PIECE = 64 * 1024"

record instance_ref =
  in_name :: "utext option"
  in_socket :: utext

datatype error_body = ClientBody client_error | KernelBody kernel_error

record envelope =
  en_command :: utext
  en_instance :: "instance_ref option"
  en_outcome :: "error_body + json"

datatype form = JsonForm | HumanForm

datatype stream = Stdout | Stderr

section \<open>The view\<close>

datatype view = VJson json | VText utext | VRaw utext | VObject "(utext \<times> view) list"

definition body_view :: "error_body \<Rightarrow> view" where
  "body_view b =
     (case b of
        ClientBody e \<Rightarrow>
          VObject ([(ascii ''domain'', VText (ascii ''client'')),
                    (ascii ''code'', VText (ascii (code_str (ce_code e)))),
                    (ascii ''message'', VText (ce_message e))] @
                   map (\<lambda>m. (fst m, VJson (snd m))) (ce_fields e))
      | KernelBody e \<Rightarrow>
          VObject ((ascii ''domain'', VText (ascii ''kernel'')) #
                   map (\<lambda>m. (fst m, VJson (snd m))) (ke_members e)))"

definition envelope_view :: "envelope \<Rightarrow> view" where
  "envelope_view e =
     VObject ([(ascii ''schema'', VRaw (ascii ''1'')), (ascii ''command'', VText (en_command e))] @
       (case en_instance e of
          None \<Rightarrow> []
        | Some i \<Rightarrow>
            [(ascii ''instance'',
              VObject ((case in_name i of None \<Rightarrow> [] | Some name \<Rightarrow> [(ascii ''name'', VText name)]) @
                       [(ascii ''socket'', VText (in_socket i))]))]) @
       [case en_outcome e of
          Inr result \<Rightarrow> (ascii ''result'', VJson result)
        | Inl b \<Rightarrow> (ascii ''error'', body_view b)])"

lemma size_view_member: "m \<in> set ms \<Longrightarrow> size (snd m) < Suc (size_list (size_prod (\<lambda>_. 0) size) ms)"
  for ms :: "(utext \<times> view) list"
  by (induction ms) auto

function write_view :: "view \<Rightarrow> style \<Rightarrow> nat \<Rightarrow> utext" where
  "write_view (VJson v) style depth = write_value v style depth"
| "write_view (VText t) style depth = write_string t style"
| "write_view (VRaw t) style depth = t"
| "write_view (VObject members) style depth =
     LBRACE # concat (map (\<lambda>i. separator (i = 0) style (depth + 1) @ write_key (fst (members ! i)) style @
         write_view (snd (members ! i)) style (depth + 1)) [0 ..< length members]) @
       close_container RBRACE style depth"
  by pat_completeness auto

termination
  by (relation "measure (\<lambda>(v, style, depth). size v)") (auto intro!: size_view_member)

definition plain :: "json option \<Rightarrow> utext" where
  "plain v =
     (case v of
        None \<Rightarrow> []
      | Some (JString t) \<Rightarrow> show_text t
      | Some (JNumber n) \<Rightarrow> n
      | Some other \<Rightarrow> write_value other Human 0)"

definition write_fix :: "(utext \<times> json) list \<Rightarrow> utext" where
  "write_fix flds =
     (case member_of flds (ascii ''fix'') of
        None \<Rightarrow> []
      | Some fix' \<Rightarrow> 0x0A # ascii ''fix: '' @ plain (Some fix'))"

definition body_human :: "error_body \<Rightarrow> utext" where
  "body_human b =
     (case b of
        ClientBody e \<Rightarrow>
          show_text (ce_message e) @ write_fix (ce_fields e) @ 0x0A # ascii (''(client '' @ code_str (ce_code e))
      | KernelBody e \<Rightarrow>
          plain (member_of (ke_members e) (ascii ''message'')) @ write_fix (ke_members e) @
          0x0A # ascii ''(kernel '' @ plain (member_of (ke_members e) (ascii ''code''))) @ ascii '')''"

text \<open>All that \<open>write_envelope\<close> pushes, one after the other.\<close>

definition envelope_text :: "envelope \<Rightarrow> form \<Rightarrow> utext" where
  "envelope_text e f =
     (case (f, en_outcome e) of
        (JsonForm, _) \<Rightarrow> write_view (envelope_view e) Compact 0
      | (HumanForm, Inr _) \<Rightarrow> write_view (envelope_view e) Human 0
      | (HumanForm, Inl b) \<Rightarrow> body_human b) @ [0x0A]"

section \<open>Writing in pieces\<close>

record ('w, 'e) pieces =
  pc_text :: utext
  pc_writer :: 'w
  pc_failed :: "'e option"

definition spill :: "(nat list \<Rightarrow> 'w \<Rightarrow> ('e + unit) \<times> 'w) \<Rightarrow> ('w, 'e) pieces \<Rightarrow> ('w, 'e) pieces" where
  "spill write_all p =
     (case pc_failed p of
        Some _ \<Rightarrow> p\<lparr>pc_text := []\<rparr>
      | None \<Rightarrow>
          (case write_all (utf8_bytes (pc_text p)) (pc_writer p) of
             (Inl e, w) \<Rightarrow> p\<lparr>pc_text := [], pc_writer := w, pc_failed := Some e\<rparr>
           | (Inr _, w) \<Rightarrow> p\<lparr>pc_text := [], pc_writer := w\<rparr>))"

definition push_str :: "(nat list \<Rightarrow> 'w \<Rightarrow> ('e + unit) \<times> 'w) \<Rightarrow> utext \<Rightarrow> ('w, 'e) pieces \<Rightarrow> ('w, 'e) pieces" where
  "push_str write_all t p =
     (let p' = p\<lparr>pc_text := pc_text p @ t\<rparr> in
      if ENVELOPE_PIECE \<le> length (utf8_bytes (pc_text p')) then spill write_all p' else p')"

definition pieces_finish ::
  "(nat list \<Rightarrow> 'w \<Rightarrow> ('e + unit) \<times> 'w) \<Rightarrow> ('w \<Rightarrow> ('e + unit) \<times> 'w) \<Rightarrow> ('w, 'e) pieces \<Rightarrow> ('e + unit) \<times> 'w" where
  "pieces_finish write_all flush p =
     (let p' = spill write_all p in
      case pc_failed p' of Some e \<Rightarrow> (Err e, pc_writer p') | None \<Rightarrow> flush (pc_writer p'))"

text \<open>
  Where one push ends and the next begins only decides where the text is cut, so the cut is a parameter.
\<close>

definition write_envelope ::
  "(nat list \<Rightarrow> 'w \<Rightarrow> ('e + unit) \<times> 'w) \<Rightarrow> ('w \<Rightarrow> ('e + unit) \<times> 'w) \<Rightarrow> (utext \<Rightarrow> utext list) \<Rightarrow>
   envelope \<Rightarrow> form \<Rightarrow> 'w \<Rightarrow> ('e + unit) \<times> 'w" where
  "write_envelope write_all flush chop e f w =
     pieces_finish write_all flush
       (fold (push_str write_all) (chop (envelope_text e f)) \<lparr>pc_text = [], pc_writer = w, pc_failed = None\<rparr>)"

definition emit ::
  "(nat list \<Rightarrow> 'w \<Rightarrow> ('e + unit) \<times> 'w) \<Rightarrow> ('w \<Rightarrow> ('e + unit) \<times> 'w) \<Rightarrow> (utext \<Rightarrow> utext list) \<Rightarrow>
   envelope \<Rightarrow> form \<Rightarrow> 'w \<Rightarrow> 'w \<Rightarrow> (stream \<times> 'e + unit) \<times> 'w \<times> 'w" where
  "emit write_all flush chop e f out err =
     (case en_outcome e of
        Inr _ \<Rightarrow>
          (let (r, out') = write_envelope write_all flush chop e f out in (map_err (Pair Stdout) r, out', err))
      | Inl _ \<Rightarrow>
          (let (r, err') = write_envelope write_all flush chop e f err in (map_err (Pair Stderr) r, out, err')))"

section \<open>The envelope is one JSON value\<close>

function view_json :: "view \<Rightarrow> json" where
  "view_json (VJson v) = v"
| "view_json (VText t) = JString t"
| "view_json (VRaw t) = JNumber t"
| "view_json (VObject members) = JObject (map (\<lambda>m. (fst m, view_json (snd m))) members)"
  by pat_completeness auto

termination
  by (relation "measure size") (auto intro: size_view_member)

text \<open>No object of a view is empty, and only an empty one would be written differently.\<close>

function solid_view :: "view \<Rightarrow> bool" where
  "solid_view (VJson v) = True"
| "solid_view (VText t) = True"
| "solid_view (VRaw t) = True"
| "solid_view (VObject members) \<longleftrightarrow> members \<noteq> [] \<and> (\<forall>m \<in> set members. solid_view (snd m))"
  by pat_completeness auto

termination
  by (relation "measure size") (auto intro: size_view_member)

lemma write_view_render: "solid_view v \<Longrightarrow> write_view v style depth = render style depth (view_json v)"
proof (induction v arbitrary: depth rule: solid_view.induct)
  case (4 members)
  let ?t = "\<lambda>m. write_key (fst m) style @ render style (depth + 1) (view_json (snd m))"
  have "write_view (snd (members ! i)) style (depth + 1) = render style (depth + 1) (view_json (snd (members ! i)))"
    if "i < length members" for i
    using 4 that by (intro 4(1)) auto
  then have eq: "map (\<lambda>i. separator (i = 0) style (depth + 1) @ write_key (fst (members ! i)) style @
        write_view (snd (members ! i)) style (depth + 1)) [0 ..< length members] =
      map (\<lambda>i. separator (i = 0) style (depth + 1) @ map ?t members ! i) [0 ..< length (map ?t members)]"
    by (intro map_cong) simp_all
  have "members \<noteq> []" using 4 by simp
  then show ?case
    unfolding write_view.simps eq using separated_upt [of "map ?t members" style "depth + 1"] by (simp add: comp_def)
qed (simp_all add: write_value_render)

definition envelope_json :: "envelope \<Rightarrow> json" where
  "envelope_json e = view_json (envelope_view e)"

lemma solid_body: "solid_view (body_view b)"
  by (auto simp: body_view_def split: error_body.splits)

lemma solid_envelope: "solid_view (envelope_view e)"
  using solid_body by (auto simp: envelope_view_def split: option.splits sum.splits)

lemma envelope_text_json: "envelope_text e JsonForm = write_compact (envelope_json e) @ [0x0A]"
  by (simp add: envelope_text_def envelope_json_def write_view_render [OF solid_envelope] write_compact_def write_value_render)

text \<open>
  What the types guarantee: text is valid, numbers are numbers, and both error bodies come from their
  constructors.
\<close>

definition valid_text :: "utext \<Rightarrow> bool" where
  "valid_text t \<longleftrightarrow> (\<forall>c \<in> set t. is_scalar c)"

definition body_ok :: "error_body \<Rightarrow> bool" where
  "body_ok b =
     (case b of
        ClientBody e \<Rightarrow>
          client_error_new (ce_code e) (ce_message e) (ce_fields e) = Ok e \<and> valid_text (ce_message e) \<and>
          plain_json (JObject (ce_fields e))
      | KernelBody e \<Rightarrow> kernel_error_new (JObject (ke_members e)) = Ok e \<and> plain_json (JObject (ke_members e)))"

definition envelope_ok :: "envelope \<Rightarrow> bool" where
  "envelope_ok e \<longleftrightarrow>
     valid_text (en_command e) \<and>
     (\<forall>i. en_instance e = Some i \<longrightarrow> valid_text (in_socket i) \<and> (\<forall>n. in_name i = Some n \<longrightarrow> valid_text n)) \<and>
     (case en_outcome e of Inr result \<Rightarrow> wf_json result | Inl b \<Rightarrow> body_ok b)"

lemma ascii_valid: "\<forall>c \<in> set (ascii s). is_scalar c"
proof
  fix c assume "c \<in> set (ascii s)"
  then obtain x where "c = of_char x" by auto
  then have "c < 256" using nat_of_char_less_256 [of x] by simp
  then show "is_scalar c" by (simp add: is_scalar_def)
qed

lemma wf_body: "body_ok b \<Longrightarrow> wf_json (view_json (body_view b))"
proof (cases b)
  case (ClientBody e)
  assume "body_ok b"
  then have e: "distinct (map fst (ce_fields e))"
    "\<forall>f \<in> set (ce_fields e). fst f \<notin> {ascii ''domain'', ascii ''code'', ascii ''message''} \<and> \<not> repeats_a_key (snd f)"
    "valid_text (ce_message e)" "plain_json (JObject (ce_fields e))"
    unfolding body_ok_def ClientBody error_body.case client_error_new_Ok by blast+
  then have "\<forall>f \<in> set (ce_fields e). (\<forall>c \<in> set (fst f). is_scalar c) \<and> wf_json (snd f)"
    by (simp add: wf_plain)
  with e ascii_valid [of "code_str (ce_code e)"] show ?thesis
    by (auto simp: ClientBody body_view_def comp_def valid_text_def is_scalar_def)
next
  case (KernelBody e)
  assume "body_ok b"
  then have e: "\<not> repeats_a_key (JObject (ke_members e))" "ascii ''domain'' \<notin> set (map fst (ke_members e))"
    "plain_json (JObject (ke_members e))"
    unfolding body_ok_def KernelBody error_body.case kernel_error_new_Ok by blast+
  then have "wf_json (JObject (ke_members e))" by (simp only: wf_plain simp_thms)
  with e(2) show ?thesis by (auto simp: KernelBody body_view_def comp_def is_scalar_def)
qed

lemma schema_number: "number_new [0x31] = Ok [0x31]"
  using number_new_decimal [of 1] by (simp add: show_int_def show_nat.simps digit_char_def)

lemma wf_envelope: "envelope_ok e \<Longrightarrow> wf_json (envelope_json e)"
  using wf_body
  by (auto simp: schema_number envelope_ok_def envelope_json_def envelope_view_def valid_text_def is_scalar_def
      split: option.splits sum.splits)

section \<open>Pieces\<close>

text \<open>
  \<open>contents w\<close> is what a stream has been given. A \<open>write_all\<close> that succeeds has appended its bytes,
  and a flush adds nothing.
\<close>

definition faithful_stream ::
  "(nat list \<Rightarrow> 'w \<Rightarrow> ('e + unit) \<times> 'w) \<Rightarrow> ('w \<Rightarrow> ('e + unit) \<times> 'w) \<Rightarrow> ('w \<Rightarrow> nat list) \<Rightarrow> bool" where
  "faithful_stream write_all flush contents \<longleftrightarrow>
     (\<forall>bs w u w'. write_all bs w = (Ok u, w') \<longrightarrow> contents w' = contents w @ bs) \<and>
     (\<forall>w. contents (snd (flush w)) = contents w)"

text \<open>While nothing has failed, what was written and what is held back make up what was pushed.\<close>

definition pushed :: "('w \<Rightarrow> nat list) \<Rightarrow> nat list \<Rightarrow> utext \<Rightarrow> ('w, 'e) pieces \<Rightarrow> bool" where
  "pushed contents before t p \<longleftrightarrow>
     (pc_failed p = None \<longrightarrow> contents (pc_writer p) @ utf8_bytes (pc_text p) = before @ utf8_bytes t)"

lemma utf8_bytes_append: "utf8_bytes (a @ b) = utf8_bytes a @ utf8_bytes b"
  by (simp add: utf8_bytes_def)

lemma pushed_spill:
  "faithful_stream write_all flush contents \<Longrightarrow> pushed contents before t p \<Longrightarrow>
   pushed contents before t (spill write_all p)"
  by (auto simp: faithful_stream_def pushed_def spill_def utf8_bytes_def split: option.splits prod.splits sum.splits)

lemma pushed_push:
  assumes "faithful_stream write_all flush contents" "pushed contents before t p"
  shows "pushed contents before (t @ u) (push_str write_all u p)"
proof -
  from assms(2) have "pushed contents before (t @ u) (p\<lparr>pc_text := pc_text p @ u\<rparr>)"
    by (auto simp: pushed_def utf8_bytes_append)
  then show ?thesis by (simp add: push_str_def Let_def pushed_spill [OF assms(1)])
qed

lemma pushed_fold:
  assumes "faithful_stream write_all flush contents" "pushed contents before t p"
  shows "pushed contents before (t @ concat us) (fold (push_str write_all) us p)"
  using assms(2)
proof (induction us arbitrary: p t)
  case (Cons u us)
  from Cons.IH [OF pushed_push [OF assms(1) Cons.prems, of u]] show ?case by simp
qed simp

lemma written_whole:
  assumes stream: "faithful_stream write_all flush contents"
    and run: "write_envelope write_all flush chop e f w = (Ok u, w')"
    and chop: "concat (chop (envelope_text e f)) = envelope_text e f"
  shows "contents w' = contents w @ utf8_bytes (envelope_text e f)"
proof -
  let ?p = "fold (push_str write_all) (chop (envelope_text e f)) \<lparr>pc_text = [], pc_writer = w, pc_failed = None\<rparr>"
  have "pushed contents (contents w) ([] @ concat (chop (envelope_text e f))) ?p"
    by (rule pushed_fold [OF stream]) (simp add: pushed_def utf8_bytes_def)
  then have "pushed contents (contents w) (envelope_text e f) (spill write_all ?p)"
    using pushed_spill [OF stream] chop by simp
  moreover have "pc_failed (spill write_all ?p) = None" "w' = snd (flush (pc_writer (spill write_all ?p)))"
    using run by (auto simp: write_envelope_def pieces_finish_def Let_def split: option.splits)
  moreover have "pc_text (spill write_all ?p) = []"
    by (auto simp: spill_def split: option.splits prod.splits sum.splits)
  ultimately show ?thesis using stream by (simp add: faithful_stream_def pushed_def utf8_bytes_def)
qed

section \<open>The promise\<close>

definition kernel_relayed :: "envelope \<Rightarrow> bool" where
  "kernel_relayed e \<longleftrightarrow>
     (\<forall>k. en_outcome e = Err (KernelBody k) \<longrightarrow>
       json_get (envelope_json e) (ascii ''error'') =
         Some (JObject ((ascii ''domain'', JString (ascii ''kernel'')) # ke_members k)))"

lemma kernel_relayed_always: "kernel_relayed e"
  by (auto simp: kernel_relayed_def envelope_json_def envelope_view_def body_view_def json_get_def member_of_def comp_def
      split: option.splits)

lemma result_relayed: "en_outcome e = Ok v \<Longrightarrow> json_get (envelope_json e) (ascii ''result'') = Some v"
  by (auto simp: envelope_json_def envelope_view_def json_get_def member_of_def split: option.splits)

lemma no_line_break: "wf_json v \<Longrightarrow> 0x0A \<notin> set (write_compact v)"
  using render_safe [of v "0x0A" Compact 0]
  by (auto simp: write_compact_def write_value_render shows_safely_def is_terminal_control_def)

text \<open>
  C16. What a command prints with \<open>--json\<close> is one line that reads back as its envelope. Whenever
  emitting succeeds, exactly one stream was written to, standard output for a result and standard error
  for an error; it was given the compact text, which holds no line break, and one newline. That text
  reads back as the envelope, with the daemon's result as it arrived, or its error with nothing changed
  but the domain put first.\<close>

theorem envelope_line_reads_back:
  assumes "envelope_ok e" "length (utf8_bytes (write_compact (envelope_json e))) \<le> MAX_REPLY_BYTES"
    and "faithful_stream write_all flush contents" "\<forall>t. concat (chop t) = t"
    and "emit write_all flush chop e JsonForm out err = (Ok u, out', err')"
  shows "\<exists>line. 0x0A \<notin> set line \<and> scan (map of_nat (utf8_bytes line)) = Ok (envelope_json e) \<and>
    (case en_outcome e of
       Inr v \<Rightarrow> contents out' = contents out @ utf8_bytes (line @ [0x0A]) \<and> err' = err \<and>
         json_get (envelope_json e) (ascii ''result'') = Some v
     | Inl b \<Rightarrow> contents err' = contents err @ utf8_bytes (line @ [0x0A]) \<and> out' = out \<and> kernel_relayed e)"
proof (intro exI conjI)
  let ?line = "write_compact (envelope_json e)"
  note wf = wf_envelope [OF assms(1)]
  show "0x0A \<notin> set ?line" by (rule no_line_break [OF wf])
  show "scan (map of_nat (utf8_bytes ?line)) = Ok (envelope_json e)" by (rule scan_write [OF wf assms(2)])
  show "case en_outcome e of
       Inr v \<Rightarrow> contents out' = contents out @ utf8_bytes (?line @ [0x0A]) \<and> err' = err \<and>
         json_get (envelope_json e) (ascii ''result'') = Some v
     | Inl b \<Rightarrow> contents err' = contents err @ utf8_bytes (?line @ [0x0A]) \<and> out' = out \<and> kernel_relayed e"
    using assms(4,5) written_whole [OF assms(3), of chop e JsonForm] result_relayed [of e] kernel_relayed_always [of e]
    by (auto simp: emit_def envelope_text_json split_beta prod_eq_iff split: sum.splits)
qed

text \<open>A stream that keeps what it is given, and the daemon's refusal of an unknown cell.\<close>

definition kept_write :: "nat list \<Rightarrow> nat list \<Rightarrow> (unit + unit) \<times> nat list" where
  "kept_write bs w = (Ok (), w @ bs)"

definition demo_refused :: envelope where
  "demo_refused =
     \<lparr>en_command = ascii ''cell.kill'', en_instance = Some \<lparr>in_name = Some (ascii ''k''), in_socket = ascii ''/s''\<rparr>,
      en_outcome = Err (KernelBody \<lparr>ke_members = [(ascii ''code'', JNumber [0x31])]\<rparr>)\<rparr>"

lemma kept_emit:
  "en_outcome e = Err b \<Longrightarrow>
   emit kept_write (\<lambda>w. (Ok (), w)) (\<lambda>t. [t]) e f out err =
     (Ok (), out, err @ utf8_bytes (envelope_text e f))"
  by (simp add: emit_def write_envelope_def pieces_finish_def push_str_def spill_def kept_write_def Let_def
      utf8_bytes_def)

lemma demo_refused_json:
  "envelope_json demo_refused =
     JObject [(ascii ''schema'', JNumber [0x31]), (ascii ''command'', JString (ascii ''cell.kill'')),
       (ascii ''instance'', JObject [(ascii ''name'', JString (ascii ''k'')), (ascii ''socket'', JString (ascii ''/s''))]),
       (ascii ''error'', JObject [(ascii ''domain'', JString (ascii ''kernel'')), (ascii ''code'', JNumber [0x31])])]"
  by (simp add: envelope_json_def envelope_view_def demo_refused_def body_view_def)

theorem envelope_line_reads_back_witness:
  "\<exists>line. 0x0A \<notin> set line \<and> scan (map of_nat (utf8_bytes line)) = Ok (envelope_json demo_refused) \<and>
     emit kept_write (\<lambda>w. (Ok (), w)) (\<lambda>t. [t]) demo_refused JsonForm [] [] = (Ok (), [], utf8_bytes (line @ [0x0A]))"
proof -
  let ?err = "utf8_bytes (envelope_text demo_refused JsonForm)"
  have run: "emit kept_write (\<lambda>w. (Ok (), w)) (\<lambda>t. [t]) demo_refused JsonForm [] [] = (Ok (), [], ?err)"
    using kept_emit [of demo_refused _ JsonForm "[]" "[]"] by (simp add: demo_refused_def)
  have "repeats_a_key (JObject [(ascii ''code'', JNumber [0x31])]) = False" by code_simp
  then have ok: "envelope_ok demo_refused"
    by (simp add: envelope_ok_def demo_refused_def body_ok_def kernel_error_new_def valid_text_def is_scalar_def
        schema_number member_of_def)
  have small: "length (utf8_bytes (write_compact (envelope_json demo_refused))) \<le> MAX_REPLY_BYTES"
    by (simp add: demo_refused_json MAX_REPLY_BYTES_def write_compact_def write_value_render separated_def separator_def
        close_container_def write_key_def write_string_def is_terminal_control_def utf8_bytes_def utf8_width_def)
  have stream: "faithful_stream kept_write (\<lambda>w. (Ok (), w)) (\<lambda>w. w)" by (simp add: faithful_stream_def kept_write_def)
  have "en_outcome demo_refused = Err (KernelBody \<lparr>ke_members = [(ascii ''code'', JNumber [0x31])]\<rparr>)"
    by (simp add: demo_refused_def)
  with envelope_line_reads_back [OF ok small stream, of "\<lambda>t. [t]" "[]" "[]" "()" "[]" ?err] run show ?thesis by auto
qed

end
