(* ===== verification/Client_Reply.thy ===== *)
theory Client_Reply
  imports Client_Envelope
begin

text \<open>
  The daemon's answer, \<open>crates/plasmosome-cli/src/reply.rs\<close>, and the exchange that brings it,
  \<open>exchange.rs\<close>. What the operating system does is a trace: one entry for every read or write the
  client attempts. A trace that ends before the code would is an exchange still under way, \<open>None\<close>.
\<close>

section \<open>Input and output errors\<close>

datatype io_kind = WouldBlock | TimedOutKind | Interrupted | WriteZero | ConnectionRefused | NotFound | OtherKind

text \<open>An \<open>io::Error\<close>: its kind, its error number when it has one, and the text it shows.\<close>

record io_error =
  io_kind_of :: io_kind
  io_errno :: "int option"
  io_shown :: utext

datatype read_failure = Closed | TooLargeReply | TimedOut | TransportFailed "int option"

definition failure_of :: "io_error \<Rightarrow> read_failure" where
  "failure_of e =
     (if io_kind_of e = WouldBlock \<or> io_kind_of e = TimedOutKind then TimedOut
      else TransportFailed (io_errno e))"

section \<open>Reading one line\<close>

text \<open>
  \<open>read_until\<close> on a reader limited to \<open>left\<close> bytes, for the answers its reads get; an empty read is
  the end of the input. What is left unread comes back.
\<close>

fun read_until :: "u8 \<Rightarrow> nat \<Rightarrow> u8 list \<Rightarrow> (io_error + u8 list) list \<Rightarrow>
    ((io_error + u8 list) \<times> (io_error + u8 list) list) option" where
  "read_until stop left line ins =
     (if left = 0 then Some (Ok line, ins)
      else case ins of
             [] \<Rightarrow> None
           | Inl e # rest \<Rightarrow>
               if io_kind_of e = Interrupted then read_until stop left line rest else Some (Err e, rest)
           | Inr bytes # rest \<Rightarrow>
               if bytes = [] then Some (Ok line, rest)
               else (let seen = take left bytes in
                     if stop \<in> set seen then
                       (let n = length (takeWhile (\<lambda>b. b \<noteq> stop) seen) + 1 in
                        Some (Ok (line @ take n bytes), Ok (drop n bytes) # rest))
                     else if left \<le> length bytes then Some (Ok (line @ seen), Ok (drop left bytes) # rest)
                     else read_until stop (left - length seen) (line @ seen) rest))"

declare read_until.simps [simp del]

abbreviation NEWLINE :: u8 where "NEWLINE \<equiv> 0x0A"

definition read_reply :: "(io_error + u8 list) list \<Rightarrow> ((read_failure + u8 list) \<times> (io_error + u8 list) list) option" where
  "read_reply ins =
     (case read_until NEWLINE (MAX_REPLY_BYTES + 1) [] ins of
        None \<Rightarrow> None
      | Some (Inl e, rest) \<Rightarrow> Some (Err (failure_of e), rest)
      | Some (Inr line, rest) \<Rightarrow>
          Some (if line \<noteq> [] \<and> last line = NEWLINE then Ok (butlast line)
                else if MAX_REPLY_BYTES < length line then Err TooLargeReply
                else Err Closed, rest))"

section \<open>Judging a reply\<close>

datatype reply = ResultReply json | KernelReply kernel_error

datatype reply_code = NotInteger | IntegerCode "int option"

definition bad_reply :: "utext \<Rightarrow> client_error" where
  "bad_reply detail =
     refusal BadReply (ascii ''the daemon sent a reply this client cannot accept'') [(''detail'', json_text detail)]"

definition quoted :: "string \<Rightarrow> string \<Rightarrow> utext" where
  "quoted a b = ascii (a @ [CHR 0x27] @ b)"

definition ID_IS_NOT_ONE :: utext where "ID_IS_NOT_ONE = quoted ''the reply'' ''s id is not 1''"

definition position_of :: "(utext \<times> json) list \<Rightarrow> utext \<Rightarrow> nat option" where
  "position_of members key = List.find (\<lambda>i. fst (members ! i) = key) [0 ..< length members]"

definition is_one :: "json option \<Rightarrow> bool" where
  "is_one i \<longleftrightarrow> i = Some (JNumber (ascii ''1''))"

text \<open>\<open>str::parse::<i64>\<close>.\<close>

definition parse_i64 :: "utext \<Rightarrow> int option" where
  "parse_i64 t =
     (let (negative, ds) = (case t of
            [] \<Rightarrow> (False, [])
          | c # r \<Rightarrow> if c = MINUS then (True, r) else if c = 0x2B then (False, r) else (False, c # r));
          v = foldl (\<lambda>v c. v * 10 + (int c - 0x30)) 0 ds in
      if ds = [] \<or> \<not> list_all is_digit ds then None
      else if negative then (if v \<le> 2 ^ 63 then Some (- v) else None)
      else if v < 2 ^ 63 then Some v else None)"

definition code_of :: "json option \<Rightarrow> reply_code" where
  "code_of code =
     (case code of
        Some (JNumber t) \<Rightarrow>
          if 0x2E \<in> set t \<or> 0x65 \<in> set t \<or> 0x45 \<in> set t then NotInteger else IntegerCode (parse_i64 t)
      | _ \<Rightarrow> NotInteger)"

definition is_object :: "json \<Rightarrow> bool" where
  "is_object v = (case v of JObject _ \<Rightarrow> True | _ \<Rightarrow> False)"

definition judge_error :: "json option \<Rightarrow> json \<Rightarrow> client_error + reply" where
  "judge_error i e =
     (let code = code_of (json_get e (ascii ''code''));
          from_the_connection_loop = (code = IntegerCode (Some (- 32700)) \<or> code = IntegerCode (Some (- 32600))) in
      if \<not> (is_one i \<or> (from_the_connection_loop \<and> i = Some JNull)) then Err (bad_reply ID_IS_NOT_ONE)
      else if \<not> is_object e then Err (bad_reply (ascii ''the error is not an object''))
      else if code = NotInteger then Err (bad_reply (quoted ''the error'' ''s code is not an integer''))
      else if \<not> (case json_get e (ascii ''message'') of Some (JString _) \<Rightarrow> True | _ \<Rightarrow> False)
        then Err (bad_reply (quoted ''the error'' ''s message is not a string''))
      else (case kernel_error_new e of
              Inr k \<Rightarrow> Ok (KernelReply k)
            | Inl _ \<Rightarrow> Err (bad_reply (ascii ''the error already has a domain key''))))"

definition judge_reply :: "u8 list \<Rightarrow> client_error + reply" where
  "judge_reply line =
     and_then (map_err (\<lambda>e. bad_reply (show_scan_error e)) (scan line)) (\<lambda>reply.
       case reply of
         JObject members \<Rightarrow>
           (case (position_of members (ascii ''result''), position_of members (ascii ''error'')) of
              (Some _, Some _) \<Rightarrow> Err (bad_reply (ascii ''the reply has both result and error''))
            | (None, None) \<Rightarrow> Err (bad_reply (ascii ''the reply has neither result nor error''))
            | (Some i, None) \<Rightarrow>
                if \<not> is_one (member_of members (ascii ''id'')) then Err (bad_reply ID_IS_NOT_ONE)
                else if is_object (snd (members ! i)) then Ok (ResultReply (snd (members ! i)))
                else Err (bad_reply (ascii ''the result is not an object''))
            | (None, Some i) \<Rightarrow>
                judge_error (member_of (members[i := (fst (members ! i), JNull)]) (ascii ''id'')) (snd (members ! i)))
       | _ \<Rightarrow> Err (bad_reply (ascii ''the reply is not an object'')))"

definition kernel_exit :: "kernel_error \<Rightarrow> exit_status" where
  "kernel_exit e =
     (case code_of (member_of (ke_members e) (ascii ''code'')) of
        IntegerCode (Some n) \<Rightarrow>
          if n = 107 then XUnavailable
          else if n = 105 \<and> member_of (ke_members e) (ascii ''to'') = Some (JString (ascii ''unknown''))
            then XOutcomeUnknown
          else if n = - 32700 \<or> n = - 32600 \<or> n = - 32603 then XInternal
          else XRefused
      | _ \<Rightarrow> XRefused)"

section \<open>No reply\<close>

definition max_bytes :: json where
  "max_bytes = json_number (int MAX_REPLY_BYTES)"

definition unreplied :: "read_failure \<Rightarrow> string \<Rightarrow> utext \<Rightarrow> bool \<Rightarrow> client_error" where
  "unreplied failure cause what changes_state =
     (if changes_state then
        refusal OutcomeUnknown
          (what @ ascii ''; the request may still take effect, so observe before repeating it'')
          [(''cause'', json_text (ascii cause))]
      else if failure = TooLargeReply then refusal ReplyTooLarge what [(''max_bytes'', max_bytes)]
      else refusal NoReply (what @ ascii ''; nothing can have changed'') [(''cause'', json_text (ascii cause))])"

definition unanswered :: "read_failure \<Rightarrow> bool \<Rightarrow> client_error" where
  "unanswered failure changes_state =
     (case (case failure of
              Closed \<Rightarrow> (''closed'', ''the daemon closed the connection before its reply was complete'')
            | TimedOut \<Rightarrow> (''deadline'', ''the deadline passed before the reply was complete'')
            | TransportFailed (Some errno) \<Rightarrow>
                (''transport'', ''reading the reply failed with errno '' @ show_int errno)
            | TransportFailed None \<Rightarrow> (''transport'', ''reading the reply failed'')
            | TooLargeReply \<Rightarrow>
                (''reply_too_large'', ''the reply passed '' @ show_nat MAX_REPLY_BYTES @ '' bytes before its newline'')) of
        (cause, what) \<Rightarrow> unreplied failure cause (ascii what) changes_state)"

definition cut_off :: "io_error \<Rightarrow> bool \<Rightarrow> client_error" where
  "cut_off e changes_state =
     (let failure = failure_of e in
      if failure = TimedOut
      then unreplied failure ''deadline'' (ascii ''the deadline passed before the request was written whole'') changes_state
      else unreplied failure ''transport''
        (ascii ''writing the request failed after part of it was sent: '' @ io_shown e) changes_state)"

section \<open>The exchange\<close>

datatype unreplied_reason = NotSent client_error | Unanswered read_failure | CutOff io_error

text \<open>
  One attempt through \<open>Bounded\<close>: the time left on the clock, what setting the timeout gave, and what
  the read or write itself gave.
\<close>

record 'a attempt =
  at_left :: nat
  at_bound :: "io_error + unit"
  at_result :: "io_error + 'a"

definition timed_out :: io_error where
  "timed_out = \<lparr>io_kind_of = TimedOutKind, io_errno = None, io_shown = ascii ''timed out''\<rparr>"

definition write_zero :: io_error where
  "write_zero = \<lparr>io_kind_of = WriteZero, io_errno = None, io_shown = ascii ''write zero''\<rparr>"

definition bounded :: "'a attempt \<Rightarrow> io_error + 'a" where
  "bounded a = (if at_left a = 0 then Err timed_out else and_then (at_bound a) (\<lambda>_. at_result a))"

text \<open>The write loop of \<open>converse\<close>: the error with how much had been written, or all of it.\<close>

fun send :: "nat \<Rightarrow> nat \<Rightarrow> nat attempt list \<Rightarrow> (io_error \<times> nat + unit) option" where
  "send len written attempts =
     (if len \<le> written then Some (Ok ())
      else case attempts of
             [] \<Rightarrow> None
           | a # rest \<Rightarrow>
               (case bounded a of
                  Inr n \<Rightarrow> if n = 0 then Some (Err (write_zero, written)) else send len (written + n) rest
                | Inl e \<Rightarrow> if io_kind_of e = Interrupted then send len written rest else Some (Err (e, written))))"

declare send.simps [simp del]

definition unsent :: "nat \<Rightarrow> io_error \<Rightarrow> utext \<Rightarrow> nat \<Rightarrow> unreplied_reason" where
  "unsent written e socket ms =
     (if 0 < written then CutOff e
      else if failure_of e = TimedOut then
        NotSent (refusal DeadlinePassed
          (ascii (''the deadline of '' @ show_nat ms @ '' ms passed before the request was written''))
          [(''deadline_ms'', json_number (int ms))])
      else NotSent (refusal Transport
        (ascii ''writing the request to '' @ socket @ ascii '' failed: '' @ io_shown e)
        (at_path socket # (case io_errno e of None \<Rightarrow> [] | Some errno \<Rightarrow> [(''errno'', json_number errno)]))))"

definition converse ::
  "utext \<Rightarrow> nat \<Rightarrow> u8 list \<Rightarrow> nat attempt list \<Rightarrow> u8 list attempt list \<Rightarrow> (unreplied_reason + u8 list) option" where
  "converse socket ms request writes ins =
     (case send (length request) 0 writes of
        None \<Rightarrow> None
      | Some (Inl (e, written)) \<Rightarrow> Some (Err (unsent written e socket ms))
      | Some (Inr _) \<Rightarrow> map_option (\<lambda>r. map_err Unanswered (fst r)) (read_reply (map bounded ins)))"

definition exchange_with ::
  "(utext \<Rightarrow> utext) \<Rightarrow> (private_socket_error + unit) \<Rightarrow> utext \<Rightarrow> u32 \<Rightarrow> nat \<Rightarrow> u8 list \<Rightarrow>
   nat attempt list \<Rightarrow> u8 list attempt list \<Rightarrow> (unreplied_reason + u8 list) option" where
  "exchange_with dbg peer socket trusted_uid ms request writes ins =
     (case peer of
        Inl e \<Rightarrow> Some (Err (NotSent (map_refusal dbg e socket SocketFlag trusted_uid)))
      | Inr _ \<Rightarrow> converse socket ms request writes ins)"

definition unreplied_error :: "unreplied_reason \<Rightarrow> bool \<Rightarrow> client_error" where
  "unreplied_error r changes_state =
     (case r of
        NotSent e \<Rightarrow> e
      | Unanswered failure \<Rightarrow> unanswered failure changes_state
      | CutOff e \<Rightarrow> cut_off e changes_state)"

definition answer ::
  "(utext \<Rightarrow> utext) \<Rightarrow> bool \<Rightarrow> (private_socket_error + unit) \<Rightarrow> utext \<Rightarrow> u32 \<Rightarrow> nat \<Rightarrow> u8 list \<Rightarrow>
   nat attempt list \<Rightarrow> u8 list attempt list \<Rightarrow> (error_body + json) option" where
  "answer dbg changes_state peer socket trusted_uid ms request writes ins =
     map_option (\<lambda>r.
       and_then (map_err (\<lambda>u. ClientBody (unreplied_error u changes_state)) r) (\<lambda>line.
       and_then (map_err ClientBody (judge_reply line)) (\<lambda>reply.
         case reply of ResultReply v \<Rightarrow> Ok v | KernelReply k \<Rightarrow> Err (KernelBody k))))
       (exchange_with dbg peer socket trusted_uid ms request writes ins)"

section \<open>Codes of the refusals\<close>

lemma refusal_code:
  "distinct (map fst flds) \<Longrightarrow> \<forall>f \<in> set flds. fst f \<notin> {''domain'', ''code'', ''message''} \<and> \<not> repeats_a_key (snd f) \<Longrightarrow>
   ce_code (refusal code message flds) = code"
  by (simp add: refusal_Ok)

lemma bad_reply_code [simp]: "ce_code (bad_reply detail) = BadReply"
  by (simp add: bad_reply_def refusal_code)

lemma unreplied_code:
  "ce_code (unreplied failure cause what changes) =
   (if changes then OutcomeUnknown else if failure = TooLargeReply then ReplyTooLarge else NoReply)"
  by (auto simp: unreplied_def refusal_code max_bytes_def)

lemma unanswered_code:
  "ce_code (unanswered failure changes) =
   (if changes then OutcomeUnknown else if failure = TooLargeReply then ReplyTooLarge else NoReply)"
  by (simp add: unanswered_def unreplied_code split: prod.splits)

lemma cut_off_code: "ce_code (cut_off e changes) = (if changes then OutcomeUnknown else NoReply)"
  by (auto simp: cut_off_def Let_def unreplied_code failure_of_def)

lemma unsent_0: "unsent 0 e socket ms = NotSent c \<Longrightarrow> ce_code c \<in> {DeadlinePassed, Transport}"
  by (auto simp: unsent_def at_path_def refusal_code split: if_splits option.splits)

lemma unsent_cases:
  "(0 < written \<and> unsent written e socket ms = CutOff e) \<or>
   (written = 0 \<and> (\<exists>c. unsent written e socket ms = NotSent c \<and> ce_code c \<in> {DeadlinePassed, Transport}))"
  using unsent_0 [of e socket ms] by (cases "written = 0") (auto simp: unsent_def split: if_splits)

lemma map_refusal_not_unknown: "ce_code (map_refusal dbg e checked origin uid) \<noteq> OutcomeUnknown"
  by (cases e) (auto simp: map_refusal_code unsafe_socket_def split: path_origin.splits)

section \<open>What a judged reply is\<close>

lemma find_upt: "List.find P [0 ..< b] = Some i \<longleftrightarrow> i < b \<and> P i \<and> (\<forall>j < i. \<not> P j)"
proof -
  have "[0 ..< b] ! j = j" if "j < b" for j using that by simp
  then show ?thesis unfolding find_Some_iff by (auto dest: less_trans)
qed

lemma position_of_Some: "position_of members key = Some i \<Longrightarrow> member_of members key = Some (snd (members ! i)) \<and> i < length members \<and> fst (members ! i) = key"
proof -
  assume "position_of members key = Some i"
  then have i: "i < length members" "fst (members ! i) = key" "\<forall>j < i. fst (members ! j) \<noteq> key"
    by (auto simp: position_of_def find_upt)
  then have "List.find (\<lambda>m. fst m = key) members = Some (members ! i)" by (auto simp: find_Some_iff)
  with i show ?thesis by (simp add: member_of_def)
qed

lemma position_of_None: "position_of members key = None \<longleftrightarrow> member_of members key = None"
proof -
  have "key \<notin> set (map fst members) \<longleftrightarrow> (\<forall>i < length members. fst (members ! i) \<noteq> key)"
    by (auto simp: in_set_conv_nth simp del: set_map)
  then show ?thesis unfolding position_of_def find_None_iff member_of_None by auto
qed

lemma member_of_other:
  "i < length members \<Longrightarrow> fst (members ! i) \<noteq> key \<Longrightarrow>
   member_of (members[i := (fst (members ! i), v)]) key = member_of members key"
proof (induction members arbitrary: i)
  case (Cons m ms)
  then show ?case by (cases i) (auto simp: member_of_def)
qed simp

definition error_valid :: "json option \<Rightarrow> json \<Rightarrow> bool" where
  "error_valid i e \<longleftrightarrow>
     (is_one i \<or> i = Some JNull \<and> (\<exists>n \<in> {- 32700, - 32600}. code_of (json_get e (ascii ''code'')) = IntegerCode (Some n))) \<and>
     code_of (json_get e (ascii ''code'')) \<noteq> NotInteger \<and> (\<exists>t. json_get e (ascii ''message'') = Some (JString t))"

lemma judge_error_Ok:
  "judge_error i e = Ok r \<longleftrightarrow> (\<exists>k. r = KernelReply k \<and> kernel_error_new e = Ok k \<and> error_valid i e)"
proof -
  have "kernel_error_new e = Ok k \<Longrightarrow> is_object e" for k by (auto simp: kernel_error_new_Ok is_object_def)
  then show ?thesis
    by (auto simp: judge_error_def Let_def error_valid_def split: sum.splits option.splits json.splits)
qed

lemma judge_error_bad: "judge_error i e = Err c \<Longrightarrow> ce_code c = BadReply"
  by (auto simp: judge_error_def Let_def split: if_splits sum.splits)

definition judged :: "u8 list \<Rightarrow> reply \<Rightarrow> bool" where
  "judged line r \<longleftrightarrow>
     (\<exists>members. scan line = Ok (JObject members) \<and>
       (case r of
          ResultReply v \<Rightarrow>
            is_one (member_of members (ascii ''id'')) \<and> member_of members (ascii ''error'') = None \<and>
            member_of members (ascii ''result'') = Some v \<and> is_object v
        | KernelReply k \<Rightarrow>
            member_of members (ascii ''result'') = None \<and>
            (\<exists>e. member_of members (ascii ''error'') = Some e \<and> kernel_error_new e = Ok k \<and>
              error_valid (member_of members (ascii ''id'')) e)))"

lemma judge_members:
  assumes "scan line = Ok (JObject members)"
  shows "judge_reply line = Ok r \<longleftrightarrow> judged line r"
proof -
  let ?res = "position_of members (ascii ''result'')" and ?err = "position_of members (ascii ''error'')"
  have id: "member_of (members[i := (fst (members ! i), JNull)]) (ascii ''id'') = member_of members (ascii ''id'')"
    if "?err = Some i" for i
    using position_of_Some [OF that] by (intro member_of_other) simp_all
  consider i j where "?res = Some i" "?err = Some j" | "?res = None" "?err = None"
    | i where "?res = Some i" "?err = None" | j where "?res = None" "?err = Some j"
    by (cases ?res; cases ?err) auto
  then show ?thesis
  proof cases
    case (4 j)
    note m = position_of_Some [OF 4(2)] position_of_None [of members "ascii ''result''", unfolded 4(1), simplified]
    have "judge_reply line = judge_error (member_of members (ascii ''id'')) (snd (members ! j))"
      using 4 id [OF 4(2)] by (simp add: judge_reply_def assms)
    with m show ?thesis by (cases r) (auto simp: judged_def assms judge_error_Ok)
  next
    case (3 i)
    note m = position_of_Some [OF 3(1)] position_of_None [of members "ascii ''error''", unfolded 3(2), simplified]
    with 3 show ?thesis by (cases r) (auto simp: judge_reply_def judged_def assms)
  next
    case (1 i j)
    with position_of_Some [OF 1(1)] position_of_Some [OF 1(2)] show ?thesis
      by (cases r) (auto simp: judge_reply_def judged_def assms)
  next
    case 2
    with position_of_None [of members "ascii ''result''"] position_of_None [of members "ascii ''error''"] show ?thesis
      by (cases r) (auto simp: judge_reply_def judged_def assms)
  qed
qed

lemma judge_reply_Ok: "judge_reply line = Ok r \<longleftrightarrow> judged line r"
proof (cases "\<exists>members. scan line = Ok (JObject members)")
  case True
  then show ?thesis using judge_members by blast
next
  case False
  then show ?thesis by (auto simp: judge_reply_def judged_def and_then_eq_Inr split: json.splits)
qed

lemma judge_reply_bad: "judge_reply line = Err c \<Longrightarrow> ce_code c = BadReply"
proof -
  assume bad: "judge_reply line = Err c"
  show ?thesis
  proof (cases "scan line")
    case (Inl e)
    with bad show ?thesis by (auto simp: judge_reply_def)
  next
    case (Inr v)
    show ?thesis
    proof (cases "\<exists>members. v = JObject members")
      case False
      with bad Inr show ?thesis by (cases v) (auto simp: judge_reply_def)
    next
      case True
      then obtain members where v: "v = JObject members" by blast
      define i j where "i = position_of members (ascii ''result'')" "j = position_of members (ascii ''error'')"
      show ?thesis
        using bad unfolding judge_reply_def Inr v map_err_simps and_then_simps json.case i_j_def [symmetric]
        by (auto dest: judge_error_bad split: option.splits if_splits)
    qed
  qed
qed

lemma reply_not_client: "(case r of ResultReply v \<Rightarrow> Ok v | KernelReply k \<Rightarrow> Err (KernelBody k)) \<noteq> Err (ClientBody e)"
  by (cases r) auto

section \<open>A line that arrives is read\<close>

text \<open>The bytes that reads bring when none fails but for an interruption and the input does not end.\<close>

fun payload :: "(io_error + u8 list) list \<Rightarrow> u8 list option" where
  "payload [] = Some []"
| "payload (Inl e # rest) = (if io_kind_of e = Interrupted then payload rest else None)"
| "payload (Inr bytes # rest) = (if bytes = [] then None else map_option (append bytes) (payload rest))"

lemma take_line:
  assumes "bytes @ p = line @ stop # after" "stop \<notin> set line" "length line < length bytes" "length line < left"
  shows "stop \<in> set (take left bytes) \<and> takeWhile (\<lambda>b. b \<noteq> stop) (take left bytes) = line \<and>
    take (Suc (length line)) bytes = line @ [stop]"
proof -
  from assms(1,3) obtain us where us: "bytes = line @ us" "us @ p = stop # after" "us \<noteq> []"
    by (auto simp: append_eq_append_conv2)
  then obtain tail where tail: "bytes = line @ stop # tail" by (cases us) auto
  then have "take left bytes = line @ stop # take (left - length line - 1) tail"
    using assms(4) by (cases "left - length line") auto
  moreover have "takeWhile (\<lambda>b. b \<noteq> stop) (line @ stop # xs) = line" for xs
    using assms(2) by (induction line) auto
  ultimately show ?thesis by (simp add: tail)
qed

lemma read_until_line:
  "payload ins = Some (line @ stop # after) \<Longrightarrow> stop \<notin> set line \<Longrightarrow> length line < left \<Longrightarrow>
   \<exists>rest. read_until stop left acc ins = Some (Ok (acc @ line @ [stop]), rest)"
proof (induction ins arbitrary: line acc left)
  case (Cons x ins)
  show ?case
  proof (cases x)
    case (Inl e)
    with Cons show ?thesis by (subst read_until.simps) (auto split: if_splits)
  next
    case (Inr bytes)
    with Cons.prems(1) obtain p where p: "payload ins = Some p" "bytes @ p = line @ stop # after" "bytes \<noteq> []"
      by (auto split: if_splits)
    show ?thesis
    proof (cases "length line < length bytes")
      case True
      from take_line [OF p(2) Cons.prems(2) True Cons.prems(3)] Cons.prems(3) p(3) show ?thesis
        by (subst read_until.simps) (simp add: Inr Let_def)
    next
      case False
      with p(2) obtain line' where line: "line = bytes @ line'" "p = line' @ stop # after"
        by (auto simp: append_eq_append_conv2)
      with Cons.prems(2,3) have "stop \<notin> set bytes" "length bytes < left" "take left bytes = bytes" by auto
      moreover have "\<exists>rest. read_until stop (left - length bytes) (acc @ bytes) ins =
          Some (Ok ((acc @ bytes) @ line' @ [stop]), rest)"
        using p(1) line Cons.prems(2,3) by (intro Cons.IH) auto
      ultimately show ?thesis using p(3) by (subst read_until.simps) (auto simp: Inr Let_def line)
    qed
  qed
qed simp

lemma read_reply_line:
  assumes "payload ins = Some (line @ NEWLINE # after)" "NEWLINE \<notin> set line" "length line \<le> MAX_REPLY_BYTES"
  shows "\<exists>rest. read_reply ins = Some (Ok line, rest)"
proof -
  from read_until_line [OF assms(1,2), of "MAX_REPLY_BYTES + 1" "[]"] assms(3) obtain rest where
    "read_until NEWLINE (MAX_REPLY_BYTES + 1) [] ins = Some (Ok (line @ [NEWLINE]), rest)" by auto
  then show ?thesis by (simp add: read_reply_def)
qed

lemma encode_utf8_low: "b \<in> set (encode_utf8 c) \<Longrightarrow> b < 0x80 \<Longrightarrow> b = c"
  by (auto simp: encode_utf8_def split: if_splits)

lemma newline_free:
  assumes "\<forall>c \<in> set t. is_scalar c" "0x0A \<notin> set t"
  shows "NEWLINE \<notin> set (map of_nat (utf8_bytes t))"
proof
  assume "NEWLINE \<in> set (map of_nat (utf8_bytes t))"
  then obtain c b where cb: "c \<in> set t" "b \<in> set (encode_utf8 c)" "(of_nat b :: u8) = 0x0A"
    by (auto simp: utf8_bytes_def)
  with assms(1) have "b < 256" by (auto dest: encode_utf8_byte)
  then have "b = unat (of_nat b :: u8)" by (simp add: unat_of_nat)
  with cb(3) have "b = 0x0A" by simp
  with encode_utf8_low [OF cb(2)] cb(1) assms(2) show False by auto
qed

lemma written_scalars: "wf_json v \<Longrightarrow> \<forall>c \<in> set (write_compact v). is_scalar c"
  using render_safe [of v _ Compact 0] by (auto simp: write_compact_def write_value_render shows_safely_def)

text \<open>The compact reply that carries a result is one line that reads as itself.\<close>

definition result_reply :: "json \<Rightarrow> json" where
  "result_reply v = JObject [(ascii ''id'', JNumber (ascii ''1'')), (ascii ''result'', v)]"

lemma wf_result_reply: "wf_json v \<Longrightarrow> wf_json (result_reply v)"
  by (simp add: result_reply_def schema_number is_scalar_def)

lemma compact_result_reply:
  assumes "wf_json v" "length (utf8_bytes (write_compact (result_reply v))) \<le> MAX_REPLY_BYTES"
  shows "scan (map of_nat (utf8_bytes (write_compact (result_reply v)))) = Ok (result_reply v) \<and>
    NEWLINE \<notin> set (map of_nat (utf8_bytes (write_compact (result_reply v))))"
  using scan_write [OF wf_result_reply [OF assms(1)] assms(2)] wf_result_reply [OF assms(1)]
    newline_free [OF written_scalars no_line_break] by blast

section \<open>Promises\<close>

text \<open>
  C17. A reply is accepted exactly when it follows the protocol. It is a result exactly when the line is
  one object with the request's identifier, an object as its result and no error; it is the daemon's
  error exactly when it has no result and an error object with an integer code, a message and no domain,
  under the request's identifier or, for the two codes of the connection loop, none; everything else is
  one \<open>bad_reply\<close>.\<close>

theorem judge_reply_exact:
  "(judge_reply line = Ok r \<longleftrightarrow>
    (\<exists>members. scan line = Ok (JObject members) \<and>
       (case r of
          ResultReply v \<Rightarrow>
            is_one (member_of members (ascii ''id'')) \<and> member_of members (ascii ''error'') = None \<and>
            member_of members (ascii ''result'') = Some v \<and> is_object v
        | KernelReply k \<Rightarrow>
            member_of members (ascii ''result'') = None \<and>
            (\<exists>e. member_of members (ascii ''error'') = Some e \<and> kernel_error_new e = Ok k \<and>
              error_valid (member_of members (ascii ''id'')) e)))) \<and>
   (case judge_reply line of Inl c \<Rightarrow> ce_code c = BadReply | Inr _ \<Rightarrow> True)"
  unfolding judge_reply_Ok judged_def [symmetric] using judge_reply_bad [of line] by (auto split: sum.splits)

text \<open>
  C18. The exit status tells whether anything was sent. When a request that changes state ends in an error of
  the client's own (not in an error reply of the daemon, which only comes once the whole request was written)
  whose status is \<open>unavailable\<close> or \<open>refused\<close>, which say that nothing can have changed, then no byte of it was
  written; and such an error has the status \<open>outcome unknown\<close> only for a request that changes state and of
  which at least one byte was written to the trusted peer.\<close>

theorem exit_status_is_honest:
  assumes "answer dbg changes peer socket uid ms request writes ins = Some (Err (ClientBody e))"
  shows "(changes \<and> code_exit (ce_code e) \<in> {XUnavailable, XRefused} \<longrightarrow>
      (\<exists>x. peer = Err x) \<or> (\<exists>x. send (length request) 0 writes = Some (Err (x, 0)))) \<and>
    (code_exit (ce_code e) = XOutcomeUnknown \<longrightarrow>
      changes \<and> peer = Ok () \<and>
      (send (length request) 0 writes = Some (Ok ()) \<or>
       (\<exists>x n. 0 < n \<and> send (length request) 0 writes = Some (Err (x, n)))))"
proof -
  from assms obtain r where r: "exchange_with dbg peer socket uid ms request writes ins = Some r"
    and e: "(\<exists>u. r = Err u \<and> e = unreplied_error u changes) \<or> (\<exists>line c. r = Ok line \<and> judge_reply line = Err e)"
    by (auto simp: answer_def and_then_eq_Inl map_err_eq_Inl reply_not_client)
  show ?thesis
  proof (cases peer)
    case (Inl x)
    with r e have "e = map_refusal dbg x socket SocketFlag uid" by (auto simp: exchange_with_def unreplied_error_def)
    then have "code_exit (ce_code e) \<noteq> XOutcomeUnknown"
      using map_refusal_not_unknown [of dbg x socket SocketFlag uid] by (cases "ce_code e") auto
    with Inl show ?thesis by simp
  next
    case (Inr u)
    with r have conv: "converse socket ms request writes ins = Some r" by (simp add: exchange_with_def)
    have "(\<exists>x n. send (length request) 0 writes = Some (Err (x, n)) \<and> r = Err (unsent n x socket ms)) \<or>
        send (length request) 0 writes = Some (Ok ()) \<and> (\<exists>q. r = map_err Unanswered q)"
      using conv by (auto simp: converse_def split: option.splits sum.splits)
    then consider x n where "send (length request) 0 writes = Some (Err (x, n))" "r = Err (unsent n x socket ms)"
      | q where "send (length request) 0 writes = Some (Ok ())" "r = map_err Unanswered q"
      by blast
    then show ?thesis
    proof cases
      case (1 x n)
      with e have "e = unreplied_error (unsent n x socket ms) changes" by auto
      with 1 Inr unsent_cases [of n x socket ms] show ?thesis
        by (auto simp: unreplied_error_def cut_off_code split: if_splits)
    next
      case (2 q)
      from e have "(\<exists>f. e = unanswered f changes) \<or> ce_code e = BadReply"
        using 2(2) judge_reply_bad by (auto simp: unreplied_error_def map_err_eq_Inl)
      then consider f where "e = unanswered f changes" | "ce_code e = BadReply" by blast
      then show ?thesis using 2 Inr by cases (auto simp: unanswered_code split: if_splits)
    qed
  qed
qed

theorem exit_status_is_honest_witness:
  "\<exists>e. answer id True (Ok ()) [0x2F] 0 10 [0x7B, 0x7D]
       [\<lparr>at_left = 5, at_bound = Ok (), at_result = Ok 1\<rparr>, \<lparr>at_left = 0, at_bound = Ok (), at_result = Ok 1\<rparr>] [] =
     Some (Err (ClientBody e)) \<and>
   code_exit (ce_code e) = XOutcomeUnknown \<and>
   (\<exists>x n. 0 < n \<and> send 2 0 [\<lparr>at_left = 5, at_bound = Ok (), at_result = Ok 1\<rparr>,
     \<lparr>at_left = 0, at_bound = Ok (), at_result = Ok 1\<rparr>] = Some (Err (x, n)))"
proof -
  let ?w = "[\<lparr>at_left = 5, at_bound = Ok (), at_result = Ok 1\<rparr>, \<lparr>at_left = 0, at_bound = Ok (), at_result = Ok (1::nat)\<rparr>]"
  have sent: "send 2 0 ?w = Some (Err (timed_out, 1))"
    by (simp add: send.simps [of 2] bounded_def timed_out_def)
  define e where "e = cut_off timed_out True"
  have run: "answer id True (Ok ()) [0x2F] 0 10 [0x7B, 0x7D] ?w [] = Some (Err (ClientBody e))"
    using sent by (simp add: numeral_2_eq_2 answer_def exchange_with_def converse_def unsent_def unreplied_error_def e_def)
  have "code_exit (ce_code e) = XOutcomeUnknown" by (simp add: e_def cut_off_code)
  with exit_status_is_honest [OF run] run sent show ?thesis by auto
qed

text \<open>
  C19. A result that arrives is delivered. Once the request was written whole, whatever line the daemon sends
  that reads as an object with the id 1, no \<open>error\<close> and an object as its \<open>result\<close>, however it is spelled, that
  result comes out as it is, however the line is cut into reads and however often a read is interrupted, and
  whatever follows the line.\<close>

theorem answer_delivers:
  assumes "scan line = Ok (JObject members)" "NEWLINE \<notin> set line"
    and "is_one (member_of members (ascii ''id''))" "member_of members (ascii ''error'') = None"
    and "member_of members (ascii ''result'') = Some v" "is_object v"
    and "send (length request) 0 writes = Some (Ok ())"
    and "payload (map bounded ins) = Some (line @ NEWLINE # after)"
  shows "answer dbg changes (Ok ()) socket uid ms request writes ins = Some (Ok v)"
proof -
  have "length line \<le> MAX_REPLY_BYTES" using assms(1) by (auto simp: scan_def split: if_splits)
  from read_reply_line [OF assms(8,2) this]
  obtain rest where "read_reply (map bounded ins) = Some (Ok line, rest)" by auto
  then have "exchange_with dbg (Ok ()) socket uid ms request writes ins = Some (Ok line)"
    using assms(7) by (simp add: exchange_with_def converse_def)
  moreover have "judged line (ResultReply v)" using assms(1,3-6) by (simp add: judged_def)
  then have "judge_reply line = Ok (ResultReply v)" by (simp add: judge_reply_Ok)
  ultimately show ?thesis by (simp add: answer_def)
qed

text \<open>A reply with its result before its id and with spaces, \<open>{ "result":{}, "id": 1}\<close>, read in two pieces.\<close>

definition demo_reply :: utext where
  "demo_reply = [0x7B, 0x20, 0x22, 0x72, 0x65, 0x73, 0x75, 0x6C, 0x74, 0x22, 0x3A, 0x7B, 0x7D, 0x2C, 0x20, 0x22, 0x69, 0x64,
     0x22, 0x3A, 0x20, 0x31, 0x7D]"

lemma scan_demo_reply:
  "scan (map of_nat demo_reply) = Ok (JObject [(ascii ''result'', JObject []), (ascii ''id'', JNumber [0x31])])"
proof -
  have "doc_value [] (demo_reply, 0) = Ok (JObject [(ascii ''result'', JObject []), (ascii ''id'', JNumber [0x31])])"
    by code_simp
  moreover have "map unat (map of_nat demo_reply :: u8 list) = demo_reply" "from_utf8 0 demo_reply = Ok demo_reply"
    "length demo_reply \<le> MAX_REPLY_BYTES"
    by (simp_all add: demo_reply_def from_utf8.simps MAX_REPLY_BYTES_def)
  ultimately show ?thesis by (simp add: scan_def)
qed

theorem answer_delivers_witness:
  "answer id True (Ok ()) [0x2F] 0 10 [0x7B] [\<lparr>at_left = 5, at_bound = Ok (), at_result = Ok 1\<rparr>]
     [\<lparr>at_left = 5, at_bound = Ok (), at_result = Ok (take 4 (map of_nat demo_reply))\<rparr>,
      \<lparr>at_left = 4, at_bound = Ok (), at_result = Err (timed_out\<lparr>io_kind_of := Interrupted\<rparr>)\<rparr>,
      \<lparr>at_left = 3, at_bound = Ok (), at_result = Ok (drop 4 (map of_nat demo_reply) @ [NEWLINE])\<rparr>] =
   Some (Ok (JObject []))"
proof (rule answer_delivers [OF scan_demo_reply])
  show "NEWLINE \<notin> set (map of_nat demo_reply)" by (simp add: demo_reply_def)
  show "is_one (member_of [(ascii ''result'', JObject []), (ascii ''id'', JNumber [0x31])] (ascii ''id''))"
    "member_of [(ascii ''result'', JObject []), (ascii ''id'', JNumber [0x31])] (ascii ''error'') = None"
    "member_of [(ascii ''result'', JObject []), (ascii ''id'', JNumber [0x31])] (ascii ''result'') = Some (JObject [])"
    by (simp_all add: is_one_def member_of_def)
  show "send (length ([0x7B] :: u8 list)) 0 [\<lparr>at_left = 5, at_bound = Ok (), at_result = Ok 1\<rparr>] = Some (Ok ())"
    by (simp add: send.simps bounded_def)
qed (simp_all add: is_object_def bounded_def demo_reply_def)

end
