(* ===== verification/Client_Request.thy ===== *)
theory Client_Request
  imports Client_Reply
begin

text \<open>
  The request a served command sends: \<open>crates/plasmosome-cli/src/args.rs\<close>, and of \<open>verb.rs\<close> the request
  line, its bound with the argument to blame, and the deadline written into it. A command line argument
  is its text; text fixed in the source (keys, methods, flags) is a literal.
\<close>

section \<open>Arguments\<close>

datatype flag_kind = TextFlag | IntegerFlag | BareFlag | MockFlag

record flag =
  fl_name :: string
  fl_key :: string
  fl_kind :: flag_kind

definition kind_takes_value :: "flag_kind \<Rightarrow> bool" where
  "kind_takes_value k \<longleftrightarrow> k = TextFlag \<or> k = IntegerFlag"

definition flag_matches :: "flag \<Rightarrow> utext \<Rightarrow> bool" where
  "flag_matches f t \<longleftrightarrow>
     t = ascii (fl_name f) \<or>
     (fl_kind f = MockFlag \<and>
      (case strip_prefix (ascii (fl_name f)) t of
         Some (c # _) \<Rightarrow> c = 0x3D
       | _ \<Rightarrow> False))"

datatype instance_param = NameParam | KernelParam

fun instance_key :: "instance_param \<Rightarrow> string" where
  "instance_key NameParam = ''name''"
| "instance_key KernelParam = ''kernel''"

datatype arg_source = FlagSource string | PositionalSource string | ArgvSource

record param =
  pm_key :: string
  pm_value :: json
  pm_source :: arg_source

record verb_call =
  vc_method :: string
  vc_instance :: instance_param
  vc_params :: "param list"
  vc_deadline :: "nat option option"

datatype sent = SentText utext | SentNumber utext | SentTrue | SentArgv "utext list"

record given =
  gv_source :: arg_source
  gv_position :: nat
  gv_argument :: utext
  gv_sent :: sent

record command_args =
  ca_given :: "given list"
  ca_kernel_at :: "nat option"

definition args_empty :: command_args where
  "args_empty = \<lparr>ca_given = [], ca_kernel_at = None\<rparr>"

text \<open>Where the \<open>expect\<close> would panic, for digits the parse did not check, there is no value.\<close>

fun sent_value :: "sent \<Rightarrow> json option" where
  "sent_value (SentText t) = Some (JString t)"
| "sent_value (SentNumber t) = (case number_new t of Inr n \<Rightarrow> Some (JNumber n) | Inl _ \<Rightarrow> None)"
| "sent_value SentTrue = Some (JBool True)"
| "sent_value (SentArgv argv) = Some (JArray (map JString argv))"

definition args_param :: "command_args \<Rightarrow> arg_source \<Rightarrow> string \<Rightarrow> param option" where
  "args_param args source key =
     (case List.find (\<lambda>g. gv_source g = source) (ca_given args) of
        None \<Rightarrow> None
      | Some g \<Rightarrow> map_option (\<lambda>v. \<lparr>pm_key = key, pm_value = v, pm_source = source\<rparr>) (sent_value (gv_sent g)))"

definition args_flag :: "command_args \<Rightarrow> flag \<Rightarrow> param option" where
  "args_flag args f = args_param args (FlagSource (fl_name f)) (fl_key f)"

definition args_positional :: "command_args \<Rightarrow> string \<Rightarrow> string \<Rightarrow> param option" where
  "args_positional args operand key = args_param args (PositionalSource operand) key"

definition args_argv :: "command_args \<Rightarrow> string \<Rightarrow> param option" where
  "args_argv args key = args_param args ArgvSource key"

definition args_give :: "arg_source \<Rightarrow> nat \<Rightarrow> utext \<Rightarrow> sent \<Rightarrow> command_args \<Rightarrow> command_args" where
  "args_give source position argument s args =
     args\<lparr>ca_given := ca_given args @
       [\<lparr>gv_source = source, gv_position = position, gv_argument = argument, gv_sent = s\<rparr>]\<rparr>"

definition args_locate :: "command_args \<Rightarrow> arg_source \<Rightarrow> (nat \<times> utext) option" where
  "args_locate args source =
     map_option (\<lambda>g. (gv_position g, gv_argument g)) (List.find (\<lambda>g. gv_source g = source) (ca_given args))"

definition is_integer :: "utext \<Rightarrow> bool" where
  "is_integer t \<longleftrightarrow>
     t = ascii ''0'' \<or>
     (case t of [] \<Rightarrow> False | c # _ \<Rightarrow> 0x31 \<le> c \<and> c \<le> 0x39) \<and> list_all is_digit t"

section \<open>The request line\<close>

definition MAX_REQUEST_BYTES :: nat where "MAX_REQUEST_BYTES = 1048576"

definition SHORTEST_NAME :: utext where "SHORTEST_NAME = ascii ''x''"

definition U64_MAX :: nat where "U64_MAX = 2 ^ 64 - 1"

text \<open>\<open>deadline_ms\<close>, from the time left in nanoseconds: a tenth of it, at most a second, is kept back.\<close>

definition request_deadline_ms :: "nat \<Rightarrow> nat option \<Rightarrow> nat" where
  "request_deadline_ms left_ns max_ms =
     (let left = (if left_ns div 1000000 \<le> U64_MAX then left_ns div 1000000 else U64_MAX);
          margin = min (left div 10) 1000 in
      max (min (left - margin) (case max_ms of Some m \<Rightarrow> m | None \<Rightarrow> U64_MAX)) 1)"

definition call_repeats_a_key :: "verb_call \<Rightarrow> bool" where
  "call_repeats_a_key call =
     list_ex (\<lambda>i. (let p = vc_params call ! i in
         pm_key p = instance_key (vc_instance call) \<or> pm_key p = ''deadline_ms'' \<or>
         list_ex (\<lambda>q. pm_key q = pm_key p) (take i (vc_params call)) \<or> repeats_a_key (pm_value p)))
       [0 ..< length (vc_params call)]"

definition request_members :: "verb_call \<Rightarrow> utext option \<Rightarrow> nat option \<Rightarrow> (string \<times> json) list" where
  "request_members call name deadline =
     (case name of None \<Rightarrow> [] | Some n \<Rightarrow> [(instance_key (vc_instance call), JString n)]) @
     map (\<lambda>p. (pm_key p, pm_value p)) (vc_params call) @
     (case deadline of None \<Rightarrow> [] | Some ms \<Rightarrow> [(''deadline_ms'', json_number (int ms))])"

definition request :: "verb_call \<Rightarrow> utext option \<Rightarrow> nat option \<Rightarrow> utext" where
  "request call name deadline =
     (let members = request_members call name deadline in
      ascii ''{'' @ [QUOTE] @ ascii ''id'' @ [QUOTE] @ ascii '':1,'' @ [QUOTE] @ ascii ''method'' @ [QUOTE] @ ascii '':'' @
      write_compact (JString (ascii (vc_method call))) @
      ascii '','' @ [QUOTE] @ ascii ''params'' @ [QUOTE] @ ascii '':{'' @
      concat (map (\<lambda>i. (if 0 < i then [COMMA] else []) @
          write_compact (JString (ascii (fst (members ! i)))) @ COLON # write_compact (snd (members ! i)))
        [0 ..< length members]) @
      ascii ''}}'' @ [0x0A])"

section \<open>Its bound\<close>

text \<open>A name to measure with, and where it stands on the command line when it was given there.\<close>

record measured_name =
  mn_text :: utext
  mn_given_at :: "nat option"

definition USIZE_MAX :: nat where "USIZE_MAX = 2 ^ 64 - 1"

definition name_not_given :: "utext \<Rightarrow> measured_name" where
  "name_not_given t = \<lparr>mn_text = t, mn_given_at = None\<rparr>"

text \<open>\<open>early\<close>; \<open>variable\<close> is what reading \<open>PLASMOSOME_KERNEL\<close> gave.\<close>

definition early ::
  "utext option \<Rightarrow> utext option \<Rightarrow> (client_error + utext option) \<Rightarrow> command_args \<Rightarrow> measured_name option" where
  "early kern socket variable args =
     (let given = (\<lambda>t at. \<lparr>mn_text = t, mn_given_at = Some (case at of Some n \<Rightarrow> n | None \<Rightarrow> USIZE_MAX)\<rparr>) in
      case (kern, socket) of
        (Some name, _) \<Rightarrow> Some (given name (ca_kernel_at args))
      | (None, Some _) \<Rightarrow> None
      | (None, None) \<Rightarrow>
          Some (case variable of
                  Inr (Some name) \<Rightarrow> given name None
                | _ \<Rightarrow> name_not_given SHORTEST_NAME))"

datatype culprit = CulpritName | CulpritParam nat

record over =
  ov_bytes :: nat
  ov_culprit :: culprit

definition written_size :: "json \<Rightarrow> nat" where
  "written_size v = length (utf8_bytes (write_compact v))"

text \<open>\<open>min_by_key\<close>: the first of the least, by more written bytes and then by an earlier argument.\<close>

fun least_culprit :: "(nat \<times> nat \<times> culprit) list \<Rightarrow> culprit option" where
  "least_culprit [] = None"
| "least_culprit [(w, at, c)] = Some c"
| "least_culprit ((w, at, c) # (w', at', c') # rest) =
     (if w' < w \<or> (w' = w \<and> at \<le> at') then least_culprit ((w, at, c) # rest)
      else least_culprit ((w', at', c') # rest))"

definition measure_request :: "verb_call \<Rightarrow> command_args \<Rightarrow> measured_name option \<Rightarrow> nat \<Rightarrow> over option" where
  "measure_request call args name total_ns =
     (let widest = map_option (\<lambda>limit. request_deadline_ms total_ns limit) (vc_deadline call);
          bytes = length (utf8_bytes (request call (map_option mn_text name) widest)) - 1 in
      if bytes \<le> MAX_REQUEST_BYTES then None
      else
        (let params = map (\<lambda>i. (let p = vc_params call ! i in
               (written_size (pm_value p),
                case args_locate args (pm_source p) of None \<Rightarrow> USIZE_MAX | Some (at, _) \<Rightarrow> at, CulpritParam i)))
               [0 ..< length (vc_params call)];
             named = (case name of
                 None \<Rightarrow> []
               | Some n \<Rightarrow>
                   (case mn_given_at n of
                      None \<Rightarrow> []
                    | Some at \<Rightarrow> [(written_size (JString (mn_text n)), at, CulpritName)])) in
         map_option (\<lambda>c. \<lparr>ov_bytes = bytes, ov_culprit = c\<rparr>) (least_culprit (params @ named))))"

definition described :: "param \<Rightarrow> command_args \<Rightarrow> utext \<times> utext" where
  "described p args =
     (case (case pm_source p of
              FlagSource f \<Rightarrow> (f @ [CHR 0x27] @ ''s value'', f)
            | PositionalSource operand \<Rightarrow> (operand, operand)
            | ArgvSource \<Rightarrow> (''the argv after --'', ''--'')) of
        (subject, label) \<Rightarrow>
          (ascii subject, case args_locate args (pm_source p) of None \<Rightarrow> ascii label | Some (_, a) \<Rightarrow> a))"

definition too_large :: "utext \<Rightarrow> nat \<Rightarrow> utext \<Rightarrow> client_error" where
  "too_large subject bytes argument =
     refusal InvalidArgument
       (subject @ ascii ('' makes the request line '' @ show_nat bytes @
          '' bytes before its newline, and a daemon reads at most '' @ show_nat MAX_REQUEST_BYTES))
       [(''argument'', json_text argument)]"

definition lost_answer :: "io_error \<Rightarrow> client_error" where
  "lost_answer e =
     refusal OutcomeUnknown
       (ascii ''the daemon answered, but its answer could not be written to stdout: '' @ io_shown e @
        ascii ''; observe before repeating the request'')
       [(''cause'', json_text (ascii ''local_io''))]"

definition local_io :: "io_error \<Rightarrow> client_error" where
  "local_io e =
     refusal LocalIo (ascii ''could not write to stdout: '' @ io_shown e)
       (case io_errno e of None \<Rightarrow> [] | Some errno \<Rightarrow> [(''errno'', json_number errno)])"

section \<open>The line is one JSON value\<close>

definition commas :: "utext list \<Rightarrow> utext" where
  "commas ts = (case ts of [] \<Rightarrow> [] | t # ts' \<Rightarrow> t @ concat (map ((#) COMMA) ts'))"

lemma commas_snoc: "commas (ts @ [t]) = (if ts = [] then t else commas ts @ COMMA # t)"
  by (cases ts) (simp_all add: commas_def)

lemma commas_index:
  "concat (map (\<lambda>i. (if 0 < i then [COMMA] else []) @ f (ms ! i)) [0 ..< length ms]) = commas (map f ms)"
proof (induction ms rule: rev_induct)
  case Nil
  then show ?case by (simp add: commas_def)
next
  case (snoc m ms)
  have "map (\<lambda>i. (if 0 < i then [COMMA] else []) @ f ((ms @ [m]) ! i)) [0 ..< length ms] =
      map (\<lambda>i. (if 0 < i then [COMMA] else []) @ f (ms ! i)) [0 ..< length ms]"
    by (rule map_cong) (simp_all add: nth_append)
  with snoc show ?case by (simp add: commas_snoc commas_def [of "[]"] del: map_eq_conv)
qed

lemma separated_commas: "separated Compact d ts = commas ts"
  by (cases ts) (simp_all add: commas_def separated_compact, simp add: separated_def)

lemma render_compact_depth: "render Compact d v = render Compact e v"
proof (induction v arbitrary: d e rule: wf_json.induct)
  case (5 items)
  then have "map (render Compact (d + 1)) items = map (render Compact (e + 1)) items" by (intro map_cong) auto
  then show ?case by (simp add: separated_commas close_container_def del: map_eq_conv)
next
  case (6 members)
  then have "map (\<lambda>m. write_key (fst m) Compact @ render Compact (d + 1) (snd m)) members =
      map (\<lambda>m. write_key (fst m) Compact @ render Compact (e + 1) (snd m)) members" by (intro map_cong) auto
  then show ?case by (simp add: separated_commas close_container_def del: map_eq_conv)
qed simp_all

lemma render_compact: "render Compact d v = write_compact v"
  unfolding write_compact_def write_value_render by (rule render_compact_depth)

definition member_text :: "utext \<times> json \<Rightarrow> utext" where
  "member_text m = write_compact (JString (fst m)) @ COLON # write_compact (snd m)"

lemma write_compact_object:
  "write_compact (JObject members) = LBRACE # commas (map member_text members) @ [RBRACE]"
proof (cases "members = []")
  case True
  then show ?thesis by (simp add: write_compact_def write_value_render commas_def)
next
  case False
  have "write_key k Compact @ write_compact v = member_text (k, v)" for k v
    by (simp add: write_key_def member_text_def write_compact_def write_value_render)
  then have "map (\<lambda>m. write_key (fst m) Compact @ render Compact 1 (snd m)) members = map member_text members"
    by (simp add: render_compact)
  with False show ?thesis
    by (simp add: write_compact_def [of "JObject _"] write_value_render separated_commas close_container_def del: map_eq_conv)
qed

definition request_json :: "verb_call \<Rightarrow> utext option \<Rightarrow> nat option \<Rightarrow> json" where
  "request_json call name deadline =
     JObject [(ascii ''id'', JNumber (ascii ''1'')), (ascii ''method'', JString (ascii (vc_method call))),
       (ascii ''params'', JObject (map (\<lambda>m. (ascii (fst m), snd m)) (request_members call name deadline)))]"

lemma request_is_json: "request call name deadline = write_compact (request_json call name deadline) @ [0x0A]"
proof -
  have plain: "write_compact (JNumber (ascii ''1'')) = ascii ''1''" "write_compact (JString (ascii ''id'')) = QUOTE # ascii ''id'' @ [QUOTE]"
    "write_compact (JString (ascii ''method'')) = QUOTE # ascii ''method'' @ [QUOTE]"
    "write_compact (JString (ascii ''params'')) = QUOTE # ascii ''params'' @ [QUOTE]"
    by (simp_all add: write_compact_def write_value_render write_string_def is_terminal_control_def)
  have members: "concat (map (\<lambda>i. (if 0 < i then [COMMA] else []) @
          write_compact (JString (ascii (fst (ms ! i)))) @ COLON # write_compact (snd (ms ! i))) [0 ..< length ms]) =
      commas (map member_text (map (\<lambda>m. (ascii (fst m), snd m)) ms))" for ms :: "(string \<times> json) list"
    unfolding map_map commas_index [symmetric] comp_def member_text_def fst_conv snd_conv ..
  show ?thesis
    unfolding request_def Let_def members request_json_def write_compact_object list.map
    by (simp add: commas_def [of "[_, _, _]"] member_text_def [of "(_, _)"] plain [simplified] write_compact_object)
qed

section \<open>Its size\<close>

lemma length_show_nat_mono: "a \<le> b \<Longrightarrow> length (show_nat a) \<le> length (show_nat b)"
proof (induction a arbitrary: b rule: less_induct)
  case (less a)
  show ?case
  proof (cases "a < 10")
    case True
    then show ?thesis by (subst (1 2) show_nat.simps) simp
  next
    case False
    with less.prems have "length (show_nat (a div 10)) \<le> length (show_nat (b div 10))"
      by (intro less.IH) (auto intro: div_le_mono)
    with False less.prems show ?thesis by (subst (1 2) show_nat.simps) simp
  qed
qed

lemma request_deadline_mono: "a \<le> b \<Longrightarrow> request_deadline_ms a m \<le> request_deadline_ms b m"
proof -
  have kept: "x - min (x div 10) 1000 \<le> y - min (y div 10) 1000" if "x \<le> y" for x y :: nat
    using that by (auto simp: min_def)
  assume "a \<le> b"
  then have "a div 1000000 \<le> b div 1000000" by (rule div_le_mono)
  then show ?thesis
    unfolding request_deadline_ms_def Let_def by (intro max.mono min.mono kept order_refl) auto
qed

lemma ascii_bytes: "list_all (\<lambda>c. c < 0x80) t \<Longrightarrow> utf8_bytes t = t"
  by (induction t) (auto simp: utf8_bytes_def encode_utf8_def)

lemma json_number_text: "write_compact (json_number (int n)) = ascii (show_nat n)"
  by (simp add: json_number_def write_compact_def write_value_render show_int_def)

lemma length_number_bytes: "length (utf8_bytes (ascii (show_nat n))) = length (show_nat n)"
proof -
  have "list_all (\<lambda>c. c < 0x80) (ascii (show_nat n))"
    using dec_digits_small [of _ n] by (force simp: ascii_digits list_all_iff)
  then show ?thesis by (simp add: ascii_bytes)
qed

lemma length_utf8_append [simp]: "length (utf8_bytes (a @ b)) = length (utf8_bytes a) + length (utf8_bytes b)"
  by (simp add: utf8_bytes_append)

lemma length_utf8_Cons: "length (utf8_bytes (c # b)) = utf8_width c + length (utf8_bytes b)"
  by (simp add: utf8_bytes_def)

lemma request_size_mono:
  assumes "a \<le> b"
  shows "length (utf8_bytes (request call name (Some a))) \<le> length (utf8_bytes (request call name (Some b)))"
proof -
  have "length (utf8_bytes (ascii (show_nat a))) \<le> length (utf8_bytes (ascii (show_nat b)))"
    using length_show_nat_mono [OF assms] by (simp add: length_number_bytes)
  then show ?thesis
    by (simp add: request_is_json request_json_def write_compact_object request_members_def commas_snoc member_text_def
        json_number_text commas_def [of "[_, _, _]"] length_utf8_Cons del: append_assoc flip: append_assoc)
qed

section \<open>The promise\<close>

lemma call_repeats_iff:
  "\<not> call_repeats_a_key call \<longleftrightarrow>
   distinct (map pm_key (vc_params call)) \<and>
   (\<forall>p \<in> set (vc_params call).
     pm_key p \<noteq> instance_key (vc_instance call) \<and> pm_key p \<noteq> ''deadline_ms'' \<and> \<not> repeats_a_key (pm_value p))"
proof -
  let ?ps = "vc_params call"
  have dist: "distinct (map pm_key ps) \<longleftrightarrow> (\<forall>i < length ps. \<not> list_ex (\<lambda>q. pm_key q = pm_key (ps ! i)) (take i ps))" for ps :: "param list"
  proof (induction ps rule: rev_induct)
    case (snoc p ps)
    have eq: "(\<forall>i < length (ps @ [p]). \<not> list_ex (\<lambda>q. pm_key q = pm_key ((ps @ [p]) ! i)) (take i (ps @ [p]))) \<longleftrightarrow>
        (\<forall>i < length ps. \<not> list_ex (\<lambda>q. pm_key q = pm_key (ps ! i)) (take i ps)) \<and>
        \<not> list_ex (\<lambda>q. pm_key q = pm_key p) ps"
      by (auto simp: less_Suc_eq nth_append)
    show ?case unfolding eq map_append using snoc by (auto simp: list_ex_iff image_iff)
  qed simp
  have "\<not> call_repeats_a_key call \<longleftrightarrow>
      (\<forall>i < length ?ps. \<not> list_ex (\<lambda>q. pm_key q = pm_key (?ps ! i)) (take i ?ps)) \<and>
      (\<forall>i < length ?ps. pm_key (?ps ! i) \<noteq> instance_key (vc_instance call) \<and> pm_key (?ps ! i) \<noteq> ''deadline_ms'' \<and>
        \<not> repeats_a_key (pm_value (?ps ! i)))"
    by (auto simp: call_repeats_a_key_def Let_def list_ex_iff [of _ "[0 ..< length ?ps]"])
  then show ?thesis unfolding dist [symmetric] all_set_conv_all_nth .
qed

lemma least_culprit_None: "least_culprit xs = None \<longleftrightarrow> xs = []"
  by (induction xs rule: least_culprit.induct) auto

lemma inj_ascii: "inj (ascii :: string \<Rightarrow> utext)"
  by (simp add: inj_of_char)

lemma wf_request_json:
  assumes "\<not> call_repeats_a_key call" "\<forall>p \<in> set (vc_params call). plain_json (pm_value p)"
    and "\<forall>n. name = Some n \<longrightarrow> valid_text n"
  shows "wf_json (request_json call name deadline)"
proof -
  let ?ms = "request_members call name deadline"
  note call = assms(1) [unfolded call_repeats_iff]
  have "instance_key (vc_instance call) \<noteq> ''deadline_ms''" by (cases "vc_instance call") simp_all
  then have "distinct (map fst ?ms)"
    using call by (auto simp: request_members_def comp_def split: option.splits)
  then have "distinct (map ascii (map fst ?ms))"
    using inj_on_subset [OF inj_ascii] by (simp add: distinct_map del: map_map)
  then have keys: "distinct (map fst (map (\<lambda>m. (ascii (fst m), snd m)) ?ms))" by (simp add: comp_def)
  have "\<forall>m \<in> set ?ms. wf_json (snd m)"
    using call assms(2,3) by (auto simp: request_members_def wf_plain [of "pm_value _"] valid_text_def split: option.splits)
  then have "wf_json (JObject (map (\<lambda>m. (ascii (fst m), snd m)) ?ms))"
    using keys ascii_valid by auto
  then show ?thesis using ascii_valid [of "vc_method call"] by (simp add: request_json_def schema_number is_scalar_def)
qed


text \<open>A kill with its cell, its deadline and the kernel it is for.\<close>

definition demo_kill :: verb_call where
  "demo_kill =
     \<lparr>vc_method = ''cell.kill'', vc_instance = KernelParam,
      vc_params = [\<lparr>pm_key = ''cell'', pm_value = JString (ascii ''cell-1''), pm_source = PositionalSource ''CELL''\<rparr>],
      vc_deadline = Some None\<rparr>"

lemma demo_kill_request:
  "request_json demo_kill (Some (ascii ''k'')) (Some 9) =
     JObject [(ascii ''id'', JNumber (ascii ''1'')), (ascii ''method'', JString (ascii ''cell.kill'')),
       (ascii ''params'', JObject [(ascii ''kernel'', JString (ascii ''k'')), (ascii ''cell'', JString (ascii ''cell-1'')),
         (ascii ''deadline_ms'', JNumber (ascii ''9''))])]"
  by (simp add: request_json_def demo_kill_def request_members_def json_number_def show_int_def show_nat.simps digit_char_def)


end
