(* ===== verification/Client_Commands.thy ===== *)
theory Client_Commands
  imports Client_Request
begin

text \<open>
  The command table, \<open>crates/plasmosome-cli/src/commands.rs\<close>, and the help made from it, \<open>help.rs\<close>. A
  build function is a field of its command, \<open>None\<close> until the command is served.
\<close>

section \<open>Commands\<close>

record command =
  cm_words :: "string list"
  cm_operands :: "string list"
  cm_command :: string
  cm_is_method :: bool
  cm_changes_state :: bool
  cm_served :: bool
  cm_flags :: "flag list"
  cm_takes_argv :: bool
  cm_default_deadline_ms :: nat
  cm_build :: "(command_args \<Rightarrow> client_error + verb_call) option"

definition DEFAULT_DEADLINE_MS :: nat where "DEFAULT_DEADLINE_MS = 10000"

definition command_method :: "command \<Rightarrow> string option" where
  "command_method c = (if cm_is_method c then Some (cm_command c) else None)"

definition build_status :: "command_args \<Rightarrow> client_error + verb_call" where
  "build_status args =
     Ok \<lparr>vc_method = ''plasmosome.status'', vc_instance = NameParam, vc_params = [], vc_deadline = None\<rparr>"

definition verb_command :: "string list \<Rightarrow> string list \<Rightarrow> string \<Rightarrow> bool \<Rightarrow> command" where
  "verb_command words operands method changes_state =
     \<lparr>cm_words = words, cm_operands = operands, cm_command = method, cm_is_method = True,
      cm_changes_state = changes_state, cm_served = False, cm_flags = [], cm_takes_argv = False,
      cm_default_deadline_ms = DEFAULT_DEADLINE_MS, cm_build = None\<rparr>"

definition registry_command :: "string list \<Rightarrow> string list \<Rightarrow> string \<Rightarrow> bool \<Rightarrow> command" where
  "registry_command words operands name changes_state =
     \<lparr>cm_words = words, cm_operands = operands, cm_command = name, cm_is_method = False,
      cm_changes_state = changes_state, cm_served = False, cm_flags = [], cm_takes_argv = False,
      cm_default_deadline_ms = DEFAULT_DEADLINE_MS, cm_build = None\<rparr>"

definition COMMANDS :: "command list" where
  "COMMANDS =
     [(verb_command [''status''] [] ''plasmosome.status'' False)\<lparr>cm_served := True, cm_build := Some build_status\<rparr>,
      verb_command [''recovery''] [] ''plasmosome.recovery'' False,
      verb_command [''stop''] [] ''plasmosome.stop'' True,
      verb_command [''start''] [] ''plasmosome.start'' True,
      verb_command [''list''] [] ''plasmosome.list'' False,
      verb_command [''cell'', ''new''] [] ''cell.new'' True,
      verb_command [''germinate''] [''GENOME''] ''cell.new'' True,
      verb_command [''cell'', ''list''] [] ''cell.list'' False,
      verb_command [''cell'', ''status''] [] ''cell.status'' False,
      verb_command [''cell'', ''kill''] [] ''cell.kill'' True,
      verb_command [''cell'', ''exec''] [] ''cell.exec'' True,
      verb_command [''exec'', ''status''] [] ''exec.status'' False,
      verb_command [''exec'', ''output''] [] ''exec.output'' False,
      registry_command [''registry'', ''source'', ''add''] [''ALIAS''] ''source.add'' False,
      registry_command [''registry'', ''source'', ''list''] [] ''source.list'' False,
      registry_command [''registry'', ''source'', ''remove''] [''ALIAS''] ''source.remove'' False,
      registry_command [''registry'', ''search''] [] ''search'' False,
      registry_command [''registry'', ''show''] [''REF''] ''show'' False,
      registry_command [''registry'', ''inspect''] [''DIRECTORY''] ''inspect'' False,
      registry_command [''registry'', ''fetch''] [''REF''] ''fetch'' False,
      registry_command [''registry'', ''register''] [''DIRECTORY''] ''register'' True,
      registry_command [''registry'', ''yank''] [''REF''] ''yank'' True,
      registry_command [''registry'', ''import''] [''DIRECTORY''] ''import'' False]"

section \<open>Help\<close>

definition text_lines :: "string list \<Rightarrow> utext" where
  "text_lines ls = concat (map (\<lambda>l. ascii l @ [0x0A]) ls)"

definition ABOUT_TEXT :: utext where
  "ABOUT_TEXT =
     text_lines [
      ''Usage: plasmosome [FLAGS] COMMAND [FLAGS]'',
      '''',
      ''Drives one Plasmosome kernel instance one step at a time. A command with a verb sends that one'',
      ''verb to the instance's socket and prints one line of JSON: the result on stdout, or the error on'',
      ''stderr. The registry commands are spec 020's, and they reach no instance socket.'']"

definition FLAGS_TEXT :: utext where
  "FLAGS_TEXT =
     text_lines [
      ''Flags, anywhere among the command words and never after `--`. A flag given twice is a usage'',
      ''error, and so is --kernel, --socket or --deadline-ms on a registry command. With -h or --help,'',
      ''only the command words are read: no flag is a fault, and the first bad word is named. A command'',
      ''this build does not serve reads only --json and --human, and --version reads only itself. Any'',
      ''other line names its leftmost fault. A command finds its socket by the first of these that is'',
      ''given: --socket, --kernel, PLASMOSOME_KERNEL. With none, it takes the one instance under'',
      ''$HOME/.plasmosome/instances/, and refuses when there are several. Beside --socket, --kernel'',
      ''only names the instance.'',
      ''  --kernel NAME     the instance named NAME, at $HOME/.plasmosome/instances/NAME/control.uds'',
      ''  --socket PATH     the socket at PATH, which is absolute with no empty, `.` or `..` component'',
      ''  --deadline-ms N   the budget for the whole command, from 1 to 3600000 ms; 10000 by default'',
      ''  --json            one compact JSON line, the default'',
      ''  --human           output for a person, which nothing may parse'',
      ''  -h, --help        this help; after command words, that command's or that group's help'',
      ''  --version         the version, as the sole argument'',
      '''',
      ''Environment:'',
      ''  PLASMOSOME_KERNEL  the instance's name when neither --socket nor --kernel is given; the'',
      ''                     empty string is a usage error'',
      ''  HOME               the instances are under $HOME/.plasmosome/instances/'',
      '''',
      ''Exit codes:'',
      ''  0   done: stdout holds the result'',
      ''  1   unavailable: nothing can have changed, and repeating the command is safe'',
      ''  2   refused: read the error before trying again'',
      ''  3   outcome unknown: the request may take effect; observe before acting again'',
      ''  64  usage: the command line is wrong'',
      ''  70  internal: the client or the daemon failed; observe first, and report it'']"

definition SEE_ALSO_TEXT :: utext where
  "SEE_ALSO_TEXT =
     text_lines [
      ''Run plasmosome --help for the flags, PLASMOSOME_KERNEL and the exit codes.'']"

definition command_usage :: "command \<Rightarrow> string" where
  "command_usage c = ''plasmosome'' @ concat (map (\<lambda>w. '' '' @ w) (cm_words c @ cm_operands c))"

text \<open>\<open>{:width$}\<close>: spaces after the text up to the width.\<close>

definition pad_to :: "nat \<Rightarrow> string \<Rightarrow> string" where
  "pad_to width t = t @ replicate (width - length t) (CHR '' '')"

definition join_text :: "string \<Rightarrow> string list \<Rightarrow> string" where
  "join_text sep ts = (case ts of [] \<Rightarrow> [] | t # ts' \<Rightarrow> t @ concat (map (\<lambda>u. sep @ u) ts'))"

definition help_rows :: "command list \<Rightarrow> utext" where
  "help_rows cs =
     (let width = foldr max (map (\<lambda>c. length (command_usage c)) cs) 0 in
      text_lines (map (\<lambda>c. ''  '' @ pad_to width (command_usage c) @ ''  '' @
          pad_to 19 (case command_method c of Some m \<Rightarrow> m | None \<Rightarrow> ''none'') @ ''  '' @
          (if cm_served c then ''served'' else ''not served'')) cs))"

definition help_binary :: "command list \<Rightarrow> utext" where
  "help_binary cs =
     ABOUT_TEXT @ text_lines ['''', ''Commands, with the verb each sends and whether this build serves it:''] @
     help_rows cs @ [0x0A] @ FLAGS_TEXT"

definition help_group :: "command list \<Rightarrow> string list \<Rightarrow> utext" where
  "help_group cs grp =
     text_lines [''Commands under plasmosome '' @ join_text '' '' grp @
       '', with the verb each sends and whether this build serves it:''] @
     help_rows (filter (\<lambda>c. take (length grp) (cm_words c) = grp) cs) @ [0x0A] @ SEE_ALSO_TEXT"

definition flag_usage :: "flag \<Rightarrow> string" where
  "flag_usage f =
     (case fl_kind f of
        TextFlag \<Rightarrow> fl_name f @ '' VALUE''
      | IntegerFlag \<Rightarrow> fl_name f @ '' N''
      | BareFlag \<Rightarrow> fl_name f
      | MockFlag \<Rightarrow> fl_name f @ ''[=MODE]'')"

definition help_command :: "command \<Rightarrow> utext" where
  "help_command c =
     (let changes = (if cm_changes_state c then ''changes state'' else ''changes no state'');
          sends = (case command_method c of
              Some m \<Rightarrow> ''Sends the verb '' @ m @ '', which '' @ changes @ ''.''
            | None \<Rightarrow> ''Spec 020's registry command '' @ cm_command c @ '', which '' @ changes @ ''.'');
          served = (if cm_served c then ''Served in this build.''
            else ''Not served in this build: running it exits 2 with not_served.'') in
      text_lines [''Usage: '' @ command_usage c @ '' [FLAGS]'', '''', sends, served] @
      (if cm_flags c \<noteq> []
       then text_lines [''Its own flags: '' @ join_text '', '' (map flag_usage (cm_flags c)) @ ''.''] else []) @
      (if cm_takes_argv c then text_lines [''Everything after -- is the workload's argv, passed unchanged.''] else []) @
      [0x0A] @ SEE_ALSO_TEXT)"

end
