(* ===== verification/Client_Line.thy ===== *)
theory Client_Line
  imports Client_Commands
begin

text \<open>
  The command line of the client, \<open>crates/plasmosome-cli/src/cli.rs\<close>: how a line is split, named, judged
  from left to right and turned into an invocation, and what is done with the reading. An operating system
  string is its lossy text and whether it was valid UTF-8; a string with a replacement character equals no
  string of the source.
\<close>

section \<open>Lines\<close>

record os_arg =
  oa_text :: utext
  oa_valid :: bool

definition INVALID :: string where "INVALID = ''invalid''"
definition SHORT_HELP :: string where "SHORT_HELP = ''-h''"
definition HELP :: string where "HELP = ''--help''"
definition VERSION :: string where "VERSION = ''--version''"
definition JSON_FLAG :: string where "JSON_FLAG = ''--json''"
definition HUMAN_FLAG :: string where "HUMAN_FLAG = ''--human''"
definition KERNEL :: string where "KERNEL = ''--kernel''"
definition SOCKET :: string where "SOCKET = ''--socket''"
definition DEADLINE :: string where "DEADLINE = ''--deadline-ms''"
definition MAX_DEADLINE_MS :: nat where "MAX_DEADLINE_MS = 3600000"
definition MAX_DEADLINE_DIGITS :: nat where "MAX_DEADLINE_DIGITS = 7"

definition VALUE_FLAGS :: "string list" where
  "VALUE_FLAGS = [KERNEL, SOCKET, DEADLINE]"

definition KNOWN_FLAGS :: "string list" where
  "KNOWN_FLAGS = [KERNEL, SOCKET, DEADLINE, JSON_FLAG, HUMAN_FLAG, SHORT_HELP, HELP, VERSION]"

record invocation =
  iv_command :: command
  iv_kernel :: "utext option"
  iv_socket :: "utext option"
  iv_deadline_ms :: "nat option"
  iv_form :: form
  iv_args :: command_args

datatype reading =
    ReadHelp utext form
  | ReadVersion
  | ReadRefuse string client_error form
  | ReadRun invocation

definition reading_command :: "reading \<Rightarrow> string" where
  "reading_command r =
     (case r of
        ReadHelp _ _ \<Rightarrow> HELP
      | ReadVersion \<Rightarrow> VERSION
      | ReadRefuse c _ _ \<Rightarrow> c
      | ReadRun i \<Rightarrow> cm_command (iv_command i))"

definition reading_form :: "reading \<Rightarrow> form" where
  "reading_form r =
     (case r of
        ReadHelp _ f \<Rightarrow> f
      | ReadVersion \<Rightarrow> JsonForm
      | ReadRefuse _ _ f \<Rightarrow> f
      | ReadRun i \<Rightarrow> iv_form i)"

datatype arg_kind = WordArg | FlagArg | ValueArg

record arg =
  ar_text :: os_arg
  ar_kind :: arg_kind

record line =
  ln_head :: "arg list"
  ln_tail :: "os_arg list"
  ln_commands :: "command list"

datatype named = NamedNothing | NamedGroup "string list" | NamedCommand command | NamedBreaks nat

definition is_arg :: "os_arg \<Rightarrow> string \<Rightarrow> bool" where
  "is_arg a s \<longleftrightarrow> oa_text a = ascii s"

definition served_flag :: "command list \<Rightarrow> os_arg \<Rightarrow> flag option" where
  "served_flag commands a =
     List.find (\<lambda>f. flag_matches f (oa_text a)) (concat (map cm_flags (filter cm_served commands)))"

definition takes_value :: "command list \<Rightarrow> os_arg \<Rightarrow> bool" where
  "takes_value commands a \<longleftrightarrow>
     list_ex (is_arg a) VALUE_FLAGS \<or>
     (case served_flag commands a of Some own \<Rightarrow> kind_takes_value (fl_kind own) | None \<Rightarrow> False)"

definition holds_its_value :: "os_arg \<Rightarrow> bool" where
  "holds_its_value a \<longleftrightarrow> take 2 (oa_text a) = ascii ''--'' \<and> 0x3D \<in> set (oa_text a)"

fun classify :: "command list \<Rightarrow> bool \<Rightarrow> os_arg list \<Rightarrow> arg list" where
  "classify commands wants_value [] = []"
| "classify commands wants_value (a # rest) =
     (let k = (if wants_value then ValueArg
               else if take 1 (oa_text a) = [MINUS] then FlagArg else WordArg) in
      \<lparr>ar_text = a, ar_kind = k\<rparr> # classify commands (k = FlagArg \<and> takes_value commands a) rest)"

definition line_new :: "os_arg list \<Rightarrow> command list \<Rightarrow> line" where
  "line_new args commands =
     (let before = takeWhile (\<lambda>a. \<not> is_arg a ''--'') args in
      \<lparr>ln_head = classify commands False before, ln_tail = drop (length before) args, ln_commands = commands\<rparr>)"

definition is_known :: "line \<Rightarrow> os_arg \<Rightarrow> bool" where
  "is_known l a \<longleftrightarrow> list_ex (is_arg a) KNOWN_FLAGS \<or> served_flag (ln_commands l) a \<noteq> None"

text \<open>The words before the first flag that is neither known nor holds its own value, with their positions.\<close>

definition command_words :: "line \<Rightarrow> (nat \<times> os_arg) list" where
  "command_words l =
     map (\<lambda>(i, a). (i, ar_text a))
       (filter (\<lambda>(i, a). ar_kind a = WordArg)
         (takeWhile (\<lambda>(i, a). ar_kind a \<noteq> FlagArg \<or> is_known l (ar_text a) \<or> holds_its_value (ar_text a))
           (enumerate 0 (ln_head l))))"

definition line_flags :: "line \<Rightarrow> (nat \<times> os_arg) list" where
  "line_flags l =
     map (\<lambda>(i, a). (i, ar_text a)) (filter (\<lambda>(i, a). ar_kind a = FlagArg) (enumerate 0 (ln_head l)))"

definition line_form :: "line \<Rightarrow> form" where
  "line_form l =
     (let count = (\<lambda>f. length (filter (\<lambda>(i, a). is_arg a f) (line_flags l))) in
      if count HUMAN_FLAG = 1 \<and> count JSON_FLAG = 0 then HumanForm else JsonForm)"

section \<open>Faults\<close>

definition cli_client :: "client_code \<Rightarrow> utext \<Rightarrow> (string \<times> json) list \<Rightarrow> client_error" where
  "cli_client code message flds = refusal code message flds"

definition line_usage :: "line \<Rightarrow> utext \<Rightarrow> utext option \<Rightarrow> reading" where
  "line_usage l message argument =
     ReadRefuse INVALID
       (cli_client InvalidArgument message
         (case argument of None \<Rightarrow> [] | Some a \<Rightarrow> [(''argument'', json_text a)]))
       (line_form l)"

definition words_text :: "string list \<Rightarrow> utext" where
  "words_text ws = ascii (join_text '' '' ws)"

definition extra_word :: "line \<Rightarrow> command \<Rightarrow> os_arg list \<Rightarrow> reading option" where
  "extra_word l c words =
     (let n = length (cm_words c) + length (cm_operands c) in
      if n < length words then
        Some (line_usage l
          (ascii ''plasmosome '' @ words_text (cm_words c) @ ascii '' takes no argument `'' @ oa_text (words ! n) @ ascii ''`'')
          (Some (oa_text (words ! n))))
      else None)"

definition unknown_command :: "line \<Rightarrow> os_arg \<Rightarrow> reading" where
  "unknown_command l word =
     line_usage l (ascii ''unknown command `'' @ oa_text word @ ascii ''`; see plasmosome --help'') (Some (oa_text word))"

fun name_loop :: "os_arg list \<Rightarrow> command list \<Rightarrow> nat \<Rightarrow> nat \<Rightarrow> string list option \<Rightarrow> named" where
  "name_loop words commands taken 0 grp =
     (case grp of None \<Rightarrow> NamedNothing | Some g \<Rightarrow> NamedGroup g)"
| "name_loop words commands taken (Suc n) grp =
     (let leading = filter (\<lambda>c. taken \<le> length (cm_words c) \<and>
            list_all2 (\<lambda>w a. is_arg a w) (take taken (cm_words c)) (take taken words)) commands in
      case leading of
        [] \<Rightarrow> NamedBreaks (taken - 1)
      | first # _ \<Rightarrow>
          (case List.find (\<lambda>c. length (cm_words c) = taken) leading of
             Some c \<Rightarrow> NamedCommand c
           | None \<Rightarrow> name_loop words commands (taken + 1) n (Some (take taken (cm_words first)))))"

definition name_of :: "os_arg list \<Rightarrow> command list \<Rightarrow> named" where
  "name_of words commands = name_loop words commands 1 (length words) None"

definition line_help :: "line \<Rightarrow> command list \<Rightarrow> reading" where
  "line_help l commands =
     (let words = map snd (command_words l) in
      case name_of words commands of
        NamedNothing \<Rightarrow> ReadHelp (help_binary commands) (line_form l)
      | NamedGroup g \<Rightarrow> ReadHelp (help_group commands g) (line_form l)
      | NamedCommand c \<Rightarrow>
          (case extra_word l c words of
             Some extra \<Rightarrow> extra
           | None \<Rightarrow> ReadHelp (help_command c) (line_form l))
      | NamedBreaks i \<Rightarrow> unknown_command l (words ! i))"

definition line_repeated :: "line \<Rightarrow> utext list \<Rightarrow> os_arg \<Rightarrow> reading option" where
  "line_repeated l seen a =
     (if oa_text a \<in> set seen
      then Some (line_usage l (oa_text a @ ascii '' is given twice'') (Some (oa_text a)))
      else if (is_arg a JSON_FLAG \<and> ascii HUMAN_FLAG \<in> set seen) \<or> (is_arg a HUMAN_FLAG \<and> ascii JSON_FLAG \<in> set seen)
      then Some (line_usage l (ascii (JSON_FLAG @ '' and '' @ HUMAN_FLAG @ '' cannot be given together'')) (Some (oa_text a)))
      else None)"

fun form_fault_loop :: "line \<Rightarrow> utext list \<Rightarrow> os_arg list \<Rightarrow> reading option" where
  "form_fault_loop l seen [] = None"
| "form_fault_loop l seen (a # rest) =
     (if \<not> is_arg a JSON_FLAG \<and> \<not> is_arg a HUMAN_FLAG then form_fault_loop l seen rest
      else (case line_repeated l seen a of
              Some fault \<Rightarrow> Some fault
            | None \<Rightarrow> form_fault_loop l (seen @ [oa_text a]) rest))"

definition form_fault :: "line \<Rightarrow> reading option" where
  "form_fault l = form_fault_loop l [] (map snd (line_flags l))"

definition not_served :: "line \<Rightarrow> command \<Rightarrow> reading" where
  "not_served l c =
     (case form_fault l of
        Some fault \<Rightarrow> fault
      | None \<Rightarrow>
          ReadRefuse (cm_command c)
            (cli_client NotServed
              (ascii ''plasmosome '' @ words_text (cm_words c) @ ascii '' is not served by this build'')
              (case command_method c of Some m \<Rightarrow> [(''method'', json_text (ascii m))] | None \<Rightarrow> []))
            (line_form l))"

definition not_utf8 :: "line \<Rightarrow> os_arg \<Rightarrow> reading" where
  "not_utf8 l bad =
     line_usage l (ascii ''`'' @ oa_text bad @ ascii ''` is not valid UTF-8, and every argument must be'') (Some (oa_text bad))"

definition no_command :: "line \<Rightarrow> reading" where
  "no_command l =
     (case ln_tail l of
        dashes # _ \<Rightarrow>
          line_usage l (ascii ''a command is required before `--`; see plasmosome --help'') (Some (oa_text dashes))
      | [] \<Rightarrow> line_usage l (ascii ''a command is required; see plasmosome --help'') None)"

definition tail_fault :: "line \<Rightarrow> command \<Rightarrow> reading option" where
  "tail_fault l c =
     (case ln_tail l of
        [] \<Rightarrow> None
      | dashes # rest \<Rightarrow>
          if \<not> cm_takes_argv c then
            Some (line_usage l
              (ascii ''plasmosome '' @ words_text (cm_words c) @ ascii '' takes nothing after `--`'') (Some (oa_text dashes)))
          else map_option (not_utf8 l) (List.find (\<lambda>a. \<not> oa_valid a) rest))"

definition flag_name :: "line \<Rightarrow> os_arg \<Rightarrow> utext" where
  "flag_name l a = (case served_flag (ln_commands l) a of Some own \<Rightarrow> ascii (fl_name own) | None \<Rightarrow> oa_text a)"

definition flag_fault :: "line \<Rightarrow> nat \<Rightarrow> utext list \<Rightarrow> named \<Rightarrow> reading option" where
  "flag_fault l index seen named =
     (let a = ar_text (ln_head l ! index); own = served_flag (ln_commands l) a in
      if \<not> is_known l a then
        Some (line_usage l (ascii ''unknown flag `'' @ oa_text a @ ascii ''`; see plasmosome --help'') (Some (oa_text a)))
      else if (case own of Some f \<Rightarrow> ascii (fl_name f) \<in> set seen | None \<Rightarrow> False) then
        Some (line_usage l (ascii (case own of Some f \<Rightarrow> fl_name f | None \<Rightarrow> []) @ ascii '' is given twice'') (Some (oa_text a)))
      else (case line_repeated l seen a of
        Some fault \<Rightarrow> Some fault
      | None \<Rightarrow>
          (case (own, named) of
             (Some f, NamedCommand c) \<Rightarrow>
               if f \<notin> set (cm_flags c) then
                 Some (line_usage l
                   (ascii ''plasmosome '' @ words_text (cm_words c) @ ascii ('' takes no '' @ fl_name f)) (Some (oa_text a)))
               else if \<not> takes_value (ln_commands l) a then None
               else if length (ln_head l) \<le> index + 1 then
                 Some (line_usage l (oa_text a @ ascii '' needs a value'') (Some (oa_text a)))
               else None
           | (None, NamedCommand c) \<Rightarrow>
               if \<not> takes_value (ln_commands l) a then None
               else if command_method c = None then
                 Some (line_usage l
                   (ascii ''plasmosome '' @ words_text (cm_words c) @
                    ascii '' reaches no control socket, so it takes no '' @ oa_text a) (Some (oa_text a)))
               else if length (ln_head l) \<le> index + 1 then
                 Some (line_usage l (oa_text a @ ascii '' needs a value'') (Some (oa_text a)))
               else None
           | _ \<Rightarrow>
               if \<not> takes_value (ln_commands l) a then None
               else if length (ln_head l) \<le> index + 1 then
                 Some (line_usage l (oa_text a @ ascii '' needs a value'') (Some (oa_text a)))
               else None)))"

text \<open>\<open>InstanceName::parse\<close> and no terminal control.\<close>

definition is_instance_name :: "utext \<Rightarrow> bool" where
  "is_instance_name t \<longleftrightarrow>
     t \<noteq> [] \<and> 0x2F \<notin> set t \<and> 0x5C \<notin> set t \<and> t \<noteq> ascii ''.'' \<and> t \<noteq> ascii ''..'' \<and> 0 \<notin> set t \<and>
     \<not> list_ex is_terminal_control t"

definition is_normal_absolute :: "utext \<Rightarrow> bool" where
  "is_normal_absolute path \<longleftrightarrow>
     (case strip_prefix [0x2F] path of
        None \<Rightarrow> False
      | Some rest \<Rightarrow> list_all (\<lambda>c. c \<noteq> [] \<and> c \<noteq> ascii ''.'' \<and> c \<noteq> ascii ''..'') (split_on 0x2F rest))"

definition line_deadline_ms :: "utext \<Rightarrow> nat option" where
  "line_deadline_ms t =
     (if t = [] \<or> MAX_DEADLINE_DIGITS < length (utf8_bytes t) \<or> \<not> list_all is_digit t then None
      else (let ms = foldl (\<lambda>v c. v * 10 + (c - 0x30)) 0 t in
            if 1 \<le> ms \<and> ms \<le> MAX_DEADLINE_MS then Some ms else None))"

definition line_refused :: "line \<Rightarrow> string \<Rightarrow> utext \<Rightarrow> string \<Rightarrow> reading" where
  "line_refused l flag value rule =
     line_usage l (ascii ''`'' @ value @ ascii (''` is refused for '' @ flag @ '': '' @ rule)) (Some value)"

definition value_fault :: "line \<Rightarrow> os_arg \<Rightarrow> os_arg \<Rightarrow> reading option" where
  "value_fault l flag value =
     (let t = oa_text value in
      if is_arg flag KERNEL \<and> \<not> is_instance_name t then
        Some (line_refused l KERNEL t
          (''an instance name is not empty, `.` or `..`, and holds no `/`, backslash, '' @
           ''NUL or terminal control''))
      else if is_arg flag SOCKET \<and> \<not> is_normal_absolute t then
        Some (line_refused l SOCKET t ''a socket path is absolute, with no empty, `.` or `..` component'')
      else if is_arg flag DEADLINE \<and> line_deadline_ms t = None then
        Some (line_refused l DEADLINE t (''a deadline is an integer from 1 to '' @ show_nat MAX_DEADLINE_MS))
      else (case served_flag (ln_commands l) flag of
              None \<Rightarrow> None
            | Some own \<Rightarrow>
                if fl_kind own = IntegerFlag \<and> \<not> is_integer t
                then Some (line_refused l (fl_name own) t ''an integer is 0, or digits with no leading zero'')
                else None))"

definition word_fault :: "line \<Rightarrow> nat \<Rightarrow> (nat \<times> os_arg) list \<Rightarrow> named \<Rightarrow> reading option" where
  "word_fault l index words named =
     (case List.find (\<lambda>at. fst (words ! at) = index) [0 ..< length words] of
        None \<Rightarrow> None
      | Some at \<Rightarrow>
          (let word = snd (words ! at) in
           case named of
             NamedBreaks breaks \<Rightarrow> if breaks = at then Some (unknown_command l word) else None
           | NamedGroup g \<Rightarrow>
               if at + 1 = length words then
                 Some (line_usage l
                   (ascii ''`'' @ words_text g @ ascii ''` names a group of commands; see plasmosome '' @ words_text g @
                    ascii '' --help'') (Some (oa_text word)))
               else None
           | NamedCommand c \<Rightarrow>
               if at = length (cm_words c) + length (cm_operands c) then extra_word l c (map snd words) else None
           | NamedNothing \<Rightarrow> None))"

section \<open>The invocation\<close>

definition line_value :: "line \<Rightarrow> string \<Rightarrow> utext option" where
  "line_value l flag =
     (case List.find (\<lambda>(i, a). is_arg a flag) (line_flags l) of
        None \<Rightarrow> None
      | Some (i, _) \<Rightarrow>
          if i + 1 < length (ln_head l) then Some (oa_text (ar_text (ln_head l ! (i + 1)))) else None)"

definition give_flag :: "line \<Rightarrow> bool \<Rightarrow> nat \<times> os_arg \<Rightarrow> command_args \<Rightarrow> command_args" where
  "give_flag l ties ia args =
     (case ia of (i, a) \<Rightarrow>
       (let args = (if is_arg a KERNEL \<and> ties then args\<lparr>ca_kernel_at := Some i\<rparr> else args) in
        case served_flag (ln_commands l) a of
          None \<Rightarrow> args
        | Some own \<Rightarrow>
            (let t = oa_text a; v = oa_text (ar_text (ln_head l ! (i + 1))) in
             case fl_kind own of
               TextFlag \<Rightarrow> args_give (FlagSource (fl_name own)) i v (SentText v) args
             | IntegerFlag \<Rightarrow> args_give (FlagSource (fl_name own)) i v (SentNumber v) args
             | BareFlag \<Rightarrow> args_give (FlagSource (fl_name own)) i t SentTrue args
             | MockFlag \<Rightarrow>
                 args_give (FlagSource (fl_name own)) i t
                   (SentText (case Option.bind (strip_prefix (ascii (fl_name own)) t) (strip_prefix [0x3D]) of
                       Some mode \<Rightarrow> mode | None \<Rightarrow> ascii ''simulate'')) args)))"

definition line_args :: "line \<Rightarrow> command \<Rightarrow> (nat \<times> os_arg) list \<Rightarrow> command_args" where
  "line_args l c words =
     (let ties = (cm_flags c \<noteq> [] \<or> cm_operands c \<noteq> [] \<or> cm_takes_argv c);
          with_flags = fold (give_flag l ties) (line_flags l) args_empty;
          with_operands = fold (\<lambda>((position, a), operand). args_give (PositionalSource operand) position (oa_text a) (SentText (oa_text a)))
            (zip (drop (length (cm_words c)) words) (cm_operands c)) with_flags in
      if cm_takes_argv c \<and> ln_tail l \<noteq> [] then
        args_give ArgvSource (length (ln_head l)) (ascii ''--'') (SentArgv (map oa_text (tl (ln_tail l)))) with_operands
      else with_operands)"

definition invocation_of :: "line \<Rightarrow> command \<Rightarrow> (nat \<times> os_arg) list \<Rightarrow> reading" where
  "invocation_of l c words =
     ReadRun \<lparr>iv_command = c, iv_kernel = line_value l KERNEL, iv_socket = line_value l SOCKET,
       iv_deadline_ms = Option.bind (line_value l DEADLINE) line_deadline_ms, iv_form = line_form l,
       iv_args = line_args l c words\<rparr>"

text \<open>The loop of \<open>parse\<close>: the leftmost fault of the arguments from \<open>index\<close> on.\<close>

fun parse_loop :: "line \<Rightarrow> (nat \<times> os_arg) list \<Rightarrow> named \<Rightarrow> nat \<Rightarrow> utext list \<Rightarrow> arg list \<Rightarrow> reading option" where
  "parse_loop l words named index seen [] = None"
| "parse_loop l words named index seen (a # rest) =
     (let fault = (if \<not> oa_valid (ar_text a) then Some (not_utf8 l (ar_text a))
          else (case ar_kind a of
                  FlagArg \<Rightarrow> flag_fault l index seen named
                | ValueArg \<Rightarrow> value_fault l (ar_text (ln_head l ! (index - 1))) (ar_text a)
                | WordArg \<Rightarrow> word_fault l index words named)) in
      case fault of
        Some f \<Rightarrow> Some f
      | None \<Rightarrow>
          parse_loop l words named (index + 1)
            (if ar_kind a = FlagArg then seen @ [flag_name l (ar_text a)] else seen) rest)"

definition line_parse :: "line \<Rightarrow> command list \<Rightarrow> reading" where
  "line_parse l commands =
     (let words = command_words l; named = name_of (map snd words) commands in
      case parse_loop l words named 0 [] (ln_head l) of
        Some fault \<Rightarrow> fault
      | None \<Rightarrow>
          (case named of
             NamedCommand c \<Rightarrow>
               (case tail_fault l c of
                  Some fault \<Rightarrow> fault
                | None \<Rightarrow>
                    (let given = length words - length (cm_words c) in
                     if given < length (cm_operands c) then
                       line_usage l
                         (ascii ''plasmosome '' @ words_text (cm_words c) @ ascii ('' needs '' @ cm_operands c ! given)) None
                     else invocation_of l c words))
           | _ \<Rightarrow> no_command l))"

definition read_line :: "os_arg list \<Rightarrow> command list \<Rightarrow> reading" where
  "read_line args commands =
     (let l = line_new args commands in
      if list_ex (\<lambda>a. is_arg (ar_text a) SHORT_HELP \<or> is_arg (ar_text a) HELP) (ln_head l) then line_help l commands
      else if list_ex (\<lambda>a. is_arg (ar_text a) VERSION) (ln_head l) then
        (if length args = 1 then ReadVersion
         else line_usage l (ascii (VERSION @ '' is read only as the sole argument'')) (Some (ascii VERSION)))
      else (case name_of (map snd (command_words l)) commands of
              NamedCommand c \<Rightarrow> if \<not> cm_served c then not_served l c else line_parse l commands
            | _ \<Rightarrow> line_parse l commands))"

section \<open>What an accepted line is\<close>

definition usage_fault :: "line \<Rightarrow> reading \<Rightarrow> bool" where
  "usage_fault l r \<longleftrightarrow> (\<exists>e. r = ReadRefuse INVALID e (line_form l) \<and> ce_code e = InvalidArgument)"

named_theorems faults

lemma line_usage_fault [simp]: "usage_fault l (line_usage l message argument)"
  by (auto simp: usage_fault_def line_usage_def cli_client_def refusal_code split: option.splits)

lemma line_repeated_fault [faults]: "line_repeated l seen a = Some r \<Longrightarrow> usage_fault l r"
  by (auto simp: line_repeated_def split: if_splits)

lemma flag_fault_fault [faults]: "flag_fault l i seen named = Some r \<Longrightarrow> usage_fault l r"
  by (auto simp: flag_fault_def Let_def dest!: line_repeated_fault split: if_splits option.splits named.splits)

lemma value_fault_fault [faults]: "value_fault l a v = Some r \<Longrightarrow> usage_fault l r"
  by (auto simp: value_fault_def Let_def line_refused_def split: if_splits option.splits)

lemma extra_word_fault [faults]: "extra_word l c words = Some r \<Longrightarrow> usage_fault l r"
  by (auto simp: extra_word_def Let_def split: if_splits)

lemma word_fault_fault [faults]: "word_fault l i words named = Some r \<Longrightarrow> usage_fault l r"
  by (auto simp: word_fault_def Let_def unknown_command_def dest: extra_word_fault split: if_splits option.splits named.splits)

lemma tail_fault_fault [faults]: "tail_fault l c = Some r \<Longrightarrow> usage_fault l r"
  by (auto simp: tail_fault_def not_utf8_def split: if_splits list.splits)

lemma parse_loop_fault [faults]: "parse_loop l words named i seen as = Some r \<Longrightarrow> usage_fault l r"
  by (induction l words named i seen as rule: parse_loop.induct)
    (auto simp: Let_def not_utf8_def dest: faults split: if_splits option.splits arg_kind.splits)

lemma no_command_fault: "usage_fault l (no_command l)"
  by (simp add: no_command_def split: list.splits)

lemma usage_fault_run [simp]: "\<not> usage_fault l (ReadRun i)"
  by (simp add: usage_fault_def)

lemma name_loop_command:
  assumes "name_loop words commands taken n grp = NamedCommand c" "taken + n = Suc (length words)"
  shows "c \<in> set commands \<and> length (cm_words c) \<le> length words \<and>
    list_all2 (\<lambda>w a. is_arg a w) (cm_words c) (take (length (cm_words c)) words)"
  using assms
proof (induction words commands taken n grp rule: name_loop.induct)
  case (2 words commands taken n grp)
  let ?leading = "filter (\<lambda>c. taken \<le> length (cm_words c) \<and>
            list_all2 (\<lambda>w a. is_arg a w) (take taken (cm_words c)) (take taken words)) commands"
  show ?case
  proof (cases ?leading)
    case Nil with 2 show ?thesis by simp
  next
    case (Cons first rest)
    show ?thesis
    proof (cases "List.find (\<lambda>c. length (cm_words c) = taken) ?leading")
      case None
      with 2 Cons show ?thesis by simp
    next
      case (Some d)
      then have "d \<in> set ?leading" "length (cm_words d) = taken"
        by (auto dest: find_SomeD)
      moreover have "d = c" using 2(2) Cons Some by (simp add: Let_def)
      ultimately show ?thesis using 2(3) by auto
    qed
  qed
qed (simp split: option.splits)

lemma name_of_command:
  "name_of words commands = NamedCommand c \<Longrightarrow> c \<in> set commands \<and> length (cm_words c) \<le> length words \<and>
    list_all2 (\<lambda>w a. is_arg a w) (cm_words c) (take (length (cm_words c)) words)"
  unfolding name_of_def by (erule name_loop_command) simp

lemma no_run [simp]:
  "parse_loop l words named i seen as \<noteq> Some (ReadRun r)" "tail_fault l c \<noteq> Some (ReadRun r)"
  "no_command l \<noteq> ReadRun r" "line_usage l message argument \<noteq> ReadRun r" "line_help l commands \<noteq> ReadRun r"
  "not_served l c \<noteq> ReadRun r" "extra_word l c ws \<noteq> Some (ReadRun r)"
proof -
  show extra: "extra_word l c ws \<noteq> Some (ReadRun r)" for ws using extra_word_fault by fastforce
  show "parse_loop l words named i seen as \<noteq> Some (ReadRun r)" using parse_loop_fault by fastforce
  show "tail_fault l c \<noteq> Some (ReadRun r)" using tail_fault_fault by fastforce
  show "no_command l \<noteq> ReadRun r" using no_command_fault usage_fault_run by metis
  show usage: "line_usage l message argument \<noteq> ReadRun r" for message argument
    using line_usage_fault usage_fault_run by metis
  show "line_help l commands \<noteq> ReadRun r"
    using extra_word_fault by (fastforce simp: line_help_def Let_def unknown_command_def usage split: named.splits option.splits)
  have "form_fault_loop l seen bs \<noteq> Some (ReadRun r)" for seen bs
    by (induction l seen bs rule: form_fault_loop.induct) (auto dest: line_repeated_fault split: option.splits)
  then show "not_served l c \<noteq> ReadRun r" by (auto simp: not_served_def form_fault_def split: option.splits)
qed

lemma line_parse_run:
  assumes "line_parse l commands = ReadRun r"
  shows "name_of (map snd (command_words l)) commands = NamedCommand (iv_command r)"
    "parse_loop l (command_words l) (NamedCommand (iv_command r)) 0 [] (ln_head l) = None"
    "tail_fault l (iv_command r) = None"
    "length (cm_operands (iv_command r)) \<le> length (command_words l) - length (cm_words (iv_command r))"
    "invocation_of l (iv_command r) (command_words l) = ReadRun r"
  using assms
  by (auto simp: line_parse_def Let_def invocation_of_def split: option.splits named.splits if_splits)

lemma read_line_run:
  assumes "read_line args commands = ReadRun r"
  shows "line_parse (line_new args commands) commands = ReadRun r" "cm_served (iv_command r)"
proof -
  show run: "line_parse (line_new args commands) commands = ReadRun r"
    using assms by (auto simp: read_line_def Let_def split: if_splits named.splits)
  show "cm_served (iv_command r)"
    using assms line_parse_run(1) [OF run] by (auto simp: read_line_def Let_def split: if_splits named.splits)
qed

text \<open>What the loop has checked of every argument when it finds no fault.\<close>

lemma parse_loop_None:
  assumes "parse_loop l words named i seen as = None" "k < length as"
  shows "oa_valid (ar_text (as ! k)) \<and>
    (case ar_kind (as ! k) of
       ValueArg \<Rightarrow> value_fault l (ar_text (ln_head l ! (i + k - 1))) (ar_text (as ! k)) = None
     | WordArg \<Rightarrow> word_fault l (i + k) words named = None
     | FlagArg \<Rightarrow>
         flag_fault l (i + k)
           (seen @ map (\<lambda>a. flag_name l (ar_text a)) (filter (\<lambda>a. ar_kind a = FlagArg) (take k as))) named = None)"
  using assms
proof (induction l words named i seen as arbitrary: k rule: parse_loop.induct)
  case (2 l words named i seen a rest)
  from 2(2) have head: "parse_loop l words named (i + 1)
      (if ar_kind a = FlagArg then seen @ [flag_name l (ar_text a)] else seen) rest = None"
    "oa_valid (ar_text a)"
    by (auto simp: Let_def split: option.splits if_splits)
  show ?case
  proof (cases k)
    case 0
    with 2(2) show ?thesis by (auto simp: Let_def split: option.splits if_splits arg_kind.splits)
  next
    case (Suc m)
    have IH: "m < length rest \<Longrightarrow> ?thesis" 
      using 2(1) [OF refl _ head(1), of m] 2(2) Suc by (auto simp: Let_def split: option.splits if_splits arg_kind.splits)
    with 2(3) Suc show ?thesis by simp
  qed
qed simp

lemma classify_texts [simp]: "map ar_text (classify cs w as) = as"
  by (induction cs w as rule: classify.induct) (simp_all add: Let_def)

lemma length_classify [simp]: "length (classify cs w as) = length as"
  by (metis classify_texts length_map)

lemma classify_value:
  assumes "i + 1 < length as" "ar_kind (classify cs w as ! i) = FlagArg" "takes_value cs (ar_text (classify cs w as ! i))"
  shows "ar_kind (classify cs w as ! (i + 1)) = ValueArg"
  using assms
proof (induction cs w as arbitrary: i rule: classify.induct)
  case (2 cs w a rest)
  show ?case
  proof (cases i)
    case 0
    with 2(2-4) show ?thesis by (cases rest) (auto simp: Let_def split: if_splits)
  next
    case (Suc j)
    with 2(2-4) 2(1) [OF refl, of j] show ?thesis by (simp add: Let_def)
  qed
qed simp

lemma line_new_simps [simp]:
  "ln_commands (line_new args commands) = commands"
  "map ar_text (ln_head (line_new args commands)) = takeWhile (\<lambda>a. \<not> is_arg a ''--'') args"
  by (simp_all add: line_new_def Let_def)

lemma line_flags_nth: "(i, a) \<in> set (line_flags l) \<Longrightarrow> i < length (ln_head l) \<and> ar_text (ln_head l ! i) = a \<and> ar_kind (ln_head l ! i) = FlagArg"
  by (auto simp: line_flags_def in_set_enumerate_eq)

lemma command_words_nth: "(i, a) \<in> set (command_words l) \<Longrightarrow> i < length (ln_head l) \<and> ar_text (ln_head l ! i) = a \<and> ar_kind (ln_head l ! i) = WordArg"
  by (auto simp: command_words_def in_set_enumerate_eq dest: set_takeWhileD)

lemma line_flags_texts: "map snd (line_flags l) = map ar_text (filter (\<lambda>a. ar_kind a = FlagArg) (ln_head l))"
proof -
  have "map snd (filter (\<lambda>(i, a). P a) (enumerate k xs)) = filter P xs" for k P and xs :: "arg list"
    by (induction xs arbitrary: k) auto
  from this [of "\<lambda>a. ar_kind a = FlagArg" 0 "ln_head l"] show ?thesis
    unfolding line_flags_def map_map by (metis (mono_tags, lifting) case_prod_unfold comp_def map_eq_conv map_map snd_conv)
qed

lemma distinct_words: "distinct (map fst (command_words l))"
proof -
  have "distinct (map fst (takeWhile P (enumerate 0 xs)))" for P and xs :: "arg list"
    by (metis distinct_enumerate distinct_map distinct_map_filter map_fst_enumerate distinct_upt takeWhile_eq_take take_map distinct_take)
  then have "distinct (map fst (filter Q (takeWhile P (enumerate 0 xs))))" for P Q and xs :: "arg list"
    using distinct_map_filter by blast
  then show ?thesis by (simp add: command_words_def comp_def case_prod_unfold)
qed

lemma distinct_by_prefix:
  "(\<And>k. k < length as \<Longrightarrow> P (as ! k) \<Longrightarrow> f (as ! k) \<notin> set (map f (filter P (take k as)))) \<Longrightarrow> distinct (map f (filter P as))"
proof (induction as rule: rev_induct)
  case (snoc a as)
  have "distinct (map f (filter P as))"
  proof (rule snoc.IH)
    fix k assume "k < length as" "P (as ! k)"
    then have "f ((as @ [a]) ! k) \<notin> set (map f (filter P (take k (as @ [a]))))"
      by (intro snoc.prems) (simp_all add: nth_append)
    moreover have "(as @ [a]) ! k = as ! k" "take k (as @ [a]) = take k as" using \<open>k < length as\<close> by (simp_all add: nth_append)
    ultimately show "f (as ! k) \<notin> set (map f (filter P (take k as)))" by (simp only: not_False_eq_True)
  qed
  with snoc.prems [of "length as"] show ?case by auto
qed simp

lemma flag_fault_new: "flag_fault l i seen named = None \<Longrightarrow> flag_name l (ar_text (ln_head l ! i)) \<notin> set seen"
  by (auto simp: flag_fault_def flag_name_def Let_def line_repeated_def split: if_splits option.splits named.splits)

lemma word_fault_extra:
  assumes "(index, a) \<in> set (command_words l)"
    and "command_words l ! n = (index, a)" "n < length (command_words l)" "n = length (cm_words c) + length (cm_operands c)"
  shows "word_fault l index (command_words l) (NamedCommand c) \<noteq> None"
proof -
  have "List.find (\<lambda>at. fst (command_words l ! at) = index) [0 ..< length (command_words l)] = Some n"
  proof -
    have "fst (command_words l ! j) \<noteq> index" if "j < n" for j
      using nth_eq_iff_index_eq [OF distinct_words [of l], of j n] assms(2,3) that by simp
    then show ?thesis using assms(2,3) by (simp add: find_upt)
  qed
  then show ?thesis using assms by (simp add: word_fault_def extra_word_def)
qed

lemma flag_fault_value:
  "flag_fault l i seen (NamedCommand c) = None \<Longrightarrow> takes_value (ln_commands l) (ar_text (ln_head l ! i)) \<Longrightarrow>
    i + 1 < length (ln_head l)"
  by (auto simp: flag_fault_def Let_def split: if_splits option.splits)

lemma takes_value_flags: "is_arg a f \<Longrightarrow> f \<in> set VALUE_FLAGS \<Longrightarrow> takes_value cs a"
  by (auto simp: takes_value_def list_ex_iff)

text \<open>The value of a flag of every command, judged with the flag it follows.\<close>

lemma line_value_judged:
  assumes "l = line_new args commands" "parse_loop l words (NamedCommand c) 0 [] (ln_head l) = None"
    and "f \<in> set VALUE_FLAGS"
  shows "line_value l f = None \<longleftrightarrow> (\<forall>(i, a) \<in> set (line_flags l). \<not> is_arg a f)"
    and "line_value l f = Some v \<Longrightarrow> \<exists>a b. is_arg a f \<and> oa_text b = v \<and> value_fault l a b = None"
proof -
  have step: "i + 1 < length (ln_head l) \<and> ar_kind (ln_head l ! (i + 1)) = ValueArg \<and>
      value_fault l a (ar_text (ln_head l ! (i + 1))) = None"
    if "(i, a) \<in> set (line_flags l)" "is_arg a f" for i a
  proof -
    have at: "i < length (ln_head l)" "ar_text (ln_head l ! i) = a" "ar_kind (ln_head l ! i) = FlagArg"
      using line_flags_nth [OF that(1)] by simp_all
    have takes: "takes_value (ln_commands l) a" using that(2) assms(3) by (rule takes_value_flags)
    have next_arg: "i + 1 < length (ln_head l)"
      using parse_loop_None [OF assms(2) at(1)] at takes by (auto dest: flag_fault_value)
    moreover have "ar_kind (ln_head l ! (i + 1)) = ValueArg"
      using classify_value [of i] next_arg at takes assms(1) by (auto simp: line_new_def Let_def)
    ultimately show ?thesis using parse_loop_None [OF assms(2) next_arg] at by simp
  qed
  show "line_value l f = None \<longleftrightarrow> (\<forall>(i, a) \<in> set (line_flags l). \<not> is_arg a f)"
    using step by (fastforce simp: line_value_def find_None_iff split: option.splits dest: find_SomeD)
  show "line_value l f = Some v \<Longrightarrow> \<exists>a b. is_arg a f \<and> oa_text b = v \<and> value_fault l a b = None"
    using step by (fastforce simp: line_value_def split: option.splits if_splits dest: find_SomeD)
qed

lemma line_deadline_bounds: "line_deadline_ms t = Some ms \<Longrightarrow> 1 \<le> ms \<and> ms \<le> MAX_DEADLINE_MS"
  by (auto simp: line_deadline_ms_def Let_def split: if_splits)

lemma words_exact:
  assumes "line_parse l commands = ReadRun r"
  shows "length (command_words l) = length (cm_words (iv_command r)) + length (cm_operands (iv_command r))"
proof -
  note run = line_parse_run [OF assms]
  let ?n = "length (cm_words (iv_command r)) + length (cm_operands (iv_command r))"
  have "length (cm_words (iv_command r)) \<le> length (command_words l)" using name_of_command [OF run(1)] by simp
  with run(4) have "?n \<le> length (command_words l)" by linarith
  moreover have "\<not> ?n < length (command_words l)"
  proof
    assume n: "?n < length (command_words l)"
    obtain i a where ia: "command_words l ! ?n = (i, a)" by fastforce
    with n have "(i, a) \<in> set (command_words l)" by (metis nth_mem)
    with parse_loop_None [OF run(2), of i] command_words_nth [OF this] word_fault_extra [OF this ia n refl]
    show False by simp
  qed
  ultimately show ?thesis by simp
qed

lemma flags_distinct:
  assumes "parse_loop l words named 0 [] (ln_head l) = None"
  shows "distinct (map (flag_name l) (map snd (line_flags l)))"
  unfolding line_flags_texts map_map comp_def
proof (rule distinct_by_prefix)
  fix k assume "k < length (ln_head l)" "ar_kind (ln_head l ! k) = FlagArg"
  with parse_loop_None [OF assms, of k]
  show "flag_name l (ar_text (ln_head l ! k)) \<notin> set (map (\<lambda>a. flag_name l (ar_text a)) (filter (\<lambda>a. ar_kind a = FlagArg) (take k (ln_head l))))"
    by (auto dest: flag_fault_new)
qed

definition is_given :: "line \<Rightarrow> string \<Rightarrow> bool" where
  "is_given l f \<longleftrightarrow> list_ex (\<lambda>a. is_arg a f) (map snd (line_flags l))"

lemma line_value_given:
  assumes "l = line_new args commands" "parse_loop l words (NamedCommand c) 0 [] (ln_head l) = None"
    and "f \<in> set VALUE_FLAGS" "\<And>a b. is_arg a f \<Longrightarrow> value_fault l a b = None \<Longrightarrow> P (oa_text b)"
  shows "(line_value l f \<noteq> None \<longleftrightarrow> is_given l f) \<and> pred_option P (line_value l f)"
proof
  show "line_value l f \<noteq> None \<longleftrightarrow> is_given l f"
    unfolding line_value_judged(1) [OF assms(1-3)] is_given_def list_ex_iff by fastforce
  show "pred_option P (line_value l f)"
    using line_value_judged(2) [OF assms(1-3)] assms(4) by (cases "line_value l f") auto
qed

text \<open>
  A line that runs was checked. When a command line is read as an invocation, the command is one this
  build serves, its words are exactly the command's words and one word for each operand, every argument
  before \<open>--\<close> was valid, no flag was given twice, and the kernel, the socket and the deadline are
  exactly there when their flags are, and are an instance name, an absolute normal path and a number of
  milliseconds within bounds.\<close>

theorem run_is_checked:
  assumes "read_line args commands = ReadRun r" and "l = line_new args commands"
    and "words = map snd (command_words l)" and "c = iv_command r"
  shows "c \<in> set commands \<and> cm_served c \<and>
    list_all2 (\<lambda>w a. oa_text a = ascii w) (cm_words c) (take (length (cm_words c)) words) \<and>
    length words = length (cm_words c) + length (cm_operands c) \<and>
    list_all oa_valid (takeWhile (\<lambda>a. oa_text a \<noteq> ascii ''--'') args) \<and>
    distinct (map (flag_name l) (map snd (line_flags l))) \<and>
    (iv_kernel r \<noteq> None \<longleftrightarrow> is_given l KERNEL) \<and> pred_option is_instance_name (iv_kernel r) \<and>
    (iv_socket r \<noteq> None \<longleftrightarrow> is_given l SOCKET) \<and> pred_option is_normal_absolute (iv_socket r) \<and>
    (iv_deadline_ms r \<noteq> None \<longleftrightarrow> is_given l DEADLINE) \<and>
    pred_option (\<lambda>ms. 1 \<le> ms \<and> ms \<le> MAX_DEADLINE_MS) (iv_deadline_ms r)"
proof -
  have "line_parse l commands = ReadRun r" "cm_served c" using read_line_run [OF assms(1)] assms(2,4) by simp_all
  note run = line_parse_run [OF this(1), folded assms(3,4)]
  note named = name_of_command [OF run(1)]
  have value_of: "iv_kernel r = line_value l KERNEL" "iv_socket r = line_value l SOCKET"
    "iv_deadline_ms r = Option.bind (line_value l DEADLINE) line_deadline_ms"
    using run(5) by (auto simp: invocation_of_def)
  note judged = line_value_given [OF assms(2) run(2)]
  have "(line_value l KERNEL \<noteq> None \<longleftrightarrow> is_given l KERNEL) \<and> pred_option is_instance_name (line_value l KERNEL)"
    by (rule judged) (auto simp: VALUE_FLAGS_def value_fault_def Let_def split: if_splits)
  moreover have "(line_value l SOCKET \<noteq> None \<longleftrightarrow> is_given l SOCKET) \<and> pred_option is_normal_absolute (line_value l SOCKET)"
    by (rule judged) (auto simp: VALUE_FLAGS_def value_fault_def Let_def split: if_splits)
  moreover have "(line_value l DEADLINE \<noteq> None \<longleftrightarrow> is_given l DEADLINE) \<and>
      pred_option (\<lambda>t. \<exists>ms. line_deadline_ms t = Some ms) (line_value l DEADLINE)"
    by (rule judged) (auto simp: VALUE_FLAGS_def value_fault_def Let_def split: if_splits)
  moreover have "list_all oa_valid (map ar_text (ln_head l))"
    using parse_loop_None [OF run(2)] by (auto simp: list_all_length)
  moreover have "length words = length (cm_words c) + length (cm_operands c)"
    using words_exact [OF \<open>line_parse l commands = ReadRun r\<close>] assms(3,4) by simp
  ultimately show ?thesis
    using named flags_distinct [OF run(2)] \<open>cm_served c\<close> assms(2) line_deadline_bounds
    unfolding value_of by (auto simp: is_arg_def [abs_def] option.pred_set split: option.splits)
qed

text \<open>The line \<open>plasmosome status --kernel k\<close>, and what it reads as.\<close>

definition demo_line :: "os_arg list" where
  "demo_line = map (\<lambda>t. \<lparr>oa_text = ascii t, oa_valid = True\<rparr>) [''status'', ''--kernel'', ''k'']"

lemmas reading_simps = read_line_def line_new_def is_arg_def command_words_def is_known_def served_flag_def
  holds_its_value_def takes_value_def name_of_def line_parse_def line_flags_def invocation_of_def line_value_def
  flag_fault_def line_repeated_def value_fault_def word_fault_def extra_word_def tail_fault_def line_form_def
  flag_matches_def KNOWN_FLAGS_def VALUE_FLAGS_def KERNEL_def SOCKET_def DEADLINE_def JSON_FLAG_def HUMAN_FLAG_def
  SHORT_HELP_def HELP_def VERSION_def flag_name_def command_method_def

lemma demo_line_runs:
  "\<exists>r. read_line demo_line (take 1 COMMANDS) = ReadRun r \<and> iv_kernel r = Some (ascii ''k'')"
  by (simp add: reading_simps demo_line_def COMMANDS_def verb_command_def is_instance_name_def is_terminal_control_def Let_def)

theorem run_is_checked_witness:
  "\<exists>r. read_line demo_line (take 1 COMMANDS) = ReadRun r \<and> iv_kernel r = Some (ascii ''k'') \<and>
     is_instance_name (ascii ''k'') \<and> cm_served (iv_command r)"
proof -
  from demo_line_runs obtain r where r: "read_line demo_line (take 1 COMMANDS) = ReadRun r" "iv_kernel r = Some (ascii ''k'')"
    by blast
  from run_is_checked [OF r(1) refl refl refl] r show ?thesis by auto
qed
end
