(* ===== verification/Nofollow.thy ===== *)
theory Nofollow
  imports Client_Error
begin

text \<open>
  A path walked one component at a time without following a symbolic link,
  \<open>crates/plasmosome-core/src/nofollow.rs\<close>, as it is compiled for Linux or macOS. The operating system is a
  record of its calls: each takes the state of the world and gives its answer, an errno or a value, and the
  next state, so anything may happen between two calls. An open descriptor is a value of a type of its own.
  Paths are text.
\<close>

section \<open>What the operating system answers\<close>

unbundle bit_operations_syntax

datatype kind = KDirectory | KRegular | KSocket | KSymlink | KOther

record stat =
  st_mode :: u32
  st_uid :: u32
  st_dev :: u64
  st_ino :: u64

record facts =
  fc_kind :: kind
  fc_uid :: u32
  fc_mode :: u32
  fc_dev :: u64
  fc_ino :: u64

definition facts_of :: "stat \<Rightarrow> facts" where
  "facts_of s =
     (let f = st_mode s AND 0xF000 in
      \<lparr>fc_kind = (if f = 0x4000 then KDirectory else if f = 0x8000 then KRegular
         else if f = 0xC000 then KSocket else if f = 0xA000 then KSymlink else KOther),
       fc_uid = st_uid s, fc_mode = st_mode s AND 0xFFF, fc_dev = st_dev s, fc_ino = st_ino s\<rparr>)"

record dir_identity =
  di_dev :: u64
  di_ino :: u64

definition identity_of :: "facts \<Rightarrow> dir_identity" where
  "identity_of f = \<lparr>di_dev = fc_dev f, di_ino = fc_ino f\<rparr>"

text \<open>How \<open>openat\<close> is called: a directory for search only, a directory to read, a file.\<close>

datatype access = SearchOnly | ReadDirectory | ReadFile

type_synonym errno = int

type_synonym ('w, 'e, 'a) act = "'w \<Rightarrow> ('e + 'a) \<times> 'w"

record ('w, 'f) os =
  os_euid :: u32
  os_open_root :: "('w, errno, 'f) act"
  os_open_at :: "'f \<Rightarrow> utext \<Rightarrow> access \<Rightarrow> ('w, errno, 'f) act"
  os_fstat :: "'f \<Rightarrow> ('w, errno, stat) act"
  os_stat_at :: "'f \<Rightarrow> utext \<Rightarrow> ('w, errno, stat) act"
  os_dup :: "'f \<Rightarrow> ('w, errno, 'f) act"
  os_clear_nonblocking :: "'f \<Rightarrow> ('w, errno, unit) act"
  os_ignored_ownership :: "'f \<Rightarrow> ('w, string \<times> errno, bool) act"
  os_replacing_acl :: "'f \<Rightarrow> ('w, string \<times> errno, bool) act"
  os_acl_present :: "'f \<Rightarrow> ('w, string \<times> errno, bool) act"
  os_read_dir :: "'f \<Rightarrow> ('w, errno, (errno + utext) list) act"
  os_socket :: "('w, errno, 'f) act"
  os_bind :: "'f \<Rightarrow> utext \<Rightarrow> ('w, errno, unit) act"
  os_chmod_at :: "'f \<Rightarrow> utext \<Rightarrow> u32 \<Rightarrow> bool \<Rightarrow> ('w, errno, unit) act"
  os_listen :: "'f \<Rightarrow> int \<Rightarrow> ('w, errno, unit) act"
  os_set_nonblocking :: "'f \<Rightarrow> bool \<Rightarrow> ('w, errno, unit) act"
  os_rename_new :: "'f \<Rightarrow> utext \<Rightarrow> utext \<Rightarrow> ('w, errno, unit) act"
  os_unlink_at :: "'f \<Rightarrow> utext \<Rightarrow> ('w, errno, unit) act"
  os_accept :: "'f \<Rightarrow> ('w, errno, 'f) act"
  os_peer_credentials :: "'f \<Rightarrow> ('w, errno, u32) act"

definition ENOENT :: errno where "ENOENT = 2"
definition EACCES :: errno where "EACCES = 13"
definition ENOTDIR :: errno where "ENOTDIR = 20"
definition ELOOP :: errno where "ELOOP = 40"

section \<open>Sequencing\<close>

definition done_with :: "'a \<Rightarrow> ('w, 'e, 'a) act" where
  "done_with a w = (Ok a, w)"

definition fail_with :: "'e \<Rightarrow> ('w, 'e, 'a) act" where
  "fail_with e w = (Err e, w)"

definition act_then :: "('w, 'e, 'a) act \<Rightarrow> ('a \<Rightarrow> ('w, 'e, 'b) act) \<Rightarrow> ('w, 'e, 'b) act" where
  "act_then m k w = (case m w of (Err e, w') \<Rightarrow> (Err e, w') | (Ok a, w') \<Rightarrow> k a w')"

definition act_err :: "('e \<Rightarrow> 'd) \<Rightarrow> ('w, 'e, 'a) act \<Rightarrow> ('w, 'd, 'a) act" where
  "act_err f m w = (case m w of (Err e, w') \<Rightarrow> (Err (f e), w') | (Ok a, w') \<Rightarrow> (Ok a, w'))"

text \<open>The call whose outcome the caller looks at.\<close>

definition attempt_of :: "('w, 'e, 'a) act \<Rightarrow> ('w, 'd, 'e + 'a) act" where
  "attempt_of m w = (case m w of (r, w') \<Rightarrow> (Ok r, w'))"

definition checked :: "'e + 'a \<Rightarrow> ('w, 'e, 'a) act" where
  "checked r w = (r, w)"

section \<open>Refusals\<close>

datatype walk_refusal =
    WkNotNormal utext
  | WkSymlink utext
  | WkMissing utext
  | WkNotDirectory utext
  | WkForeignOwner utext u32
  | WkReplaceable utext u32
  | WkReplaceableByAcl utext
  | WkOwnershipIgnored utext
  | WkIo string utext errno

fun show_walk_refusal :: "walk_refusal \<Rightarrow> utext" where
  "show_walk_refusal (WkNotNormal p) =
     p @ ascii '' is not an absolute path of normal components (no empty, . or .. components)''"
| "show_walk_refusal (WkSymlink p) = p @ ascii '' is a symlink, which the walk does not follow''"
| "show_walk_refusal (WkMissing p) = p @ ascii '' does not exist''"
| "show_walk_refusal (WkNotDirectory p) = p @ ascii '' is not a directory''"
| "show_walk_refusal (WkForeignOwner p uid) =
     p @ ascii '' is owned by uid '' @ show_u32 uid @ ascii '', which is not trusted here''"
| "show_walk_refusal (WkReplaceable p mode) =
     p @ ascii '' has mode '' @ octal4 mode @ ascii '': group or other can replace entries in it''"
| "show_walk_refusal (WkReplaceableByAcl p) =
     p @ ascii (
       '' has an ACL allow entry granting add_file, add_subdirectory, delete_child, delete, '' @
       ''writesecurity or chown; such an entry is refused on an ancestor whoever it names, '' @
       ''even if it applies only to new children'')"
| "show_walk_refusal (WkOwnershipIgnored p) =
     p @ ascii (
       '' is on a volume mounted with ownership ignored (noowners): its owner and mode do not keep '' @
       ''other users out'')"
| "show_walk_refusal (WkIo op p errno) =
     ascii op @ ascii '' failed at '' @ p @ ascii '' (errno '' @ ascii (show_int errno) @ ascii '')''"

definition io_failure :: "string \<Rightarrow> utext \<Rightarrow> errno \<Rightarrow> walk_refusal" where
  "io_failure op at errno = WkIo op at errno"

definition io_at :: "utext \<Rightarrow> errno \<Rightarrow> walk_refusal" where
  "io_at path errno = WkIo ''openat'' path errno"

definition refuse_if ::
  "(walk_refusal \<Rightarrow> 'e) \<Rightarrow> ('w, string \<times> errno, bool) act \<Rightarrow> utext \<Rightarrow> (utext \<Rightarrow> 'e) \<Rightarrow> ('w, 'e, unit) act" where
  "refuse_if into found at why =
     act_then (act_err (\<lambda>(op, errno). into (WkIo op at errno)) found)
       (\<lambda>b. if b then fail_with (why at) else done_with ())"

section \<open>Paths\<close>

definition components_of :: "utext \<Rightarrow> utext \<Rightarrow> walk_refusal + utext list" where
  "components_of relative whole =
     (let cs = split_on 0x2F relative in
      if list_all (\<lambda>c. c \<noteq> [] \<and> c \<noteq> ascii ''.'' \<and> c \<noteq> ascii ''..'' \<and> 0 \<notin> set c) cs then Ok cs
      else Err (WkNotNormal whole))"

definition absolute_components :: "utext \<Rightarrow> walk_refusal + utext list" where
  "absolute_components path =
     (case strip_prefix [0x2F] path of
        None \<Rightarrow> Err (WkNotNormal path)
      | Some [] \<Rightarrow> Ok []
      | Some relative \<Rightarrow> components_of relative path)"

text \<open>\<open>PathBuf::push\<close> of a relative component.\<close>

definition push_path :: "utext \<Rightarrow> utext \<Rightarrow> utext" where
  "push_path at c = (if at \<noteq> [] \<and> last at = 0x2F then at @ c else at @ [0x2F] @ c)"

section \<open>One step\<close>

definition judge_ancestor :: "facts \<Rightarrow> u32 \<Rightarrow> utext \<Rightarrow> walk_refusal + unit" where
  "judge_ancestor f euid at =
     (if fc_kind f \<noteq> KDirectory then Err (WkNotDirectory at)
      else if fc_uid f \<noteq> 0 \<and> fc_uid f \<noteq> euid then Err (WkForeignOwner at (fc_uid f))
      else if fc_mode f AND 0x12 \<noteq> 0 then Err (WkReplaceable at (fc_mode f))
      else Ok ())"

definition stat_fd :: "('w, 'f) os \<Rightarrow> 'f \<Rightarrow> utext \<Rightarrow> ('w, walk_refusal, facts) act" where
  "stat_fd os fd at = act_then (act_err (io_failure ''fstat'' at) (os_fstat os fd)) (\<lambda>s. done_with (facts_of s))"

definition stat_at :: "('w, 'f) os \<Rightarrow> 'f \<Rightarrow> utext \<Rightarrow> ('w, errno, facts) act" where
  "stat_at os dir name = act_then (os_stat_at os dir name) (\<lambda>s. done_with (facts_of s))"

definition judged_or_io :: "(walk_refusal \<Rightarrow> 'e) \<Rightarrow> errno + facts \<Rightarrow> (facts \<Rightarrow> 'e + unit) \<Rightarrow> utext \<Rightarrow> errno \<Rightarrow> 'e" where
  "judged_or_io into found judge path errno =
     (case found of
        Ok f \<Rightarrow> (case judge f of Err why \<Rightarrow> why | Ok _ \<Rightarrow> into (io_at path errno))
      | Err _ \<Rightarrow> into (io_at path errno))"

definition open_child ::
  "('w, 'f) os \<Rightarrow> (walk_refusal \<Rightarrow> 'e) \<Rightarrow> 'f \<Rightarrow> utext \<Rightarrow> utext \<Rightarrow> access \<Rightarrow> (facts \<Rightarrow> 'e + unit) \<Rightarrow> ('w, 'e, 'f) act" where
  "open_child os into parent name at acc judge =
     act_then (attempt_of (os_open_at os parent name acc)) (\<lambda>opened.
       case opened of
         Ok dir \<Rightarrow> done_with dir
       | Err errno \<Rightarrow>
           if errno = ELOOP then fail_with (into (WkSymlink at))
           else if errno = ENOENT then fail_with (into (WkMissing at))
           else if errno = ENOTDIR then
             act_then (attempt_of (stat_at os parent name)) (\<lambda>found.
               fail_with (into (case found of
                 Ok f \<Rightarrow> if fc_kind f = KSymlink then WkSymlink at else WkNotDirectory at
               | Err _ \<Rightarrow> WkNotDirectory at)))
           else if errno = EACCES then
             act_then (attempt_of (stat_at os parent name)) (\<lambda>found.
               fail_with (judged_or_io into found judge at errno))
           else fail_with (into (io_at at errno)))"

definition open_file_at ::
  "('w, 'f) os \<Rightarrow> (walk_refusal \<Rightarrow> 'e) \<Rightarrow> 'f \<Rightarrow> utext \<Rightarrow> utext \<Rightarrow> (facts \<Rightarrow> 'e + unit) \<Rightarrow> ('w, 'e, 'f) act" where
  "open_file_at os into parent name at judge =
     act_then (attempt_of (os_open_at os parent name ReadFile)) (\<lambda>opened.
       case opened of
         Ok file \<Rightarrow> done_with file
       | Err errno \<Rightarrow>
           if errno = ELOOP then fail_with (into (WkSymlink at))
           else if errno = ENOENT then fail_with (into (WkMissing at))
           else
             act_then (attempt_of (stat_at os parent name)) (\<lambda>found.
               fail_with (judged_or_io into found judge at errno)))"

definition refuse_replacing_acl :: "('w, 'f) os \<Rightarrow> 'f \<Rightarrow> utext \<Rightarrow> ('w, walk_refusal, unit) act" where
  "refuse_replacing_acl os dir at = refuse_if (\<lambda>r. r) (os_replacing_acl os dir) at WkReplaceableByAcl"

definition refuse_ignored_ownership :: "('w, 'f) os \<Rightarrow> 'f \<Rightarrow> utext \<Rightarrow> ('w, walk_refusal, unit) act" where
  "refuse_ignored_ownership os dir at = refuse_if (\<lambda>r. r) (os_ignored_ownership os dir) at WkOwnershipIgnored"

definition pass_dir :: "('w, 'f) os \<Rightarrow> 'f \<Rightarrow> facts \<Rightarrow> utext \<Rightarrow> ('w, walk_refusal, unit) act" where
  "pass_dir os dir f at =
     act_then (refuse_ignored_ownership os dir at) (\<lambda>_.
     act_then (checked (judge_ancestor f (os_euid os) at)) (\<lambda>_.
     refuse_replacing_acl os dir at))"

definition clear_nonblocking :: "('w, 'f) os \<Rightarrow> 'f \<Rightarrow> utext \<Rightarrow> ('w, walk_refusal, unit) act" where
  "clear_nonblocking os fd at = act_err (io_failure ''fcntl'' at) (os_clear_nonblocking os fd)"

section \<open>The walk\<close>

record 'f walk =
  wk_start :: 'f
  wk_start_path :: utext
  wk_components :: "utext list"

record 'f opened =
  op_fd :: 'f
  op_facts :: facts
  op_chain :: "dir_identity list"

record reached =
  rc_path :: utext
  rc_facts :: facts
  rc_parent :: "facts option"

datatype walk_last = LastDirectory | LastFile

definition walk_from_root :: "('w, 'f) os \<Rightarrow> utext \<Rightarrow> ('w, walk_refusal, 'f walk) act" where
  "walk_from_root os path =
     act_then (checked (absolute_components path)) (\<lambda>cs.
     act_then (act_err (io_failure ''open'' [0x2F]) (os_open_root os)) (\<lambda>start.
     done_with \<lparr>wk_start = start, wk_start_path = [0x2F], wk_components = cs\<rparr>))"

definition walk_path :: "'f walk \<Rightarrow> utext" where
  "walk_path w = foldl push_path (wk_start_path w) (wk_components w)"

definition reach_start ::
  "('w, 'f) os \<Rightarrow> (walk_refusal \<Rightarrow> 'e) \<Rightarrow> 'f walk \<Rightarrow> walk_last \<Rightarrow> facts \<Rightarrow> (reached \<Rightarrow> 'e + unit) \<Rightarrow> ('w, 'e, 'f opened) act" where
  "reach_start os into walk last_kind f judge =
     (let at = wk_start_path walk; r = \<lparr>rc_path = at, rc_facts = f, rc_parent = None\<rparr> in
      act_then (act_err (\<lambda>e. into (io_failure ''dup'' at e)) (os_dup os (wk_start walk))) (\<lambda>fd.
      case last_kind of
        LastDirectory \<Rightarrow>
          act_then (act_err into (refuse_ignored_ownership os fd at)) (\<lambda>_.
          act_then (checked (judge r)) (\<lambda>_.
          done_with \<lparr>op_fd = fd, op_facts = f, op_chain = [identity_of f]\<rparr>))
      | LastFile \<Rightarrow>
          act_then (checked (judge r)) (\<lambda>_. done_with \<lparr>op_fd = fd, op_facts = f, op_chain = []\<rparr>)))"

text \<open>
  The loop of \<open>reach\<close> over the components before the last: the directory held, its facts, its path and the
  identities so far.\<close>

fun reach_above ::
  "('w, 'f) os \<Rightarrow> (walk_refusal \<Rightarrow> 'e) \<Rightarrow> utext list \<Rightarrow> 'f \<Rightarrow> facts \<Rightarrow> utext \<Rightarrow> dir_identity list \<Rightarrow>
    ('w, 'e, 'f \<times> facts \<times> utext \<times> dir_identity list) act" where
  "reach_above os into [] parent f at passed =
     act_then (act_err into (pass_dir os parent f at)) (\<lambda>_. done_with (parent, f, at, passed @ [identity_of f]))"
| "reach_above os into (c # cs) parent f at passed =
     act_then (act_err into (pass_dir os parent f at)) (\<lambda>_.
     (let at' = push_path at c in
      act_then (open_child os into parent c at' SearchOnly
          (\<lambda>g. case judge_ancestor g (os_euid os) at' of Err e \<Rightarrow> Err (into e) | Ok u \<Rightarrow> Ok u)) (\<lambda>held.
      act_then (act_err into (stat_fd os held at')) (\<lambda>g.
      reach_above os into cs held g at' (passed @ [identity_of f])))))"

definition reach ::
  "('w, 'f) os \<Rightarrow> (walk_refusal \<Rightarrow> 'e) \<Rightarrow> 'f walk \<Rightarrow> walk_last \<Rightarrow> (reached \<Rightarrow> 'e + unit) \<Rightarrow> ('w, 'e, 'f opened) act" where
  "reach os into walk last_kind judge =
     act_then (act_err into (stat_fd os (wk_start walk) (wk_start_path walk))) (\<lambda>f.
     if wk_components walk = [] then reach_start os into walk last_kind f judge
     else
       act_then (reach_above os into (butlast (wk_components walk)) (wk_start walk) f (wk_start_path walk) [])
         (\<lambda>(parent, holder, at, passed).
       (let name = last (wk_components walk); at' = push_path at name;
            shown = (\<lambda>g. \<lparr>rc_path = at', rc_facts = g, rc_parent = Some holder\<rparr>) in
        case last_kind of
          LastDirectory \<Rightarrow>
            act_then (open_child os into parent name at' ReadDirectory (\<lambda>g. judge (shown g))) (\<lambda>dir.
            act_then (act_err into (stat_fd os dir at')) (\<lambda>g.
            act_then (act_err into (refuse_ignored_ownership os dir at')) (\<lambda>_.
            act_then (checked (judge (shown g))) (\<lambda>_.
            done_with \<lparr>op_fd = dir, op_facts = g, op_chain = passed @ [identity_of g]\<rparr>))))
        | LastFile \<Rightarrow>
            act_then (open_file_at os into parent name at' (\<lambda>g. judge (shown g))) (\<lambda>file.
            act_then (act_err into (stat_fd os file at')) (\<lambda>g.
            act_then (checked (judge (shown g))) (\<lambda>_.
            act_then (if fc_kind g = KRegular then act_err into (clear_nonblocking os file at') else done_with ()) (\<lambda>_.
            done_with \<lparr>op_fd = file, op_facts = g, op_chain = passed\<rparr>)))))))"

definition open_directory ::
  "('w, 'f) os \<Rightarrow> (walk_refusal \<Rightarrow> 'e) \<Rightarrow> 'f walk \<Rightarrow> (reached \<Rightarrow> 'e + unit) \<Rightarrow> ('w, 'e, 'f opened) act" where
  "open_directory os into walk judge = reach os into walk LastDirectory judge"

definition open_file ::
  "('w, 'f) os \<Rightarrow> (walk_refusal \<Rightarrow> 'e) \<Rightarrow> 'f walk \<Rightarrow> (reached \<Rightarrow> 'e + unit) \<Rightarrow> ('w, 'e, 'f opened) act" where
  "open_file os into walk judge = reach os into walk LastFile judge"

definition open_trusted_directory :: "('w, 'f) os \<Rightarrow> 'f walk \<Rightarrow> ('w, walk_refusal, 'f opened) act" where
  "open_trusted_directory os walk =
     act_then (open_directory os (\<lambda>r. r) walk (\<lambda>r. judge_ancestor (rc_facts r) (os_euid os) (rc_path r))) (\<lambda>opened.
     act_then (refuse_replacing_acl os (op_fd opened) (walk_path walk)) (\<lambda>_.
     done_with opened))"

fun identities_loop ::
  "('w, 'f) os \<Rightarrow> utext list \<Rightarrow> 'f \<Rightarrow> utext \<Rightarrow> dir_identity list \<Rightarrow> ('w, walk_refusal, dir_identity list) act" where
  "identities_loop os [] parent at passed = done_with passed"
| "identities_loop os (c # rest) parent at passed =
     (let at' = push_path at c in
      act_then (open_child os (\<lambda>r. r) parent c at' SearchOnly (\<lambda>_. Ok ())) (\<lambda>held.
      act_then (stat_fd os held at') (\<lambda>f.
      identities_loop os rest held at' (passed @ [identity_of f]))))"

definition walk_identities :: "('w, 'f) os \<Rightarrow> 'f walk \<Rightarrow> ('w, walk_refusal, dir_identity list) act" where
  "walk_identities os walk =
     act_then (stat_fd os (wk_start walk) (wk_start_path walk)) (\<lambda>f.
     identities_loop os (wk_components walk) (wk_start walk) (wk_start_path walk) [identity_of f])"

section \<open>Reasoning about calls\<close>

named_theorems acts \<open>when an act returns, and with what\<close>

lemma act_then_Ok [acts]: "act_then m k w = (Ok b, w'') \<longleftrightarrow> (\<exists>a w'. m w = (Ok a, w') \<and> k a w' = (Ok b, w''))"
  by (auto simp: act_then_def split: prod.splits sum.splits)

lemma done_with_Ok [acts]: "done_with a w = (Ok b, w') \<longleftrightarrow> b = a \<and> w' = w"
  by (auto simp: done_with_def)

lemma fail_with_Ok [acts]: "fail_with e w = (Ok b, w') \<longleftrightarrow> False"
  by (simp add: fail_with_def)

lemma act_err_Ok [acts]: "act_err g m w = (Ok b, w') \<longleftrightarrow> m w = (Ok b, w')"
  by (auto simp: act_err_def split: prod.splits sum.splits)

lemma checked_Ok [acts]: "checked r w = (Ok b, w') \<longleftrightarrow> r = Ok b \<and> w' = w"
  by (auto simp: checked_def)

lemma attempt_of_Ok [acts]: "attempt_of m w = (Ok r, w') \<longleftrightarrow> m w = (r, w')"
  by (auto simp: attempt_of_def split: prod.splits)

lemma refuse_if_Ok [acts]: "refuse_if into found at why w = (Ok b, w') \<longleftrightarrow> found w = (Ok False, w')"
  by (auto simp: refuse_if_def acts split: if_splits)

lemma open_child_Ok [acts]:
  "open_child os into parent name at acc judge w = (Ok fd, w') \<longleftrightarrow> os_open_at os parent name acc w = (Ok fd, w')"
  by (cases "os_open_at os parent name acc w"; cases "fst (os_open_at os parent name acc w)")
    (simp_all add: open_child_def act_then_def attempt_of_def fail_with_def done_with_def split: prod.split sum.split)

lemma open_file_at_Ok [acts]:
  "open_file_at os into parent name at judge w = (Ok fd, w') \<longleftrightarrow> os_open_at os parent name ReadFile w = (Ok fd, w')"
  by (cases "os_open_at os parent name ReadFile w"; cases "fst (os_open_at os parent name ReadFile w)")
    (simp_all add: open_file_at_def act_then_def attempt_of_def fail_with_def done_with_def split: prod.split sum.split)

lemma stat_fd_Ok [acts]:
  "stat_fd os fd at w = (Ok f, w') \<longleftrightarrow> (\<exists>s. os_fstat os fd w = (Ok s, w') \<and> f = facts_of s)"
  by (auto simp: stat_fd_def acts)

lemma stat_at_Ok [acts]:
  "stat_at os dir name w = (Ok f, w') \<longleftrightarrow> (\<exists>s. os_stat_at os dir name w = (Ok s, w') \<and> f = facts_of s)"
  by (auto simp: stat_at_def acts)

section \<open>What a walk has seen\<close>

text \<open>A directory whose entries only root and the user itself can replace.\<close>

definition trusted_dir :: "u32 \<Rightarrow> facts \<Rightarrow> bool" where
  "trusted_dir euid f \<longleftrightarrow> fc_kind f = KDirectory \<and> fc_uid f \<in> {0, euid} \<and> fc_mode f AND 0x12 = 0"

lemma judge_ancestor_Ok [acts]: "judge_ancestor f euid at = Ok u \<longleftrightarrow> trusted_dir euid f"
  by (auto simp: judge_ancestor_def trusted_dir_def)

definition seen :: "('w, 'f) os \<Rightarrow> 'f \<Rightarrow> facts \<Rightarrow> bool" where
  "seen os fd f \<longleftrightarrow> (\<exists>w s w'. os_fstat os fd w = (Ok s, w') \<and> f = facts_of s)"

definition opened_at :: "('w, 'f) os \<Rightarrow> 'f \<Rightarrow> utext \<Rightarrow> access \<Rightarrow> 'f \<Rightarrow> bool" where
  "opened_at os parent name acc fd \<longleftrightarrow> (\<exists>w w'. os_open_at os parent name acc w = (Ok fd, w'))"

lemma seenI: "os_fstat os fd w = (Ok s, w') \<Longrightarrow> seen os fd (facts_of s)"
  by (auto simp: seen_def)

lemma opened_atI: "os_open_at os parent name acc w = (Ok fd, w') \<Longrightarrow> opened_at os parent name acc fd"
  by (auto simp: opened_at_def)

definition passes :: "('w, 'f) os \<Rightarrow> 'f \<Rightarrow> facts \<Rightarrow> bool" where
  "passes os dir f \<longleftrightarrow> seen os dir f \<and> trusted_dir (os_euid os) f \<and>
     (\<exists>w w'. os_ignored_ownership os dir w = (Ok False, w')) \<and> (\<exists>w w'. os_replacing_acl os dir w = (Ok False, w'))"

text \<open>
  From one open directory down to another, each opened by its name in the one before, without following a
  link, and each of them passed.\<close>

inductive descends :: "('w, 'f) os \<Rightarrow> 'f \<Rightarrow> utext list \<Rightarrow> 'f \<Rightarrow> facts \<Rightarrow> bool" for os where
  here: "passes os d f \<Longrightarrow> descends os d [] d f"
| down: "passes os d f \<Longrightarrow> opened_at os d c SearchOnly e \<Longrightarrow> descends os e cs h k \<Longrightarrow> descends os d (c # cs) h k"

lemma pass_dir_Ok:
  "pass_dir os d f at w = (Ok u, w') \<Longrightarrow> seen os d f \<Longrightarrow> passes os d f"
  by (auto simp: pass_dir_def acts passes_def refuse_ignored_ownership_def refuse_replacing_acl_def)

lemma reach_above_Ok:
  assumes "reach_above os into cs d f at passed w = (Ok (h, k, at', chain'), w')" "seen os d f"
  shows "descends os d cs h k \<and> at' = foldl push_path at cs"
  using assms
proof (induction cs arbitrary: d f at passed w)
  case Nil
  then show ?case by (auto simp: acts intro: descends.here dest: pass_dir_Ok)
next
  case (Cons c cs)
  then obtain w1 e w2 s w3 where steps: "pass_dir os d f at w = (Ok (), w1)"
      "os_open_at os d c SearchOnly w1 = (Ok e, w2)" "os_fstat os e w2 = (Ok s, w3)"
      "reach_above os into cs e (facts_of s) (push_path at c) (passed @ [identity_of f]) w3 = (Ok (h, k, at', chain'), w')"
    by (auto simp: acts Let_def)
  with Cons.IH [OF steps(4) seenI [OF steps(3)]] Cons.prems(2) show ?case
    by (auto intro!: descends.down pass_dir_Ok [OF steps(1)] opened_atI [OF steps(2)])
qed

lemma reach_directory_Ok:
  assumes "reach os into walk LastDirectory judge w = (Ok r, w')"
  shows "if wk_components walk = []
    then seen os (wk_start walk) (op_facts r) \<and> (\<exists>w w'. os_dup os (wk_start walk) w = (Ok (op_fd r), w')) \<and>
      judge \<lparr>rc_path = wk_start_path walk, rc_facts = op_facts r, rc_parent = None\<rparr> = Ok ()
    else \<exists>h k. descends os (wk_start walk) (butlast (wk_components walk)) h k \<and>
      opened_at os h (last (wk_components walk)) ReadDirectory (op_fd r) \<and> seen os (op_fd r) (op_facts r) \<and>
      (\<exists>w w'. os_ignored_ownership os (op_fd r) w = (Ok False, w')) \<and>
      judge \<lparr>rc_path = walk_path walk, rc_facts = op_facts r, rc_parent = Some k\<rparr> = Ok ()"
proof (cases "wk_components walk = []")
  case True
  with assms show ?thesis
    by (auto simp: reach_def reach_start_def acts Let_def intro: seenI) blast
next
  case False
  let ?cs = "wk_components walk"
  have path: "walk_path walk = push_path (foldl push_path (wk_start_path walk) (butlast ?cs)) (last ?cs)"
    using append_butlast_last_id [OF False, symmetric] unfolding walk_path_def
    by (metis foldl_append foldl.simps)
  from False assms obtain s w1 h k at passed w2 w3 s' w4 w5 where
    start: "os_fstat os (wk_start walk) w = (Ok s, w1)"
    and above: "reach_above os into (butlast ?cs) (wk_start walk) (facts_of s) (wk_start_path walk) [] w1 =
      (Ok (h, k, at, passed), w2)"
    and last_dir: "os_open_at os h (last ?cs) ReadDirectory w2 = (Ok (op_fd r), w3)"
      "os_fstat os (op_fd r) w3 = (Ok s', w4)" "op_facts r = facts_of s'"
      "os_ignored_ownership os (op_fd r) w4 = (Ok False, w5)"
      "judge \<lparr>rc_path = push_path at (last ?cs), rc_facts = facts_of s', rc_parent = Some k\<rparr> = Ok ()"
    by (auto simp: reach_def acts Let_def refuse_ignored_ownership_def)
  from reach_above_Ok [OF above seenI [OF start]] opened_atI [OF last_dir(1)] seenI [OF last_dir(2)] last_dir(3-5) False path
  show ?thesis by auto
qed

end
