(* ===== verification/Private_Socket.thy ===== *)
theory Private_Socket
  imports Nofollow
begin

text \<open>
  The boundary of a control socket, \<open>crates/plasmosome-core/src/private_socket.rs\<close>: the private directory,
  the check a client makes before it connects, the listing default selection reads, and how a daemon
  publishes its socket. The names drawn for temporaries are a list; what is left undone when a value is
  dropped is written out where the drop happens.
\<close>

section \<open>Judgements\<close>

fun of_walk :: "walk_refusal \<Rightarrow> private_socket_error" where
  "of_walk (WkNotNormal p) = BadPath p"
| "of_walk (WkSymlink p) = SymlinkInPath p"
| "of_walk (WkMissing p) = NoDirectory p"
| "of_walk (WkNotDirectory p) = NotDirectory p"
| "of_walk (WkForeignOwner p uid) = ForeignOwner p uid"
| "of_walk (WkReplaceable p mode) = Replaceable p mode"
| "of_walk (WkReplaceableByAcl p) = ReplaceableByAcl p"
| "of_walk (WkOwnershipIgnored p) = OwnershipIgnored p"
| "of_walk (WkIo op p errno) = SocketIo op p errno"

definition judge_private :: "facts \<Rightarrow> u32 \<Rightarrow> utext \<Rightarrow> private_socket_error + unit" where
  "judge_private f euid path =
     (if fc_kind f \<noteq> KDirectory then Err (NotDirectory path)
      else if fc_uid f \<noteq> euid then Err (ForeignOwner path (fc_uid f))
      else if fc_mode f AND 0x3F \<noteq> 0 then Err (NotPrivate path (fc_mode f))
      else Ok ())"

definition judge_socket :: "facts \<Rightarrow> u32 \<Rightarrow> utext \<Rightarrow> private_socket_error + unit" where
  "judge_socket f trusted_uid path =
     (if fc_kind f \<noteq> KSocket then Err (NotASocket path)
      else if fc_uid f \<noteq> trusted_uid then Err (SocketOwner path (fc_uid f))
      else if fc_mode f AND 0x1FF \<noteq> 0x180 then Err (SocketMode path (fc_mode f))
      else Ok ())"

definition judge_peer :: "u32 \<Rightarrow> u32 \<Rightarrow> private_socket_error + unit" where
  "judge_peer trusted found = (if trusted = found then Ok () else Err (PeerMismatch trusted found))"

definition ENOTCONN :: errno where "ENOTCONN = 107"

definition kernel_peer_uid :: "('w, 'f) os \<Rightarrow> 'f \<Rightarrow> ('w, errno, u32) act" where
  "kernel_peer_uid os stream =
     act_then (os_peer_credentials os stream) (\<lambda>uid. if uid = - 1 then fail_with ENOTCONN else done_with uid)"

definition check_peer_uid :: "('w, 'f) os \<Rightarrow> 'f \<Rightarrow> u32 \<Rightarrow> ('w, private_socket_error, unit) act" where
  "check_peer_uid os stream expected =
     act_then (act_err PeerCredentials (kernel_peer_uid os stream)) (\<lambda>found. checked (judge_peer expected found))"

definition socket_io :: "string \<Rightarrow> utext \<Rightarrow> errno \<Rightarrow> private_socket_error" where
  "socket_io op at errno = SocketIo op at errno"

definition no_socket_or_io :: "errno \<Rightarrow> utext \<Rightarrow> private_socket_error" where
  "no_socket_or_io errno path = (if errno = ENOENT then NoSocket path else SocketIo ''fstatat'' path errno)"

definition entry_name :: "utext \<Rightarrow> private_socket_error + utext" where
  "entry_name name =
     (if name = [] \<or> name = ascii ''.'' \<or> name = ascii ''..'' \<or> 0x2F \<in> set name then Err (BadName name)
      else if 0 \<in> set name then Err (BadName name) else Ok name)"

section \<open>The private directory\<close>

record 'f private_dir =
  pd_path :: utext
  pd_dir :: 'f
  pd_identity :: dir_identity
  pd_walk :: "'f walk"

record socket_entry =
  se_path :: utext
  se_dev :: u64
  se_ino :: u64

definition refuse_acl :: "('w, 'f) os \<Rightarrow> 'f \<Rightarrow> utext \<Rightarrow> ('w, private_socket_error, unit) act" where
  "refuse_acl os dir path = refuse_if of_walk (os_acl_present os dir) path AclPresent"

definition open_private :: "('w, 'f) os \<Rightarrow> 'f walk \<Rightarrow> utext \<Rightarrow> ('w, private_socket_error, 'f opened) act" where
  "open_private os walk path =
     act_then (open_directory os of_walk walk (\<lambda>r. judge_private (rc_facts r) (os_euid os) (rc_path r))) (\<lambda>opened.
     act_then (refuse_acl os (op_fd opened) path) (\<lambda>_. done_with opened))"

definition private_from_walk :: "('w, 'f) os \<Rightarrow> 'f walk \<Rightarrow> ('w, private_socket_error, 'f private_dir) act" where
  "private_from_walk os walk =
     (let path = walk_path walk in
      act_then (open_private os walk path) (\<lambda>opened.
      done_with \<lparr>pd_path = path, pd_dir = op_fd opened, pd_identity = identity_of (op_facts opened), pd_walk = walk\<rparr>))"

definition private_open :: "('w, 'f) os \<Rightarrow> utext \<Rightarrow> ('w, private_socket_error, 'f private_dir) act" where
  "private_open os path = act_then (act_err of_walk (walk_from_root os path)) (private_from_walk os)"

definition reconfirm :: "('w, 'f) os \<Rightarrow> 'f private_dir \<Rightarrow> ('w, private_socket_error, unit) act" where
  "reconfirm os d =
     act_then (open_private os (pd_walk d) (pd_path d)) (\<lambda>opened.
     let f = op_facts opened in
     if fc_dev f = di_dev (pd_identity d) \<and> fc_ino f = di_ino (pd_identity d) then done_with ()
     else fail_with (Replaced (pd_path d)))"

definition socket_entry_of ::
  "('w, 'f) os \<Rightarrow> 'f private_dir \<Rightarrow> utext \<Rightarrow> u32 \<Rightarrow> ('w, private_socket_error, socket_entry) act" where
  "socket_entry_of os d name trusted_uid =
     act_then (checked (entry_name name)) (\<lambda>c_name.
     (let path = push_path (pd_path d) name in
      act_then (act_err (\<lambda>errno. no_socket_or_io errno path) (stat_at os (pd_dir d) c_name)) (\<lambda>f.
      act_then (checked (judge_socket f trusted_uid path)) (\<lambda>_.
      done_with \<lparr>se_path = path, se_dev = fc_dev f, se_ino = fc_ino f\<rparr>))))"

text \<open>The parent of an absolute normal path: what stands before its last slash, or the root.\<close>

definition parent_path :: "utext list \<Rightarrow> utext" where
  "parent_path cs = 0x2F # join_with 0x2F cs"

definition check_private_path :: "('w, 'f) os \<Rightarrow> utext \<Rightarrow> u32 \<Rightarrow> ('w, private_socket_error, socket_entry) act" where
  "check_private_path os socket_path trusted_uid =
     act_then (act_err of_walk (checked (absolute_components socket_path))) (\<lambda>cs.
     if cs = [] then fail_with (BadPath socket_path)
     else act_then (private_open os (parent_path (butlast cs))) (\<lambda>d. socket_entry_of os d (last cs) trusted_uid))"

section \<open>Listing\<close>

datatype entry_kind = EntryDirectory | EntrySymlink | EntryOther

record listed_entry =
  le_name :: utext
  le_kind :: entry_kind

definition entry_kind_of :: "kind \<Rightarrow> entry_kind" where
  "entry_kind_of k = (case k of KDirectory \<Rightarrow> EntryDirectory | KSymlink \<Rightarrow> EntrySymlink | _ \<Rightarrow> EntryOther)"

text \<open>\<open>DirectoryStream\<close> of \<open>instance.rs\<close>: every name the directory yields but its own two.\<close>

definition directory_stream :: "('w, 'f) os \<Rightarrow> 'f \<Rightarrow> ('w, errno, (errno + utext) list) act" where
  "directory_stream os dir =
     act_then (os_read_dir os dir) (\<lambda>names.
     done_with (filter (\<lambda>n. n \<noteq> Ok (ascii ''.'') \<and> n \<noteq> Ok (ascii ''..'')) names))"

fun listed_loop ::
  "('w, 'f) os \<Rightarrow> 'f \<Rightarrow> utext \<Rightarrow> (errno + utext) list \<Rightarrow> listed_entry list \<Rightarrow> ('w, private_socket_error, listed_entry list) act" where
  "listed_loop os dir path [] listed = done_with listed"
| "listed_loop os dir path (n # rest) listed =
     (case n of
        Err errno \<Rightarrow> fail_with (socket_io ''readdir'' path errno)
      | Ok name \<Rightarrow>
          if 0 \<in> set name then fail_with (BadName name)
          else
            act_then (attempt_of (stat_at os dir name)) (\<lambda>found.
            case found of
              Ok f \<Rightarrow>
                listed_loop os dir path rest (listed @ [\<lparr>le_name = name, le_kind = entry_kind_of (fc_kind f)\<rparr>])
            | Err errno \<Rightarrow>
                if errno = ENOENT then listed_loop os dir path rest listed
                else fail_with (SocketIo ''fstatat'' (push_path path name) errno)))"

definition listed_from ::
  "('w, 'f) os \<Rightarrow> 'f \<Rightarrow> utext \<Rightarrow> (errno + utext) list \<Rightarrow> ('w, private_socket_error, listed_entry list) act" where
  "listed_from os dir path names =
     act_then (listed_loop os dir path names []) (\<lambda>listed. done_with (sort_key le_name listed))"

definition list_entries :: "('w, 'f) os \<Rightarrow> 'f \<Rightarrow> utext \<Rightarrow> ('w, private_socket_error, listed_entry list) act" where
  "list_entries os dir path =
     act_then (act_err (socket_io ''fdopendir'' path) (directory_stream os dir)) (listed_from os dir path)"

definition list_trusted_dir :: "('w, 'f) os \<Rightarrow> utext \<Rightarrow> ('w, private_socket_error, listed_entry list) act" where
  "list_trusted_dir os path =
     act_then (act_err of_walk (walk_from_root os path)) (\<lambda>walk.
     act_then (act_err of_walk (open_trusted_directory os walk)) (\<lambda>opened.
     list_entries os (op_fd opened) (walk_path walk)))"

section \<open>Publishing a socket\<close>

definition EADDRINUSE :: errno where "EADDRINUSE = 98"
definition EEXIST :: errno where "EEXIST = 17"
definition ENOTSUP :: errno where "ENOTSUP = 95"
definition EAGAIN :: errno where "EAGAIN = 11"
definition LISTEN_BACKLOG :: int where "LISTEN_BACKLOG = 16"
definition TEMPORARY_LENGTH :: nat where "TEMPORARY_LENGTH = 16"
definition TEMPORARY_DRAWS :: nat where "TEMPORARY_DRAWS = 8"
definition TEMPORARY_CHARACTERS :: utext where
  "TEMPORARY_CHARACTERS = ascii ''0123456789abcdefghijklmnopqrstuvwxyz''"
definition RENAME_OP :: string where "RENAME_OP = ''renameat2''"

text \<open>The bytes of \<open>sun_path\<close> on Linux, of which the last is for the NUL.\<close>

definition SUN_PATH :: nat where "SUN_PATH = 108"

datatype remove_outcome = Removed | AlreadyGone | LeftReplacement | RemoveFailed errno

record 'f bound_entry =
  be_dir :: "'f private_dir"
  be_name :: utext
  be_entry :: socket_entry
  be_removed :: bool

definition gone_or_failed :: "errno \<Rightarrow> remove_outcome" where
  "gone_or_failed errno = (if errno = ENOENT then AlreadyGone else RemoveFailed errno)"

definition bound_remove :: "('w, 'f) os \<Rightarrow> 'f bound_entry \<Rightarrow> 'w \<Rightarrow> remove_outcome \<times> 'w" where
  "bound_remove os b w =
     (case stat_at os (pd_dir (be_dir b)) (be_name b) w of
        (Err errno, w') \<Rightarrow> (gone_or_failed errno, w')
      | (Ok f, w') \<Rightarrow>
          if fc_kind f \<noteq> KSocket \<or> fc_dev f \<noteq> se_dev (be_entry b) \<or> fc_ino f \<noteq> se_ino (be_entry b)
          then (LeftReplacement, w')
          else (case os_unlink_at os (pd_dir (be_dir b)) (be_name b) w' of
                  (Ok _, w'') \<Rightarrow> (Removed, w'')
                | (Err errno, w'') \<Rightarrow> (gone_or_failed errno, w'')))"

text \<open>\<open>Drop for BoundEntry\<close>: a step after which the entry is dropped when it fails.\<close>

definition or_drop :: "('w, 'f) os \<Rightarrow> 'f bound_entry \<Rightarrow> ('w, 'e, 'a) act \<Rightarrow> ('w, 'e, 'a) act" where
  "or_drop os b m w =
     (case m w of
        (Ok a, w') \<Rightarrow> (Ok a, w')
      | (Err e, w') \<Rightarrow> (Err e, if be_removed b then w' else snd (bound_remove os b w')))"

definition address_for :: "utext \<Rightarrow> private_socket_error + unit" where
  "address_for path =
     (if SUN_PATH - 1 < length (utf8_bytes path) then Err (PathTooLong path (SUN_PATH - 1)) else Ok ())"

definition bind_path :: "('w, 'f) os \<Rightarrow> 'f \<Rightarrow> utext \<Rightarrow> ('w, private_socket_error, unit) act" where
  "bind_path os sock at =
     act_then (checked (address_for at)) (\<lambda>_. act_err (socket_io ''bind'' at) (os_bind os sock at))"

definition temporary_room :: "utext \<Rightarrow> nat" where
  "temporary_room dir = (SUN_PATH - 1) - (length (utf8_bytes dir) + 1)"

text \<open>\<open>random_temporary\<close>: the hash that seeds each character is a parameter, by the length so far.\<close>

definition random_temporary :: "(nat \<Rightarrow> u64) \<Rightarrow> nat \<Rightarrow> utext" where
  "random_temporary hash room =
     (let len = min room TEMPORARY_LENGTH; dot = (if 2 \<le> len then ascii ''.'' else []) in
      dot @ map (\<lambda>i. TEMPORARY_CHARACTERS ! (unat (hash i) mod length TEMPORARY_CHARACTERS)) [length dot ..< len])"

definition to_lower :: "nat \<Rightarrow> nat" where
  "to_lower c = (if 0x41 \<le> c \<and> c \<le> 0x5A then c + 0x20 else c)"

definition eq_ignore_ascii_case :: "utext \<Rightarrow> utext \<Rightarrow> bool" where
  "eq_ignore_ascii_case a b \<longleftrightarrow> map to_lower a = map to_lower b"

text \<open>The loop draws at most once for each of \<open>draws\<close>, the names the seam gives in order.\<close>

fun choose_temporary ::
  "utext \<Rightarrow> utext \<Rightarrow> utext list \<Rightarrow> (utext \<Rightarrow> ('w, private_socket_error, unit) act) \<Rightarrow> utext option \<Rightarrow>
    ('w, private_socket_error, utext) act" where
  "choose_temporary dir name [] bind_at taken =
     fail_with (SocketIo ''bind'' (case taken of Some at \<Rightarrow> at | None \<Rightarrow> dir) EADDRINUSE)"
| "choose_temporary dir name (candidate # draws) bind_at taken =
     (if eq_ignore_ascii_case candidate name then choose_temporary dir name draws bind_at taken
      else
        (let at = push_path dir candidate in
         act_then (attempt_of (bind_at at)) (\<lambda>bound.
         case bound of
           Ok _ \<Rightarrow> done_with candidate
         | Err why \<Rightarrow>
             (case why of
                SocketIo op p errno \<Rightarrow>
                  if op = ''bind'' \<and> errno = EADDRINUSE
                  then choose_temporary dir name draws bind_at (Some at) else fail_with why
              | _ \<Rightarrow> fail_with why))))"

definition restrict_to_owner :: "('w, 'f) os \<Rightarrow> 'f bound_entry \<Rightarrow> ('w, private_socket_error, unit) act" where
  "restrict_to_owner os b =
     (let dir = pd_dir (be_dir b); name = be_name b; path = se_path (be_entry b) in
      act_then (attempt_of (os_chmod_at os dir name 0x180 True)) (\<lambda>set_mode.
      case set_mode of
        Ok _ \<Rightarrow> done_with ()
      | Err errno \<Rightarrow>
          if errno \<noteq> ENOTSUP then fail_with (SocketIo ''fchmodat'' path errno)
          else
            act_then (attempt_of (stat_at os dir name)) (\<lambda>found.
            if (case found of
                  Ok f \<Rightarrow> fc_kind f = KSocket \<and> fc_dev f = se_dev (be_entry b) \<and> fc_ino f = se_ino (be_entry b)
                | Err _ \<Rightarrow> False)
            then act_err (SocketIo ''fchmodat'' path) (os_chmod_at os dir name 0x180 False)
            else fail_with (BindEscaped path))))"

text \<open>What is looked for at the temporary once its mode is set.\<close>

definition look_again :: "('w, 'f) os \<Rightarrow> 'f bound_entry \<Rightarrow> ('w, private_socket_error, facts) act" where
  "look_again os b =
     act_then (attempt_of (stat_at os (pd_dir (be_dir b)) (be_name b))) (\<lambda>found.
     case found of
       Ok f \<Rightarrow>
         if fc_dev f = se_dev (be_entry b) \<and> fc_ino f = se_ino (be_entry b) then done_with f
         else fail_with (BindEscaped (se_path (be_entry b)))
     | Err errno \<Rightarrow>
         if errno \<noteq> ENOENT then fail_with (SocketIo ''fstatat'' (se_path (be_entry b)) errno)
         else fail_with (BindEscaped (se_path (be_entry b))))"

text \<open>From the recheck on, with the bound entry that a failure drops.\<close>

definition publish_bound ::
  "('w, 'f) os \<Rightarrow> 'f bound_entry \<Rightarrow> 'f \<Rightarrow> private_socket_error + unit \<Rightarrow> utext \<Rightarrow> utext \<Rightarrow> u32 \<Rightarrow>
    ('w, private_socket_error, 'f \<times> 'f bound_entry) act" where
  "publish_bound os b sock recheck c_name path owner =
     (let at = se_path (be_entry b) in
      act_then (checked recheck) (\<lambda>_.
      act_then (restrict_to_owner os b) (\<lambda>_.
      act_then (look_again os b) (\<lambda>f.
      act_then (checked (judge_socket f owner at)) (\<lambda>_.
      act_then (act_err (socket_io ''listen'' at) (os_listen os sock LISTEN_BACKLOG)) (\<lambda>_.
      act_then (act_err (socket_io ''fcntl'' at) (os_set_nonblocking os sock True)) (\<lambda>_.
      act_then (act_err (\<lambda>errno. if errno = EEXIST then AddressInUse path else socket_io RENAME_OP at errno)
          (os_rename_new os (pd_dir (be_dir b)) (be_name b) c_name)) (\<lambda>_.
      done_with (sock, b\<lparr>be_name := c_name, be_entry := (be_entry b)\<lparr>se_path := path\<rparr>\<rparr>)))))))))"

definition publish ::
  "('w, 'f) os \<Rightarrow> 'f private_dir \<Rightarrow> utext \<Rightarrow> u32 \<Rightarrow> (nat \<Rightarrow> nat \<Rightarrow> utext) \<Rightarrow>
    ('w, private_socket_error, 'f \<times> 'f bound_entry) act" where
  "publish os dir name owner draw =
     act_then (checked (entry_name name)) (\<lambda>c_name.
     (let path = push_path (pd_path dir) name in
      act_then (checked (address_for path)) (\<lambda>_.
      act_then (reconfirm os dir) (\<lambda>_.
      act_then (attempt_of (stat_at os (pd_dir dir) c_name)) (\<lambda>there.
      case there of
        Ok _ \<Rightarrow> fail_with (AddressInUse path)
      | Err errno \<Rightarrow>
          if errno \<noteq> ENOENT then fail_with (SocketIo ''fstatat'' path errno)
          else
            act_then (act_err (socket_io ''socket'' path) (os_socket os)) (\<lambda>sock.
            act_then (choose_temporary (pd_path dir) name
                (map (\<lambda>i. draw i (temporary_room (pd_path dir))) [0 ..< TEMPORARY_DRAWS]) (bind_path os sock) None) (\<lambda>candidate.
            act_then (checked (entry_name candidate)) (\<lambda>c_temporary.
            (let temporary = push_path (pd_path dir) candidate in
             act_then (attempt_of (reconfirm os dir)) (\<lambda>recheck.
             act_then (attempt_of (stat_at os (pd_dir dir) c_temporary)) (\<lambda>found.
             case found of
               Err _ \<Rightarrow> fail_with (BindEscaped temporary)
             | Ok f \<Rightarrow>
                 if fc_kind f = KSocket \<and> fc_uid f = owner then
                   (let b = \<lparr>be_dir = dir, be_name = c_temporary,
                          be_entry = \<lparr>se_path = temporary, se_dev = fc_dev f, se_ino = fc_ino f\<rparr>,
                          be_removed = False\<rparr> in
                    or_drop os b (publish_bound os b sock recheck c_name path owner))
                 else fail_with (BindEscaped temporary))))))))))))"

section \<open>The listener\<close>

record 'f private_listener =
  pl_listener :: 'f
  pl_bound :: "'f bound_entry"
  pl_trusted_uid :: u32

definition listener_bind ::
  "('w, 'f) os \<Rightarrow> 'f private_dir \<Rightarrow> utext \<Rightarrow> u32 \<Rightarrow> (nat \<Rightarrow> nat \<Rightarrow> u64) \<Rightarrow>
    ('w, private_socket_error, 'f private_listener) act" where
  "listener_bind os dir name trusted_uid hash =
     act_then (publish os dir name (os_euid os) (\<lambda>i room. random_temporary (hash i) room)) (\<lambda>(listener, b).
     done_with \<lparr>pl_listener = listener, pl_bound = b, pl_trusted_uid = trusted_uid\<rparr>)"

definition listener_close :: "('w, 'f) os \<Rightarrow> 'f private_listener \<Rightarrow> 'w \<Rightarrow> remove_outcome \<times> 'w" where
  "listener_close os l w = bound_remove os (pl_bound l) w"

datatype 'f accepted = Trusted 'f | Refused private_socket_error

definition listener_accept :: "('w, 'f) os \<Rightarrow> 'f private_listener \<Rightarrow> ('w, errno, 'f accepted option) act" where
  "listener_accept os l =
     act_then (attempt_of (os_accept os (pl_listener l))) (\<lambda>accepted.
     case accepted of
       Err errno \<Rightarrow> if errno = EAGAIN then done_with None else fail_with errno
     | Ok stream \<Rightarrow>
         act_then (attempt_of (check_peer_uid os stream (pl_trusted_uid l))) (\<lambda>peer.
         case peer of
           Err why \<Rightarrow> done_with (Some (Refused why))
         | Ok _ \<Rightarrow> act_then (os_set_nonblocking os stream False) (\<lambda>_. done_with (Some (Trusted stream)))))"

section \<open>Paths\<close>

definition good_component :: "utext \<Rightarrow> bool" where
  "good_component c \<longleftrightarrow> c \<noteq> [] \<and> c \<noteq> ascii ''.'' \<and> c \<noteq> ascii ''..'' \<and> 0 \<notin> set c \<and> 0x2F \<notin> set c"

lemma join_with_eq_Nil: "\<forall>c \<in> set cs. c \<noteq> [] \<Longrightarrow> join_with s cs = [] \<longleftrightarrow> cs = []"
  by (cases "(s, cs)" rule: join_with.cases) auto

lemma components_of_Ok: "components_of rel whole = Ok cs \<longleftrightarrow> cs = split_on 0x2F rel \<and> (\<forall>c \<in> set cs. good_component c)"
proof -
  have "c \<noteq> [] \<and> c \<noteq> ascii ''.'' \<and> c \<noteq> ascii ''..'' \<and> 0 \<notin> set c \<longleftrightarrow> good_component c" if "c \<in> set (split_on 0x2F rel)" for c
    using split_on_no_sep [OF that] unfolding good_component_def by blast
  then have "list_all (\<lambda>c. c \<noteq> [] \<and> c \<noteq> ascii ''.'' \<and> c \<noteq> ascii ''..'' \<and> 0 \<notin> set c) (split_on 0x2F rel) \<longleftrightarrow>
      (\<forall>c \<in> set (split_on 0x2F rel). good_component c)"
    unfolding list_all_iff by blast
  then show ?thesis unfolding components_of_def Let_def by (cases "cs = split_on 0x2F rel") auto
qed

lemma absolute_components_slash:
  "absolute_components (0x2F # rel) = (if rel = [] then Ok [] else components_of rel (0x2F # rel))"
  by (cases rel) (simp_all add: absolute_components_def)

lemma absolute_components_Ok:
  "absolute_components path = Ok cs \<longleftrightarrow> path = parent_path cs \<and> (\<forall>c \<in> set cs. good_component c)"
proof (cases "\<exists>rel. path = 0x2F # rel")
  case True
  then obtain rel where rel: "path = 0x2F # rel" by blast
  show ?thesis
  proof (cases "rel = []")
    case True
    have "cs = []" if "\<forall>c \<in> set cs. good_component c" "join_with 0x2F cs = []"
      using that join_with_eq_Nil [of cs "0x2F"] unfolding good_component_def by blast
    with True show ?thesis unfolding rel absolute_components_slash parent_path_def by auto
  next
    case False
    have "cs = split_on 0x2F rel \<longleftrightarrow> rel = join_with 0x2F cs" if "\<forall>c \<in> set cs. good_component c"
    proof -
      have "split_on 0x2F (join_with 0x2F cs) = cs" if "cs \<noteq> []"
        using that \<open>\<forall>c \<in> set cs. good_component c\<close> unfolding good_component_def by (intro split_join) blast+
      moreover have "cs \<noteq> []" if "rel = join_with 0x2F cs" using that False by auto
      ultimately show ?thesis by (metis join_split)
    qed
    then show ?thesis
      unfolding rel absolute_components_slash if_not_P [OF False] components_of_Ok parent_path_def by auto
  qed
next
  case False
  then show ?thesis
    by (simp add: absolute_components_def parent_path_def strip_prefix_None [THEN iffD2])
qed

lemma join_with_snoc: "join_with s (cs @ [c]) = (if cs = [] then c else join_with s cs @ s # c)"
  by (induction s cs rule: join_with.induct) auto

lemma last_join_with: "cs \<noteq> [] \<Longrightarrow> \<forall>c \<in> set cs. c \<noteq> [] \<Longrightarrow> last (join_with s cs) = last (last cs)"
  by (induction s cs rule: join_with.induct) (auto simp: join_with_eq_Nil)

lemma push_parent:
  assumes "\<forall>c \<in> set cs. good_component c"
  shows "push_path (parent_path cs) c = parent_path (cs @ [c])"
proof (cases "cs = []")
  case False
  have "last cs \<noteq> []" "0x2F \<notin> set (last cs)" "\<forall>c \<in> set cs. c \<noteq> []"
    using assms last_in_set [OF False] unfolding good_component_def by blast+
  then have "last (join_with 0x2F cs) \<noteq> 0x2F" "join_with 0x2F cs \<noteq> []"
    using False last_join_with [of cs "0x2F"] join_with_eq_Nil [of cs "0x2F"] last_in_set [of "last cs"] by metis+
  with False show ?thesis by (simp add: push_path_def parent_path_def join_with_snoc)
qed (simp add: push_path_def parent_path_def)

lemma walk_path_root:
  "\<forall>c \<in> set cs. good_component c \<Longrightarrow> foldl push_path [0x2F] cs = parent_path cs"
proof (induction cs rule: rev_induct)
  case Nil
  then show ?case by (simp add: parent_path_def)
next
  case (snoc c cs)
  then show ?case by (simp add: push_parent)
qed

section \<open>What a checked path is\<close>

definition private_facts :: "u32 \<Rightarrow> facts \<Rightarrow> bool" where
  "private_facts euid f \<longleftrightarrow> fc_kind f = KDirectory \<and> fc_uid f = euid \<and> fc_mode f AND 0x3F = 0"

definition own_socket :: "u32 \<Rightarrow> facts \<Rightarrow> bool" where
  "own_socket uid f \<longleftrightarrow> fc_kind f = KSocket \<and> fc_uid f = uid \<and> fc_mode f AND 0x1FF = 0x180"

lemma judge_private_Ok [acts]: "judge_private f euid path = Ok u \<longleftrightarrow> private_facts euid f"
  by (auto simp: judge_private_def private_facts_def)

lemma judge_socket_Ok [acts]: "judge_socket f uid path = Ok u \<longleftrightarrow> own_socket uid f"
  by (auto simp: judge_socket_def own_socket_def)

lemma entry_name_good: "good_component name \<Longrightarrow> entry_name name = Ok name"
  by (simp add: entry_name_def good_component_def)

text \<open>How the directory at the end of a path from the root was reached.\<close>

definition reached_dir :: "('w, 'f) os \<Rightarrow> 'f \<Rightarrow> utext list \<Rightarrow> 'f \<Rightarrow> facts \<Rightarrow> bool" where
  "reached_dir os root cs d f \<longleftrightarrow>
     (if cs = [] then seen os root f \<and> (\<exists>w w'. os_dup os root w = (Ok d, w'))
      else seen os d f \<and> (\<exists>h k. descends os root (butlast cs) h k \<and> opened_at os h (last cs) ReadDirectory d))"

lemma open_private_Ok:
  assumes "open_private os walk path w = (Ok r, w')"
  shows "reached_dir os (wk_start walk) (wk_components walk) (op_fd r) (op_facts r) \<and>
    private_facts (os_euid os) (op_facts r) \<and> (\<exists>w w'. os_acl_present os (op_fd r) w = (Ok False, w'))"
proof -
  from assms obtain w1 where dir: "reach os of_walk walk LastDirectory (\<lambda>r. judge_private (rc_facts r) (os_euid os) (rc_path r)) w = (Ok r, w1)"
    and acl: "os_acl_present os (op_fd r) w1 = (Ok False, w')"
    by (auto simp: open_private_def open_directory_def refuse_acl_def acts)
  from reach_directory_Ok [OF dir] acl show ?thesis
    by (auto simp: reached_dir_def acts split: if_splits)
qed

text \<open>
  C21. A path a client connects to is private. When the check of a socket path passes, the path is absolute
  and normal; from the root, each directory on it was opened by its name in the one before without following
  a link, and each of them was seen to belong to root or the user and to be writable by nobody else; the
  directory that holds the socket was seen to belong to the user alone, without an access control list; and
  the entry of that name in that directory was a socket of the trusted user with mode 0600.\<close>

theorem checked_path_is_private:
  assumes "check_private_path os path uid w = (Ok e, w')"
  shows "\<exists>cs name root d f s.
    path = parent_path (cs @ [name]) \<and> (\<forall>c \<in> set (cs @ [name]). good_component c) \<and>
    (\<exists>w w'. os_open_root os w = (Ok root, w')) \<and> reached_dir os root cs d f \<and> private_facts (os_euid os) f \<and>
    (\<exists>w w'. os_acl_present os d w = (Ok False, w')) \<and>
    (\<exists>w w'. os_stat_at os d name w = (Ok s, w')) \<and> own_socket uid (facts_of s) \<and>
    e = \<lparr>se_path = path, se_dev = st_dev s, se_ino = st_ino s\<rparr>"
proof -
  from assms obtain cs' d w1 where comps: "absolute_components path = Ok cs'" and "cs' \<noteq> []"
      and opened: "private_open os (parent_path (butlast cs')) w = (Ok d, w1)"
      and entry: "socket_entry_of os d (last cs') uid w1 = (Ok e, w')"
    by (auto simp: check_private_path_def acts split: if_splits)
  define cs name where "cs = butlast cs'" and "name = last cs'"
  with \<open>cs' \<noteq> []\<close> have cs': "cs' = cs @ [name]" by simp
  have path: "path = parent_path (cs @ [name])" "\<forall>c \<in> set (cs @ [name]). good_component c"
    using comps unfolding absolute_components_Ok cs' by simp_all
  then have parent: "absolute_components (parent_path cs) = Ok cs" by (simp add: absolute_components_Ok)
  from opened parent obtain root w0 w2 r where walk: "os_open_root os w0 = (Ok root, w2)"
      and priv: "open_private os \<lparr>wk_start = root, wk_start_path = [0x2F], wk_components = cs\<rparr> (parent_path cs) w2 = (Ok r, w1)"
      and d: "pd_dir d = op_fd r" "pd_path d = parent_path cs"
    using path(2) by (auto simp: private_open_def private_from_walk_def walk_from_root_def acts cs_def [symmetric] walk_path_def walk_path_root Let_def)
  from entry entry_name_good [of name] path(2) obtain s where s: "os_stat_at os (pd_dir d) name w1 = (Ok s, w')"
      "own_socket uid (facts_of s)" "e = \<lparr>se_path = push_path (pd_path d) name, se_dev = st_dev s, se_ino = st_ino s\<rparr>"
    by (auto simp: socket_entry_of_def acts Let_def cs' facts_of_def)
  have "push_path (parent_path cs) name = path" using path push_parent [of cs name] by simp
  with s d have "os_stat_at os (op_fd r) name w1 = (Ok s, w')" "own_socket uid (facts_of s)"
      "e = \<lparr>se_path = path, se_dev = st_dev s, se_ino = st_ino s\<rparr>" by simp_all
  moreover have "reached_dir os root cs (op_fd r) (op_facts r)" "private_facts (os_euid os) (op_facts r)"
      "\<exists>w w'. os_acl_present os (op_fd r) w = (Ok False, w')"
    using open_private_Ok [OF priv] by simp_all
  ultimately show ?thesis using path walk by metis
qed

section \<open>A small machine\<close>

text \<open>
  Descriptors are numbers: the root, \<open>/r\<close>, a private \<open>/r/p\<close> below it, and a socket. Every name is a private
  socket of user 1000, but \<open>new\<close> does not exist.\<close>

definition demo_dir :: "u32 \<Rightarrow> u32 \<Rightarrow> stat" where
  "demo_dir uid mode = \<lparr>st_mode = 0x4000 OR mode, st_uid = uid, st_dev = 1, st_ino = 2\<rparr>"

definition demo_socket :: stat where
  "demo_socket = \<lparr>st_mode = 0xC180, st_uid = 1000, st_dev = 1, st_ino = 9\<rparr>"

definition demo_os :: "(unit, nat) os" where
  "demo_os =
     \<lparr>os_euid = 1000, os_open_root = done_with 0,
      os_open_at = \<lambda>p n a. done_with (Suc p),
      os_fstat = \<lambda>f. done_with (if f = 2 then demo_dir 1000 0x1C0 else demo_dir 0 0x1ED),
      os_stat_at = \<lambda>d n. if n = ascii ''new'' then fail_with ENOENT else done_with demo_socket,
      os_dup = \<lambda>f. done_with f, os_clear_nonblocking = \<lambda>f. done_with (),
      os_ignored_ownership = \<lambda>f. done_with False, os_replacing_acl = \<lambda>f. done_with False,
      os_acl_present = \<lambda>f. done_with False, os_read_dir = \<lambda>f. done_with [Ok (ascii ''s'')],
      os_socket = done_with 7, os_bind = \<lambda>f p. done_with (), os_chmod_at = \<lambda>d n m b. done_with (),
      os_listen = \<lambda>f i. done_with (), os_set_nonblocking = \<lambda>f b. done_with (),
      os_rename_new = \<lambda>d x y. done_with (), os_unlink_at = \<lambda>d n. done_with (),
      os_accept = \<lambda>f. fail_with EAGAIN, os_peer_credentials = \<lambda>f. done_with 1000\<rparr>"

lemma demo_check: "check_private_path demo_os (ascii ''/r/p/s'') 1000 () =
    (Ok \<lparr>se_path = ascii ''/r/p/s'', se_dev = 1, se_ino = 9\<rparr>, ())"
  by code_simp

theorem checked_path_is_private_witness:
  "\<exists>cs name. ascii ''/r/p/s'' = parent_path (cs @ [name]) \<and> (\<exists>s. own_socket 1000 (facts_of s))"
  using checked_path_is_private [OF demo_check] by blast

end
