(* ===== verification/Client_Select.thy ===== *)
theory Client_Select
  imports Client_Line Private_Socket
begin

text \<open>
  Which instance a command reaches, \<open>crates/plasmosome-cli/src/select.rs\<close>: the socket named by the flags, the
  variable or the home, the connection to it, and default selection. The environment, the operating system
  and \<open>connect\<close> are a record. A name that is not UTF-8 holds a number that is no scalar value.
\<close>

section \<open>The host\<close>

record ('w, 'f) host =
  ho_os :: "('w, 'f) os"
  ho_kernel :: "os_arg option"
  ho_home :: "os_arg option"
  ho_uid :: u32
  ho_connect :: "utext \<Rightarrow> ('w, io_error, 'f) act"
  ho_debug :: "utext \<Rightarrow> utext"

definition MAX_SOCKET_PATH :: nat where "MAX_SOCKET_PATH = 107"
definition VARIABLE :: string where "VARIABLE = ''PLASMOSOME_KERNEL''"

record named_target =
  nt_instance :: instance_ref
  nt_origin :: path_origin
  nt_from_variable :: bool

datatype target = TargetNamed named_target | TargetDefault utext

record 'f selected =
  sl_stream :: 'f
  sl_instance :: instance_ref

record unselected =
  un_error :: client_error
  un_instance :: "instance_ref option"

definition unchosen :: "client_error \<Rightarrow> unselected" where
  "unchosen e = \<lparr>un_error = e, un_instance = None\<rparr>"

section \<open>From the flags and the environment\<close>

definition variable :: "('w, 'f) host \<Rightarrow> client_error + utext option" where
  "variable h =
     (case ho_kernel h of
        None \<Rightarrow> Ok None
      | Some v \<Rightarrow>
          (let t = oa_text v;
               refused = (\<lambda>m. Err (refusal InvalidArgument m [(''argument'', json_text (ascii VARIABLE))])) in
           if t = [] then
             refused (ascii (VARIABLE @ '' is set to the empty string, which is a usage error, not unset''))
           else if \<not> oa_valid v then
             refused (ascii ''`'' @ t @ ascii (''` is refused for '' @ VARIABLE @ '': it is not valid UTF-8''))
           else if \<not> is_instance_name t then
             refused (ascii ''`'' @ t @ ascii (''` is refused for '' @ VARIABLE @
               '': an instance name is not empty, `.` or `..`, and holds no `/`, backslash, NUL or terminal control''))
           else Ok (Some t)))"

definition home_path :: "('w, 'f) host \<Rightarrow> client_error + utext" where
  "home_path h =
     (let invalid = (\<lambda>m. Err (refusal InvalidHome m [])) in
      case ho_home h of
        None \<Rightarrow> invalid (ascii ''HOME is unset'')
      | Some v \<Rightarrow>
          (let t = oa_text v in
           if \<not> oa_valid v then invalid (ascii ''HOME `'' @ t @ ascii ''` is not valid UTF-8'')
           else if t = ascii ''/'' \<or> t = ascii ''//'' then Ok []
           else
             (let trimmed = (if t \<noteq> [] \<and> last t = 0x2F then butlast t else t) in
              if \<not> is_normal_absolute trimmed then
                invalid (ascii ''HOME `'' @ t @ ascii ''` is not an absolute path with no empty, `.` or `..` component'')
              else Ok trimmed)))"

definition socket_of :: "utext \<Rightarrow> utext \<Rightarrow> utext" where
  "socket_of instances name = instances @ [0x2F] @ name @ ascii ''/control.uds''"

definition target_of :: "utext option \<Rightarrow> utext option \<Rightarrow> ('w, 'f) host \<Rightarrow> client_error + target" where
  "target_of socket kern h =
     (case socket of
        Some s \<Rightarrow>
          Ok (TargetNamed \<lparr>nt_instance = \<lparr>in_name = kern, in_socket = s\<rparr>, nt_origin = SocketFlag, nt_from_variable = False\<rparr>)
      | None \<Rightarrow>
          and_then (case kern of Some name \<Rightarrow> Ok (Some name, False) | None \<Rightarrow> and_then (variable h) (\<lambda>n. Ok (n, True)))
            (\<lambda>(name, from_variable).
          and_then (home_path h) (\<lambda>home.
          (let instances = home @ ascii ''/.plasmosome/instances'' in
           case name of
             None \<Rightarrow> Ok (TargetDefault instances)
           | Some n \<Rightarrow>
               Ok (TargetNamed \<lparr>nt_instance = \<lparr>in_name = Some n, in_socket = socket_of instances n\<rparr>,
                 nt_origin = Home, nt_from_variable = from_variable\<rparr>)))))"

section \<open>Connecting\<close>

definition fits :: "utext \<Rightarrow> client_error + unit" where
  "fits socket =
     (let len = length (utf8_bytes socket) in
      if len \<le> MAX_SOCKET_PATH then Ok ()
      else Err (refusal SocketPathTooLong
        (socket @ ascii ('' is '' @ show_nat len @ '' bytes, longer than the '' @ show_nat MAX_SOCKET_PATH @
          '' a socket address holds''))
        [at_path socket, (''max_bytes'', json_number (int MAX_SOCKET_PATH))]))"

definition unconnected :: "utext \<Rightarrow> io_error \<Rightarrow> client_error" where
  "unconnected socket e =
     (let (code, what) = (case io_kind_of e of
            ConnectionRefused \<Rightarrow>
              (Unreachable, ascii ''refused the connection: its daemon may be stopped, or alive with a full backlog'')
          | NotFound \<Rightarrow> (NotRunning, ascii ''does not exist: no socket is bound at that name'')
          | _ \<Rightarrow> (Transport, ascii ''could not be reached: '' @ io_shown e)) in
      refusal code (socket @ ascii '' '' @ what)
        (at_path socket #
          (if code = Transport then (case io_errno e of None \<Rightarrow> [] | Some errno \<Rightarrow> [(''errno'', json_number errno)]) else [])))"

definition connect_to :: "('w, 'f) host \<Rightarrow> utext \<Rightarrow> path_origin \<Rightarrow> ('w, client_error, 'f) act" where
  "connect_to h socket origin =
     act_then (checked (fits socket)) (\<lambda>_.
     act_then (act_err (\<lambda>e. map_refusal (ho_debug h) e socket origin (ho_uid h))
         (check_private_path (ho_os h) socket (ho_uid h))) (\<lambda>_.
     act_err (unconnected socket) (ho_connect h socket)))"

section \<open>Default selection\<close>

record found =
  fo_candidates :: "utext list"
  fo_seen :: "utext list"

definition json_names :: "utext list \<Rightarrow> json" where
  "json_names ns = JArray (map JString ns)"

definition linked :: "utext \<Rightarrow> client_error" where
  "linked entry =
     refusal UnsafeSocket (entry @ ascii '' is a symbolic link, and default selection follows none'')
       [at_path entry, (''rule'', json_text (ascii ''symlink''))]"

definition misnamed :: "utext \<Rightarrow> client_error" where
  "misnamed instances =
     refusal UnsafeSocket
       (ascii ''a directory in '' @ instances @ ascii (
          '' is not named as an instance: its name is not UTF-8, is `.` or `..`, or holds `/`, a backslash, '' @
          ''NUL or a terminal control''))
       [at_path instances, (''rule'', json_text (ascii ''name''))]"

definition join_names :: "utext list \<Rightarrow> utext" where
  "join_names ns = (case ns of [] \<Rightarrow> [] | n # rest \<Rightarrow> n @ concat (map (\<lambda>m. ascii '', '' @ m) rest))"

definition no_candidate :: "utext \<Rightarrow> utext list \<Rightarrow> client_error" where
  "no_candidate instances seen_names =
     refusal NoInstance
       (if seen_names = [] then instances @ ascii '' holds no instance''
        else ascii ''no instance under '' @ instances @ ascii '' is running: '' @ join_names seen_names @ ascii '' hold no socket'')
       [at_path instances, (''seen'', json_names seen_names)]"

text \<open>The loop of \<open>judge\<close> over the listing.\<close>

fun judge_loop ::
  "('w, 'f) host \<Rightarrow> utext \<Rightarrow> listed_entry list \<Rightarrow> found \<Rightarrow> ('w, client_error, found) act" where
  "judge_loop h instances [] acc = done_with acc"
| "judge_loop h instances (e # rest) acc =
     (case le_kind e of
        EntryOther \<Rightarrow> judge_loop h instances rest acc
      | EntrySymlink \<Rightarrow> fail_with (linked (push_path instances (le_name e)))
      | EntryDirectory \<Rightarrow>
          if \<not> (list_all is_scalar (le_name e) \<and> is_instance_name (le_name e)) then fail_with (misnamed instances)
          else
            (let socket = socket_of instances (le_name e) in
             act_then (attempt_of (check_private_path (ho_os h) socket (ho_uid h))) (\<lambda>r.
             case r of
               Ok _ \<Rightarrow>
                 act_then (checked (fits socket)) (\<lambda>_.
                 judge_loop h instances rest (acc\<lparr>fo_candidates := fo_candidates acc @ [le_name e]\<rparr>))
             | Err why \<Rightarrow>
                 (case why of
                    NoSocket p \<Rightarrow> judge_loop h instances rest (acc\<lparr>fo_seen := fo_seen acc @ [le_name e]\<rparr>)
                  | _ \<Rightarrow> fail_with (map_refusal (ho_debug h) why socket Home (ho_uid h))))))"

definition unlisted :: "('w, 'f) host \<Rightarrow> utext \<Rightarrow> private_socket_error \<Rightarrow> client_error" where
  "unlisted h instances e =
     (case e of
        NoDirectory path \<Rightarrow>
          refusal NoInstance (path @ ascii '' does not exist, so no instance is under it'')
            [at_path path, (''seen'', json_names [])]
      | _ \<Rightarrow> map_refusal (ho_debug h) e instances Home (ho_uid h))"

definition judge_instances :: "('w, 'f) host \<Rightarrow> utext \<Rightarrow> ('w, client_error, found) act" where
  "judge_instances h instances =
     act_then (act_err (unlisted h instances) (list_trusted_dir (ho_os h) instances)) (\<lambda>entries.
     judge_loop h instances entries \<lparr>fo_candidates = [], fo_seen = []\<rparr>)"

text \<open>The loop of \<open>ambiguous\<close>: the names that cannot be reached, or the refusal of a wrong peer.\<close>

fun ambiguous_loop ::
  "('w, 'f) host \<Rightarrow> utext \<Rightarrow> utext list \<Rightarrow> utext list \<Rightarrow> ('w, client_error, utext list) act" where
  "ambiguous_loop h instances [] unreachable = done_with unreachable"
| "ambiguous_loop h instances (name # rest) unreachable =
     (let socket = socket_of instances name in
      act_then (attempt_of (ho_connect h socket)) (\<lambda>r.
      case r of
        Ok stream \<Rightarrow>
          act_then (act_err (\<lambda>e. map_refusal (ho_debug h) e socket Home (ho_uid h))
              (check_peer_uid (ho_os h) stream (ho_uid h))) (\<lambda>_.
          ambiguous_loop h instances rest unreachable)
      | Err _ \<Rightarrow> ambiguous_loop h instances rest (unreachable @ [name])))"

definition ambiguous :: "('w, 'f) host \<Rightarrow> utext \<Rightarrow> utext list \<Rightarrow> ('w, client_error, client_error) act" where
  "ambiguous h instances candidates =
     act_then (ambiguous_loop h instances candidates []) (\<lambda>unreachable.
     done_with (refusal AmbiguousInstance
       (ascii (show_nat (length candidates) @ '' instances are under '') @ instances @
        ascii '': pass --kernel NAME to choose one'')
       ((''candidates'', json_names candidates) #
        (if unreachable \<noteq> [] then [(''unreachable'', json_names unreachable)] else []))))"

definition select_default :: "('w, 'f) host \<Rightarrow> utext \<Rightarrow> ('w, unselected, instance_ref) act" where
  "select_default h instances =
     act_then (act_err unchosen (judge_instances h instances)) (\<lambda>f.
     case fo_candidates f of
       [] \<Rightarrow> fail_with (unchosen (no_candidate instances (fo_seen f)))
     | [name] \<Rightarrow> done_with \<lparr>in_name = Some name, in_socket = socket_of instances name\<rparr>
     | names \<Rightarrow> act_then (act_err unchosen (ambiguous h instances names)) (\<lambda>e. fail_with (unchosen e)))"

definition connect_chosen :: "('w, 'f) host \<Rightarrow> instance_ref \<Rightarrow> ('w, unselected, 'f selected) act" where
  "connect_chosen h i =
     act_then (attempt_of (ho_connect h (in_socket i))) (\<lambda>r.
     case r of
       Ok stream \<Rightarrow> done_with \<lparr>sl_stream = stream, sl_instance = i\<rparr>
     | Err e \<Rightarrow> fail_with \<lparr>un_error = unconnected (in_socket i) e, un_instance = Some i\<rparr>)"

section \<open>What default selection chose\<close>

lemma judge_loop_Ok:
  assumes "judge_loop h instances es acc w = (Ok f, w')"
  shows "\<exists>cands absent. fo_candidates f = fo_candidates acc @ cands \<and> fo_seen f = fo_seen acc @ absent \<and>
    (\<forall>e \<in> set es. le_kind e \<noteq> EntrySymlink \<and>
      (le_kind e = EntryDirectory \<longrightarrow> is_instance_name (le_name e) \<and> le_name e \<in> set cands \<union> set absent)) \<and>
    (\<forall>n \<in> set cands. fits (socket_of instances n) = Ok () \<and>
      (\<exists>e \<in> set es. le_kind e = EntryDirectory \<and> le_name e = n) \<and>
      (\<exists>w x w'. check_private_path (ho_os h) (socket_of instances n) (ho_uid h) w = (Ok x, w'))) \<and>
    (\<forall>n \<in> set absent. \<exists>w p w'. check_private_path (ho_os h) (socket_of instances n) (ho_uid h) w = (Err (NoSocket p), w'))"
  using assms
proof (induction es arbitrary: acc w)
  case Nil
  then show ?case by (simp add: done_with_Ok)
next
  case (Cons e es)
  show ?case
  proof (cases "le_kind e")
    case EntryOther
    with Cons.prems have "judge_loop h instances es acc w = (Ok f, w')" by simp
    from Cons.IH [OF this] EntryOther show ?thesis by (elim exE) (intro exI, auto)
  next
    case EntrySymlink
    with Cons.prems show ?thesis by (simp add: fail_with_Ok)
  next
    case EntryDirectory
    let ?n = "le_name e" let ?socket = "socket_of instances (le_name e)"
    from Cons.prems EntryDirectory have name: "is_instance_name ?n"
      by (auto simp: fail_with_Ok split: if_splits)
    from Cons.prems EntryDirectory obtain r w1 where r: "check_private_path (ho_os h) ?socket (ho_uid h) w = (r, w1)"
      and rest: "(case r of
             Ok _ \<Rightarrow>
               act_then (checked (fits ?socket)) (\<lambda>_.
               judge_loop h instances es (acc\<lparr>fo_candidates := fo_candidates acc @ [le_name e]\<rparr>))
           | Err why \<Rightarrow>
               (case why of
                  NoSocket p \<Rightarrow> judge_loop h instances es (acc\<lparr>fo_seen := fo_seen acc @ [le_name e]\<rparr>)
                | _ \<Rightarrow> fail_with (map_refusal (ho_debug h) why ?socket Home (ho_uid h)))) w1 = (Ok f, w')"
      by (auto simp: Let_def act_then_Ok attempt_of_Ok fail_with_Ok split: if_splits)
    show ?thesis
    proof (cases r)
      case (Inr x)
      with rest have fit: "fits ?socket = Ok ()"
        and next_step: "judge_loop h instances es (acc\<lparr>fo_candidates := fo_candidates acc @ [le_name e]\<rparr>) w1 = (Ok f, w')"
        by (auto simp: act_then_Ok checked_Ok)
      from Cons.IH [OF next_step] obtain cands absent where IH: "fo_candidates f = fo_candidates acc @ ?n # cands"
        "fo_seen f = fo_seen acc @ absent"
        "\<forall>e \<in> set es. le_kind e \<noteq> EntrySymlink \<and>
          (le_kind e = EntryDirectory \<longrightarrow> is_instance_name (le_name e) \<and> le_name e \<in> set cands \<union> set absent)"
        "\<forall>n \<in> set cands. fits (socket_of instances n) = Ok () \<and>
          (\<exists>e \<in> set es. le_kind e = EntryDirectory \<and> le_name e = n) \<and>
          (\<exists>w x w'. check_private_path (ho_os h) (socket_of instances n) (ho_uid h) w = (Ok x, w'))"
        "\<forall>n \<in> set absent. \<exists>w p w'. check_private_path (ho_os h) (socket_of instances n) (ho_uid h) w = (Err (NoSocket p), w')"
        by auto
      have "\<exists>w x w'. check_private_path (ho_os h) ?socket (ho_uid h) w = (Ok x, w')" using r Inr by blast
      with IH EntryDirectory name fit show ?thesis
        by (intro exI [of _ "?n # cands"] exI [of _ absent]) auto
    next
      case (Inl why)
      with rest obtain p where why: "why = NoSocket p"
        and next_step: "judge_loop h instances es (acc\<lparr>fo_seen := fo_seen acc @ [le_name e]\<rparr>) w1 = (Ok f, w')"
        by (auto simp: fail_with_Ok split: private_socket_error.splits)
      from Cons.IH [OF next_step] obtain cands absent where IH: "fo_candidates f = fo_candidates acc @ cands"
        "fo_seen f = fo_seen acc @ ?n # absent"
        "\<forall>e \<in> set es. le_kind e \<noteq> EntrySymlink \<and>
          (le_kind e = EntryDirectory \<longrightarrow> is_instance_name (le_name e) \<and> le_name e \<in> set cands \<union> set absent)"
        "\<forall>n \<in> set cands. fits (socket_of instances n) = Ok () \<and>
          (\<exists>e \<in> set es. le_kind e = EntryDirectory \<and> le_name e = n) \<and>
          (\<exists>w x w'. check_private_path (ho_os h) (socket_of instances n) (ho_uid h) w = (Ok x, w'))"
        "\<forall>n \<in> set absent. \<exists>w p w'. check_private_path (ho_os h) (socket_of instances n) (ho_uid h) w = (Err (NoSocket p), w')"
        by auto
      have "\<exists>w p w'. check_private_path (ho_os h) ?socket (ho_uid h) w = (Err (NoSocket p), w')" using r Inl why by blast
      with IH EntryDirectory name show ?thesis
        by (intro exI [of _ cands] exI [of _ "?n # absent"]) auto
    qed
  qed
qed

lemma fits_Ok: "fits socket = Ok () \<longleftrightarrow> length (utf8_bytes socket) \<le> MAX_SOCKET_PATH"
  by (simp add: fits_def Let_def)

text \<open>
  C23. Default selection takes the one instance there is. When it chooses an instance, the trusted listing of
  the instances directory held it as a directory, its socket was checked to be private and its path fits a
  socket address; every other directory of the listing is named as an instance and was found to hold no
  socket, and no entry of the listing is a symbolic link.\<close>

theorem default_selection_unambiguous:
  assumes "select_default h instances w = (Ok i, w')"
  shows "\<exists>entries name. (\<exists>w w'. list_trusted_dir (ho_os h) instances w = (Ok entries, w')) \<and>
    i = \<lparr>in_name = Some name, in_socket = socket_of instances name\<rparr> \<and> is_instance_name name \<and>
    length (utf8_bytes (in_socket i)) \<le> MAX_SOCKET_PATH \<and>
    (\<exists>e \<in> set entries. le_kind e = EntryDirectory \<and> le_name e = name) \<and>
    (\<exists>w x w'. check_private_path (ho_os h) (in_socket i) (ho_uid h) w = (Ok x, w')) \<and>
    (\<forall>e \<in> set entries. le_kind e \<noteq> EntrySymlink \<and>
      (le_kind e = EntryDirectory \<and> le_name e \<noteq> name \<longrightarrow> is_instance_name (le_name e) \<and>
        (\<exists>w p w'. check_private_path (ho_os h) (socket_of instances (le_name e)) (ho_uid h) w = (Err (NoSocket p), w'))))"
proof -
  from assms obtain f w1 where judged: "judge_instances h instances w = (Ok f, w1)"
    and chosen: "(case fo_candidates f of
       [] \<Rightarrow> fail_with (unchosen (no_candidate instances (fo_seen f)))
     | [name] \<Rightarrow> done_with \<lparr>in_name = Some name, in_socket = socket_of instances name\<rparr>
     | names \<Rightarrow> act_then (act_err unchosen (ambiguous h instances names)) (\<lambda>e. fail_with (unchosen e))) w1 = (Ok i, w')"
    by (auto simp: select_default_def act_then_Ok act_err_Ok)
  from chosen obtain name where name: "fo_candidates f = [name]"
    "i = \<lparr>in_name = Some name, in_socket = socket_of instances name\<rparr>"
    by (auto simp: act_then_Ok done_with_Ok fail_with_Ok split: list.splits)
  from judged obtain entries w2 where listed: "list_trusted_dir (ho_os h) instances w = (Ok entries, w2)"
    and loop: "judge_loop h instances entries \<lparr>fo_candidates = [], fo_seen = []\<rparr> w2 = (Ok f, w1)"
    by (auto simp: judge_instances_def act_then_Ok act_err_Ok)
  from judge_loop_Ok [OF loop] name obtain absent where
    entries: "\<forall>e \<in> set entries. le_kind e \<noteq> EntrySymlink \<and>
      (le_kind e = EntryDirectory \<longrightarrow> is_instance_name (le_name e) \<and> le_name e \<in> set [name] \<union> set absent)"
    and chosen_name: "fits (socket_of instances name) = Ok ()" "\<exists>e \<in> set entries. le_kind e = EntryDirectory \<and> le_name e = name"
      "\<exists>w x w'. check_private_path (ho_os h) (socket_of instances name) (ho_uid h) w = (Ok x, w')"
    and rest: "\<forall>n \<in> set absent. \<exists>w p w'. check_private_path (ho_os h) (socket_of instances n) (ho_uid h) w = (Err (NoSocket p), w')"
    by auto
  from entries chosen_name(2) have "is_instance_name name" by blast
  moreover have "\<forall>e \<in> set entries. le_kind e \<noteq> EntrySymlink \<and>
      (le_kind e = EntryDirectory \<and> le_name e \<noteq> name \<longrightarrow> is_instance_name (le_name e) \<and>
        (\<exists>w p w'. check_private_path (ho_os h) (socket_of instances (le_name e)) (ho_uid h) w = (Err (NoSocket p), w')))"
    using entries rest by fastforce
  ultimately show ?thesis
    using listed name(2) chosen_name unfolding fits_Ok by (intro exI [of _ entries] exI [of _ name]) auto
qed

text \<open>A home with one running instance \<open>k\<close>.\<close>

definition demo_host :: "(unit, nat) host" where
  "demo_host =
     \<lparr>ho_os = demo_os\<lparr>os_stat_at := \<lambda>d n. done_with (if n = ascii ''k'' then demo_dir 1000 0x1C0 else demo_socket),
        os_read_dir := \<lambda>f. done_with [Ok (ascii ''.''), Ok (ascii ''k'')]\<rparr>,
      ho_kernel = None, ho_home = None, ho_uid = 1000, ho_connect = \<lambda>p. done_with 7, ho_debug = \<lambda>t. t\<rparr>"

lemma demo_list:
  "list_trusted_dir (ho_os demo_host) (ascii ''/r'') () = (Ok [\<lparr>le_name = ascii ''k'', le_kind = EntryDirectory\<rparr>], ())"
  by code_simp

lemma demo_check_k: "check_private_path (ho_os demo_host) (ascii ''/r/k/control.uds'') 1000 () =
    (Ok \<lparr>se_path = ascii ''/r/k/control.uds'', se_dev = 1, se_ino = 9\<rparr>, ())"
  by code_simp

lemma select_one:
  assumes "list_trusted_dir (ho_os h) instances w = (Ok [\<lparr>le_name = n, le_kind = EntryDirectory\<rparr>], w1)"
    and "list_all is_scalar n" "is_instance_name n" "fits (socket_of instances n) = Ok ()"
    and "check_private_path (ho_os h) (socket_of instances n) (ho_uid h) w1 = (Ok x, w2)"
  shows "select_default h instances w = (Ok \<lparr>in_name = Some n, in_socket = socket_of instances n\<rparr>, w2)"
  using assms by (simp add: select_default_def judge_instances_def act_then_def act_err_def attempt_of_def checked_def done_with_def Let_def)

lemma demo_select:
  "select_default demo_host (ascii ''/r'') () = (Ok \<lparr>in_name = Some (ascii ''k''), in_socket = ascii ''/r/k/control.uds''\<rparr>, ())"
proof -
  have path: "socket_of (ascii ''/r'') (ascii ''k'') = ascii ''/r/k/control.uds''" by (simp add: socket_of_def)
  have fit: "fits (ascii ''/r/k/control.uds'') = Ok ()"
    by (simp add: fits_Ok utf8_bytes_def utf8_width_def MAX_SOCKET_PATH_def)
  have name: "list_all is_scalar (ascii ''k'')" "is_instance_name (ascii ''k'')"
    by (simp_all add: is_instance_name_def is_terminal_control_def is_scalar_def)
  have uid: "ho_uid demo_host = 1000" by (simp add: demo_host_def)
  show ?thesis
    by (rule select_one [OF demo_list name, unfolded path uid, OF fit demo_check_k])
qed

theorem default_selection_unambiguous_witness:
  "is_instance_name (ascii ''k'') \<and> (\<exists>entries :: listed_entry list. \<exists>e \<in> set entries. le_kind e = EntryDirectory \<and> le_name e = ascii ''k'')"
  using default_selection_unambiguous [OF demo_select]
proof (elim exE conjE)
  fix entries :: "listed_entry list" and name
  assume "\<lparr>in_name = Some (ascii ''k''), in_socket = ascii ''/r/k/control.uds''\<rparr> =
      \<lparr>in_name = Some name, in_socket = socket_of (ascii ''/r'') name\<rparr>" "is_instance_name name"
    "\<exists>e \<in> set entries. le_kind e = EntryDirectory \<and> le_name e = name"
  moreover from this(1) have "name = ascii ''k''" by simp
  ultimately show ?thesis by (intro conjI exI [of _ entries]) simp_all
qed

end
