(* ===== verification/Client_Run.thy ===== *)
theory Client_Run
  imports Client_Select Client_Reply
begin

text \<open>
  What the client does with a reading: \<open>handle\<close> and \<open>act\<close> of \<open>crates/plasmosome-cli/src/cli.rs\<close>, \<open>run\<close> of
  \<open>verb.rs\<close>, and the deadline of \<open>clock.rs\<close>. Both output streams have one type of state. What a connected
  stream gives to the writes and reads of one request is a trace; a run whose trace ends before it does has
  no result. A panic is no value here: \<open>handle\<close> turns one into the error \<open>panicked\<close>.
\<close>

section \<open>The machine around a command\<close>

record ('w, 'f, 'o) machine =
  ma_host :: "('w, 'f) host"
  ma_now :: "'w \<Rightarrow> nat \<times> 'w"
  ma_talk :: "'f \<Rightarrow> u8 list \<Rightarrow> 'w \<Rightarrow> (nat attempt list \<times> u8 list attempt list) \<times> 'w"
  ma_write_all :: "nat list \<Rightarrow> 'o \<Rightarrow> (io_error + unit) \<times> 'o"
  ma_flush :: "'o \<Rightarrow> (io_error + unit) \<times> 'o"
  ma_chop :: "utext \<Rightarrow> utext list"
  ma_version :: string

text \<open>\<open>Deadline\<close>: an instant in nanoseconds of the clock, and its length in milliseconds.\<close>

record deadline =
  dl_at :: nat
  dl_ms :: nat

definition deadline_new :: "nat \<Rightarrow> nat \<Rightarrow> deadline" where
  "deadline_new start ms = \<lparr>dl_at = start + ms * 1000000, dl_ms = ms\<rparr>"

definition deadline_left :: "deadline \<Rightarrow> nat \<Rightarrow> nat" where
  "deadline_left d now = dl_at d - now"

section \<open>Printing\<close>

definition emit_on :: "('w, 'f, 'o) machine \<Rightarrow> envelope \<Rightarrow> form \<Rightarrow> 'o \<times> 'o \<Rightarrow> (stream \<times> io_error + unit) \<times> 'o \<times> 'o" where
  "emit_on m e f io = emit (ma_write_all m) (ma_flush m) (ma_chop m) e f (fst io) (snd io)"

definition refuse ::
  "('w, 'f, 'o) machine \<Rightarrow> string \<Rightarrow> client_error \<Rightarrow> form \<Rightarrow> 'o \<times> 'o \<Rightarrow> exit_status \<times> 'o \<times> 'o" where
  "refuse m command e f io =
     (code_exit (ce_code e),
      snd (emit_on m \<lparr>en_command = ascii command, en_instance = None, en_outcome = Err (ClientBody e)\<rparr> f io))"

definition print_text ::
  "('w, 'f, 'o) machine \<Rightarrow> utext \<Rightarrow> string \<Rightarrow> form \<Rightarrow> 'o \<times> 'o \<Rightarrow> exit_status \<times> 'o \<times> 'o" where
  "print_text m t command f io =
     (case ma_write_all m (utf8_bytes t) (fst io) of
        (Inl e, out) \<Rightarrow> refuse m command (local_io e) f (out, snd io)
      | (Inr _, out) \<Rightarrow>
          (case ma_flush m out of
             (Inl e, out') \<Rightarrow> refuse m command (local_io e) f (out', snd io)
           | (Inr _, out') \<Rightarrow> (XDone, out', snd io)))"

definition too_large_exit ::
  "('w, 'f, 'o) machine \<Rightarrow> utext \<Rightarrow> nat \<Rightarrow> utext \<Rightarrow> instance_ref option \<Rightarrow> form \<Rightarrow> 'o \<times> 'o \<Rightarrow> exit_status \<times> 'o \<times> 'o" where
  "too_large_exit m subject bytes argument i f io =
     (let e = too_large subject bytes argument in
      (code_exit (ce_code e),
       snd (emit_on m \<lparr>en_command = ascii INVALID, en_instance = i, en_outcome = Err (ClientBody e)\<rparr> f io)))"

definition name_too_large ::
  "('w, 'f, 'o) machine \<Rightarrow> nat \<Rightarrow> named_target \<Rightarrow> form \<Rightarrow> 'o \<times> 'o \<Rightarrow> exit_status \<times> 'o \<times> 'o" where
  "name_too_large m bytes named f io =
     (let (source, argument) =
            (if nt_from_variable named then (VARIABLE, ascii VARIABLE)
             else (''--kernel'', case in_name (nt_instance named) of Some n \<Rightarrow> n | None \<Rightarrow> [])) in
      too_large_exit m (ascii (source @ [CHR 0x27] @ ''s name'')) bytes argument (Some (nt_instance named)) f io)"

text \<open>The end of \<open>run\<close>: the exit its outcome has, and what is printed when standard output takes no answer.\<close>

definition outcome_exit :: "error_body + json \<Rightarrow> exit_status" where
  "outcome_exit outcome =
     (case outcome of
        Inr _ \<Rightarrow> XDone
      | Inl (KernelBody k) \<Rightarrow> kernel_exit k
      | Inl (ClientBody e) \<Rightarrow> code_exit (ce_code e))"

definition finish_run ::
  "('w, 'f, 'o) machine \<Rightarrow> command \<Rightarrow> form \<Rightarrow> instance_ref option \<Rightarrow> error_body + json \<Rightarrow> 'o \<times> 'o \<Rightarrow> exit_status \<times> 'o \<times> 'o" where
  "finish_run m c f i outcome io =
     (let e = \<lparr>en_command = ascii (cm_command c), en_instance = i, en_outcome = outcome\<rparr>;
          (r, io') = emit_on m e f io in
      case r of
        Inl (Stdout, why) \<Rightarrow>
          (let lost = (if cm_changes_state c then lost_answer why else local_io why) in
           (code_exit (ce_code lost), snd (emit_on m (e\<lparr>en_outcome := Err (ClientBody lost)\<rparr>) f io')))
      | _ \<Rightarrow> (outcome_exit outcome, io'))"

section \<open>One request\<close>

definition answer_on ::
  "('w, 'f, 'o) machine \<Rightarrow> verb_call \<Rightarrow> bool \<Rightarrow> 'f \<Rightarrow> utext \<Rightarrow> utext option \<Rightarrow> deadline \<Rightarrow> 'w \<Rightarrow>
    (error_body + json) option \<times> 'w" where
  "answer_on m call changes_state stream socket name d w =
     (let h = ma_host m in
      case check_peer_uid (ho_os h) stream (ho_uid h) w of
        (Inl e, w1) \<Rightarrow> (answer (ho_debug h) changes_state (Err e) socket (ho_uid h) (dl_ms d) [] [] [], w1)
      | (Inr _, w1) \<Rightarrow>
          (let (left, w2) = (case vc_deadline call of
                 None \<Rightarrow> (None, w1)
               | Some limit \<Rightarrow>
                   (let (now, w2) = ma_now m w1 in (Some (request_deadline_ms (deadline_left d now) limit), w2)));
               bytes = map of_nat (utf8_bytes (request call name left));
               ((writes, ins), w3) = ma_talk m stream bytes w2 in
           (answer (ho_debug h) changes_state (Ok ()) socket (ho_uid h) (dl_ms d) bytes writes ins, w3)))"

text \<open>The two ways to an outcome: the named socket, or the instance default selection chose.\<close>

definition run_named ::
  "('w, 'f, 'o) machine \<Rightarrow> verb_call \<Rightarrow> command \<Rightarrow> named_target \<Rightarrow> deadline \<Rightarrow> 'w \<Rightarrow> (error_body + json) option \<times> 'w" where
  "run_named m call c named d w =
     (let i = nt_instance named in
      case connect_to (ma_host m) (in_socket i) (nt_origin named) w of
        (Inl e, w1) \<Rightarrow> (Some (Err (ClientBody e)), w1)
      | (Inr stream, w1) \<Rightarrow> answer_on m call (cm_changes_state c) stream (in_socket i) (in_name i) d w1)"

definition run_chosen ::
  "('w, 'f, 'o) machine \<Rightarrow> verb_call \<Rightarrow> command \<Rightarrow> unselected + instance_ref \<Rightarrow> deadline \<Rightarrow> 'w \<Rightarrow>
    instance_ref option \<times> (error_body + json) option \<times> 'w" where
  "run_chosen m call c chosen d w =
     (case act_then (checked chosen) (connect_chosen (ma_host m)) w of
        (Inl u, w1) \<Rightarrow> (un_instance u, Some (Err (ClientBody (un_error u))), w1)
      | (Inr s, w1) \<Rightarrow>
          (let i = sl_instance s in
           (Some i, answer_on m call (cm_changes_state c) (sl_stream s) (in_socket i) (in_name i) d w1)))"

definition over_param :: "over option \<Rightarrow> (nat \<times> nat) option" where
  "over_param over =
     (case over of
        None \<Rightarrow> None
      | Some v \<Rightarrow> (case ov_culprit v of CulpritParam index \<Rightarrow> Some (ov_bytes v, index) | CulpritName \<Rightarrow> None))"

definition run_call ::
  "('w, 'f, 'o) machine \<Rightarrow> verb_call \<Rightarrow> invocation \<Rightarrow> nat \<Rightarrow> 'o \<times> 'o \<Rightarrow> 'w \<Rightarrow> (exit_status \<times> 'o \<times> 'o) option \<times> 'w" where
  "run_call m call v start io w =
     (let c = iv_command v; h = ma_host m; f = iv_form v; args = iv_args v in
      if call_repeats_a_key call then
        (Some (refuse m (cm_command c)
          (refusal InternalFailure (ascii (cm_command c) @ [0x27] @ ascii ''s call repeats a key'') []) f io), w)
      else
        (let total_ms = (case iv_deadline_ms v of Some ms \<Rightarrow> ms | None \<Rightarrow> cm_default_deadline_ms c);
             total_ns = total_ms * 1000000;
             over = measure_request call args (early (iv_kernel v) (iv_socket v) (variable h) args) total_ns;
             refuse_param = (\<lambda>bytes index i. too_large_exit m (fst (described (vc_params call ! index) args)) bytes
               (snd (described (vc_params call ! index) args)) i f io) in
         case over_param over of
           Some (bytes, index) \<Rightarrow>
             (Some (refuse_param bytes index (map_option (\<lambda>s. \<lparr>in_name = iv_kernel v, in_socket = s\<rparr>) (iv_socket v))), w)
         | None \<Rightarrow>
             (case target_of (iv_socket v) (iv_kernel v) h of
                Inl e \<Rightarrow> (Some (refuse m (if ce_code e = InvalidArgument then INVALID else cm_command c) e f io), w)
              | Inr (TargetNamed named) \<Rightarrow>
                  (case over of
                     Some o' \<Rightarrow> (Some (name_too_large m (ov_bytes o') named f io), w)
                   | None \<Rightarrow>
                       (let (outcome, w1) = run_named m call c named (deadline_new start total_ms) w in
                        (map_option (\<lambda>r. finish_run m c f (Some (nt_instance named)) r io) outcome, w1)))
              | Inr (TargetDefault instances) \<Rightarrow>
                  (let (chosen, w1) = select_default h instances w;
                       over_chosen = (case chosen of
                          Inr i \<Rightarrow> measure_request call args (map_option name_not_given (in_name i)) total_ns
                        | Inl _ \<Rightarrow> None) in
                   case over_param over_chosen of
                     Some (bytes, index) \<Rightarrow>
                       (Some (refuse_param bytes index (case chosen of Inr i \<Rightarrow> Some i | Inl _ \<Rightarrow> None)), w1)
                   | None \<Rightarrow>
                       (let (i, outcome, w2) = run_chosen m call c chosen (deadline_new start total_ms) w1 in
                        (map_option (\<lambda>r. finish_run m c f i r io) outcome, w2))))))"

section \<open>The command line\<close>

definition act_on ::
  "('w, 'f, 'o) machine \<Rightarrow> reading \<Rightarrow> nat \<Rightarrow> 'o \<times> 'o \<Rightarrow> 'w \<Rightarrow> (exit_status \<times> 'o \<times> 'o) option \<times> 'w" where
  "act_on m r start io w =
     (case r of
        ReadHelp t f \<Rightarrow> (Some (print_text m t HELP f io), w)
      | ReadVersion \<Rightarrow> (Some (print_text m (ascii (''plasmosome '' @ ma_version m) @ [0x0A]) VERSION JsonForm io), w)
      | ReadRefuse c e f \<Rightarrow> (Some (refuse m c e f io), w)
      | ReadRun v \<Rightarrow>
          (case cm_build (iv_command v) of
             Some build \<Rightarrow>
               (case build (iv_args v) of
                  Inr call \<Rightarrow> run_call m call v start io w
                | Inl e \<Rightarrow>
                    (Some (refuse m (if ce_code e = InvalidArgument then INVALID else cm_command (iv_command v)) e (iv_form v) io), w))
           | None \<Rightarrow>
               (Some (refuse m (cm_command (iv_command v))
                 (refusal InternalFailure (ascii (''this build marks '' @ cm_command (iv_command v) @ '' served and has no code for it'')) [])
                 (iv_form v) io), w)))"

definition handle_line ::
  "('w, 'f, 'o) machine \<Rightarrow> os_arg list \<Rightarrow> command list \<Rightarrow> 'o \<times> 'o \<Rightarrow> 'w \<Rightarrow> (exit_status \<times> 'o \<times> 'o) option \<times> 'w" where
  "handle_line m args commands io w =
     (let (start, w1) = ma_now m w in act_on m (read_line args commands) start io w1)"

section \<open>What a command reports\<close>

lemma code_exit_not_done [simp]: "code_exit c \<noteq> XDone"
  by (cases c) simp_all

lemma kernel_exit_not_done [simp]: "kernel_exit k \<noteq> XDone"
  by (auto simp: kernel_exit_def split: reply_code.splits option.splits)

text \<open>
  An exit, and the two streams after it. An exit of success has standard output holding a whole text that
  \<open>T\<close> allows, and leaves standard error as it was; any other exit is the one its error names, and one
  envelope of that error was what went to standard error.\<close>

definition reports ::
  "('w, 'f, 'o) machine \<Rightarrow> ('o \<Rightarrow> nat list) \<Rightarrow> (utext \<Rightarrow> bool) \<Rightarrow> 'o \<times> 'o \<Rightarrow> exit_status \<times> 'o \<times> 'o \<Rightarrow> bool" where
  "reports m contents T io r \<longleftrightarrow>
     (case r of (exit, out', err') \<Rightarrow>
       if exit = XDone then err' = snd io \<and> (\<exists>t. T t \<and> contents out' = contents (fst io) @ utf8_bytes t)
       else \<exists>e b f. en_outcome e = Err b \<and> exit = outcome_exit (Err b) \<and>
         err' = snd (write_envelope (ma_write_all m) (ma_flush m) (ma_chop m) e f (snd io)))"

definition faithful_machine :: "('w, 'f, 'o) machine \<Rightarrow> ('o \<Rightarrow> nat list) \<Rightarrow> bool" where
  "faithful_machine m contents \<longleftrightarrow>
     faithful_stream (ma_write_all m) (ma_flush m) contents \<and> (\<forall>t. concat (ma_chop m t) = t)"

lemma reports_error:
  assumes "en_outcome e = Err b" "exit = outcome_exit (Err b)" "exit \<noteq> XDone"
  shows "reports m contents T io (exit, out', snd (snd (emit_on m e f (out, snd io))))"
proof -
  have "snd (snd (emit_on m e f (out, snd io))) = snd (write_envelope (ma_write_all m) (ma_flush m) (ma_chop m) e f (snd io))"
    using assms(1) by (simp add: emit_on_def emit_def split: prod.split)
  with assms show ?thesis
    unfolding reports_def by (simp only: prod.case if_False) (intro exI conjI; (assumption | rule refl))
qed

lemma outcome_exit_err [simp]: "outcome_exit (Err b) \<noteq> XDone"
  by (cases b) (simp_all add: outcome_exit_def)

lemma refuse_reports: "reports m contents T io (refuse m command e f (out, snd io))"
proof -
  let ?e = "\<lparr>en_command = ascii command, en_instance = None, en_outcome = Err (ClientBody e)\<rparr>"
  have "reports m contents T io (code_exit (ce_code e), fst (snd (emit_on m ?e f (out, snd io))), snd (snd (emit_on m ?e f (out, snd io))))"
    by (rule reports_error [where b = "ClientBody e"]) (simp_all add: outcome_exit_def)
  then show ?thesis by (simp add: refuse_def)
qed

lemma refuse_reports_io: "reports m contents T io (refuse m command e f io)"
  using refuse_reports [of m contents T io command e f "fst io"] by simp

lemma print_text_reports:
  assumes "faithful_machine m contents" "T t"
  shows "reports m contents T io (print_text m t command f io)"
proof (cases "ma_write_all m (utf8_bytes t) (fst io)")
  case (Pair r out)
  show ?thesis
  proof (cases r)
    case (Inl e)
    with Pair show ?thesis using refuse_reports [of m contents T io] by (simp add: print_text_def)
  next
    case (Inr u)
    with Pair assms(1) have "contents out = contents (fst io) @ utf8_bytes t"
      by (auto simp: faithful_machine_def faithful_stream_def)
    moreover obtain r' out' where flush: "ma_flush m out = (r', out')" by (cases "ma_flush m out") auto
    moreover have "contents out' = contents out"
      using assms(1) flush by (metis faithful_machine_def faithful_stream_def snd_conv)
    ultimately show ?thesis
      using Pair Inr assms(2) refuse_reports [of m contents T io] by (cases r') (auto simp: print_text_def reports_def)
  qed
qed

lemma too_large_reports: "reports m contents T io (too_large_exit m subject bytes argument i f io)"
proof -
  let ?e = "\<lparr>en_command = ascii INVALID, en_instance = i, en_outcome = Err (ClientBody (too_large subject bytes argument))\<rparr>"
  have "reports m contents T io (code_exit (ce_code (too_large subject bytes argument)),
      fst (snd (emit_on m ?e f (fst io, snd io))), snd (snd (emit_on m ?e f (fst io, snd io))))"
    by (rule reports_error [where b = "ClientBody (too_large subject bytes argument)"]) (simp_all add: outcome_exit_def)
  then show ?thesis by (simp add: too_large_exit_def Let_def)
qed

lemma name_too_large_reports: "reports m contents T io (name_too_large m bytes named f io)"
  by (simp add: name_too_large_def too_large_reports split: prod.split)

definition result_text :: "command \<Rightarrow> form \<Rightarrow> utext \<Rightarrow> bool" where
  "result_text c f t \<longleftrightarrow> (\<exists>e v. en_command e = ascii (cm_command c) \<and> en_outcome e = Ok v \<and> t = envelope_text e f)"

lemma finish_run_reports:
  assumes "faithful_machine m contents"
  shows "reports m contents (result_text c f) io (finish_run m c f i outcome io)"
proof -
  let ?e = "\<lparr>en_command = ascii (cm_command c), en_instance = i, en_outcome = outcome\<rparr>"
  obtain r out' err' where emitted: "emit_on m ?e f io = (r, out', err')" by (cases "emit_on m ?e f io") auto
  show ?thesis
  proof (cases outcome)
    case (Inl b)
    then have "fst (emit_on m ?e f io) \<noteq> Inl (Stdout, why)" for why
      by (auto simp: emit_on_def emit_def map_err_def split: prod.split sum.split)
    with emitted have fin: "finish_run m c f i outcome io = (outcome_exit outcome, out', err')"
      by (auto simp: finish_run_def Let_def split: sum.split stream.split)
    have "err' = snd (snd (emit_on m ?e f (fst io, snd io)))" using emitted by simp
    with fin Inl show ?thesis using reports_error [of ?e b "outcome_exit outcome" m contents _ io out' f "fst io"] by simp
  next
    case (Inr v)
    obtain wr where wrote: "write_envelope (ma_write_all m) (ma_flush m) (ma_chop m) ?e f (fst io) = (wr, out')"
      and r: "r = map_err (Pair Stdout) wr" and err: "err' = snd io"
      using emitted Inr by (auto simp: emit_on_def emit_def split: prod.splits)
    show ?thesis
    proof (cases wr)
      case (Inr u)
      have "contents out' = contents (fst io) @ utf8_bytes (envelope_text ?e f)"
        using assms unfolding faithful_machine_def
        by (elim conjE) (rule written_whole [OF _ wrote [unfolded Inr]], assumption, blast)
      moreover have "result_text c f (envelope_text ?e f)"
        unfolding result_text_def using \<open>outcome = Inr v\<close> by (intro exI [of _ ?e] exI [of _ v]) simp
      moreover have "finish_run m c f i outcome io = (XDone, out', snd io)"
        using emitted r Inr err \<open>outcome = Inr v\<close> by (simp add: finish_run_def outcome_exit_def map_err_def)
      ultimately show ?thesis by (auto simp: reports_def)
    next
      case (Inl why)
      define lost where "lost = (if cm_changes_state c then lost_answer why else local_io why)"
      let ?lost = "?e\<lparr>en_outcome := Err (ClientBody lost)\<rparr>"
      have "finish_run m c f i outcome io = (code_exit (ce_code lost), snd (emit_on m ?lost f (out', snd io)))"
        using emitted r Inl err by (simp add: finish_run_def map_err_def lost_def Let_def)
      moreover have "reports m contents (result_text c f) io
          (code_exit (ce_code lost), fst (snd (emit_on m ?lost f (out', snd io))), snd (snd (emit_on m ?lost f (out', snd io))))"
        by (rule reports_error [where b = "ClientBody lost"]) (simp_all add: outcome_exit_def)
      ultimately show ?thesis by simp
    qed
  qed
qed

lemma run_call_reports:
  assumes "faithful_machine m contents" "run_call m call v start io w = (Some r, w')"
  shows "reports m contents (result_text (iv_command v) (iv_form v)) io r"
  using assms(2) unfolding run_call_def Let_def
  by (auto simp: refuse_reports_io too_large_reports name_too_large_reports finish_run_reports [OF assms(1)]
      split: if_splits option.splits sum.splits target.splits prod.splits)

text \<open>
  C24. A command says what happened. For every command line, when the run of it ends: an exit of success has
  the help, the version or the whole envelope of the daemon's result on standard output and nothing on
  standard error; and with any other exit, standard error was given exactly one envelope, of an error whose
  code is what the exit is for.\<close>

theorem handle_reports:
  assumes "faithful_machine m contents" "handle_line m args commands io w = (Some r, w')"
  shows "reports m contents (\<lambda>t. case read_line args commands of
      ReadHelp help f \<Rightarrow> t = help
    | ReadVersion \<Rightarrow> t = ascii (''plasmosome '' @ ma_version m) @ [0x0A]
    | ReadRefuse c e f \<Rightarrow> False
    | ReadRun v \<Rightarrow> result_text (iv_command v) (iv_form v) t) io r"
proof -
  obtain start w1 where "act_on m (read_line args commands) start io w1 = (Some r, w')"
    using assms(2) by (auto simp: handle_line_def split: prod.splits)
  then show ?thesis
    by (cases "read_line args commands")
      (auto simp: act_on_def refuse_reports_io intro!: print_text_reports [OF assms(1)] intro: run_call_reports [OF assms(1)]
        split: option.splits sum.splits)
qed

text \<open>A status without \<open>HOME\<close>, on streams that keep what they are given.\<close>

definition demo_machine :: "(unit, nat, nat list) machine" where
  "demo_machine =
     \<lparr>ma_host = demo_host, ma_now = \<lambda>w. (0, w), ma_talk = \<lambda>s bytes w. (([], []), w),
      ma_write_all = \<lambda>bs o'. (Ok (), o' @ bs), ma_flush = \<lambda>o'. (Ok (), o'), ma_chop = \<lambda>t. [t], ma_version = ''1.0''\<rparr>"

lemma demo_faithful: "faithful_machine demo_machine (\<lambda>o'. o')"
  by (simp add: faithful_machine_def faithful_stream_def demo_machine_def)

definition demo_status :: invocation where
  "demo_status = \<lparr>iv_command = hd COMMANDS, iv_kernel = None, iv_socket = None, iv_deadline_ms = None,
     iv_form = JsonForm, iv_args = args_empty\<rparr>"

lemma demo_status_read: "read_line [\<lparr>oa_text = ascii ''status'', oa_valid = True\<rparr>] (take 1 COMMANDS) = ReadRun demo_status"
  by (simp add: reading_simps demo_status_def COMMANDS_def verb_command_def line_args_def Let_def)

lemma demo_status_small:
  "measure_request \<lparr>vc_method = ''plasmosome.status'', vc_instance = NameParam, vc_params = [], vc_deadline = None\<rparr>
     args_empty (Some (name_not_given SHORTEST_NAME)) ns = None"
proof -
  have "length (utf8_bytes (request \<lparr>vc_method = ''plasmosome.status'', vc_instance = NameParam, vc_params = [], vc_deadline = None\<rparr>
      (Some SHORTEST_NAME) None)) - 1 \<le> MAX_REQUEST_BYTES"
    by (simp add: request_def request_members_def MAX_REQUEST_BYTES_def SHORTEST_NAME_def write_compact_def write_value_render
        write_string_def is_terminal_control_def utf8_bytes_def utf8_width_def)
  then show ?thesis by (simp add: measure_request_def name_not_given_def)
qed

lemma demo_status_runs:
  "\<exists>io'. handle_line demo_machine [\<lparr>oa_text = ascii ''status'', oa_valid = True\<rparr>] (take 1 COMMANDS) ([], []) () =
     (Some (XRefused, io'), ())"
proof -
  let ?call = "\<lparr>vc_method = ''plasmosome.status'', vc_instance = NameParam, vc_params = [], vc_deadline = None\<rparr>"
  have early: "early None None (variable demo_host) args_empty = Some (name_not_given SHORTEST_NAME)"
    by (simp add: early_def variable_def demo_host_def)
  have target: "target_of None None demo_host = Err (refusal InvalidHome (ascii ''HOME is unset'') [])"
    by (simp add: target_of_def variable_def home_path_def demo_host_def and_then_def Let_def)
  have code: "ce_code (refusal InvalidHome m []) = InvalidHome" for m by (simp add: refusal_code)
  have build: "cm_build (iv_command demo_status) = Some build_status"
    by (simp add: demo_status_def COMMANDS_def)
  have "\<exists>io'. run_call demo_machine ?call demo_status 0 ([], []) () = (Some (XRefused, io'), ())"
    using target demo_status_small early
    by (auto simp: run_call_def demo_status_def call_repeats_a_key_def demo_machine_def over_param_def refuse_def code Let_def)
  moreover have "ma_now demo_machine () = (0, ())" by (simp add: demo_machine_def)
  ultimately show ?thesis
    unfolding handle_line_def act_on_def demo_status_read by (simp only: prod.case Let_def reading.case build option.case build_status_def sum.case)
qed

theorem handle_reports_witness:
  "\<exists>out' err' e b f. en_outcome e = Err b \<and> outcome_exit (Err b) = XRefused \<and>
     handle_line demo_machine [\<lparr>oa_text = ascii ''status'', oa_valid = True\<rparr>] (take 1 COMMANDS) ([], []) () =
       (Some (XRefused, out', err'), ()) \<and>
     err' = snd (write_envelope (ma_write_all demo_machine) (ma_flush demo_machine) (ma_chop demo_machine) e f [])"
proof -
  from demo_status_runs obtain out' err' where run:
    "handle_line demo_machine [\<lparr>oa_text = ascii ''status'', oa_valid = True\<rparr>] (take 1 COMMANDS) ([], []) () =
       (Some (XRefused, out', err'), ())" by auto
  from handle_reports [OF demo_faithful this] obtain e b f where "en_outcome e = Err b" "XRefused = outcome_exit (Err b)"
    "err' = snd (write_envelope (ma_write_all demo_machine) (ma_flush demo_machine) (ma_chop demo_machine) e f [])"
    by (auto simp: reports_def)
  with run show ?thesis by metis
qed

end
