(* ===== verification/Publish_Socket.thy ===== *)
theory Publish_Socket
  imports Private_Socket
begin

text \<open>
  What publishing a control socket shows to other processes. The calls of \<open>publish\<close> that touch a name or the
  socket are noted in a log, and the log is exact when the publication succeeds and harmless when it fails,
  whatever the operating system answers.
\<close>

section \<open>What publishing did, in order\<close>

datatype event =
    EvBind utext
  | EvLook utext "errno + facts"
  | EvMode utext u32
  | EvListen
  | EvUnblock
  | EvRename utext utext
  | EvUnlink utext

text \<open>The same operating system, with the calls on names and sockets that took effect noted in a log.\<close>

definition quietly :: "('w, 'e, 'a) act \<Rightarrow> ('w \<times> 'l, 'e, 'a) act" where
  "quietly m wl = (case m (fst wl) of (r, w') \<Rightarrow> (r, w', snd wl))"

definition noting :: "event \<Rightarrow> ('w, 'e, 'a) act \<Rightarrow> ('w \<times> event list, 'e, 'a) act" where
  "noting ev m wl = (case m (fst wl) of (Ok a, w') \<Rightarrow> (Ok a, w', snd wl @ [ev]) | (Err e, w') \<Rightarrow> (Err e, w', snd wl))"

definition looking :: "utext \<Rightarrow> ('w, errno, stat) act \<Rightarrow> ('w \<times> event list, errno, stat) act" where
  "looking name m wl = (case m (fst wl) of (r, w') \<Rightarrow> (r, w', snd wl @ [EvLook name (map_sum id facts_of r)]))"

definition logged :: "('w, 'f) os \<Rightarrow> ('w \<times> event list, 'f) os" where
  "logged os =
     \<lparr>os_euid = os_euid os,
      os_open_root = quietly (os_open_root os),
      os_open_at = \<lambda>p n a. quietly (os_open_at os p n a),
      os_fstat = \<lambda>f. quietly (os_fstat os f),
      os_stat_at = \<lambda>d n. looking n (os_stat_at os d n),
      os_dup = \<lambda>f. quietly (os_dup os f),
      os_clear_nonblocking = \<lambda>f. quietly (os_clear_nonblocking os f),
      os_ignored_ownership = \<lambda>f. quietly (os_ignored_ownership os f),
      os_replacing_acl = \<lambda>f. quietly (os_replacing_acl os f),
      os_acl_present = \<lambda>f. quietly (os_acl_present os f),
      os_read_dir = \<lambda>f. quietly (os_read_dir os f),
      os_socket = quietly (os_socket os),
      os_bind = \<lambda>f p. noting (EvBind p) (os_bind os f p),
      os_chmod_at = \<lambda>d n mode nofollow. noting (EvMode n mode) (os_chmod_at os d n mode nofollow),
      os_listen = \<lambda>f n. noting EvListen (os_listen os f n),
      os_set_nonblocking = \<lambda>f b. noting EvUnblock (os_set_nonblocking os f b),
      os_rename_new = \<lambda>d a b. noting (EvRename a b) (os_rename_new os d a b),
      os_unlink_at = \<lambda>d n. noting (EvUnlink n) (os_unlink_at os d n),
      os_accept = \<lambda>f. quietly (os_accept os f),
      os_peer_credentials = \<lambda>f. quietly (os_peer_credentials os f)\<rparr>"

text \<open>An act whose log, whatever comes of it, grows by events of a kind.\<close>

definition logs :: "(event \<Rightarrow> bool) \<Rightarrow> ('w \<times> event list, 'e, 'a) act \<Rightarrow> bool" where
  "logs K m \<longleftrightarrow> (\<forall>wl. \<exists>ext. snd (snd (m wl)) = snd wl @ ext \<and> list_all K ext)"

named_theorems logging \<open>acts whose log grows by events of a kind\<close>

lemma logs_act_then [logging]:
  assumes "logs K m" "\<And>a. logs K (k a)"
  shows "logs K (act_then m k)"
  unfolding logs_def
proof
  fix wl
  obtain r wl1 where m: "m wl = (r, wl1)" by (cases "m wl") auto
  from assms(1) m obtain ext where ext: "snd wl1 = snd wl @ ext" "list_all K ext" unfolding logs_def by (metis snd_conv)
  show "\<exists>ext. snd (snd (act_then m k wl)) = snd wl @ ext \<and> list_all K ext"
  proof (cases r)
    case (Inr a)
    from assms(2) [of a] obtain ext' where "snd (snd (k a wl1)) = snd wl1 @ ext'" "list_all K ext'" unfolding logs_def by metis
    with ext m Inr show ?thesis by (intro exI [of _ "ext @ ext'"]) (simp add: act_then_def)
  qed (use ext m in \<open>auto simp: act_then_def\<close>)
qed

lemma logs_simple [logging]:
  "logs K (done_with a)" "logs K (fail_with e)" "logs K (checked r)" "logs K (quietly q)"
  by (auto simp: logs_def done_with_def fail_with_def checked_def quietly_def split: prod.splits)

lemma logs_wrapped [logging]:
  "logs K m \<Longrightarrow> logs K (act_err g m)" "logs K m \<Longrightarrow> logs K (attempt_of m)"
proof -
  have same: "snd (act_err g m wl) = snd (m wl)" "snd (attempt_of m wl) = snd (m wl)" for wl
    by (simp_all add: act_err_def attempt_of_def split: prod.splits sum.splits)
  show "logs K m \<Longrightarrow> logs K (act_err g m)" "logs K m \<Longrightarrow> logs K (attempt_of m)"
    unfolding logs_def same by assumption+
qed

lemma logs_noted [logging]:
  "K ev \<Longrightarrow> logs K (noting ev q)" "(\<And>r. K (EvLook n r)) \<Longrightarrow> logs K (looking n l)"
  by (auto simp: logs_def noting_def looking_def split: prod.splits sum.splits)

fun is_look :: "event \<Rightarrow> bool" where
  "is_look (EvLook n r) = True"
| "is_look _ = False"

lemma logged_simps [simp]:
  "os_euid (logged os) = os_euid os" "os_open_root (logged os) = quietly (os_open_root os)"
  "os_open_at (logged os) p n a = quietly (os_open_at os p n a)" "os_fstat (logged os) f = quietly (os_fstat os f)"
  "os_stat_at (logged os) d n = looking n (os_stat_at os d n)" "os_dup (logged os) f = quietly (os_dup os f)"
  "os_ignored_ownership (logged os) f = quietly (os_ignored_ownership os f)"
  "os_replacing_acl (logged os) f = quietly (os_replacing_acl os f)" "os_acl_present (logged os) f = quietly (os_acl_present os f)"
  "os_socket (logged os) = quietly (os_socket os)" "os_bind (logged os) f q = noting (EvBind q) (os_bind os f q)"
  "os_chmod_at (logged os) d n mode nofollow = noting (EvMode n mode) (os_chmod_at os d n mode nofollow)"
  "os_listen (logged os) f i = noting EvListen (os_listen os f i)"
  "os_set_nonblocking (logged os) f b = noting EvUnblock (os_set_nonblocking os f b)"
  "os_rename_new (logged os) d x y = noting (EvRename x y) (os_rename_new os d x y)"
  "os_unlink_at (logged os) d n = noting (EvUnlink n) (os_unlink_at os d n)"
  by (simp_all add: logged_def)

lemma logs_branches [logging]:
  "(b \<Longrightarrow> logs K m) \<Longrightarrow> (\<not> b \<Longrightarrow> logs K n) \<Longrightarrow> logs K (if b then m else n)"
  "(\<And>e. logs K (f e)) \<Longrightarrow> (\<And>a. logs K (g a)) \<Longrightarrow> logs K (case r of Inl e \<Rightarrow> f e | Inr a \<Rightarrow> g a)"
  "(\<And>a b. logs K (h a b)) \<Longrightarrow> logs K (case q of (a, b) \<Rightarrow> h a b)"
  by (simp_all split: sum.split prod.split)

lemma logs_stat_at [logging]: "(\<And>r. K (EvLook n r)) \<Longrightarrow> logs K (stat_at (logged os) d n)"
  unfolding stat_at_def logged_simps by (intro logging)

lemma logs_refuse_if [logging]: "logs K q \<Longrightarrow> logs K (refuse_if into q at why)"
  unfolding refuse_if_def by (intro logging)

lemma logs_stat_fd [logging]: "logs K (stat_fd (logged os) d at)"
  unfolding stat_fd_def logged_simps by (intro logging)

lemma logs_pass_dir [logging]: "logs K (pass_dir (logged os) d f at)"
  unfolding pass_dir_def refuse_ignored_ownership_def refuse_replacing_acl_def logged_simps by (intro logging)

lemma logs_open_child [logging]: "logs is_look (open_child (logged os) into p n at acc j)"
  unfolding open_child_def logged_simps by (intro logging) simp_all

lemma logs_reach_above [logging]: "logs is_look (reach_above (logged os) into cs d f at passed)"
  by (induction cs arbitrary: d f at passed; unfold reach_above.simps Let_def; intro logging; assumption)

lemma logs_reach [logging]: "logs is_look (reach (logged os) into walk LastDirectory j)"
  unfolding reach_def reach_start_def Let_def walk_last.case logged_simps refuse_ignored_ownership_def by (intro logging)

lemma logs_reconfirm [logging]: "logs is_look (reconfirm (logged os) d)"
  unfolding reconfirm_def open_private_def open_directory_def refuse_acl_def Let_def logged_simps by (intro logging)

text \<open>A walk that succeeds looks at no name.\<close>

lemma quietly_Ok [acts]: "quietly q wl = (Ok a, wl') \<longleftrightarrow> (\<exists>w'. q (fst wl) = (Ok a, w') \<and> wl' = (w', snd wl))"
  by (auto simp: quietly_def split: prod.splits)

lemma noting_Ok [acts]: "noting ev q wl = (Ok a, wl') \<longleftrightarrow> (\<exists>w'. q (fst wl) = (Ok a, w') \<and> wl' = (w', snd wl @ [ev]))"
  by (auto simp: noting_def split: prod.splits sum.splits)

lemma stat_at_logged: "stat_at (logged os) d n wl = (r, wl') \<Longrightarrow> snd wl' = snd wl @ [EvLook n r]"
  by (auto simp: stat_at_def act_then_def looking_def done_with_def split: prod.splits sum.splits)

lemma pass_dir_log: "pass_dir (logged os) d f at wl = (Ok u, wl') \<Longrightarrow> snd wl' = snd wl"
  by (auto simp: pass_dir_def refuse_ignored_ownership_def refuse_replacing_acl_def acts)

lemma reach_above_log: "reach_above (logged os) into cs d f at passed wl = (Ok r, wl') \<Longrightarrow> snd wl' = snd wl"
proof (induction cs arbitrary: d f at passed wl)
  case Nil
  then show ?case by (auto simp: acts dest: pass_dir_log)
next
  case (Cons c cs)
  then obtain wl1 e g wl2 where "snd wl1 = snd wl" "snd wl2 = snd wl1"
      "reach_above (logged os) into cs e g (push_path at c) (passed @ [identity_of f]) wl2 = (Ok r, wl')"
    by (fastforce simp: acts Let_def dest: pass_dir_log)
  with Cons.IH show ?case by metis
qed

lemma reach_log:
  assumes "reach (logged os) into walk LastDirectory j wl = (Ok r, wl')"
  shows "snd wl' = snd wl"
proof (cases "wk_components walk = []")
  case True
  with assms show ?thesis by (auto simp: reach_def reach_start_def Let_def refuse_ignored_ownership_def acts)
next
  case False
  with assms obtain f wl1 x wl2 where "snd wl1 = snd wl" "snd wl' = snd wl2"
      "reach_above (logged os) into (butlast (wk_components walk)) (wk_start walk) f (wk_start_path walk) [] wl1 = (Ok x, wl2)"
    by (auto simp: reach_def Let_def refuse_ignored_ownership_def acts)
  then show ?thesis using reach_above_log by metis
qed

lemma reconfirm_log: "reconfirm (logged os) d wl = (Ok u, wl') \<Longrightarrow> snd wl' = snd wl"
  by (auto simp: reconfirm_def open_private_def open_directory_def refuse_acl_def Let_def acts dest!: reach_log split: if_splits)

lemma choose_temporary_log:
  "choose_temporary dir name draws (bind_path (logged os) sock) taken wl = (Ok t, wl') \<Longrightarrow>
    snd wl' = snd wl @ [EvBind (push_path dir t)] \<and> \<not> eq_ignore_ascii_case t name"
proof (induction draws arbitrary: taken wl)
  case (Cons candidate draws)
  have refused: "snd wl1 = snd wl" if "bind_path (logged os) sock at wl = (Err why, wl1)" for at wl1 why
    using that by (auto simp: bind_path_def act_then_def checked_def act_err_def noting_def split: prod.splits sum.splits)
  show ?case
  proof (cases "eq_ignore_ascii_case candidate name")
    case True
    with Cons show ?thesis by simp
  next
    case False
    with Cons.prems obtain r wl1 where r: "bind_path (logged os) sock (push_path dir candidate) wl = (r, wl1)"
      and rest: "(case r of Ok _ \<Rightarrow> done_with candidate
         | Err why \<Rightarrow>
             (case why of
                SocketIo op p errno \<Rightarrow>
                  if op = ''bind'' \<and> errno = EADDRINUSE
                  then choose_temporary dir name draws (bind_path (logged os) sock) (Some (push_path dir candidate)) else fail_with why
              | _ \<Rightarrow> fail_with why)) wl1 = (Ok t, wl')"
      by (auto simp: acts Let_def)
    show ?thesis
    proof (cases r)
      case (Inr u)
      with r rest False show ?thesis by (auto simp: bind_path_def acts)
    next
      case (Inl why)
      then have "choose_temporary dir name draws (bind_path (logged os) sock) (Some (push_path dir candidate)) wl1 = (Ok t, wl')"
        and "\<exists>op p errno. why = SocketIo op p errno \<and> op = ''bind'' \<and> errno = EADDRINUSE"
        using rest by (auto simp: acts split: private_socket_error.splits if_splits)
      with Cons.IH refused r Inl show ?thesis by metis
    qed
  qed
qed (simp add: acts)

definition same_entry :: "facts \<Rightarrow> facts \<Rightarrow> bool" where
  "same_entry f g \<longleftrightarrow> fc_dev g = fc_dev f \<and> fc_ino g = fc_ino f"

text \<open>What setting the mode at \<open>t\<close> may note: the mode, after a look when a link could not be refused.\<close>

definition mode_events :: "utext \<Rightarrow> facts \<Rightarrow> event list \<Rightarrow> bool" where
  "mode_events t f ext \<longleftrightarrow> ext = [EvMode t 0x180] \<or>
     (\<exists>g. ext = [EvLook t (Ok g), EvMode t 0x180] \<and> fc_kind g = KSocket \<and> same_entry f g)"

lemma restrict_log:
  assumes "restrict_to_owner (logged os) b wl = (Ok u, wl')"
    and "se_dev (be_entry b) = fc_dev f" "se_ino (be_entry b) = fc_ino f"
  shows "\<exists>ext. snd wl' = snd wl @ ext \<and> mode_events (be_name b) f ext"
proof -
  from assms(1) obtain r wl1 where r: "os_chmod_at (logged os) (pd_dir (be_dir b)) (be_name b) 0x180 True wl = (r, wl1)"
    and rest: "(case r of Ok _ \<Rightarrow> done_with ()
      | Err errno \<Rightarrow>
          if errno \<noteq> ENOTSUP then fail_with (SocketIo ''fchmodat'' (se_path (be_entry b)) errno)
          else
            act_then (attempt_of (stat_at (logged os) (pd_dir (be_dir b)) (be_name b))) (\<lambda>found.
            if (case found of
                  Ok f \<Rightarrow> fc_kind f = KSocket \<and> fc_dev f = se_dev (be_entry b) \<and> fc_ino f = se_ino (be_entry b)
                | Err _ \<Rightarrow> False)
            then act_err (SocketIo ''fchmodat'' (se_path (be_entry b)))
              (os_chmod_at (logged os) (pd_dir (be_dir b)) (be_name b) 0x180 False)
            else fail_with (BindEscaped (se_path (be_entry b))))) wl1 = (Ok u, wl')"
    by (auto simp: restrict_to_owner_def Let_def acts simp del: logged_simps)
  show ?thesis
  proof (cases r)
    case (Inr v)
    with r rest show ?thesis by (auto simp: acts mode_events_def)
  next
    case (Inl errno)
    with r have same: "snd wl1 = snd wl" by (auto simp: noting_def split: prod.splits sum.splits)
    from Inl rest obtain found wl2 where found: "stat_at (logged os) (pd_dir (be_dir b)) (be_name b) wl1 = (found, wl2)"
      and ok: "case found of Ok g \<Rightarrow> fc_kind g = KSocket \<and> fc_dev g = se_dev (be_entry b) \<and> fc_ino g = se_ino (be_entry b) | Err _ \<Rightarrow> False"
      and mode: "os_chmod_at (logged os) (pd_dir (be_dir b)) (be_name b) 0x180 False wl2 = (Ok u, wl')"
      by (auto simp: acts simp del: logged_simps split: if_splits)
    from ok obtain g where "found = Ok g" "fc_kind g = KSocket" "same_entry f g"
      using assms(2,3) by (cases found) (auto simp: same_entry_def)
    with stat_at_logged [OF found] mode same show ?thesis by (auto simp: acts mode_events_def)
  qed
qed

lemma look_again_log:
  assumes "look_again (logged os) b wl = (Ok g, wl')" and "se_dev (be_entry b) = fc_dev f" "se_ino (be_entry b) = fc_ino f"
  shows "snd wl' = snd wl @ [EvLook (be_name b) (Ok g)] \<and> same_entry f g"
proof -
  from assms(1) obtain r wl1 where look: "stat_at (logged os) (pd_dir (be_dir b)) (be_name b) wl = (r, wl1)"
    and rest: "(case r of Ok h \<Rightarrow> if fc_dev h = se_dev (be_entry b) \<and> fc_ino h = se_ino (be_entry b) then done_with h
         else fail_with (BindEscaped (se_path (be_entry b)))
     | Err errno \<Rightarrow>
         if errno \<noteq> ENOENT then fail_with (SocketIo ''fstatat'' (se_path (be_entry b)) errno)
         else fail_with (BindEscaped (se_path (be_entry b)))) wl1 = (Ok g, wl')"
    by (auto simp: look_again_def acts)
  from rest assms(2,3) have "r = Ok g" "wl' = wl1" "same_entry f g"
    by (auto simp: done_with_Ok fail_with_Ok same_entry_def split: sum.splits if_splits)
  with stat_at_logged [OF look] show ?thesis by simp
qed

text \<open>The order in which a socket was published: nothing at the name, bound at a temporary, found there as
  the user's socket, its mode set, found again as the same private socket, listening, and only then renamed.\<close>

definition published :: "utext \<Rightarrow> utext \<Rightarrow> u32 \<Rightarrow> utext \<Rightarrow> facts \<Rightarrow> event list \<Rightarrow> bool" where
  "published dir name owner t f log \<longleftrightarrow> (\<exists>ext g.
     log = [EvLook name (Err ENOENT), EvBind (push_path dir t), EvLook t (Ok f)] @ ext @
       [EvLook t (Ok g), EvListen, EvUnblock, EvRename t name] \<and>
     \<not> eq_ignore_ascii_case t name \<and> fc_kind f = KSocket \<and> fc_uid f = owner \<and> mode_events t f ext \<and>
     same_entry f g \<and> own_socket owner g)"

lemma publish_bound_log:
  assumes "publish_bound (logged os) b sock recheck c_name path owner wl = (Ok (l, b'), wl')"
    and "se_dev (be_entry b) = fc_dev f" "se_ino (be_entry b) = fc_ino f"
  shows "recheck = Ok () \<and> l = sock \<and> b' = b\<lparr>be_name := c_name, be_entry := (be_entry b)\<lparr>se_path := path\<rparr>\<rparr> \<and>
    (\<exists>ext g. snd wl' = snd wl @ ext @ [EvLook (be_name b) (Ok g), EvListen, EvUnblock, EvRename (be_name b) c_name] \<and>
      mode_events (be_name b) f ext \<and> same_entry f g \<and> own_socket owner g)"
proof -
  from assms(1) obtain wl1 g wl2 where steps: "recheck = Ok ()" "restrict_to_owner (logged os) b wl = (Ok (), wl1)"
      "look_again (logged os) b wl1 = (Ok g, wl2)" "own_socket owner g"
      "snd wl' = snd wl2 @ [EvListen, EvUnblock, EvRename (be_name b) c_name]"
      "l = sock" "b' = b\<lparr>be_name := c_name, be_entry := (be_entry b)\<lparr>se_path := path\<rparr>\<rparr>"
    by (auto simp: publish_bound_def Let_def acts)
  with restrict_log [OF steps(2) assms(2,3)] look_again_log [OF steps(3) assms(2,3)] show ?thesis by auto
qed

lemma or_drop_Ok [acts]: "or_drop os b m w = (Ok a, w') \<longleftrightarrow> m w = (Ok a, w')"
  by (auto simp: or_drop_def split: prod.splits sum.splits)

lemma publish_Ok_log:
  assumes "publish (logged os) dir name owner draw wl = (Ok (l, b), wl')"
  shows "\<exists>t f log. snd wl' = snd wl @ log \<and> published (pd_path dir) name owner t f log \<and>
    be_name b = name \<and> be_entry b = \<lparr>se_path = push_path (pd_path dir) name, se_dev = fc_dev f, se_ino = fc_ino f\<rparr>"
proof -
  let ?os = "logged os" and ?path = "push_path (pd_path dir) name"
  from assms obtain c wl1 there wl2 where "entry_name name = Ok c" and confirmed: "reconfirm ?os dir wl = (Ok (), wl1)"
    and first: "stat_at ?os (pd_dir dir) c wl1 = (there, wl2)"
    and rest: "(case there of
        Ok _ \<Rightarrow> fail_with (AddressInUse ?path)
      | Err errno \<Rightarrow>
          if errno \<noteq> ENOENT then fail_with (SocketIo ''fstatat'' ?path errno)
          else
            act_then (act_err (socket_io ''socket'' ?path) (os_socket ?os)) (\<lambda>sock.
            act_then (choose_temporary (pd_path dir) name
                (map (\<lambda>i. draw i (temporary_room (pd_path dir))) [0 ..< TEMPORARY_DRAWS]) (bind_path ?os sock) None) (\<lambda>candidate.
            act_then (checked (entry_name candidate)) (\<lambda>c_temporary.
            (let temporary = push_path (pd_path dir) candidate in
             act_then (attempt_of (reconfirm ?os dir)) (\<lambda>recheck.
             act_then (attempt_of (stat_at ?os (pd_dir dir) c_temporary)) (\<lambda>found.
             case found of
               Err _ \<Rightarrow> fail_with (BindEscaped temporary)
             | Ok f \<Rightarrow>
                 if fc_kind f = KSocket \<and> fc_uid f = owner then
                   (let b = \<lparr>be_dir = dir, be_name = c_temporary,
                          be_entry = \<lparr>se_path = temporary, se_dev = fc_dev f, se_ino = fc_ino f\<rparr>,
                          be_removed = False\<rparr> in
                    or_drop ?os b (publish_bound ?os b sock recheck c ?path owner))
                 else fail_with (BindEscaped temporary)))))))) wl2 = (Ok (l, b), wl')"
    unfolding publish_def by (auto simp: Let_def act_then_Ok checked_Ok attempt_of_Ok)
  then have c: "c = name" by (auto simp: entry_name_def split: if_splits)
  from rest have there: "there = Err ENOENT" by (auto simp: fail_with_Ok split: sum.splits if_splits)
  with rest obtain sock wl3 t wl4 ct recheck wl5 found wl6 where
    sock: "os_socket ?os wl2 = (Ok sock, wl3)"
    and bound: "choose_temporary (pd_path dir) name
      (map (\<lambda>i. draw i (temporary_room (pd_path dir))) [0 ..< TEMPORARY_DRAWS]) (bind_path ?os sock) None wl3 = (Ok t, wl4)"
    and ct: "entry_name t = Ok ct" and again: "reconfirm ?os dir wl4 = (recheck, wl5)"
    and look: "stat_at ?os (pd_dir dir) ct wl5 = (found, wl6)"
    and rest': "(case found of
               Err _ \<Rightarrow> fail_with (BindEscaped (push_path (pd_path dir) t))
             | Ok f \<Rightarrow>
                 if fc_kind f = KSocket \<and> fc_uid f = owner then
                   (let b = \<lparr>be_dir = dir, be_name = ct,
                          be_entry = \<lparr>se_path = push_path (pd_path dir) t, se_dev = fc_dev f, se_ino = fc_ino f\<rparr>,
                          be_removed = False\<rparr> in
                    or_drop ?os b (publish_bound ?os b sock recheck c ?path owner))
                 else fail_with (BindEscaped (push_path (pd_path dir) t))) wl6 = (Ok (l, b), wl')"
    by (auto simp: Let_def act_then_Ok checked_Ok attempt_of_Ok act_err_Ok simp del: logged_simps)
  from ct have "ct = t" by (auto simp: entry_name_def split: if_splits)
  from rest' obtain f where f: "found = Ok f" "fc_kind f = KSocket" "fc_uid f = owner"
    by (cases found) (auto simp: fail_with_Ok split: if_splits)
  define b0 where "b0 = \<lparr>be_dir = dir, be_name = t,
    be_entry = \<lparr>se_path = push_path (pd_path dir) t, se_dev = fc_dev f, se_ino = fc_ino f\<rparr>, be_removed = False\<rparr>"
  have "publish_bound ?os b0 sock recheck name ?path owner wl6 = (Ok (l, b), wl')"
    using rest' f \<open>ct = t\<close> c by (simp add: Let_def or_drop_Ok b0_def)
  from publish_bound_log [OF this, of f] obtain ext g where done_last: "recheck = Ok ()"
      "b = b0\<lparr>be_name := name, be_entry := (be_entry b0)\<lparr>se_path := ?path\<rparr>\<rparr>"
      "snd wl' = snd wl6 @ ext @ [EvLook t (Ok g), EvListen, EvUnblock, EvRename t name]"
      "mode_events t f ext" "same_entry f g" "own_socket owner g"
    by (auto simp: b0_def)
  have "snd wl6 = snd wl @ [EvLook name (Err ENOENT), EvBind (push_path (pd_path dir) t), EvLook t (Ok f)]"
    using reconfirm_log [OF confirmed] stat_at_logged [OF first] sock choose_temporary_log [OF bound]
      reconfirm_log [OF again [unfolded done_last(1)]] stat_at_logged [OF look] c there f \<open>ct = t\<close>
    by (auto simp: quietly_Ok)
  with done_last f choose_temporary_log [OF bound] show ?thesis
    by (auto simp: published_def b0_def)
qed

text \<open>What a failed publication leaves: nothing renamed, and at most what it had found at its temporary removed.\<close>

fun keeps_names :: "event \<Rightarrow> bool" where
  "keeps_names (EvRename a b) = False"
| "keeps_names (EvUnlink a) = False"
| "keeps_names _ = True"

definition withdrawn :: "u32 \<Rightarrow> event list \<Rightarrow> bool" where
  "withdrawn owner log \<longleftrightarrow> (\<exists>pre. list_all keeps_names pre \<and> (log = pre \<or>
     (\<exists>t f g. log = pre @ [EvLook t (Ok g), EvUnlink t] \<and> EvLook t (Ok f) \<in> set pre \<and> fc_kind f = KSocket \<and>
        fc_uid f = owner \<and> fc_kind g = KSocket \<and> same_entry f g)))"

definition fails :: "(event list \<Rightarrow> bool) \<Rightarrow> ('w \<times> event list, 'e, 'a) act \<Rightarrow> bool" where
  "fails P m \<longleftrightarrow> (\<forall>wl e wl'. m wl = (Err e, wl') \<longrightarrow> (\<exists>log. snd wl' = snd wl @ log \<and> P log))"

definition absorbs :: "(event list \<Rightarrow> bool) \<Rightarrow> bool" where
  "absorbs P \<longleftrightarrow> (\<forall>pre log. list_all keeps_names pre \<longrightarrow> P pre \<and> (P log \<longrightarrow> P (pre @ log)))"

lemma logs_look_keeps: "logs is_look m \<Longrightarrow> logs keeps_names m"
proof -
  have "is_look e \<Longrightarrow> keeps_names e" for e by (cases e) simp_all
  then have "list_all is_look ext \<Longrightarrow> list_all keeps_names ext" for ext by (simp add: list_all_iff)
  then show "logs is_look m \<Longrightarrow> logs keeps_names m" unfolding logs_def by metis
qed

lemma absorbs_keeps: "absorbs (list_all keeps_names)"
  by (simp add: absorbs_def)

lemma absorbs_withdrawn: "absorbs (withdrawn owner)"
proof -
  have "withdrawn owner (pre @ log)" if "list_all keeps_names pre" "withdrawn owner log" for pre log
  proof -
    from that(2) obtain pre' where "list_all keeps_names pre'" "log = pre' \<or>
       (\<exists>t f g. log = pre' @ [EvLook t (Ok g), EvUnlink t] \<and> EvLook t (Ok f) \<in> set pre' \<and> fc_kind f = KSocket \<and>
        fc_uid f = owner \<and> fc_kind g = KSocket \<and> same_entry f g)" unfolding withdrawn_def by blast
    with that(1) show ?thesis unfolding withdrawn_def by (intro exI [of _ "pre @ pre'"]) auto
  qed
  then show ?thesis unfolding absorbs_def withdrawn_def [of owner "_ :: event list"] by blast
qed

lemma fails_logs: "absorbs P \<Longrightarrow> logs keeps_names m \<Longrightarrow> fails P m"
  unfolding logs_def fails_def absorbs_def by (metis snd_conv)

lemma fails_act_then:
  assumes "absorbs P" "logs keeps_names m" "\<And>a. fails P (k a)"
  shows "fails P (act_then m k)"
  unfolding fails_def
proof (intro allI impI)
  fix wl e wl' assume failed: "act_then m k wl = (Err e, wl')"
  obtain r wl1 where m: "m wl = (r, wl1)" by (cases "m wl") auto
  from assms(2) m obtain ext where ext: "snd wl1 = snd wl @ ext" "list_all keeps_names ext" unfolding logs_def by (metis snd_conv)
  show "\<exists>log. snd wl' = snd wl @ log \<and> P log"
  proof (cases r)
    case (Inl d)
    with failed m have "wl' = wl1" by (simp add: act_then_def)
    with ext assms(1) show ?thesis unfolding absorbs_def by blast
  next
    case (Inr a)
    with failed m have "k a wl1 = (Err e, wl')" by (simp add: act_then_def)
    with assms(3) obtain log where "snd wl' = snd wl1 @ log" "P log" unfolding fails_def by blast
    with ext assms(1) show ?thesis unfolding absorbs_def by (metis append.assoc)
  qed
qed

lemma fails_branches:
  "(b \<Longrightarrow> fails P m) \<Longrightarrow> (\<not> b \<Longrightarrow> fails P n) \<Longrightarrow> fails P (if b then m else n)"
  "(\<And>e. fails P (f e)) \<Longrightarrow> (\<And>a. fails P (g a)) \<Longrightarrow> fails P (case r of Inl e \<Rightarrow> f e | Inr a \<Rightarrow> g a)"
  by (simp_all split: sum.split)

lemma logs_bind_path [logging]: "logs keeps_names (bind_path (logged os) sock at)"
  unfolding bind_path_def logged_simps by (intro logging) simp

lemma logs_choose [logging]: "logs keeps_names (choose_temporary dir name draws (bind_path (logged os) sock) taken)"
proof (induction draws arbitrary: taken)
  case (Cons c draws)
  have "logs keeps_names (case why of
                SocketIo op p errno \<Rightarrow>
                  if op = ''bind'' \<and> errno = EADDRINUSE
                  then choose_temporary dir name draws (bind_path (logged os) sock) t else fail_with why
              | _ \<Rightarrow> fail_with why)" for why t
    using Cons.IH by (simp add: logging split: private_socket_error.split)
  then show ?case
    unfolding choose_temporary.simps Let_def by (intro logging Cons.IH)
qed (simp add: logging)

lemma logs_restrict [logging]: "logs keeps_names (restrict_to_owner (logged os) b)"
  unfolding restrict_to_owner_def Let_def logged_simps by (intro logging) simp_all

lemma logs_look_again [logging]: "logs keeps_names (look_again (logged os) b)"
  unfolding look_again_def by (intro logging) simp_all

text \<open>The rename is the last call, so what fails before it has renamed nothing.\<close>

lemma publish_bound_fails: "fails (list_all keeps_names) (publish_bound (logged os) b sock recheck c_name path owner)"
proof -
  have rename: "fails (list_all keeps_names) (act_then (act_err h (noting ev q)) (\<lambda>a. done_with (v a)))"
    for h ev v and q :: "('a, errno, unit) act"
    by (auto simp: fails_def act_then_def act_err_def noting_def done_with_def split: prod.splits sum.splits)
  show ?thesis
    unfolding publish_bound_def Let_def logged_simps
    by (intro fails_act_then absorbs_keeps logging rename) simp_all
qed

lemma bound_remove_log:
  assumes "bound_remove (logged os) b wl = (r, wl')" "se_dev (be_entry b) = fc_dev f" "se_ino (be_entry b) = fc_ino f"
  shows "\<exists>found. snd wl' = snd wl @ [EvLook (be_name b) found] \<or>
    (\<exists>g. found = Ok g \<and> fc_kind g = KSocket \<and> same_entry f g \<and>
      snd wl' = snd wl @ [EvLook (be_name b) found, EvUnlink (be_name b)])"
proof -
  obtain found wl1 where look: "stat_at (logged os) (pd_dir (be_dir b)) (be_name b) wl = (found, wl1)"
    by (cases "stat_at (logged os) (pd_dir (be_dir b)) (be_name b) wl") auto
  note log = stat_at_logged [OF look]
  show ?thesis
  proof (cases found)
    case (Inl errno)
    with assms(1) look log show ?thesis by (auto simp: bound_remove_def)
  next
    case (Inr g)
    with assms look log show ?thesis
      by (cases "os_unlink_at os (pd_dir (be_dir b)) (be_name b) (fst wl1)"; cases "fst (os_unlink_at os (pd_dir (be_dir b)) (be_name b) (fst wl1))")
        (auto simp: bound_remove_def noting_def same_entry_def split: if_splits)
  qed
qed

text \<open>The look at the temporary and what follows, the drop included.\<close>

lemma look_and_drop_fails:
  assumes "\<And>f. fails (list_all keeps_names) (m f)"
  shows "fails (withdrawn owner) (act_then (attempt_of (stat_at (logged os) d t)) (\<lambda>found.
    case found of
      Err _ \<Rightarrow> fail_with why
    | Ok f \<Rightarrow>
        if fc_kind f = KSocket \<and> fc_uid f = owner then
          or_drop (logged os) \<lparr>be_dir = dir, be_name = t,
            be_entry = \<lparr>se_path = p, se_dev = fc_dev f, se_ino = fc_ino f\<rparr>, be_removed = False\<rparr> (m f)
        else fail_with why))"
  unfolding fails_def
proof (intro allI impI)
  fix wl e wl'
  assume failed: "act_then (attempt_of (stat_at (logged os) d t)) (\<lambda>found.
    case found of
      Err _ \<Rightarrow> fail_with why
    | Ok f \<Rightarrow>
        if fc_kind f = KSocket \<and> fc_uid f = owner then
          or_drop (logged os) \<lparr>be_dir = dir, be_name = t,
            be_entry = \<lparr>se_path = p, se_dev = fc_dev f, se_ino = fc_ino f\<rparr>, be_removed = False\<rparr> (m f)
        else fail_with why) wl = (Err e, wl')"
  obtain found wl1 where look: "stat_at (logged os) d t wl = (found, wl1)" by (cases "stat_at (logged os) d t wl") auto
  note log = stat_at_logged [OF look]
  show "\<exists>log. snd wl' = snd wl @ log \<and> withdrawn owner log"
  proof (cases "\<exists>f. found = Ok f \<and> fc_kind f = KSocket \<and> fc_uid f = owner")
    case False
    with failed look have "wl' = wl1"
      by (auto simp: act_then_def attempt_of_def fail_with_def split: sum.splits if_splits)
    with log absorbs_withdrawn [of owner] show ?thesis unfolding absorbs_def by force
  next
    case True
    then obtain f where f: "found = Ok f" "fc_kind f = KSocket" "fc_uid f = owner" by blast
    let ?b = "\<lparr>be_dir = dir, be_name = t, be_entry = \<lparr>se_path = p, se_dev = fc_dev f, se_ino = fc_ino f\<rparr>, be_removed = False\<rparr>"
    obtain r wl2 where m: "m f wl1 = (r, wl2)" by (cases "m f wl1") auto
    obtain out wl3 where removed: "bound_remove (logged os) ?b wl2 = (out, wl3)" by (cases "bound_remove (logged os) ?b wl2") auto
    from failed look f m removed have r: "r = Err e" "wl' = wl3"
      by (auto simp: act_then_def attempt_of_def or_drop_def split: sum.splits)
    with assms [of f] m obtain ext where ext: "snd wl2 = snd wl1 @ ext" "list_all keeps_names ext" unfolding fails_def by blast
    let ?pre = "EvLook t found # ext"
    from bound_remove_log [OF removed, of f] obtain looked where last: "snd wl3 = snd wl2 @ [EvLook t looked] \<or>
      (\<exists>g. looked = Ok g \<and> fc_kind g = KSocket \<and> same_entry f g \<and> snd wl3 = snd wl2 @ [EvLook t looked, EvUnlink t])"
      by auto
    have "list_all keeps_names ?pre" "list_all keeps_names (?pre @ [EvLook t looked])" using ext(2) by simp_all
    then have "withdrawn owner (?pre @ [EvLook t looked])" unfolding withdrawn_def by blast
    moreover have "withdrawn owner (?pre @ [EvLook t (Ok g), EvUnlink t])" if "fc_kind g = KSocket" "same_entry f g" for g
      using that f ext(2) unfolding withdrawn_def by (intro exI [of _ ?pre]) auto
    ultimately show ?thesis using last log ext(1) r(2) by auto
  qed
qed

lemma publish_fails: "fails (withdrawn owner) (publish (logged os) dir name owner draw)"
proof -
  have checked_look: "fails (withdrawn owner) (act_then (attempt_of (stat_at (logged os) d t)) (\<lambda>found.
    case found of
      Err _ \<Rightarrow> fail_with why
    | Ok f \<Rightarrow>
        if fc_kind f = KSocket \<and> fc_uid f = owner then
          or_drop (logged os) \<lparr>be_dir = dir, be_name = t,
            be_entry = \<lparr>se_path = p, se_dev = fc_dev f, se_ino = fc_ino f\<rparr>, be_removed = False\<rparr>
            (publish_bound (logged os) \<lparr>be_dir = dir, be_name = t,
            be_entry = \<lparr>se_path = p, se_dev = fc_dev f, se_ino = fc_ino f\<rparr>, be_removed = False\<rparr> sock recheck c path owner)
        else fail_with why))" for d t why p sock recheck c path
    by (rule look_and_drop_fails) (rule publish_bound_fails)
  have [simp]: "fails (withdrawn owner) (fail_with e)" for e :: private_socket_error
    by (intro fails_logs absorbs_withdrawn logging)
  show ?thesis
    unfolding publish_def Let_def
    by (intro fails_act_then absorbs_withdrawn fails_branches checked_look logging logs_look_keeps) (simp_all add: logging)
qed

text \<open>
  C22. Only a private, listening socket is ever published. Whatever other processes do between the calls, a
  publication that succeeds found nothing at the name, bound its socket at another name of the same private
  directory, found it there as the user's socket, set its mode, found the same entry again with mode 0600,
  made it listen, and only then renamed it to the name; one that fails renamed nothing, and removed at most
  an entry that is still the socket of the user that it had found at its temporary name.\<close>

theorem publish_shows_only_private:
  assumes "publish (logged os) dir name owner draw (w, []) = (r, w', log)"
  shows "case r of
      Ok (l, b) \<Rightarrow> \<exists>t f. published (pd_path dir) name owner t f log \<and> be_name b = name \<and>
        be_entry b = \<lparr>se_path = push_path (pd_path dir) name, se_dev = fc_dev f, se_ino = fc_ino f\<rparr>
    | Err e \<Rightarrow> withdrawn owner log"
proof (cases r)
  case (Inl e)
  with assms publish_fails [of owner os dir name draw] show ?thesis by (fastforce simp: fails_def)
next
  case (Inr lb)
  with assms obtain l b where "publish (logged os) dir name owner draw (w, []) = (Ok (l, b), w', log)" "lb = (l, b)"
    by (cases lb) auto
  with publish_Ok_log [OF this(1)] Inr show ?thesis by auto
qed

section \<open>A publication\<close>

definition demo_private :: "nat private_dir" where
  "demo_private = \<lparr>pd_path = ascii ''/r/p'', pd_dir = 2, pd_identity = \<lparr>di_dev = 1, di_ino = 2\<rparr>,
     pd_walk = \<lparr>wk_start = 0, wk_start_path = ascii ''/'', wk_components = [ascii ''r'', ascii ''p'']\<rparr>\<rparr>"

lemmas demo_simps = demo_os_def demo_private_def demo_dir_def demo_socket_def facts_of_def identity_of_def

lemma demo_reconfirm: "reconfirm (logged demo_os) demo_private ((), log) = (Ok (), (), log)"
  by (simp add: reconfirm_def open_private_def open_directory_def reach_def pass_dir_def refuse_if_def refuse_acl_def
      refuse_ignored_ownership_def refuse_replacing_acl_def judge_ancestor_def judge_private_def stat_fd_def open_child_def
      act_then_def act_err_def attempt_of_def checked_def done_with_def quietly_def Let_def demo_simps)

lemma demo_publish:
  "\<exists>lb log. publish (logged demo_os) demo_private (ascii ''new'') 1000 (\<lambda>i room. ascii ''.t'') ((), []) = (Ok lb, (), log)"
proof -
  have os: "os_stat_at demo_os d n = (if n = ascii ''new'' then fail_with ENOENT else done_with demo_socket)"
    "os_socket demo_os = done_with 7" "os_bind demo_os f q = done_with ()" "os_chmod_at demo_os d n m nofollow = done_with ()"
    "os_listen demo_os f i = done_with ()" "os_set_nonblocking demo_os f nb = done_with ()" "os_rename_new demo_os d n n' = done_with ()"
    for d n f q m nofollow i nb n' by (simp_all add: demo_os_def)
  have dir: "pd_path demo_private = ascii ''/r/p''" "pd_dir demo_private = 2" by (simp_all add: demo_private_def)
  show ?thesis
    by (simp add: publish_def publish_bound_def or_drop_def restrict_to_owner_def look_again_def judge_socket_def stat_at_def bind_path_def
      entry_name_def address_for_def SUN_PATH_def push_path_def utf8_bytes_def utf8_width_def TEMPORARY_DRAWS_def upt_conv_Cons
      eq_ignore_ascii_case_def to_lower_def act_then_def act_err_def attempt_of_def checked_def done_with_def fail_with_def
      quietly_def noting_def looking_def Let_def ENOENT_def facts_of_def demo_socket_def demo_reconfirm os dir)
qed

theorem publish_shows_only_private_witness:
  "\<exists>t f log. published (ascii ''/r/p'') (ascii ''new'') 1000 t f log"
proof -
  from demo_publish obtain lb log where
    "publish (logged demo_os) demo_private (ascii ''new'') 1000 (\<lambda>i room. ascii ''.t'') ((), []) = (Ok lb, (), log)" by blast
  from publish_shows_only_private [OF this] show ?thesis by (auto simp: demo_private_def split: prod.splits)
qed

end
