(* ===== verification/Strict_Json.thy ===== *)
theory Strict_Json
  imports BTree_Map Utf8
begin

text \<open>
  The records handed between processes are one line of strict JSON:
  \<open>crates/plasmosome-core/src/runtime/strict_json.rs\<close> and \<open>runtime/line.rs\<close>. The reader of JSON is
  \<open>serde_json\<close>'s and a parameter. It reads from left to right and may fail anywhere, so what it gives the
  program is a stream: a value whose parts end in a fault where the reader's own failure lies. Text is its
  UTF-8 bytes. A float is its text and whether it is finite.
\<close>

section \<open>What the reader delivers\<close>

record json_fault =
  jf_line :: nat
  jf_column :: nat
  jf_reason :: string

datatype jraw =
    RwNull
  | RwBool bool
  | RwUnsigned u64
  | RwSigned u64
  | RwFloat string "json_fault option"
  | RwString string
  | RwArray "jraw list" "json_fault option"
  | RwObject "(string \<times> jraw) list" "json_fault option"
  | RwFault json_fault

text \<open>The value that starts a text, and what \<open>Deserializer::end\<close> says of the rest.\<close>

type_synonym json_reader = "string \<Rightarrow> jraw \<times> json_fault option"

datatype sjson =
    SjNull
  | SjBool bool
  | SjUnsigned u64
  | SjSigned u64
  | SjFloat string
  | SjString string
  | SjArray "sjson list"
  | SjObject "(string \<times> sjson) list"

section \<open>Where a value stands\<close>

datatype location = LcRoot | LcKey location string | LcIndex location nat

definition replace_char :: "char \<Rightarrow> string \<Rightarrow> string \<Rightarrow> string" where
  "replace_char c by s = concat (map (\<lambda>d. if d = c then by else [d]) s)"

fun location_pointer :: "location \<Rightarrow> string" where
  "location_pointer LcRoot = []"
| "location_pointer (LcKey parent key) =
     location_pointer parent @ CHR ''/'' # replace_char (CHR ''/'') ''~1'' (replace_char (CHR ''~'') ''~0'' key)"
| "location_pointer (LcIndex parent index) = location_pointer parent @ CHR ''/'' # show_nat index"

fun location_dotted :: "location \<Rightarrow> string" where
  "location_dotted LcRoot = []"
| "location_dotted (LcKey LcRoot key) = key"
| "location_dotted (LcKey parent key) = location_dotted parent @ CHR ''.'' # key"
| "location_dotted (LcIndex parent index) = location_dotted parent @ CHR ''['' # show_nat index @ '']''"

section \<open>Reading strictly\<close>

datatype strict_error = NotJson nat nat string | DuplicateKey string string

definition not_json :: "json_fault \<Rightarrow> strict_error" where
  "not_json f = NotJson (jf_line f) (jf_column f) (jf_reason f)"

fun fault_end :: "json_fault option \<Rightarrow> 'a \<Rightarrow> strict_error + 'a" where
  "fault_end None a = Ok a"
| "fault_end (Some f) a = Err (not_json f)"

text \<open>\<open>Strict::deserialize\<close> with its visitor; \<open>seen\<close> holds the entries read before.\<close>

fun strict :: "location \<Rightarrow> jraw \<Rightarrow> strict_error + sjson"
  and strict_items :: "location \<Rightarrow> nat \<Rightarrow> jraw list \<Rightarrow> strict_error + sjson list"
  and strict_entries :: "location \<Rightarrow> (string \<times> sjson) list \<Rightarrow> (string \<times> jraw) list \<Rightarrow> strict_error + (string \<times> sjson) list"
where
  "strict at RwNull = Ok SjNull"
| "strict at (RwBool b) = Ok (SjBool b)"
| "strict at (RwUnsigned n) = Ok (SjUnsigned n)"
| "strict at (RwSigned n) = Ok (SjSigned n)"
| "strict at (RwFloat t bad) = fault_end bad (SjFloat t)"
| "strict at (RwString s) = Ok (SjString s)"
| "strict at (RwArray items stop) =
     and_then (strict_items at 0 items) (\<lambda>vs. fault_end stop (SjArray vs))"
| "strict at (RwObject es stop) =
     and_then (strict_entries at [] es) (\<lambda>read. fault_end stop (SjObject read))"
| "strict at (RwFault f) = Err (not_json f)"
| "strict_items at i [] = Ok []"
| "strict_items at i (r # rs) =
     and_then (strict (LcIndex at i) r) (\<lambda>v. and_then (strict_items at (Suc i) rs) (\<lambda>vs. Ok (v # vs)))"
| "strict_entries at seen [] = Ok seen"
| "strict_entries at seen ((key, r) # es) =
     (if key \<in> fst ` set seen
      then Err (DuplicateKey (location_pointer (LcKey at key)) (location_dotted (LcKey at key)))
      else and_then (strict (LcKey at key) r) (\<lambda>v. strict_entries at (put_entry key v seen) es))"

definition strict_parse :: "json_reader \<Rightarrow> string \<Rightarrow> strict_error + sjson" where
  "strict_parse rd bytes =
     (case rd bytes of (raw, rest) \<Rightarrow> and_then (strict LcRoot raw) (\<lambda>v. fault_end rest v))"

section \<open>One line\<close>

definition MAX_RECORD_BYTES :: nat where "MAX_RECORD_BYTES = 1048576"

datatype line_fault =
    LnNotOneLine
  | LnTooLarge nat
  | LnNotUtf8
  | LnNotJson string
  | LnDuplicateKey string

fun line_fault_of :: "strict_error \<Rightarrow> line_fault" where
  "line_fault_of (DuplicateKey path field) = LnDuplicateKey field"
| "line_fault_of (NotJson line column reason) =
     LnNotJson (reason @ '' at line '' @ show_nat line @ '', column '' @ show_nat column)"

definition read_record_line :: "json_reader \<Rightarrow> string \<Rightarrow> line_fault + sjson" where
  "read_record_line rd rec =
     (if rec = [] \<or> last rec \<noteq> CHR 0x0A then Err LnNotOneLine
      else
        let body = butlast rec in
        if list_ex (\<lambda>b. b = CHR 0x0A \<or> b = CHR 0x0D) body then Err LnNotOneLine
        else if length body > MAX_RECORD_BYTES then Err (LnTooLarge (length body))
        else if \<not> is_ok (from_utf8 0 (map of_char body)) then Err LnNotUtf8
        else map_err line_fault_of (strict_parse rd body))"

section \<open>What is read has no repeated key\<close>

text \<open>The raw value read whole: no fault in it and no key twice in one object, at any depth.\<close>

fun unfaulted :: "jraw \<Rightarrow> bool" where
  "unfaulted (RwArray items stop) = (list_all unfaulted items \<and> stop = None)"
| "unfaulted (RwObject es stop) = (list_all (\<lambda>e. unfaulted (snd e)) es \<and> distinct (map fst es) \<and> stop = None)"
| "unfaulted (RwFloat t bad) = (bad = None)"
| "unfaulted (RwFault f) = False"
| "unfaulted _ = True"

fun whole :: "jraw \<Rightarrow> sjson" where
  "whole RwNull = SjNull"
| "whole (RwBool b) = SjBool b"
| "whole (RwUnsigned n) = SjUnsigned n"
| "whole (RwSigned n) = SjSigned n"
| "whole (RwFloat t bad) = SjFloat t"
| "whole (RwString s) = SjString s"
| "whole (RwArray items stop) = SjArray (map whole items)"
| "whole (RwObject es stop) = SjObject (fold (\<lambda>e. put_entry (fst e) (whole (snd e))) es [])"
| "whole (RwFault f) = SjNull"

lemma fault_end_Ok: "fault_end stop a = Ok b \<longleftrightarrow> stop = None \<and> b = a"
  by (cases stop) auto

lemma strict_Ok:
  "strict at r = Ok v \<longleftrightarrow> unfaulted r \<and> v = whole r"
  "strict_items at i rs = Ok vs \<longleftrightarrow> list_all unfaulted rs \<and> vs = map whole rs"
  "strict_entries at seen es = Ok read \<longleftrightarrow>
     list_all (\<lambda>e. unfaulted (snd e)) es \<and> distinct (map fst es) \<and> fst ` set es \<inter> fst ` set seen = {} \<and>
     read = fold (\<lambda>e. put_entry (fst e) (whole (snd e))) es seen"
proof (induction at r and at i rs and at seen es arbitrary: v and vs and read
    rule: strict_strict_items_strict_entries.induct)
  case (13 at seen key r es)
  then show ?case by (auto simp: and_then_eq_Inr set_put_entry)
qed (auto simp: and_then_eq_Inr fault_end_Ok)

lemma strict_parse_Ok:
  "strict_parse rd bytes = Ok v \<longleftrightarrow> (\<exists>raw. rd bytes = (raw, None) \<and> unfaulted raw \<and> v = whole raw)"
  by (auto simp: strict_parse_def and_then_eq_Inr fault_end_Ok strict_Ok split: prod.split)

lemma read_record_line_Ok:
  "read_record_line rd rec = Ok v \<longleftrightarrow>
     (\<exists>body. rec = body @ [CHR 0x0A] \<and> CHR 0x0A \<notin> set body \<and> CHR 0x0D \<notin> set body \<and>
       length body \<le> MAX_RECORD_BYTES \<and> is_ok (from_utf8 0 (map of_char body)) \<and> strict_parse rd body = Ok v)"
proof (cases "rec = [] \<or> last rec \<noteq> CHR 0x0A")
  case False
  then have rec: "rec = butlast rec @ [CHR 0x0A]" by (metis append_butlast_last_id)
  have "(\<exists>body. rec = body @ [CHR 0x0A] \<and> P body) \<longleftrightarrow> P (butlast rec)" for P
    using rec by (metis butlast_snoc)
  with False show ?thesis
    by (auto simp: read_record_line_def Let_def list_ex_iff map_err_eq_Inr)
qed (auto simp: read_record_line_def)

end
