(* ===== verification/Cell_Marker.thy ===== *)
theory Cell_Marker
  imports Strict_Json Cell_Names Lifetime
begin

text \<open>
  Cell numbers, \<open>crates/plasmosome-core/src/runtime/cell_id.rs\<close>, and the \<open>launched\<close> marker of
  \<open>crates/plasmosome-core/src/instance.rs\<close>: its one line and its reader. Writing a string as JSON, reading
  JSON and the text of a UUID are parameters.
\<close>

section \<open>Cell numbers\<close>

definition CELL_ID_PREFIX :: string where "CELL_ID_PREFIX = ''cell-''"

definition MAX_CELL_DIGITS :: nat where "MAX_CELL_DIGITS = 10"

definition MAX_CELL_NUMBER :: nat where "MAX_CELL_NUMBER = 9999999999"

text \<open>\<open>str::parse\<close> of at most ten digits, which a \<open>u64\<close> always holds.\<close>

definition parse_decimal :: "string \<Rightarrow> nat" where
  "parse_decimal digits = foldl (\<lambda>n c. n * 10 + (byte_of c - 48)) 0 digits"

definition parse_cell_id :: "string \<Rightarrow> nat option" where
  "parse_cell_id txt =
     (case strip_prefix CELL_ID_PREFIX txt of
        None \<Rightarrow> None
      | Some digits \<Rightarrow>
          if 1 \<le> length digits \<and> length digits \<le> MAX_CELL_DIGITS \<and> list_all is_ascii_digit digits \<and>
             hd digits \<noteq> CHR ''0''
          then Some (parse_decimal digits) else None)"

definition format_cell_id :: "nat \<Rightarrow> cell_id" where
  "format_cell_id number = CELL_ID_PREFIX @ show_nat number"

text \<open>
  \<open>listed_cell_number\<close> and \<open>parse_cell_name\<close> of \<open>instance.rs\<close>, on the bytes of a name.
\<close>

definition listed_cell_number :: "string \<Rightarrow> nat option" where
  "listed_cell_number name =
     (if length name < length CELL_ID_PREFIX then None
      else
        let lowered = map to_ascii_lowercase (take (length CELL_ID_PREFIX) name) @ drop (length CELL_ID_PREFIX) name in
        if is_ok (from_utf8 0 (map of_char lowered)) then parse_cell_id lowered else None)"

definition parse_cell_name :: "string \<Rightarrow> cell_id option" where
  "parse_cell_name raw =
     (if is_ok (from_utf8 0 (map of_char raw)) \<and> is_ok (validate_cell_id raw) then Some raw else None)"

lemma digit_char_byte: "d < 10 \<Longrightarrow> byte_of (digit_char d) = 48 + d"
  by (simp add: digit_char_def byte_of_def)

lemma parse_decimal_show: "parse_decimal (show_nat n) = n"
proof (induction n rule: show_nat.induct)
  case (1 n)
  then show ?case
    by (cases "n < 10") (simp_all add: show_nat.simps [of n] parse_decimal_def digit_char_byte)
qed

lemma show_nat_all_digits: "list_all is_ascii_digit (show_nat n)"
proof (induction n rule: show_nat.induct)
  case (1 n)
  then show ?case
    by (cases "n < 10") (simp_all add: show_nat.simps [of n] is_ascii_digit_def digit_char_byte)
qed

lemma length_show_nat_bound: "0 < k \<Longrightarrow> n < 10 ^ k \<Longrightarrow> length (show_nat n) \<le> k"
proof (induction n arbitrary: k rule: show_nat.induct)
  case (1 n)
  show ?case
  proof (cases "n < 10")
    case False
    with 1(3) have "k \<noteq> 1" by auto
    with 1(2) obtain k' where k: "k = Suc k'" "0 < k'" by (cases k) auto
    with 1(3) have "n div 10 < 10 ^ k'" by (simp add: less_mult_imp_div_less mult.commute)
    with 1(1) [OF False k(2)] show ?thesis using False k by (simp add: show_nat.simps [of n])
  qed (use 1(2) in \<open>simp add: show_nat.simps [of n]\<close>)
qed

lemma hd_show_nat: "0 < n \<Longrightarrow> show_nat n \<noteq> [] \<and> hd (show_nat n) \<noteq> CHR ''0''"
proof (induction n rule: show_nat.induct)
  case (1 n)
  show ?case
  proof (cases "n < 10")
    case True
    have "digit_char n \<noteq> CHR ''0''"
    proof
      assume "digit_char n = CHR ''0''"
      then have "byte_of (digit_char n) = 48" by (simp add: byte_of_def)
      with digit_char_byte [OF True] 1(2) show False by simp
    qed
    with True show ?thesis by (simp add: show_nat.simps [of n])
  next
    case False
    with 1(1) [OF False] show ?thesis by (simp add: show_nat.simps [of n])
  qed
qed

lemma parse_format_cell_id:
  assumes "1 \<le> n" "n \<le> MAX_CELL_NUMBER"
  shows "parse_cell_id (format_cell_id n) = Some n"
proof -
  have "length (show_nat n) \<le> 10"
    by (rule length_show_nat_bound) (use assms in \<open>simp_all add: MAX_CELL_NUMBER_def\<close>)
  moreover have "1 \<le> length (show_nat n)" using hd_show_nat [of n] assms(1) by (cases "show_nat n") auto
  ultimately show ?thesis
    using hd_show_nat [of n] assms(1) show_nat_all_digits [of n] strip_prefix_Some [of CELL_ID_PREFIX]
    by (simp add: parse_cell_id_def format_cell_id_def MAX_CELL_DIGITS_def parse_decimal_show split: option.split)
qed

text \<open>A name that is written from a number is counted as that number.\<close>

lemma lower_prefix: "map to_ascii_lowercase CELL_ID_PREFIX = CELL_ID_PREFIX"
  by (simp add: CELL_ID_PREFIX_def to_ascii_lowercase_def is_ascii_uppercase_def byte_of_def)

lemma format_valid: "is_ok (validate_cell_id (format_cell_id n))"
proof -
  have "c \<notin> {CHR ''/'', CHR 0x5C, NUL}" if "c \<in> set (show_nat n)" for c
    using that show_nat_all_digits [of n] by (auto simp: list_all_iff is_ascii_digit_def byte_of_def)
  then show ?thesis
    by (auto simp: is_ok_unit validate_cell_id_Ok format_cell_id_def CELL_ID_PREFIX_def)
qed

section \<open>The marker\<close>

definition MAX_MARKER_BYTES :: nat where "MAX_MARKER_BYTES = 4096"

record launched_marker =
  lm_cell :: cell_id
  lm_boot_session :: boot_session
  lm_stopped :: bool

text \<open>What the marker's text rests on in other crates.\<close>

record marker_codec =
  mc_reader :: json_reader
  mc_string :: "string \<Rightarrow> string"
  mc_try_parse :: "string \<Rightarrow> u128 option"
  mc_uuid_text :: "u128 \<Rightarrow> string"

datatype io_fault = Errno int | InvalidInput | OtherIo string

text \<open>A reason is its text, or the key it shows as Rust's \<open>{:?}\<close> does.\<close>

datatype malformed = MalText string | MalRepeatedKey string | MalUnknownKey string

datatype marker_fault =
    MfAcl
  | MfSymlink
  | MfNotRegular
  | MkTooLarge
  | MfIoFault io_fault
  | MfMalformed malformed
  | MfWrongCell cell_id

definition DQUOTE :: string where "DQUOTE = [CHR 0x22]"

definition marker_body :: "marker_codec \<Rightarrow> launched_marker \<Rightarrow> string" where
  "marker_body c m =
     ''{'' @ DQUOTE @ ''cell'' @ DQUOTE @ '':'' @ mc_string c (lm_cell m) @ '','' @ DQUOTE @ ''boot_session'' @ DQUOTE @ '':'' @
     DQUOTE @ mc_uuid_text c (lm_boot_session m) @ DQUOTE @
     (if lm_stopped m then '','' @ DQUOTE @ ''stopped'' @ DQUOTE @ '':true'' else []) @ ''}''"

definition marker_encode :: "marker_codec \<Rightarrow> launched_marker \<Rightarrow> string" where
  "marker_encode c m = marker_body c m @ [CHR 0x0A]"

fun marker_line_fault :: "line_fault \<Rightarrow> marker_fault" where
  "marker_line_fault LnNotOneLine = MfMalformed (MalText ''the record is not one line ending in a newline'')"
| "marker_line_fault (LnTooLarge n) = MkTooLarge"
| "marker_line_fault LnNotUtf8 = MfMalformed (MalText ''the record is not UTF-8'')"
| "marker_line_fault (LnNotJson detail) = MfMalformed (MalText (''not JSON: '' @ detail))"
| "marker_line_fault (LnDuplicateKey field) = MfMalformed (MalRepeatedKey field)"

definition MARKER_KEYS :: "string list" where "MARKER_KEYS = [''cell'', ''boot_session'', ''stopped'']"

fun cell_entry :: "sjson option \<Rightarrow> marker_fault + cell_id" where
  "cell_entry (Some (SjString txt)) =
     (if parse_cell_id txt \<noteq> None then Ok txt else Err (MfMalformed (MalText ''`cell` is not a cell ID'')))"
| "cell_entry (Some _) = Err (MfMalformed (MalText ''`cell` is not a cell ID''))"
| "cell_entry None = Err (MfMalformed (MalText ''`cell` is missing''))"

fun boot_entry :: "marker_codec \<Rightarrow> sjson option \<Rightarrow> marker_fault + boot_session" where
  "boot_entry c (Some (SjString txt)) =
     (case boot_session_parse (mc_try_parse c) txt of
        Some session \<Rightarrow>
          if mc_uuid_text c session = txt then Ok session
          else Err (MfMalformed (MalText ''`boot_session` is not a lowercase hyphenated UUID''))
      | None \<Rightarrow> Err (MfMalformed (MalText ''`boot_session` is not a lowercase hyphenated UUID'')))"
| "boot_entry c (Some _) = Err (MfMalformed (MalText ''`boot_session` is not a string''))"
| "boot_entry c None = Err (MfMalformed (MalText ''`boot_session` is missing''))"

fun stopped_entry :: "sjson option \<Rightarrow> marker_fault + bool" where
  "stopped_entry None = Ok False"
| "stopped_entry (Some (SjBool True)) = Ok True"
| "stopped_entry (Some _) = Err (MfMalformed (MalText ''`stopped` is present but not true''))"

definition marker_decode :: "marker_codec \<Rightarrow> string \<Rightarrow> marker_fault + launched_marker" where
  "marker_decode c bytes =
     (if length bytes > MAX_MARKER_BYTES then Err MkTooLarge
      else and_then (map_err marker_line_fault (read_record_line (mc_reader c) bytes)) (\<lambda>v.
        case v of
          SjObject es \<Rightarrow>
            (case find (\<lambda>e. fst e \<notin> set MARKER_KEYS) es of
               Some e \<Rightarrow> Err (MfMalformed (MalUnknownKey (fst e)))
             | None \<Rightarrow>
                 and_then (cell_entry (map_of es ''cell'')) (\<lambda>cell.
                 and_then (boot_entry c (map_of es ''boot_session'')) (\<lambda>session.
                 and_then (stopped_entry (map_of es ''stopped'')) (\<lambda>stopped.
                 Ok \<lparr>lm_cell = cell, lm_boot_session = session, lm_stopped = stopped\<rparr>))))
        | _ \<Rightarrow> Err (MfMalformed (MalText ''the record is not a JSON object''))))"

section \<open>What the crates document\<close>

text \<open>
  The texts of the simplest JSON objects: members whose names are plain, printable ASCII without a quote or a
  backslash, and whose values are such texts or \<open>true\<close>.
\<close>

datatype plain_value = PlainText string | PlainTrue

definition plain_char :: "char \<Rightarrow> bool" where
  "plain_char x \<longleftrightarrow> 32 \<le> byte_of x \<and> byte_of x < 127 \<and> x \<noteq> CHR 0x22 \<and> x \<noteq> CHR 0x5C"

fun plain_member :: "string \<times> plain_value \<Rightarrow> bool" where
  "plain_member (key, PlainText s) = (list_all plain_char key \<and> list_all plain_char s)"
| "plain_member (key, PlainTrue) = list_all plain_char key"

fun plain_value_text :: "plain_value \<Rightarrow> string" where
  "plain_value_text (PlainText s) = DQUOTE @ s @ DQUOTE"
| "plain_value_text PlainTrue = ''true''"

definition plain_member_text :: "string \<times> plain_value \<Rightarrow> string" where
  "plain_member_text e = DQUOTE @ fst e @ DQUOTE @ '':'' @ plain_value_text (snd e)"

definition plain_object_text :: "(string \<times> plain_value) list \<Rightarrow> string" where
  "plain_object_text es = ''{'' @ join_with CHR '','' (map plain_member_text es) @ ''}''"

fun plain_raw :: "plain_value \<Rightarrow> jraw" where
  "plain_raw (PlainText s) = RwString s"
| "plain_raw PlainTrue = RwBool True"

text \<open>
  \<open>serde_json\<close>: such an object is read as its members in their order, and a plain text is written between
  quotes. \<open>uuid\<close>: a UUID is written as 36 digits, letters and hyphens, and that text parses to it.
\<close>

definition reads_plain_objects :: "json_reader \<Rightarrow> bool" where
  "reads_plain_objects rd \<longleftrightarrow>
     (\<forall>es. list_all plain_member es \<longrightarrow>
       rd (plain_object_text es) = (RwObject (map (\<lambda>e. (fst e, plain_raw (snd e))) es) None, None))"

definition quotes_plain_text :: "(string \<Rightarrow> string) \<Rightarrow> bool" where
  "quotes_plain_text wr \<longleftrightarrow> (\<forall>s. list_all plain_char s \<longrightarrow> wr s = DQUOTE @ s @ DQUOTE)"

definition uuid_reads_back :: "marker_codec \<Rightarrow> u128 \<Rightarrow> bool" where
  "uuid_reads_back c u \<longleftrightarrow>
     length (mc_uuid_text c u) = 36 \<and> list_all plain_char (mc_uuid_text c u) \<and>
     mc_try_parse c (mc_uuid_text c u) = Some u"

definition faithful_marker_codec :: "marker_codec \<Rightarrow> u128 \<Rightarrow> bool" where
  "faithful_marker_codec c u \<longleftrightarrow>
     reads_plain_objects (mc_reader c) \<and> quotes_plain_text (mc_string c) \<and> uuid_reads_back c u"

section \<open>What is written is read\<close>

lemma parse_cell_id_Some:
  "parse_cell_id txt = Some n \<Longrightarrow>
     \<exists>digits. txt = CELL_ID_PREFIX @ digits \<and> list_all is_ascii_digit digits \<and> length digits \<le> 10"
  by (auto simp: parse_cell_id_def strip_prefix_Some MAX_CELL_DIGITS_def split: option.splits if_splits)

lemma from_utf8_ascii: "list_all (\<lambda>x. byte_of x < 128) s \<Longrightarrow> is_ok (from_utf8 0 (map of_char s))"
proof -
  assume *: "list_all (\<lambda>x. byte_of x < 128) s"
  have "utf8_bytes (map of_char s) = map of_char s"
    using * by (induction s) (auto simp: utf8_bytes_def encode_utf8_def byte_of_def)
  moreover have "from_utf8 0 (utf8_bytes (map of_char s)) = Ok (map of_char s)"
    using * by (intro from_utf8_bytes) (auto simp: list_all_iff is_scalar_def byte_of_def)
  ultimately show ?thesis by (simp add: is_ok_def)
qed

text \<open>The members a marker stands for, and the text its encoder gives them.\<close>

definition marker_members :: "marker_codec \<Rightarrow> launched_marker \<Rightarrow> (string \<times> plain_value) list" where
  "marker_members c m =
     [(''cell'', PlainText (lm_cell m)), (''boot_session'', PlainText (mc_uuid_text c (lm_boot_session m)))] @
     (if lm_stopped m then [(''stopped'', PlainTrue)] else [])"

lemma cell_id_plain:
  assumes "parse_cell_id name \<noteq> None"
  shows "list_all plain_char name" "length name \<le> 15"
proof -
  obtain digits where d: "name = CELL_ID_PREFIX @ digits" "list_all is_ascii_digit digits" "length digits \<le> 10"
    using assms parse_cell_id_Some by blast
  then show "list_all plain_char name"
    by (auto simp: CELL_ID_PREFIX_def list_all_iff is_ascii_digit_def plain_char_def byte_of_def)
  show "length name \<le> 15" using d(1,3) by (simp add: CELL_ID_PREFIX_def)
qed

lemma marker_body_text:
  assumes "faithful_marker_codec c (lm_boot_session m)" "parse_cell_id (lm_cell m) \<noteq> None"
  shows "marker_body c m = plain_object_text (marker_members c m)"
    and "list_all plain_member (marker_members c m)"
    and "list_all (\<lambda>x. 32 \<le> byte_of x \<and> byte_of x < 128) (marker_body c m)"
    and "length (marker_body c m) \<le> 100"
proof -
  note cell = cell_id_plain [OF assms(2)]
  from assms(1) cell(1) have s: "mc_string c (lm_cell m) = DQUOTE @ lm_cell m @ DQUOTE"
    and u: "length (mc_uuid_text c (lm_boot_session m)) = 36" "list_all plain_char (mc_uuid_text c (lm_boot_session m))"
    by (simp_all add: faithful_marker_codec_def quotes_plain_text_def uuid_reads_back_def)
  show "marker_body c m = plain_object_text (marker_members c m)"
    by (simp add: marker_body_def s plain_object_text_def marker_members_def plain_member_text_def)
  show "list_all plain_member (marker_members c m)"
    using cell(1) u(2) by (simp add: marker_members_def plain_char_def byte_of_def)
  show "length (marker_body c m) \<le> 100" using u(1) cell(2) by (simp add: marker_body_def s DQUOTE_def)
  have "list_all (\<lambda>x. 32 \<le> byte_of x \<and> byte_of x < 128) z" if "list_all plain_char z" for z
    using that by (rule list.pred_mono_strong) (simp add: plain_char_def)
  with cell(1) u(2) show "list_all (\<lambda>x. 32 \<le> byte_of x \<and> byte_of x < 128) (marker_body c m)"
    by (simp add: marker_body_def s DQUOTE_def byte_of_def)
qed

lemma marker_read:
  assumes "faithful_marker_codec c (lm_boot_session m)" "parse_cell_id (lm_cell m) \<noteq> None"
  shows "mc_reader c (marker_body c m) =
    (RwObject (map (\<lambda>e. (fst e, plain_raw (snd e))) (marker_members c m)) None, None)"
  using assms(1) marker_body_text(1,2) [OF assms] by (simp add: faithful_marker_codec_def reads_plain_objects_def)

lemma marker_roundtrip:
  assumes "faithful_marker_codec c (lm_boot_session m)" "parse_cell_id (lm_cell m) \<noteq> None"
  shows "marker_decode c (marker_encode c m) = Ok m"
proof -
  note body = marker_body_text(3,4) [OF assms]
  have no: "CHR 0x0A \<notin> set (marker_body c m)" "CHR 0x0D \<notin> set (marker_body c m)"
    using body(1) by (auto simp: list_all_iff byte_of_def)
  have "is_ok (from_utf8 0 (map of_char (marker_body c m)))"
    using body(1) by (intro from_utf8_ascii) (auto simp: list_all_iff)
  moreover have "mc_reader c (marker_body c m) =
      (RwObject ([(''cell'', RwString (lm_cell m)),
         (''boot_session'', RwString (mc_uuid_text c (lm_boot_session m)))] @
         (if lm_stopped m then [(''stopped'', RwBool True)] else [])) None, None)"
    using marker_read [OF assms] by (simp add: marker_members_def)
  ultimately obtain es where "read_record_line (mc_reader c) (marker_encode c m) = Ok (SjObject es)"
    and es: "es = fold (\<lambda>e. put_entry (fst e) (whole (snd e)))
      ([(''cell'', RwString (lm_cell m)), (''boot_session'', RwString (mc_uuid_text c (lm_boot_session m)))] @
       (if lm_stopped m then [(''stopped'', RwBool True)] else [])) []"
    using no body(2)
    by (auto simp: read_record_line_Ok marker_encode_def strict_parse_Ok MAX_RECORD_BYTES_def)
  moreover have "length (marker_encode c m) \<le> MAX_MARKER_BYTES"
    using body(2) by (simp add: marker_encode_def MAX_MARKER_BYTES_def)
  moreover have "boot_entry c (Some (SjString (mc_uuid_text c (lm_boot_session m)))) = Ok (lm_boot_session m)"
    using assms(1) by (simp add: faithful_marker_codec_def uuid_reads_back_def boot_session_parse_def)
  moreover have "map_of es ''cell'' = Some (SjString (lm_cell m))"
    "map_of es ''boot_session'' = Some (SjString (mc_uuid_text c (lm_boot_session m)))"
    "map_of es ''stopped'' = (if lm_stopped m then Some (SjBool True) else None)"
    "fst ` set es \<subseteq> set MARKER_KEYS"
    by (auto simp: es map_of_put_entry set_put_entry MARKER_KEYS_def)
  moreover from this(4) have "find (\<lambda>e. fst e \<notin> set MARKER_KEYS) es = None"
    by (auto simp: find_None_iff)
  ultimately show ?thesis using assms(2) by (simp add: marker_decode_def not_less)
qed

end
