(* ===== verification/Instance_Calls.thy ===== *)
theory Instance_Calls
  imports Private_Socket Cell_Marker
begin

text \<open>
  The calls of the operating system that \<open>crates/plasmosome-core/src/instance.rs\<close> makes, and its helpers over
  them: opening, listing and refusing one name of an open directory. A name and a path are bytes; the walk of
  \<open>Nofollow\<close> sees a path's bytes as its text. Every \<open>openat\<close> here refuses a link and closes on exec.
\<close>

section \<open>Calls\<close>

datatype open_access = ReadOnly | WriteOnly | ReadWrite

record open_how =
  oh_access :: open_access
  oh_append :: bool
  oh_create :: bool
  oh_exclusive :: bool
  oh_directory :: bool
  oh_nonblock :: bool

definition plainly :: "open_access \<Rightarrow> open_how" where
  "plainly a = \<lparr>oh_access = a, oh_append = False, oh_create = False, oh_exclusive = False, oh_directory = False,
     oh_nonblock = False\<rparr>"

definition DIRECTORY_FLAGS :: open_how where
  "DIRECTORY_FLAGS = (plainly ReadOnly)\<lparr>oh_directory := True\<rparr>"

definition NEW_FILE_FLAGS :: open_how where
  "NEW_FILE_FLAGS = (plainly WriteOnly)\<lparr>oh_create := True, oh_exclusive := True\<rparr>"

definition file_flags :: "open_how \<Rightarrow> open_how" where
  "file_flags how = how\<lparr>oh_nonblock := True\<rparr>"

definition PRIVATE_FILE :: u32 where "PRIVATE_FILE = 0x180"
definition PRIVATE_DIRECTORY :: u32 where "PRIVATE_DIRECTORY = 0x1C0"

record ('w, 'f) ios =
  io_os :: "('w, 'f) os"
  io_open :: "'f \<Rightarrow> string \<Rightarrow> open_how \<Rightarrow> u32 \<Rightarrow> ('w, errno, 'f) act"
  io_stat_at :: "'f \<Rightarrow> string \<Rightarrow> ('w, errno, stat) act"
  io_read_dir :: "'f \<Rightarrow> ('w, errno, (errno + string) list) act"
  io_mkdir :: "'f \<Rightarrow> string \<Rightarrow> u32 \<Rightarrow> ('w, errno, unit) act"
  io_unlink :: "'f \<Rightarrow> string \<Rightarrow> ('w, errno, unit) act"
  io_rename :: "'f \<Rightarrow> string \<Rightarrow> string \<Rightarrow> ('w, errno, unit) act"
  io_rename_new :: "'f \<Rightarrow> string \<Rightarrow> 'f \<Rightarrow> string \<Rightarrow> ('w, errno, unit) act"
  io_fchmod :: "'f \<Rightarrow> u32 \<Rightarrow> ('w, errno, unit) act"
  io_fchmod_at :: "'f \<Rightarrow> string \<Rightarrow> u32 \<Rightarrow> ('w, errno, unit) act"
  io_flock :: "'f \<Rightarrow> ('w, errno, unit) act"
  io_unlock :: "'f \<Rightarrow> 'w \<Rightarrow> 'w"
  io_fsync :: "'f \<Rightarrow> ('w, errno, unit) act"
  io_write_all :: "'f \<Rightarrow> string \<Rightarrow> ('w, io_fault, unit) act"
  io_read_to_end :: "'f \<Rightarrow> nat \<Rightarrow> ('w, io_fault, string) act"

definition EWOULDBLOCK :: errno where "EWOULDBLOCK = 11"
definition EMFILE :: errno where "EMFILE = 24"
definition ENFILE :: errno where "ENFILE = 23"

fun raw_os_error :: "io_fault \<Rightarrow> errno option" where
  "raw_os_error (Errno n) = Some n"
| "raw_os_error _ = None"

definition out_of_descriptors :: "io_fault \<Rightarrow> bool" where
  "out_of_descriptors e = (raw_os_error e = Some EMFILE \<or> raw_os_error e = Some ENFILE)"

text \<open>What to do when a call fails, and a lock that is released when what follows fails.\<close>

definition or_else :: "('w, 'e, 'a) act \<Rightarrow> ('e \<Rightarrow> ('w, 'd, 'a) act) \<Rightarrow> ('w, 'd, 'a) act" where
  "or_else m h w = (case m w of (Err e, w') \<Rightarrow> h e w' | (Ok a, w') \<Rightarrow> (Ok a, w'))"

definition releasing :: "('w, 'f) ios \<Rightarrow> 'f \<Rightarrow> ('w, 'e, 'a) act \<Rightarrow> ('w, 'e, 'a) act" where
  "releasing ios fd m w = (case m w of (Err e, w') \<Rightarrow> (Err e, io_unlock ios fd w') | (Ok a, w') \<Rightarrow> (Ok a, w'))"

definition c_name :: "string \<Rightarrow> io_fault + string" where
  "c_name name = (if NUL \<in> set name then Err InvalidInput else Ok name)"

definition open_name :: "('w, 'f) ios \<Rightarrow> 'f \<Rightarrow> string \<Rightarrow> open_how \<Rightarrow> u32 \<Rightarrow> ('w, io_fault, 'f) act" where
  "open_name ios dir name how mode = act_err Errno (io_open ios dir name how mode)"

definition make_directory_at :: "('w, 'f) ios \<Rightarrow> 'f \<Rightarrow> string \<Rightarrow> ('w, io_fault, unit) act" where
  "make_directory_at ios parent name = act_err Errno (io_mkdir ios parent name PRIVATE_DIRECTORY)"

definition remove_at :: "('w, 'f) ios \<Rightarrow> 'f \<Rightarrow> string \<Rightarrow> ('w, io_fault, unit) act" where
  "remove_at ios dir name = act_err Errno (io_unlink ios dir name)"

definition rename_at :: "('w, 'f) ios \<Rightarrow> 'f \<Rightarrow> string \<Rightarrow> string \<Rightarrow> ('w, io_fault, unit) act" where
  "rename_at ios dir from to = act_err Errno (io_rename ios dir from to)"

definition rename_no_replace :: "('w, 'f) ios \<Rightarrow> 'f \<Rightarrow> string \<Rightarrow> 'f \<Rightarrow> string \<Rightarrow> ('w, io_fault, unit) act" where
  "rename_no_replace ios from name to to_name = act_err Errno (io_rename_new ios from name to to_name)"

definition change_mode :: "('w, 'f) ios \<Rightarrow> 'f \<Rightarrow> u32 \<Rightarrow> ('w, io_fault, unit) act" where
  "change_mode ios fd mode = act_err Errno (io_fchmod ios fd mode)"

definition change_mode_at :: "('w, 'f) ios \<Rightarrow> 'f \<Rightarrow> string \<Rightarrow> u32 \<Rightarrow> ('w, io_fault, unit) act" where
  "change_mode_at ios dir name mode = act_err Errno (io_fchmod_at ios dir name mode)"

definition lock_exclusive_nonblocking :: "('w, 'f) ios \<Rightarrow> 'f \<Rightarrow> ('w, io_fault, unit) act" where
  "lock_exclusive_nonblocking ios file = act_err Errno (io_flock ios file)"

definition sync_directory :: "('w, 'f) ios \<Rightarrow> 'f \<Rightarrow> ('w, io_fault, unit) act" where
  "sync_directory ios dir = act_err Errno (act_then (os_dup (io_os ios) dir) (io_fsync ios))"

definition set_blocking :: "('w, 'f) ios \<Rightarrow> 'f \<Rightarrow> ('w, io_fault, unit) act" where
  "set_blocking ios file = act_err Errno (os_clear_nonblocking (io_os ios) file)"

definition carries_acl :: "('w, 'f) ios \<Rightarrow> 'f \<Rightarrow> ('w, io_fault, bool) act" where
  "carries_acl ios fd = act_err (\<lambda>(op, errno). Errno errno) (os_acl_present (io_os ios) fd)"

definition stat_of :: "('w, 'f) ios \<Rightarrow> 'f \<Rightarrow> ('w, io_fault, stat) act" where
  "stat_of ios fd = act_err Errno (os_fstat (io_os ios) fd)"

definition stat_name :: "('w, 'f) ios \<Rightarrow> 'f \<Rightarrow> string \<Rightarrow> ('w, io_fault, stat) act" where
  "stat_name ios dir name = act_err Errno (io_stat_at ios dir name)"

text \<open>\<open>File::metadata().is_file()\<close>.\<close>

definition is_regular :: "('w, 'f) ios \<Rightarrow> 'f \<Rightarrow> ('w, io_fault, bool) act" where
  "is_regular ios file = act_then (stat_of ios file) (\<lambda>s. done_with (fc_kind (facts_of s) = KRegular))"

section \<open>Names\<close>

datatype inode_kind = IsDirectory | IsSymlink | IsRegular | IsOther

definition kind_at :: "('w, 'f) ios \<Rightarrow> 'f \<Rightarrow> string \<Rightarrow> ('w, io_fault, inode_kind) act" where
  "kind_at ios dir name =
     act_then (stat_name ios dir name) (\<lambda>s. done_with (case fc_kind (facts_of s) of
       KDirectory \<Rightarrow> IsDirectory | KSymlink \<Rightarrow> IsSymlink | KRegular \<Rightarrow> IsRegular | _ \<Rightarrow> IsOther))"

text \<open>\<open>DirectoryStream\<close>: every name but the directory's own two, each with the error it met.\<close>

definition list_dir :: "('w, 'f) ios \<Rightarrow> 'f \<Rightarrow> ('w, io_fault, (io_fault + string) list) act" where
  "list_dir ios dir =
     act_then (act_err Errno (io_read_dir ios dir)) (\<lambda>names.
     done_with (map (map_sum Errno id) (filter (\<lambda>n. n \<noteq> Ok ''.'' \<and> n \<noteq> Ok ''..'') names)))"

fun collect_names :: "('e + 'a) list \<Rightarrow> 'e + 'a list" where
  "collect_names [] = Ok []"
| "collect_names (n # rest) = and_then n (\<lambda>a. and_then (collect_names rest) (\<lambda>as. Ok (a # as)))"

fun listing_has :: "string \<Rightarrow> (io_fault + string) list \<Rightarrow> io_fault + bool" where
  "listing_has name [] = Ok False"
| "listing_has name (n # rest) = and_then n (\<lambda>a. if a = name then Ok True else listing_has name rest)"

definition lists_exactly :: "('w, 'f) ios \<Rightarrow> 'f \<Rightarrow> string \<Rightarrow> ('w, io_fault, bool) act" where
  "lists_exactly ios dir name = act_then (list_dir ios dir) (\<lambda>ns. checked (listing_has name ns))"

datatype naming = NmExact | NmAlias | NmGone

definition same_inode :: "stat \<Rightarrow> stat \<Rightarrow> bool" where
  "same_inode s t \<longleftrightarrow> (st_dev s, st_ino s) = (st_dev t, st_ino t)"

definition naming_of :: "('w, 'f) ios \<Rightarrow> 'f \<Rightarrow> string \<Rightarrow> 'f \<Rightarrow> ('w, io_fault, naming) act" where
  "naming_of ios cells name opened =
     act_then (lists_exactly ios cells name) (\<lambda>listed.
     act_then (attempt_of (stat_name ios cells name)) (\<lambda>found.
     case found of
       Err e \<Rightarrow> if raw_os_error e = Some ENOENT then done_with NmGone else fail_with e
     | Ok entry \<Rightarrow>
         act_then (stat_of ios opened) (\<lambda>held.
         done_with (if \<not> same_inode entry held then NmGone else if listed then NmExact else NmAlias))))"

section \<open>Refusals\<close>

datatype directory_refusal = DrMissing | DrSymlink | DrNotADirectory | DrAcl | DrIo io_fault

datatype file_refusal = FrSymlink | FrNotRegular | FrAcl | FrIo io_fault

text \<open>Both look at the name again and never succeed.\<close>

definition directory_refusal_of ::
  "('w, 'f) ios \<Rightarrow> 'f \<Rightarrow> string \<Rightarrow> io_fault \<Rightarrow> ('w, directory_refusal, 'a) act" where
  "directory_refusal_of ios parent name e =
     (if raw_os_error e = Some ENOENT then fail_with DrMissing
      else if raw_os_error e = Some ELOOP then fail_with DrSymlink
      else if raw_os_error e = Some ENOTDIR then
        act_then (attempt_of (kind_at ios parent name)) (\<lambda>k.
        fail_with (if k = Ok IsSymlink then DrSymlink else DrNotADirectory))
      else fail_with (DrIo e))"

definition file_refusal_of :: "('w, 'f) ios \<Rightarrow> 'f \<Rightarrow> string \<Rightarrow> io_fault \<Rightarrow> ('w, file_refusal, 'a) act" where
  "file_refusal_of ios parent name e =
     (if raw_os_error e = Some ELOOP then fail_with FrSymlink
      else
        act_then (attempt_of (kind_at ios parent name)) (\<lambda>k.
        fail_with (if k = Ok IsSymlink then FrSymlink
          else if k = Ok IsDirectory \<or> k = Ok IsOther then FrNotRegular else FrIo e)))"

definition refuse_acl_as :: "('w, 'f) ios \<Rightarrow> 'f \<Rightarrow> (io_fault \<Rightarrow> 'e) \<Rightarrow> 'e \<Rightarrow> ('w, 'e, unit) act" where
  "refuse_acl_as ios fd into acl =
     act_then (act_err into (carries_acl ios fd)) (\<lambda>b. if b then fail_with acl else done_with ())"

definition open_private_directory :: "('w, 'f) ios \<Rightarrow> 'f \<Rightarrow> string \<Rightarrow> ('w, directory_refusal, 'f) act" where
  "open_private_directory ios parent name =
     act_then
       (or_else
         (or_else (open_name ios parent name DIRECTORY_FLAGS 0) (\<lambda>e.
            if raw_os_error e = Some EACCES then
              act_then (attempt_of (kind_at ios parent name)) (\<lambda>k.
              if k = Ok IsDirectory then
                act_then (change_mode_at ios parent name PRIVATE_DIRECTORY) (\<lambda>_.
                open_name ios parent name DIRECTORY_FLAGS 0)
              else fail_with e)
            else fail_with e))
         (directory_refusal_of ios parent name)) (\<lambda>dir.
     act_then (refuse_acl_as ios dir DrIo DrAcl) (\<lambda>_.
     act_then (act_err DrIo (change_mode ios dir PRIVATE_DIRECTORY)) (\<lambda>_.
     done_with dir)))"

definition open_regular_at ::
  "('w, 'f) ios \<Rightarrow> 'f \<Rightarrow> string \<Rightarrow> open_how \<Rightarrow> u32 \<Rightarrow> ('w, file_refusal, 'f) act" where
  "open_regular_at ios dir name how mode =
     act_then (or_else (open_name ios dir name (file_flags how) mode) (file_refusal_of ios dir name)) (\<lambda>file.
     act_then (act_err FrIo (is_regular ios file)) (\<lambda>regular.
     if \<not> regular then fail_with FrNotRegular
     else act_then (refuse_acl_as ios file FrIo FrAcl) (\<lambda>_. done_with file)))"

section \<open>When they succeed\<close>

lemma or_else_Ok [acts]:
  "or_else m h w = (Ok a, w') \<longleftrightarrow> m w = (Ok a, w') \<or> (\<exists>e w1. m w = (Err e, w1) \<and> h e w1 = (Ok a, w'))"
  by (auto simp: or_else_def split: prod.splits sum.splits)

lemma releasing_Ok [acts]: "releasing ios fd m w = (Ok a, w') \<longleftrightarrow> m w = (Ok a, w')"
  by (auto simp: releasing_def split: prod.splits sum.splits)

lemma refusals_never_Ok [acts]:
  "directory_refusal_of ios parent name e w = (Ok a, w') \<longleftrightarrow> False"
  "file_refusal_of ios parent name e w = (Ok a, w') \<longleftrightarrow> False"
  by (auto simp: directory_refusal_of_def file_refusal_of_def acts split: if_splits)

lemma refuse_acl_as_Ok [acts]:
  "refuse_acl_as ios fd into acl w = (Ok u, w') \<longleftrightarrow> carries_acl ios fd w = (Ok False, w')"
  by (auto simp: refuse_acl_as_def acts split: if_splits)

lemma listing_has_Ok: "listing_has name listed = Ok b \<Longrightarrow> b \<longleftrightarrow> Ok name \<in> set listed"
  by (induction listed) (auto simp: and_then_eq_Inr split: if_splits)

end
