(* ===== verification/Supervisor_Check.thy ===== *)
theory Supervisor_Check
  imports Cell_Names
begin

text \<open>
  \<open>crates/plasmosome-core/src/supervisor_check.rs\<close>: what a controller does with a cell it finds at its start,
  decided from the cell's lock, its marker and its journal, and what it makes of a supervisor's answers.
\<close>

section \<open>Facts and outcomes\<close>

datatype lock_fact = LkHeld | LkUntestable | LkFree

datatype marker_fact = MkAbsent | MkEarlierBoot | MkThisBootStopped | MkThisBootRunning | MkUnreadable

datatype journal_fact = JfCorrupt | JfEmpty | JfHoldings bool

datatype set_aside_reason =
    SaUnresponsive | SaGerminating | SaLockUntestable | SaExternalObligations | SaSupervisorLost
  | SaHoldingsWithoutSupervisor

datatype check_outcome = CkQuery | CkQuarantine | CkRetireWithResidue | CkSetAside set_aside_reason | CkRetireEmpty

fun decide :: "lock_fact \<Rightarrow> marker_fact \<Rightarrow> journal_fact \<Rightarrow> check_outcome" where
  "decide LkHeld _ _ = CkQuery"
| "decide LkUntestable _ _ = CkSetAside SaLockUntestable"
| "decide LkFree _ JfCorrupt = CkQuarantine"
| "decide LkFree MkEarlierBoot JfEmpty = CkRetireWithResidue"
| "decide LkFree MkEarlierBoot (JfHoldings obligation) =
     (if obligation then CkSetAside SaExternalObligations else CkRetireWithResidue)"
| "decide LkFree MkThisBootStopped JfEmpty = CkRetireWithResidue"
| "decide LkFree MkThisBootStopped (JfHoldings obligation) =
     (if obligation then CkSetAside SaExternalObligations else CkRetireWithResidue)"
| "decide LkFree MkThisBootRunning _ = CkSetAside SaSupervisorLost"
| "decide LkFree MkUnreadable _ = CkSetAside SaSupervisorLost"
| "decide LkFree MkAbsent JfEmpty = CkRetireEmpty"
| "decide LkFree MkAbsent (JfHoldings _) = CkSetAside SaHoldingsWithoutSupervisor"

datatype query_result = QrAnswered cell_status | QrNoAnswer

datatype query_outcome = QoAdopt | QoKeepWaiting | QoSetAside set_aside_reason

fun after_query :: "query_result \<Rightarrow> bool \<Rightarrow> query_outcome" where
  "after_query (QrAnswered Germinating) cap_reached = (if cap_reached then QoSetAside SaGerminating else QoKeepWaiting)"
| "after_query (QrAnswered _) _ = QoAdopt"
| "after_query QrNoAnswer cap_reached = (if cap_reached then QoSetAside SaUnresponsive else QoKeepWaiting)"

section \<open>What the table keeps to\<close>

text \<open>
  A cell's directory is only ever moved away when its lock is free and nothing is left to answer for: its
  supervisor stopped or belongs to an earlier boot and no outside obligation stands, or there never was one.
\<close>

lemma decide_retires_iff:
  "decide lock marker journal \<in> {CkRetireWithResidue, CkRetireEmpty} \<longleftrightarrow>
     lock = LkFree \<and>
     (marker \<in> {MkEarlierBoot, MkThisBootStopped} \<and> journal \<in> {JfEmpty, JfHoldings False} \<or>
      marker = MkAbsent \<and> journal = JfEmpty)"
  by (cases lock; cases marker; cases journal) auto

lemma decide_query_iff: "decide lock marker journal = CkQuery \<longleftrightarrow> lock = LkHeld"
  by (cases lock; cases marker; cases journal) auto

lemma after_query_final: "after_query r True \<noteq> QoKeepWaiting"
  by (cases "(r, True)" rule: after_query.cases) auto

lemma after_query_adopts: "after_query r cap = QoAdopt \<longleftrightarrow> (\<exists>s. r = QrAnswered s \<and> s \<noteq> Germinating)"
  by (cases "(r, cap)" rule: after_query.cases) auto

end
