(* ===== verification/Instance.thy ===== *)
theory Instance
  imports Instance_Calls Supervisor_Check
begin

text \<open>
  \<open>crates/plasmosome-core/src/instance.rs\<close>: an instance's root directory with its writer lock, the cells
  below it, and one cell's directory with its journal, its markers and its supervisor's lock. A value that is
  dropped closes its descriptor, which is no call of the model; the writer lock's drop also unlocks. Syncing
  a directory is the code's own; the test double for it is not modelled. The allocation mutex lets one
  allocation run at a time and holds no state.
\<close>

section \<open>Values\<close>

record 'f instance_root =
  rt_dir :: 'f
  rt_path :: string
  rt_identity :: dir_identity

record 'f writer_lock =
  wl_file :: 'f
  wl_path :: string
  wl_root :: dir_identity

record 'f cell_directory =
  cdir_dir :: 'f
  cdir_cell :: cell_id
  cdir_journal_path :: string
  cdir_root :: dir_identity

record 'f supervisor_lock =
  sl_file :: 'f
  sl_path :: string

datatype instance_root_error =
    RtAcl string
  | RtNotAbsolute string
  | RtUntrusted string walk_refusal
  | RtOpen string io_fault

datatype lock_error = LeAcl string | LeBusy string | LeSymlink string | LeNotRegular string | LeIo string io_fault

datatype cell_dir_error =
    CdAcl string
  | CdInvalidCell cell_path_error
  | CdMissing string
  | CdAlias string
  | CdSymlink string
  | CdNotADirectory string
  | CdAlreadyExists string
  | CdIo string io_fault
  | CdForeignLock string
  | CdNotARegularFile string
  | CdMarkerUnreadable string marker_fault
  | CdLockNotNamed string

datatype allocate_error =
    AlAcl string
  | AlForeignLock string
  | AlSymlink string
  | AlNotADirectory string
  | AlListing string io_fault
  | AlExhausted string
  | AlContended string
  | AlCreate cell_id cell_dir_error

datatype retire_error =
    ReAcl string
  | ReForeignLock string
  | ReRetiredNotADirectory string
  | ReAlreadyRetired string
  | ReMoved string
  | ReIo string io_fault

datatype journal_refusal =
    JrAcl
  | JrCellDirectoryAcl
  | JrCellDirectory io_fault
  | JrSymlink
  | JrNotRegular
  | JrIo io_fault
  | JrForeignLock string

datatype 'f journal_open = JoMissing | JoRegular 'f | JoRefused journal_refusal

record 'f journal_append =
  ja_file :: 'f
  ja_created :: bool

datatype not_a_cell = NcInvalidName | NcSymlink | NcNotADirectory

datatype 'f entry_class = EcCell cell_id "'f journal_open" | EcNotACell not_a_cell

record 'f discovered_entry =
  de_raw_name :: string
  de_path :: string
  de_class :: "'f entry_class"

record 'f discovery =
  dv_cells_dir_present :: bool
  dv_entries :: "'f discovered_entry list"

datatype discovery_error =
    DvCellsAcl string
  | DvCellsSymlink string
  | DvCellsNotADirectory string
  | DvOpen string io_fault
  | DvListing string io_fault
  | DvClassify string io_fault
  | DvOutOfDescriptors string io_fault
  | DvForeignLock string

datatype marker_read = MrAbsent | MrPresent launched_marker | MrUnreadable marker_fault

datatype 'f lock_probe = LpHeld | LpFree "'f supervisor_lock" | LpMissing

datatype 'f lock_test = LtHeld | LtFree "'f supervisor_lock" | LtUntestable cell_dir_error

fun lock_test_fact :: "'f lock_test \<Rightarrow> lock_fact" where
  "lock_test_fact LtHeld = LkHeld"
| "lock_test_fact (LtFree _) = LkFree"
| "lock_test_fact (LtUntestable _) = LkUntestable"

definition LOCK_FILE :: string where "LOCK_FILE = ''controller.lock''"
definition LAUNCHED_FILE :: string where "LAUNCHED_FILE = ''launched''"
definition LAUNCHED_TEMPORARY :: string where "LAUNCHED_TEMPORARY = ''launched.tmp''"
definition CREATED_FILE :: string where "CREATED_FILE = ''created''"
definition RETIRED_DIR :: string where "RETIRED_DIR = ''retired''"
definition RUNTIME_DIR :: string where "RUNTIME_DIR = ''runtime''"
definition SUPERVISOR_LOCK_FILE :: string where "SUPERVISOR_LOCK_FILE = ''supervisor.lock''"
definition SUPERVISOR_LOCK_TEMPORARY :: string where "SUPERVISOR_LOCK_TEMPORARY = ''supervisor.lock.tmp''"
definition SUPERVISOR_LOG_FILE :: string where "SUPERVISOR_LOG_FILE = ''membraned.log''"
definition ALLOCATION_ATTEMPTS :: nat where "ALLOCATION_ATTEMPTS = 64"

fun directory_error :: "string \<Rightarrow> directory_refusal \<Rightarrow> cell_dir_error" where
  "directory_error path DrSymlink = CdSymlink path"
| "directory_error path DrNotADirectory = CdNotADirectory path"
| "directory_error path DrMissing = CdMissing path"
| "directory_error path DrAcl = CdAcl path"
| "directory_error path (DrIo e) = CdIo path e"

fun file_error :: "string \<Rightarrow> file_refusal \<Rightarrow> cell_dir_error" where
  "file_error path FrSymlink = CdSymlink path"
| "file_error path FrNotRegular = CdNotARegularFile path"
| "file_error path FrAcl = CdAcl path"
| "file_error path (FrIo e) = CdIo path e"

fun journal_error :: "file_refusal \<Rightarrow> journal_refusal" where
  "journal_error FrSymlink = JrSymlink"
| "journal_error FrNotRegular = JrNotRegular"
| "journal_error FrAcl = JrAcl"
| "journal_error (FrIo e) = JrIo e"

section \<open>The root and its lock\<close>

definition path_of :: "utext \<Rightarrow> string" where "path_of p = map char_of p"

fun root_refusal :: "string \<Rightarrow> walk_refusal \<Rightarrow> instance_root_error" where
  "root_refusal root (WkMissing p) = RtOpen (path_of p) (Errno ENOENT)"
| "root_refusal root (WkIo op p errno) = RtOpen (path_of p) (Errno errno)"
| "root_refusal root why = RtUntrusted root why"

definition root_open :: "('w, 'f) ios \<Rightarrow> string \<Rightarrow> ('w, instance_root_error, 'f instance_root) act" where
  "root_open ios path =
     (if path = [] \<or> hd path \<noteq> CHR ''/'' then fail_with (RtNotAbsolute path)
      else
        act_then (act_err (root_refusal path)
          (act_then (walk_from_root (io_os ios) (map of_char path)) (open_trusted_directory (io_os ios)))) (\<lambda>opened.
        act_then (refuse_acl_as ios (op_fd opened) (RtOpen path) (RtAcl path)) (\<lambda>_.
        done_with \<lparr>rt_dir = op_fd opened, rt_path = path,
          rt_identity = identity_of (op_facts opened)\<rparr>)))"

definition open_lock_file :: "('w, 'f) ios \<Rightarrow> 'f \<Rightarrow> string \<Rightarrow> ('w, io_fault, 'f) act" where
  "open_lock_file ios dir name =
     or_else (open_name ios dir name (plainly ReadWrite) 0) (\<lambda>missing.
       if raw_os_error missing = Some ENOENT then
         or_else (open_name ios dir name ((plainly ReadWrite)\<lparr>oh_create := True, oh_exclusive := True\<rparr>) PRIVATE_FILE)
           (\<lambda>raced. if raw_os_error raced = Some EEXIST then open_name ios dir name (plainly ReadWrite) 0
              else fail_with raced)
       else fail_with missing)"

fun lock_refusal :: "string \<Rightarrow> file_refusal \<Rightarrow> lock_error" where
  "lock_refusal path FrSymlink = LeSymlink path"
| "lock_refusal path FrNotRegular = LeNotRegular path"
| "lock_refusal path FrAcl = LeAcl path"
| "lock_refusal path (FrIo e) = LeIo path e"

definition root_lock :: "('w, 'f) ios \<Rightarrow> 'f instance_root \<Rightarrow> ('w, lock_error, 'f writer_lock) act" where
  "root_lock ios rt =
     (let path = path_join (rt_path rt) LOCK_FILE in
      act_then (act_err (lock_refusal path)
        (or_else (open_lock_file ios (rt_dir rt) LOCK_FILE) (file_refusal_of ios (rt_dir rt) LOCK_FILE))) (\<lambda>file.
      act_then (act_err (LeIo path) (is_regular ios file)) (\<lambda>regular.
      if \<not> regular then fail_with (LeNotRegular path)
      else
        act_then (refuse_acl_as ios file (LeIo path) (LeAcl path)) (\<lambda>_.
        act_then (act_err (\<lambda>e. if raw_os_error e = Some EWOULDBLOCK then LeBusy path else LeIo path e)
          (lock_exclusive_nonblocking ios file)) (\<lambda>_.
        releasing ios file
          (act_then (act_err (LeIo path) (change_mode ios file PRIVATE_FILE)) (\<lambda>_.
           act_then (act_err (LeIo (rt_path rt)) (sync_directory ios (rt_dir rt))) (\<lambda>_.
           done_with \<lparr>wl_file = file, wl_path = path, wl_root = rt_identity rt\<rparr>))))))))"

definition writer_lock_drop :: "('w, 'f) ios \<Rightarrow> 'f writer_lock \<Rightarrow> 'w \<Rightarrow> 'w" where
  "writer_lock_drop ios lk = io_unlock ios (wl_file lk)"

section \<open>The journal of a cell\<close>

definition open_journal_at :: "('w, 'f) ios \<Rightarrow> 'f \<Rightarrow> open_how \<Rightarrow> u32 \<Rightarrow> ('w, journal_refusal, 'f) act" where
  "open_journal_at ios cell how mode =
     act_then (act_err journal_error
       (or_else (open_name ios cell CELL_JOURNAL_FILE (file_flags how) mode) (file_refusal_of ios cell CELL_JOURNAL_FILE)))
       (\<lambda>file.
     act_then (act_err JrIo (is_regular ios file)) (\<lambda>regular.
     if \<not> regular then fail_with JrNotRegular
     else
       act_then (refuse_acl_as ios file JrIo JrAcl) (\<lambda>_.
       act_then (act_err JrIo (set_blocking ios file)) (\<lambda>_. done_with file))))"

definition open_journal :: "('w, 'f) ios \<Rightarrow> 'f cell_directory \<Rightarrow> ('w, 'e, 'f journal_open) act" where
  "open_journal ios cd =
     act_then (attempt_of (open_journal_at ios (cdir_dir cd) (plainly ReadOnly) 0)) (\<lambda>opened.
     done_with (case opened of
       Ok file \<Rightarrow> JoRegular file
     | Err why \<Rightarrow> if why = JrIo (Errno ENOENT) then JoMissing else JoRefused why))"

definition open_journal_for_append ::
  "('w, 'f) ios \<Rightarrow> 'f cell_directory \<Rightarrow> 'f writer_lock \<Rightarrow> ('w, journal_refusal, 'f journal_append) act" where
  "open_journal_for_append ios cd lk =
     (if wl_root lk \<noteq> cdir_root cd then fail_with (JrForeignLock (wl_path lk))
      else
        let how = (plainly ReadWrite)\<lparr>oh_append := True\<rparr> in
        act_then
          (or_else
            (act_then (open_journal_at ios (cdir_dir cd) how 0) (\<lambda>file. done_with (file, False))) (\<lambda>why.
             if why = JrIo (Errno ENOENT) then
               act_then (open_journal_at ios (cdir_dir cd) (how\<lparr>oh_create := True, oh_exclusive := True\<rparr>) PRIVATE_FILE)
                 (\<lambda>file. done_with (file, True))
             else fail_with why)) (\<lambda>(file, created).
        act_then (act_err JrIo (change_mode ios file PRIVATE_FILE)) (\<lambda>_.
        done_with \<lparr>ja_file = file, ja_created = created\<rparr>)))"

section \<open>Cells of a root\<close>

definition open_cells :: "('w, 'f) ios \<Rightarrow> 'f instance_root \<Rightarrow> ('w, directory_refusal, 'f) act" where
  "open_cells ios rt =
     act_then (or_else (open_name ios (rt_dir rt) CELLS_DIR DIRECTORY_FLAGS 0)
       (directory_refusal_of ios (rt_dir rt) CELLS_DIR)) (\<lambda>dir.
     act_then (refuse_acl_as ios dir DrIo DrAcl) (\<lambda>_. done_with dir))"

definition cell_dir_from :: "'f instance_root \<Rightarrow> 'f \<Rightarrow> cell_id \<Rightarrow> string \<Rightarrow> 'f cell_directory" where
  "cell_dir_from rt dir cell journal_path =
     \<lparr>cdir_dir = dir, cdir_cell = cell, cdir_journal_path = journal_path, cdir_root = rt_identity rt\<rparr>"

definition open_cell_dir :: "('w, 'f) ios \<Rightarrow> 'f instance_root \<Rightarrow> cell_id \<Rightarrow> ('w, cell_dir_error, 'f cell_directory) act" where
  "open_cell_dir ios rt cell =
     act_then (checked (map_err CdInvalidCell (cell_ledger_path (rt_path rt) cell))) (\<lambda>journal_path.
     let cells_path = path_join (rt_path rt) CELLS_DIR; cell_path = path_join cells_path cell in
     act_then (act_err (directory_error cells_path) (open_cells ios rt)) (\<lambda>cells.
     act_then (checked (map_err (CdIo cell_path) (c_name cell))) (\<lambda>name.
     act_then (act_err (directory_error cell_path)
       (or_else (open_name ios cells name DIRECTORY_FLAGS 0) (directory_refusal_of ios cells name))) (\<lambda>dir.
     act_then (refuse_acl_as ios dir (CdIo cell_path) (CdAcl cell_path)) (\<lambda>_.
     act_then (act_err (CdIo cells_path) (naming_of ios cells name dir)) (\<lambda>named.
     case named of
       NmExact \<Rightarrow> done_with (cell_dir_from rt dir cell journal_path)
     | NmAlias \<Rightarrow> fail_with (CdAlias cell_path)
     | NmGone \<Rightarrow> fail_with (CdMissing cell_path)))))))"

text \<open>An exclusive making whose finding the name taken is no error.\<close>

definition unless_exists :: "('e \<Rightarrow> bool) \<Rightarrow> ('w, 'e, unit) act \<Rightarrow> ('w, 'e, unit) act" where
  "unless_exists exists m = or_else m (\<lambda>e. if exists e then done_with () else fail_with e)"

definition already :: "io_fault \<Rightarrow> bool" where "already e = (raw_os_error e = Some EEXIST)"

definition create_cells :: "('w, 'f) ios \<Rightarrow> 'f instance_root \<Rightarrow> string \<Rightarrow> ('w, cell_dir_error, 'f) act" where
  "create_cells ios rt cells_path =
     act_then (act_err (CdIo cells_path) (unless_exists already (make_directory_at ios (rt_dir rt) CELLS_DIR))) (\<lambda>_.
     act_then (act_err (directory_error cells_path) (open_private_directory ios (rt_dir rt) CELLS_DIR)) (\<lambda>cells.
     act_then (act_err (CdIo (rt_path rt)) (sync_directory ios (rt_dir rt))) (\<lambda>_.
     done_with cells)))"

definition create_cell_dir ::
  "('w, 'f) ios \<Rightarrow> 'f instance_root \<Rightarrow> 'f writer_lock \<Rightarrow> cell_id \<Rightarrow> ('w, cell_dir_error, 'f cell_directory) act" where
  "create_cell_dir ios rt lk cell =
     (if wl_root lk \<noteq> rt_identity rt then fail_with (CdForeignLock (wl_path lk))
      else
        act_then (checked (map_err CdInvalidCell (cell_ledger_path (rt_path rt) cell))) (\<lambda>journal_path.
        let cells_path = path_join (rt_path rt) CELLS_DIR; cell_path = path_join cells_path cell in
        act_then (create_cells ios rt cells_path) (\<lambda>cells.
        let sync_cells = act_err (CdIo cells_path) (sync_directory ios cells) in
        act_then (checked (map_err (CdIo cell_path) (c_name cell))) (\<lambda>name.
        act_then (or_else (make_directory_at ios cells name) (\<lambda>e.
            if already e then act_then sync_cells (\<lambda>_. fail_with (CdAlreadyExists cell_path))
            else fail_with (CdIo cell_path e))) (\<lambda>_.
        act_then (act_err (directory_error cell_path) (open_private_directory ios cells name)) (\<lambda>dir.
        act_then sync_cells (\<lambda>_.
        done_with (cell_dir_from rt dir cell journal_path))))))))"

section \<open>Allocating a cell\<close>

fun largest_listed :: "nat \<Rightarrow> (io_fault + string) list \<Rightarrow> io_fault + nat" where
  "largest_listed largest [] = Ok largest"
| "largest_listed largest (n # rest) =
     and_then n (\<lambda>name. largest_listed
       (max largest (case listed_cell_number name of Some k \<Rightarrow> k | None \<Rightarrow> 0)) rest)"

fun listing_refusal :: "string \<Rightarrow> directory_refusal \<Rightarrow> allocate_error" where
  "listing_refusal path DrSymlink = AlSymlink path"
| "listing_refusal path DrNotADirectory = AlNotADirectory path"
| "listing_refusal path DrAcl = AlAcl path"
| "listing_refusal path (DrIo e) = AlListing path e"
| "listing_refusal path DrMissing = AlListing path (Errno ENOENT)"

definition largest_cell_number :: "('w, 'f) ios \<Rightarrow> 'f instance_root \<Rightarrow> string \<Rightarrow> ('w, allocate_error, nat) act" where
  "largest_cell_number ios rt name =
     (let path = path_join (rt_path rt) name in
      act_then (attempt_of (open_private_directory ios (rt_dir rt) name)) (\<lambda>opened.
      case opened of
        Err why \<Rightarrow> if why = DrMissing then done_with 0 else fail_with (listing_refusal path why)
      | Ok dir \<Rightarrow>
          act_err (AlListing path)
            (act_then (list_dir ios dir) (\<lambda>names. checked (largest_listed 0 names)))))"

definition next_cell_number :: "('w, 'f) ios \<Rightarrow> 'f instance_root \<Rightarrow> nat \<Rightarrow> ('w, allocate_error, nat) act" where
  "next_cell_number ios rt lowest =
     act_then (largest_cell_number ios rt CELLS_DIR) (\<lambda>in_cells.
     act_then (largest_cell_number ios rt RETIRED_DIR) (\<lambda>in_retired.
     let (largest, holder) = (if in_retired > in_cells then (in_retired, RETIRED_DIR) else (in_cells, CELLS_DIR));
         above_it = largest + 1 in
     if max lowest above_it > MAX_CELL_NUMBER then
       fail_with (AlExhausted (path_join (rt_path rt) (if lowest > above_it then CELLS_DIR else holder)))
     else done_with (max lowest above_it)))"

text \<open>The attempts left, and the lowest number to try.\<close>

fun allocate_loop ::
  "('w, 'f) ios \<Rightarrow> 'f instance_root \<Rightarrow> 'f writer_lock \<Rightarrow> nat \<Rightarrow> nat \<Rightarrow> ('w, allocate_error, 'f cell_directory) act" where
  "allocate_loop ios rt lk 0 lowest = fail_with (AlContended (path_join (rt_path rt) CELLS_DIR))"
| "allocate_loop ios rt lk (Suc left) lowest =
     act_then (next_cell_number ios rt lowest) (\<lambda>n.
     or_else (create_cell_dir ios rt lk (format_cell_id n)) (\<lambda>why.
       case why of
         CdAlreadyExists path \<Rightarrow> allocate_loop ios rt lk left (n + 1)
       | _ \<Rightarrow> fail_with (AlCreate (format_cell_id n) why)))"

definition allocate_cell ::
  "('w, 'f) ios \<Rightarrow> 'f instance_root \<Rightarrow> 'f writer_lock \<Rightarrow> ('w, allocate_error, 'f cell_directory) act" where
  "allocate_cell ios rt lk =
     (if wl_root lk \<noteq> rt_identity rt then fail_with (AlForeignLock (wl_path lk))
      else allocate_loop ios rt lk ALLOCATION_ATTEMPTS 1)"

section \<open>Retiring a cell\<close>

fun retired_error :: "string \<Rightarrow> directory_refusal \<Rightarrow> retire_error" where
  "retired_error path DrSymlink = ReRetiredNotADirectory path"
| "retired_error path DrNotADirectory = ReRetiredNotADirectory path"
| "retired_error path DrMissing = ReIo path (Errno ENOENT)"
| "retired_error path DrAcl = ReAcl path"
| "retired_error path (DrIo e) = ReIo path e"

definition open_retired :: "('w, 'f) ios \<Rightarrow> 'f instance_root \<Rightarrow> string \<Rightarrow> ('w, retire_error, 'f) act" where
  "open_retired ios rt retired_path =
     act_then (act_err (ReIo retired_path) (unless_exists already (make_directory_at ios (rt_dir rt) RETIRED_DIR))) (\<lambda>_.
     act_then (act_err (retired_error retired_path) (open_private_directory ios (rt_dir rt) RETIRED_DIR)) (\<lambda>retired.
     act_then (act_err (ReIo (rt_path rt)) (sync_directory ios (rt_dir rt))) (\<lambda>_.
     done_with retired)))"

fun cells_error :: "string \<Rightarrow> string \<Rightarrow> directory_refusal \<Rightarrow> retire_error" where
  "cells_error cells_path at_cell DrAcl = ReAcl cells_path"
| "cells_error cells_path at_cell (DrIo e) = ReIo cells_path e"
| "cells_error cells_path at_cell _ = ReMoved at_cell"

definition retire :: "('w, 'f) ios \<Rightarrow> 'f instance_root \<Rightarrow> 'f writer_lock \<Rightarrow> 'f cell_directory \<Rightarrow> ('w, retire_error, unit) act" where
  "retire ios rt lk cd =
     (if wl_root lk \<noteq> rt_identity rt then fail_with (ReForeignLock (wl_path lk))
      else
        let cells_path = path_join (rt_path rt) CELLS_DIR; cell_path = path_join cells_path (cdir_cell cd);
            retired_path = path_join (rt_path rt) RETIRED_DIR in
        act_then (act_err (cells_error cells_path cell_path) (open_cells ios rt)) (\<lambda>cells.
        act_then (open_retired ios rt retired_path) (\<lambda>retired.
        act_then (checked (map_err (ReIo cell_path) (c_name (cdir_cell cd)))) (\<lambda>name.
        act_then (act_err (ReIo cells_path) (naming_of ios cells name (cdir_dir cd))) (\<lambda>named.
        if named \<noteq> NmExact then fail_with (ReMoved cell_path)
        else
          act_then (act_err (\<lambda>e. if already e then ReAlreadyRetired (path_join retired_path (cdir_cell cd)) else ReIo cell_path e)
            (rename_no_replace ios cells name retired name)) (\<lambda>_.
          act_then (act_err (ReIo cells_path) (sync_directory ios cells)) (\<lambda>_.
          act_err (ReIo retired_path) (sync_directory ios retired))))))))"

section \<open>Discovering cells\<close>

fun kind_class :: "inode_kind \<Rightarrow> 'f entry_class" where
  "kind_class IsSymlink = EcNotACell NcSymlink"
| "kind_class IsDirectory = EcNotACell NcInvalidName"
| "kind_class _ = EcNotACell NcNotADirectory"

definition cell_named :: "'f instance_root \<Rightarrow> string \<Rightarrow> (cell_id \<times> string) option" where
  "cell_named rt raw_name =
     (case parse_cell_name raw_name of
        None \<Rightarrow> None
      | Some cell \<Rightarrow> (case cell_ledger_path (rt_path rt) cell of Ok p \<Rightarrow> Some (cell, p) | Err _ \<Rightarrow> None))"

definition cell_journal_in ::
  "('w, 'f) ios \<Rightarrow> 'f instance_root \<Rightarrow> 'f \<Rightarrow> cell_id \<Rightarrow> string \<Rightarrow> ('w, 'e, 'f journal_open) act" where
  "cell_journal_in ios rt dir cell journal_path =
     act_then (attempt_of (carries_acl ios dir)) (\<lambda>acl.
     case acl of
       Ok True \<Rightarrow> done_with (JoRefused JrCellDirectoryAcl)
     | Err e \<Rightarrow> done_with (JoRefused (JrCellDirectory e))
     | Ok False \<Rightarrow> open_journal ios (cell_dir_from rt dir cell journal_path))"

fun journal_out_of_descriptors :: "'f journal_open \<Rightarrow> io_fault option" where
  "journal_out_of_descriptors (JoRefused (JrIo e)) = (if out_of_descriptors e then Some e else None)"
| "journal_out_of_descriptors (JoRefused (JrCellDirectory e)) = (if out_of_descriptors e then Some e else None)"
| "journal_out_of_descriptors _ = None"

definition classify_cell ::
  "('w, 'f) ios \<Rightarrow> 'f instance_root \<Rightarrow> 'f \<Rightarrow> string \<Rightarrow> string \<Rightarrow> cell_id \<Rightarrow> string \<Rightarrow> ('w, discovery_error, 'f entry_class) act" where
  "classify_cell ios rt cells name path cell journal_path =
     act_then (attempt_of (open_name ios cells name DIRECTORY_FLAGS 0)) (\<lambda>opened.
     case opened of
       Ok dir \<Rightarrow>
         act_then (cell_journal_in ios rt dir cell journal_path) (\<lambda>journal.
         case journal_out_of_descriptors journal of
           Some e \<Rightarrow> fail_with (DvOutOfDescriptors path e)
         | None \<Rightarrow> done_with (EcCell cell journal))
     | Err e \<Rightarrow>
         if out_of_descriptors e then fail_with (DvOutOfDescriptors path e)
         else
           act_then (act_err (DvClassify path) (kind_at ios cells name)) (\<lambda>k.
           done_with (if k = IsDirectory then EcCell cell (JoRefused (JrCellDirectory e)) else kind_class k)))"

definition classify_entry ::
  "('w, 'f) ios \<Rightarrow> 'f instance_root \<Rightarrow> 'f \<Rightarrow> string \<Rightarrow> string \<Rightarrow> ('w, discovery_error, 'f discovered_entry) act" where
  "classify_entry ios rt cells cells_path raw_name =
     (let path = path_join cells_path raw_name in
      act_then (checked (map_err (DvClassify path) (c_name raw_name))) (\<lambda>name.
      act_then
        (case cell_named rt raw_name of
           None \<Rightarrow> act_then (act_err (DvClassify path) (kind_at ios cells name)) (\<lambda>k. done_with (kind_class k))
         | Some (cell, journal_path) \<Rightarrow> classify_cell ios rt cells name path cell journal_path) (\<lambda>class.
      done_with \<lparr>de_raw_name = raw_name, de_path = path, de_class = class\<rparr>)))"

fun classify_all ::
  "('w, 'f) ios \<Rightarrow> 'f instance_root \<Rightarrow> 'f \<Rightarrow> string \<Rightarrow> string list \<Rightarrow> ('w, discovery_error, 'f discovered_entry list) act" where
  "classify_all ios rt cells cells_path [] = done_with []"
| "classify_all ios rt cells cells_path (n # rest) =
     act_then (classify_entry ios rt cells cells_path n) (\<lambda>e.
     act_then (classify_all ios rt cells cells_path rest) (\<lambda>es. done_with (e # es)))"

fun discover_refusal :: "string \<Rightarrow> directory_refusal \<Rightarrow> discovery_error" where
  "discover_refusal path DrSymlink = DvCellsSymlink path"
| "discover_refusal path DrNotADirectory = DvCellsNotADirectory path"
| "discover_refusal path DrAcl = DvCellsAcl path"
| "discover_refusal path (DrIo e) = (if out_of_descriptors e then DvOutOfDescriptors path e else DvOpen path e)"
| "discover_refusal path DrMissing = DvOpen path (Errno ENOENT)"

definition discover :: "('w, 'f) ios \<Rightarrow> 'f instance_root \<Rightarrow> 'f writer_lock \<Rightarrow> ('w, discovery_error, 'f discovery) act" where
  "discover ios rt lk =
     (if wl_root lk \<noteq> rt_identity rt then fail_with (DvForeignLock (wl_path lk))
      else
        let cells_path = path_join (rt_path rt) CELLS_DIR in
        act_then (attempt_of (open_cells ios rt)) (\<lambda>opened.
        case opened of
          Err why \<Rightarrow>
            if why = DrMissing then done_with \<lparr>dv_cells_dir_present = False, dv_entries = []\<rparr>
            else fail_with (discover_refusal cells_path why)
        | Ok cells \<Rightarrow>
            act_then (act_err (\<lambda>e. if out_of_descriptors e then DvOutOfDescriptors cells_path e else DvListing cells_path e)
              (act_then (list_dir ios cells) (\<lambda>listed. checked (collect_names listed)))) (\<lambda>names.
            act_then (classify_all ios rt cells cells_path (sort names)) (\<lambda>es.
            done_with \<lparr>dv_cells_dir_present = True, dv_entries = es\<rparr>))))"

end
