(* ===== verification/Cell_Directory.thy ===== *)
theory Cell_Directory
  imports Instance
begin

text \<open>
  One cell's directory, the methods of \<open>CellDir\<close> in \<open>crates/plasmosome-core/src/instance.rs\<close>: the
  \<open>launched\<close> and \<open>created\<close> markers, the runtime directory, the supervisor's log and the supervisor's lock.
\<close>

section \<open>Names and paths\<close>

text \<open>\<open>Path::parent\<close> and \<open>with_file_name\<close> of a path that ends in a name below another.\<close>

definition path_parent :: "string \<Rightarrow> string" where
  "path_parent p = rev (tl (dropWhile (\<lambda>c. c \<noteq> CHR ''/'') (rev p)))"

definition entry_path :: "'f cell_directory \<Rightarrow> string \<Rightarrow> string" where
  "entry_path cd name = path_join (path_parent (cdir_journal_path cd)) name"

definition cell_sync :: "('w, 'f) ios \<Rightarrow> 'f cell_directory \<Rightarrow> ('w, io_fault, unit) act" where
  "cell_sync ios cd = sync_directory ios (cdir_dir cd)"

definition sync_dir :: "('w, 'f) ios \<Rightarrow> 'f cell_directory \<Rightarrow> ('w, cell_dir_error, unit) act" where
  "sync_dir ios cd = act_err (CdIo (path_parent (cdir_journal_path cd))) (cell_sync ios cd)"

definition gone_already :: "io_fault \<Rightarrow> bool" where "gone_already e = (raw_os_error e = Some ENOENT)"

definition remove_if_present :: "('w, 'f) ios \<Rightarrow> 'f cell_directory \<Rightarrow> string \<Rightarrow> ('w, cell_dir_error, unit) act" where
  "remove_if_present ios cd name =
     act_err (CdIo (entry_path cd name)) (unless_exists gone_already (remove_at ios (cdir_dir cd) name))"

section \<open>New files\<close>

definition create_private_file :: "('w, 'f) ios \<Rightarrow> 'f cell_directory \<Rightarrow> string \<Rightarrow> ('w, cell_dir_error, 'f) act" where
  "create_private_file ios cd name =
     (let path = entry_path cd name in
      act_then (act_err (\<lambda>e. if already e then CdAlreadyExists path else CdIo path e)
        (open_name ios (cdir_dir cd) name NEW_FILE_FLAGS PRIVATE_FILE)) (\<lambda>fd.
      act_then (refuse_acl_as ios fd (CdIo path) (CdAcl path)) (\<lambda>_.
      act_then (act_err (CdIo path) (change_mode ios fd PRIVATE_FILE)) (\<lambda>_.
      done_with fd))))"

definition write_new_file :: "('w, 'f) ios \<Rightarrow> 'f cell_directory \<Rightarrow> string \<Rightarrow> string \<Rightarrow> ('w, cell_dir_error, unit) act" where
  "write_new_file ios cd name contents =
     (let path = entry_path cd name in
      act_then (create_private_file ios cd name) (\<lambda>file.
      act_then (act_err (CdIo path) (io_write_all ios file contents)) (\<lambda>_.
      act_err (CdIo path) (sync_directory ios file))))"

definition write_temporary :: "('w, 'f) ios \<Rightarrow> 'f cell_directory \<Rightarrow> string \<Rightarrow> ('w, cell_dir_error, unit) act" where
  "write_temporary ios cd contents =
     act_then (remove_if_present ios cd LAUNCHED_TEMPORARY) (\<lambda>_. write_new_file ios cd LAUNCHED_TEMPORARY contents)"

section \<open>The launched marker\<close>

definition create_launched ::
  "('w, 'f) ios \<Rightarrow> marker_codec \<Rightarrow> 'f cell_directory \<Rightarrow> boot_session \<Rightarrow> ('w, cell_dir_error, unit) act" where
  "create_launched ios c cd session =
     (if parse_cell_id (cdir_cell cd) = None then fail_with (CdInvalidCell (NotACellName (cdir_cell cd)))
      else
        let marker = \<lparr>lm_cell = cdir_cell cd, lm_boot_session = session, lm_stopped = False\<rparr>;
            path = entry_path cd LAUNCHED_FILE in
        act_then (write_temporary ios cd (marker_encode c marker)) (\<lambda>_.
        act_then
          (or_else (rename_no_replace ios (cdir_dir cd) LAUNCHED_TEMPORARY (cdir_dir cd) LAUNCHED_FILE) (\<lambda>e.
             if already e then
               act_then (act_err (CdIo (entry_path cd LAUNCHED_TEMPORARY)) (remove_at ios (cdir_dir cd) LAUNCHED_TEMPORARY))
                 (\<lambda>_. fail_with (CdAlreadyExists path))
             else fail_with (CdIo path e))) (\<lambda>_.
        sync_dir ios cd)))"

fun marker_refusal :: "file_refusal \<Rightarrow> marker_fault" where
  "marker_refusal FrSymlink = MfSymlink"
| "marker_refusal FrNotRegular = MfNotRegular"
| "marker_refusal FrAcl = MfAcl"
| "marker_refusal (FrIo e) = MfIoFault e"

text \<open>The bytes of an opened marker, or why it is not read.\<close>

definition marker_bytes :: "('w, 'f) ios \<Rightarrow> 'f \<Rightarrow> ('w, marker_fault, string) act" where
  "marker_bytes ios file =
     act_then (act_err MfIoFault (is_regular ios file)) (\<lambda>regular.
     if \<not> regular then fail_with MfNotRegular
     else
       act_then (refuse_acl_as ios file MfIoFault MfAcl) (\<lambda>_.
       act_err MfIoFault (io_read_to_end ios file (MAX_MARKER_BYTES + 1))))"

definition marker_of_cell :: "marker_codec \<Rightarrow> cell_id \<Rightarrow> string \<Rightarrow> marker_read" where
  "marker_of_cell c cell bytes =
     (case marker_decode c bytes of
        Ok m \<Rightarrow> if lm_cell m = cell then MrPresent m else MrUnreadable (MfWrongCell (lm_cell m))
      | Err why \<Rightarrow> MrUnreadable why)"

definition read_launched :: "('w, 'f) ios \<Rightarrow> marker_codec \<Rightarrow> 'f cell_directory \<Rightarrow> ('w, 'e, marker_read) act" where
  "read_launched ios c cd =
     act_then (attempt_of (open_name ios (cdir_dir cd) LAUNCHED_FILE (file_flags (plainly ReadOnly)) 0)) (\<lambda>opened.
     case opened of
       Err e \<Rightarrow>
         if gone_already e then done_with MrAbsent
         else
           act_then (attempt_of (file_refusal_of ios (cdir_dir cd) LAUNCHED_FILE e)) (\<lambda>why.
           done_with (case why of Err r \<Rightarrow> MrUnreadable (marker_refusal r) | Ok () \<Rightarrow> MrAbsent))
     | Ok file \<Rightarrow>
         act_then (attempt_of (marker_bytes ios file)) (\<lambda>bytes.
         done_with (case bytes of Err why \<Rightarrow> MrUnreadable why | Ok bs \<Rightarrow> marker_of_cell c (cdir_cell cd) bs)))"

definition mark_launched_stopped ::
  "('w, 'f) ios \<Rightarrow> marker_codec \<Rightarrow> 'f cell_directory \<Rightarrow> ('w, cell_dir_error, unit) act" where
  "mark_launched_stopped ios c cd =
     (let path = entry_path cd LAUNCHED_FILE in
      act_then (read_launched ios c cd) (\<lambda>found.
      case found of
        MrAbsent \<Rightarrow> fail_with (CdMissing path)
      | MrUnreadable why \<Rightarrow> fail_with (CdMarkerUnreadable path why)
      | MrPresent m \<Rightarrow>
          act_then (write_temporary ios cd (marker_encode c (m\<lparr>lm_stopped := True\<rparr>))) (\<lambda>_.
          act_then (act_err (CdIo path) (rename_at ios (cdir_dir cd) LAUNCHED_TEMPORARY LAUNCHED_FILE)) (\<lambda>_.
          sync_dir ios cd))))"

definition remove_launched :: "('w, 'f) ios \<Rightarrow> 'f cell_directory \<Rightarrow> ('w, cell_dir_error, unit) act" where
  "remove_launched ios cd = act_then (remove_if_present ios cd LAUNCHED_FILE) (\<lambda>_. sync_dir ios cd)"

section \<open>The runtime directory, the created marker and the log\<close>

definition create_runtime_dir :: "('w, 'f) ios \<Rightarrow> 'f cell_directory \<Rightarrow> ('w, cell_dir_error, 'f) act" where
  "create_runtime_dir ios cd =
     (let path = entry_path cd RUNTIME_DIR in
      act_then (act_err (\<lambda>e. if already e then CdAlreadyExists path else CdIo path e)
        (make_directory_at ios (cdir_dir cd) RUNTIME_DIR)) (\<lambda>_.
      act_then (act_err (directory_error path) (open_private_directory ios (cdir_dir cd) RUNTIME_DIR)) (\<lambda>runtime.
      act_then (sync_dir ios cd) (\<lambda>_. done_with runtime))))"

definition has_created :: "('w, 'f) ios \<Rightarrow> 'f cell_directory \<Rightarrow> ('w, cell_dir_error, bool) act" where
  "has_created ios cd =
     (let path = entry_path cd CREATED_FILE in
      act_then (attempt_of (kind_at ios (cdir_dir cd) CREATED_FILE)) (\<lambda>k.
      case k of
        Ok kd \<Rightarrow> if kd = IsRegular then done_with True else fail_with (CdNotARegularFile path)
      | Err e \<Rightarrow> if gone_already e then done_with False else fail_with (CdIo path e)))"

definition create_created :: "('w, 'f) ios \<Rightarrow> 'f cell_directory \<Rightarrow> 'f writer_lock \<Rightarrow> ('w, cell_dir_error, unit) act" where
  "create_created ios cd lk =
     (if wl_root lk \<noteq> cdir_root cd then fail_with (CdForeignLock (wl_path lk))
      else act_then (write_new_file ios cd CREATED_FILE []) (\<lambda>_. sync_dir ios cd))"

definition open_supervisor_log :: "('w, 'f) ios \<Rightarrow> 'f cell_directory \<Rightarrow> ('w, cell_dir_error, 'f) act" where
  "open_supervisor_log ios cd =
     (let path = entry_path cd SUPERVISOR_LOG_FILE;
          how = (plainly WriteOnly)\<lparr>oh_append := True, oh_create := True\<rparr> in
      act_then (act_err (file_error path) (open_regular_at ios (cdir_dir cd) SUPERVISOR_LOG_FILE how PRIVATE_FILE)) (\<lambda>file.
      act_then (act_err (CdIo path) (change_mode ios file PRIVATE_FILE)) (\<lambda>_.
      act_then (act_err (CdIo path) (set_blocking ios file)) (\<lambda>_. done_with file))))"

section \<open>The supervisor's lock\<close>

definition check_lock_named :: "('w, 'f) ios \<Rightarrow> 'f cell_directory \<Rightarrow> 'f \<Rightarrow> string \<Rightarrow> ('w, cell_dir_error, unit) act" where
  "check_lock_named ios cd file path =
     act_then (act_err (CdIo path) (stat_name ios (cdir_dir cd) SUPERVISOR_LOCK_FILE)) (\<lambda>named.
     act_then (act_err (CdIo path) (stat_of ios file)) (\<lambda>held.
     if same_inode named held then done_with () else fail_with (CdLockNotNamed path)))"

definition create_locked_temporary :: "('w, 'f) ios \<Rightarrow> 'f cell_directory \<Rightarrow> ('w, cell_dir_error, 'f) act" where
  "create_locked_temporary ios cd =
     act_then (create_private_file ios cd SUPERVISOR_LOCK_TEMPORARY) (\<lambda>file.
     act_then (act_err (CdIo (entry_path cd SUPERVISOR_LOCK_TEMPORARY)) (lock_exclusive_nonblocking ios file)) (\<lambda>_.
     done_with file))"

definition lock_name_taken :: "('w, 'f) ios \<Rightarrow> 'f cell_directory \<Rightarrow> string \<Rightarrow> ('w, cell_dir_error, unit) act" where
  "lock_name_taken ios cd path =
     act_then (attempt_of (kind_at ios (cdir_dir cd) SUPERVISOR_LOCK_FILE)) (\<lambda>k.
     fail_with (if k = Ok IsSymlink then CdSymlink path
       else if k = Ok IsDirectory \<or> k = Ok IsOther then CdNotARegularFile path else CdAlreadyExists path))"

definition name_supervisor_lock :: "('w, 'f) ios \<Rightarrow> 'f cell_directory \<Rightarrow> 'f \<Rightarrow> string \<Rightarrow> ('w, cell_dir_error, unit) act" where
  "name_supervisor_lock ios cd file path =
     act_then
       (or_else
         (or_else (rename_no_replace ios (cdir_dir cd) SUPERVISOR_LOCK_TEMPORARY (cdir_dir cd) SUPERVISOR_LOCK_FILE) (\<lambda>e.
            if already e then lock_name_taken ios cd path else fail_with (CdIo path e)))
         (\<lambda>why. act_then (remove_if_present ios cd SUPERVISOR_LOCK_TEMPORARY) (\<lambda>_. fail_with why))) (\<lambda>_.
     act_then (check_lock_named ios cd file path) (\<lambda>_. sync_dir ios cd))"

definition create_supervisor_lock :: "('w, 'f) ios \<Rightarrow> 'f cell_directory \<Rightarrow> ('w, cell_dir_error, 'f supervisor_lock) act" where
  "create_supervisor_lock ios cd =
     (let path = entry_path cd SUPERVISOR_LOCK_FILE in
      act_then (remove_if_present ios cd SUPERVISOR_LOCK_TEMPORARY) (\<lambda>_.
      act_then
        (or_else (create_locked_temporary ios cd) (\<lambda>why.
           act_then (remove_if_present ios cd SUPERVISOR_LOCK_TEMPORARY) (\<lambda>_. fail_with why))) (\<lambda>file.
      releasing ios file
        (act_then (name_supervisor_lock ios cd file path) (\<lambda>_.
         done_with \<lparr>sl_file = file, sl_path = path\<rparr>)))))"

definition open_supervisor_lock :: "('w, 'f) ios \<Rightarrow> 'f cell_directory \<Rightarrow> ('w, cell_dir_error, 'f option) act" where
  "open_supervisor_lock ios cd =
     act_then (attempt_of (open_regular_at ios (cdir_dir cd) SUPERVISOR_LOCK_FILE (plainly ReadOnly) 0)) (\<lambda>opened.
     case opened of
       Ok file \<Rightarrow> done_with (Some file)
     | Err why \<Rightarrow>
         if why = FrIo (Errno ENOENT) then done_with None
         else fail_with (file_error (entry_path cd SUPERVISOR_LOCK_FILE) why))"

definition probe_supervisor_lock :: "('w, 'f) ios \<Rightarrow> 'f cell_directory \<Rightarrow> ('w, cell_dir_error, 'f lock_probe) act" where
  "probe_supervisor_lock ios cd =
     (let path = entry_path cd SUPERVISOR_LOCK_FILE in
      act_then (open_supervisor_lock ios cd) (\<lambda>opened.
      case opened of
        None \<Rightarrow> done_with LpMissing
      | Some file \<Rightarrow>
          act_then (attempt_of (lock_exclusive_nonblocking ios file)) (\<lambda>locked.
          case locked of
            Ok _ \<Rightarrow> done_with (LpFree \<lparr>sl_file = file, sl_path = path\<rparr>)
          | Err e \<Rightarrow> if raw_os_error e = Some EWOULDBLOCK then done_with LpHeld else fail_with (CdIo path e))))"

definition test_supervisor_lock :: "('w, 'f) ios \<Rightarrow> 'f cell_directory \<Rightarrow> ('w, 'e, 'f lock_test) act" where
  "test_supervisor_lock ios cd =
     act_then (attempt_of
       (act_then (probe_supervisor_lock ios cd) (\<lambda>probe.
        case probe of
          LpHeld \<Rightarrow> done_with LtHeld
        | LpFree lk \<Rightarrow> done_with (LtFree lk)
        | LpMissing \<Rightarrow> act_then (create_supervisor_lock ios cd) (\<lambda>lk. done_with (LtFree lk))))) (\<lambda>r.
     done_with (case r of Ok t \<Rightarrow> t | Err why \<Rightarrow> LtUntestable why))"

definition supervisor_lock_identity :: "('w, 'f) ios \<Rightarrow> 'f cell_directory \<Rightarrow> ('w, cell_dir_error, dir_identity) act" where
  "supervisor_lock_identity ios cd =
     (let path = entry_path cd SUPERVISOR_LOCK_FILE in
      act_then (open_supervisor_lock ios cd) (\<lambda>opened.
      case opened of
        None \<Rightarrow> fail_with (CdMissing path)
      | Some file \<Rightarrow>
          act_then (act_err (CdIo path) (stat_of ios file)) (\<lambda>s.
          done_with \<lparr>di_dev = st_dev s, di_ino = st_ino s\<rparr>)))"

end
