(* ===== verification/Instance_Safety.thy ===== *)
theory Instance_Safety
  imports Cell_Directory
begin

text \<open>
  What the calls of \<open>crates/plasmosome-core/src/instance.rs\<close> add up to, when the operating system keeps its
  word: a cell's number is never used twice, only a free test holds a supervisor's lock, and a marker reads back
  as it was written. What it promises is stated over the state of the world, with other processes free to act
  before and after each call.
\<close>

section \<open>Acts that keep a relation\<close>

text \<open>Every run of the act, whatever comes of it, leads from a world to one the relation allows.\<close>

definition steady :: "('w \<Rightarrow> 'w \<Rightarrow> bool) \<Rightarrow> ('w, 'e, 'a) act \<Rightarrow> bool" where
  "steady R m \<longleftrightarrow> (\<forall>w. R w (snd (m w)))"

definition preorder_on_worlds :: "('w \<Rightarrow> 'w \<Rightarrow> bool) \<Rightarrow> bool" where
  "preorder_on_worlds R \<longleftrightarrow> (\<forall>w. R w w) \<and> (\<forall>u v w. R u v \<longrightarrow> R v w \<longrightarrow> R u w)"

named_theorems steadily \<open>acts that keep a relation\<close>

lemma steady_simple [steadily]:
  assumes "preorder_on_worlds R"
  shows "steady R (done_with a)" "steady R (fail_with e)" "steady R (checked r)"
  using assms by (simp_all add: steady_def done_with_def fail_with_def checked_def preorder_on_worlds_def)

lemma steady_act_then [steadily]:
  assumes "preorder_on_worlds R" "steady R m" "\<And>a. steady R (k a)"
  shows "steady R (act_then m k)"
  unfolding steady_def
proof
  fix w
  obtain r w1 where m: "m w = (r, w1)" by (cases "m w") auto
  with assms(2) have first: "R w w1" unfolding steady_def by (metis snd_conv)
  show "R w (snd (act_then m k w))"
  proof (cases r)
    case (Inr a)
    from assms(3) [of a] have "R w1 (snd (k a w1))" by (simp add: steady_def)
    with first assms(1) m Inr show ?thesis unfolding preorder_on_worlds_def by (auto simp: act_then_def)
  qed (use first m in \<open>simp add: act_then_def\<close>)
qed

lemma steady_or_else [steadily]:
  assumes "preorder_on_worlds R" "steady R m" "\<And>e. steady R (h e)"
  shows "steady R (or_else m h)"
  unfolding steady_def
proof
  fix w
  obtain r w1 where m: "m w = (r, w1)" by (cases "m w") auto
  with assms(2) have first: "R w w1" unfolding steady_def by (metis snd_conv)
  show "R w (snd (or_else m h w))"
  proof (cases r)
    case (Inl e)
    from assms(3) [of e] have "R w1 (snd (h e w1))" by (simp add: steady_def)
    with first assms(1) m Inl show ?thesis unfolding preorder_on_worlds_def by (auto simp: or_else_def)
  qed (use first m in \<open>simp add: or_else_def\<close>)
qed

lemma steady_wrapped [steadily]:
  "steady R m \<Longrightarrow> steady R (act_err g m)" "steady R m \<Longrightarrow> steady R (attempt_of m)"
proof -
  have same: "snd (act_err g m w) = snd (m w)" "snd (attempt_of m w) = snd (m w)" for w
    by (simp_all add: act_err_def attempt_of_def split: prod.splits sum.splits)
  show "steady R m \<Longrightarrow> steady R (act_err g m)" "steady R m \<Longrightarrow> steady R (attempt_of m)"
    unfolding steady_def same by assumption+
qed

lemma steady_branches [steadily]:
  "(b \<Longrightarrow> steady R m) \<Longrightarrow> (\<not> b \<Longrightarrow> steady R n) \<Longrightarrow> steady R (if b then m else n)"
  "(\<And>e. steady R (f e)) \<Longrightarrow> (\<And>a. steady R (g a)) \<Longrightarrow> steady R (case r of Inl e \<Rightarrow> f e | Inr a \<Rightarrow> g a)"
  by (simp_all split: sum.split)

lemma steadyD: "steady R m \<Longrightarrow> m w = (r, w') \<Longrightarrow> R w w'"
  unfolding steady_def by (metis snd_conv)

section \<open>Names that are never used again\<close>

text \<open>
  What a local file system and the processes beside this one keep to. The names in \<open>cells\<close> and \<open>retired\<close> are
  functions of the world, and \<open>names\<close> gives those of an open directory. A name leaves \<open>cells\<close> only for
  \<open>retired\<close>, and \<open>retired\<close> only grows; each call takes effect at one moment between its start and its end.
\<close>

definition only_retired :: "('w \<Rightarrow> string set) \<Rightarrow> ('w \<Rightarrow> string set) \<Rightarrow> 'w \<Rightarrow> 'w \<Rightarrow> bool" where
  "only_retired cells retired w w' \<longleftrightarrow>
     cells w \<union> retired w \<subseteq> cells w' \<union> retired w' \<and> retired w \<subseteq> retired w'"

definition keeps_files :: "('w, 'f) ios \<Rightarrow> ('w \<Rightarrow> 'w \<Rightarrow> bool) \<Rightarrow> bool" where
  "keeps_files ios R \<longleftrightarrow>
     (\<forall>d name how mode. steady R (io_open ios d name how mode)) \<and>
     (\<forall>d name. steady R (io_stat_at ios d name)) \<and>
     (\<forall>d. steady R (io_read_dir ios d)) \<and>
     (\<forall>d name mode. steady R (io_mkdir ios d name mode)) \<and>
     (\<forall>d mode. steady R (io_fchmod ios d mode)) \<and>
     (\<forall>d name mode. steady R (io_fchmod_at ios d name mode)) \<and>
     (\<forall>d. steady R (io_fsync ios d)) \<and>
     (\<forall>d. steady R (os_dup (io_os ios) d)) \<and>
     (\<forall>d. steady R (os_acl_present (io_os ios) d))"

text \<open>A moment between two worlds.\<close>

definition at_some_time :: "('w \<Rightarrow> 'w \<Rightarrow> bool) \<Rightarrow> ('w \<Rightarrow> bool) \<Rightarrow> 'w \<Rightarrow> 'w \<Rightarrow> bool" where
  "at_some_time R P w w' \<longleftrightarrow> (\<exists>v. R w v \<and> R v w' \<and> P v)"

definition lists_directory ::
  "('w, 'f) ios \<Rightarrow> ('w \<Rightarrow> 'w \<Rightarrow> bool) \<Rightarrow> 'f \<Rightarrow> string \<Rightarrow> ('w \<Rightarrow> string set) \<Rightarrow> ('f \<Rightarrow> 'w \<Rightarrow> string set) \<Rightarrow> bool" where
  "lists_directory ios R root dir_name content names \<longleftrightarrow>
     (\<forall>w d w'. io_open ios root dir_name DIRECTORY_FLAGS 0 w = (Ok d, w') \<longrightarrow> names d = content) \<and>
     (\<forall>w w'. io_open ios root dir_name DIRECTORY_FLAGS 0 w = (Err ENOENT, w') \<longrightarrow>
       at_some_time R (\<lambda>v. content v = {}) w w')"

text \<open>
  The directory that is there is not reported missing: its user can always open it, or, when the mode of one
  that cannot be opened is set by name, \<open>ENOENT\<close> means that there is none. The doc of \<open>InstanceRoot\<close> names the
  systems that break the second half (\<open>musl\<close> without \<open>/proc\<close> and \<open>fchmodat2\<close>), so this is a law of its own.
\<close>

definition never_falsely_missing ::
  "('w, 'f) ios \<Rightarrow> ('w \<Rightarrow> 'w \<Rightarrow> bool) \<Rightarrow> 'f \<Rightarrow> string \<Rightarrow> ('w \<Rightarrow> string set) \<Rightarrow> bool" where
  "never_falsely_missing ios R root dir_name content \<longleftrightarrow>
     (\<forall>w w'. io_open ios root dir_name DIRECTORY_FLAGS 0 w \<noteq> (Err EACCES, w')) \<or>
     (\<forall>mode w w'. io_fchmod_at ios root dir_name mode w = (Err ENOENT, w') \<longrightarrow>
       at_some_time R (\<lambda>v. content v = {}) w w')"

definition honest_files ::
  "('w, 'f) ios \<Rightarrow> 'f \<Rightarrow> ('w \<Rightarrow> string set) \<Rightarrow> ('w \<Rightarrow> string set) \<Rightarrow> ('f \<Rightarrow> 'w \<Rightarrow> string set) \<Rightarrow> bool" where
  "honest_files ios root cells retired names \<longleftrightarrow>
     (let R = only_retired cells retired in
      keeps_files ios R \<and>
      lists_directory ios R root CELLS_DIR cells names \<and>
      lists_directory ios R root RETIRED_DIR retired names \<and>
      (\<forall>d w listed w' n. io_read_dir ios d w = (Ok listed, w') \<longrightarrow> (\<forall>e. Err e \<notin> set listed) \<longrightarrow>
        (\<forall>v. R w v \<longrightarrow> R v w' \<longrightarrow> n \<in> names d v) \<longrightarrow> Ok n \<in> set listed) \<and>
      (\<forall>d name mode w w'. io_mkdir ios d name mode w = (Ok (), w') \<longrightarrow> at_some_time R (\<lambda>v. name \<in> names d v) w w'))"

lemma preorder_only_retired: "preorder_on_worlds (only_retired cells retired)"
  unfolding preorder_on_worlds_def only_retired_def by blast

lemma names_of_ledger: "cell_ledger_path root cell = Ok p \<Longrightarrow> NUL \<notin> set cell"
  by (auto simp: cell_ledger_path_def cell_path_def and_then_eq_Inr validate_cell_id_Ok)

lemma only_retired_trans:
  "only_retired c r u v \<Longrightarrow> only_retired c r v w \<Longrightarrow> only_retired c r u w"
  unfolding only_retired_def by blast

lemma steady_helpers:
  assumes "keeps_files ios R" "preorder_on_worlds R"
  shows "steady R (open_name ios d name how mode)" "steady R (kind_at ios d name)" "steady R (list_dir ios d)"
    "steady R (make_directory_at ios d name)" "steady R (change_mode ios d mode)"
    "steady R (change_mode_at ios d name mode)" "steady R (sync_directory ios d)" "steady R (carries_acl ios d)"
  using assms unfolding keeps_files_def open_name_def kind_at_def stat_name_def list_dir_def make_directory_at_def
    change_mode_def change_mode_at_def sync_directory_def carries_acl_def
  by (auto intro!: steadily)

lemma steady_open_private:
  assumes "keeps_files ios R" "preorder_on_worlds R"
  shows "steady R (open_private_directory ios d name)"
  using assms unfolding open_private_directory_def refuse_acl_as_def directory_refusal_of_def
  by (intro steadily steady_helpers) assumption+

lemma steady_largest:
  assumes "keeps_files ios R" "preorder_on_worlds R"
  shows "steady R (largest_cell_number ios rt name)"
  using assms unfolding largest_cell_number_def Let_def
  by (intro steadily steady_open_private steady_helpers) assumption+

lemma steady_next:
  assumes "keeps_files ios R" "preorder_on_worlds R"
  shows "steady R (next_cell_number ios rt lowest)"
  using assms unfolding next_cell_number_def Let_def case_prod_beta
  by (intro steadily steady_largest) assumption+

lemma steady_create_cell_dir:
  assumes "keeps_files ios R" "preorder_on_worlds R"
  shows "steady R (create_cell_dir ios rt lk cell)"
  using assms unfolding create_cell_dir_def create_cells_def unless_exists_def Let_def
  by (intro steadily steady_open_private steady_helpers) assumption+

section \<open>Listing\<close>

lemma largest_listed_Ok:
  assumes "largest_listed k listed = Ok l"
  shows "k \<le> l \<and> (\<forall>e. Err e \<notin> set listed) \<and> (\<forall>n m. Ok n \<in> set listed \<longrightarrow> listed_cell_number n = Some m \<longrightarrow> m \<le> l)"
  using assms
proof (induction k listed rule: largest_listed.induct)
  case (2 k n rest)
  then obtain name where n: "n = Ok name"
    and rest: "largest_listed (max k (case listed_cell_number name of Some k \<Rightarrow> k | None \<Rightarrow> 0)) rest = Ok l"
    by (auto simp: and_then_eq_Inr)
  from 2(1) [OF n rest] n show ?case by (auto split: option.splits)
qed simp

lemma open_private_directory_Ok:
  "open_private_directory ios parent name w = (Ok d, w') \<Longrightarrow>
     \<exists>w1 w2. io_open ios parent name DIRECTORY_FLAGS 0 w1 = (Ok d, w2)"
  by (auto simp: open_private_directory_def acts open_name_def split: if_splits)

lemma directory_refusal_Missing:
  "directory_refusal_of ios parent name e w = (Err DrMissing, w') \<longleftrightarrow> raw_os_error e = Some ENOENT \<and> w' = w"
  by (auto simp: directory_refusal_of_def fail_with_def act_then_def attempt_of_def split: prod.splits if_splits)

lemma raw_ENOENT: "raw_os_error e = Some n \<longleftrightarrow> e = Errno n"
  by (cases e) auto

lemma act_then_Err:
  "act_then m k w = (Err e, w') \<longleftrightarrow> m w = (Err e, w') \<or> (\<exists>a w1. m w = (Ok a, w1) \<and> k a w1 = (Err e, w'))"
  by (auto simp: act_then_def split: prod.splits sum.splits)

lemma or_else_Err:
  "or_else m h w = (Err e, w') \<longleftrightarrow> (\<exists>d w1. m w = (Err d, w1) \<and> h d w1 = (Err e, w'))"
  by (auto simp: or_else_def split: prod.splits sum.splits)

lemma act_err_Err: "act_err g m w = (Err e, w') \<longleftrightarrow> (\<exists>d. m w = (Err d, w') \<and> e = g d)"
  by (auto simp: act_err_def split: prod.splits sum.splits)

lemma at_some_time_later:
  "preorder_on_worlds R \<Longrightarrow> at_some_time R P w w' \<Longrightarrow> R u w \<Longrightarrow> R w' v \<Longrightarrow> at_some_time R P u v"
  unfolding at_some_time_def preorder_on_worlds_def by blast

lemma missing_from_open:
  "act_then (or_else m (directory_refusal_of ios root dir_name)) (\<lambda>dir.
      act_then (refuse_acl_as ios dir DrIo DrAcl) (\<lambda>_.
      act_then (act_err DrIo (change_mode ios dir PRIVATE_DIRECTORY)) (\<lambda>_. done_with dir))) w =
     (Err DrMissing, w') \<longleftrightarrow> m w = (Err (Errno ENOENT), w')"
  by (auto simp: refuse_acl_as_def act_then_Err or_else_Err act_err_Err directory_refusal_Missing raw_ENOENT
      fail_with_def done_with_def split: if_splits)

text \<open>When \<open>open_private_directory\<close> calls a directory missing, it was empty at some moment.\<close>

lemma open_private_Missing:
  assumes files: "keeps_files ios R" and pre: "preorder_on_worlds R"
    and lists: "lists_directory ios R root dir_name content names"
    and found: "never_falsely_missing ios R root dir_name content"
    and missing: "open_private_directory ios root dir_name w = (Err DrMissing, w')"
  shows "at_some_time R (\<lambda>v. content v = {}) w w'"
proof -
  note steady = steady_helpers [OF files pre]
  have missing_open: "at_some_time R (\<lambda>v. content v = {}) u v"
    if "open_name ios root dir_name DIRECTORY_FLAGS 0 u = (Err (Errno ENOENT), v)" for u v
    using that lists by (auto simp: open_name_def act_err_Err lists_directory_def)
  have missing_mode: "at_some_time R (\<lambda>v. content v = {}) u v"
    if "open_name ios root dir_name DIRECTORY_FLAGS 0 u0 = (Err (Errno EACCES), u1)"
      "change_mode_at ios root dir_name PRIVATE_DIRECTORY u = (Err (Errno ENOENT), v)" for u0 u1 u v
    using that found by (auto simp: change_mode_at_def open_name_def act_err_Err never_falsely_missing_def)
  have refl: "R u u" for u using pre by (simp add: preorder_on_worlds_def)
  define inner where "inner = or_else (open_name ios root dir_name DIRECTORY_FLAGS 0) (\<lambda>e.
      if raw_os_error e = Some EACCES then
        act_then (attempt_of (kind_at ios root dir_name)) (\<lambda>k.
        if k = Ok IsDirectory then
          act_then (change_mode_at ios root dir_name PRIVATE_DIRECTORY) (\<lambda>_.
          open_name ios root dir_name DIRECTORY_FLAGS 0)
        else fail_with e)
      else fail_with e)"
  have "open_private_directory ios root dir_name = act_then
      (or_else inner (directory_refusal_of ios root dir_name)) (\<lambda>dir.
      act_then (refuse_acl_as ios dir DrIo DrAcl) (\<lambda>_.
      act_then (act_err DrIo (change_mode ios dir PRIVATE_DIRECTORY)) (\<lambda>_. done_with dir)))"
    by (simp add: inner_def open_private_directory_def)
  with missing have "inner w = (Err (Errno ENOENT), w')" by (simp only: missing_from_open)
  then obtain e u1 where first: "open_name ios root dir_name DIRECTORY_FLAGS 0 w = (Err e, u1)"
    and second: "(if raw_os_error e = Some EACCES then
        act_then (attempt_of (kind_at ios root dir_name)) (\<lambda>k.
        if k = Ok IsDirectory then
          act_then (change_mode_at ios root dir_name PRIVATE_DIRECTORY) (\<lambda>_.
          open_name ios root dir_name DIRECTORY_FLAGS 0)
        else fail_with e)
      else fail_with e) u1 = (Err (Errno ENOENT), w')"
    unfolding inner_def or_else_Err by blast
  consider
      "open_name ios root dir_name DIRECTORY_FLAGS 0 w = (Err (Errno ENOENT), w')"
    | k u1 u2 where "open_name ios root dir_name DIRECTORY_FLAGS 0 w = (Err (Errno EACCES), u1)" "kind_at ios root dir_name u1 = (k, u2)"
        "change_mode_at ios root dir_name PRIVATE_DIRECTORY u2 = (Err (Errno ENOENT), w')"
    | e k u1 u2 u3 where "open_name ios root dir_name DIRECTORY_FLAGS 0 w = (Err e, u1)" "kind_at ios root dir_name u1 = (k, u2)"
        "change_mode_at ios root dir_name PRIVATE_DIRECTORY u2 = (Ok (), u3)"
        "open_name ios root dir_name DIRECTORY_FLAGS 0 u3 = (Err (Errno ENOENT), w')"
  proof (cases "raw_os_error e = Some EACCES")
    case True
    obtain k u2 where k: "kind_at ios root dir_name u1 = (k, u2)" by (cases "kind_at ios root dir_name u1") auto
    with True second have tried: "(if k = Ok IsDirectory then
          act_then (change_mode_at ios root dir_name PRIVATE_DIRECTORY) (\<lambda>_.
          open_name ios root dir_name DIRECTORY_FLAGS 0)
        else fail_with e) u2 = (Err (Errno ENOENT), w')"
      by (simp add: act_then_def attempt_of_def)
    from True first have "open_name ios root dir_name DIRECTORY_FLAGS 0 w = (Err (Errno EACCES), u1)"
      by (cases e) simp_all
    from True tried that(2) [OF this k] that(3) [OF first k] show ?thesis
      by (auto simp: act_then_Err fail_with_def raw_ENOENT EACCES_def ENOENT_def split: if_splits)
  next
    case False
    with second have "e = Errno ENOENT" "u1 = w'" by (simp_all add: fail_with_def)
    with first that(1) show ?thesis by simp
  qed
  then show ?thesis
  proof cases
    case 1
    then show ?thesis by (rule missing_open)
  next
    case (2 k u1 u2)
    with steady have "R w u1" "R u1 u2" by (blast dest: steadyD)+
    with pre have "R w u2" unfolding preorder_on_worlds_def by blast
    from at_some_time_later [OF pre missing_mode [OF 2(1,3)] this refl] show ?thesis .
  next
    case (3 e k u1 u2 u3)
    with steady have "R w u1" "R u1 u2" "R u2 u3" by (blast dest: steadyD)+
    with pre have "R w u3" unfolding preorder_on_worlds_def by blast
    from at_some_time_later [OF pre missing_open [OF 3(4)] this refl] show ?thesis .
  qed
qed

text \<open>A name that is there all the while is counted, or the directory was empty at some moment.\<close>

lemma largest_counts:
  assumes honest: "honest_files ios (rt_dir rt) cells retired names"
    and R: "R = only_retired cells retired"
    and lists: "lists_directory ios R (rt_dir rt) dir_name content names"
    and found: "never_falsely_missing ios R (rt_dir rt) dir_name content"
    and run: "largest_cell_number ios rt dir_name w = (Ok k, w')"
    and there: "\<And>v. R w v \<Longrightarrow> R v w' \<Longrightarrow> n \<in> content v"
    and number: "listed_cell_number n = Some m"
  shows "m \<le> k"
proof -
  have files: "keeps_files ios R" using honest by (simp add: honest_files_def Let_def R)
  have pre: "preorder_on_worlds R" by (simp add: R preorder_only_retired)
  obtain r w1 where r: "open_private_directory ios (rt_dir rt) dir_name w = (r, w1)"
    by (cases "open_private_directory ios (rt_dir rt) dir_name w") auto
  consider
      "open_private_directory ios (rt_dir rt) dir_name w = (Err DrMissing, w')"
    | d w1 listed where "open_private_directory ios (rt_dir rt) dir_name w = (Ok d, w1)"
        "list_dir ios d w1 = (Ok listed, w')" "largest_listed 0 listed = Ok k"
  proof (cases r)
    case (Inl why)
    with run r that(1) show ?thesis
      by (cases "why = DrMissing") (auto simp: largest_cell_number_def Let_def act_then_def attempt_of_def done_with_def fail_with_def)
  next
    case (Inr d)
    with run r that(2) show ?thesis by (auto simp: largest_cell_number_def Let_def acts)
  qed
  then show ?thesis
  proof cases
    case 1
    from open_private_Missing [OF files pre lists found 1] there show ?thesis unfolding at_some_time_def by blast
  next
    case (2 d w1 listed)
    from open_private_directory_Ok [OF 2(1)] lists have d: "names d = content"
      unfolding lists_directory_def by blast
    from 2(2) obtain raw where raw: "io_read_dir ios d w1 = (Ok raw, w')"
      and listed: "listed = map (map_sum Errno id) (filter (\<lambda>n. n \<noteq> Ok ''.'' \<and> n \<noteq> Ok ''..'') raw)"
      by (auto simp: list_dir_def acts)
    from steadyD [OF steady_open_private [OF files pre] 2(1)] have "R w w1" .
    with there pre d have always: "\<And>v. R w1 v \<Longrightarrow> R v w' \<Longrightarrow> n \<in> names d v"
      unfolding preorder_on_worlds_def by blast
    have "\<forall>e. Err e \<notin> set raw"
    proof (intro allI notI)
      fix e assume "Err e \<in> set raw"
      then have "Err (Errno e) \<in> set listed" unfolding listed by (force simp: image_iff)
      with largest_listed_Ok [OF 2(3)] show False by blast
    qed
    with honest raw always have "Ok n \<in> set raw" by (auto simp: honest_files_def Let_def R)
    moreover have "n \<noteq> ''.''" "n \<noteq> ''..''"
      using number by (auto simp: listed_cell_number_def CELL_ID_PREFIX_def)
    ultimately have "Ok n \<in> set listed" unfolding listed by (force simp: image_iff)
    with largest_listed_Ok [OF 2(3)] number show ?thesis by blast
  qed
qed

section \<open>Allocating\<close>

lemma next_number_is_new:
  assumes honest: "honest_files ios (rt_dir rt) cells retired names"
    and found: "never_falsely_missing ios (only_retired cells retired) (rt_dir rt) CELLS_DIR cells"
      "never_falsely_missing ios (only_retired cells retired) (rt_dir rt) RETIRED_DIR retired"
    and run: "next_cell_number ios rt lowest w = (Ok n, w')"
  shows "1 \<le> n \<and> n \<le> MAX_CELL_NUMBER \<and>
    (\<forall>x \<in> cells w \<union> retired w. \<forall>m. listed_cell_number x = Some m \<longrightarrow> m < n)"
proof -
  let ?R = "only_retired cells retired"
  have files: "keeps_files ios ?R" using honest by (simp add: honest_files_def Let_def)
  note pre = preorder_only_retired [of cells retired]
  from run obtain k1 w1 k2 where k1: "largest_cell_number ios rt CELLS_DIR w = (Ok k1, w1)"
    and k2: "largest_cell_number ios rt RETIRED_DIR w1 = (Ok k2, w')"
    and n: "n = max lowest (max k1 k2 + 1)" "n \<le> MAX_CELL_NUMBER"
    by (auto simp: next_cell_number_def acts Let_def max_def split: if_splits)
  have first: "?R w w1" and second: "?R w1 w'"
    using steadyD [OF steady_largest [OF files pre] k1] steadyD [OF steady_largest [OF files pre] k2] .
  have "m < n" if x: "x \<in> cells w \<union> retired w" and number: "listed_cell_number x = Some m" for x m
  proof (cases "\<forall>v. ?R w v \<longrightarrow> ?R v w1 \<longrightarrow> x \<in> cells v")
    case True
    with largest_counts [OF honest refl _ found(1) k1 _ number] honest have "m \<le> k1"
      by (simp add: honest_files_def Let_def)
    with n(1) show ?thesis by simp
  next
    case False
    with x have "x \<in> retired w1" unfolding only_retired_def by blast
    then have "\<And>v. ?R w1 v \<Longrightarrow> ?R v w' \<Longrightarrow> x \<in> retired v" unfolding only_retired_def by blast
    with largest_counts [OF honest refl _ found(2) k2 _ number] honest have "m \<le> k2"
      by (simp add: honest_files_def Let_def)
    with n(1) show ?thesis by simp
  qed
  with n show ?thesis by (auto simp: max_def)
qed

lemma create_cell_dir_makes:
  assumes honest: "honest_files ios (rt_dir rt) cells retired names"
    and run: "create_cell_dir ios rt lk cell w = (Ok cd, w')"
  shows "cdir_cell cd = cell \<and> cell \<in> cells w' \<union> retired w'"
proof -
  let ?R = "only_retired cells retired"
  have files: "keeps_files ios ?R" using honest by (simp add: honest_files_def Let_def)
  note pre = preorder_only_retired [of cells retired]
  from run obtain d w1 w2 w3 w4 dir where made: "create_cells ios rt (path_join (rt_path rt) CELLS_DIR) w1 = (Ok d, w2)"
    and mkdir: "io_mkdir ios d cell PRIVATE_DIRECTORY w2 = (Ok (), w3)"
    and opened: "open_private_directory ios d cell w3 = (Ok dir, w4)"
    and synced: "sync_directory ios d w4 = (Ok (), w')" and cell: "cdir_cell cd = cell"
    by (auto simp: create_cell_dir_def Let_def acts c_name_def make_directory_at_def cell_dir_from_def split: if_splits)
  from made obtain w5 w6 where "open_private_directory ios (rt_dir rt) CELLS_DIR w5 = (Ok d, w6)"
    by (auto simp: create_cells_def acts)
  from open_private_directory_Ok [OF this] honest have d: "names d = cells"
    by (auto simp: honest_files_def Let_def lists_directory_def)
  from honest mkdir have "at_some_time ?R (\<lambda>v. cell \<in> names d v) w2 w3"
    by (auto simp: honest_files_def Let_def)
  with d have "at_some_time ?R (\<lambda>v. cell \<in> cells v) w2 w3" by simp
  then have "cell \<in> cells w3 \<union> retired w3" unfolding at_some_time_def only_retired_def by blast
  moreover have "?R w3 w4" "?R w4 w'"
    using steadyD [OF steady_open_private [OF files pre] opened] steadyD [OF steady_helpers(7) [OF files pre] synced] .
  ultimately show ?thesis using cell unfolding only_retired_def by blast
qed

lemma taken_Ok:
  "(case why of CdAlreadyExists path \<Rightarrow> f path | _ \<Rightarrow> fail_with e) w = (Ok a, w') \<longleftrightarrow>
     (\<exists>path. why = CdAlreadyExists path \<and> f path w = (Ok a, w'))"
  by (cases why) (simp_all add: acts)

lemma allocate_loop_new:
  assumes honest: "honest_files ios (rt_dir rt) cells retired names"
    and found: "never_falsely_missing ios (only_retired cells retired) (rt_dir rt) CELLS_DIR cells"
      "never_falsely_missing ios (only_retired cells retired) (rt_dir rt) RETIRED_DIR retired"
  shows "allocate_loop ios rt lk tries lowest w = (Ok cd, w') \<Longrightarrow>
    \<exists>n. cdir_cell cd = format_cell_id n \<and> 1 \<le> n \<and> n \<le> MAX_CELL_NUMBER \<and>
      (\<forall>x \<in> cells w \<union> retired w. \<forall>m. listed_cell_number x = Some m \<longrightarrow> m < n) \<and>
      format_cell_id n \<in> cells w' \<union> retired w'"
proof (induction tries arbitrary: lowest w)
  case (Suc tries)
  let ?R = "only_retired cells retired"
  have files: "keeps_files ios ?R" using honest by (simp add: honest_files_def Let_def)
  note pre = preorder_only_retired [of cells retired]
  from Suc.prems obtain n w1 where next_n: "next_cell_number ios rt lowest w = (Ok n, w1)"
    and rest: "create_cell_dir ios rt lk (format_cell_id n) w1 = (Ok cd, w') \<or>
      (\<exists>path w2. create_cell_dir ios rt lk (format_cell_id n) w1 = (Err (CdAlreadyExists path), w2) \<and>
        allocate_loop ios rt lk tries (n + 1) w2 = (Ok cd, w'))"
    by (auto simp: acts taken_Ok)
  note new = next_number_is_new [OF honest found next_n]
  from rest show ?case
  proof (elim disjE exE conjE)
    assume "create_cell_dir ios rt lk (format_cell_id n) w1 = (Ok cd, w')"
    from create_cell_dir_makes [OF honest this] new show ?thesis by blast
  next
    fix path w2
    assume taken: "create_cell_dir ios rt lk (format_cell_id n) w1 = (Err (CdAlreadyExists path), w2)"
      and again: "allocate_loop ios rt lk tries (n + 1) w2 = (Ok cd, w')"
    have "?R w w1" "?R w1 w2"
      using steadyD [OF steady_next [OF files pre] next_n] steadyD [OF steady_create_cell_dir [OF files pre] taken] .
    then have "cells w \<union> retired w \<subseteq> cells w2 \<union> retired w2" unfolding only_retired_def by blast
    with Suc.IH [OF again] show ?thesis by blast
  qed
qed (simp add: acts)

section \<open>Locks\<close>

text \<open>
  What \<open>flock\<close> promises of the locks this process holds, by descriptor: taking one adds it, releasing it takes
  it away, a descriptor just opened holds none, and no other call changes them.
\<close>

definition honest_locks :: "('w, 'f) ios \<Rightarrow> ('w \<Rightarrow> 'f set) \<Rightarrow> bool" where
  "honest_locks ios held \<longleftrightarrow>
     (let same = (\<lambda>w w'. held w' = held w) in
      (\<forall>d name how mode. steady same (io_open ios d name how mode)) \<and>
      (\<forall>d name how mode w f w'. io_open ios d name how mode w = (Ok f, w') \<longrightarrow> f \<notin> held w) \<and>
      (\<forall>d name. steady same (io_stat_at ios d name)) \<and>
      (\<forall>d name. steady same (io_unlink ios d name)) \<and>
      (\<forall>d name d' name'. steady same (io_rename_new ios d name d' name')) \<and>
      (\<forall>f mode. steady same (io_fchmod ios f mode)) \<and>
      (\<forall>f. steady same (io_fsync ios f)) \<and>
      (\<forall>f. steady same (os_dup (io_os ios) f)) \<and>
      (\<forall>f. steady same (os_fstat (io_os ios) f)) \<and>
      (\<forall>f. steady same (os_acl_present (io_os ios) f)) \<and>
      (\<forall>f w r w'. io_flock ios f w = (r, w') \<longrightarrow> held w' = (if is_ok r then insert f (held w) else held w)) \<and>
      (\<forall>f w. held (io_unlock ios f w) = held w - {f}))"

definition holding_same :: "('w \<Rightarrow> 'f set) \<Rightarrow> 'w \<Rightarrow> 'w \<Rightarrow> bool" where
  "holding_same held w w' \<longleftrightarrow> held w' = held w"

lemma preorder_holding: "preorder_on_worlds (holding_same held)"
  by (simp add: preorder_on_worlds_def holding_same_def)

lemma fresh_descriptor:
  assumes "honest_locks ios held" "io_open ios d name how mode w = (Ok f, w')"
  shows "f \<notin> held w"
proof -
  have "\<forall>d name how mode w f w'. io_open ios d name how mode w = (Ok f, w') \<longrightarrow> f \<notin> held w"
    using assms(1) unfolding honest_locks_def Let_def by (elim conjE) assumption
  with assms(2) show ?thesis by blast
qed

lemma honest_locksD:
  assumes "honest_locks ios held"
  shows "steady (holding_same held) (io_open ios d name how mode)" "steady (holding_same held) (io_stat_at ios d name)"
    "steady (holding_same held) (io_unlink ios d name)" "steady (holding_same held) (io_rename_new ios d name d' name')"
    "steady (holding_same held) (io_fchmod ios f m)" "steady (holding_same held) (io_fsync ios f)"
    "steady (holding_same held) (os_dup (io_os ios) f)" "steady (holding_same held) (os_fstat (io_os ios) f)"
    "steady (holding_same held) (os_acl_present (io_os ios) f)"
    "io_flock ios f w = (r, w') \<Longrightarrow> held w' = (if is_ok r then insert f (held w) else held w)"
    "held (io_unlock ios f w) = held w - {f}"
  using assms by (simp_all add: honest_locks_def Let_def holding_same_def [abs_def] steady_def)

lemma steady_lock_helpers:
  assumes "honest_locks ios held"
  shows "steady (holding_same held) (open_name ios d name how mode)"
    "steady (holding_same held) (kind_at ios d name)" "steady (holding_same held) (stat_name ios d name)"
    "steady (holding_same held) (stat_of ios f)" "steady (holding_same held) (change_mode ios f m)"
    "steady (holding_same held) (carries_acl ios f)" "steady (holding_same held) (sync_directory ios f)"
    "steady (holding_same held) (remove_at ios d name)"
    "steady (holding_same held) (rename_no_replace ios d name d' name')"
  unfolding open_name_def kind_at_def stat_name_def stat_of_def change_mode_def carries_acl_def sync_directory_def
    remove_at_def rename_no_replace_def
  using preorder_holding honest_locksD [OF assms] by (intro steadily; blast)+

lemma steady_lock_parts:
  assumes "honest_locks ios held"
  shows "steady (holding_same held) (remove_if_present ios cd name)"
    "steady (holding_same held) (create_private_file ios cd name)"
    "steady (holding_same held) (name_supervisor_lock ios cd f path)"
    "steady (holding_same held) (open_supervisor_lock ios cd)"
  unfolding remove_if_present_def create_private_file_def name_supervisor_lock_def open_supervisor_lock_def
    unless_exists_def refuse_acl_as_def lock_name_taken_def check_lock_named_def sync_dir_def cell_sync_def
    open_regular_at_def file_refusal_of_def is_regular_def Let_def
  by (intro steadily preorder_holding steady_lock_helpers [OF assms])+

lemma create_private_file_fresh:
  assumes "honest_locks ios held" "create_private_file ios cd name w = (Ok f, w')"
  shows "f \<notin> held w"
  using assms(2) fresh_descriptor [OF assms(1)]
  by (auto simp: create_private_file_def open_name_def Let_def acts)

lemma locked_temporary:
  assumes honest: "honest_locks ios held" and run: "create_locked_temporary ios cd w = (r, w')"
  shows "(case r of Ok f \<Rightarrow> f \<notin> held w \<and> held w' = insert f (held w) | Err _ \<Rightarrow> held w' = held w)"
proof -
  obtain r1 w1 where r1: "create_private_file ios cd SUPERVISOR_LOCK_TEMPORARY w = (r1, w1)"
    by (cases "create_private_file ios cd SUPERVISOR_LOCK_TEMPORARY w") auto
  from steadyD [OF steady_lock_parts(2) [OF honest] r1] have same: "held w1 = held w" by (simp add: holding_same_def)
  show ?thesis
  proof (cases r1)
    case (Inl e)
    with run r1 same show ?thesis by (auto simp: create_locked_temporary_def act_then_def)
  next
    case (Inr f)
    with create_private_file_fresh [OF honest] r1 have fresh: "f \<notin> held w" by blast
    obtain r2 w2 where r2: "io_flock ios f w1 = (r2, w2)" by (cases "io_flock ios f w1") auto
    from honest_locksD(10) [OF honest r2] same have "held w2 = (if is_ok r2 then insert f (held w) else held w)" by simp
    with run r1 Inr r2 fresh show ?thesis
      by (cases r2) (auto simp: create_locked_temporary_def act_then_def act_err_def lock_exclusive_nonblocking_def
          done_with_def is_ok_def)
  qed
qed

text \<open>That a file is the one its directory names \<open>supervisor.lock\<close>, as one look at the name while it was held.\<close>

definition seen_named :: "('w, 'f) ios \<Rightarrow> ('w \<Rightarrow> 'f set) \<Rightarrow> 'f cell_directory \<Rightarrow> 'f \<Rightarrow> bool" where
  "seen_named ios held cd f \<longleftrightarrow>
     (\<exists>u s v t w. f \<in> held u \<and> io_stat_at ios (cdir_dir cd) SUPERVISOR_LOCK_FILE u = (Ok s, v) \<and>
       os_fstat (io_os ios) f v = (Ok t, w) \<and> same_inode s t)"

lemma name_supervisor_lock_seen:
  assumes honest: "honest_locks ios held" and run: "name_supervisor_lock ios cd f path w = (Ok u, w')" and "f \<in> held w"
  shows "seen_named ios held cd f"
proof -
  obtain w1 where check: "\<exists>w2. check_lock_named ios cd f path w1 = (Ok (), w2)"
    and renamed: "rename_no_replace ios (cdir_dir cd) SUPERVISOR_LOCK_TEMPORARY (cdir_dir cd) SUPERVISOR_LOCK_FILE w = (Ok (), w1)"
    using run by (auto simp: name_supervisor_lock_def lock_name_taken_def acts split: if_splits)
  from steadyD [OF steady_lock_helpers(9) [OF honest] renamed] assms(3) have "f \<in> held w1"
    by (simp add: holding_same_def)
  with check show ?thesis
    by (auto simp: check_lock_named_def seen_named_def stat_name_def stat_of_def acts split: if_splits)
qed

lemma create_supervisor_lock_holds:
  assumes honest: "honest_locks ios held" and run: "create_supervisor_lock ios cd w = (r, w')"
  shows "(case r of
      Ok lk \<Rightarrow> held w' = insert (sl_file lk) (held w) \<and> sl_file lk \<notin> held w \<and> seen_named ios held cd (sl_file lk)
    | Err _ \<Rightarrow> held w' = held w)"
proof -
  define path where "path = entry_path cd SUPERVISOR_LOCK_FILE"
  obtain r1 w1 where r1: "remove_if_present ios cd SUPERVISOR_LOCK_TEMPORARY w = (r1, w1)"
    by (cases "remove_if_present ios cd SUPERVISOR_LOCK_TEMPORARY w") auto
  from steadyD [OF steady_lock_parts(1) [OF honest] r1] have same: "held w1 = held w" by (simp add: holding_same_def)
  obtain r2 w2 where r2: "create_locked_temporary ios cd w1 = (r2, w2)" by (cases "create_locked_temporary ios cd w1") auto
  note taken = locked_temporary [OF honest r2]
  show ?thesis
  proof (cases r1)
    case (Inl e)
    with run r1 same show ?thesis by (auto simp: create_supervisor_lock_def Let_def act_then_def)
  next
    case (Inr u)
    show ?thesis
    proof (cases r2)
      case (Inl e)
      with taken have "held w2 = held w" by (simp add: same)
      moreover obtain r3 w3 where r3: "remove_if_present ios cd SUPERVISOR_LOCK_TEMPORARY w2 = (r3, w3)"
        by (cases "remove_if_present ios cd SUPERVISOR_LOCK_TEMPORARY w2") auto
      moreover from steadyD [OF steady_lock_parts(1) [OF honest] r3] have "held w3 = held w2" by (simp add: holding_same_def)
      ultimately show ?thesis using run r1 Inr r2 Inl
        by (cases r3) (auto simp: create_supervisor_lock_def Let_def act_then_def or_else_def fail_with_def)
    next
      case (Inr f)
      with taken same have f: "f \<notin> held w" "held w2 = insert f (held w)" by simp_all
      obtain r3 w3 where r3: "name_supervisor_lock ios cd f path w2 = (r3, w3)"
        by (cases "name_supervisor_lock ios cd f path w2") auto
      from steadyD [OF steady_lock_parts(3) [OF honest] r3] f(2) have held: "held w3 = insert f (held w)"
        by (simp add: holding_same_def)
      show ?thesis
      proof (cases r3)
        case (Inl e)
        have "held (io_unlock ios f w3) = held w" using honest_locksD(11) [OF honest] held f(1) by auto
        with run r1 \<open>r1 = Inr u\<close> r2 Inr r3 Inl show ?thesis
          by (auto simp: create_supervisor_lock_def Let_def act_then_def or_else_def releasing_def path_def)
      next
        case (Inr u')
        with r3 f(2) have "seen_named ios held cd f" by (auto intro: name_supervisor_lock_seen [OF honest, of cd f path w2])
        with run r1 \<open>r1 = Inr u\<close> r2 \<open>r2 = Inr f\<close> r3 Inr held f(1) show ?thesis
          by (auto simp: create_supervisor_lock_def Let_def act_then_def or_else_def releasing_def path_def done_with_def)
      qed
    qed
  qed
qed

lemma open_supervisor_lock_fresh:
  assumes "honest_locks ios held" "open_supervisor_lock ios cd w = (Ok (Some f), w')"
  shows "f \<notin> held w \<and> (\<exists>u. io_open ios (cdir_dir cd) SUPERVISOR_LOCK_FILE (file_flags (plainly ReadOnly)) 0 w = (Ok f, u))"
proof -
  obtain r w1 where r: "open_regular_at ios (cdir_dir cd) SUPERVISOR_LOCK_FILE (plainly ReadOnly) 0 w = (r, w1)"
    by (cases "open_regular_at ios (cdir_dir cd) SUPERVISOR_LOCK_FILE (plainly ReadOnly) 0 w") auto
  with assms(2) have "r = Ok f"
    by (cases r) (auto simp: open_supervisor_lock_def act_then_def attempt_of_def done_with_def fail_with_def split: if_splits)
  with r fresh_descriptor [OF assms(1)] show ?thesis
    by (fastforce simp: open_regular_at_def open_name_def acts split: if_splits)
qed

end
