(* ===== verification/Instance_Kept.thy ===== *)
theory Instance_Kept
  imports Instance_Safety
begin

text \<open>
  The properties of \<open>crates/plasmosome-core/src/instance.rs\<close>, with concrete operating systems that keep their
  word: one with two directories of cells, one with the locks a process holds.
\<close>

section \<open>Small operating systems\<close>

text \<open>Calls that do nothing: every file is a regular one without an access control list.\<close>

definition still_os :: "('w, 'f) os" where
  "still_os =
     \<lparr>os_euid = 0,
      os_open_root = fail_with ENOENT,
      os_open_at = \<lambda>p n a. fail_with ENOENT,
      os_fstat = \<lambda>f. done_with \<lparr>st_mode = 0x8180, st_uid = 0, st_dev = 1, st_ino = 1\<rparr>,
      os_stat_at = \<lambda>d n. fail_with ENOENT,
      os_dup = \<lambda>f. done_with f,
      os_clear_nonblocking = \<lambda>f. done_with (),
      os_ignored_ownership = \<lambda>f. done_with False,
      os_replacing_acl = \<lambda>f. done_with False,
      os_acl_present = \<lambda>f. done_with False,
      os_read_dir = \<lambda>f. done_with [],
      os_socket = fail_with ENOENT,
      os_bind = \<lambda>f p. done_with (),
      os_chmod_at = \<lambda>d n mode nofollow. done_with (),
      os_listen = \<lambda>f n. done_with (),
      os_set_nonblocking = \<lambda>f b. done_with (),
      os_rename_new = \<lambda>d a b. done_with (),
      os_unlink_at = \<lambda>d n. done_with (),
      os_accept = \<lambda>f. fail_with ENOENT,
      os_peer_credentials = \<lambda>f. done_with 0\<rparr>"

definition still_ios :: "('w, 'f) ios" where
  "still_ios =
     \<lparr>io_os = still_os,
      io_open = \<lambda>d n how mode. fail_with ENOENT,
      io_stat_at = \<lambda>d n. fail_with ENOENT,
      io_read_dir = \<lambda>d. done_with [],
      io_mkdir = \<lambda>d n mode. fail_with EEXIST,
      io_unlink = \<lambda>d n. fail_with ENOENT,
      io_rename = \<lambda>d a b. done_with (),
      io_rename_new = \<lambda>d a e b. done_with (),
      io_fchmod = \<lambda>f mode. done_with (),
      io_fchmod_at = \<lambda>d n mode. done_with (),
      io_flock = \<lambda>f. done_with (),
      io_unlock = \<lambda>f w. w,
      io_fsync = \<lambda>f. done_with (),
      io_write_all = \<lambda>f s. done_with (),
      io_read_to_end = \<lambda>f n. done_with []\<rparr>"

text \<open>The cells and the retired cells by name, and the directories that can be open.\<close>

datatype cells_fd = FdRoot | FdCells | FdRetired | FdCell string

type_synonym cells_world = "string list \<times> string list"

definition cells_open :: "cells_fd \<Rightarrow> string \<Rightarrow> (cells_world, errno, cells_fd) act" where
  "cells_open d name w =
     (case d of
        FdRoot \<Rightarrow> (if name = CELLS_DIR then Ok FdCells else if name = RETIRED_DIR then Ok FdRetired else Err ENOENT)
      | FdCells \<Rightarrow> (if name \<in> set (fst w) then Ok (FdCell name) else Err ENOENT)
      | _ \<Rightarrow> Err ENOENT, w)"

definition cells_names :: "cells_fd \<Rightarrow> cells_world \<Rightarrow> string list" where
  "cells_names d w = (case d of FdCells \<Rightarrow> fst w | FdRetired \<Rightarrow> snd w | _ \<Rightarrow> [])"

definition cells_mkdir :: "cells_fd \<Rightarrow> string \<Rightarrow> (cells_world, errno, unit) act" where
  "cells_mkdir d name w =
     (if d = FdCells \<and> name \<notin> set (fst w) then (Ok (), (fst w @ [name], snd w)) else (Err EEXIST, w))"

definition cells_ios :: "(cells_world, cells_fd) ios" where
  "cells_ios = still_ios\<lparr>io_open := \<lambda>d n how mode. cells_open d n,
     io_read_dir := \<lambda>d w. (Ok (map Ok (cells_names d w)), w), io_mkdir := \<lambda>d n mode. cells_mkdir d n\<rparr>"

definition demo_root :: "cells_fd instance_root" where
  "demo_root = \<lparr>rt_dir = FdRoot, rt_path = ''/i'', rt_identity = \<lparr>di_dev = 1, di_ino = 2\<rparr>\<rparr>"

definition demo_lock :: "cells_fd writer_lock" where
  "demo_lock = \<lparr>wl_file = FdRoot, wl_path = ''/i/controller.lock'', wl_root = \<lparr>di_dev = 1, di_ino = 2\<rparr>\<rparr>"

lemma cells_ios_honest:
  "honest_files cells_ios FdRoot (\<lambda>w. set (fst w)) (\<lambda>w. set (snd w)) (\<lambda>d w. set (cells_names d w))"
proof -
  let ?c = "\<lambda>w::cells_world. set (fst w)" and ?r = "\<lambda>w::cells_world. set (snd w)"
  let ?R = "only_retired ?c ?r"
  have refl: "?R w w" for w by (simp add: only_retired_def)
  have made: "?R w (snd (cells_mkdir d n w))" for d n w by (auto simp: cells_mkdir_def only_retired_def)
  have "keeps_files cells_ios ?R"
    by (auto simp: keeps_files_def steady_def cells_ios_def still_ios_def still_os_def cells_open_def refl made
        fail_with_def done_with_def)
  moreover have "lists_directory cells_ios ?R FdRoot CELLS_DIR ?c (\<lambda>d w. set (cells_names d w))"
    "lists_directory cells_ios ?R FdRoot RETIRED_DIR ?r (\<lambda>d w. set (cells_names d w))"
    by (auto simp: lists_directory_def cells_ios_def still_ios_def cells_open_def cells_names_def CELLS_DIR_def
        RETIRED_DIR_def done_with_def)
  moreover have "n \<in> set (cells_names d w) \<longrightarrow> (Ok n :: errno + string) \<in> set (map Ok (cells_names d w))" for n d w by simp
  moreover have "at_some_time ?R (\<lambda>v. n \<in> set (cells_names d v)) w w'" if "cells_mkdir d n w = (Ok (), w')" for d n w w'
  proof -
    have "?R w w'" "n \<in> set (cells_names d w')"
      using that made [of w d n] by (auto simp: cells_mkdir_def cells_names_def split: if_splits)
    with refl [of w'] show ?thesis unfolding at_some_time_def by blast
  qed
  ultimately show ?thesis
    by (auto simp: honest_files_def Let_def cells_ios_def still_ios_def refl)
qed

lemma cells_ios_found: "never_falsely_missing cells_ios R FdRoot dir_name content"
  by (auto simp: never_falsely_missing_def cells_ios_def still_ios_def cells_open_def EACCES_def ENOENT_def)

text \<open>The locks held, by number; a new descriptor has a number above all of them.\<close>

definition locks_ios :: "(nat list, nat) ios" where
  "locks_ios = still_ios\<lparr>io_open := \<lambda>d n how mode w. (Ok (Suc (sum_list w)), w),
     io_flock := \<lambda>f w. (Ok (), f # w), io_unlock := \<lambda>f w. filter (\<lambda>g. g \<noteq> f) w\<rparr>"

definition demo_cell_dir :: "nat cell_directory" where
  "demo_cell_dir = \<lparr>cdir_dir = 0, cdir_cell = ''cell-1'', cdir_journal_path = ''/i/cells/cell-1/ledger.ndjson'',
     cdir_root = \<lparr>di_dev = 1, di_ino = 2\<rparr>\<rparr>"

lemma locks_ios_honest: "honest_locks locks_ios set"
proof -
  have "Suc (sum_list w) \<notin> set w" for w :: "nat list"
    using member_le_sum_list [of "Suc (sum_list w)" w] by auto
  then show ?thesis
    by (auto simp: honest_locks_def steady_def locks_ios_def still_ios_def still_os_def fail_with_def done_with_def is_ok_def)
qed

section \<open>Allocation\<close>

lemma listed_format:
  assumes "1 \<le> n" "n \<le> MAX_CELL_NUMBER"
  shows "listed_cell_number (format_cell_id n) = Some n"
proof -
  have lowered: "map to_ascii_lowercase (take (length CELL_ID_PREFIX) (format_cell_id n)) @
      drop (length CELL_ID_PREFIX) (format_cell_id n) = format_cell_id n"
    by (simp add: format_cell_id_def lower_prefix)
  have "list_all (\<lambda>x. byte_of x < 128) (format_cell_id n)"
    using show_nat_all_digits [of n]
    by (auto simp: format_cell_id_def CELL_ID_PREFIX_def list_all_iff is_ascii_digit_def byte_of_def)
  then show ?thesis
    using parse_format_cell_id [OF assms]
    by (simp add: listed_cell_number_def Let_def lowered from_utf8_ascii) (simp add: format_cell_id_def)
qed

text \<open>
  C38. A cell's number is never used twice. Other processes may act at any time, as long as a name leaves
  \<open>cells\<close> only for \<open>retired\<close>, nothing leaves \<open>retired\<close>, and the file system keeps the laws \<open>honest_files\<close> and
  \<open>never_falsely_missing\<close>: opening \<open>cells\<close> or \<open>retired\<close> always opens the one directory of that name, or answers
  \<open>ENOENT\<close> only while it has no names; a listing without an error has every name that was there all along; a
  directory that was made was there at some moment; and a directory that exists is not reported as \<open>ENOENT\<close> either
  when opening it failed with \<open>EACCES\<close> and its mode is set by name. The C library \<open>musl\<close> breaks that last law
  without \<open>/proc\<close> and \<open>fchmodat2\<close>, and the property does not cover it (see the last section). Then a cell that is
  allocated has the name of a number from 1 to the largest, above every number that any name in \<open>cells\<close> or
  \<open>retired\<close> stood for when the allocation began, and its name is taken from then on.
\<close>

theorem allocated_cell_is_new:
  assumes "honest_files ios (rt_dir rt) cells retired names"
    and "never_falsely_missing ios (only_retired cells retired) (rt_dir rt) CELLS_DIR cells"
    and "never_falsely_missing ios (only_retired cells retired) (rt_dir rt) RETIRED_DIR retired"
    and "allocate_cell ios rt lk w = (Ok cd, w')"
  shows "\<exists>n. cdir_cell cd = format_cell_id n \<and> 1 \<le> n \<and> n \<le> MAX_CELL_NUMBER \<and>
    (\<forall>x \<in> cells w \<union> retired w. \<forall>m. listed_cell_number x = Some m \<longrightarrow> m < n) \<and>
    cdir_cell cd \<in> cells w' \<union> retired w' \<and> listed_cell_number (cdir_cell cd) = Some n"
proof -
  from assms(4) have "allocate_loop ios rt lk ALLOCATION_ATTEMPTS 1 w = (Ok cd, w')"
    by (auto simp: allocate_cell_def acts split: if_splits)
  from allocate_loop_new [OF assms(1-3) this] show ?thesis using listed_format by auto
qed

theorem allocated_cell_is_new_witness:
  "\<exists>cd n. fst (allocate_cell cells_ios demo_root demo_lock ([''cell-2''], [''CELL-7'', ''cell-x''])) = Ok cd \<and>
     cdir_cell cd = format_cell_id n \<and> 7 < n"
proof -
  define w where "w = ([''cell-2''], [''CELL-7'', ''cell-x''])"
  have numbers: "listed_cell_number ''cell-2'' = Some 2" "listed_cell_number ''CELL-7'' = Some 7"
    "listed_cell_number ''cell-x'' = None" by code_simp+
  have name: "format_cell_id 8 = ''cell-8''" by code_simp
  note calls = cells_ios_def still_ios_def still_os_def cells_open_def cells_names_def cells_mkdir_def done_with_def
    fail_with_def act_then_def act_err_def or_else_def attempt_of_def checked_def carries_acl_def refuse_acl_as_def
    open_name_def change_mode_def sync_directory_def make_directory_at_def list_dir_def
  have listing: "next_cell_number cells_ios demo_root 1 w = (Ok 8, w)"
    by (simp add: next_cell_number_def largest_cell_number_def open_private_directory_def demo_root_def calls w_def
        Let_def CELLS_DIR_def RETIRED_DIR_def numbers MAX_CELL_NUMBER_def and_then_def)
  obtain cd where "create_cell_dir cells_ios demo_root demo_lock ''cell-8'' w = (Ok cd, ([''cell-2'', ''cell-8''], snd w))"
    by (simp add: create_cell_dir_def create_cells_def unless_exists_def already_def open_private_directory_def
        demo_root_def demo_lock_def calls w_def Let_def CELLS_DIR_def cell_ledger_path_def cell_path_def
        validate_cell_id_def c_name_def and_then_def EEXIST_def)
  with listing name obtain w' where run: "allocate_cell cells_ios demo_root demo_lock w = (Ok cd, w')"
    by (simp add: allocate_cell_def ALLOCATION_ATTEMPTS_def numeral_eq_Suc act_then_def or_else_def demo_root_def demo_lock_def)
  have honest: "honest_files cells_ios (rt_dir demo_root) (\<lambda>w. set (fst w)) (\<lambda>w. set (snd w)) (\<lambda>d w. set (cells_names d w))"
    using cells_ios_honest by (simp add: demo_root_def)
  have "never_falsely_missing cells_ios R (rt_dir demo_root) dir_name content" for R dir_name content
    using cells_ios_found by (simp add: demo_root_def)
  from allocated_cell_is_new [OF honest this this run] run numbers(2) show ?thesis by (auto simp: w_def)
qed

section \<open>The supervisor's lock\<close>

text \<open>
  C39. Only a free test holds a lock. Testing a cell's \<open>supervisor.lock\<close> always gives a result. If that is \<open>Free\<close>,
  the process holds exactly one lock more than before, on the file it is given back, which was opened by the name
  \<open>supervisor.lock\<close> or, when the test created it, was the file of that name when it was looked at while held. In
  every other case, whatever call failed, the process holds the locks it held before.
\<close>

theorem only_a_free_test_holds:
  assumes honest: "honest_locks ios held" and run: "test_supervisor_lock ios cd w = (r, w')"
  shows "\<exists>t. r = Ok t \<and>
    (case t of
       LtFree lk \<Rightarrow> held w' = insert (sl_file lk) (held w) \<and> sl_file lk \<notin> held w \<and>
         (seen_named ios held cd (sl_file lk) \<or>
          (\<exists>u v. io_open ios (cdir_dir cd) SUPERVISOR_LOCK_FILE (file_flags (plainly ReadOnly)) 0 u = (Ok (sl_file lk), v)))
     | _ \<Rightarrow> held w' = held w)"
proof -
  obtain r1 w1 where r1: "open_supervisor_lock ios cd w = (r1, w1)" by (cases "open_supervisor_lock ios cd w") auto
  from steadyD [OF steady_lock_parts(4) [OF honest] r1] have same: "held w1 = held w" by (simp add: holding_same_def)
  note unfolded = test_supervisor_lock_def probe_supervisor_lock_def Let_def act_then_def attempt_of_def done_with_def
    fail_with_def
  show ?thesis
  proof (cases r1)
    case (Inl e)
    with run r1 same show ?thesis by (auto simp: unfolded)
  next
    case (Inr opened)
    show ?thesis
    proof (cases opened)
      case None
      obtain r2 w2 where r2: "create_supervisor_lock ios cd w1 = (r2, w2)" by (cases "create_supervisor_lock ios cd w1") auto
      with create_supervisor_lock_holds [OF honest r2] run r1 Inr None same show ?thesis
        by (cases r2) (auto simp: unfolded)
    next
      case (Some f)
      with open_supervisor_lock_fresh [OF honest] r1 Inr have f: "f \<notin> held w"
        "\<exists>u v. io_open ios (cdir_dir cd) SUPERVISOR_LOCK_FILE (file_flags (plainly ReadOnly)) 0 u = (Ok f, v)" by blast+
      obtain r2 w2 where r2: "io_flock ios f w1 = (r2, w2)" by (cases "io_flock ios f w1") auto
      from honest_locksD(10) [OF honest r2] same have "held w2 = (if is_ok r2 then insert f (held w) else held w)" by simp
      moreover have "w' = w2 \<and> r = Ok (case r2 of
          Ok _ \<Rightarrow> LtFree \<lparr>sl_file = f, sl_path = entry_path cd SUPERVISOR_LOCK_FILE\<rparr>
        | Err e \<Rightarrow> if e = EWOULDBLOCK then LtHeld else LtUntestable (CdIo (entry_path cd SUPERVISOR_LOCK_FILE) (Errno e)))"
        using run r1 Inr Some r2
        by (cases r2) (simp_all add: unfolded lock_exclusive_nonblocking_def act_err_def split: if_splits)
      ultimately show ?thesis using f by (cases r2) (simp_all add: is_ok_def)
    qed
  qed
qed

theorem only_a_free_test_holds_witness:
  "\<exists>lk after. test_supervisor_lock locks_ios demo_cell_dir [5] = (Ok (LtFree lk) :: unit + nat lock_test, after) \<and>
     set after = insert (sl_file lk) {5} \<and> sl_file lk \<noteq> 5"
proof -
  obtain r w' where run: "test_supervisor_lock locks_ios demo_cell_dir [5] = (r :: unit + nat lock_test, w')"
    by (cases "test_supervisor_lock locks_ios demo_cell_dir [5] :: (unit + nat lock_test) \<times> nat list") auto
  have "fst (test_supervisor_lock locks_ios demo_cell_dir [5]) =
      (Ok (LtFree \<lparr>sl_file = 6, sl_path = ''/i/cells/cell-1/supervisor.lock''\<rparr>) :: unit + nat lock_test)"
    by code_simp
  with only_a_free_test_holds [OF locks_ios_honest run] run show ?thesis by auto
qed

section \<open>The marker\<close>

text \<open>A reader of objects of texts without escapes and of \<open>true\<close>, member by member.\<close>

definition small_quoted :: "string \<Rightarrow> (string \<times> string) option" where
  "small_quoted s =
     (case s of
        [] \<Rightarrow> None
      | c # rest \<Rightarrow>
          if c = CHR 0x22
          then Some (takeWhile (\<lambda>x. x \<noteq> CHR 0x22) rest, drop 1 (dropWhile (\<lambda>x. x \<noteq> CHR 0x22) rest))
          else None)"

definition small_value :: "string \<Rightarrow> (jraw \<times> string) option" where
  "small_value s =
     (if take 4 s = ''true'' then Some (RwBool True, drop 4 s)
      else map_option (\<lambda>(v, rest). (RwString v, rest)) (small_quoted s))"

fun small_members :: "nat \<Rightarrow> string \<Rightarrow> (string \<times> jraw) list option" where
  "small_members 0 s = None"
| "small_members (Suc n) s =
     (case small_quoted s of
        Some (key, c # s') \<Rightarrow>
          if c \<noteq> CHR '':'' then None
          else (case small_value s' of
              Some (v, d # rest) \<Rightarrow>
                if d = CHR ''}'' \<and> rest = [] then Some [(key, v)]
                else if d = CHR '','' then map_option ((#) (key, v)) (small_members n rest)
                else None
            | _ \<Rightarrow> None)
      | _ \<Rightarrow> None)"

definition small_reader :: json_reader where
  "small_reader s =
     (if s = ''{}'' then (RwObject [] None, None)
      else case (if take 1 s = ''{'' then small_members (length s) (drop 1 s) else None) of
        Some es \<Rightarrow> (RwObject es None, None)
      | None \<Rightarrow> (RwFault \<lparr>jf_line = 1, jf_column = 0, jf_reason = ''unexpected''\<rparr>, None))"

lemma small_quoted_text: "list_all plain_char s \<Longrightarrow> small_quoted (DQUOTE @ s @ DQUOTE @ rest) = Some (s, rest)"
proof -
  assume "list_all plain_char s"
  then have "\<forall>x \<in> set s. x \<noteq> CHR 0x22" by (auto simp: list_all_iff plain_char_def)
  then show ?thesis by (simp add: small_quoted_def DQUOTE_def takeWhile_append2 dropWhile_append2)
qed

lemma small_value_text:
  "plain_member (key, v) \<Longrightarrow> small_value (plain_value_text v @ rest) = Some (plain_raw v, rest)"
proof (cases v)
  case (PlainText s)
  moreover assume "plain_member (key, v)"
  ultimately have "small_quoted (DQUOTE @ s @ DQUOTE @ rest) = Some (s, rest)" by (simp add: small_quoted_text)
  with PlainText show ?thesis by (simp add: small_value_def DQUOTE_def)
qed (simp add: small_value_def)

lemma small_members_text:
  assumes "list_all plain_member es" "es \<noteq> []" "length es \<le> n"
  shows "small_members n (join_with CHR '','' (map plain_member_text es) @ ''}'') =
    Some (map (\<lambda>e. (fst e, plain_raw (snd e))) es)"
  using assms
proof (induction es arbitrary: n)
  case (Cons e es)
  obtain key v where e: "e = (key, v)" by (cases e)
  from Cons.prems(1) e have plain: "plain_member (key, v)" "list_all plain_char key" by (cases v; simp)+
  from Cons.prems(3) obtain n' where n: "n = Suc n'" "length es \<le> n'" by (cases n) auto
  have one: "small_members (Suc n') (plain_member_text (key, v) @ d # rest) =
      (if d = CHR ''}'' \<and> rest = [] then Some [(key, plain_raw v)]
       else if d = CHR '','' then map_option ((#) (key, plain_raw v)) (small_members n' rest) else None)" for d rest
    using small_quoted_text [OF plain(2), of "CHR '':'' # plain_value_text v @ d # rest"]
      small_value_text [OF plain(1), of "d # rest"]
    by (simp add: plain_member_text_def)
  show ?case
  proof (cases "es = []")
    case True
    with one [of "CHR ''}''" "[]"] show ?thesis by (simp add: e n(1))
  next
    case False
    with Cons.IH [OF _ False n(2)] Cons.prems(1) one [of "CHR '',''"] show ?thesis
      by (simp add: e n(1) join_with_Cons)
  qed
qed simp

lemma length_members_text: "length es \<le> length (join_with CHR '','' (map plain_member_text es))"
proof (induction es)
  case (Cons e es)
  then show ?case by (cases "es = []") (simp_all add: join_with_Cons plain_member_text_def DQUOTE_def)
qed simp

lemma small_reader_reads: "reads_plain_objects small_reader"
  unfolding reads_plain_objects_def
proof (intro allI impI)
  fix es assume plain: "list_all plain_member es"
  show "small_reader (plain_object_text es) = (RwObject (map (\<lambda>e. (fst e, plain_raw (snd e))) es) None, None)"
  proof (cases "es = []")
    case False
    let ?body = "join_with CHR '','' (map plain_member_text es) @ ''}''"
    have "small_members (Suc (length ?body)) ?body = Some (map (\<lambda>e. (fst e, plain_raw (snd e))) es)"
      by (rule small_members_text [OF plain False]) (use length_members_text [of es] in simp)
    moreover have "1 < length ?body" using length_members_text [of es] False by (cases es) auto
    ultimately show ?thesis
      by (auto simp: small_reader_def plain_object_text_def simp del: small_members.simps)
  qed (simp add: small_reader_def plain_object_text_def)
qed

text \<open>
  C40. A marker is read as it was written. For a cell whose name is one of a numbered cell, the line written for its
  marker fits the reader's bound, and reading it back for that cell gives the very marker, with its clean stop
  if it records one. It rests on what the crates document and nothing else: the JSON reader reads an object of
  plain texts and \<open>true\<close> as its members, a plain text is written between quotes, and a UUID is written as 36
  plain characters that parse to it.
\<close>

theorem marker_reads_back:
  assumes "faithful_marker_codec c (lm_boot_session m)" "parse_cell_id (lm_cell m) \<noteq> None"
  shows "length (marker_encode c m) \<le> MAX_MARKER_BYTES \<and>
    marker_of_cell c (lm_cell m) (marker_encode c m) = MrPresent m"
  using marker_roundtrip [OF assms] marker_body_text(4) [OF assms]
  by (simp add: marker_of_cell_def marker_encode_def MAX_MARKER_BYTES_def)

definition demo_marker :: launched_marker where
  "demo_marker = \<lparr>lm_cell = ''cell-12'', lm_boot_session = 7, lm_stopped = True\<rparr>"

definition demo_uuid :: string where "demo_uuid = ''00000000-0000-0000-0000-000000000007''"

definition demo_marker_codec :: marker_codec where
  "demo_marker_codec =
     \<lparr>mc_reader = small_reader,
      mc_string = \<lambda>s. DQUOTE @ s @ DQUOTE,
      mc_try_parse = \<lambda>s. if s = demo_uuid then Some 7 else None,
      mc_uuid_text = \<lambda>u. demo_uuid\<rparr>"

theorem marker_reads_back_witness:
  "marker_of_cell demo_marker_codec ''cell-12'' (marker_encode demo_marker_codec demo_marker) = MrPresent demo_marker"
proof -
  have "faithful_marker_codec demo_marker_codec (lm_boot_session demo_marker)"
    using small_reader_reads
    by (simp add: faithful_marker_codec_def quotes_plain_text_def uuid_reads_back_def demo_marker_codec_def
        demo_marker_def demo_uuid_def plain_char_def byte_of_def)
  moreover have "parse_cell_id (lm_cell demo_marker) \<noteq> None" by code_simp
  ultimately show ?thesis
    using marker_reads_back [of demo_marker_codec demo_marker] by (simp add: demo_marker_def)
qed

section \<open>A retired directory that cannot be read\<close>

text \<open>
  Where setting the mode by name fails with \<open>ENOENT\<close> although the directory exists, as the C library \<open>musl\<close>
  does without \<open>/proc\<close> and \<open>fchmodat2\<close>, an unreadable \<open>retired\<close> counts as one with no cell in it. The law
  \<open>never_falsely_missing\<close> above rules this out.
\<close>

lemma unreadable_retired_counts_as_none:
  assumes "io_open ios (rt_dir rt) RETIRED_DIR DIRECTORY_FLAGS 0 w = (Err EACCES, w1)"
    and "io_stat_at ios (rt_dir rt) RETIRED_DIR w1 = (Ok s, w2)" "fc_kind (facts_of s) = KDirectory"
    and "io_fchmod_at ios (rt_dir rt) RETIRED_DIR PRIVATE_DIRECTORY w2 = (Err ENOENT, w3)"
  shows "largest_cell_number ios rt RETIRED_DIR w = (Ok 0, w3)"
  using assms
  by (simp add: largest_cell_number_def Let_def open_private_directory_def or_else_def open_name_def act_err_def act_then_def
      attempt_of_def kind_at_def stat_name_def change_mode_at_def directory_refusal_of_def fail_with_def done_with_def
      EACCES_def ENOENT_def)

end
