(* ===== verification/Spec2Isabelle.thy ===== *)
theory Spec2Isabelle
  imports Detach Denial Manifest_Checked Cell_History Plugin_Log Attachment_Graph Version Registry Kill_Budget Cell_Names Reconciler Lifecycle Lifetime Paging Client_Reply Client_Run Publish_Socket Instance_Kept
begin

text \<open>
  A verification development for \<open>plasmosome\<close>, a kernel that gives sandboxed agents ("cells") capabilities
  by attaching plugins ("plasmids") to them and takes them away again without residue. All paths below are
  under \<open>crates/\<close>.

  \<^bold>\<open>The program and its parts.\<close> A cell is a running sandbox with a boundary that enforces what it may reach. A
  plasmid is declared in a TOML file (\<open>plasmosome-core/src/manifest.rs\<close>); its providers are chosen by version
  (\<open>version.rs\<close>), attached to the cell (\<open>closure.rs\<close>), and its tools get names there (\<open>registry.rs\<close>). Each
  effect of an attachment is one operation on an enforcement backend (\<open>plasmosome-backend\<close>): granting a
  capability or applying an operation, with a recipe that says how, and a record of what was issued. The ledger
  (\<open>plasmosome-ledger/src/lib.rs\<close>) keeps each effect with its inverse; a detach closes the ledger and replays
  the inverses in reverse through the backend. What happened to a cell is written to its journal
  (\<open>plasmosome-ledger/src/cell_journal\<close>) and is read back from it after a crash; what the boundary refused is
  counted in a book (\<open>denial.rs\<close>). A controller drives plugins through their life (\<open>lifecycle.rs\<close>), compares
  wanted and observed cells (\<open>reconciler.rs\<close>) and ends cells within a deadline (\<open>kill_budget.rs\<close>). A person
  talks to it with the client (\<open>plasmosome-cli\<close>) over a private socket (\<open>private_socket.rs\<close>, \<open>nofollow.rs\<close>).

  \<^bold>\<open>Where each part is modelled.\<close>
  \<^item> \<open>Prelude\<close>, \<open>BTree_Map\<close>, \<open>Ip_Addr\<close>, \<open>Utf8\<close>, \<open>Unicode_Text\<close>: what the source uses of Rust and its standard
    library: \<open>Result\<close> as a sum with \<open>Ok\<close> and \<open>Err\<close>, \<open>?\<close> as \<open>and_then\<close>, integers at their width with checked and
    saturating operations, ordered maps and sets as the increasing list of their entries, IP literals, text as
    bytes or as scalar values. \<open>Calendar\<close>, \<open>Lifetime\<close>: \<open>plasmosome-backend/src/lifetime.rs\<close> and \<open>clock.rs\<close>, the
    RFC 3339 text, the bounds on a lifetime and the questions asked of them.
  \<^item> The backend. \<open>Recipe\<close> is \<open>recipe.rs\<close>; \<open>Universe\<close> is \<open>universe.rs\<close> with the data of \<open>backend.rs\<close> (capabilities,
    objects, operations, removals and the state of standing objects); \<open>Snapshot\<close> is \<open>snapshot.rs\<close>; \<open>Account\<close> is
    the abstract account of a backend (what stands, what is unfinished, which records are issued), and
    \<open>Backend_Contract\<close> states the trait \<open>EnforcementBackend\<close> as the locales \<open>enforcement_backend\<close> and
    \<open>observable_backend\<close> over it. \<open>Fake_Backend\<close> (\<open>fake.rs\<close>, every injected failure included) and
    \<open>Composite_Backend\<close> (\<open>composite.rs\<close>, three leaves behind one) interpret both locales. \<open>Digest\<close> is \<open>digest.rs\<close>,
    \<open>Paging\<close> is \<open>paging.rs\<close>.
  \<^item> The ledger. \<open>Ledger\<close> is the detach of \<open>plasmosome-ledger/src/lib.rs\<close>: \<open>ledger_close\<close>, \<open>detach_with\<close>, \<open>replay\<close>
    and \<open>replay_loop\<close> over any backend that meets the contract; \<open>Detach\<close> carries its lemmas to sequences of
    detaches over the composite of in-memory backends. \<open>Plugin_Log\<close> is the log file of the same source file.
    \<open>Artifact\<close> is \<open>artifact.rs\<close>; \<open>Cell_Journal\<close> is one record of the journal (\<open>parse_record\<close>, \<open>encode_record\<close>);
    \<open>Cell_History\<close> is the history and its reader (\<open>history_admit\<close>, \<open>history_apply\<close>, \<open>read_cell_history\<close>).
  \<^item> The controller, \<open>plasmosome-core/src\<close>. \<open>Attachment_Graph\<close> (\<open>closure.rs\<close>), \<open>Version\<close>, \<open>Registry\<close>, \<open>Kill_Budget\<close>,
    \<open>Cell_Names\<close> (\<open>state.rs\<close>), \<open>Reconciler\<close>, \<open>Lifecycle\<close> (\<open>lifecycle.rs\<close> and \<open>gatekeeper.rs\<close>), \<open>Denial\<close>. The
    declaration is \<open>Toml_Text\<close>, \<open>Toml_Value\<close>, \<open>Cidr\<close>, \<open>Manifest\<close> (\<open>manifest.rs\<close>: \<open>manifest_load\<close>, \<open>manifest_parse\<close>,
    one definition per check) with \<open>Toml_Depth\<close> (\<open>toml_depth.rs\<close>), and \<open>Manifest_Checked\<close> says what a parsed
    declaration keeps to.
  \<^item> The socket and the client. \<open>Nofollow\<close> and \<open>Private_Socket\<close> are the path walk and the private directory;
    \<open>Publish_Socket\<close> is what publishing shows to other processes. The client's JSON is \<open>Json_Scan\<close>, \<open>Json_Number\<close>,
    \<open>Json_Write\<close> and \<open>Json\<close> (\<open>json.rs\<close>); \<open>Client_Error\<close>, \<open>Client_Envelope\<close>, \<open>Client_Reply\<close>, \<open>Client_Request\<close>,
    \<open>Client_Commands\<close>, \<open>Client_Line\<close>, \<open>Client_Select\<close> and \<open>Client_Run\<close> are the other files of \<open>plasmosome-cli/src\<close>,
    in the order a command passes through them backwards: what is printed, what is read, what is sent, what may
    be asked, how the line is read, which instance is meant, and the run that joins them.
  \<^item> The instance directory. \<open>Strict_Json\<close> is \<open>runtime/strict_json.rs\<close> and \<open>runtime/line.rs\<close>, \<open>Cell_Marker\<close> the cell
    numbers of \<open>runtime/cell_id.rs\<close> and the \<open>launched\<close> marker; \<open>Instance_Calls\<close>, \<open>Instance\<close> and \<open>Cell_Directory\<close> are
    \<open>instance.rs\<close>: its helpers over the calls of the operating system, the root with its writer lock (\<open>root_open\<close>,
    \<open>root_lock\<close>, \<open>discover\<close>, \<open>allocate_cell\<close>, \<open>retire\<close>), and one cell's directory with its markers and its supervisor's
    lock. \<open>Supervisor_Check\<close> is \<open>supervisor_check.rs\<close>. \<open>Instance_Safety\<close> and \<open>Instance_Kept\<close> say what the calls add up
    to over a system whose promises are \<open>honest_files\<close>, \<open>never_falsely_missing\<close> and \<open>honest_locks\<close>.

  \<^bold>\<open>How the code is translated.\<close> A struct is a record and an enum a datatype; a method that changes its receiver
  returns it changed, with its result, as a pair. Errors are values of a sum type, one constructor for each of the
  source's. Instants are nanoseconds from the clock's origin. A loop is structural recursion, or a \<open>function\<close> whose
  measure is proved to fall, or (the halving search of \<open>lock_wait_until\<close>, which need not end on every clock) a
  \<open>partial_function\<close> into option; an \<open>expect\<close> or an index that would panic is \<open>None\<close>, and is proved not to occur where
  a property depends on it. The operating system is one of two things: its answers, a trace with one
  entry per call (\<open>Client_Reply\<close>, the journal's reader) or a record of them (\<open>Plugin_Log\<close>), or a record of calls
  over a state of the world of any type (\<open>Nofollow\<close> and what builds on it), so that anything may happen between
  two calls. A trace that ends before
  the code would gives \<open>None\<close>: the run is not over. What a property then claims of a run that ends is paired with one
  that says when it ends and what it then delivers (of the exchange, the paged transfer, the forced detach and the
  lock wait).

  \<^bold>\<open>Parameters.\<close> Code that is not in the repository is an argument of the definitions that use it: SHA-256 and the
  random text of a secret; \<open>serde_json\<close> as an encoder and decoder of single records (\<open>log_codec\<close>, the journal's
  codec, the page codec, the length of an encoded event); the \<open>toml\<close> and \<open>serde\<close> crates as a \<open>toml_lib\<close>; the UUID
  parser. Where a property needs one of them to behave, that is a named hypothesis (\<open>faithful_log_codec\<close> of an
  appended log, \<open>faithful_marker_codec\<close> of a marker) stating its documented behaviour, and the property's witness
  gives it a concrete function. The codecs of records also stand for the serde code of effects and operations
  (\<open>wire.rs\<close>, \<open>universe.rs\<close>), which is not modelled; no property of the journal assumes anything of its codec.
  The record of system calls includes what \<open>nofollow.rs\<close> makes of a few of them: whether a descriptor carries an
  access control list, whether one lets others replace entries, and whether a file system ignores ownership.

  \<^bold>\<open>What the lemmas show.\<close>
  \<^item> A detach that succeeds leaves no residue in the backend, a forced one always gets there, and every detach
    is bound to the cell it began in (\<open>Detach\<close>): the locales' laws are proved once for each backend, the ledger's
    lemmas once for every backend.
  \<^item> Removing a plugin takes exactly the least closed set of plugins and leaves a sound graph, attaching keeps it
    sound (\<open>Attachment_Graph\<close>); the best version is chosen (\<open>Version\<close>); tool names are registered all or none
    (\<open>Registry\<close>).
  \<^item> Time: shares of a kill stay within its deadline and the halving search of the lock wait ends (\<open>Kill_Budget\<close>);
    timestamps read back (\<open>Calendar\<close>); a fence holds until its bound has passed (\<open>Lifetime\<close>).
  \<^item> Transfers: a paged account arrives whole and unmixed or not at all (\<open>Paging\<close>).
  \<^item> Journals: the history is the refinement of the list of its transactions, identities match what stands,
    addresses are never used twice, the first bad line is named, what is read is valid (\<open>Cell_History\<close>,
    \<open>Cell_Journal\<close>); an append keeps the log (\<open>Plugin_Log\<close>).
  \<^item> Denials: the book is bounded, lines wait until they are acknowledged, and every denial is accounted for.
  \<^item> Declarations: what is parsed keeps every rule, a refusal cannot drive the terminal, the counted depth is the
    depth of the value, a network is canonical.
  \<^item> The client: JSON is read as it was written and what is read is well formed; a printed line reads back; a
    reply is judged exactly, the exit status is honest, a request fits its bound; only a checked line is run; a
    path that passes the check is private; publishing never shows a socket that is not; default selection is
    never a guess.
  \<^item> The instance: a cell's number is never used twice (but see the end of \<open>Instance_Kept\<close> for the one C library
    that breaks \<open>never_falsely_missing\<close>), only a free test holds a supervisor's lock and every failure
    releases what it took, a marker reads back as it was written.

  \<^bold>\<open>Bounds and fuel.\<close> No definition that models code takes fuel. The sizes the code bounds are its own
  constants: 16 MiB for a reply, a declaration's \<open>MAX_MANIFEST_BYTES\<close> and \<open>MAX_MANIFEST_DEPTH\<close>, 1024 bytes for a log event, the limits
  record of the book of denials. Counts that the code keeps in \<open>u64\<close> are words where a carry can be reached
  (sequence numbers, generations, milliseconds of a deadline) and natural numbers where the code's own bound keeps
  them far below it.

  \<^bold>\<open>Not modelled.\<close> Serde's wire shapes of recipes, universe, snapshots and the
  guest protocol: they are derived by a macro of another crate. The membrane (\<open>plasmosome-membrane\<close>): forking, signals,
  confinement and the hypervisor's library, unsafe calls whose effect is the operating system's. The daemon's threads
  and sockets, the session log's file calls, the operator's sources (not called yet by a product path), the
  authoring command \<open>plasmid\<close>, and everything that only tests or builds the repository (\<open>plasmosome-testkit\<close>,
  \<open>-guards\<close>, \<open>-lanes\<close>, \<open>-tools\<close>). Display texts of errors are modelled where a person or a program reads them (the
  client, the declaration, the walk, the journal's refusals) and left out elsewhere. Dropping a value has no model
  unless the drop does something: then it is written out where it happens.
\<close>

end
